(* ===== verification/Prelude.thy ===== *)
theory Prelude
  imports Complex_Main "HOL-Library.Word" "HOL-Library.Finite_Map" "HOL-Library.List_Lexorder"
    "HOL-Library.Char_ord" "HOL-Library.Multiset"
begin

text \<open>
  What every component of the development shares: the names of the model's scalar types, the
  arithmetic of Go's \<open>time.Duration\<close> and \<open>time.Time\<close>, finite maps as Go maps, and sorting by a
  comparison function as \<open>sort.Slice\<close> does it.

  \<^item> A \<open>time.Time\<close> is the number of nanoseconds since Go's zero time (1 January of year 1, UTC), an
    unbounded integer; the zero value, for which \<open>IsZero\<close> holds, is 0. Locations and monotonic
    readings are not part of the model.
  \<^item> A \<open>time.Duration\<close> is an integer number of nanoseconds. \<open>Time.Sub\<close> saturates at the ends of
    the 64-bit range (\<open>time_sub\<close>), and arithmetic that can leave that range wraps around
    (\<open>wrap64\<close>).
  \<^item> A \<open>float64\<close> is an exact rational number: rounding, NaN and the infinities are outside the
    model, and the places where the source handles them say so.
  \<^item> A Go map that is iterated, counted or updated is a finite map \<open>('k, 'v) fmap\<close>; one that is
    only read is a function into \<open>option\<close>, or into the value type where the source relies on the
    zero value of a missing key.
\<close>

section \<open>Scalars\<close>

type_synonym time = int
type_synonym duration = int
type_synonym float64 = rat

named_theorems policy_simps "unfolding rules of the small operations of the policy components"

definition maxDuration :: duration where
  "maxDuration = 2 ^ 63 - 1"

definition minDuration :: duration where
  "minDuration = - (2 ^ 63)"

text \<open>\<open>t.Sub(u)\<close>: the difference, saturating at the ends of the \<open>Duration\<close> range.\<close>

definition time_sub :: "time \<Rightarrow> time \<Rightarrow> duration" where
  "time_sub t u = max minDuration (min maxDuration (t - u))"

text \<open>Two's complement wrap-around of a 64-bit result.\<close>

definition wrap64 :: "int \<Rightarrow> int" where
  "wrap64 x = (x + 2 ^ 63) mod 2 ^ 64 - 2 ^ 63"

definition Second :: duration where "Second = 1000000000"
definition Millisecond :: duration where "Millisecond = 1000000"
definition Minute :: duration where "Minute = 60 * Second"
definition Hour :: duration where "Hour = 60 * Minute"

lemmas duration_units = Second_def Millisecond_def Minute_def Hour_def

lemma time_sub_in_range: "minDuration \<le> time_sub t u" "time_sub t u \<le> maxDuration"
  by (auto simp: time_sub_def minDuration_def maxDuration_def)

lemma time_sub_exact:
  "minDuration \<le> t - u \<Longrightarrow> t - u \<le> maxDuration \<Longrightarrow> time_sub t u = t - u"
  by (simp add: time_sub_def)

lemma time_sub_mono: "t \<le> t' \<Longrightarrow> time_sub t u \<le> time_sub t' u"
  by (auto simp: time_sub_def)

lemma time_sub_less_iff:
  "minDuration < d \<Longrightarrow> d \<le> maxDuration \<Longrightarrow> time_sub t u < d \<longleftrightarrow> t - u < d"
  by (auto simp: time_sub_def)

lemma wrap64_exact: "- (2 ^ 63) \<le> x \<Longrightarrow> x < 2 ^ 63 \<Longrightarrow> wrap64 x = x"
  by (simp add: wrap64_def)

lemma wrap64_in_range: "- (2 ^ 63) \<le> wrap64 x" "wrap64 x < 2 ^ 63"
proof -
  have "0 \<le> (x + 2 ^ 63) mod 2 ^ 64" "(x + 2 ^ 63) mod 2 ^ 64 < (2 ^ 64 :: int)"
    by simp_all
  then show "- (2 ^ 63) \<le> wrap64 x" "wrap64 x < 2 ^ 63"
    by (simp_all add: wrap64_def)
qed

section \<open>Finite maps as Go maps\<close>

text \<open>\<open>len(m)\<close>.\<close>

definition fmlen :: "('k, 'v) fmap \<Rightarrow> nat" where
  "fmlen m = card (fmdom' m)"

text \<open>\<open>m[k]\<close> of a map whose zero value is \<open>z\<close>.\<close>

definition fmget :: "'v \<Rightarrow> ('k, 'v) fmap \<Rightarrow> 'k \<Rightarrow> 'v" where
  "fmget z m k = (case fmlookup m k of None \<Rightarrow> z | Some v \<Rightarrow> v)"

lemma finite_fmdom' [simp]: "finite (fmdom' m)"
  by simp

lemma fmdom'_iff: "k \<in> fmdom' m \<longleftrightarrow> (\<exists>v. fmlookup m k = Some v)"
  by (auto simp: fmlookup_dom'_iff)

lemma fmlen_empty [simp]: "fmlen fmempty = 0"
  by (simp add: fmlen_def)

lemma fmlen_upd_present [simp]: "k \<in> fmdom' m \<Longrightarrow> fmlen (fmupd k v m) = fmlen m"
  by (simp add: fmlen_def insert_absorb)

lemma fmlen_upd_le: "fmlen (fmupd k v m) \<le> Suc (fmlen m)"
  by (simp add: fmlen_def card_insert_if)

lemma fmlen_drop_le: "fmlen (fmdrop k m) \<le> fmlen m"
  by (simp add: fmlen_def card_Diff_singleton_if)

lemma fmlen_drop_present: "k \<in> fmdom' m \<Longrightarrow> Suc (fmlen (fmdrop k m)) = fmlen m"
  using card_Suc_Diff1 [of "fmdom' m" k] by (simp add: fmlen_def del: card_Diff_singleton)

lemma fmget_upd [simp]: "fmget z (fmupd k v m) k' = (if k = k' then v else fmget z m k')"
  by (simp add: fmget_def)

lemma fmget_empty [simp]: "fmget z fmempty k = z"
  by (simp add: fmget_def)

lemma in_fmget_Nil_iff: "e \<in> set (fmget [] m k) \<longleftrightarrow> (\<exists>es. fmlookup m k = Some es \<and> e \<in> set es)"
  by (cases "fmlookup m k") (auto simp: fmget_def)

lemma fmget_Some: "fmlookup m k = Some v \<Longrightarrow> fmget z m k = v"
  by (simp add: fmget_def)

section \<open>Sorting with a comparison function\<close>

text \<open>
  \<open>sort.Slice(xs, lt)\<close>. The model is a stable insertion sort; where \<open>lt\<close> is total on the
  elements, which is where the source relies on a deterministic order, the result does not
  depend on the algorithm (\<open>sort_by_unique\<close> in the locale below).
\<close>

fun insort_by :: "('a \<Rightarrow> 'a \<Rightarrow> bool) \<Rightarrow> 'a \<Rightarrow> 'a list \<Rightarrow> 'a list" where
  "insort_by lt x [] = [x]"
| "insort_by lt x (y # ys) = (if lt y x then y # insort_by lt x ys else x # y # ys)"

definition sort_by :: "('a \<Rightarrow> 'a \<Rightarrow> bool) \<Rightarrow> 'a list \<Rightarrow> 'a list" where
  "sort_by lt xs = foldr (insort_by lt) xs []"

lemma mset_insort_by [simp]: "mset (insort_by lt x xs) = add_mset x (mset xs)"
  by (induction xs) auto

lemma mset_sort_by [simp]: "mset (sort_by lt xs) = mset xs"
  by (induction xs) (auto simp: sort_by_def)

lemma set_sort_by [simp]: "set (sort_by lt xs) = set xs"
  by (metis mset_sort_by set_mset_mset)

lemma length_sort_by [simp]: "length (sort_by lt xs) = length xs"
  by (metis mset_sort_by size_mset)

lemma distinct_map_sort_by:
  "distinct (map f (sort_by lt xs)) \<longleftrightarrow> distinct (map f xs)"
  by (metis mset_map mset_sort_by mset_eq_imp_distinct_iff)

text \<open>The contract of \<open>sort.Slice\<close>: the comparison is a strict weak order.\<close>

locale strict_weak_order =
  fixes lt :: "'a \<Rightarrow> 'a \<Rightarrow> bool"
  assumes lt_asym: "lt x y \<Longrightarrow> \<not> lt y x"
    and lt_negtrans: "lt x z \<Longrightarrow> lt x y \<or> lt y z"
begin

lemma lt_irrefl: "\<not> lt x x"
  using lt_asym by blast

lemma lt_trans: "lt x y \<Longrightarrow> lt y z \<Longrightarrow> lt x z"
  using lt_negtrans [of x y z] lt_asym by blast

lemma insort_by_sorted:
  "sorted_wrt (\<lambda>a b. \<not> lt b a) xs \<Longrightarrow> sorted_wrt (\<lambda>a b. \<not> lt b a) (insort_by lt x xs)"
proof (induction xs)
  case Nil
  then show ?case by simp
next
  case (Cons y ys)
  have set: "set (insort_by lt x ys) = insert x (set ys)"
    by (metis mset_insort_by set_mset_add_mset_insert set_mset_mset)
  show ?case
    using Cons set lt_asym lt_negtrans by (auto dest: lt_negtrans)
qed

lemma sort_by_sorted: "sorted_wrt (\<lambda>a b. \<not> lt b a) (sort_by lt xs)"
  by (induction xs) (auto simp: sort_by_def insort_by_sorted)

lemma sorted_unique:
  assumes "sorted_wrt (\<lambda>a b. \<not> lt b a) xs" "sorted_wrt (\<lambda>a b. \<not> lt b a) ys"
    and "mset xs = mset ys"
    and "\<And>a b. a \<in> set xs \<Longrightarrow> b \<in> set xs \<Longrightarrow> \<not> lt a b \<Longrightarrow> \<not> lt b a \<Longrightarrow> a = b"
  shows "xs = ys"
  using assms
proof (induction xs arbitrary: ys)
  case Nil
  then show ?case by simp
next
  case (Cons x xs)
  then obtain y ys' where ys: "ys = y # ys'"
    by (cases ys) auto
  have sets: "set (x # xs) = set ys"
    using Cons.prems(3) by (metis set_mset_mset)
  have xy: "x = y"
  proof (rule Cons.prems(4))
    show "x \<in> set (x # xs)" "y \<in> set (x # xs)" using ys sets by auto
    show "\<not> lt x y"
    proof (cases "x = y")
      case True then show ?thesis using lt_irrefl by simp
    next
      case False
      then have "x \<in> set ys'" using sets ys by auto
      then show ?thesis using Cons.prems(2) ys by auto
    qed
    show "\<not> lt y x"
    proof (cases "x = y")
      case True then show ?thesis using lt_irrefl by simp
    next
      case False
      then have "y \<in> set xs" using sets ys by auto
      then show ?thesis using Cons.prems(1) by auto
    qed
  qed
  have "xs = ys'"
  proof (rule Cons.IH)
    show "sorted_wrt (\<lambda>a b. \<not> lt b a) xs" "sorted_wrt (\<lambda>a b. \<not> lt b a) ys'"
      using Cons.prems ys by auto
    show "mset xs = mset ys'" using Cons.prems(3) ys xy by simp
    show "\<And>a b. a \<in> set xs \<Longrightarrow> b \<in> set xs \<Longrightarrow> \<not> lt a b \<Longrightarrow> \<not> lt b a \<Longrightarrow> a = b"
      using Cons.prems(4) by auto
  qed
  with xy ys show ?case by simp
qed

text \<open>Any sorted permutation is the model's result where the order is total on the elements.\<close>

lemma sort_by_unique:
  assumes "sorted_wrt (\<lambda>a b. \<not> lt b a) ys" and "mset ys = mset xs"
    and "\<And>a b. a \<in> set xs \<Longrightarrow> b \<in> set xs \<Longrightarrow> \<not> lt a b \<Longrightarrow> \<not> lt b a \<Longrightarrow> a = b"
  shows "sort_by lt xs = ys"
  using assms by (intro sorted_unique) (auto simp: sort_by_sorted)

end

text \<open>Go's \<open><\<close> on any linearly ordered key is such an order.\<close>

interpretation less_linorder: strict_weak_order "(<) :: 'a :: linorder \<Rightarrow> 'a \<Rightarrow> bool"
  by unfold_locales auto

end
