(* ===== verification/Netpfx.thy ===== *)
theory Netpfx
  imports Prelude
begin

unbundle bit_operations_syntax

text \<open>
  The prefix and AS number helpers of \<open>internal/netpfx\<close>, over a model of the parts of the
  standard package \<open>net/netip\<close> the source uses.

  An \<open>addr\<close> is the zero \<open>netip.Addr\<close>, an IPv4 or an IPv6 address; IPv6 zones do not occur in a
  \<open>netip.Prefix\<close>. A \<open>prefix\<close> is an address and a length, the length -1 for an invalid prefix,
  as \<open>Bits()\<close> reports it. \<open>PrefixFrom\<close> keeps the address of an invalid prefix, as the library does.
\<close>

section \<open>Addresses and prefixes (net/netip)\<close>

datatype addr = NoAddr | V4 "32 word" | V6 "128 word"

datatype prefix = Pfx (Addr: addr) (Bits: int)

fun BitLen :: "addr \<Rightarrow> int" where
  "BitLen NoAddr = 0"
| "BitLen (V4 _) = 32"
| "BitLen (V6 _) = 128"

fun addr_bits :: "addr \<Rightarrow> nat" where
  "addr_bits NoAddr = 0"
| "addr_bits (V4 w) = unat w"
| "addr_bits (V6 w) = unat w"

definition zeroPrefix :: prefix where
  "zeroPrefix = Pfx NoAddr (-1)"

text \<open>\<open>Prefix.IsValid\<close> and \<open>netip.PrefixFrom\<close>.\<close>

definition IsValid :: "prefix \<Rightarrow> bool" where
  "IsValid p \<longleftrightarrow> 0 \<le> Bits p"

definition PrefixFrom :: "addr \<Rightarrow> int \<Rightarrow> prefix" where
  "PrefixFrom a b = Pfx a (if a \<noteq> NoAddr \<and> 0 \<le> b \<and> b \<le> BitLen a then b else -1)"

text \<open>A prefix as the library builds it: the length fits the address, or the prefix is invalid.\<close>

definition wf_prefix :: "prefix \<Rightarrow> bool" where
  "wf_prefix p \<longleftrightarrow> Bits p = -1 \<or> (Addr p \<noteq> NoAddr \<and> 0 \<le> Bits p \<and> Bits p \<le> BitLen (Addr p))"

text \<open>The address with the host bits cleared.\<close>

fun mask_addr :: "addr \<Rightarrow> nat \<Rightarrow> addr" where
  "mask_addr NoAddr b = NoAddr"
| "mask_addr (V4 w) b = V4 (w AND NOT (mask (32 - b)))"
| "mask_addr (V6 w) b = V6 (w AND NOT (mask (128 - b)))"

text \<open>\<open>Prefix.Masked\<close>: the zero prefix for an invalid one.\<close>

definition Masked :: "prefix \<Rightarrow> prefix" where
  "Masked p = (if IsValid p then Pfx (mask_addr (Addr p) (nat (Bits p))) (Bits p) else zeroPrefix)"

text \<open>\<open>Prefix.Contains\<close>: the same family and the same leading \<open>Bits\<close> bits.\<close>

fun same_lead :: "nat \<Rightarrow> addr \<Rightarrow> addr \<Rightarrow> bool" where
  "same_lead b (V4 v) (V4 w) = (drop_bit (32 - b) (v XOR w) = 0)"
| "same_lead b (V6 v) (V6 w) = (drop_bit (128 - b) (v XOR w) = 0)"
| "same_lead b _ _ = False"

definition Contains :: "prefix \<Rightarrow> addr \<Rightarrow> bool" where
  "Contains p a \<longleftrightarrow> IsValid p \<and> same_lead (nat (Bits p)) (Addr p) a"

section \<open>The order of addresses and prefixes\<close>

text \<open>
  \<open>Addr.Compare\<close> orders by address length, then by value. \<open>Less\<close> orders prefixes by address, then
  by length; it is the order of the \<open>linorder\<close> instance below, so the library's sorting applies
  to prefixes.
\<close>

definition addr_less :: "addr \<Rightarrow> addr \<Rightarrow> bool" where
  "addr_less a b \<longleftrightarrow>
     BitLen a < BitLen b \<or> BitLen a = BitLen b \<and> addr_bits a < addr_bits b"

lemma addr_eq_iff: "a = b \<longleftrightarrow> BitLen a = BitLen b \<and> addr_bits a = addr_bits b"
  by (cases a; cases b) (auto simp: word_unat_eq_iff)

definition Less :: "prefix \<Rightarrow> prefix \<Rightarrow> bool" where
  "Less a b = (if Addr a \<noteq> Addr b then addr_less (Addr a) (Addr b) else Bits a < Bits b)"

instantiation prefix :: linorder
begin

definition less_prefix :: "prefix \<Rightarrow> prefix \<Rightarrow> bool" where
  "less_prefix a b = Less a b"

definition less_eq_prefix :: "prefix \<Rightarrow> prefix \<Rightarrow> bool" where
  "less_eq_prefix a b \<longleftrightarrow> a = b \<or> Less a b"

instance
proof
  fix x y z :: prefix
  show "x < y \<longleftrightarrow> x \<le> y \<and> \<not> y \<le> x"
    by (cases x; cases y)
      (auto simp: less_prefix_def less_eq_prefix_def Less_def addr_less_def addr_eq_iff
        split: if_splits)
  show "x \<le> x"
    by (simp add: less_eq_prefix_def)
  show "x \<le> y \<Longrightarrow> y \<le> z \<Longrightarrow> x \<le> z"
    by (cases x; cases y; cases z)
      (auto simp: less_eq_prefix_def Less_def addr_less_def addr_eq_iff split: if_splits)
  show "x \<le> y \<Longrightarrow> y \<le> x \<Longrightarrow> x = y"
    by (cases x; cases y)
      (auto simp: less_eq_prefix_def Less_def addr_less_def addr_eq_iff split: if_splits)
  show "x \<le> y \<or> y \<le> x"
    by (cases x; cases y)
      (auto simp: less_eq_prefix_def Less_def addr_less_def addr_eq_iff split: if_splits)
qed

end

lemma Less_eq_less: "Less = (<)"
  by (simp add: fun_eq_iff less_prefix_def)

interpretation Less: strict_weak_order Less
  by (unfold_locales) (auto simp: Less_eq_less)

section \<open>The helpers of internal/netpfx\<close>

text \<open>The origin of an AS path, or 0 for an empty path.\<close>

definition LastAS :: "32 word list \<Rightarrow> 32 word" where
  "LastAS path = (if path = [] then 0 else path ! (length path - 1))"

definition Sort :: "prefix list \<Rightarrow> prefix list" where
  "Sort ps = sort_by Less ps"

text \<open>
  The keys of a map in \<open>Less\<close> order. Go iterates the keys in an unspecified order before it sorts
  them; the sorted list of distinct keys does not depend on it.
\<close>

definition SortedKeys :: "(prefix, 'v) fmap \<Rightarrow> prefix list" where
  "SortedKeys m = sorted_list_of_set (fmdom' m)"

fun CoveredBy :: "prefix list \<Rightarrow> prefix \<Rightarrow> bool" where
  "CoveredBy [] p = False"
| "CoveredBy (a # list) p =
     (if Bits a \<le> Bits p \<and> Contains a (Addr p) then True else CoveredBy list p)"

datatype relation = RelExact | RelCovering | RelMoreSpecific | RelNone

definition Relation :: "prefix \<Rightarrow> prefix \<Rightarrow> relation" where
  "Relation q0 p0 =
     (let q = Masked q0; p = Masked p0 in
      if p = q then RelExact
      else if Bits p > 0 \<and> Bits p < Bits q \<and> Contains p (Addr q) then RelCovering
      else if Bits p > Bits q \<and> Contains q (Addr p) then RelMoreSpecific
      else RelNone)"

text \<open>
  How \<open>p\<close> relates to the searched prefix, and whether the row belongs to the search: the prefix
  relates, or one of its origins is among the searched AS numbers.
\<close>

fun match_origin :: "32 word list \<Rightarrow> 32 word list \<Rightarrow> bool" where
  "match_origin asns [] = False"
| "match_origin asns (o1 # rest) = (if o1 \<noteq> 0 \<and> o1 \<in> set asns then True else match_origin asns rest)"

definition Match :: "prefix \<Rightarrow> 32 word list \<Rightarrow> prefix \<Rightarrow> 32 word list \<Rightarrow> relation \<times> bool" where
  "Match q asns p origins =
     (let rel = (if IsValid q then Relation q p else RelNone) in
      if rel \<noteq> RelNone then (rel, True)
      else (RelNone, match_origin asns origins))"

section \<open>Lemmas\<close>

text \<open>The set of addresses a valid prefix covers.\<close>

definition addrs_of :: "prefix \<Rightarrow> addr set" where
  "addrs_of p = {a. Contains p a}"

lemma drop_bit_xor_zero_iff:
  "drop_bit n (v XOR w) = (0 :: 'a :: len word) \<longleftrightarrow> drop_bit n v = drop_bit n w"
  by (auto simp: bit_eq_iff bit_simps)

lemma same_lead_iff:
  "same_lead b (V4 v) (V4 w) \<longleftrightarrow> drop_bit (32 - b) v = drop_bit (32 - b) w"
  "same_lead b (V6 v') (V6 w') \<longleftrightarrow> drop_bit (128 - b) v' = drop_bit (128 - b) w'"
  by (simp_all only: same_lead.simps drop_bit_xor_zero_iff)

lemma same_lead_refl: "a \<noteq> NoAddr \<Longrightarrow> same_lead b a a"
  by (cases a) auto

lemma same_lead_sym: "same_lead b a c \<Longrightarrow> same_lead b c a"
  by (cases a; cases c) (auto simp: xor.commute)

lemma same_lead_trans: "same_lead b a c \<Longrightarrow> same_lead b c d \<Longrightarrow> same_lead b a d"
  by (cases a; cases c; cases d) (auto simp only: same_lead_iff same_lead.simps)

lemma drop_bit_eq_mono:
  "drop_bit m v = drop_bit m w \<Longrightarrow> m \<le> n \<Longrightarrow> drop_bit n v = drop_bit n (w :: 'a :: len word)"
proof -
  assume eq: "drop_bit m v = drop_bit m w" and "m \<le> n"
  then obtain k where n: "n = m + k" using le_Suc_ex by blast
  have "drop_bit k (drop_bit m v) = drop_bit k (drop_bit m w)" using eq by simp
  then show ?thesis by (simp add: n add.commute)
qed

lemma same_lead_shorter: "same_lead b a c \<Longrightarrow> b' \<le> b \<Longrightarrow> same_lead b' a c"
  by (cases a; cases c)
    (auto simp only: same_lead_iff same_lead.simps intro: drop_bit_eq_mono diff_le_mono2)

lemma Contains_own_addr: "wf_prefix p \<Longrightarrow> IsValid p \<Longrightarrow> Contains p (Addr p)"
  by (auto simp: Contains_def IsValid_def wf_prefix_def same_lead_refl)

text \<open>A prefix that is no longer than another and contains its address covers all of it.\<close>

lemma covers_addrs:
  assumes "Bits a \<le> Bits p" and "Contains a (Addr p)"
  shows "addrs_of p \<subseteq> addrs_of a"
proof
  fix x assume "x \<in> addrs_of p"
  then have "same_lead (nat (Bits p)) (Addr p) x"
    by (simp add: addrs_of_def Contains_def)
  then have "same_lead (nat (Bits a)) (Addr p) x"
    by (rule same_lead_shorter) (use assms in simp)
  with assms show "x \<in> addrs_of a"
    by (auto simp: addrs_of_def Contains_def intro: same_lead_trans)
qed

lemma CoveredBy_iff:
  "CoveredBy list p \<longleftrightarrow> (\<exists>a \<in> set list. Bits a \<le> Bits p \<and> Contains a (Addr p))"
  by (induction list) auto

lemma Sort_sorted: "sorted_wrt (\<lambda>a b. \<not> Less b a) (Sort ps)"
  unfolding Sort_def by (rule Less.sort_by_sorted)

lemma set_SortedKeys [simp]: "set (SortedKeys m) = fmdom' m"
  by (simp add: SortedKeys_def)

lemma distinct_SortedKeys [simp]: "distinct (SortedKeys m)"
  by (simp add: SortedKeys_def)

lemma sorted_SortedKeys: "sorted_wrt (<) (SortedKeys m)"
  by (simp add: SortedKeys_def strict_sorted_iff)

lemma length_SortedKeys [simp]: "length (SortedKeys m) = fmlen m"
  by (simp add: SortedKeys_def fmlen_def)

lemma SortedKeys_empty [simp]: "SortedKeys fmempty = []"
  by (simp add: SortedKeys_def)

lemma IsValid_zeroPrefix [simp]: "\<not> IsValid zeroPrefix"
  by (simp add: IsValid_def zeroPrefix_def)

lemma wf_PrefixFrom: "wf_prefix (PrefixFrom a b)"
  by (simp add: wf_prefix_def PrefixFrom_def)

lemma Bits_Masked: "Bits (Masked p) = (if IsValid p then Bits p else -1)"
  by (simp add: Masked_def zeroPrefix_def)

lemma IsValid_Masked [simp]: "IsValid (Masked p) = IsValid p"
  by (simp add: IsValid_def Bits_Masked)

lemma mask_addr_NoAddr_iff [simp]: "mask_addr a b = NoAddr \<longleftrightarrow> a = NoAddr"
  by (cases a) auto

lemma mask_addr_idem [simp]: "mask_addr (mask_addr a b) b = mask_addr a b"
  by (cases a) (auto simp: ac_simps)

lemma BitLen_mask_addr [simp]: "BitLen (mask_addr a b) = BitLen a"
  by (cases a) auto

lemma Masked_idem [simp]: "Masked (Masked p) = Masked p"
  by (simp add: Masked_def IsValid_def zeroPrefix_def)

lemma wf_Masked: "wf_prefix p \<Longrightarrow> wf_prefix (Masked p)"
  by (auto simp: Masked_def wf_prefix_def zeroPrefix_def IsValid_def)

text \<open>Clearing the host bits of an address is what comparing leading bits looks at.\<close>

lemma and_not_mask_eq_iff:
  "v AND NOT (mask n) = w AND NOT (mask n) \<longleftrightarrow> drop_bit n v = drop_bit n (w :: 'a :: len word)"
proof
  assume eq: "v AND NOT (mask n) = w AND NOT (mask n)"
  show "drop_bit n v = drop_bit n w"
  proof (rule bit_word_eqI)
    fix i assume "i < LENGTH('a)"
    have "bit (v AND NOT (mask n)) (n + i) = bit (w AND NOT (mask n)) (n + i)" using eq by simp
    then show "bit (drop_bit n v) i = bit (drop_bit n w) i"
      by (auto simp: bit_simps dest: bit_imp_le_length)
  qed
next
  assume eq: "drop_bit n v = drop_bit n w"
  show "v AND NOT (mask n) = w AND NOT (mask n)"
  proof (rule bit_word_eqI)
    fix i assume i: "i < LENGTH('a)"
    show "bit (v AND NOT (mask n)) i = bit (w AND NOT (mask n)) i"
    proof (cases "i < n")
      case True then show ?thesis by (auto simp: bit_simps)
    next
      case False
      then have "bit (drop_bit n v) (i - n) = bit (drop_bit n w) (i - n)" using eq by simp
      with False i show ?thesis by (auto simp: bit_simps)
    qed
  qed
qed

lemma mask_addr_eq_iff:
  "a \<noteq> NoAddr \<Longrightarrow> mask_addr a b = mask_addr c b \<longleftrightarrow> same_lead b a c"
  by (cases a; cases c) (auto simp only: same_lead_iff same_lead.simps mask_addr.simps
      and_not_mask_eq_iff addr.inject addr.distinct simp_thms)

end
