(* ===== verification/Rpki.thy ===== *)
theory Rpki
  imports Netpfx
begin

text \<open>
  The RPKI origin-validation source: the VRP cache of \<open>internal/rpki/vrps.go\<close>, the ordered fallback
  over several sources of \<open>internal/rpki/set.go\<close>, the timers of \<open>internal/rpki/timing.go\<close>, and the
  states and answers of \<open>pkg/plugin/rpki.go\<close>.

  The cache is proved against RFC 6811 read as a statement about the set of payloads it holds
  (\<open>payloads\<close>, \<open>rfc6811\<close>). A source of the set is reached through the plugin interface; the locale
  \<open>rpki_source\<close> states what the set relies on, and the cache interprets it.
\<close>

section \<open>States and answers (pkg/plugin/rpki.go)\<close>

text \<open>\<open>RPKIUnset\<close> is the empty string, the zero value a missing map entry reads as.\<close>

datatype RPKIValidity = RPKIValid | RPKIInvalid | RPKINotFound | RPKIUnknown | RPKIUnset

record RPKIStatus =
  rs_Source :: string
  rs_Up :: bool
  rs_Stale :: bool
  rs_VRPs :: int
  rs_Updated :: time
  rs_Error :: string

record RPKIAnswer =
  ra_State :: RPKIValidity
  ra_Source :: string
  ra_Updated :: time

record RPKIVRP =
  rv_Prefix :: prefix
  rv_MaxLen :: "8 word"
  rv_ASN :: "32 word"

definition zeroAnswer :: RPKIAnswer where
  "zeroAnswer = \<lparr>ra_State = RPKIUnset, ra_Source = [], ra_Updated = 0\<rparr>"

section \<open>The VRP cache (internal/rpki/vrps.go)\<close>

record vrp =
  maxLen :: "8 word"
  asn :: "32 word"

text \<open>The cache; a \<open>*VRPs\<close> that may be nil is a \<open>VRPs option\<close>. The lock is not modelled: every
  operation holds it for its whole body.\<close>

record VRPs =
  vm :: "(prefix, vrp list) fmap"
  vn :: int

definition NewVRPs :: VRPs where
  "NewVRPs = \<lparr>vm = fmempty, vn = 0\<rparr>"

definition Len :: "VRPs option \<Rightarrow> int" where
  "Len t = (case t of None \<Rightarrow> 0 | Some t \<Rightarrow> vn t)"

record Change =
  ch_Prefix :: prefix
  ch_MaxLen :: "8 word"
  ch_ASN :: "32 word"
  ch_Withdraw :: bool

definition same_vrp :: "8 word \<Rightarrow> 32 word \<Rightarrow> vrp \<Rightarrow> bool" where
  "same_vrp ml a e \<longleftrightarrow> maxLen e = ml \<and> asn e = a"

definition addLocked :: "VRPs \<Rightarrow> prefix \<Rightarrow> 8 word \<Rightarrow> 32 word \<Rightarrow> VRPs" where
  "addLocked t prefix0 ml a =
     (if \<not> IsValid prefix0 then t
      else let prefix = Masked prefix0; es = fmget [] (vm t) prefix in
        if list_ex (same_vrp ml a) es then t
        else t\<lparr>vm := fmupd prefix (es @ [\<lparr>maxLen = ml, asn = a\<rparr>]) (vm t), vn := vn t + 1\<rparr>)"

text \<open>The first entry with this max length and origin taken out of the list.\<close>

fun remove_entry :: "8 word \<Rightarrow> 32 word \<Rightarrow> vrp list \<Rightarrow> vrp list" where
  "remove_entry ml a [] = []"
| "remove_entry ml a (e # es) = (if same_vrp ml a e then es else e # remove_entry ml a es)"

definition removeLocked :: "VRPs \<Rightarrow> prefix \<Rightarrow> 8 word \<Rightarrow> 32 word \<Rightarrow> VRPs" where
  "removeLocked t prefix0 ml a =
     (if \<not> IsValid prefix0 then t
      else let prefix = Masked prefix0 in
        case fmlookup (vm t) prefix of
          None \<Rightarrow> t
        | Some entries \<Rightarrow>
            if \<not> list_ex (same_vrp ml a) entries then t
            else let entries' = remove_entry ml a entries in
              t\<lparr>vm := (if entries' = [] then fmdrop prefix (vm t) else fmupd prefix entries' (vm t)),
                vn := vn t - 1\<rparr>)"

definition apply_change :: "VRPs \<Rightarrow> Change \<Rightarrow> VRPs" where
  "apply_change t c =
     (if ch_Withdraw c then removeLocked t (ch_Prefix c) (ch_MaxLen c) (ch_ASN c)
      else addLocked t (ch_Prefix c) (ch_MaxLen c) (ch_ASN c))"

definition Apply :: "VRPs option \<Rightarrow> Change list \<Rightarrow> VRPs option" where
  "Apply t changes = (case t of None \<Rightarrow> None | Some t \<Rightarrow> Some (foldl apply_change t changes))"

text \<open>The covering prefixes of \<open>p\<close> a lookup walks, shortest first.\<close>

definition covers_of :: "prefix \<Rightarrow> prefix list" where
  "covers_of p = map (\<lambda>i. Masked (PrefixFrom (Addr p) (int i))) [0..<Suc (nat (Bits p))]"

fun validate_loop :: "VRPs \<Rightarrow> 32 word \<Rightarrow> int \<Rightarrow> prefix list \<Rightarrow> bool \<Rightarrow> RPKIValidity" where
  "validate_loop t origin bits [] covered = (if covered then RPKIInvalid else RPKINotFound)"
| "validate_loop t origin bits (c # cs) covered =
     (let es = fmget [] (vm t) c in
      if list_ex (\<lambda>e. asn e = origin \<and> uint (maxLen e) \<ge> bits) es then RPKIValid
      else validate_loop t origin bits cs (covered \<or> es \<noteq> []))"

definition Validate :: "VRPs option \<Rightarrow> prefix \<Rightarrow> 32 word \<Rightarrow> RPKIValidity" where
  "Validate t prefix0 origin =
     (case t of None \<Rightarrow> RPKIUnknown
      | Some t \<Rightarrow>
          if \<not> IsValid prefix0 then RPKIUnknown
          else let prefix = Masked prefix0 in
            validate_loop t origin (Bits prefix) (covers_of prefix) False)"

definition Covering :: "VRPs option \<Rightarrow> prefix \<Rightarrow> RPKIVRP list" where
  "Covering t prefix0 =
     (case t of None \<Rightarrow> []
      | Some t \<Rightarrow>
          if \<not> IsValid prefix0 then []
          else concat (map (\<lambda>c. map (\<lambda>e. \<lparr>rv_Prefix = c, rv_MaxLen = maxLen e, rv_ASN = asn e\<rparr>)
                                    (fmget [] (vm t) c))
                           (covers_of (Masked prefix0))))"

section \<open>Timers (internal/rpki/timing.go)\<close>

record Timing =
  tm_Refresh :: duration
  tm_Staleness :: duration
  tm_Timeout :: duration

definition DefaultRefresh :: duration where "DefaultRefresh = 5 * Minute"
definition DefaultStaleness :: duration where "DefaultStaleness = Hour"
definition DefaultTimeout :: duration where "DefaultTimeout = 30 * Second"
definition MinRefresh :: duration where "MinRefresh = Second"
definition MaxRefresh :: duration where "MaxRefresh = 24 * Hour"
definition MinTimeout :: duration where "MinTimeout = Second"
definition MaxTimeout :: duration where "MaxTimeout = 5 * Minute"

lemmas timing_defs = DefaultRefresh_def DefaultStaleness_def DefaultTimeout_def MinRefresh_def
  MaxRefresh_def MinTimeout_def MaxTimeout_def

datatype timing_error =
    RefreshRange duration
  | StalenessRange duration duration duration
  | TimeoutRange duration

definition Normalize :: "Timing \<Rightarrow> duration \<Rightarrow> timing_error + Timing" where
  "Normalize t0 lag =
     (let t1 = (if tm_Refresh t0 = 0 then t0\<lparr>tm_Refresh := DefaultRefresh\<rparr> else t0) in
      if tm_Refresh t1 < MinRefresh \<or> tm_Refresh t1 > MaxRefresh then Inl (RefreshRange (tm_Refresh t1))
      else let t2 = (if tm_Staleness t1 = 0
                     then t1\<lparr>tm_Staleness := wrap64 (max DefaultStaleness (tm_Refresh t1) + lag)\<rparr> else t1) in
        if tm_Staleness t2 < wrap64 (tm_Refresh t2 + lag) \<or> tm_Staleness t2 > MaxRefresh
        then Inl (StalenessRange (tm_Staleness t2) (tm_Refresh t2) lag)
        else let t3 = (if tm_Timeout t2 = 0 then t2\<lparr>tm_Timeout := DefaultTimeout\<rparr> else t2) in
          if tm_Timeout t3 < MinTimeout \<or> tm_Timeout t3 > MaxTimeout then Inl (TimeoutRange (tm_Timeout t3))
          else Inr t3)"

definition Stale :: "Timing \<Rightarrow> time \<Rightarrow> time \<Rightarrow> bool" where
  "Stale t updated now \<longleftrightarrow> updated = 0 \<or> time_sub now updated > tm_Staleness t"

section \<open>The ordered set of sources (internal/rpki/set.go)\<close>

text \<open>
  A source is what the plugin interfaces \<open>RPKI\<close> and, optionally, \<open>RPKICovering\<close> give: its status, its
  validation function and, when it can list them, the payloads covering a prefix.
\<close>

record RPKI_source =
  sStatus :: RPKIStatus
  sValidate :: "prefix \<Rightarrow> 32 word \<Rightarrow> RPKIValidity"
  sCovering :: "(prefix \<Rightarrow> RPKIVRP list) option"

record RPKI_set =
  sources :: "RPKI_source list"
  display :: "(prefix \<Rightarrow> 32 word \<Rightarrow> RPKIAnswer) option"

definition NewSet :: "RPKI_source list \<Rightarrow> RPKI_set" where
  "NewSet srcs = \<lparr>sources = srcs, display = None\<rparr>"

definition SetDisplay :: "RPKI_set \<Rightarrow> (prefix \<Rightarrow> 32 word \<Rightarrow> RPKIAnswer) \<Rightarrow> RPKI_set" where
  "SetDisplay s a = s\<lparr>display := Some a\<rparr>"

definition Enabled :: "RPKI_set option \<Rightarrow> bool" where
  "Enabled s = (case s of None \<Rightarrow> False | Some s \<Rightarrow> sources s \<noteq> [])"

text \<open>The FNV-1a constants and one mixing step, on 64-bit words.\<close>

definition offset64 :: "64 word" where "offset64 = 14695981039346656037"
definition prime64 :: "64 word" where "prime64 = 1099511628211"

definition mix :: "64 word \<Rightarrow> 64 word \<Rightarrow> 64 word" where
  "mix h v = (h XOR v) * prime64"

text \<open>\<open>UnixNano\<close> of a model time, as the 64 bits the hash reads.\<close>

definition unixNano64 :: "time \<Rightarrow> 64 word" where
  "unixNano64 t = word_of_int (t - 62135596800 * Second)"

definition mix_status :: "64 word \<Rightarrow> RPKIStatus \<Rightarrow> 64 word" where
  "mix_status h st =
     (let h1 = mix h (word_of_int (rs_VRPs st)); h2 = mix h1 (unixNano64 (rs_Updated st))
      in if rs_Stale st then mix h2 1 else h2)"

definition Version :: "RPKI_set option \<Rightarrow> 64 word" where
  "Version s =
     (case s of None \<Rightarrow> 0
      | Some s \<Rightarrow> if sources s = [] then 0
                  else foldl (\<lambda>h src. mix_status h (sStatus src)) offset64 (sources s))"

definition usable_source :: "RPKI_source \<Rightarrow> bool" where
  "usable_source src \<longleftrightarrow> \<not> rs_Stale (sStatus src) \<and> rs_VRPs (sStatus src) \<noteq> 0"

definition set_active :: "RPKI_set option \<Rightarrow> (RPKI_source \<times> RPKIStatus) option" where
  "set_active s = (case s of None \<Rightarrow> None
     | Some s \<Rightarrow> map_option (\<lambda>src. (src, sStatus src)) (find usable_source (sources s)))"

definition Lookup :: "RPKI_set option \<Rightarrow> prefix \<Rightarrow> 32 word \<Rightarrow> RPKIAnswer" where
  "Lookup s prefix origin =
     (case set_active s of
        None \<Rightarrow> \<lparr>ra_State = RPKIUnknown, ra_Source = [], ra_Updated = 0\<rparr>
      | Some (src, st) \<Rightarrow> \<lparr>ra_State = sValidate src prefix origin, ra_Source = rs_Source st,
                           ra_Updated = rs_Updated st\<rparr>)"

definition set_Validate :: "RPKI_set option \<Rightarrow> prefix \<Rightarrow> 32 word \<Rightarrow> RPKIValidity" where
  "set_Validate s prefix origin = ra_State (Lookup s prefix origin)"

definition set_Updated :: "RPKI_set option \<Rightarrow> time" where
  "set_Updated s = (case set_active s of None \<Rightarrow> 0 | Some (_, st) \<Rightarrow> rs_Updated st)"

definition LookupDisplay :: "RPKI_set option \<Rightarrow> prefix \<Rightarrow> 32 word \<Rightarrow> RPKIAnswer" where
  "LookupDisplay s prefix origin =
     (let a = Lookup s prefix origin in
      if ra_State a \<noteq> RPKIUnknown then a
      else case Option.bind s display of
        None \<Rightarrow> a
      | Some f \<Rightarrow> let d = f prefix origin in if ra_State d \<noteq> RPKIUnknown then d else a)"

definition set_Covering :: "RPKI_set option \<Rightarrow> prefix \<Rightarrow> RPKIVRP list" where
  "set_Covering s prefix =
     (case set_active s of None \<Rightarrow> []
      | Some (src, _) \<Rightarrow> (case sCovering src of None \<Rightarrow> [] | Some f \<Rightarrow> f prefix))"

section \<open>The cache against RFC 6811\<close>

text \<open>The payloads a cache holds, and the RFC's relations between a payload and a route.\<close>

definition payloads :: "VRPs \<Rightarrow> (prefix \<times> vrp) set" where
  "payloads t = {(q, e). e \<in> set (fmget [] (vm t) q)}"

definition covers_route :: "prefix \<Rightarrow> prefix \<Rightarrow> bool" where
  "covers_route q p \<longleftrightarrow> Bits q \<le> Bits p \<and> Contains q (Addr p)"

definition rfc6811 :: "(prefix \<times> vrp) set \<Rightarrow> prefix \<Rightarrow> 32 word \<Rightarrow> RPKIValidity" where
  "rfc6811 P p origin =
     (if \<exists>(q, e) \<in> P. covers_route q p \<and> asn e = origin \<and> Bits p \<le> uint (maxLen e) then RPKIValid
      else if \<exists>(q, e) \<in> P. covers_route q p then RPKIInvalid
      else RPKINotFound)"

text \<open>
  The invariant of a cache: keys are valid masked prefixes, entry lists are non-empty and without
  duplicates, and the counter is the number of payloads.
\<close>

definition canonical :: "prefix \<Rightarrow> bool" where
  "canonical q \<longleftrightarrow> wf_prefix q \<and> IsValid q \<and> Masked q = q"

definition wf_vrps :: "VRPs \<Rightarrow> bool" where
  "wf_vrps t \<longleftrightarrow>
     (\<forall>q es. fmlookup (vm t) q = Some es \<longrightarrow> canonical q \<and> es \<noteq> [] \<and> distinct es) \<and>
     vn t = int (card (payloads t))"

lemma same_vrp_iff: "same_vrp ml a e \<longleftrightarrow> e = \<lparr>maxLen = ml, asn = a\<rparr>"
  by (cases e) (auto simp: same_vrp_def)

lemma remove_entry_eq: "remove_entry ml a es = remove1 \<lparr>maxLen = ml, asn = a\<rparr> es"
  by (induction es) (auto simp: same_vrp_iff)

lemma list_ex_same_vrp: "list_ex (same_vrp ml a) es \<longleftrightarrow> \<lparr>maxLen = ml, asn = a\<rparr> \<in> set es"
  by (auto simp: list_ex_iff same_vrp_iff)

lemma canonical_Masked: "wf_prefix p \<Longrightarrow> IsValid p \<Longrightarrow> canonical (Masked p)"
  by (simp add: canonical_def wf_Masked)

lemma finite_payloads [simp]: "finite (payloads t)"
proof -
  have "payloads t = (\<Union>q \<in> fmdom' (vm t). {q} \<times> set (fmget [] (vm t) q))"
    by (auto simp: payloads_def in_fmget_Nil_iff fmdom'_iff)
  then show ?thesis by simp
qed

lemma payloads_upd:
  "payloads (t\<lparr>vm := fmupd q es (vm t), vn := n\<rparr>) = payloads t - {q} \<times> UNIV \<union> {q} \<times> set es"
  by (auto simp: payloads_def split: if_splits)

lemma payloads_drop:
  "payloads (t\<lparr>vm := fmdrop q (vm t), vn := n\<rparr>) = payloads t - {q} \<times> UNIV"
  by (auto simp: payloads_def fmget_def split: if_splits option.splits)

text \<open>An announcement adds its payload to the set, a withdrawal takes it out.\<close>

lemma payloads_addLocked:
  "IsValid p \<Longrightarrow>
   payloads (addLocked t p ml a) = insert (Masked p, \<lparr>maxLen = ml, asn = a\<rparr>) (payloads t)"
  by (auto simp: addLocked_def Let_def list_ex_same_vrp payloads_upd) (auto simp: payloads_def)

lemma payloads_removeLocked:
  assumes "wf_vrps t" and "IsValid p"
  shows "payloads (removeLocked t p ml a) = payloads t - {(Masked p, \<lparr>maxLen = ml, asn = a\<rparr>)}"
proof (cases "fmlookup (vm t) (Masked p)")
  case None
  then show ?thesis using assms by (auto simp: removeLocked_def payloads_def fmget_def)
next
  case (Some es)
  let ?q = "Masked p" and ?v = "\<lparr>maxLen = ml, asn = a\<rparr>"
  have key: "(?q, e) \<in> payloads t \<longleftrightarrow> e \<in> set es" for e
    using Some by (simp add: payloads_def fmget_def)
  have "distinct es" using assms Some by (auto simp: wf_vrps_def)
  then have es': "set (remove1 ?v es) = set es - {?v}" by simp
  show ?thesis
  proof (cases "?v \<in> set es")
    case False
    with Some assms(2) key show ?thesis by (auto simp: removeLocked_def Let_def list_ex_same_vrp)
  next
    case True
    with Some assms(2)
    have "payloads (removeLocked t p ml a) = payloads t - {?q} \<times> UNIV \<union> {?q} \<times> set (remove1 ?v es)"
      by (cases "remove1 ?v es = []")
        (simp_all add: removeLocked_def Let_def list_ex_same_vrp remove_entry_eq payloads_upd
          payloads_drop del: set_remove1_eq)
    with key es' show ?thesis by auto
  qed
qed

lemma wf_addLocked:
  assumes wf: "wf_vrps t" and p: "wf_prefix p"
  shows "wf_vrps (addLocked t p ml a)"
proof (cases "IsValid p \<and> \<not> list_ex (same_vrp ml a) (fmget [] (vm t) (Masked p))")
  case False
  then show ?thesis using wf by (auto simp: addLocked_def Let_def)
next
  case True
  then have new: "(Masked p, \<lparr>maxLen = ml, asn = a\<rparr>) \<notin> payloads t"
    by (auto simp: payloads_def list_ex_same_vrp)
  have "vn (addLocked t p ml a) = vn t + 1"
    using True by (simp add: addLocked_def Let_def)
  then have "vn (addLocked t p ml a) = int (card (payloads (addLocked t p ml a)))"
    using True wf new by (simp add: payloads_addLocked wf_vrps_def)
  moreover have "distinct (fmget [] (vm t) (Masked p))"
    using wf by (auto simp: wf_vrps_def fmget_def split: option.splits)
  ultimately show ?thesis
    using True wf canonical_Masked [OF p]
    by (auto simp: wf_vrps_def addLocked_def Let_def list_ex_same_vrp split: if_splits)
qed

lemma wf_removeLocked:
  assumes wf: "wf_vrps t"
  shows "wf_vrps (removeLocked t p ml a)"
proof (cases "IsValid p \<and> list_ex (same_vrp ml a) (fmget [] (vm t) (Masked p))")
  case False
  then show ?thesis using wf by (auto simp: removeLocked_def Let_def fmget_def split: option.splits)
next
  case True
  then obtain es where es: "fmlookup (vm t) (Masked p) = Some es" "list_ex (same_vrp ml a) es"
    by (auto simp: fmget_def split: option.splits)
  have old: "(Masked p, \<lparr>maxLen = ml, asn = a\<rparr>) \<in> payloads t"
    using es by (auto simp: payloads_def fmget_def list_ex_same_vrp)
  have "vn (removeLocked t p ml a) = int (card (payloads t)) - 1"
    using True wf es by (simp add: removeLocked_def Let_def wf_vrps_def)
  moreover have "card (payloads t) > 0"
    using old by (auto simp: card_gt_0_iff)
  ultimately have "vn (removeLocked t p ml a) = int (card (payloads (removeLocked t p ml a)))"
    using payloads_removeLocked [OF wf, of p ml a] True old by simp
  moreover have "distinct es" using wf es by (auto simp: wf_vrps_def)
  ultimately show ?thesis
    using True wf es
    by (auto simp: wf_vrps_def removeLocked_def Let_def remove_entry_eq split: if_splits)
qed

lemma wf_NewVRPs: "wf_vrps NewVRPs"
  by (simp add: wf_vrps_def NewVRPs_def payloads_def)

lemma wf_apply_change: "wf_vrps t \<Longrightarrow> wf_prefix (ch_Prefix c) \<Longrightarrow> wf_vrps (apply_change t c)"
  by (simp add: apply_change_def wf_addLocked wf_removeLocked)

text \<open>A canonical prefix covers \<open>p\<close> exactly when the walk over \<open>p\<close>'s covers meets it.\<close>

lemma in_covers_of_iff:
  assumes "wf_prefix p" "IsValid p"
  shows "Pfx a b \<in> set (covers_of p) \<longleftrightarrow> 0 \<le> b \<and> b \<le> Bits p \<and> a = mask_addr (Addr p) (nat b)"
proof -
  have "Masked (PrefixFrom (Addr p) (int i)) = Pfx (mask_addr (Addr p) i) (int i)"
    if "i < Suc (nat (Bits p))" for i
    using that assms by (auto simp: wf_prefix_def IsValid_def PrefixFrom_def Masked_def)
  then have "set (covers_of p) = (\<lambda>i. Pfx (mask_addr (Addr p) i) (int i)) ` {0..<Suc (nat (Bits p))}"
    unfolding covers_of_def set_map set_upt by (intro image_cong) auto
  moreover have "(\<exists>i < Suc (nat (Bits p)). Pfx a b = Pfx (mask_addr (Addr p) i) (int i)) \<longleftrightarrow>
      0 \<le> b \<and> b \<le> Bits p \<and> a = mask_addr (Addr p) (nat b)"
    using assms(2) by (auto simp: IsValid_def intro!: exI [of _ "nat b"])
  ultimately show ?thesis by (auto simp: image_iff)
qed

lemma canonical_covers_iff:
  assumes "wf_prefix p" "IsValid p" "canonical q"
  shows "q \<in> set (covers_of p) \<longleftrightarrow> covers_route q p"
proof -
  obtain a b where q: "q = Pfx a b" by (cases q)
  have b: "0 \<le> b" and a: "a \<noteq> NoAddr" and m: "mask_addr a (nat b) = a"
    using assms(3) q by (auto simp: canonical_def IsValid_def wf_prefix_def Masked_def)
  have "q \<in> set (covers_of p) \<longleftrightarrow> b \<le> Bits p \<and> a = mask_addr (Addr p) (nat b)"
    using assms(1,2) b q by (simp add: in_covers_of_iff)
  also have "a = mask_addr (Addr p) (nat b) \<longleftrightarrow> same_lead (nat b) a (Addr p)"
    using m a mask_addr_eq_iff [of a "nat b" "Addr p"] by metis
  finally show ?thesis
    using q b by (auto simp: covers_route_def Contains_def IsValid_def)
qed

lemma validate_loop_eq:
  "validate_loop t origin bits cs covered =
     (if \<exists>c \<in> set cs. \<exists>e \<in> set (fmget [] (vm t) c). asn e = origin \<and> bits \<le> uint (maxLen e) then RPKIValid
      else if covered \<or> (\<exists>c \<in> set cs. fmget [] (vm t) c \<noteq> []) then RPKIInvalid
      else RPKINotFound)"
  by (induction cs arbitrary: covered) (auto simp: Let_def list_ex_iff)

lemma payload_key: "wf_vrps t \<Longrightarrow> (q, e) \<in> payloads t \<Longrightarrow> canonical q"
  by (auto simp: payloads_def wf_vrps_def in_fmget_Nil_iff)

lemma Validate_rfc6811:
  assumes wf: "wf_vrps t" and p: "wf_prefix p" "IsValid p"
  shows "Validate (Some t) p origin = rfc6811 (payloads t) (Masked p) origin"
proof -
  let ?p = "Masked p"
  have wfp: "wf_prefix ?p" "IsValid ?p" using p by (auto simp: wf_Masked)
  have walk: "(\<exists>c \<in> set (covers_of ?p). \<exists>e \<in> set (fmget [] (vm t) c). P e) \<longleftrightarrow>
      (\<exists>(q, e) \<in> payloads t. covers_route q ?p \<and> P e)" for P
    using canonical_covers_iff [OF wfp] payload_key [OF wf] by (fastforce simp: payloads_def)
  have ne: "(\<exists>c \<in> set (covers_of ?p). fmget [] (vm t) c \<noteq> []) \<longleftrightarrow>
      (\<exists>(q, e) \<in> payloads t. covers_route q ?p)"
    using walk [of "\<lambda>_. True"] by (simp add: ex_in_conv)
  show ?thesis
    using p walk [of "\<lambda>e. asn e = origin \<and> Bits ?p \<le> uint (maxLen e)"] ne
    by (simp add: Validate_def Let_def validate_loop_eq rfc6811_def)
qed

section \<open>Applying a serial delta\<close>

text \<open>One Prefix PDU at the level of payload sets; an invalid prefix is ignored.\<close>

definition change_payload :: "Change \<Rightarrow> prefix \<times> vrp" where
  "change_payload c = (Masked (ch_Prefix c), \<lparr>maxLen = ch_MaxLen c, asn = ch_ASN c\<rparr>)"

definition spec_change :: "(prefix \<times> vrp) set \<Rightarrow> Change \<Rightarrow> (prefix \<times> vrp) set" where
  "spec_change P c =
     (if \<not> IsValid (ch_Prefix c) then P
      else if ch_Withdraw c then P - {change_payload c} else insert (change_payload c) P)"

lemma payloads_apply_change: "wf_vrps t \<Longrightarrow> payloads (apply_change t c) = spec_change (payloads t) c"
  by (simp add: apply_change_def spec_change_def change_payload_def payloads_addLocked
      payloads_removeLocked) (simp add: addLocked_def removeLocked_def)

lemma foldl_apply_change:
  assumes "wf_vrps t" and "\<forall>c \<in> set cs. wf_prefix (ch_Prefix c)"
  shows "wf_vrps (foldl apply_change t cs) \<and>
         payloads (foldl apply_change t cs) = foldl spec_change (payloads t) cs"
  using assms
  by (induction cs arbitrary: t) (simp_all add: wf_apply_change payloads_apply_change)

section \<open>What a source promises its set\<close>

text \<open>The state a list of covering payloads gives a route of this length and origin.\<close>

definition vrp_verdict :: "RPKIVRP list \<Rightarrow> int \<Rightarrow> 32 word \<Rightarrow> RPKIValidity" where
  "vrp_verdict vs bits origin =
     (if list_ex (\<lambda>v. rv_ASN v = origin \<and> uint (rv_MaxLen v) \<ge> bits) vs then RPKIValid
      else if vs \<noteq> [] then RPKIInvalid else RPKINotFound)"

locale rpki_source =
  fixes validate :: "prefix \<Rightarrow> 32 word \<Rightarrow> RPKIValidity"
    and covering :: "prefix \<Rightarrow> RPKIVRP list"
  assumes validate_invalid: "\<not> IsValid p \<Longrightarrow> validate p origin = RPKIUnknown"
    and validate_covering: "IsValid p \<Longrightarrow> validate p origin = vrp_verdict (covering p) (Bits p) origin"
begin

lemma notfound_iff: "IsValid p \<Longrightarrow> validate p origin = RPKINotFound \<longleftrightarrow> covering p = []"
  by (auto simp: validate_covering vrp_verdict_def list_ex_iff)

text \<open>The reason registry hygiene gives for a state is the one the set's answer rests on.\<close>

lemma set_answer:
  assumes "set_active (Some s) = Some (src, st)" "sValidate src = validate" "sCovering src = Some covering"
    and "IsValid p"
  shows "set_Validate (Some s) p origin = vrp_verdict (set_Covering (Some s) p) (Bits p) origin"
  using assms by (simp add: set_Validate_def Lookup_def set_Covering_def validate_covering)

end

lemma Validate_verdict:
  "IsValid p \<Longrightarrow> Validate (Some t) p origin = vrp_verdict (Covering (Some t) p) (Bits p) origin"
  by (auto simp: Validate_def Covering_def Let_def validate_loop_eq vrp_verdict_def list_ex_iff Bits_Masked)

interpretation vrp_cache: rpki_source "Validate (Some t)" "Covering (Some t)" for t
  by unfold_locales (auto simp: Validate_verdict, simp add: Validate_def)

lemma set_active_first:
  assumes "sources s = pre @ src # post" "\<forall>x \<in> set pre. \<not> usable_source x" "usable_source src"
  shows "set_active (Some s) = Some (src, sStatus src)"
proof -
  have "find usable_source (pre @ src # post) = Some src"
    using assms(2,3) by (induction pre) auto
  then show ?thesis by (simp add: set_active_def assms(1))
qed

section \<open>The version fingerprint\<close>

lemma prime64_inverse: "prime64 * 0xce965057aff6957b = 1"
  by (simp add: prime64_def)

lemma prime64_cancel: "a * prime64 = b * prime64 \<longleftrightarrow> a = b"
proof
  assume "a * prime64 = b * prime64"
  then have "a * (prime64 * 0xce965057aff6957b) = b * (prime64 * 0xce965057aff6957b)"
    by (simp only: mult.assoc [symmetric])
  then show "a = b" by (simp only: prime64_inverse mult_1_right)
qed simp

lemma xor_cancel:
  "h XOR v = h' XOR v \<longleftrightarrow> h = h'" "h XOR v = h XOR w \<longleftrightarrow> v = (w :: 'a :: len word)"
  by (metis xor.right_neutral xor.assoc xor_self_eq, metis xor.left_neutral xor.assoc xor_self_eq)

lemma mix_inj: "mix h v = mix h' v \<longleftrightarrow> h = h'" "mix h v = mix h w \<longleftrightarrow> v = w"
  by (simp_all add: mix_def prime64_cancel xor_cancel)

lemma mix_status_inj: "mix_status h st = mix_status h' st \<longleftrightarrow> h = h'"
  by (simp add: mix_status_def Let_def mix_inj)

lemma foldl_mix_status_inj:
  "foldl (\<lambda>h src. mix_status h (sStatus src)) h xs = foldl (\<lambda>h src. mix_status h (sStatus src)) h' xs
    \<longleftrightarrow> h = h'"
  by (induction xs arbitrary: h h') (simp_all add: mix_status_inj)

section \<open>Properties\<close>

text \<open>
  C16: the cache answers RFC 6811. For every cache built by announcements and withdrawals, the state
  of a route is valid exactly when some payload covers the prefix, names the origin and allows
  the length, invalid when payloads cover it but none matches, and not-found when none covers it.
\<close>

theorem Validate_is_rfc6811:
  assumes "\<forall>c \<in> set changes. wf_prefix (ch_Prefix c)" and "wf_prefix p" and "IsValid p"
  shows "Validate (Apply (Some NewVRPs) changes) p origin =
         rfc6811 (foldl spec_change {} changes) (Masked p) origin"
proof -
  have *: "wf_vrps (foldl apply_change NewVRPs changes) \<and>
      payloads (foldl apply_change NewVRPs changes) = foldl spec_change (payloads NewVRPs) changes"
    by (rule foldl_apply_change [OF wf_NewVRPs assms(1)])
  have "payloads NewVRPs = {}" by (simp add: payloads_def NewVRPs_def)
  then show ?thesis
    using * Validate_rfc6811 [OF _ assms(2,3)] by (simp add: Apply_def)
qed

theorem Validate_is_rfc6811_witness:
  "Validate (Apply (Some NewVRPs)
      [\<lparr>ch_Prefix = Pfx (V4 0xC0000200) 24, ch_MaxLen = 24, ch_ASN = 64500, ch_Withdraw = False\<rparr>])
     (Pfx (V4 0xC0000280) 25) 64500 =
   rfc6811 (foldl spec_change {}
      [\<lparr>ch_Prefix = Pfx (V4 0xC0000200) 24, ch_MaxLen = 24, ch_ASN = 64500, ch_Withdraw = False\<rparr>])
     (Masked (Pfx (V4 0xC0000280) 25)) 64500"
  by (rule Validate_is_rfc6811) (simp_all add: wf_prefix_def IsValid_def)

text \<open>
  C17: the cache is a set of payloads. Applying a list of PDUs keeps the representation invariant,
  changes the payload set exactly as the PDUs say (an announcement is idempotent, a withdrawal
  of an absent payload does nothing), and \<open>Len\<close> stays the number of payloads.
\<close>

theorem Apply_refines_sets:
  assumes "wf_vrps t" and "\<forall>c \<in> set changes. wf_prefix (ch_Prefix c)"
  shows "\<exists>t'. Apply (Some t) changes = Some t' \<and> wf_vrps t' \<and>
           payloads t' = foldl spec_change (payloads t) changes \<and>
           Len (Some t') = int (card (payloads t'))"
  using foldl_apply_change [OF assms] by (auto simp: Apply_def Len_def wf_vrps_def)

theorem Apply_refines_sets_witness:
  "\<exists>t'. Apply (Some NewVRPs)
        [\<lparr>ch_Prefix = Pfx (V4 0xC0000201) 24, ch_MaxLen = 24, ch_ASN = 64500, ch_Withdraw = False\<rparr>] = Some t' \<and>
      wf_vrps t' \<and>
      payloads t' = foldl spec_change (payloads NewVRPs)
        [\<lparr>ch_Prefix = Pfx (V4 0xC0000201) 24, ch_MaxLen = 24, ch_ASN = 64500, ch_Withdraw = False\<rparr>] \<and>
      Len (Some t') = int (card (payloads t'))"
  by (rule Apply_refines_sets [OF wf_NewVRPs]) (simp add: wf_prefix_def)

text \<open>
  The ordered fallback. The first source that is fresh and not empty answers, with its RFC 6811
  state, its name and its data time; the sources before it are skipped and the ones after it are
  not asked. The answer agrees with the covering payloads the set lists for the same prefix.
\<close>

theorem Lookup_first_fresh:
  assumes "sources s = pre @ src # post" and "\<forall>x \<in> set pre. \<not> usable_source x" and "usable_source src"
    and "sValidate src = Validate (Some t)" and "sCovering src = Some (Covering (Some t))"
    and "wf_vrps t" and "wf_prefix p" and "IsValid p"
  shows "Lookup (Some s) p origin =
           \<lparr>ra_State = rfc6811 (payloads t) (Masked p) origin,
            ra_Source = rs_Source (sStatus src), ra_Updated = rs_Updated (sStatus src)\<rparr>
         \<and> set_Validate (Some s) p origin = vrp_verdict (set_Covering (Some s) p) (Bits p) origin"
proof
  note act = set_active_first [OF assms(1-3)]
  show "Lookup (Some s) p origin =
      \<lparr>ra_State = rfc6811 (payloads t) (Masked p) origin,
       ra_Source = rs_Source (sStatus src), ra_Updated = rs_Updated (sStatus src)\<rparr>"
    using act assms(4) Validate_rfc6811 [OF assms(6-8)] by (simp add: Lookup_def)
  show "set_Validate (Some s) p origin = vrp_verdict (set_Covering (Some s) p) (Bits p) origin"
    by (rule vrp_cache.set_answer [OF act assms(4,5,8)])
qed

text \<open>
  Fail open. With no fresh, non-empty source the set answers unknown, so it never makes a path
  invalid, and the display fallback never replaces a state a source gave.
\<close>

theorem Lookup_fails_open:
  assumes "\<forall>src \<in> set (sources s). \<not> usable_source src"
  shows "ra_State (Lookup (Some s) p origin) = RPKIUnknown \<and>
         set_Updated (Some s) = 0 \<and> set_Covering (Some s) p = [] \<and>
         (\<forall>s'. ra_State (Lookup s' p origin) \<noteq> RPKIUnknown \<longrightarrow>
               LookupDisplay s' p origin = Lookup s' p origin)"
proof -
  have "find usable_source (sources s) = None"
    using assms by (auto simp: find_None_iff)
  then show ?thesis
    by (auto simp: Lookup_def set_active_def set_Updated_def set_Covering_def LookupDisplay_def Let_def)
qed

text \<open>
  A completed fetch changes the version. Two sets that differ only in the payload count of one
  source, or only in its data time, have different fingerprints, as long as the two values differ
  as 64-bit numbers: the fingerprint of the other sources cannot hide the change.
\<close>

theorem Version_sees_fetch:
  assumes "rs_Stale st = rs_Stale st'"
    and "(word_of_int (rs_VRPs st) :: 64 word) \<noteq> word_of_int (rs_VRPs st') \<and>
           unixNano64 (rs_Updated st) = unixNano64 (rs_Updated st') \<or>
         rs_VRPs st = rs_VRPs st' \<and> unixNano64 (rs_Updated st) \<noteq> unixNano64 (rs_Updated st')"
  shows "Version (Some (NewSet (pre @ src\<lparr>sStatus := st\<rparr> # post))) \<noteq>
         Version (Some (NewSet (pre @ src\<lparr>sStatus := st'\<rparr> # post)))"
proof -
  have "mix_status h st \<noteq> mix_status h st'" for h
    using assms by (auto simp: mix_status_def Let_def mix_inj)
  then show ?thesis
    by (simp add: Version_def NewSet_def foldl_mix_status_inj)
qed

text \<open>
  Healthy timers. Timers that \<open>Normalize\<close> accepts are inside their bounds, and data no older
  than one refresh interval plus the publisher's lag is never stale, so a healthy source does
  not read as stale between polls.
\<close>

theorem Normalize_healthy:
  assumes "Normalize t0 lag = Inr t" and "0 \<le> lag" and "lag \<le> MaxRefresh"
    and "updated \<noteq> 0" and "now - updated \<le> tm_Refresh t + lag"
  shows "MinRefresh \<le> tm_Refresh t \<and> tm_Refresh t \<le> MaxRefresh \<and>
         tm_Refresh t + lag \<le> tm_Staleness t \<and> tm_Staleness t \<le> MaxRefresh \<and>
         MinTimeout \<le> tm_Timeout t \<and> tm_Timeout t \<le> MaxTimeout \<and> \<not> Stale t updated now"
proof -
  have wr: "wrap64 (r + lag) = r + lag" if "MinRefresh \<le> r" "r \<le> MaxRefresh" for r
    using that assms(2,3) by (intro wrap64_exact) (auto simp: timing_defs duration_units)
  have b: "MinRefresh \<le> tm_Refresh t \<and> tm_Refresh t \<le> MaxRefresh \<and>
      tm_Refresh t + lag \<le> tm_Staleness t \<and> tm_Staleness t \<le> MaxRefresh \<and>
      MinTimeout \<le> tm_Timeout t \<and> tm_Timeout t \<le> MaxTimeout"
    using assms(1) wr by (auto simp: Normalize_def Let_def split: if_splits)
  then have "time_sub now updated \<le> tm_Staleness t"
    using assms(2,5) by (auto simp: time_sub_def minDuration_def timing_defs duration_units)
  with b assms(4) show ?thesis by (simp add: Stale_def)
qed

end
