(* ===== verification/Plugin.thy ===== *)
theory Plugin
  imports Rpki
begin

text \<open>
  The data the packages exchange through \<open>pkg/plugin\<close>: path statistics, causes, routing-policy
  verdicts, interface telemetry and its 95th percentile, the planner's snapshot and moves, and the
  scorer with its optional interfaces. Fields no modelled operation reads or writes are left out.

  A Go interface value is a record of the methods it has. An optional interface, which the source
  asks for with a type assertion, is an \<open>option\<close>: \<open>None\<close> where the assertion fails.

  Reasons shown to operators are the datatype \<open>reason\<close>: one constructor per format string of the
  source, carrying the values the string is built from. The rendered text (float, duration and
  local-time formatting) is not modelled; where the source reads a reason back by its text prefix,
  a constructor tells the same.
\<close>

section \<open>Causes and reasons\<close>

text \<open>\<open>CauseUnset\<close> is the empty string; \<open>CauseOther\<close> any other text a plugin may set.\<close>

datatype cause = CauseUnset | CausePerformance | CauseCommit | CauseCost | CauseStatic
  | CauseOther string

text \<open>Why a usable static path may not carry its prefix (\<open>pinFault\<close>); \<open>NoFault\<close> is the empty text.\<close>

datatype fault = NoFault
  | LossOver float64 float64
  | RTTOver duration duration
  | LossWorse float64 float64

datatype reason =
    RNone
  | RText string
  \<comment> \<open>retiring an improvement\<close>
  | RRibNotReady | RNotProbed | RSubrangeGone | RPolicyIgnore string
  | RCoveringGone | RPrefixGone | RProviderUnusable string | RProviderUnusableD
  | RMaintenance | RExcluded | RNotAllowlisted | RTTLExpired | RTTLExpiredD
  | RStaticRemoved | RCCDisabled | RNativeBetter
  \<comment> \<open>static policies\<close>
  | RStaticNative | RStaticNotUsable string string | RStaticFault string fault
  | RStaticPin string | RStaticHold string | RStaticNotAllowlisted
  \<comment> \<open>keeping an improvement\<close>
  | RNativeHold | RStillValid
  | RConfirmingSwitch string int int
  | REvidence "string list"
  \<comment> \<open>native routing\<close>
  | RNotInRIB | RCoveringNotInRIB prefix | RNoProvider | RDefaultRoute | RRankingOnly
  | RCooldown time | RCooldownFlip time | RNativeUnusable string
  | RMedKeep "32 word" string "32 word" string "32 word" float64
  | RNativeBest | RBetterNotAllowlisted | RInsideFloor
  | RConfirming string int int
  \<comment> \<open>moves\<close>
  | RPerf string float64 float64 duration duration
  | RCapped int | RDisplaced
  | RFlap int time
  \<comment> \<open>the interface capacity limit\<close>
  | RUnreadable string string
  | RWouldReach string float64 float64 float64
  | RIsAt string float64 float64 float64
  | RShed string float64 float64 float64
  \<comment> \<open>commit and cost steers\<close>
  | RCommitDisabled | RCostDisabled | ROutsideFloor | RLossRegressed | RPerfHold
  | RMoveRefused cause | RMoveHold cause | RReleased cause | RReleaseHold cause
  | RMoveNotAllowlisted cause
  | RCommitMove string float64 float64 float64 string
  | RBalanceMove string string float64 string
  | RCostMove string float64 string float64

section \<open>Path statistics and policy verdicts\<close>

record PathStats =
  ps_Provider :: string
  ps_LossPct :: float64
  ps_RTTAvg :: duration
  ps_Jitter :: duration
  ps_ReorderPct :: float64

datatype policy_action = PolicyIgnore | PolicyAllow | PolicyDeny | PolicyStatic | PolicyVIP
  | PolicyOther string

fun action_text :: "policy_action \<Rightarrow> string" where
  "action_text PolicyIgnore = ''ignore''"
| "action_text PolicyAllow = ''allow''"
| "action_text PolicyDeny = ''deny''"
| "action_text PolicyStatic = ''static''"
| "action_text PolicyVIP = ''vip''"
| "action_text (PolicyOther s) = s"

record PolicyVerdict =
  pv_Action :: policy_action
  pv_Providers :: "string list"
  pv_Rule :: string
  pv_Match :: string
  pv_MaxLossPct :: float64
  pv_MaxRTT :: duration

section \<open>IRR answers\<close>

text \<open>\<open>IRRUnset\<close> is the zero value of a missing entry.\<close>

datatype IRRState = IRRRegistered | IRRNotRegistered | IRRUnknown | IRRUnset

record IRRAnswer =
  ia_State :: IRRState
  ia_Source :: string
  ia_Updated :: time

definition zeroIRR :: IRRAnswer where
  "zeroIRR = \<lparr>ia_State = IRRUnset, ia_Source = [], ia_Updated = 0\<rparr>"

section \<open>Telemetry and the 95th percentile\<close>

datatype PercentileMode = PercentileSeparate | PercentileGreater | PercentileGreaterSeparate

record RateSample =
  rt_In :: float64
  rt_Out :: float64

record PercentileSummary =
  sm_In95 :: float64
  sm_Out95 :: float64
  sm_Usage :: float64
  sm_Single :: bool
  sm_Samples :: nat

record Usage =
  us_Provider :: string
  us_CommitMbps :: float64
  us_CapacityMbps :: float64
  us_Samples :: int
  us_OutMbps :: float64
  us_OutMbps95 :: float64
  us_UsageMbps :: float64
  us_Single :: bool
  us_Updated :: time
  us_InMbps95 :: float64
  us_Error :: string

definition BillableMbps :: "Usage \<Rightarrow> float64 option" where
  "BillableMbps u =
     (if us_Samples u \<le> 0 \<or> us_CommitMbps u \<le> 0 then None
      else if us_Single u then Some (us_UsageMbps u)
      else Some (us_OutMbps95 u))"

definition InboundMbps :: "Usage \<Rightarrow> float64 option" where
  "InboundMbps u = (if us_Samples u \<le> 0 \<or> us_CommitMbps u \<le> 0 then None else Some (us_InMbps95 u))"

definition Percentile95 :: "float64 list \<Rightarrow> float64 option" where
  "Percentile95 values =
     (let n = length values in
      if n = 0 then None
      else let cp = sort values; rank0 = (95 * n + 99) div 100;
               rank1 = (if rank0 < 1 then 1 else rank0);
               rank = (if rank1 > n then n else rank1)
           in Some (cp ! (rank - 1)))"

text \<open>The value of a \<open>(value, ok)\<close> result whose \<open>ok\<close> the source ignores.\<close>

definition val0 :: "float64 option \<Rightarrow> float64" where
  "val0 v = (case v of None \<Rightarrow> 0 | Some x \<Rightarrow> x)"

definition Summarize :: "PercentileMode \<Rightarrow> RateSample list \<Rightarrow> PercentileSummary" where
  "Summarize mode samples =
     (let n = length samples in
      if n = 0 then \<lparr>sm_In95 = 0, sm_Out95 = 0, sm_Usage = 0, sm_Single = False, sm_Samples = 0\<rparr>
      else let inVals = map rt_In samples; outVals = map rt_Out samples;
               maxVals = map (\<lambda>s. if rt_Out s > rt_In s then rt_Out s else rt_In s) samples;
               in95 = val0 (Percentile95 inVals); out95 = val0 (Percentile95 outVals);
               out = \<lparr>sm_In95 = in95, sm_Out95 = out95, sm_Usage = 0, sm_Single = False, sm_Samples = n\<rparr>
           in case mode of
                PercentileGreater \<Rightarrow> out\<lparr>sm_Usage := val0 (Percentile95 maxVals), sm_Single := True\<rparr>
              | PercentileGreaterSeparate \<Rightarrow>
                  out\<lparr>sm_Usage := (if out95 > in95 then out95 else in95), sm_Single := True\<rparr>
              | PercentileSeparate \<Rightarrow> out)"

section \<open>The planner's snapshot and moves\<close>

record PlanPath =
  pp_Provider :: string
  pp_LossPct :: float64
  pp_RTT :: duration
  pp_Usable :: bool

record PlanPrefix =
  px_Prefix :: prefix
  px_Native :: string
  px_Current :: string
  px_VolumeMbps :: float64
  px_Locked :: bool
  px_Reversible :: bool
  px_Paths :: "PlanPath list"

record PlanProvider =
  pr_Name :: string
  pr_Group :: string
  pr_Precedence :: int
  pr_CCDisable :: bool
  pr_Excluded :: bool
  pr_Up :: bool
  pr_Usage :: Usage
  pr_HaveRow :: bool
  pr_Cost :: float64
  pr_HasCost :: bool
  pr_Port :: string

record PlanPort =
  pt_Name :: string
  pt_CapacityMbps :: float64
  pt_CommitMbps :: float64
  pt_Usage :: Usage
  pt_HaveRow :: bool

record PlanInput =
  pi_Now :: time
  pi_Providers :: "PlanProvider list"
  pi_Ports :: "PlanPort list"
  pi_Prefixes :: "PlanPrefix list"

record PlanMove =
  mv_Prefix :: prefix
  mv_Provider :: string
  mv_Reason :: reason
  mv_ReliefMbps :: float64
  mv_Cause :: cause
  mv_Savings :: float64

record WeightInput =
  wi_Prefix :: prefix
  wi_Provider :: string
  wi_Gain :: float64
  wi_VolumeMbps :: float64

section \<open>The scorer and its optional interfaces\<close>

text \<open>
  \<open>sc_Planner\<close> is the \<open>Planner\<close> interface, \<open>sc_AllowLoss\<close> the answer of \<open>LossOverride\<close>, \<open>sc_CostPolicy\<close>
  the floor (loss, RTT) and the precedence of \<open>CostPolicy\<close>, and \<open>sc_Weigher\<close> whether the weights of
  \<open>ImprovementWeigher\<close> are on and its weight function.
\<close>

record CostPolicy =
  cp_MaxLoss :: float64
  cp_MaxRTT :: duration
  cp_CostFirst :: bool

record Scorer =
  sc_Score :: "PathStats \<Rightarrow> float64"
  sc_Planner :: "(PlanInput \<Rightarrow> PlanMove list) option"
  sc_AllowLoss :: "bool option"
  sc_CostPolicy :: "CostPolicy option"
  sc_Weigher :: "(bool \<times> (WeightInput \<Rightarrow> float64)) option"

definition zeroUsage :: Usage where
  "zeroUsage = \<lparr>us_Provider = [], us_CommitMbps = 0, us_CapacityMbps = 0, us_Samples = 0, us_OutMbps = 0,
     us_OutMbps95 = 0, us_UsageMbps = 0, us_Single = False, us_Updated = 0, us_InMbps95 = 0, us_Error = []\<rparr>"

section \<open>Lemmas\<close>

lemma p95_rank_le: "0 < n \<Longrightarrow> (95 * n + 99) div 100 \<le> (n :: nat)"
  by linarith

lemma p95_rank_pos: "0 < n \<Longrightarrow> 1 \<le> (95 * n + 99) div (100 :: nat)"
  by linarith

lemma p95_rank_bounds:
  "100 * ((95 * n + 99) div 100) \<le> 95 * n + 99" "95 * n \<le> 100 * ((95 * n + 99) div (100 :: nat))"
  by linarith+

text \<open>The clamps of the rank never act.\<close>

lemma Percentile95_eq:
  "values \<noteq> [] \<Longrightarrow> Percentile95 values = Some (sort values ! ((95 * length values + 99) div 100 - 1))"
  using p95_rank_le [of "length values"] p95_rank_pos [of "length values"]
  by (simp add: Percentile95_def Let_def)

lemma sorted_nth_count:
  assumes "sorted xs" "i < length (xs :: float64 list)"
  shows "Suc i \<le> length (filter (\<lambda>x. x \<le> xs ! i) xs)"
    and "length xs - i \<le> length (filter (\<lambda>x. xs ! i \<le> x) xs)"
proof -
  have "filter (\<lambda>x. x \<le> xs ! i) xs = filter (\<lambda>x. x \<le> xs ! i) (take (Suc i) xs) @ filter (\<lambda>x. x \<le> xs ! i) (drop (Suc i) xs)"
    by (metis append_take_drop_id filter_append)
  moreover have "filter (\<lambda>x. x \<le> xs ! i) (take (Suc i) xs) = take (Suc i) xs"
    using assms by (auto simp: filter_id_conv in_set_conv_nth less_Suc_eq_le sorted_nth_mono)
  ultimately show "Suc i \<le> length (filter (\<lambda>x. x \<le> xs ! i) xs)"
    using assms by simp
  have "filter (\<lambda>x. xs ! i \<le> x) xs = filter (\<lambda>x. xs ! i \<le> x) (take i xs) @ filter (\<lambda>x. xs ! i \<le> x) (drop i xs)"
    by (metis append_take_drop_id filter_append)
  moreover have "filter (\<lambda>x. xs ! i \<le> x) (drop i xs) = drop i xs"
    using assms by (auto simp: filter_id_conv in_set_conv_nth sorted_nth_mono)
  ultimately show "length xs - i \<le> length (filter (\<lambda>x. xs ! i \<le> x) xs)"
    using assms by simp
qed

lemma length_filter_sort: "length (filter P (sort xs)) = length (filter P (xs :: float64 list))"
  by (metis mset_filter mset_sort size_mset)

text \<open>
  The nearest-rank 95th percentile. The figure is one of the samples, at least 95 percent of the
  samples do not exceed it, and more than 5 percent less one sample reach it, so it is not larger
  than needed. It does not depend on the order of the samples.
\<close>

theorem Percentile95_nearest_rank:
  assumes "values \<noteq> []"
  shows "\<exists>v. Percentile95 values = Some v \<and> v \<in> set values \<and>
           95 * length values \<le> 100 * length (filter (\<lambda>x. x \<le> v) values) \<and>
           5 * length values < 100 * length (filter (\<lambda>x. v \<le> x) values) \<and>
           (\<forall>ys. mset ys = mset values \<longrightarrow> Percentile95 ys = Some v)"
proof -
  let ?n = "length values" and ?xs = "sort values"
  let ?i = "(95 * ?n + 99) div 100 - 1"
  have n: "0 < ?n" using assms by simp
  have i: "?i < length ?xs" using p95_rank_le [OF n] p95_rank_pos [OF n] by simp
  have le: "Suc ?i \<le> length (filter (\<lambda>x. x \<le> ?xs ! ?i) values)"
    and ge: "?n - ?i \<le> length (filter (\<lambda>x. ?xs ! ?i \<le> x) values)"
    using sorted_nth_count [OF _ i] by (simp_all add: length_filter_sort)
  have "95 * m \<le> 100 * Suc (k - 1) \<and> 5 * m < 100 * (m - (k - 1))"
    if "k \<le> m" "1 \<le> k" "100 * k \<le> 95 * m + 99" "95 * m \<le> 100 * k" for k m :: nat
    using that by (cases k) auto
  from this [OF p95_rank_le [OF n] p95_rank_pos [OF n] p95_rank_bounds]
  have "95 * ?n \<le> 100 * Suc ?i" "5 * ?n < 100 * (?n - ?i)" by simp_all
  moreover have "?xs ! ?i \<in> set values"
    using nth_mem [OF i] by simp
  moreover have "Percentile95 ys = Some (?xs ! ?i)" if "mset ys = mset values" for ys
  proof -
    have "sort ys = ?xs" by (rule properties_for_sort) (simp_all add: that)
    moreover have "length ys = ?n" using that by (metis size_mset)
    ultimately show ?thesis using n by (subst Percentile95_eq) auto
  qed
  ultimately show ?thesis
    using le ge by (intro exI [of _ "?xs ! ?i"]) (auto simp: Percentile95_eq [OF assms])
qed

end
