(* ===== verification/Probe.thy ===== *)
theory Probe
  imports Plugin "HOL-Library.Signed_Division"
begin

text \<open>
  What the decision engine reads of \<open>internal/probe\<close>: the statistics of one probe run
  (\<open>stats.go\<close>), the confidence rating of a sample (\<open>confidence.go\<close>) and the result record of
  \<open>engine.go\<close> and \<open>subrange.go\<close>. Durations are added and divided as Go does: sums wrap at 64 bits
  and division truncates towards zero (\<open>sdiv\<close>).
\<close>

section \<open>Statistics (stats.go)\<close>

record Phases =
  ph_Connect :: duration
  ph_Handshake :: duration
  ph_TTFB :: duration

record ProbeResult =
  prb_Sent :: int
  prb_RTTs :: "duration list"
  prb_Phases :: "Phases list"

record Stats =
  st_Sent :: int
  st_Received :: int
  st_LossPct :: float64
  st_RTTMin :: duration
  st_RTTAvg :: duration
  st_RTTMax :: duration
  st_Jitter :: duration
  st_Connect :: duration
  st_Handshake :: duration
  st_TTFB :: duration

definition zeroStats :: Stats where
  "zeroStats = \<lparr>st_Sent = 0, st_Received = 0, st_LossPct = 0, st_RTTMin = 0, st_RTTAvg = 0, st_RTTMax = 0,
     st_Jitter = 0, st_Connect = 0, st_Handshake = 0, st_TTFB = 0\<rparr>"

definition add64 :: "duration \<Rightarrow> duration \<Rightarrow> duration" where
  "add64 a b = wrap64 (a + b)"

definition sum64 :: "duration list \<Rightarrow> duration" where
  "sum64 ds = foldl add64 0 ds"

text \<open>The absolute differences of consecutive RTTs.\<close>

fun diffs :: "duration list \<Rightarrow> duration list" where
  "diffs (a # b # ds) =
     (let d = wrap64 (b - a) in (if d < 0 then wrap64 (- d) else d) # diffs (b # ds))"
| "diffs _ = []"

definition loss_pct :: "int \<Rightarrow> int \<Rightarrow> float64" where
  "loss_pct sent received =
     (if sent > 0
      then let lost = (if sent - received < 0 then 0 else sent - received)
           in 100 * of_int lost / of_int sent
      else 0)"

definition Compute :: "ProbeResult \<Rightarrow> Stats" where
  "Compute r =
     (let rtts = prb_RTTs r; n = int (length rtts);
          s0 = zeroStats\<lparr>st_Sent := prb_Sent r, st_Received := n, st_LossPct := loss_pct (prb_Sent r) n\<rparr>
      in if n = 0 then s0
         else let s1 = s0\<lparr>st_RTTMin := foldl min (hd rtts) rtts, st_RTTMax := foldl max (hd rtts) rtts,
                          st_RTTAvg := sum64 rtts sdiv n\<rparr>;
                  s2 = (if int (length (prb_Phases r)) = n
                        then s1\<lparr>st_Connect := sum64 (map ph_Connect (prb_Phases r)) sdiv n,
                                st_Handshake := sum64 (map ph_Handshake (prb_Phases r)) sdiv n,
                                st_TTFB := sum64 (map ph_TTFB (prb_Phases r)) sdiv n\<rparr>
                        else s1)
              in if n > 1 then s2\<lparr>st_Jitter := sum64 (diffs rtts) sdiv (n - 1)\<rparr> else s2)"

text \<open>The address probed inside a prefix: the first after the network address, or the host itself.\<close>

fun addr_next :: "addr \<Rightarrow> addr" where
  "addr_next NoAddr = NoAddr"
| "addr_next (V4 w) = (if w = - 1 then NoAddr else V4 (w + 1))"
| "addr_next (V6 w) = (if w = - 1 then NoAddr else V6 (w + 1))"

definition DefaultHost :: "prefix \<Rightarrow> addr" where
  "DefaultHost p0 =
     (let p = Masked p0; a = Addr p in
      if Bits p = BitLen a then a
      else let nxt = addr_next a in
        if nxt \<noteq> NoAddr \<and> Contains p nxt then nxt else a)"

section \<open>Confidence (confidence.go)\<close>

text \<open>\<open>ConfidenceUnset\<close> is the zero value of a result no rating was stored for.\<close>

datatype confidence_level = ConfidenceHigh | ConfidenceMedium | ConfidenceLow | ConfidenceNone
  | ConfidenceUnset

datatype passive_state = PassiveUnset | PassiveAgree | PassiveDisagree

record Confidence =
  cf_Level :: confidence_level
  cf_Score :: float64
  cf_Protocol :: string
  cf_Replies :: int
  cf_Sent :: int
  cf_Indirect :: bool
  cf_WideSpread :: bool
  cf_Passive :: passive_state

definition zeroConfidence :: Confidence where
  "zeroConfidence = \<lparr>cf_Level = ConfidenceUnset, cf_Score = 0, cf_Protocol = [], cf_Replies = 0,
     cf_Sent = 0, cf_Indirect = False, cf_WideSpread = False, cf_Passive = PassiveUnset\<rparr>"

definition weakFactor :: float64 where "weakFactor = 1 / 2"
definition confidenceHighMin :: float64 where "confidenceHighMin = 3 / 4"
definition confidenceMediumMin :: float64 where "confidenceMediumMin = 2 / 5"

definition BeyondICMP :: "Confidence \<Rightarrow> bool" where
  "BeyondICMP c \<longleftrightarrow> cf_Protocol c = ''tcp'' \<or> cf_Protocol c = ''udp'' \<or> cf_Protocol c = ''https'' \<or>
     cf_Passive c = PassiveAgree"

definition replies_factor :: "int \<Rightarrow> float64" where
  "replies_factor n =
     (if n = 0 then weakFactor * weakFactor else if n = 1 then weakFactor
      else if n = 2 then 3 / 4 else 1)"

definition confidence_score :: "Confidence \<Rightarrow> float64" where
  "confidence_score c =
     (let score1 = (if \<not> BeyondICMP c then 1 * weakFactor else 1);
          score2 = score1 * replies_factor (cf_Replies c);
          score3 = (if cf_Indirect c then score2 * weakFactor else score2);
          score4 = (if cf_WideSpread c then score3 * weakFactor else score3)
      in if cf_Passive c = PassiveDisagree then score4 * weakFactor else score4)"

definition rated :: "Confidence \<Rightarrow> Confidence" where
  "rated c =
     (let score = confidence_score c in
      c\<lparr>cf_Score := score,
        cf_Level := (if score \<ge> confidenceHighMin then ConfidenceHigh
                     else if score \<ge> confidenceMediumMin then ConfidenceMedium else ConfidenceLow)\<rparr>)"

definition WithPassive :: "Confidence \<Rightarrow> bool \<Rightarrow> Confidence" where
  "WithPassive c agree =
     (if cf_Level c = ConfidenceNone then c
      else rated (c\<lparr>cf_Passive := (if agree then PassiveAgree else PassiveDisagree)\<rparr>))"

section \<open>Results (engine.go, subrange.go)\<close>

record SubrangeResult =
  sr_Prefix :: prefix
  sr_Target :: addr
  sr_Weight :: float64
  sr_Prober :: string
  sr_Stats :: Stats
  sr_Err :: string
  sr_Time :: time

definition sr_OK :: "SubrangeResult \<Rightarrow> bool" where
  "sr_OK r \<longleftrightarrow> sr_Err r = []"

record Result =
  r_Provider :: string
  r_Prefix :: prefix
  r_Target :: addr
  r_Prober :: string
  r_Stats :: Stats
  r_Err :: string
  r_Time :: time
  r_Round :: time
  r_Subranges :: "SubrangeResult list"
  r_Indirect :: bool
  r_Confidence :: Confidence

definition OK :: "Result \<Rightarrow> bool" where
  "OK r \<longleftrightarrow> r_Err r = []"

definition RateConfidence :: "Result \<Rightarrow> string \<Rightarrow> duration \<Rightarrow> Confidence" where
  "RateConfidence r protocol dispersion =
     (if \<not> OK r then zeroConfidence\<lparr>cf_Level := ConfidenceNone\<rparr>
      else let st = r_Stats r;
               c = zeroConfidence\<lparr>cf_Protocol := protocol, cf_Replies := st_Received st,
                                  cf_Sent := st_Sent st, cf_Indirect := r_Indirect r\<rparr>
           in if st_Received st \<ge> 2
              then let spread = wrap64 (st_RTTMax st - st_RTTMin st);
                       limit = (if dispersion \<le> 0 then st_RTTAvg st else dispersion)
                   in rated (c\<lparr>cf_WideSpread := (spread > limit)\<rparr>)
              else rated c)"

section \<open>Lemmas\<close>

lemma foldl_min_le:
  "foldl min a (ds :: int list) \<le> a \<and> (\<forall>d \<in> set ds. foldl min a ds \<le> d)"
  by (induction ds arbitrary: a) (auto intro: order_trans, (meson dual_order.trans min.bounded_iff)+)

lemma foldl_max_ge:
  "a \<le> foldl max a (ds :: int list) \<and> (\<forall>d \<in> set ds. d \<le> foldl max a ds)"
  by (induction ds arbitrary: a) (auto intro: order_trans, (meson dual_order.trans max.bounded_iff)+)

lemma sum64_exact_aux:
  assumes "\<forall>d \<in> set ds. 0 \<le> d" "0 \<le> a" "a + sum_list ds < 2 ^ 63"
  shows "foldl add64 a ds = a + sum_list ds"
  using assms
proof (induction ds arbitrary: a)
  case Nil
  then show ?case by simp
next
  case (Cons d ds)
  have "0 \<le> sum_list ds" using Cons.prems(1) by (simp add: sum_list_nonneg)
  then have "add64 a d = a + d"
    unfolding add64_def using Cons.prems by (intro wrap64_exact) auto
  with Cons show ?case by (simp add: add.assoc)
qed

lemma sum64_exact:
  "\<forall>d \<in> set ds. 0 \<le> d \<Longrightarrow> sum_list ds < 2 ^ 63 \<Longrightarrow> sum64 ds = sum_list ds"
  unfolding sum64_def using sum64_exact_aux [of ds 0] by simp

lemma sdiv_nonneg: "0 \<le> a \<Longrightarrow> 0 < b \<Longrightarrow> (a :: int) sdiv b = a div b"
  by (simp add: signed_divide_int_def sgn_if)

lemma sum_list_bounds:
  "\<forall>d \<in> set ds. lo \<le> d \<and> d \<le> hi \<Longrightarrow>
   lo * int (length ds) \<le> sum_list ds \<and> sum_list ds \<le> hi * int (length ds)"
  by (induction ds) (auto simp: algebra_simps)

text \<open>The mean of a non-empty list lies between its bounds.\<close>

lemma mean_bounds:
  assumes "ds \<noteq> []" and "\<forall>d \<in> set ds. lo \<le> d \<and> d \<le> hi"
  shows "lo \<le> sum_list ds div int (length ds) \<and> sum_list ds div int (length ds) \<le> hi"
proof -
  have pos: "0 < int (length ds)" using assms(1) by simp
  note b = sum_list_bounds [OF assms(2)]
  have "lo * int (length ds) div int (length ds) \<le> sum_list ds div int (length ds)"
    using b pos by (intro zdiv_mono1) simp_all
  moreover have "sum_list ds div int (length ds) \<le> hi * int (length ds) div int (length ds)"
    using b pos by (intro zdiv_mono1) simp_all
  ultimately show ?thesis using pos by simp
qed

section \<open>Properties\<close>

text \<open>
  Probe statistics are sane. For replies with non-negative round-trip times whose sum fits 64
  bits, the loss lies between 0 and 100 percent, and the mean lies between the smallest and the
  largest reply, both of which bound every reply.
\<close>

theorem Compute_bounds:
  assumes "prb_RTTs r \<noteq> []" and "\<forall>d \<in> set (prb_RTTs r). 0 \<le> d" and "sum_list (prb_RTTs r) < 2 ^ 63"
  shows "0 \<le> st_LossPct (Compute r) \<and> st_LossPct (Compute r) \<le> 100 \<and>
         st_RTTMin (Compute r) \<le> st_RTTAvg (Compute r) \<and> st_RTTAvg (Compute r) \<le> st_RTTMax (Compute r) \<and>
         (\<forall>d \<in> set (prb_RTTs r). st_RTTMin (Compute r) \<le> d \<and> d \<le> st_RTTMax (Compute r))"
proof -
  let ?ds = "prb_RTTs r"
  let ?lo = "foldl min (hd ?ds) ?ds" and ?hi = "foldl max (hd ?ds) ?ds"
  have each: "\<forall>d \<in> set ?ds. ?lo \<le> d \<and> d \<le> ?hi"
    using foldl_min_le [of "hd ?ds" ?ds] foldl_max_ge [of "hd ?ds" ?ds] by blast
  have "sum64 ?ds sdiv int (length ?ds) = sum_list ?ds div int (length ?ds)"
    using assms by (simp add: sum64_exact sdiv_nonneg sum_list_nonneg)
  then have avg: "?lo \<le> sum64 ?ds sdiv int (length ?ds)" "sum64 ?ds sdiv int (length ?ds) \<le> ?hi"
    using mean_bounds [OF assms(1) each] by simp_all
  have loss: "0 \<le> loss_pct s n \<and> loss_pct s n \<le> 100" if "0 \<le> n" for s n
    using that by (auto simp: loss_pct_def Let_def field_simps)
  have "st_RTTMin (Compute r) = ?lo" "st_RTTMax (Compute r) = ?hi"
    "st_RTTAvg (Compute r) = sum64 ?ds sdiv int (length ?ds)"
    "st_LossPct (Compute r) = loss_pct (prb_Sent r) (int (length ?ds))"
    using assms(1) by (simp_all add: Compute_def Let_def)
  then show ?thesis using each avg loss [of "int (length ?ds)" "prb_Sent r"] by simp
qed

text \<open>
  Passive evidence can only confirm or weaken. Rating a measured sample with agreeing passive
  traffic never lowers its score and always makes it rest on more than ICMP; disagreeing traffic
  never raises the score above the rating without passive evidence.
\<close>

theorem WithPassive_monotone:
  assumes "cf_Level c \<noteq> ConfidenceNone" and "cf_Passive c = PassiveUnset"
  shows "cf_Score (rated c) \<le> cf_Score (WithPassive c True) \<and> BeyondICMP (WithPassive c True) \<and>
         cf_Score (WithPassive c False) \<le> cf_Score (rated c) \<and>
         (BeyondICMP (WithPassive c False) \<longleftrightarrow> BeyondICMP c)"
proof -
  have "0 \<le> replies_factor (cf_Replies c)"
    by (simp add: replies_factor_def weakFactor_def)
  then show ?thesis
    using assms
    by (auto simp: WithPassive_def rated_def Let_def confidence_score_def BeyondICMP_def weakFactor_def)
qed

end
