(* ===== verification/Policy_Types.thy ===== *)
theory Policy_Types
  imports Probe
begin

text \<open>
  The data of the decision engine (\<open>internal/policy\<close>): configuration, input, state, candidates,
  decisions, changes and output, with the names and the order of the fields of \<open>policy.go\<close>,
  \<open>flap.go\<close>, \<open>med.go\<close> and \<open>overload.go\<close>. Read-only maps are functions; the maps of \<open>State\<close>, which a
  decision iterates, counts and updates, are finite maps. The explanation records of \<open>explain.go\<close>,
  which no decision reads, are not part of the model.
\<close>

section \<open>Configuration\<close>

record FlapConfig =
  fc_MaxFlips :: int
  fc_Window :: duration
  fc_Cooldown :: duration
  fc_MaxCooldown :: duration

record ProviderPolicy =
  pol_Name :: string
  pol_Group :: string
  pol_Precedence :: int
  pol_CCDisable :: bool
  pol_Cost :: float64
  pol_HasCost :: bool
  pol_Port :: string
  pol_CapacityThresholdPct :: float64

record PortPolicy =
  port_Name :: string
  port_CapacityMbps :: float64
  port_CommitMbps :: float64

record Config =
  cfg_Mode :: string
  cfg_MinLossDeltaPct :: float64
  cfg_MinRTTDelta :: duration
  cfg_MinRTTDeltaPct :: float64
  cfg_ConfirmRounds :: int
  cfg_HoldTime :: duration
  cfg_MaxImprovements :: int
  cfg_ImprovementTTL :: duration
  cfg_MaxResultAge :: duration
  cfg_Excluded :: "string \<Rightarrow> bool"
  cfg_RPKIAvoidInvalid :: bool
  cfg_IRRPreferRegistered :: bool
  cfg_RequireEvidence :: bool
  cfg_Allowlist :: "prefix list"
  cfg_Providers :: "ProviderPolicy list"
  cfg_Ports :: "PortPolicy list"
  cfg_Flap :: FlapConfig
  cfg_MEDTieBreak :: bool
  cfg_MEDMargin :: float64

definition NativePathConfirm :: duration where
  "NativePathConfirm = 5 * Second"

section \<open>Input\<close>

record NeighborMED =
  nm_ASN :: "32 word"
  nm_MED :: "32 word"

record Load =
  ld_CapacityMbps :: float64
  ld_OutMbps :: float64
  ld_Updated :: time

record Input =
  in_Results :: "Result list"
  in_ProviderUp :: "string \<Rightarrow> bool"
  in_RIBEnabled :: bool
  in_RIBReady :: bool
  in_Native :: "prefix \<rightharpoonup> string"
  in_Held :: "(prefix \<Rightarrow> bool) option"
  in_Usage :: "Usage list"
  in_Load :: "string \<rightharpoonup> Load"
  in_VolumeMbps :: "prefix \<Rightarrow> float64"
  in_WeightVolumeMbps :: "(prefix \<Rightarrow> float64) option"
  in_Policies :: "prefix \<rightharpoonup> PolicyVerdict"
  in_Maintenance :: "string list"
  in_NoRoute :: "prefix \<rightharpoonup> (string \<Rightarrow> bool)"
  in_EgressDown :: "string \<Rightarrow> bool"
  in_RPKI :: "prefix \<rightharpoonup> (string \<rightharpoonup> RPKIAnswer)"
  in_IRR :: "prefix \<rightharpoonup> (string \<rightharpoonup> IRRAnswer)"
  in_Remote :: "string \<Rightarrow> bool"
  in_Reorder :: "string \<rightharpoonup> float64"
  in_Passive :: "prefix \<rightharpoonup> bool"
  in_MED :: "prefix \<rightharpoonup> (string \<rightharpoonup> NeighborMED)"
  in_Synthesize :: "(prefix, prefix) fmap"

text \<open>\<open>in.byPrefix[p]\<close>: the results of one prefix, in the order of \<open>Results\<close>.\<close>

definition byPrefixResults :: "Input \<Rightarrow> prefix \<Rightarrow> Result list" where
  "byPrefixResults inp p = filter (\<lambda>r. r_Prefix r = p) (in_Results inp)"

text \<open>The rate the improvement weights and the capacity limit read.\<close>

definition volumes :: "Input \<Rightarrow> prefix \<Rightarrow> float64" where
  "volumes inp = (case in_WeightVolumeMbps inp of Some v \<Rightarrow> v | None \<Rightarrow> in_VolumeMbps inp)"

section \<open>Improvements and state\<close>

record MEDOverride =
  mo_ASN :: "32 word"
  mo_Preferred :: string
  mo_PreferredMED :: "32 word"
  mo_Chosen :: string
  mo_ChosenMED :: "32 word"
  mo_ScoreGap :: float64

record Improvement =
  imp_Prefix :: prefix
  imp_Provider :: string
  imp_Native :: string
  imp_Since :: time
  imp_Reason :: reason
  imp_Cause :: cause
  imp_CostDelta :: float64
  imp_EstSavings :: float64
  imp_VolumeMbps :: float64
  imp_MEDOverride :: "MEDOverride option"
  imp_Covering :: prefix
  imp_nativeSeen :: time
  imp_nativeHeld :: bool

definition zeroImprovement :: Improvement where
  "zeroImprovement = \<lparr>imp_Prefix = zeroPrefix, imp_Provider = [], imp_Native = [], imp_Since = 0,
     imp_Reason = RNone, imp_Cause = CauseUnset, imp_CostDelta = 0, imp_EstSavings = 0, imp_VolumeMbps = 0,
     imp_MEDOverride = None, imp_Covering = zeroPrefix, imp_nativeSeen = 0, imp_nativeHeld = False\<rparr>"

text \<open>The improvement literals of the source set these fields and leave the others zero.\<close>

definition mkImprovement ::
  "prefix \<Rightarrow> string \<Rightarrow> string \<Rightarrow> time \<Rightarrow> reason \<Rightarrow> cause \<Rightarrow> Improvement" where
  "mkImprovement p prov native since rsn cs =
     zeroImprovement\<lparr>imp_Prefix := p, imp_Provider := prov, imp_Native := native, imp_Since := since,
       imp_Reason := rsn, imp_Cause := cs\<rparr>"

record confirm =
  cn_Provider :: string
  cn_Streak :: int
  cn_Round :: time
  cn_Local :: time
  cn_Probe :: bool

definition zeroConfirm :: confirm where
  "zeroConfirm = \<lparr>cn_Provider = [], cn_Streak = 0, cn_Round = 0, cn_Local = 0, cn_Probe = False\<rparr>"

record Quarantine =
  q_Prefix :: prefix
  q_Since :: time
  q_Until :: time
  q_Flips :: int
  q_Strikes :: int

record offense =
  of_strikes :: int
  of_last :: time

record shedMark =
  sm_sample :: time
  sm_at :: time

record State =
  s_Improvements :: "(prefix, Improvement) fmap"
  s_Cooldown :: "(prefix, time) fmap"
  s_confirm :: "(prefix, confirm) fmap"
  s_flips :: "(prefix, time list) fmap"
  s_quarantine :: "(prefix, Quarantine) fmap"
  s_offenses :: "(prefix, offense) fmap"
  s_shedAt :: "(string, shedMark) fmap"

definition NewState :: State where
  "NewState = \<lparr>s_Improvements = fmempty, s_Cooldown = fmempty, s_confirm = fmempty, s_flips = fmempty,
     s_quarantine = fmempty, s_offenses = fmempty, s_shedAt = fmempty\<rparr>"

section \<open>Candidates, decisions and output\<close>

record Candidate =
  c_Provider :: string
  c_Score :: float64
  c_LossPct :: float64
  c_RTTAvg :: duration
  c_Jitter :: duration
  c_ReorderPct :: float64
  c_Usable :: bool
  c_Why :: string
  c_RPKI :: RPKIValidity
  c_RPKISource :: string
  c_RPKIUpdated :: time
  c_IRR :: IRRState
  c_IRRSource :: string
  c_IRRUpdated :: time
  c_Confidence :: Confidence
  c_MED :: "32 word option"
  c_MEDASN :: "32 word"

definition zeroCandidate :: Candidate where
  "zeroCandidate = \<lparr>c_Provider = [], c_Score = 0, c_LossPct = 0, c_RTTAvg = 0, c_Jitter = 0, c_ReorderPct = 0,
     c_Usable = False, c_Why = [], c_RPKI = RPKIUnset, c_RPKISource = [], c_RPKIUpdated = 0, c_IRR = IRRUnset,
     c_IRRSource = [], c_IRRUpdated = 0, c_Confidence = zeroConfidence, c_MED = None, c_MEDASN = 0\<rparr>"

datatype act = ActionNone | ActionImprove | ActionKeep | ActionSwitch | ActionRetire | ActionCapped

record SubrangeDecision =
  sd_Prefix :: prefix
  sd_Weight :: float64
  sd_Best :: string
  sd_Candidates :: "Candidate list"

record Decision =
  d_Prefix :: prefix
  d_Native :: string
  d_Current :: string
  d_Recommended :: string
  d_Action :: act
  d_Cause :: cause
  d_Reason :: reason
  d_Policy :: string
  d_Weight :: float64
  d_Candidates :: "Candidate list"
  d_MEDOverride :: "MEDOverride option"
  d_Subranges :: "SubrangeDecision list"
  d_Heterogeneous :: bool
  d_Covering :: prefix

definition zeroDecision :: Decision where
  "zeroDecision = \<lparr>d_Prefix = zeroPrefix, d_Native = [], d_Current = [], d_Recommended = [],
     d_Action = ActionNone, d_Cause = CauseUnset, d_Reason = RNone, d_Policy = [], d_Weight = 0,
     d_Candidates = [], d_MEDOverride = None, d_Subranges = [], d_Heterogeneous = False,
     d_Covering = zeroPrefix\<rparr>"

record ImpChange =
  ic_Action :: act
  ic_Old :: Improvement
  ic_New :: Improvement

text \<open>
  A move waiting on the cap. The source also keeps a pointer to the move's decision, which is the
  decision of \<open>imp_Prefix\<close>.
\<close>

record pending =
  w_imp :: Improvement
  w_gain :: float64
  w_commit :: bool
  w_rank :: nat
  w_weight :: float64
  w_weighed :: bool

definition rankStatic :: nat where "rankStatic = 0"
definition rankVIP :: nat where "rankVIP = 1"
definition rankPerformance :: nat where "rankPerformance = 2"
definition rankPlanned :: nat where "rankPlanned = 3"

lemmas rank_defs = rankStatic_def rankVIP_def rankPerformance_def rankPlanned_def

datatype quarantine_action = QuarantineStart | QuarantineRelease

datatype quarantine_reason = QFlap reason | QOff | QElapsed

record QuarantineChange =
  qc_Action :: quarantine_action
  qc_Reason :: quarantine_reason
  qc_Quarantine :: Quarantine

datatype overload_action = OverloadRefused | OverloadShed

record Overload =
  ov_Action :: overload_action
  ov_Prefix :: prefix
  ov_Provider :: string
  ov_UsedPct :: float64
  ov_ProjectedPct :: float64
  ov_LimitPct :: float64
  ov_VolumeMbps :: float64
  ov_Reason :: reason

record Output =
  o_Decisions :: "Decision list"
  o_Changes :: "ImpChange list"
  o_Urgent :: "prefix list"
  o_Quarantines :: "QuarantineChange list"
  o_Overloads :: "Overload list"

definition zeroOutput :: Output where
  "zeroOutput = \<lparr>o_Decisions = [], o_Changes = [], o_Urgent = [], o_Quarantines = [], o_Overloads = []\<rparr>"

end
