(* ===== verification/Select.thy ===== *)
theory Select
  imports Policy_Types
begin

text \<open>
  Choosing between paths: the thresholds and the best candidate of \<open>select.go\<close>, the policy filter and
  the static-pin checks of the same file, the candidate lookups of \<open>commit.go\<close> and \<open>explain.go\<close>, and the
  MED tie break of \<open>med.go\<close>.
\<close>

section \<open>Thresholds\<close>

definition lossWins :: "Candidate \<Rightarrow> Candidate \<Rightarrow> Config \<Rightarrow> bool" where
  "lossWins a b cfg \<longleftrightarrow> cfg_MinLossDeltaPct cfg > 0 \<and> c_LossPct b - c_LossPct a \<ge> cfg_MinLossDeltaPct cfg"

definition rttWins :: "Candidate \<Rightarrow> Candidate \<Rightarrow> Config \<Rightarrow> bool" where
  "rttWins a b cfg =
     (if c_LossPct a > c_LossPct b \<or> cfg_MinRTTDelta cfg \<le> 0 then False
      else let delta = wrap64 (c_RTTAvg b - c_RTTAvg a) in
        if delta < cfg_MinRTTDelta cfg then False
        else if cfg_MinRTTDeltaPct cfg > 0 \<and>
                of_int delta * 100 < of_int (c_RTTAvg b) * cfg_MinRTTDeltaPct cfg then False
        else True)"

definition better :: "Candidate \<Rightarrow> Candidate \<Rightarrow> Config \<Rightarrow> bool" where
  "better a b cfg = (if c_Score a \<ge> c_Score b then False else lossWins a b cfg \<or> rttWins a b cfg)"

section \<open>Looking candidates up\<close>

definition usableCand :: "Candidate list \<Rightarrow> string \<Rightarrow> Candidate option" where
  "usableCand cands name = find (\<lambda>c. c_Provider c = name \<and> c_Usable c) cands"

definition findCandidate :: "Candidate list \<Rightarrow> string \<Rightarrow> Candidate option" where
  "findCandidate cands name = find (\<lambda>c. c_Provider c = name) cands"

text \<open>One step of the loop of \<open>bestCandidate\<close>.\<close>

definition eligibleCand :: "(string \<Rightarrow> bool) \<Rightarrow> string \<Rightarrow> Candidate \<Rightarrow> bool" where
  "eligibleCand excluded skip c \<longleftrightarrow> c_Usable c \<and> \<not> excluded (c_Provider c) \<and> c_Provider c \<noteq> skip"

definition best_step ::
  "(string \<Rightarrow> bool) \<Rightarrow> string \<Rightarrow> Candidate option \<Rightarrow> Candidate \<Rightarrow> Candidate option" where
  "best_step excluded skip best c =
     (if \<not> eligibleCand excluded skip c then best
      else case best of
        None \<Rightarrow> Some c
      | Some b \<Rightarrow> if c_Score c < c_Score b \<or> (c_Score c = c_Score b \<and> c_Provider c < c_Provider b)
                   then Some c else best)"

definition bestCandidate :: "Candidate list \<Rightarrow> (string \<Rightarrow> bool) \<Rightarrow> string \<Rightarrow> Candidate option" where
  "bestCandidate cands excluded skip = foldl (best_step excluded skip) None cands"

definition whyUnusable :: "Candidate list \<Rightarrow> string \<Rightarrow> string" where
  "whyUnusable cands provider =
     (case findCandidate cands provider of
        None \<Rightarrow> ''not measured''
      | Some c \<Rightarrow> if c_Why c = [] then ''usable'' else c_Why c)"

definition reasonText :: "Candidate \<Rightarrow> Candidate \<Rightarrow> reason" where
  "reasonText to from =
     RPerf (c_Provider to) (c_LossPct from) (c_LossPct to) (c_RTTAvg from) (c_RTTAvg to)"

section \<open>Routing policies\<close>

definition policy_why :: "PolicyVerdict \<Rightarrow> string" where
  "policy_why v = ''policy '' @ action_text (pv_Action v) @ '' ('' @ pv_Rule v @ '')''"

definition apply_policy1 :: "PolicyVerdict \<Rightarrow> string \<Rightarrow> Candidate \<Rightarrow> Candidate" where
  "apply_policy1 v native c =
     (if c_Provider c = native \<or> \<not> c_Usable c then c
      else if (pv_Action v = PolicyDeny) = (c_Provider c \<in> set (pv_Providers v))
      then c\<lparr>c_Usable := False, c_Why := policy_why v, c_Score := 0\<rparr>
      else c)"

definition applyPolicy :: "Candidate list \<Rightarrow> PolicyVerdict \<Rightarrow> string \<Rightarrow> Candidate list" where
  "applyPolicy cands v native =
     (if pv_Action v \<noteq> PolicyAllow \<and> pv_Action v \<noteq> PolicyDeny then cands
      else map (apply_policy1 v native) cands)"

text \<open>\<open>strings.TrimSpace\<close> on ASCII text and \<open>strings.Join\<close>.\<close>

definition is_space :: "char \<Rightarrow> bool" where
  "is_space c \<longleftrightarrow> c \<in> {CHR '' '', CHR 0x09, CHR 0x0A, CHR 0x0B, CHR 0x0C, CHR 0x0D}"

definition TrimSpace :: "string \<Rightarrow> string" where
  "TrimSpace s = rev (dropWhile is_space (rev (dropWhile is_space s)))"

fun Join :: "string list \<Rightarrow> string \<Rightarrow> string" where
  "Join [] sep = []"
| "Join [s] sep = s"
| "Join (s # ss) sep = s @ sep @ Join ss sep"

definition policyText :: "PolicyVerdict \<Rightarrow> string" where
  "policyText v =
     (let s1 = action_text (pv_Action v);
          s2 = (if pv_Providers v \<noteq> [] then s1 @ '' '' @ Join (pv_Providers v) '','' else s1)
      in if pv_Rule v \<noteq> [] \<or> pv_Match v \<noteq> []
         then s2 @ '' ('' @ TrimSpace (pv_Rule v @ '': '' @ pv_Match v) @ '')'' else s2)"

definition pinFault ::
  "Candidate \<Rightarrow> Candidate list \<Rightarrow> string \<Rightarrow> PolicyVerdict \<Rightarrow> Config \<Rightarrow> fault" where
  "pinFault pin cands native v cfg =
     (if c_LossPct pin > pv_MaxLossPct v then LossOver (c_LossPct pin) (pv_MaxLossPct v)
      else if pv_MaxRTT v > 0 \<and> c_RTTAvg pin > pv_MaxRTT v then RTTOver (c_RTTAvg pin) (pv_MaxRTT v)
      else case find (\<lambda>c. c_Provider c = native \<and> c_Usable c \<and> cfg_MinLossDeltaPct cfg > 0 \<and>
                          c_LossPct pin - c_LossPct c \<ge> cfg_MinLossDeltaPct cfg) cands of
             Some c \<Rightarrow> LossWorse (c_LossPct pin) (c_LossPct c)
           | None \<Rightarrow> NoFault)"

definition staticWhy :: "Candidate list \<Rightarrow> Config \<Rightarrow> string \<Rightarrow> string" where
  "staticWhy cands cfg name = (if cfg_Excluded cfg name then ''excluded'' else whyUnusable cands name)"

section \<open>The MED tie break\<close>

definition medOf :: "Candidate \<Rightarrow> NeighborMED option" where
  "medOf c = (case c_MED c of None \<Rightarrow> None
     | Some m \<Rightarrow> if c_MEDASN c = 0 then None else Some \<lparr>nm_ASN = c_MEDASN c, nm_MED = m\<rparr>)"

definition med_step ::
  "Config \<Rightarrow> string \<Rightarrow> string \<Rightarrow> Candidate \<Rightarrow> NeighborMED \<Rightarrow> (Candidate \<times> 32 word) option \<Rightarrow> Candidate \<Rightarrow>
   (Candidate \<times> 32 word) option" where
  "med_step cfg native skip c m best x =
     (if \<not> c_Usable x \<or> c_Provider x = c_Provider c \<or> c_Provider x = skip \<or>
         (cfg_Excluded cfg (c_Provider x) \<and> c_Provider x \<noteq> native) then best
      else case medOf x of
        None \<Rightarrow> best
      | Some xm \<Rightarrow>
          if nm_ASN xm \<noteq> nm_ASN m \<or> nm_MED xm \<ge> nm_MED m \<or> c_Score x - c_Score c > cfg_MEDMargin cfg
          then best
          else case best of
            None \<Rightarrow> Some (x, nm_MED xm)
          | Some (b, bMED) \<Rightarrow>
              if nm_MED xm < bMED \<or> (nm_MED xm = bMED \<and>
                   (c_Score x < c_Score b \<or> (c_Score x = c_Score b \<and> c_Provider x < c_Provider b)))
              then Some (x, nm_MED xm) else best)"

definition medPreferred ::
  "Candidate list \<Rightarrow> Candidate \<Rightarrow> Config \<Rightarrow> string \<Rightarrow> string \<Rightarrow> Candidate option" where
  "medPreferred cands c cfg native skip =
     (if \<not> cfg_MEDTieBreak cfg then None
      else case medOf c of
        None \<Rightarrow> None
      | Some m \<Rightarrow> map_option fst (foldl (med_step cfg native skip c m) None cands))"

definition override_step ::
  "Config \<Rightarrow> string \<Rightarrow> Candidate \<Rightarrow> NeighborMED \<Rightarrow> MEDOverride option \<Rightarrow> Candidate \<Rightarrow> MEDOverride option" where
  "override_step cfg native c m best x =
     (case medOf x of
        None \<Rightarrow> best
      | Some xm \<Rightarrow>
          if \<not> c_Usable x \<or> c_Provider x = c_Provider c \<or>
             (cfg_Excluded cfg (c_Provider x) \<and> c_Provider x \<noteq> native) \<or>
             nm_ASN xm \<noteq> nm_ASN m \<or> nm_MED xm \<ge> nm_MED m then best
          else let new = Some \<lparr>mo_ASN = nm_ASN m, mo_Preferred = c_Provider x, mo_PreferredMED = nm_MED xm,
                               mo_Chosen = c_Provider c, mo_ChosenMED = nm_MED m,
                               mo_ScoreGap = c_Score x - c_Score c\<rparr>
               in case best of
                    None \<Rightarrow> new
                  | Some ov \<Rightarrow> if nm_MED xm < mo_PreferredMED ov \<or>
                                   (nm_MED xm = mo_PreferredMED ov \<and> c_Provider x < mo_Preferred ov)
                                then new else best)"

definition medOverride :: "Candidate list \<Rightarrow> Candidate \<Rightarrow> Config \<Rightarrow> string \<Rightarrow> MEDOverride option" where
  "medOverride cands c cfg native =
     (if \<not> cfg_MEDTieBreak cfg then None
      else case medOf c of None \<Rightarrow> None
        | Some m \<Rightarrow> foldl (override_step cfg native c m) None cands)"

definition medKeepReason :: "Candidate \<Rightarrow> Candidate \<Rightarrow> Config \<Rightarrow> reason" where
  "medKeepReason pref alt cfg =
     (let z = \<lparr>nm_ASN = 0, nm_MED = 0\<rparr>;
          p = (case medOf pref of None \<Rightarrow> z | Some m \<Rightarrow> m);
          a = (case medOf alt of None \<Rightarrow> z | Some m \<Rightarrow> m)
      in RMedKeep (nm_ASN p) (c_Provider pref) (nm_MED p) (c_Provider alt) (nm_MED a) (cfg_MEDMargin cfg))"

section \<open>Lemmas\<close>

lemma usableCand_Some:
  "usableCand cands name = Some c \<Longrightarrow> c \<in> set cands \<and> c_Provider c = name \<and> c_Usable c"
  by (auto simp: usableCand_def find_Some_iff in_set_conv_nth)

lemma usableCand_ex:
  "(\<exists>c. usableCand cands name = Some c) \<longleftrightarrow> (\<exists>c \<in> set cands. c_Provider c = name \<and> c_Usable c)"
  using find_None_iff [of "\<lambda>c. c_Provider c = name \<and> c_Usable c" cands]
  by (auto simp: usableCand_def)

lemma better_score: "better a b cfg \<Longrightarrow> c_Score a < c_Score b"
  by (auto simp: better_def split: if_splits)

text \<open>The order \<open>bestCandidate\<close> minimises: score, then provider name.\<close>

definition cand_le :: "Candidate \<Rightarrow> Candidate \<Rightarrow> bool" where
  "cand_le b c \<longleftrightarrow> c_Score b < c_Score c \<or> (c_Score b = c_Score c \<and> c_Provider b \<le> c_Provider c)"

lemma cand_le_refl: "cand_le c c"
  by (simp add: cand_le_def)

lemma cand_le_trans: "cand_le a b \<Longrightarrow> cand_le b c \<Longrightarrow> cand_le a c"
  by (auto simp: cand_le_def)

lemma best_step_Some:
  assumes "best_step excluded skip best x = Some b"
  shows "(best = Some b \<or> b = x \<and> eligibleCand excluded skip b) \<and>
         (\<forall>c. best = Some c \<longrightarrow> cand_le b c) \<and> (eligibleCand excluded skip x \<longrightarrow> cand_le b x)"
  using assms by (auto simp: best_step_def cand_le_def split: option.splits if_splits)

lemma best_step_None:
  "best_step excluded skip best x = None \<longleftrightarrow> best = None \<and> \<not> eligibleCand excluded skip x"
  by (auto simp: best_step_def split: option.splits)

lemma best_fold_None:
  "foldl (best_step excluded skip) best cands = None \<longleftrightarrow>
     best = None \<and> (\<forall>c \<in> set cands. \<not> eligibleCand excluded skip c)"
  by (induction cands arbitrary: best) (auto simp: best_step_None)

lemma best_fold_Some:
  assumes "foldl (best_step excluded skip) best cands = Some b"
  shows "(best = Some b \<or> b \<in> set cands \<and> eligibleCand excluded skip b) \<and>
         (\<forall>c. best = Some c \<longrightarrow> cand_le b c) \<and>
         (\<forall>c \<in> set cands. eligibleCand excluded skip c \<longrightarrow> cand_le b c)"
  using assms
proof (induction cands arbitrary: best)
  case Nil
  then show ?case by (simp add: cand_le_refl)
next
  case (Cons x cands)
  note IH = Cons.IH [of "best_step excluded skip best x"]
  show ?case
  proof (cases "best_step excluded skip best x")
    case None
    with IH Cons.prems show ?thesis by (auto simp: best_step_None)
  next
    case (Some y)
    from Cons.prems IH Some have y: "y = b \<or> b \<in> set cands \<and> eligibleCand excluded skip b"
      "cand_le b y" "\<forall>c \<in> set cands. eligibleCand excluded skip c \<longrightarrow> cand_le b c"
      by auto
    with best_step_Some [OF Some] show ?thesis by (auto intro: cand_le_trans)
  qed
qed

lemma bestCandidate_Some:
  assumes "bestCandidate cands excluded skip = Some b"
  shows "b \<in> set cands" "c_Usable b" "\<not> excluded (c_Provider b)" "c_Provider b \<noteq> skip"
    and "\<And>c. c \<in> set cands \<Longrightarrow> eligibleCand excluded skip c \<Longrightarrow> cand_le b c"
  using best_fold_Some [OF assms [unfolded bestCandidate_def]] by (auto simp: eligibleCand_def)

lemma bestCandidate_None:
  "bestCandidate cands excluded skip = None \<longleftrightarrow> (\<forall>c \<in> set cands. \<not> eligibleCand excluded skip c)"
  by (simp add: bestCandidate_def best_fold_None)

lemma med_fold:
  assumes "foldl (med_step cfg native skip c m) best cands = Some (b, bm)"
  shows "best = Some (b, bm) \<or>
         b \<in> set cands \<and> c_Usable b \<and> c_Provider b \<noteq> c_Provider c \<and> c_Provider b \<noteq> skip \<and>
         (cfg_Excluded cfg (c_Provider b) \<longrightarrow> c_Provider b = native) \<and>
         (\<exists>xm. medOf b = Some xm \<and> nm_ASN xm = nm_ASN m \<and> nm_MED xm < nm_MED m) \<and>
         c_Score b - c_Score c \<le> cfg_MEDMargin cfg"
  using assms
proof (induction cands arbitrary: best)
  case Nil
  then show ?case by simp
next
  case (Cons x cands)
  from Cons.IH [of "med_step cfg native skip c m best x"] Cons.prems show ?case
    by (auto simp: med_step_def split: if_splits option.splits prod.splits)
qed

text \<open>
  What the MED tie break may choose: a usable exit of the same neighbor with a strictly lower MED,
  within the margin, never the exit to skip, and excluded only if it is the native exit.
\<close>

lemma medPreferred_Some:
  assumes "medPreferred cands c cfg native skip = Some b"
  shows "b \<in> set cands" "c_Usable b" "c_Provider b \<noteq> c_Provider c" "c_Provider b \<noteq> skip"
    "cfg_Excluded cfg (c_Provider b) \<Longrightarrow> c_Provider b = native"
    "c_Score b - c_Score c \<le> cfg_MEDMargin cfg"
    "\<exists>m xm. medOf c = Some m \<and> medOf b = Some xm \<and> nm_ASN xm = nm_ASN m \<and> nm_MED xm < nm_MED m"
proof -
  from assms obtain m bm where m: "medOf c = Some m"
    and f: "foldl (med_step cfg native skip c m) None cands = Some (b, bm)"
    by (auto simp: medPreferred_def split: if_splits option.splits)
  from med_fold [OF f] m
  show "b \<in> set cands" "c_Usable b" "c_Provider b \<noteq> c_Provider c" "c_Provider b \<noteq> skip"
    "cfg_Excluded cfg (c_Provider b) \<Longrightarrow> c_Provider b = native"
    "c_Score b - c_Score c \<le> cfg_MEDMargin cfg"
    "\<exists>m xm. medOf c = Some m \<and> medOf b = Some xm \<and> nm_ASN xm = nm_ASN m \<and> nm_MED xm < nm_MED m"
    by auto
qed

section \<open>Properties\<close>

text \<open>
  The best candidate is the minimum. \<open>bestCandidate\<close> finds a candidate exactly when some provider
  is usable, not excluded and not the one to skip; the one it returns is such a provider, and no
  other such provider has a lower score, or the same score and a smaller name.
\<close>

theorem bestCandidate_is_minimum:
  "(bestCandidate cands excluded skip = None \<longleftrightarrow>
      (\<forall>c \<in> set cands. \<not> eligibleCand excluded skip c)) \<and>
   (\<forall>b. bestCandidate cands excluded skip = Some b \<longrightarrow>
      b \<in> set cands \<and> eligibleCand excluded skip b \<and>
      (\<forall>c \<in> set cands. eligibleCand excluded skip c \<longrightarrow>
         c_Score b < c_Score c \<or> c_Score b = c_Score c \<and> c_Provider b \<le> c_Provider c))"
  using bestCandidate_Some [of cands excluded skip]
  by (auto simp: bestCandidate_None eligibleCand_def cand_le_def [symmetric])

text \<open>
  No ping-pong on one measurement. Whatever the thresholds, two paths are never each better than
  the other, so one set of measurements cannot justify a move and its reversal, and no path is
  better than itself.
\<close>

theorem better_asym: "\<not> (better a b cfg \<and> better b a cfg') \<and> \<not> better a a cfg"
  by (auto dest!: better_score)

end
