(* ===== verification/Sample.thy ===== *)
theory Sample
  imports Policy_Types
begin

text \<open>
  A concrete configuration and input for the witnesses of the properties: one prefix whose native
  provider is \<open>a\<close>, measured through \<open>a\<close> and \<open>b\<close>, in observe mode with a cap of two.
\<close>

definition exP :: prefix where "exP = Pfx (V4 0xC6336400) 24"

definition exFlap :: FlapConfig where
  "exFlap = \<lparr>fc_MaxFlips = 0, fc_Window = 0, fc_Cooldown = 0, fc_MaxCooldown = 0\<rparr>"

definition exCfg :: Config where
  "exCfg = \<lparr>cfg_Mode = ''inject'', cfg_MinLossDeltaPct = 1, cfg_MinRTTDelta = 5 * Millisecond,
     cfg_MinRTTDeltaPct = 0, cfg_ConfirmRounds = 1, cfg_HoldTime = Minute, cfg_MaxImprovements = 2,
     cfg_ImprovementTTL = 0, cfg_MaxResultAge = 0, cfg_Excluded = (\<lambda>_. False), cfg_RPKIAvoidInvalid = False,
     cfg_IRRPreferRegistered = False, cfg_RequireEvidence = False, cfg_Allowlist = [exP], cfg_Providers = [],
     cfg_Ports = [], cfg_Flap = exFlap, cfg_MEDTieBreak = False, cfg_MEDMargin = 0\<rparr>"

definition exStats :: "float64 \<Rightarrow> Stats" where
  "exStats loss = zeroStats\<lparr>st_Sent := 10, st_Received := 10, st_LossPct := loss, st_RTTAvg := 20 * Millisecond\<rparr>"

definition exResult :: "string \<Rightarrow> float64 \<Rightarrow> time \<Rightarrow> Result" where
  "exResult prov loss t =
     \<lparr>r_Provider = prov, r_Prefix = exP, r_Target = V4 0xC6336401, r_Prober = ''icmp'', r_Stats = exStats loss,
      r_Err = [], r_Time = t, r_Round = t, r_Subranges = [], r_Indirect = False, r_Confidence = zeroConfidence\<rparr>"

definition exIn :: "bool \<Rightarrow> Result list \<Rightarrow> Input" where
  "exIn ready rs =
     \<lparr>in_Results = rs, in_ProviderUp = (\<lambda>_. True), in_RIBEnabled = True, in_RIBReady = ready,
      in_Native = (\<lambda>p. if p = exP then Some ''a'' else None), in_Held = None, in_Usage = [], in_Load = (\<lambda>_. None),
      in_VolumeMbps = (\<lambda>_. 0), in_WeightVolumeMbps = None, in_Policies = (\<lambda>_. None), in_Maintenance = [],
      in_NoRoute = (\<lambda>_. None), in_EgressDown = (\<lambda>_. False), in_RPKI = (\<lambda>_. None), in_IRR = (\<lambda>_. None),
      in_Remote = (\<lambda>_. False), in_Reorder = (\<lambda>_. None), in_Passive = (\<lambda>_. None), in_MED = (\<lambda>_. None),
      in_Synthesize = fmempty\<rparr>"

definition exScorer :: Scorer where
  "exScorer = \<lparr>sc_Score = (\<lambda>ps. ps_LossPct ps), sc_Planner = None, sc_AllowLoss = None, sc_CostPolicy = None,
     sc_Weigher = None\<rparr>"

definition exNow :: time where "exNow = 1000 * Second"

definition exInput :: Input where
  "exInput = exIn True [exResult ''a'' 10 exNow, exResult ''b'' 0 exNow]"

lemmas ex_defs = exP_def exFlap_def exCfg_def exStats_def exResult_def exIn_def exScorer_def exNow_def exInput_def

end
