(* ===== verification/Confirm.thy ===== *)
theory Confirm
  imports Select Sample
begin

text \<open>
  Confirming a performance move over several fresh probe rounds (\<open>internal/policy/confirm.go\<close>). A
  function that updates the streak of a prefix through the state pointer returns the new state.
\<close>

section \<open>Rounds\<close>

definition confirmRounds :: "Config \<Rightarrow> int" where
  "confirmRounds cfg = (if cfg_ConfirmRounds cfg \<le> 1 then 1 else cfg_ConfirmRounds cfg)"

text \<open>The newest of a list of times, starting from the zero time.\<close>

definition newest_time :: "time list \<Rightarrow> time" where
  "newest_time ts = foldl (\<lambda>n t. if t > n then t else n) 0 ts"

definition fresh_result :: "Config \<Rightarrow> time \<Rightarrow> Result \<Rightarrow> bool" where
  "fresh_result cfg now r \<longleftrightarrow> cfg_MaxResultAge cfg \<le> 0 \<or> time_sub now (r_Time r) \<le> cfg_MaxResultAge cfg"

text \<open>The measurement time, whether the round counts, and whether every result is stale.\<close>

definition prefixRound :: "Input \<Rightarrow> Config \<Rightarrow> confirm \<Rightarrow> prefix \<Rightarrow> time \<Rightarrow> time \<times> bool \<times> bool" where
  "prefixRound inp cfg prev p now =
     (let rs = byPrefixResults inp p; newest = newest_time (map r_Time rs);
          fresh = length (filter (fresh_result cfg now) rs)
      in if rs = [] then (0, False, False)
         else if fresh = 0 \<and> cfg_MaxResultAge cfg > 0 then (newest, False, True)
         else if cn_Streak prev > 0 \<and> \<not> newest > cn_Round prev then (newest, False, False)
         else (newest, True, False))"

text \<open>This instance's own fresh results of a prefix.\<close>

definition localResults :: "Input \<Rightarrow> Config \<Rightarrow> prefix \<Rightarrow> time \<Rightarrow> Result list" where
  "localResults inp cfg p now =
     filter (\<lambda>r. \<not> (in_Remote inp (r_Provider r) \<or>
                     (cfg_MaxResultAge cfg > 0 \<and> time_sub now (r_Time r) > cfg_MaxResultAge cfg)))
       (byPrefixResults inp p)"

definition localRound :: "Input \<Rightarrow> Config \<Rightarrow> confirm \<Rightarrow> prefix \<Rightarrow> time \<Rightarrow> time \<times> bool" where
  "localRound inp cfg prev p now =
     (let rs = localResults inp cfg p now
      in (newest_time (map r_Time rs), list_all (\<lambda>r. r_Time r > cn_Local prev) rs))"

text \<open>The local fresh results come from different probe rounds.\<close>

definition partialRound :: "Input \<Rightarrow> Config \<Rightarrow> prefix \<Rightarrow> time \<Rightarrow> bool" where
  "partialRound inp cfg p now =
     (case map r_Round (localResults inp cfg p now) of
        [] \<Rightarrow> False
      | t # ts \<Rightarrow> foldl min t ts < foldl max t ts)"

section \<open>Streaks\<close>

definition set_confirm :: "prefix \<Rightarrow> confirm \<Rightarrow> State \<Rightarrow> State" where
  "set_confirm p c st = st\<lparr>s_confirm := fmupd p c (s_confirm st)\<rparr>"

definition drop_confirm :: "prefix \<Rightarrow> State \<Rightarrow> State" where
  "drop_confirm p st = st\<lparr>s_confirm := fmdrop p (s_confirm st)\<rparr>"

definition confirmOf :: "State \<Rightarrow> prefix \<Rightarrow> confirm" where
  "confirmOf st p = fmget zeroConfirm (s_confirm st) p"

text \<open>
  One fresh round of a performance move onto \<open>provider\<close>: the new state, whether the move is ready,
  and the streak.
\<close>

definition notePerformance ::
  "State \<Rightarrow> Input \<Rightarrow> Config \<Rightarrow> prefix \<Rightarrow> string \<Rightarrow> time \<Rightarrow> State \<times> bool \<times> int" where
  "notePerformance st inp cfg p provider now =
     (let partial = partialRound inp cfg p now; rounds = confirmRounds cfg in
      if rounds \<le> 1 then (if partial then (st, False, 0) else (st, provider \<noteq> [], 1))
      else
        let cur = confirmOf st p;
            (at0, count0, stale) = prefixRound inp cfg cur p now;
            (local0, remeasured) = localRound inp cfg cur p now;
            count = (if partial \<or> (count0 \<and> provider \<noteq> [] \<and> cn_Provider cur = provider \<and> \<not> remeasured)
                     then False else count0)
        in if stale \<or> \<not> count then
             (if \<not> stale \<and> \<not> partial \<and> provider \<noteq> [] \<and> cn_Provider cur = provider \<and> cn_Streak cur \<ge> rounds
              then (st, True, cn_Streak cur)
              else if \<not> stale \<and> provider \<noteq> [] \<and> cn_Provider cur = provider \<and> cn_Streak cur > 0 \<and>
                      cn_Streak cur < rounds
              then (set_confirm p (cur\<lparr>cn_Probe := True\<rparr>) st, False, cn_Streak cur)
              else (st, False, cn_Streak cur))
           else if provider = [] then (drop_confirm p st, False, 0)
           else
             let cur1 = (if cn_Provider cur \<noteq> provider
                         then \<lparr>cn_Provider = provider, cn_Streak = 1, cn_Round = at0, cn_Local = local0,
                               cn_Probe = False\<rparr>
                         else cur\<lparr>cn_Streak := cn_Streak cur + 1, cn_Round := at0, cn_Local := local0\<rparr>);
                 cur2 = cur1\<lparr>cn_Probe := (cn_Streak cur1 < rounds)\<rparr>
             in (set_confirm p cur2 st, cn_Streak cur2 \<ge> rounds, cn_Streak cur2))"

definition clearConfirmProbe :: "prefix \<Rightarrow> State \<Rightarrow> State" where
  "clearConfirmProbe p st =
     (case fmlookup (s_confirm st) p of
        None \<Rightarrow> st
      | Some cur \<Rightarrow> if \<not> cn_Probe cur then st else set_confirm p (cur\<lparr>cn_Probe := False\<rparr>) st)"

definition freshLoss :: "confirm \<Rightarrow> Input \<Rightarrow> Config \<Rightarrow> prefix \<Rightarrow> time \<Rightarrow> bool \<times> bool" where
  "freshLoss prev inp cfg p now =
     (if confirmRounds cfg \<le> 1 \<or> cn_Streak prev \<le> 0 then (False, False)
      else let (_, count, stale) = prefixRound inp cfg prev p now in (count \<and> \<not> stale, stale))"

text \<open>Prefixes whose streak is short and whose paths were compared in this evaluation.\<close>

definition markPendingUrgent :: "State \<Rightarrow> int \<Rightarrow> Output \<Rightarrow> Output" where
  "markPendingUrgent st rounds out =
     (if rounds \<le> 1 \<or> fmlen (s_confirm st) = 0 then out
      else out\<lparr>o_Urgent := o_Urgent out @
        filter (\<lambda>p. let c = confirmOf st p in cn_Probe c \<and> cn_Streak c > 0 \<and> cn_Streak c < rounds)
          (SortedKeys (s_confirm st))\<rparr>)"

section \<open>Lemmas\<close>

lemma confirmRounds_pos: "1 \<le> confirmRounds cfg"
  by (simp add: confirmRounds_def)

text \<open>The confirmation never touches anything but the streaks.\<close>

lemma set_confirm_frame [simp]:
  "s_Improvements (set_confirm p c st) = s_Improvements st"
  "s_Cooldown (set_confirm p c st) = s_Cooldown st"
  "s_quarantine (set_confirm p c st) = s_quarantine st"
  "s_flips (set_confirm p c st) = s_flips st"
  "s_offenses (set_confirm p c st) = s_offenses st"
  "s_shedAt (set_confirm p c st) = s_shedAt st"
  by (simp_all add: set_confirm_def)

lemma drop_confirm_frame [simp]:
  "s_Improvements (drop_confirm p st) = s_Improvements st"
  "s_Cooldown (drop_confirm p st) = s_Cooldown st"
  "s_quarantine (drop_confirm p st) = s_quarantine st"
  "s_flips (drop_confirm p st) = s_flips st"
  "s_offenses (drop_confirm p st) = s_offenses st"
  "s_shedAt (drop_confirm p st) = s_shedAt st"
  by (simp_all add: drop_confirm_def)

lemma clearConfirmProbe_frame [simp]:
  "s_Improvements (clearConfirmProbe p st) = s_Improvements st"
  "s_Cooldown (clearConfirmProbe p st) = s_Cooldown st"
  "s_quarantine (clearConfirmProbe p st) = s_quarantine st"
  by (simp_all add: clearConfirmProbe_def split: option.splits)

lemma notePerformance_state:
  "\<exists>c. fst (notePerformance st inp cfg p provider now) = st \<or>
       fst (notePerformance st inp cfg p provider now) = set_confirm p c st \<or>
       fst (notePerformance st inp cfg p provider now) = drop_confirm p st"
  by (auto simp: notePerformance_def Let_def split: prod.splits)

lemma notePerformance_frame [simp]:
  "s_Improvements (fst (notePerformance st inp cfg p provider now)) = s_Improvements st"
  "s_Cooldown (fst (notePerformance st inp cfg p provider now)) = s_Cooldown st"
  "s_quarantine (fst (notePerformance st inp cfg p provider now)) = s_quarantine st"
  using notePerformance_state [of st inp cfg p provider now] by auto

lemma confirmOf_set [simp]: "confirmOf (set_confirm p c st) q = (if p = q then c else confirmOf st q)"
  by (simp add: confirmOf_def set_confirm_def)

lemma newest_time_ge: "\<forall>t \<in> set ts. t \<le> newest_time ts"
proof -
  have "a \<le> foldl (\<lambda>n t. if t > n then t else n) a ts \<and>
      (\<forall>t \<in> set ts. t \<le> foldl (\<lambda>n t. if t > n then t else n) a ts)" for a
  proof (induction ts arbitrary: a)
    case Nil
    then show ?case by simp
  next
    case (Cons t ts)
    from Cons [of "if t > a then t else a"] show ?case by (auto split: if_splits)
  qed
  then show ?thesis by (simp add: newest_time_def)
qed

text \<open>The state and the streak after a round, by case.\<close>

lemma notePerformance_ready:
  assumes "notePerformance st inp cfg p provider now = (st', True, n)"
  shows "provider \<noteq> [] \<and> \<not> partialRound inp cfg p now \<and> n \<ge> confirmRounds cfg"
  using assms confirmRounds_pos [of cfg]
  by (auto simp: notePerformance_def Let_def split: prod.splits if_splits)

lemma notePerformance_repeat:
  assumes "confirmRounds cfg > 1" and "cn_Provider (confirmOf st p) = provider" and "provider \<noteq> []"
    and "cn_Streak (confirmOf st p) > 0"
    and "newest_time (map r_Time (byPrefixResults inp p)) \<le> cn_Round (confirmOf st p)"
  shows "snd (snd (notePerformance st inp cfg p provider now)) = cn_Streak (confirmOf st p)"
    and "cn_Streak (confirmOf (fst (notePerformance st inp cfg p provider now)) p) = cn_Streak (confirmOf st p)"
proof -
  have "\<not> fst (snd (prefixRound inp cfg (confirmOf st p) p now))"
    using assms(4,5) by (auto simp: prefixRound_def Let_def)
  then obtain at0 stale where pr: "prefixRound inp cfg (confirmOf st p) p now = (at0, False, stale)"
    by (cases "prefixRound inp cfg (confirmOf st p) p now") auto
  show "snd (snd (notePerformance st inp cfg p provider now)) = cn_Streak (confirmOf st p)"
    "cn_Streak (confirmOf (fst (notePerformance st inp cfg p provider now)) p) = cn_Streak (confirmOf st p)"
    using assms(1) pr by (auto simp: notePerformance_def Let_def split: prod.splits if_splits)
qed

section \<open>Properties\<close>

text \<open>
  A performance move is ready only when confirmed. A ready move names a provider, its streak has
  reached \<open>confirm_rounds\<close>, and the newest probe round measured every local path, so a timed-out
  round never makes a move.
\<close>

theorem ready_is_confirmed:
  assumes "notePerformance st inp cfg p provider now = (st', True, n)"
  shows "provider \<noteq> [] \<and> n \<ge> confirmRounds cfg \<and>
         (\<forall>r1 \<in> set (localResults inp cfg p now). \<forall>r2 \<in> set (localResults inp cfg p now).
            r_Round r1 = r_Round r2)"
proof -
  note rdy = notePerformance_ready [OF assms]
  have "r_Round r1 = r_Round r2"
    if r: "r1 \<in> set (localResults inp cfg p now)" "r2 \<in> set (localResults inp cfg p now)" for r1 r2
  proof -
    obtain t ts where ts: "map r_Round (localResults inp cfg p now) = t # ts"
      using r(1) by (cases "localResults inp cfg p now") auto
    have "foldl max t ts \<le> foldl min t ts"
      using rdy ts by (simp add: partialRound_def)
    moreover have "set (map r_Round (localResults inp cfg p now)) = set (t # ts)" using ts by simp
    then have "r_Round r1 \<in> set (t # ts)" "r_Round r2 \<in> set (t # ts)" using r by auto
    then have "foldl min t ts \<le> r_Round r1" "r_Round r1 \<le> foldl max t ts"
      "foldl min t ts \<le> r_Round r2" "r_Round r2 \<le> foldl max t ts"
      using foldl_min_le [of t ts] foldl_max_ge [of t ts] by auto
    ultimately show ?thesis by linarith
  qed
  with rdy show ?thesis by blast
qed

text \<open>The sample under two confirmation rounds, after a first round that favoured \<open>b\<close>.\<close>

definition exConfirm :: State where
  "exConfirm = set_confirm exP \<lparr>cn_Provider = ''b'', cn_Streak = 1, cn_Round = 1, cn_Local = 1, cn_Probe = True\<rparr> NewState"

text \<open>
  One measurement counts once. Evaluating again while no result of the prefix is newer than the
  last counted round leaves the streak of the challenger as it is.
\<close>

theorem repeated_round_does_not_count:
  assumes "confirmRounds cfg > 1" and "cn_Provider (confirmOf st p) = provider" and "provider \<noteq> []"
    and "cn_Streak (confirmOf st p) > 0"
    and "newest_time (map r_Time (byPrefixResults inp p)) \<le> cn_Round (confirmOf st p)"
  shows "cn_Streak (confirmOf (fst (notePerformance st inp cfg p provider now)) p) =
         cn_Streak (confirmOf st p)"
  by (rule notePerformance_repeat(2) [OF assms])

end
