(* ===== verification/Flap.thy ===== *)
theory Flap
  imports Confirm
begin

text \<open>
  The flap quarantine (\<open>internal/policy/flap.go\<close>): counting recent provider changes of a prefix,
  parking it on its native path with a cool-down that doubles on each repeat offense, and expiring
  quarantines and their history. Functions that write through the state and output pointers return
  the new values.
\<close>

definition flap_enabled :: "FlapConfig \<Rightarrow> bool" where
  "flap_enabled f \<longleftrightarrow> fc_MaxFlips f > 0"

definition flapReason :: "Quarantine \<Rightarrow> reason" where
  "flapReason q = RFlap (q_Flips q) (q_Until q)"

definition recent :: "time \<Rightarrow> FlapConfig \<Rightarrow> time list \<Rightarrow> time list" where
  "recent now cfg ts = dropWhile (\<lambda>t. time_sub now t \<ge> fc_Window cfg) ts"

definition recentFlips :: "State \<Rightarrow> prefix \<Rightarrow> time \<Rightarrow> FlapConfig \<Rightarrow> State \<times> int" where
  "recentFlips st p now cfg =
     (let ts = fmget [] (s_flips st) p; rest = recent now cfg ts in
      if rest = [] then (st\<lparr>s_flips := fmdrop p (s_flips st)\<rparr>, 0)
      else if length rest < length ts
      then (st\<lparr>s_flips := fmupd p rest (s_flips st)\<rparr>, int (length rest))
      else (st, int (length rest)))"

definition flapNext :: "State \<Rightarrow> prefix \<Rightarrow> time \<Rightarrow> FlapConfig \<Rightarrow> State \<times> bool" where
  "flapNext st p now cfg =
     (if \<not> flap_enabled cfg then (st, False)
      else let (st', n) = recentFlips st p now cfg in (st', n + 1 > fc_MaxFlips cfg))"

definition noteFlip :: "State \<Rightarrow> prefix \<Rightarrow> time \<Rightarrow> FlapConfig \<Rightarrow> State" where
  "noteFlip st p now cfg =
     (if flap_enabled cfg then st\<lparr>s_flips := fmupd p (fmget [] (s_flips st) p @ [now]) (s_flips st)\<rparr> else st)"

text \<open>The doubling loop of the cool-down; \<open>k\<close> is the number of iterations the strikes allow.\<close>

fun cool_loop :: "nat \<Rightarrow> duration \<Rightarrow> duration \<Rightarrow> duration" where
  "cool_loop 0 maxc cool = cool"
| "cool_loop (Suc k) maxc cool = (if cool < maxc then cool_loop k maxc (wrap64 (cool * 2)) else cool)"

definition quarantinePrefix ::
  "State \<Rightarrow> prefix \<Rightarrow> time \<Rightarrow> FlapConfig \<Rightarrow> Output \<Rightarrow> State \<times> Output \<times> Quarantine" where
  "quarantinePrefix st0 p now cfg out =
     (let (st, n) = recentFlips st0 p now cfg; flips = n + 1;
          o0 = fmget \<lparr>of_strikes = 0, of_last = 0\<rparr> (s_offenses st) p;
          o1 = (if of_strikes o0 > 0 \<and> time_sub now (of_last o0) > fc_MaxCooldown cfg
                then o0\<lparr>of_strikes := 0\<rparr> else o0);
          strikes = of_strikes o1 + 1;
          cool = min (cool_loop (nat (strikes - 1)) (fc_MaxCooldown cfg) (fc_Cooldown cfg)) (fc_MaxCooldown cfg);
          q = \<lparr>q_Prefix = p, q_Since = now, q_Until = now + cool, q_Flips = flips, q_Strikes = strikes\<rparr>;
          o2 = \<lparr>of_strikes = strikes, of_last = q_Until q\<rparr>
      in (st\<lparr>s_offenses := fmupd p o2 (s_offenses st), s_quarantine := fmupd p q (s_quarantine st),
             s_flips := fmdrop p (s_flips st)\<rparr>,
          out\<lparr>o_Quarantines := o_Quarantines out @
            [\<lparr>qc_Action = QuarantineStart, qc_Reason = QFlap (flapReason q), qc_Quarantine = q\<rparr>]\<rparr>,
          q))"

definition releaseQuarantine :: "State \<Rightarrow> prefix \<Rightarrow> time \<Rightarrow> State" where
  "releaseQuarantine st p now =
     st\<lparr>s_quarantine := fmdrop p (s_quarantine st),
        s_offenses := (case fmlookup (s_offenses st) p of
           None \<Rightarrow> s_offenses st | Some o0 \<Rightarrow> fmupd p (o0\<lparr>of_last := now\<rparr>) (s_offenses st))\<rparr>"

definition release_step ::
  "time \<Rightarrow> FlapConfig \<Rightarrow> State \<times> Output \<Rightarrow> prefix \<Rightarrow> State \<times> Output" where
  "release_step now cfg so p =
     (let (st, out) = so in
      case fmlookup (s_quarantine st) p of
        None \<Rightarrow> (st, out)
      | Some q \<Rightarrow>
          if \<not> flap_enabled cfg then
            (releaseQuarantine st p now,
             out\<lparr>o_Quarantines := o_Quarantines out @
               [\<lparr>qc_Action = QuarantineRelease, qc_Reason = QOff, qc_Quarantine = q\<rparr>]\<rparr>)
          else if \<not> now < q_Until q then
            (releaseQuarantine st p (q_Until q),
             out\<lparr>o_Quarantines := o_Quarantines out @
               [\<lparr>qc_Action = QuarantineRelease, qc_Reason = QElapsed, qc_Quarantine = q\<rparr>]\<rparr>)
          else (st, out))"

definition expire_flips :: "time \<Rightarrow> FlapConfig \<Rightarrow> State \<Rightarrow> State" where
  "expire_flips now cfg st =
     foldl (\<lambda>st p. if \<not> flap_enabled cfg then st\<lparr>s_flips := fmdrop p (s_flips st)\<rparr>
                   else fst (recentFlips st p now cfg)) st (SortedKeys (s_flips st))"

definition forgotten :: "State \<Rightarrow> time \<Rightarrow> FlapConfig \<Rightarrow> prefix \<Rightarrow> bool" where
  "forgotten st now cfg p =
     (case fmlookup (s_offenses st) p of
        None \<Rightarrow> False
      | Some o0 \<Rightarrow> fmlookup (s_quarantine st) p = None \<and>
          (\<not> flap_enabled cfg \<or> time_sub now (of_last o0) > fc_MaxCooldown cfg))"

definition expireFlap :: "State \<Rightarrow> time \<Rightarrow> FlapConfig \<Rightarrow> Output \<Rightarrow> State \<times> Output" where
  "expireFlap st0 now cfg out0 =
     (let (st1, out) = foldl (release_step now cfg) (st0, out0) (SortedKeys (s_quarantine st0));
          st2 = expire_flips now cfg st1
      in (st2\<lparr>s_offenses := fmfilter (\<lambda>p. \<not> forgotten st2 now cfg p) (s_offenses st2)\<rparr>, out))"

section \<open>Lemmas\<close>

lemma recentFlips_frame [simp]:
  "s_Improvements (fst (recentFlips st p now cfg)) = s_Improvements st"
  "s_Cooldown (fst (recentFlips st p now cfg)) = s_Cooldown st"
  "s_quarantine (fst (recentFlips st p now cfg)) = s_quarantine st"
  "s_confirm (fst (recentFlips st p now cfg)) = s_confirm st"
  "s_offenses (fst (recentFlips st p now cfg)) = s_offenses st"
  by (simp_all add: recentFlips_def Let_def)

lemma flapNext_frame [simp]:
  "s_Improvements (fst (flapNext st p now cfg)) = s_Improvements st"
  "s_Cooldown (fst (flapNext st p now cfg)) = s_Cooldown st"
  "s_quarantine (fst (flapNext st p now cfg)) = s_quarantine st"
  "s_confirm (fst (flapNext st p now cfg)) = s_confirm st"
  by (simp_all add: flapNext_def split_beta)

lemma noteFlip_frame [simp]:
  "s_Improvements (noteFlip st p now cfg) = s_Improvements st"
  "s_Cooldown (noteFlip st p now cfg) = s_Cooldown st"
  "s_quarantine (noteFlip st p now cfg) = s_quarantine st"
  "s_confirm (noteFlip st p now cfg) = s_confirm st"
  by (simp_all add: noteFlip_def)

lemma quarantinePrefix_frame [simp]:
  "s_Improvements (fst (quarantinePrefix st p now cfg out)) = s_Improvements st"
  "s_Cooldown (fst (quarantinePrefix st p now cfg out)) = s_Cooldown st"
  "s_confirm (fst (quarantinePrefix st p now cfg out)) = s_confirm st"
  "o_Changes (fst (snd (quarantinePrefix st p now cfg out))) = o_Changes out"
  "o_Decisions (fst (snd (quarantinePrefix st p now cfg out))) = o_Decisions out"
  by (simp_all add: quarantinePrefix_def split_beta Let_def)

lemma fmdom_quarantinePrefix [simp]:
  "fmdom' (s_quarantine (fst (quarantinePrefix st p now cfg out))) = insert p (fmdom' (s_quarantine st))"
  by (simp add: quarantinePrefix_def split_beta Let_def)

lemma release_step_frame [simp]:
  "s_Improvements (fst (release_step now cfg so p)) = s_Improvements (fst so)"
  "s_Cooldown (fst (release_step now cfg so p)) = s_Cooldown (fst so)"
  "s_flips (fst (release_step now cfg so p)) = s_flips (fst so)"
  "s_confirm (fst (release_step now cfg so p)) = s_confirm (fst so)"
  "o_Changes (snd (release_step now cfg so p)) = o_Changes (snd so)"
  by (simp_all add: release_step_def releaseQuarantine_def split_beta split: option.splits)

lemma foldl_frame:
  "(\<And>s x. f (g s x) = f s) \<Longrightarrow> f (foldl g s xs) = f s"
  by (induction xs arbitrary: s) auto

lemma expire_flips_frame [simp]:
  "s_Improvements (expire_flips now cfg st) = s_Improvements st"
  "s_Cooldown (expire_flips now cfg st) = s_Cooldown st"
  "s_quarantine (expire_flips now cfg st) = s_quarantine st"
  "s_confirm (expire_flips now cfg st) = s_confirm st"
  "s_offenses (expire_flips now cfg st) = s_offenses st"
  unfolding expire_flips_def by (rule foldl_frame, simp)+

lemma expireFlap_frame [simp]:
  "s_Improvements (fst (expireFlap st now cfg out)) = s_Improvements st"
  "s_Cooldown (fst (expireFlap st now cfg out)) = s_Cooldown st"
  "s_confirm (fst (expireFlap st now cfg out)) = s_confirm st"
  "o_Changes (snd (expireFlap st now cfg out)) = o_Changes out"
  by (simp_all add: expireFlap_def split_beta Let_def
      foldl_frame [where f = "\<lambda>so. s_Improvements (fst so)"] foldl_frame [where f = "\<lambda>so. s_Cooldown (fst so)"]
      foldl_frame [where f = "\<lambda>so. s_confirm (fst so)"] foldl_frame [where f = "\<lambda>so. o_Changes (snd so)"])

text \<open>A quarantine stays exactly while the feature is on and its end lies ahead.\<close>

definition still_parked :: "time \<Rightarrow> FlapConfig \<Rightarrow> Quarantine \<Rightarrow> bool" where
  "still_parked now cfg q \<longleftrightarrow> flap_enabled cfg \<and> now < q_Until q"

lemma release_step_quarantine:
  "fmlookup (s_quarantine (fst (release_step now cfg so p))) x =
     (if x = p then (case fmlookup (s_quarantine (fst so)) p of
         None \<Rightarrow> None | Some q \<Rightarrow> if still_parked now cfg q then Some q else None)
      else fmlookup (s_quarantine (fst so)) x)"
  by (auto simp: release_step_def still_parked_def releaseQuarantine_def split_beta split: option.splits)

lemma foldl_release_quarantine:
  "distinct ps \<Longrightarrow> fmlookup (s_quarantine (fst (foldl (release_step now cfg) so ps))) x =
     (if x \<in> set ps then (case fmlookup (s_quarantine (fst so)) x of
         None \<Rightarrow> None | Some q \<Rightarrow> if still_parked now cfg q then Some q else None)
      else fmlookup (s_quarantine (fst so)) x)"
  by (induction ps arbitrary: so) (auto simp: release_step_quarantine)

lemma expireFlap_quarantine:
  "fmlookup (s_quarantine (fst (expireFlap st now cfg out))) x =
     (case fmlookup (s_quarantine st) x of
        None \<Rightarrow> None | Some q \<Rightarrow> if still_parked now cfg q then Some q else None)"
  by (auto simp: expireFlap_def split_beta Let_def foldl_release_quarantine fmdom'_iff split: option.splits)

lemma fmdom_expireFlap: "fmdom' (s_quarantine (fst (expireFlap st now cfg out))) \<subseteq> fmdom' (s_quarantine st)"
  by (auto simp: fmdom'_iff expireFlap_quarantine split: option.splits)

lemma cool_loop_eq:
  assumes "0 < cool" "cool \<le> maxc" "maxc \<le> 2 ^ 62"
  shows "min (cool_loop k maxc cool) maxc = min (cool * 2 ^ k) maxc"
  using assms
proof (induction k arbitrary: cool)
  case 0
  then show ?case by simp
next
  case (Suc k)
  show ?case
  proof (cases "cool < maxc")
    case False
    moreover have "maxc \<le> cool * 2 ^ Suc k"
      using False Suc.prems mult_left_mono [of 1 "2 ^ Suc k" cool] one_le_power [of "2 :: int" "Suc k"] by simp
    ultimately show ?thesis using Suc.prems by (simp add: min_def)
  next
    case True
    have w: "wrap64 (cool * 2) = cool * 2"
      using Suc.prems True by (intro wrap64_exact) auto
    show ?thesis
    proof (cases "cool * 2 \<le> maxc")
      case le: True
      have "min (cool_loop k maxc (cool * 2)) maxc = min (cool * 2 * 2 ^ k) maxc"
        using Suc.prems le by (intro Suc.IH) auto
      then show ?thesis using True w by (simp add: mult.assoc)
    next
      case gt: False
      have "cool_loop k maxc (cool * 2) = cool * 2"
        using gt by (cases k) auto
      moreover have "maxc \<le> cool * 2 ^ Suc k"
      proof -
        have "cool * 2 * 1 \<le> cool * 2 * 2 ^ k"
          by (rule mult_left_mono) (use Suc.prems in simp_all)
        then show ?thesis using gt by (simp add: mult.assoc)
      qed
      ultimately show ?thesis using True gt w by (simp add: min_def)
    qed
  qed
qed

section \<open>Properties\<close>

text \<open>
  The cool-down doubles and is bounded. For limits up to \<open>2^62\<close> nanoseconds (146 years) the loop
  never overflows: the quarantine of the n-th strike lasts \<open>Cooldown * 2^(n-1)\<close>, capped at
  \<open>MaxCooldown\<close>, and the strike memory starts at its end.
\<close>

theorem quarantine_cooldown:
  assumes "0 < fc_Cooldown cfg" and "fc_Cooldown cfg \<le> fc_MaxCooldown cfg" and "fc_MaxCooldown cfg \<le> 2 ^ 62"
    and "quarantinePrefix st p now cfg out = (st', out', q)"
  shows "q_Until q = now + min (fc_Cooldown cfg * 2 ^ nat (q_Strikes q - 1)) (fc_MaxCooldown cfg) \<and>
         fmlookup (s_quarantine st') p = Some q \<and> q_Prefix q = p \<and>
         fmlookup (s_offenses st') p = Some \<lparr>of_strikes = q_Strikes q, of_last = q_Until q\<rparr> \<and>
         fmlookup (s_flips st') p = None"
  using assms(4) cool_loop_eq [OF assms(1-3)]
  by (auto simp: quarantinePrefix_def Let_def split: prod.splits)

text \<open>
  Expiry is exact. After expiring, the parked prefixes are exactly those parked before whose
  cool-down has not ended, and none when the feature is off; the improvements, cooldowns and
  confirmation streaks are untouched.
\<close>

theorem expireFlap_exact:
  "fmlookup (s_quarantine (fst (expireFlap st now cfg out))) p =
     (case fmlookup (s_quarantine st) p of
        None \<Rightarrow> None
      | Some q \<Rightarrow> if flap_enabled cfg \<and> now < q_Until q then Some q else None) \<and>
   s_Improvements (fst (expireFlap st now cfg out)) = s_Improvements st \<and>
   s_Cooldown (fst (expireFlap st now cfg out)) = s_Cooldown st \<and>
   s_confirm (fst (expireFlap st now cfg out)) = s_confirm st"
  by (simp add: expireFlap_quarantine still_parked_def split: option.split)

end
