(* ===== verification/Ports.thy ===== *)
theory Ports
  imports Plugin
begin

text \<open>
  Reading a shared exchange port (\<open>internal/portload\<close>) and the ledger of planned port load the commit
  and cost planners share (\<open>internal/plugins/scorer/ports\<close>). The ledger's map from a peer to a
  pointer to its port is a map from the peer to the port's name and one from names to ports, so
  peers that share a port see each other's moves.
\<close>

section \<open>Port readings (portload.go)\<close>

definition DefaultMaxAge :: duration where "DefaultMaxAge = 15 * Minute"
definition MaxFutureSkew :: duration where "MaxFutureSkew = Minute"

definition Fresh :: "time \<Rightarrow> time \<Rightarrow> duration \<Rightarrow> bool" where
  "Fresh updated now maxAge =
     (if updated = 0 \<or> maxAge \<le> 0 \<or> now = 0 then True
      else let age = time_sub now updated in age \<ge> - MaxFutureSkew \<and> age \<le> maxAge)"

definition Read :: "Usage \<Rightarrow> time \<Rightarrow> duration \<Rightarrow> (float64 \<times> float64) option" where
  "Read u now maxAge =
     (if \<not> Fresh (us_Updated u) now maxAge then None
      else case BillableMbps u of None \<Rightarrow> None | Some p95 \<Rightarrow> Some (max p95 (us_OutMbps u), p95))"

definition Room :: "float64 \<Rightarrow> float64 \<Rightarrow> float64 \<Rightarrow> float64 \<Rightarrow> float64" where
  "Room capacity commit ld p95 =
     (let room = capacity - ld in if commit > 0 then min room (commit - p95) else room)"

section \<open>The ledger (ports.go)\<close>

definition mbpsEps :: float64 where "mbpsEps = 1 / 100"

record port =
  po_capacity :: float64
  po_commit :: float64
  po_ok :: bool
  po_load :: float64
  po_p95 :: float64

record Ledger =
  l_byName :: "(string, port) fmap"
  l_peer :: "(string, string) fmap"

definition new_port :: "time \<Rightarrow> duration \<Rightarrow> PlanPort \<Rightarrow> port" where
  "new_port now maxAge pp =
     (let pt = \<lparr>po_capacity = pt_CapacityMbps pp, po_commit = pt_CommitMbps pp, po_ok = False,
                po_load = 0, po_p95 = 0\<rparr>
      in if pt_HaveRow pp
         then (case Read (pt_Usage pp) now maxAge of
                 None \<Rightarrow> pt
               | Some (ld, p95) \<Rightarrow> pt\<lparr>po_load := ld, po_p95 := p95, po_ok := True\<rparr>)
         else pt)"

definition add_peer ::
  "(string, port) fmap \<Rightarrow> (string, string) fmap \<Rightarrow> PlanProvider \<Rightarrow> (string, string) fmap" where
  "add_peer byName m p =
     (if fmlookup byName (pr_Port p) \<noteq> None \<and> pr_Port p \<noteq> [] then fmupd (pr_Name p) (pr_Port p) m else m)"

definition NewLedger :: "PlanInput \<Rightarrow> duration \<Rightarrow> Ledger" where
  "NewLedger inp maxAge =
     (let byName = foldl (\<lambda>m pp. if pt_Name pp = [] \<or> fmlookup m (pt_Name pp) \<noteq> None then m
                                 else fmupd (pt_Name pp) (new_port (pi_Now inp) maxAge pp) m)
                     fmempty (pi_Ports inp)
      in \<lparr>l_byName = byName, l_peer = foldl (add_peer byName) fmempty (pi_Providers inp)\<rparr>)"

text \<open>The port of a provider, by name and by value.\<close>

definition portName :: "Ledger \<Rightarrow> string \<Rightarrow> string option" where
  "portName l provider = fmlookup (l_peer l) provider"

definition portOf :: "Ledger \<Rightarrow> string \<Rightarrow> port option" where
  "portOf l provider = Option.bind (portName l provider) (fmlookup (l_byName l))"

definition OnPort :: "Ledger \<Rightarrow> string \<Rightarrow> bool" where
  "OnPort l provider \<longleftrightarrow> portOf l provider \<noteq> None"

definition Allows :: "Ledger \<Rightarrow> string \<Rightarrow> string \<Rightarrow> float64 \<Rightarrow> bool" where
  "Allows l from to vol =
     (case portOf l to of
        None \<Rightarrow> True
      | Some dst \<Rightarrow>
          if portName l to = portName l from then True
          else if \<not> po_ok dst \<or> vol \<le> mbpsEps then False
          else if po_load dst + vol > po_capacity dst + mbpsEps then False
          else po_commit dst \<le> 0 \<or> po_p95 dst + vol \<le> po_commit dst + mbpsEps)"

definition take_off :: "float64 \<Rightarrow> port \<Rightarrow> port" where
  "take_off vol pt = (if po_ok pt then pt\<lparr>po_load := max (po_load pt - vol) 0, po_p95 := max (po_p95 pt - vol) 0\<rparr>
                      else pt)"

definition put_on :: "float64 \<Rightarrow> port \<Rightarrow> port" where
  "put_on vol pt = (if po_ok pt then pt\<lparr>po_load := po_load pt + vol, po_p95 := po_p95 pt + vol\<rparr> else pt)"

definition upd_port :: "string option \<Rightarrow> (port \<Rightarrow> port) \<Rightarrow> Ledger \<Rightarrow> Ledger" where
  "upd_port name f l =
     (case name of None \<Rightarrow> l
      | Some n \<Rightarrow> (case fmlookup (l_byName l) n of None \<Rightarrow> l
          | Some pt \<Rightarrow> l\<lparr>l_byName := fmupd n (f pt) (l_byName l)\<rparr>))"

definition Move :: "Ledger \<Rightarrow> string \<Rightarrow> string \<Rightarrow> float64 \<Rightarrow> Ledger" where
  "Move l from to vol =
     (if portName l from = portName l to \<or> vol \<le> 0 then l
      else upd_port (portName l to) (put_on vol) (upd_port (portName l from) (take_off vol) l))"

definition Headroom :: "Ledger \<Rightarrow> string \<Rightarrow> float64 option" where
  "Headroom l provider =
     (case portOf l provider of
        None \<Rightarrow> None
      | Some pt \<Rightarrow> if \<not> po_ok pt then None
                   else Some (Room (po_capacity pt) (po_commit pt) (po_load pt) (po_p95 pt)))"

section \<open>Lemmas\<close>

text \<open>Every named port exists, as \<open>NewLedger\<close> builds it.\<close>

definition wf_ledger :: "Ledger \<Rightarrow> bool" where
  "wf_ledger l \<longleftrightarrow> (\<forall>pr n. fmlookup (l_peer l) pr = Some n \<longrightarrow> fmlookup (l_byName l) n \<noteq> None)"

text \<open>A readable port is inside its limits.\<close>

definition within_limits :: "port \<Rightarrow> bool" where
  "within_limits pt \<longleftrightarrow> po_ok pt \<longrightarrow>
     po_load pt \<le> po_capacity pt + mbpsEps \<and> (po_commit pt \<le> 0 \<or> po_p95 pt \<le> po_commit pt + mbpsEps)"

definition ledger_within :: "Ledger \<Rightarrow> bool" where
  "ledger_within l \<longleftrightarrow> (\<forall>n pt. fmlookup (l_byName l) n = Some pt \<longrightarrow> within_limits pt)"

lemma add_peers_named:
  assumes "\<And>pr n. fmlookup m pr = Some n \<Longrightarrow> fmlookup byName n \<noteq> None"
    and "fmlookup (foldl (add_peer byName) m ps) pr = Some n"
  shows "fmlookup byName n \<noteq> None"
  using assms
proof (induction ps arbitrary: m)
  case Nil
  then show ?case by simp
next
  case (Cons p ps)
  show ?case
  proof (rule Cons.IH)
    show "fmlookup (foldl (add_peer byName) (add_peer byName m p) ps) pr = Some n"
      using Cons.prems(2) by simp
    fix pr' n' assume "fmlookup (add_peer byName m p) pr' = Some n'"
    then show "fmlookup byName n' \<noteq> None"
      using Cons.prems(1) by (fastforce simp: add_peer_def split: if_splits)
  qed
qed

lemma wf_NewLedger: "wf_ledger (NewLedger inp maxAge)"
  using add_peers_named [of fmempty] by (auto simp: wf_ledger_def NewLedger_def Let_def)

lemma l_peer_upd_port [simp]: "l_peer (upd_port n f l) = l_peer l"
  by (simp add: upd_port_def split: option.splits)

lemma l_peer_Move [simp]: "l_peer (Move l from to vol) = l_peer l"
  by (simp add: Move_def)

lemma fmlookup_upd_port:
  "fmlookup (l_byName (upd_port name f l)) n =
     (if name = Some n then map_option f (fmlookup (l_byName l) n) else fmlookup (l_byName l) n)"
  by (auto simp: upd_port_def split: option.splits)

lemma wf_Move: "wf_ledger l \<Longrightarrow> wf_ledger (Move l from to vol)"
  by (auto simp: wf_ledger_def Move_def fmlookup_upd_port)

lemma take_off_within:
  "0 < vol \<Longrightarrow> 0 \<le> po_capacity pt \<Longrightarrow> within_limits pt \<Longrightarrow> within_limits (take_off vol pt)"
  by (auto simp: within_limits_def take_off_def mbpsEps_def max_def)

lemma Move_within:
  assumes "ledger_within l"
    and "\<forall>n pt. fmlookup (l_byName l) n = Some pt \<longrightarrow> 0 \<le> po_capacity pt"
    and "Allows l from to vol"
  shows "ledger_within (Move l from to vol)"
proof (cases "portName l from = portName l to \<or> vol \<le> 0")
  case True
  then show ?thesis using assms(1) by (simp add: Move_def)
next
  case False
  show ?thesis
    unfolding ledger_within_def
  proof (intro allI impI)
    fix n pt'
    assume lk: "fmlookup (l_byName (Move l from to vol)) n = Some pt'"
    then obtain pt where pt: "fmlookup (l_byName l) n = Some pt"
      using False by (auto simp: Move_def fmlookup_upd_port split: if_splits)
    have w: "within_limits pt" "0 \<le> po_capacity pt" using assms(1,2) pt by (auto simp: ledger_within_def)
    consider "portName l to = Some n" | "portName l to \<noteq> Some n" by blast
    then show "within_limits pt'"
    proof cases
      case 1
      then have "portOf l to = Some pt" using pt by (simp add: portOf_def)
      moreover have "pt' = put_on vol pt"
        using lk pt 1 False by (auto simp: Move_def fmlookup_upd_port split: if_splits)
      ultimately show ?thesis
        using assms(3) False by (auto simp: Allows_def within_limits_def put_on_def split: if_splits)
    next
      case 2
      then have "pt' = pt \<or> pt' = take_off vol pt"
        using lk pt False by (auto simp: Move_def fmlookup_upd_port split: if_splits)
      then show ?thesis using w False take_off_within [of vol pt] by auto
    qed
  qed
qed

section \<open>The contract the planners rely on\<close>

text \<open>An allowed move keeps the ledger's invariant, so every sequence of allowed moves does.\<close>

locale port_ledger =
  fixes allows :: "'l \<Rightarrow> string \<Rightarrow> string \<Rightarrow> float64 \<Rightarrow> bool"
    and move :: "'l \<Rightarrow> string \<Rightarrow> string \<Rightarrow> float64 \<Rightarrow> 'l"
    and inv :: "'l \<Rightarrow> bool"
  assumes allowed_keeps: "inv l \<Longrightarrow> allows l from to vol \<Longrightarrow> inv (move l from to vol)"
begin

lemma guarded_fold:
  assumes "inv (led s)"
    and "\<And>s x. led (step s x) = led s \<or> (\<exists>from to vol. allows (led s) from to vol \<and> led (step s x) = move (led s) from to vol)"
  shows "inv (led (foldl step s xs))"
  using assms(1)
proof (induction xs arbitrary: s)
  case Nil
  then show ?case by simp
next
  case (Cons x xs)
  have "inv (led (step s x))" using assms(2) [of s x] Cons.prems allowed_keeps by force
  then show ?case by (simp add: Cons.IH)
qed

end

definition port_inv :: "Ledger \<Rightarrow> bool" where
  "port_inv l \<longleftrightarrow> wf_ledger l \<and> ledger_within l \<and> (\<forall>n pt. fmlookup (l_byName l) n = Some pt \<longrightarrow> 0 \<le> po_capacity pt)"

lemma capacity_Move:
  "\<forall>n pt. fmlookup (l_byName l) n = Some pt \<longrightarrow> 0 \<le> po_capacity pt \<Longrightarrow>
   \<forall>n pt. fmlookup (l_byName (Move l from to vol)) n = Some pt \<longrightarrow> 0 \<le> po_capacity pt"
  by (auto simp: Move_def fmlookup_upd_port take_off_def put_on_def split: if_splits)

interpretation ledger: port_ledger Allows Move port_inv
  by unfold_locales (unfold port_inv_def, blast intro: Move_within wf_Move capacity_Move [rule_format])

section \<open>Properties\<close>

text \<open>
  An allowed move keeps every port inside its limits. When every port with a usable reading is
  inside its capacity and commit and the ledger allows a move, booking the move leaves every such
  port inside its limits, the source's port included, and the peers of each port unchanged.
\<close>

theorem allowed_move_keeps_limits:
  assumes "wf_ledger l" and "ledger_within l"
    and "\<forall>n pt. fmlookup (l_byName l) n = Some pt \<longrightarrow> 0 \<le> po_capacity pt"
    and "Allows l from to vol"
  shows "wf_ledger (Move l from to vol) \<and> ledger_within (Move l from to vol)"
  using ledger.allowed_keeps [of l "from" to vol] assms by (simp add: port_inv_def)

text \<open>A ledger with one port that carries peer \<open>b\<close>.\<close>

definition exLedger :: Ledger where
  "exLedger = \<lparr>l_byName = fmupd ''ix'' \<lparr>po_capacity = 100, po_commit = 50, po_ok = True, po_load = 10, po_p95 = 10\<rparr> fmempty,
     l_peer = fmupd ''b'' ''ix'' fmempty\<rparr>"

end
