(* ===== verification/Round.thy ===== *)
theory Round
  imports Flap Ports
begin

text \<open>
  The variables of one run of \<open>Decide\<close> and the operations on them that the phases share: retiring an
  improvement, recording a decision, the interface capacity gate with its shedding
  (\<open>overload.go\<close>), the improvement cap (\<open>cap.go\<close>), the cost annotations (\<open>cost.go\<close>) and the
  improvement weights (\<open>weights.go\<close>).

  The source keeps these variables in locals, closures and pointers. Here they are the record
  \<open>round\<close>, threaded through every operation; the pointer from a pending move or a held steer to
  its decision is the key of that decision, the prefix of the improvement.
\<close>

section \<open>The interface capacity gate (overload.go)\<close>

definition overloadEps :: float64 where "overloadEps = 1 / 100"

definition Unreadable :: "Load \<Rightarrow> time \<Rightarrow> string" where
  "Unreadable l now =
     (if ld_CapacityMbps l \<le> 0 then ''interface capacity unknown''
      else if ld_Updated l = 0 then ''no interface sample yet''
      else if \<not> Fresh (ld_Updated l) now DefaultMaxAge then ''interface reading is stale''
      else [])"

definition LimitMbps :: "float64 \<Rightarrow> float64 \<Rightarrow> float64" where
  "LimitMbps capacity limitPct = capacity * limitPct / 100"

record providerLoad =
  pl_limitPct :: float64
  pl_ok :: bool
  pl_why :: string
  pl_capacity :: float64
  pl_updated :: time
  pl_used :: float64

definition pl_limit :: "providerLoad \<Rightarrow> float64" where
  "pl_limit l = LimitMbps (pl_capacity l) (pl_limitPct l)"

definition pl_pct :: "providerLoad \<Rightarrow> float64 \<Rightarrow> float64" where
  "pl_pct l mbps = (if pl_capacity l \<le> 0 then 0 else mbps / pl_capacity l * 100)"

record loadGate =
  g_byProv :: "(string, providerLoad) fmap"
  g_vols :: "prefix \<Rightarrow> float64"

text \<open>The volume of the steers on a provider that its sample does not hold yet.\<close>

definition unseen_volume :: "State \<Rightarrow> Config \<Rightarrow> (prefix \<Rightarrow> float64) \<Rightarrow> string \<Rightarrow> time \<Rightarrow> float64" where
  "unseen_volume st cfg vols name updated =
     sum_list (map (\<lambda>p. let imp = fmget zeroImprovement (s_Improvements st) p in
        if imp_Provider imp = name \<and> (cfg_Mode cfg \<noteq> ''inject'' \<or> imp_Since imp > updated)
        then vols (imp_Prefix imp) else 0) (SortedKeys (s_Improvements st)))"

definition provider_load ::
  "State \<Rightarrow> Input \<Rightarrow> Config \<Rightarrow> time \<Rightarrow> (prefix \<Rightarrow> float64) \<Rightarrow> ProviderPolicy \<Rightarrow> providerLoad" where
  "provider_load st inp cfg now vols pp =
     (let l = \<lparr>pl_limitPct = pol_CapacityThresholdPct pp, pl_ok = False, pl_why = [], pl_capacity = 0,
               pl_updated = 0, pl_used = 0\<rparr>
      in case in_Load inp (pol_Name pp) of
           None \<Rightarrow> l\<lparr>pl_why := ''no interface reading''\<rparr>
         | Some row \<Rightarrow>
             if Unreadable row now \<noteq> [] then l\<lparr>pl_why := Unreadable row now\<rparr>
             else l\<lparr>pl_ok := True, pl_capacity := ld_CapacityMbps row, pl_updated := ld_Updated row,
                    pl_used := ld_OutMbps row + unseen_volume st cfg vols (pol_Name pp) (ld_Updated row)\<rparr>)"

definition newLoadGate :: "State \<Rightarrow> Input \<Rightarrow> Config \<Rightarrow> time \<Rightarrow> loadGate option" where
  "newLoadGate st inp cfg now =
     foldl (\<lambda>g pp.
        if pol_CapacityThresholdPct pp \<le> 0 then g
        else let g' = (case g of None \<Rightarrow> \<lparr>g_byProv = fmempty, g_vols = volumes inp\<rparr> | Some g \<Rightarrow> g)
             in Some (g'\<lparr>g_byProv := fmupd (pol_Name pp) (provider_load st inp cfg now (g_vols g') pp)
                                      (g_byProv g')\<rparr>))
       None (cfg_Providers cfg)"

definition zeroOverload :: Overload where
  "zeroOverload = \<lparr>ov_Action = OverloadRefused, ov_Prefix = zeroPrefix, ov_Provider = [], ov_UsedPct = 0,
     ov_ProjectedPct = 0, ov_LimitPct = 0, ov_VolumeMbps = 0, ov_Reason = RNone\<rparr>"

text \<open>The note of a refused steer, or \<open>None\<close> when the gate admits it.\<close>

definition refuse :: "loadGate option \<Rightarrow> string \<Rightarrow> prefix \<Rightarrow> Overload option" where
  "refuse gate provider p =
     (case gate of None \<Rightarrow> None
      | Some g \<Rightarrow> (case fmlookup (g_byProv g) provider of None \<Rightarrow> None
         | Some l \<Rightarrow>
             let vol = g_vols g p;
                 note0 = zeroOverload\<lparr>ov_Prefix := p, ov_Provider := provider, ov_LimitPct := pl_limitPct l,
                           ov_VolumeMbps := vol\<rparr>
             in if \<not> pl_ok l then Some (note0\<lparr>ov_Reason := RUnreadable provider (pl_why l)\<rparr>)
                else
                  let note1 = note0\<lparr>ov_UsedPct := pl_pct l (pl_used l), ov_ProjectedPct := pl_pct l (pl_used l + vol)\<rparr>
                  in if pl_used l + vol \<le> pl_limit l + overloadEps then None
                     else Some (note1\<lparr>ov_Reason :=
                       (if vol > 0
                        then RWouldReach provider (ov_ProjectedPct note1) (pl_capacity l) (pl_limitPct l)
                        else RIsAt provider (ov_UsedPct note1) (pl_capacity l) (pl_limitPct l))\<rparr>)))"

definition upd_load :: "string \<Rightarrow> (float64 \<Rightarrow> float64) \<Rightarrow> loadGate \<Rightarrow> loadGate" where
  "upd_load provider f g =
     (case fmlookup (g_byProv g) provider of None \<Rightarrow> g
      | Some l \<Rightarrow> if pl_ok l then g\<lparr>g_byProv := fmupd provider (l\<lparr>pl_used := f (pl_used l)\<rparr>) (g_byProv g)\<rparr> else g)"

definition book :: "loadGate option \<Rightarrow> string \<Rightarrow> prefix \<Rightarrow> loadGate option" where
  "book gate provider p = map_option (\<lambda>g. upd_load provider (\<lambda>u. u + g_vols g p) g) gate"

definition release :: "loadGate option \<Rightarrow> Improvement \<Rightarrow> loadGate option" where
  "release gate imp =
     map_option (\<lambda>g. upd_load (imp_Provider imp) (\<lambda>u. max (u - g_vols g (imp_Prefix imp)) 0) g) gate"

section \<open>The variables of one evaluation\<close>

record commitHold =
  ch_imp :: Improvement
  ch_held :: bool

record round =
  rd_st :: State
  rd_out :: Output
  rd_gate :: "loadGate option"
  rd_dec :: "(prefix, Decision) fmap"
  rd_by :: "(prefix, Candidate list) fmap"
  rd_wants :: "pending list"
  rd_holds :: "commitHold list"
  rd_commitOK :: "(prefix, bool) fmap"

definition improvements :: "round \<Rightarrow> (prefix, Improvement) fmap" where
  "improvements rd = s_Improvements (rd_st rd)"

definition changes :: "round \<Rightarrow> ImpChange list" where
  "changes rd = o_Changes (rd_out rd)"

definition candsOf :: "round \<Rightarrow> prefix \<Rightarrow> Candidate list" where
  "candsOf rd p = fmget [] (rd_by rd) p"

definition upd_st :: "(State \<Rightarrow> State) \<Rightarrow> round \<Rightarrow> round" where
  "upd_st f rd = rd\<lparr>rd_st := f (rd_st rd)\<rparr>"

definition put_imp :: "prefix \<Rightarrow> Improvement \<Rightarrow> round \<Rightarrow> round" where
  "put_imp p imp rd = upd_st (\<lambda>st. st\<lparr>s_Improvements := fmupd p imp (s_Improvements st)\<rparr>) rd"

definition add_change :: "act \<Rightarrow> Improvement \<Rightarrow> Improvement \<Rightarrow> round \<Rightarrow> round" where
  "add_change a old new rd =
     rd\<lparr>rd_out := (rd_out rd)\<lparr>o_Changes := o_Changes (rd_out rd) @ [\<lparr>ic_Action = a, ic_Old = old, ic_New = new\<rparr>]\<rparr>\<rparr>"

definition add_overload :: "Overload \<Rightarrow> round \<Rightarrow> round" where
  "add_overload note rd = rd\<lparr>rd_out := (rd_out rd)\<lparr>o_Overloads := o_Overloads (rd_out rd) @ [note]\<rparr>\<rparr>"

definition upd_dec :: "prefix \<Rightarrow> (Decision \<Rightarrow> Decision) \<Rightarrow> round \<Rightarrow> round" where
  "upd_dec p f rd =
     (case fmlookup (rd_dec rd) p of None \<Rightarrow> rd | Some d \<Rightarrow> rd\<lparr>rd_dec := fmupd p (f d) (rd_dec rd)\<rparr>)"

definition decOf :: "round \<Rightarrow> prefix \<Rightarrow> Decision" where
  "decOf rd p = fmget zeroDecision (rd_dec rd) p"

text \<open>The closure \<open>retire\<close> of \<open>Decide\<close>.\<close>

definition retire :: "Config \<Rightarrow> time \<Rightarrow> prefix \<Rightarrow> reason \<Rightarrow> bool \<Rightarrow> round \<Rightarrow> round" where
  "retire cfg now p rsn cooldown rd =
     (let old = fmget zeroImprovement (improvements rd) p;
          rd1 = rd\<lparr>rd_gate := release (rd_gate rd) old\<rparr>;
          rd2 = upd_st (\<lambda>st. st\<lparr>s_Improvements := fmdrop p (s_Improvements st),
                                s_confirm := fmdrop p (s_confirm st),
                                s_Cooldown := (if cooldown \<and> cfg_HoldTime cfg > 0
                                               then fmupd p (now + cfg_HoldTime cfg) (s_Cooldown st)
                                               else s_Cooldown st)\<rparr>) rd1
      in add_change ActionRetire (old\<lparr>imp_Reason := rsn\<rparr>) zeroImprovement rd2)"

definition setDecision :: "prefix \<Rightarrow> act \<Rightarrow> reason \<Rightarrow> string \<Rightarrow> string \<Rightarrow> cause \<Rightarrow> round \<Rightarrow> round" where
  "setDecision p a rsn current recommended cs =
     upd_dec p (\<lambda>d. d\<lparr>d_Action := a, d_Reason := rsn,
                      d_Current := (if current \<noteq> [] then current else d_Current d),
                      d_Recommended := (if recommended \<noteq> [] then recommended else d_Recommended d),
                      d_Cause := cs\<rparr>)"

text \<open>The assignment \<open>d.Action, d.Reason, d.Current = ActionRetire, ...\<close> of the retiring branches.\<close>

definition retiredDecision :: "prefix \<Rightarrow> reason \<Rightarrow> string \<Rightarrow> round \<Rightarrow> round" where
  "retiredDecision p rsn current =
     upd_dec p (\<lambda>d. d\<lparr>d_Action := ActionRetire, d_Reason := rsn, d_Current := current\<rparr>)"

definition noteReason :: "prefix \<Rightarrow> reason \<Rightarrow> round \<Rightarrow> round" where
  "noteReason p rsn = upd_dec p (\<lambda>d. d\<lparr>d_Reason := rsn\<rparr>)"

section \<open>The improvement cap (cap.go)\<close>

fun planned :: "cause \<Rightarrow> bool" where
  "planned c \<longleftrightarrow> c = CauseCommit \<or> c = CauseCost"

definition rankOf :: "Improvement \<Rightarrow> (prefix \<rightharpoonup> PolicyVerdict) \<Rightarrow> nat" where
  "rankOf imp policies =
     (if planned (imp_Cause imp) then rankPlanned
      else if imp_Cause imp = CauseStatic then rankStatic
      else case policies (imp_Prefix imp) of
             Some v \<Rightarrow> if pv_Action v = PolicyVIP then rankVIP else rankPerformance
           | None \<Rightarrow> rankPerformance)"

text \<open>The last usable candidate of a provider wins, as in the loop of the source.\<close>

definition last_score :: "Candidate list \<Rightarrow> string \<Rightarrow> float64 option" where
  "last_score cands name =
     foldl (\<lambda>s c. if c_Usable c \<and> c_Provider c = name then Some (c_Score c) else s) None cands"

definition improvementGain :: "Candidate list \<Rightarrow> Improvement \<Rightarrow> float64" where
  "improvementGain cands imp =
     (case (last_score cands (imp_Native imp), last_score cands (imp_Provider imp)) of
        (Some nat0, Some cur) \<Rightarrow> nat0 - cur
      | _ \<Rightarrow> 0)"

record trim_item =
  ti_p :: prefix
  ti_rank :: nat
  ti_gain :: float64

definition trim_less :: "trim_item \<Rightarrow> trim_item \<Rightarrow> bool" where
  "trim_less a b =
     (if ti_rank a \<noteq> ti_rank b then ti_rank a > ti_rank b
      else if ti_gain a \<noteq> ti_gain b then ti_gain a < ti_gain b
      else Less (ti_p b) (ti_p a))"

fun trim_loop :: "Config \<Rightarrow> time \<Rightarrow> prefix list \<Rightarrow> round \<Rightarrow> round" where
  "trim_loop cfg now [] rd = rd"
| "trim_loop cfg now (p # ps) rd =
     (if int (fmlen (improvements rd)) \<le> cfg_MaxImprovements cfg then rd
      else let imp = fmget zeroImprovement (improvements rd) p;
               rsn = RCapped (cfg_MaxImprovements cfg)
           in trim_loop cfg now ps (retiredDecision p rsn (imp_Native imp) (retire cfg now p rsn False rd)))"

definition trimToCap :: "Config \<Rightarrow> time \<Rightarrow> (prefix \<rightharpoonup> PolicyVerdict) \<Rightarrow> round \<Rightarrow> round" where
  "trimToCap cfg now policies rd =
     (if cfg_MaxImprovements cfg < 0 \<or> int (fmlen (improvements rd)) \<le> cfg_MaxImprovements cfg then rd
      else let items = map (\<lambda>p. let imp = fmget zeroImprovement (improvements rd) p in
                 \<lparr>ti_p = p, ti_rank = rankOf imp policies, ti_gain = improvementGain (candsOf rd p) imp\<rparr>)
                 (SortedKeys (improvements rd))
           in trim_loop cfg now (map ti_p (sort_by trim_less items)) rd)"

text \<open>The planned improvement with the smallest volume, ties by prefix.\<close>

definition displace_step ::
  "(prefix, Improvement) fmap \<Rightarrow> (prefix \<Rightarrow> float64) \<Rightarrow> (prefix \<times> float64) option \<Rightarrow> prefix \<Rightarrow>
   (prefix \<times> float64) option" where
  "displace_step imps volume pick p =
     (if \<not> planned (imp_Cause (fmget zeroImprovement imps p)) then pick
      else let vol = volume p in
        case pick of
          None \<Rightarrow> Some (p, vol)
        | Some (q, qv) \<Rightarrow> if vol < qv \<or> (vol = qv \<and> Less p q) then Some (p, vol) else pick)"

definition displace_pick :: "(prefix, Improvement) fmap \<Rightarrow> (prefix \<Rightarrow> float64) \<Rightarrow> prefix option" where
  "displace_pick imps volume =
     map_option fst (foldl (displace_step imps volume) None (SortedKeys imps))"

definition displaceCommit :: "Config \<Rightarrow> time \<Rightarrow> (prefix \<Rightarrow> float64) \<Rightarrow> round \<Rightarrow> round option" where
  "displaceCommit cfg now volume rd =
     (case displace_pick (improvements rd) volume of
        None \<Rightarrow> None
      | Some p \<Rightarrow>
          let imp = fmget zeroImprovement (improvements rd) p
          in Some (setDecision p ActionRetire RDisplaced (imp_Native imp) [] (imp_Cause imp)
                     (retire cfg now p RDisplaced True rd)))"

section \<open>Shedding steers off a provider over its limit (overload.go)\<close>

text \<open>\<open>None\<close> is the infinite gain of a steer whose native path has no usable score.\<close>

definition steerGain :: "Candidate list \<Rightarrow> Improvement \<Rightarrow> float64 option" where
  "steerGain cands imp =
     (case (findCandidate cands (imp_Native imp), findCandidate cands (imp_Provider imp)) of
        (Some nat0, Some cur) \<Rightarrow> if c_Usable nat0 \<and> c_Usable cur then Some (c_Score nat0 - c_Score cur) else None
      | _ \<Rightarrow> None)"

fun gain_less :: "float64 option \<Rightarrow> float64 option \<Rightarrow> bool" where
  "gain_less (Some a) (Some b) = (a < b)"
| "gain_less (Some a) None = True"
| "gain_less None _ = False"

record shedCandidate =
  sh_imp :: Improvement
  sh_gain :: "float64 option"
  sh_vol :: float64

definition shed_less :: "shedCandidate \<Rightarrow> shedCandidate \<Rightarrow> bool" where
  "shed_less a b =
     (if sh_gain a \<noteq> sh_gain b then gain_less (sh_gain a) (sh_gain b)
      else if sh_vol a \<noteq> sh_vol b then sh_vol a > sh_vol b
      else Less (imp_Prefix (sh_imp a)) (imp_Prefix (sh_imp b)))"

definition gateLoad :: "round \<Rightarrow> string \<Rightarrow> providerLoad option" where
  "gateLoad rd name = Option.bind (rd_gate rd) (\<lambda>g. fmlookup (g_byProv g) name)"

definition sheddable :: "Config \<Rightarrow> time \<Rightarrow> string \<Rightarrow> Improvement \<Rightarrow> bool" where
  "sheddable cfg now name imp \<longleftrightarrow>
     \<not> (imp_Provider imp \<noteq> name \<or> planned (imp_Cause imp) \<or> imp_Cause imp = CauseStatic \<or>
        time_sub now (imp_Since imp) < cfg_HoldTime cfg)"

text \<open>Withdrawing one steer: the body of the loop.\<close>

definition shed_step :: "Config \<Rightarrow> time \<Rightarrow> string \<Rightarrow> providerLoad \<Rightarrow> shedCandidate \<Rightarrow> round \<Rightarrow> round" where
  "shed_step cfg now name l c rd =
     (let imp = sh_imp c; p = imp_Prefix imp; vol = sh_vol c;
          rsn = RShed name (pl_pct l (pl_used l)) (pl_capacity l) (pl_limitPct l);
          note0 = zeroOverload\<lparr>ov_Action := OverloadShed, ov_Prefix := p, ov_Provider := name,
                   ov_UsedPct := pl_pct l (pl_used l), ov_ProjectedPct := pl_pct l (max (pl_used l - vol) 0),
                   ov_LimitPct := pl_limitPct l, ov_VolumeMbps := vol, ov_Reason := rsn\<rparr>;
          rd1 = retire cfg now p rsn True rd;
          rd2 = upd_dec p (\<lambda>d. d\<lparr>d_Action := ActionRetire, d_Reason := rsn, d_Current := imp_Native imp,
                                 d_Cause := imp_Cause imp\<rparr>) rd1;
          rd3 = add_overload note0 rd2
      in upd_st (\<lambda>st. st\<lparr>s_shedAt := fmupd name \<lparr>sm_sample = pl_updated l, sm_at = now\<rparr> (s_shedAt st)\<rparr>) rd3)"

fun shed_loop :: "Config \<Rightarrow> time \<Rightarrow> string \<Rightarrow> shedCandidate list \<Rightarrow> round \<Rightarrow> round" where
  "shed_loop cfg now name [] rd = rd"
| "shed_loop cfg now name (c # cs) rd =
     (case gateLoad rd name of
        None \<Rightarrow> rd
      | Some l \<Rightarrow>
          let rd' = shed_step cfg now name l c rd;
              used' = (case gateLoad rd' name of None \<Rightarrow> 0 | Some l' \<Rightarrow> pl_used l')
          in if used' \<le> pl_limit l + overloadEps \<or> sh_vol c \<le> 0 then rd'
             else shed_loop cfg now name cs rd')"

definition shed_one :: "Config \<Rightarrow> time \<Rightarrow> round \<Rightarrow> string \<Rightarrow> round" where
  "shed_one cfg now rd name =
     (case gateLoad rd name of
        None \<Rightarrow> rd
      | Some l \<Rightarrow>
          if \<not> pl_ok l \<or> pl_used l \<le> pl_limit l + overloadEps then rd
          else if (case fmlookup (s_shedAt (rd_st rd)) name of
                     None \<Rightarrow> False
                   | Some mark \<Rightarrow> \<not> pl_updated l > sm_sample mark \<or> time_sub now (sm_at mark) < cfg_HoldTime cfg)
          then rd
          else
            let vols = (case rd_gate rd of None \<Rightarrow> (\<lambda>_. 0) | Some g \<Rightarrow> g_vols g);
                imps = filter (sheddable cfg now name)
                         (map (fmget zeroImprovement (improvements rd)) (SortedKeys (improvements rd)));
                cands = map (\<lambda>imp. \<lparr>sh_imp = imp, sh_gain = steerGain (candsOf rd (imp_Prefix imp)) imp,
                                    sh_vol = vols (imp_Prefix imp)\<rparr>) imps
            in shed_loop cfg now name (sort_by shed_less cands) rd)"

definition shed :: "Config \<Rightarrow> time \<Rightarrow> round \<Rightarrow> round" where
  "shed cfg now rd =
     (case rd_gate rd of
        None \<Rightarrow> rd
      | Some g \<Rightarrow> foldl (shed_one cfg now) rd (sorted_list_of_set (fmdom' (g_byProv g))))"

section \<open>Cost annotations (cost.go)\<close>

definition providerCost :: "Config \<Rightarrow> string \<Rightarrow> float64 option" where
  "providerCost cfg name =
     (case find (\<lambda>p. pol_Name p = name) (cfg_Providers cfg) of
        None \<Rightarrow> None | Some p \<Rightarrow> if pol_HasCost p then Some (pol_Cost p) else None)"

definition withCost :: "Config \<Rightarrow> (prefix \<Rightarrow> float64) \<Rightarrow> Improvement \<Rightarrow> Improvement" where
  "withCost cfg volume imp =
     (let vol = volume (imp_Prefix imp);
          imp0 = imp\<lparr>imp_VolumeMbps := vol, imp_CostDelta := 0, imp_EstSavings := 0\<rparr>
      in case (providerCost cfg (imp_Native imp), providerCost cfg (imp_Provider imp)) of
           (Some nat0, Some cur) \<Rightarrow>
             imp0\<lparr>imp_CostDelta := nat0 - cur, imp_EstSavings := (if vol > 0 then (nat0 - cur) * vol else 0)\<rparr>
         | _ \<Rightarrow> imp0)"

definition costed_change :: "Config \<Rightarrow> (prefix \<Rightarrow> float64) \<Rightarrow> ImpChange \<Rightarrow> ImpChange" where
  "costed_change cfg volume ch =
     ch\<lparr>ic_Old := (if imp_Provider (ic_Old ch) \<noteq> [] then withCost cfg volume (ic_Old ch) else ic_Old ch),
        ic_New := (if imp_Provider (ic_New ch) \<noteq> [] then withCost cfg volume (ic_New ch) else ic_New ch)\<rparr>"

definition annotateCost :: "Config \<Rightarrow> (prefix \<Rightarrow> float64) \<Rightarrow> State \<times> Output \<Rightarrow> State \<times> Output" where
  "annotateCost cfg volume so =
     (let (st, out) = so in
      (st\<lparr>s_Improvements := fmmap (withCost cfg volume) (s_Improvements st)\<rparr>,
       out\<lparr>o_Changes := map (costed_change cfg volume) (o_Changes out)\<rparr>))"

section \<open>Improvement weights (weights.go)\<close>

definition weigh :: "(WeightInput \<Rightarrow> float64) \<Rightarrow> (prefix \<Rightarrow> float64) \<Rightarrow> pending \<Rightarrow> pending" where
  "weigh f volume w =
     (if w_rank w \<ge> rankPlanned then w
      else w\<lparr>w_weight := f \<lparr>wi_Prefix = imp_Prefix (w_imp w), wi_Provider = imp_Provider (w_imp w),
                            wi_Gain = w_gain w, wi_VolumeMbps = volume (imp_Prefix (w_imp w))\<rparr>,
             w_weighed := True\<rparr>)"

text \<open>The NaN check of the source has no counterpart: a model weight is a number.\<close>

definition weighWants :: "Scorer \<Rightarrow> (prefix \<Rightarrow> float64) \<Rightarrow> round \<Rightarrow> round" where
  "weighWants scorer volume rd =
     (case sc_Weigher scorer of
        None \<Rightarrow> rd
      | Some (on, f) \<Rightarrow>
          if \<not> on then rd
          else let ws = map (weigh f volume) (rd_wants rd)
               in foldl (\<lambda>rd w. if w_rank w \<ge> rankPlanned then rd
                                else upd_dec (imp_Prefix (w_imp w)) (\<lambda>d. d\<lparr>d_Weight := w_weight w\<rparr>) rd)
                    (rd\<lparr>rd_wants := ws\<rparr>) ws)"

end
