(* ===== verification/Subrange.thy ===== *)
theory Subrange
  imports Round
begin

text \<open>
  Sub-ranges of a probed prefix: their table and their place on a decision (\<open>subrange.go\<close>), and the
  results of their own that the synthesized ones get (\<open>synthesize.go\<close>).
\<close>

section \<open>The sub-range table (subrange.go)\<close>

type_synonym subtable = "(prefix, (prefix, SubrangeDecision) fmap) fmap"

definition subrange_candidate :: "Result \<Rightarrow> Candidate \<Rightarrow> Scorer \<Rightarrow> SubrangeResult \<Rightarrow> Candidate" where
  "subrange_candidate r pc scorer sr =
     (let c = zeroCandidate\<lparr>c_Provider := r_Provider r, c_LossPct := st_LossPct (sr_Stats sr),
                c_RTTAvg := st_RTTAvg (sr_Stats sr), c_Jitter := st_Jitter (sr_Stats sr),
                c_ReorderPct := c_ReorderPct pc, c_Usable := c_Usable pc, c_Why := c_Why pc\<rparr>;
          c1 = (if \<not> c_Usable c then c
                else if \<not> sr_OK sr then c\<lparr>c_Usable := False, c_Why := ''probe error''\<rparr>
                else if st_Sent (sr_Stats sr) = 0 then c\<lparr>c_Usable := False, c_Why := ''no packets sent''\<rparr>
                else c)
      in if c_Usable c1
         then c1\<lparr>c_Score := sc_Score scorer \<lparr>ps_Provider = r_Provider r, ps_LossPct = c_LossPct c1,
                ps_RTTAvg = c_RTTAvg c1, ps_Jitter = c_Jitter c1, ps_ReorderPct = c_ReorderPct c1\<rparr>\<rparr>
         else c1)"

definition note_subrange ::
  "Result \<Rightarrow> Candidate \<Rightarrow> Scorer \<Rightarrow> (prefix, SubrangeDecision) fmap \<Rightarrow> SubrangeResult \<Rightarrow>
   (prefix, SubrangeDecision) fmap" where
  "note_subrange r pc scorer m sr =
     (let d = fmget \<lparr>sd_Prefix = sr_Prefix sr, sd_Weight = 0, sd_Best = [], sd_Candidates = []\<rparr> m (sr_Prefix sr);
          w = (if sr_Weight sr > sd_Weight d then sr_Weight sr else sd_Weight d)
      in fmupd (sr_Prefix sr)
           (d\<lparr>sd_Weight := w, sd_Candidates := sd_Candidates d @ [subrange_candidate r pc scorer sr]\<rparr>) m)"

definition noteSubranges :: "subtable \<Rightarrow> Result \<Rightarrow> Candidate \<Rightarrow> Scorer \<Rightarrow> subtable" where
  "noteSubranges subs r pc scorer =
     (if r_Subranges r = [] then subs
      else fmupd (r_Prefix r)
             (foldl (note_subrange r pc scorer) (fmget fmempty subs (r_Prefix r)) (r_Subranges r)) subs)"

definition provider_less :: "Candidate \<Rightarrow> Candidate \<Rightarrow> bool" where
  "provider_less a b \<longleftrightarrow> c_Provider a < c_Provider b"

definition sub_less :: "SubrangeDecision \<Rightarrow> SubrangeDecision \<Rightarrow> bool" where
  "sub_less a b =
     (if sd_Weight a \<noteq> sd_Weight b then sd_Weight a > sd_Weight b else Less (sd_Prefix a) (sd_Prefix b))"

definition rank_subrange :: "(string \<Rightarrow> bool) \<Rightarrow> SubrangeDecision \<Rightarrow> SubrangeDecision" where
  "rank_subrange excluded s =
     (let cs = sort_by provider_less (sd_Candidates s)
      in s\<lparr>sd_Candidates := cs,
           sd_Best := (case bestCandidate cs excluded [] of None \<Rightarrow> sd_Best s | Some b \<Rightarrow> c_Provider b)\<rparr>)"

text \<open>The scan for two different best providers: the first one seen, and whether another differed.\<close>

definition hetero_step :: "string \<times> bool \<Rightarrow> SubrangeDecision \<Rightarrow> string \<times> bool" where
  "hetero_step bh s =
     (let (best, h) = bh in
      if sd_Best s = [] then (best, h)
      else if best = [] then (sd_Best s, h)
      else (best, h \<or> sd_Best s \<noteq> best))"

definition attachSubranges ::
  "(prefix, SubrangeDecision) fmap \<Rightarrow> (string \<Rightarrow> bool) \<Rightarrow> Decision \<Rightarrow> Decision" where
  "attachSubranges m excluded d =
     (if fmlen m = 0 then d
      else let l = sort_by sub_less
                 (map (\<lambda>p. rank_subrange excluded
                    (fmget \<lparr>sd_Prefix = p, sd_Weight = 0, sd_Best = [], sd_Candidates = []\<rparr> m p)) (SortedKeys m))
           in d\<lparr>d_Heterogeneous := d_Heterogeneous d \<or> snd (foldl hetero_step ([], False) l),
                d_Subranges := l\<rparr>)"

section \<open>Synthesized sub-ranges (synthesize.go)\<close>

text \<open>The variables of the loop: the input being extended and the covering prefixes.\<close>

type_synonym covers = "prefix \<rightharpoonup> prefix"

definition synth_result :: "Result \<Rightarrow> SubrangeResult \<Rightarrow> Result" where
  "synth_result r sr =
     \<lparr>r_Provider = r_Provider r, r_Prefix = sr_Prefix sr, r_Target = sr_Target sr, r_Prober = sr_Prober sr,
      r_Stats = sr_Stats sr, r_Err = (if sr_Err sr = [] then r_Err r else sr_Err sr),
      r_Time = (if sr_Time sr = 0 then r_Time r else sr_Time sr), r_Round = r_Round r,
      r_Subranges = [], r_Indirect = False, r_Confidence = r_Confidence r\<rparr>"

text \<open>\<open>if m, ok := from[c]; ok { to[k] = m }\<close>\<close>

definition copy_entry :: "('k \<rightharpoonup> 'v) \<Rightarrow> 'k \<Rightarrow> 'k \<Rightarrow> ('k \<rightharpoonup> 'v) \<Rightarrow> ('k \<rightharpoonup> 'v)" where
  "copy_entry from c k to = (case from c of None \<Rightarrow> to | Some v \<Rightarrow> to(k \<mapsto> v))"

definition synthesizes :: "Input \<Rightarrow> Result \<Rightarrow> SubrangeResult \<Rightarrow> bool" where
  "synthesizes inp r sr \<longleftrightarrow>
     fmlookup (in_Synthesize inp) (sr_Prefix sr) = Some (r_Prefix r) \<and>
     sr_Prefix sr \<notin> r_Prefix ` set (in_Results inp)"

definition synth_step :: "Input \<Rightarrow> Result \<Rightarrow> Input \<times> covers \<Rightarrow> SubrangeResult \<Rightarrow> Input \<times> covers" where
  "synth_step inp r ic sr =
     (let (i, cover) = ic; c = r_Prefix r; k = sr_Prefix sr in
      if \<not> synthesizes inp r sr then (i, cover)
      else (i\<lparr>in_Results := in_Results i @ [synth_result r sr],
              in_Native := copy_entry (in_Native inp) c k (in_Native i),
              in_NoRoute := copy_entry (in_NoRoute inp) c k (in_NoRoute i),
              in_RPKI := copy_entry (in_RPKI inp) c k (in_RPKI i),
              in_IRR := copy_entry (in_IRR inp) c k (in_IRR i)\<rparr>,
            cover(k \<mapsto> c)))"

definition policy_keeps_whole :: "Input \<Rightarrow> prefix \<Rightarrow> bool" where
  "policy_keeps_whole inp p =
     (case in_Policies inp p of
        None \<Rightarrow> False
      | Some v \<Rightarrow> pv_Action v = PolicyIgnore \<or> pv_Action v = PolicyStatic)"

definition withSynthesized :: "Input \<Rightarrow> Input \<times> covers" where
  "withSynthesized inp =
     (if fmlen (in_Synthesize inp) = 0 then (inp, \<lambda>_. None)
      else foldl (\<lambda>ic r. if policy_keeps_whole inp (r_Prefix r) then ic
                         else foldl (synth_step inp r) ic (r_Subranges r))
             (inp, \<lambda>_. None) (in_Results inp))"

end
