(* ===== verification/Commit.thy ===== *)
theory Commit
  imports Subrange
begin

text \<open>
  Commit and cost steers (\<open>internal/policy/commit.go\<close>): the snapshot given to the planner, the checks on
  its moves, and the reconciliation of the active steers with its plan. The planner itself is a
  parameter, the field \<open>sc_Planner\<close> of the scorer; \<open>Plan_Cost\<close> and \<open>Plan_Commit\<close> model the two the
  program ships.
\<close>

section \<open>Helpers shared with Decide (decide.go)\<close>

text \<open>
  \<open>None\<close> is the empty text: the evidence rule does not refuse the move. The reason carries the names of
  the providers that lack evidence; the rendering of their confidence is not modelled.
\<close>

definition evidenceLacking :: "Config \<Rightarrow> Candidate \<Rightarrow> Candidate \<Rightarrow> reason option" where
  "evidenceLacking cfg cur alt =
     (if \<not> cfg_RequireEvidence cfg then None
      else let names = map c_Provider (filter (\<lambda>c. \<not> BeyondICMP (c_Confidence c)) [cur, alt])
           in if names = [] then None else Some (REvidence names))"

section \<open>Checks on a planner's move\<close>

definition commitLossEps :: float64 where "commitLossEps = 1 / 1000000"

definition lossRegressed :: "Candidate list \<Rightarrow> string \<Rightarrow> string \<Rightarrow> Config \<Rightarrow> bool" where
  "lossRegressed cands native current cfg =
     (case (usableCand cands native, usableCand cands current) of
        (Some nat0, Some cur) \<Rightarrow>
          if c_Score nat0 \<ge> c_Score cur then False
          else let margin = (if cfg_MinLossDeltaPct cfg \<le> 0 then commitLossEps else cfg_MinLossDeltaPct cfg)
               in c_LossPct cur - c_LossPct nat0 \<ge> margin
      | _ \<Rightarrow> False)"

definition ccDisabled :: "Config \<Rightarrow> string \<Rightarrow> bool" where
  "ccDisabled cfg name =
     (case find (\<lambda>p. pol_Name p = name) (cfg_Providers cfg) of None \<Rightarrow> False | Some p \<Rightarrow> pol_CCDisable p)"

text \<open>The lowest loss and the lowest RTT of the usable, non-excluded candidates.\<close>

definition floor_step ::
  "(string \<Rightarrow> bool) \<Rightarrow> (float64 \<times> duration) option \<Rightarrow> Candidate \<Rightarrow> (float64 \<times> duration) option" where
  "floor_step excluded acc c =
     (if \<not> c_Usable c \<or> excluded (c_Provider c) then acc
      else case acc of
        None \<Rightarrow> Some (c_LossPct c, c_RTTAvg c)
      | Some (ml, mr) \<Rightarrow> Some (if c_LossPct c < ml then c_LossPct c else ml,
                                if c_RTTAvg c < mr then c_RTTAvg c else mr))"

definition inFloor ::
  "Candidate list \<Rightarrow> (string \<Rightarrow> bool) \<Rightarrow> string \<Rightarrow> float64 \<Rightarrow> duration \<Rightarrow> bool" where
  "inFloor cands excluded name maxLoss maxRTT =
     (case usableCand cands name of
        None \<Rightarrow> False
      | Some c \<Rightarrow> (case foldl (floor_step excluded) None cands of
           None \<Rightarrow> False
         | Some (minLoss, minRTT) \<Rightarrow>
             c_LossPct c \<le> minLoss + maxLoss + commitLossEps \<and> c_RTTAvg c \<le> wrap64 (minRTT + maxRTT)))"

definition inFloorOf :: "Candidate list \<Rightarrow> Config \<Rightarrow> CostPolicy \<Rightarrow> string \<Rightarrow> bool" where
  "inFloorOf cands cfg cp name = inFloor cands (cfg_Excluded cfg) name (cp_MaxLoss cp) (cp_MaxRTT cp)"

text \<open>\<open>costFirst\<close> of \<open>cost.go\<close>: the cost policy when it takes precedence over performance.\<close>

definition costFirst :: "Scorer \<Rightarrow> CostPolicy option" where
  "costFirst scorer =
     (case sc_CostPolicy scorer of None \<Rightarrow> None
      | Some cp \<Rightarrow> if \<not> cp_CostFirst cp then None else map_option (\<lambda>_. cp) (sc_Planner scorer))"

definition moveAllowed ::
  "PlanMove \<Rightarrow> Candidate list \<Rightarrow> Config \<Rightarrow> bool \<Rightarrow> CostPolicy option \<Rightarrow> string \<Rightarrow> string \<Rightarrow> bool" where
  "moveAllowed mv cands cfg allowLoss cp native leaving =
     (if mv_Provider mv = [] \<or> mv_Provider mv = native \<or> cfg_Excluded cfg (mv_Provider mv) then False
      else if mv_Cause mv = CauseCost then
        (case cp of
           None \<Rightarrow> False
         | Some pol \<Rightarrow>
             if \<not> inFloorOf cands cfg pol (mv_Provider mv) then False
             else (case (providerCost cfg native, providerCost cfg (mv_Provider mv)) of
                     (Some natCost, Some destCost) \<Rightarrow> destCost < natCost
                   | _ \<Rightarrow> False))
      else if ccDisabled cfg (mv_Provider mv) then False
      else (case usableCand cands (mv_Provider mv) of
              None \<Rightarrow> False
            | Some dest \<Rightarrow>
                if allowLoss then True
                else (case usableCand cands (if leaving = [] then native else leaving) of
                        None \<Rightarrow> False
                      | Some from \<Rightarrow> c_LossPct dest \<le> c_LossPct from + commitLossEps)))"

section \<open>The planner's snapshot\<close>

definition sortedCommitOK :: "(prefix, bool) fmap \<Rightarrow> prefix list" where
  "sortedCommitOK ok = filter (\<lambda>p. fmget False ok p) (SortedKeys ok)"

definition planPaths :: "Candidate list \<Rightarrow> PlanPath list" where
  "planPaths cands = map (\<lambda>c. \<lparr>pp_Provider = c_Provider c, pp_LossPct = c_LossPct c, pp_RTT = c_RTTAvg c,
                               pp_Usable = c_Usable c\<rparr>) cands"

text \<open>The first usage row of a name wins; a row without a name is skipped.\<close>

definition usageOf :: "Input \<Rightarrow> string \<Rightarrow> Usage option" where
  "usageOf inp name = (if name = [] then None else find (\<lambda>u. us_Provider u = name) (in_Usage inp))"

definition row_of :: "Usage option \<Rightarrow> Usage" where
  "row_of u = (case u of None \<Rightarrow> zeroUsage | Some u \<Rightarrow> u)"

definition plan_provider :: "Config \<Rightarrow> Input \<Rightarrow> ProviderPolicy \<Rightarrow> PlanProvider" where
  "plan_provider cfg inp p =
     \<lparr>pr_Name = pol_Name p, pr_Group = pol_Group p, pr_Precedence = pol_Precedence p,
      pr_CCDisable = pol_CCDisable p, pr_Excluded = cfg_Excluded cfg (pol_Name p),
      pr_Up = in_ProviderUp inp (pol_Name p), pr_Usage = row_of (usageOf inp (pol_Name p)),
      pr_HaveRow = (usageOf inp (pol_Name p) \<noteq> None), pr_Cost = pol_Cost p, pr_HasCost = pol_HasCost p,
      pr_Port = pol_Port p\<rparr>"

text \<open>The first policy of every name, in order, without the nameless ones.\<close>

fun named_once :: "string list \<Rightarrow> ProviderPolicy list \<Rightarrow> ProviderPolicy list" where
  "named_once seen [] = []"
| "named_once seen (p # ps) =
     (if pol_Name p = [] \<or> pol_Name p \<in> set seen then named_once seen ps
      else p # named_once (pol_Name p # seen) ps)"

definition plan_port :: "Input \<Rightarrow> PortPolicy \<Rightarrow> PlanPort" where
  "plan_port inp pt =
     \<lparr>pt_Name = port_Name pt, pt_CapacityMbps = port_CapacityMbps pt, pt_CommitMbps = port_CommitMbps pt,
      pt_Usage = row_of (usageOf inp (port_Name pt)), pt_HaveRow = (usageOf inp (port_Name pt) \<noteq> None)\<rparr>"

text \<open>The closure \<open>add\<close>: a prefix enters the snapshot once.\<close>

definition add_plan ::
  "Input \<Rightarrow> round \<Rightarrow> PlanPrefix list \<Rightarrow> prefix \<Rightarrow> string \<Rightarrow> string \<Rightarrow> bool \<Rightarrow> bool \<Rightarrow> PlanPrefix list" where
  "add_plan inp rd acc p native current reversible locked =
     (if \<not> IsValid p \<or> p \<in> px_Prefix ` set acc then acc
      else acc @ [\<lparr>px_Prefix = p, px_Native = native, px_Current = current, px_VolumeMbps = in_VolumeMbps inp p,
                   px_Locked = locked, px_Reversible = reversible, px_Paths = planPaths (candsOf rd p)\<rparr>])"

definition imp_less :: "Improvement \<Rightarrow> Improvement \<Rightarrow> bool" where
  "imp_less a b \<longleftrightarrow> Less (imp_Prefix a) (imp_Prefix b)"

text \<open>Performance steers taken, and performance moves waiting on the cap.\<close>

definition locked_moves :: "round \<Rightarrow> bool \<Rightarrow> Improvement list" where
  "locked_moves rd cheapFirst =
     sort_by imp_less
       (filter (\<lambda>imp. \<not> planned (imp_Cause imp))
          (map (fmget zeroImprovement (improvements rd)) (SortedKeys (improvements rd))) @
        map w_imp (filter (\<lambda>w. \<not> w_commit w \<and> \<not> cheapFirst) (rd_wants rd)))"

definition buildPlan :: "Config \<Rightarrow> Input \<Rightarrow> round \<Rightarrow> bool \<Rightarrow> time \<Rightarrow> PlanInput" where
  "buildPlan cfg inp rd cheapFirst now =
     (let acc1 = foldl (\<lambda>acc imp. add_plan inp rd acc (imp_Prefix imp) (imp_Native imp)
                    (if imp_Provider imp = [] then imp_Native imp else imp_Provider imp) False True)
                 [] (locked_moves rd cheapFirst);
          acc2 = foldl (\<lambda>acc p. case fmlookup (rd_dec rd) p of
                     None \<Rightarrow> acc
                   | Some d \<Rightarrow> if d_Native d = [] then acc
                                else add_plan inp rd acc p (d_Native d) (d_Native d) False False)
                 acc1 (sortedCommitOK (rd_commitOK rd));
          acc3 = foldl (\<lambda>acc h. add_plan inp rd acc (imp_Prefix (ch_imp h)) (imp_Native (ch_imp h))
                    (imp_Provider (ch_imp h)) True False) acc2 (rd_holds rd)
      in \<lparr>pi_Now = now, pi_Providers = map (plan_provider cfg inp) (named_once [] (cfg_Providers cfg)),
          pi_Ports = map (plan_port inp) (cfg_Ports cfg), pi_Prefixes = acc3\<rparr>)"

text \<open>The map \<open>want\<close>: the first valid move of a prefix, with the default cause.\<close>

definition default_cause :: "PlanMove \<Rightarrow> PlanMove" where
  "default_cause m = (if mv_Cause m = CauseUnset then m\<lparr>mv_Cause := CauseCommit\<rparr> else m)"

definition wantOf :: "PlanMove list \<Rightarrow> prefix \<Rightarrow> PlanMove option" where
  "wantOf moves p =
     map_option default_cause
       (find (\<lambda>m. mv_Provider m \<noteq> [] \<and> IsValid (mv_Prefix m) \<and> mv_Prefix m = p) moves)"

section \<open>The context of one evaluation\<close>

text \<open>
  What \<open>Decide\<close> reads and does not change: its input with the synthesized sub-ranges, its configuration
  with the providers in maintenance excluded, the scorer, the time, the providers in maintenance and
  the covering prefixes of the synthesized sub-ranges.
\<close>

record ctx =
  cx_in :: Input
  cx_cfg :: Config
  cx_scorer :: Scorer
  cx_now :: time
  cx_maint :: "string \<Rightarrow> bool"
  cx_cover :: covers

definition cx_retire :: "ctx \<Rightarrow> prefix \<Rightarrow> reason \<Rightarrow> bool \<Rightarrow> round \<Rightarrow> round" where
  "cx_retire cx p rsn cooldown = retire (cx_cfg cx) (cx_now cx) p rsn cooldown"

definition flap_check :: "ctx \<Rightarrow> prefix \<Rightarrow> round \<Rightarrow> round \<times> bool" where
  "flap_check cx p rd =
     (let (st, flap) = flapNext (rd_st rd) p (cx_now cx) (cfg_Flap (cx_cfg cx)) in (rd\<lparr>rd_st := st\<rparr>, flap))"

definition park :: "ctx \<Rightarrow> prefix \<Rightarrow> round \<Rightarrow> round \<times> Quarantine" where
  "park cx p rd =
     (let (st, out, q) = quarantinePrefix (rd_st rd) p (cx_now cx) (cfg_Flap (cx_cfg cx)) (rd_out rd)
      in (rd\<lparr>rd_st := st, rd_out := out\<rparr>, q))"

definition note_flip :: "ctx \<Rightarrow> prefix \<Rightarrow> round \<Rightarrow> round" where
  "note_flip cx p rd = upd_st (\<lambda>st. noteFlip st p (cx_now cx) (cfg_Flap (cx_cfg cx))) rd"

definition note_performance :: "ctx \<Rightarrow> prefix \<Rightarrow> string \<Rightarrow> round \<Rightarrow> round \<times> bool \<times> int" where
  "note_performance cx p provider rd =
     (let (st, ready, n) = notePerformance (rd_st rd) (cx_in cx) (cx_cfg cx) p provider (cx_now cx)
      in (rd\<lparr>rd_st := st\<rparr>, ready, n))"

text \<open>\<open>if lost, _ := freshLoss(...); lost { delete(st.confirm, p) }\<close>\<close>

definition lose_streak :: "ctx \<Rightarrow> prefix \<Rightarrow> round \<Rightarrow> round" where
  "lose_streak cx p rd =
     (if fst (freshLoss (confirmOf (rd_st rd) p) (cx_in cx) (cx_cfg cx) p (cx_now cx))
      then upd_st (drop_confirm p) rd else rd)"

text \<open>The best exit other than the native one, or the exit the neighbor's MED prefers to it.\<close>

definition switch_alt :: "ctx \<Rightarrow> Candidate list \<Rightarrow> string \<Rightarrow> Candidate option" where
  "switch_alt cx cands native =
     (case bestCandidate cands (cfg_Excluded (cx_cfg cx)) native of
        None \<Rightarrow> None
      | Some alt \<Rightarrow> (case medPreferred cands alt (cx_cfg cx) native native of
           None \<Rightarrow> Some alt | Some pref \<Rightarrow> Some pref))"

text \<open>A performance switch from \<open>imp\<close> to \<open>n\<close>, which the gate and the flap check let pass.\<close>

definition perf_switch :: "ctx \<Rightarrow> Improvement \<Rightarrow> Improvement \<Rightarrow> round \<Rightarrow> round" where
  "perf_switch cx imp n rd =
     (let p = imp_Prefix n;
          rd1 = note_flip cx p rd;
          rd2 = rd1\<lparr>rd_gate := book (release (rd_gate rd1) imp) (imp_Provider n) p\<rparr>;
          rd3 = upd_st (drop_confirm p) rd2
      in add_change ActionSwitch imp n (put_imp p n rd3))"

section \<open>Reconciling the steers with the plan\<close>

text \<open>What the plan and the scorer say, read once per evaluation.\<close>

record plan_view =
  pw_want :: "prefix \<Rightarrow> PlanMove option"
  pw_allowLoss :: bool
  pw_cp :: "CostPolicy option"
  pw_cheapFirst :: bool

text \<open>A step of the loop over the holds is done with a hold, or leaves it to the planner's move.\<close>

datatype hold_result = Done round | ToPlan round "Overload option"

text \<open>The steer must still be inside the floor (cost) or must not have regressed in loss (commit).\<close>

definition hold_valid :: "ctx \<Rightarrow> plan_view \<Rightarrow> Candidate list \<Rightarrow> Improvement \<Rightarrow> (reason \<times> bool) option" where
  "hold_valid cx pw cands imp =
     (if imp_Cause imp = CauseCost then
        (case pw_cp pw of
           None \<Rightarrow> Some (RCostDisabled, False)
         | Some cp \<Rightarrow> if \<not> inFloorOf cands (cx_cfg cx) cp (imp_Provider imp) then Some (ROutsideFloor, True) else None)
      else if \<not> pw_allowLoss pw \<and> lossRegressed cands (imp_Native imp) (imp_Provider imp) (cx_cfg cx)
      then Some (RLossRegressed, True) else None)"

text \<open>A confirmed performance gain over a steer: refused by the gate, parked, or taken.\<close>

definition hold_switch :: "ctx \<Rightarrow> Candidate list \<Rightarrow> Improvement \<Rightarrow> Candidate \<Rightarrow> Candidate \<Rightarrow> round \<Rightarrow> hold_result" where
  "hold_switch cx cands imp nat0 alt rd =
     (let p = imp_Prefix imp; cause = imp_Cause imp in
      case refuse (rd_gate rd) (c_Provider alt) p of
        Some note \<Rightarrow> ToPlan (add_overload note rd) (Some note)
      | None \<Rightarrow>
          (let (rd1, flap) = flap_check cx p rd in
           if flap then
             (let (rd2, q) = park cx p rd1
              in Done (setDecision p ActionRetire (flapReason q) (imp_Native imp) [] cause
                         (cx_retire cx p (flapReason q) False rd2)))
           else
             (let n = (mkImprovement p (c_Provider alt) (imp_Native imp) (cx_now cx) (reasonText alt nat0)
                         CausePerformance)\<lparr>imp_MEDOverride := medOverride cands alt (cx_cfg cx) (imp_Native imp),
                         imp_nativeSeen := imp_nativeSeen imp, imp_nativeHeld := imp_nativeHeld imp\<rparr>
              in Done (setDecision p ActionSwitch (imp_Reason n) (imp_Provider n) (imp_Provider n) CausePerformance
                         (perf_switch cx imp n rd1)))))"

definition hold_perf :: "ctx \<Rightarrow> plan_view \<Rightarrow> Candidate list \<Rightarrow> commitHold \<Rightarrow> round \<Rightarrow> hold_result" where
  "hold_perf cx pw cands h rd =
     (let imp = ch_imp h; p = imp_Prefix imp; cause = imp_Cause imp in
      case usableCand cands (imp_Native imp) of
        None \<Rightarrow> ToPlan rd None
      | Some nat0 \<Rightarrow>
          if cause = CauseCost \<and> pw_cheapFirst pw then ToPlan rd None
          else (case switch_alt cx cands (imp_Native imp) of
             None \<Rightarrow> ToPlan (lose_streak cx p rd) None
           | Some alt \<Rightarrow>
               if \<not> (c_Provider alt \<noteq> imp_Provider imp \<and> better alt nat0 (cx_cfg cx))
               then ToPlan (lose_streak cx p rd) None
               else if evidenceLacking (cx_cfg cx) nat0 alt \<noteq> None
               then ToPlan (upd_st (drop_confirm p) rd) None
               else
                 (let (rd1, ready, got) = note_performance cx p (c_Provider alt) rd in
                  if \<not> ready then
                    Done (setDecision p ActionKeep (RConfirmingSwitch (c_Provider alt) got (confirmRounds (cx_cfg cx)))
                            (imp_Provider imp) (c_Provider alt) cause rd1)
                  else if ch_held h then
                    Done (setDecision p ActionKeep RPerfHold (imp_Provider imp) (c_Provider alt) cause rd1)
                  else hold_switch cx cands imp nat0 alt rd1)))"

definition hold_release :: "ctx \<Rightarrow> commitHold \<Rightarrow> round \<Rightarrow> round" where
  "hold_release cx h rd =
     (let imp = ch_imp h; p = imp_Prefix imp; cause = imp_Cause imp in
      if ch_held h then setDecision p ActionKeep (RReleaseHold cause) (imp_Provider imp) [] cause rd
      else setDecision p ActionRetire (RReleased cause) (imp_Native imp) [] cause
             (cx_retire cx p (RReleased cause) True rd))"

definition hold_plan ::
  "ctx \<Rightarrow> plan_view \<Rightarrow> Candidate list \<Rightarrow> commitHold \<Rightarrow> Overload option \<Rightarrow> round \<Rightarrow> round" where
  "hold_plan cx pw cands h refusal rd =
     (let imp = ch_imp h; p = imp_Prefix imp; cause = imp_Cause imp; now = cx_now cx in
      case pw_want pw p of
        None \<Rightarrow> hold_release cx h rd
      | Some mv \<Rightarrow>
          if mv_Cause mv \<noteq> cause then hold_release cx h rd
          else if mv_Provider mv = imp_Provider imp then
            (let imp1 = imp\<lparr>imp_Reason := mv_Reason mv\<rparr>; rd1 = put_imp p imp1 rd in
             case refusal of
               Some note \<Rightarrow> setDecision p ActionKeep (ov_Reason note) (imp_Provider imp1) (ov_Provider note) cause rd1
             | None \<Rightarrow> setDecision p ActionKeep (mv_Reason mv) (imp_Provider imp1) (imp_Provider imp1) cause rd1)
          else if \<not> moveAllowed mv cands (cx_cfg cx) (pw_allowLoss pw) (pw_cp pw) (imp_Native imp) (imp_Provider imp)
          then (if mv_Provider mv = imp_Native imp then hold_release cx h rd
                else setDecision p ActionKeep (RMoveRefused cause) (imp_Provider imp) [] cause rd)
          else if ch_held h
          then setDecision p ActionKeep (RMoveHold cause) (imp_Provider imp) (mv_Provider mv) cause rd
          else
            (let n = (mkImprovement p (mv_Provider mv) (imp_Native imp) now (mv_Reason mv) cause)
                       \<lparr>imp_nativeSeen := imp_nativeSeen imp, imp_nativeHeld := imp_nativeHeld imp\<rparr>
             in setDecision p ActionSwitch (imp_Reason n) (imp_Provider n) (imp_Provider n) cause
                  (add_change ActionSwitch imp n (put_imp p n rd))))"

definition hold_step :: "ctx \<Rightarrow> plan_view \<Rightarrow> round \<Rightarrow> commitHold \<Rightarrow> round" where
  "hold_step cx pw rd h =
     (let imp = ch_imp h; p = imp_Prefix imp; cands = candsOf rd p in
      case hold_valid cx pw cands imp of
        Some (rsn, cool) \<Rightarrow>
          setDecision p ActionRetire rsn (imp_Native imp) [] (imp_Cause imp) (cx_retire cx p rsn cool rd)
      | None \<Rightarrow>
          (case hold_perf cx pw cands h rd of
             Done rd1 \<Rightarrow> rd1
           | ToPlan rd1 refusal \<Rightarrow> hold_plan cx pw cands h refusal rd1))"

text \<open>Without a planner every steer is withdrawn.\<close>

definition no_planner_step :: "ctx \<Rightarrow> round \<Rightarrow> commitHold \<Rightarrow> round" where
  "no_planner_step cx rd h =
     (let imp = ch_imp h; p = imp_Prefix imp;
          rsn = (if imp_Cause imp = CauseCost then RCostDisabled else RCommitDisabled)
      in upd_dec p (\<lambda>d. d\<lparr>d_Action := ActionRetire, d_Reason := rsn, d_Current := imp_Native imp,
                          d_Cause := imp_Cause imp\<rparr>)
           (cx_retire cx p rsn False rd))"

section \<open>New commit and cost moves\<close>

definition hasPerf :: "round \<Rightarrow> prefix \<Rightarrow> bool" where
  "hasPerf rd p = list_ex (\<lambda>w. \<not> w_commit w \<and> imp_Prefix (w_imp w) = p) (rd_wants rd)"

definition note_move :: "prefix \<Rightarrow> PlanMove \<Rightarrow> reason \<Rightarrow> round \<Rightarrow> round" where
  "note_move p mv rsn =
     upd_dec p (\<lambda>d. d\<lparr>d_Reason := rsn, d_Recommended := mv_Provider mv, d_Cause := mv_Cause mv\<rparr>)"

definition commit_want :: "ctx \<Rightarrow> prefix \<Rightarrow> string \<Rightarrow> PlanMove \<Rightarrow> pending" where
  "commit_want cx p native mv =
     \<lparr>w_imp = mkImprovement p (mv_Provider mv) native (cx_now cx) (mv_Reason mv) (mv_Cause mv),
      w_gain = (if mv_Cause mv = CauseCost then mv_Savings mv else mv_ReliefMbps mv),
      w_commit = True, w_rank = rankPlanned, w_weight = 0, w_weighed = False\<rparr>"

text \<open>The loop keeps the round, the new moves and the prefixes whose performance move they replace.\<close>

definition fresh_step ::
  "ctx \<Rightarrow> plan_view \<Rightarrow> (prefix \<Rightarrow> bool) \<Rightarrow> round \<times> pending list \<times> prefix list \<Rightarrow> prefix \<Rightarrow>
   round \<times> pending list \<times> prefix list" where
  "fresh_step cx pw handled acc p =
     (let (rd, fresh, replaced) = acc in
      if handled p then acc
      else case fmlookup (rd_dec rd) p of
        None \<Rightarrow> acc
      | Some d \<Rightarrow> (case pw_want pw p of
          None \<Rightarrow> acc
        | Some mv \<Rightarrow>
            (case fmlookup (s_Cooldown (rd_st rd)) p of
               Some until \<Rightarrow> (note_move p mv (RCooldownFlip until) rd, fresh, replaced)
             | None \<Rightarrow>
                 if hasPerf rd p \<and> (\<not> pw_cheapFirst pw \<or> mv_Cause mv \<noteq> CauseCost) then acc
                 else if cfg_Mode (cx_cfg cx) = ''inject'' \<and> \<not> CoveredBy (cfg_Allowlist (cx_cfg cx)) p
                 then (note_move p mv (RMoveNotAllowlisted (mv_Cause mv)) rd, fresh, replaced)
                 else if \<not> moveAllowed mv (candsOf rd p) (cx_cfg cx) (pw_allowLoss pw) (pw_cp pw) (d_Native d) (d_Native d)
                 then (if hasPerf rd p then acc
                       else (note_move p mv (RMoveRefused (mv_Cause mv)) rd, fresh, replaced))
                 else if usableCand (candsOf rd p) (d_Native d) = None then acc
                 else (rd, fresh @ [commit_want cx p (d_Native d) mv],
                       if hasPerf rd p then p # replaced else replaced))))"

definition planView :: "ctx \<Rightarrow> (PlanInput \<Rightarrow> PlanMove list) \<Rightarrow> round \<Rightarrow> plan_view" where
  "planView cx plan rd =
     (let scorer = cx_scorer cx; cheapFirst = (costFirst scorer \<noteq> None) in
      \<lparr>pw_want = wantOf (plan (buildPlan (cx_cfg cx) (cx_in cx) rd cheapFirst (cx_now cx))),
       pw_allowLoss = (case sc_AllowLoss scorer of None \<Rightarrow> False | Some b \<Rightarrow> b),
       pw_cp = sc_CostPolicy scorer, pw_cheapFirst = cheapFirst\<rparr>)"

definition integrateCommit :: "ctx \<Rightarrow> round \<Rightarrow> round" where
  "integrateCommit cx rd =
     (case sc_Planner (cx_scorer cx) of
        None \<Rightarrow> foldl (no_planner_step cx) rd (rd_holds rd)
      | Some plan \<Rightarrow>
          (let pw = planView cx plan rd;
               handled = (\<lambda>p. list_ex (\<lambda>h. imp_Prefix (ch_imp h) = p) (rd_holds rd));
               rd1 = foldl (hold_step cx pw) rd (rd_holds rd);
               (rd2, fresh, replaced) =
                 foldl (fresh_step cx pw handled) (rd1, [], []) (sortedCommitOK (rd_commitOK rd1))
           in rd2\<lparr>rd_wants :=
                filter (\<lambda>w. \<not> (\<not> w_commit w \<and> imp_Prefix (w_imp w) \<in> set replaced)) (rd_wants rd2) @ fresh\<rparr>))"

end
