(* ===== verification/Decide.thy ===== *)
theory Decide
  imports Commit
begin

text \<open>
  One evaluation of the decision engine (\<open>internal/policy/decide.go\<close>): building the candidates, the
  branches of a prefix with and without an active improvement, admission under the improvement cap,
  and \<open>Decide\<close> itself, which composes the phases in the order of the source.
\<close>

section \<open>Candidates\<close>

definition rib_native :: "Input \<Rightarrow> prefix \<Rightarrow> string" where
  "rib_native inp p = (case in_Native inp p of None \<Rightarrow> [] | Some n \<Rightarrow> n)"

definition nativeOf :: "State \<Rightarrow> Input \<Rightarrow> prefix \<Rightarrow> string" where
  "nativeOf st inp p =
     (case fmlookup (s_Improvements st) p of Some imp \<Rightarrow> imp_Native imp | None \<Rightarrow> rib_native inp p)"

definition carrierOf :: "State \<Rightarrow> Input \<Rightarrow> Config \<Rightarrow> prefix \<Rightarrow> string" where
  "carrierOf st inp cfg p =
     (case fmlookup (s_Improvements st) p of
        Some imp \<Rightarrow> if cfg_Mode cfg = ''inject'' then imp_Provider imp else imp_Native imp
      | None \<Rightarrow> rib_native inp p)"

text \<open>Some result of the prefix comes from a provider without a reordering reading.\<close>

definition unread :: "Input \<Rightarrow> prefix \<Rightarrow> bool" where
  "unread inp p = list_ex (\<lambda>r. r_Prefix r = p \<and> in_Reorder inp (r_Provider r) = None) (in_Results inp)"

text \<open>A lookup in a map of maps, with the zero value where either level misses.\<close>

definition get2 :: "'v \<Rightarrow> ('a \<rightharpoonup> ('b \<rightharpoonup> 'v)) \<Rightarrow> 'a \<Rightarrow> 'b \<Rightarrow> 'v" where
  "get2 z m a b = (case m a of None \<Rightarrow> z | Some f \<Rightarrow> (case f b of None \<Rightarrow> z | Some v \<Rightarrow> v))"

definition noRoute :: "Input \<Rightarrow> prefix \<Rightarrow> string \<Rightarrow> bool" where
  "noRoute inp p prov = (case in_NoRoute inp p of None \<Rightarrow> False | Some f \<Rightarrow> f prov)"

text \<open>The measured values of a result.\<close>

definition cand_base :: "ctx \<Rightarrow> State \<Rightarrow> Result \<Rightarrow> Candidate" where
  "cand_base cx st r =
     (let inp = cx_in cx; p = r_Prefix r; prov = r_Provider r;
          ans = get2 zeroAnswer (in_RPKI inp) p prov;
          reg = get2 zeroIRR (in_IRR inp) p prov;
          med = (case in_MED inp p of None \<Rightarrow> None | Some f \<Rightarrow> f prov)
      in \<lparr>c_Provider = prov, c_Score = 0, c_LossPct = st_LossPct (r_Stats r), c_RTTAvg = st_RTTAvg (r_Stats r),
          c_Jitter = st_Jitter (r_Stats r),
          c_ReorderPct = (if unread inp p then 0
                          else case in_Reorder inp prov of None \<Rightarrow> 0 | Some v \<Rightarrow> v),
          c_Usable = True, c_Why = [],
          c_RPKI = ra_State ans, c_RPKISource = ra_Source ans, c_RPKIUpdated = ra_Updated ans,
          c_IRR = ia_State reg, c_IRRSource = ia_Source reg, c_IRRUpdated = ia_Updated reg,
          c_Confidence = (case in_Passive inp p of
             None \<Rightarrow> r_Confidence r
           | Some problem \<Rightarrow> if OK r \<and> prov = carrierOf st inp (cx_cfg cx) p
                              then WithPassive (r_Confidence r) (problem = (st_LossPct (r_Stats r) > 0))
                              else r_Confidence r),
          c_MED = map_option nm_MED med, c_MEDASN = (case med of None \<Rightarrow> 0 | Some m \<Rightarrow> nm_ASN m)\<rparr>)"

text \<open>The switch that makes a candidate unusable; the empty text keeps it usable.\<close>

definition unusable_why :: "ctx \<Rightarrow> State \<Rightarrow> Result \<Rightarrow> Candidate \<Rightarrow> string" where
  "unusable_why cx st r c =
     (let inp = cx_in cx; cfg = cx_cfg cx; p = r_Prefix r; prov = r_Provider r;
          native = (prov = nativeOf st inp p) in
      if \<not> OK r then ''probe error''
      else if \<not> in_ProviderUp inp prov then ''provider down''
      else if cfg_MaxResultAge cfg > 0 \<and> time_sub (cx_now cx) (r_Time r) > cfg_MaxResultAge cfg then ''stale''
      else if st_Sent (r_Stats r) = 0 then ''no packets sent''
      else if noRoute inp p prov \<and> \<not> native then ''no route via provider (route check)''
      else if in_EgressDown inp prov \<and> \<not> native then ''egress router down''
      else if cfg_RPKIAvoidInvalid cfg \<and> c_RPKI c = RPKIInvalid \<and> \<not> native then ''RPKI invalid''
      else if cfg_IRRPreferRegistered cfg \<and> c_IRR c = IRRNotRegistered \<and> \<not> native then ''IRR not registered''
      else [])"

definition mk_candidate :: "ctx \<Rightarrow> State \<Rightarrow> Result \<Rightarrow> Candidate" where
  "mk_candidate cx st r =
     (let c = cand_base cx st r; why = unusable_why cx st r c in
      if why \<noteq> [] then c\<lparr>c_Usable := False, c_Why := why\<rparr>
      else c\<lparr>c_Score := sc_Score (cx_scorer cx) \<lparr>ps_Provider = r_Provider r, ps_LossPct = c_LossPct c,
               ps_RTTAvg = c_RTTAvg c, ps_Jitter = c_Jitter c, ps_ReorderPct = c_ReorderPct c\<rparr>\<rparr>)"

definition group_step ::
  "ctx \<Rightarrow> State \<Rightarrow> (prefix, Candidate list) fmap \<times> subtable \<Rightarrow> Result \<Rightarrow>
   (prefix, Candidate list) fmap \<times> subtable" where
  "group_step cx st bs r =
     (let (by, subs) = bs; c = mk_candidate cx st r
      in (fmupd (r_Prefix r) (fmget [] by (r_Prefix r) @ [c]) by, noteSubranges subs r c (cx_scorer cx)))"

definition group_results :: "ctx \<Rightarrow> State \<Rightarrow> (prefix, Candidate list) fmap \<times> subtable" where
  "group_results cx st = foldl (group_step cx st) (fmempty, fmempty) (in_Results (cx_in cx))"

section \<open>Improvements without a measurement\<close>

definition unprobed_step :: "ctx \<Rightarrow> round \<Rightarrow> prefix \<Rightarrow> round" where
  "unprobed_step cx rd p =
     (if p \<in> fmdom' (rd_by rd) then rd
      else cx_retire cx p
        (if IsValid (imp_Covering (fmget zeroImprovement (improvements rd) p)) then RSubrangeGone else RNotProbed)
        False rd)"

definition retire_unprobed :: "ctx \<Rightarrow> round \<Rightarrow> round" where
  "retire_unprobed cx rd = foldl (unprobed_step cx) rd (SortedKeys (improvements rd))"

section \<open>A prefix with an active improvement\<close>

text \<open>
  The RIB check: \<open>Inl\<close> is the reason to retire, \<open>Inr\<close> the improvement with the native path's
  confirmation updated.
\<close>

definition rib_check :: "ctx \<Rightarrow> prefix \<Rightarrow> Improvement \<Rightarrow> (prefix, Improvement) fmap \<Rightarrow> reason + Improvement" where
  "rib_check cx p imp imps =
     (let inp = cx_in cx; now = cx_now cx; inRIB = (in_Native inp p \<noteq> None);
          coverOwn = (imp_Covering imp \<in> fmdom' imps);
          unseen = imp\<lparr>imp_nativeSeen := 0, imp_nativeHeld := False\<rparr> in
      if inRIB \<and> (case in_Held inp of None \<Rightarrow> False | Some held \<Rightarrow> held p) then Inr unseen
      else if inRIB then
        Inr (imp\<lparr>imp_nativeSeen := (if imp_nativeSeen imp = 0 then now else imp_nativeSeen imp),
                 imp_nativeHeld := True\<rparr>)
      else if IsValid (imp_Covering imp) \<and> \<not> coverOwn then Inl RCoveringGone
      else if imp_nativeHeld imp \<and> \<not> IsValid (imp_Covering imp) \<and> imp_nativeSeen imp \<noteq> 0 \<and>
              time_sub now (imp_nativeSeen imp) \<ge> NativePathConfirm then Inl RPrefixGone
      else Inr unseen)"

text \<open>The fail-closed checks: the reason of the withdrawal, whether it cools down, and the decision's reason.\<close>

definition fail_closed ::
  "ctx \<Rightarrow> prefix \<Rightarrow> Candidate list \<Rightarrow> Improvement \<Rightarrow> (reason \<times> bool \<times> reason) option" where
  "fail_closed cx p cands imp =
     (let cfg = cx_cfg cx in
      if usableCand cands (imp_Provider imp) = None
      then Some (RProviderUnusable (whyUnusable cands (imp_Provider imp)), imp_Cause imp = CauseStatic, RProviderUnusableD)
      else if cx_maint cx (imp_Provider imp) then Some (RMaintenance, False, RMaintenance)
      else if cfg_Excluded cfg (imp_Provider imp) then Some (RExcluded, False, RExcluded)
      else if cfg_Mode cfg = ''inject'' \<and> \<not> CoveredBy (cfg_Allowlist cfg) p
      then Some (RNotAllowlisted, False, RNotAllowlisted)
      else if cfg_ImprovementTTL cfg > 0 \<and> time_sub (cx_now cx) (imp_Since imp) \<ge> cfg_ImprovementTTL cfg
      then Some (RTTLExpired, False, RTTLExpiredD)
      else None)"

definition keep :: "prefix \<Rightarrow> reason \<Rightarrow> round \<Rightarrow> round" where
  "keep p rsn = upd_dec p (\<lambda>d. d\<lparr>d_Action := ActionKeep, d_Reason := rsn\<rparr>)"

definition recommend :: "prefix \<Rightarrow> string \<Rightarrow> round \<Rightarrow> round" where
  "recommend p name = upd_dec p (\<lambda>d. d\<lparr>d_Recommended := name\<rparr>)"

definition set_cause :: "prefix \<Rightarrow> cause \<Rightarrow> round \<Rightarrow> round" where
  "set_cause p cs = upd_dec p (\<lambda>d. d\<lparr>d_Cause := cs\<rparr>)"

text \<open>A prefix under a static policy whose improvement passed the fail-closed checks.\<close>

definition active_static ::
  "ctx \<Rightarrow> prefix \<Rightarrow> Candidate list \<Rightarrow> Improvement \<Rightarrow> PolicyVerdict \<Rightarrow> string \<Rightarrow> round \<Rightarrow> round" where
  "active_static cx p cands imp v static rd =
     (let cfg = cx_cfg cx; now = cx_now cx;
          withdraw = (\<lambda>rsn cool rec. setDecision p ActionRetire rsn (imp_Native imp) rec CauseStatic
                        (cx_retire cx p rsn cool rd)) in
      if static = imp_Native imp then withdraw RStaticNative False (imp_Native imp)
      else case usableCand cands static of
        None \<Rightarrow> withdraw (RStaticNotUsable static (staticWhy cands cfg static)) True []
      | Some pin \<Rightarrow>
          if cfg_Excluded cfg static then withdraw (RStaticNotUsable static (staticWhy cands cfg static)) True []
          else if pinFault pin cands (imp_Native imp) v cfg \<noteq> NoFault
          then withdraw (RStaticFault static (pinFault pin cands (imp_Native imp) v cfg)) True []
          else if imp_Provider imp = static
          then (let imp1 = imp\<lparr>imp_Cause := CauseStatic, imp_Reason := RStaticPin (pv_Rule v)\<rparr>
                in setDecision p ActionKeep (imp_Reason imp1) (imp_Provider imp1) (imp_Provider imp1) CauseStatic
                     (put_imp p imp1 rd))
          else if time_sub now (imp_Since imp) < cfg_HoldTime cfg
          then keep p (RStaticHold static) (set_cause p CauseStatic (recommend p static rd))
          else (let n = (mkImprovement p static (imp_Native imp) now (RStaticPin (pv_Rule v)) CauseStatic)
                          \<lparr>imp_nativeSeen := imp_nativeSeen imp, imp_nativeHeld := imp_nativeHeld imp\<rparr>
                in setDecision p ActionSwitch (imp_Reason n) (imp_Provider n) (imp_Provider n) CauseStatic
                     (add_change ActionSwitch imp n (put_imp p n rd))))"

text \<open>The native path is clearly better again.\<close>

definition flip_back :: "ctx \<Rightarrow> prefix \<Rightarrow> Improvement \<Rightarrow> bool \<Rightarrow> round \<Rightarrow> round" where
  "flip_back cx p imp held rd =
     (let rd1 = upd_st (drop_confirm p) rd in
      if held then keep p RNativeHold rd1
      else (let rd2 = cx_retire cx p RNativeBetter True rd1;
                (rd3, flap) = flap_check cx p rd2;
                rd4 = (if flap then fst (park cx p rd3) else note_flip cx p rd3)
            in retiredDecision p RNativeBetter (imp_Native imp) rd4))"

text \<open>A better alternative that passed the evidence rule.\<close>

definition active_switch ::
  "ctx \<Rightarrow> prefix \<Rightarrow> Candidate list \<Rightarrow> Improvement \<Rightarrow> Candidate \<Rightarrow> Candidate \<Rightarrow> bool \<Rightarrow> round \<Rightarrow> round" where
  "active_switch cx p cands imp cur alt held rd =
     (let (rd1, ready, n) = note_performance cx p (c_Provider alt) rd in
      if \<not> ready
      then keep p (RConfirmingSwitch (c_Provider alt) n (confirmRounds (cx_cfg cx))) (recommend p (c_Provider alt) rd1)
      else if held then keep p RStillValid rd1
      else case refuse (rd_gate rd1) (c_Provider alt) p of
        Some note \<Rightarrow> add_overload note (keep p (ov_Reason note) (recommend p (c_Provider alt) rd1))
      | None \<Rightarrow>
          (let (rd2, flap) = flap_check cx p rd1 in
           if flap then
             (let (rd3, q) = park cx p rd2
              in retiredDecision p (flapReason q) (imp_Native imp) (cx_retire cx p (flapReason q) False rd3))
           else
             (let sw = (mkImprovement p (c_Provider alt) (imp_Native imp) (cx_now cx) (reasonText alt cur)
                          CausePerformance)\<lparr>imp_MEDOverride := medOverride cands alt (cx_cfg cx) (imp_Native imp),
                          imp_Covering := imp_Covering imp, imp_nativeSeen := imp_nativeSeen imp,
                          imp_nativeHeld := imp_nativeHeld imp\<rparr>
              in upd_dec p (\<lambda>d. d\<lparr>d_Action := ActionSwitch, d_Reason := imp_Reason sw, d_Current := imp_Provider sw,
                                  d_Cause := CausePerformance\<rparr>)
                   (perf_switch cx imp sw rd2))))"

definition active_perf ::
  "ctx \<Rightarrow> prefix \<Rightarrow> Candidate list \<Rightarrow> Improvement \<Rightarrow> Candidate \<Rightarrow> round \<Rightarrow> round" where
  "active_perf cx p cands imp cur rd =
     (let cfg = cx_cfg cx; held = (time_sub (cx_now cx) (imp_Since imp) < cfg_HoldTime cfg);
          back = (case usableCand cands (imp_Native imp) of None \<Rightarrow> False | Some nat0 \<Rightarrow> better nat0 cur cfg) in
      if back then flip_back cx p imp held rd
      else case switch_alt cx cands (imp_Native imp) of
        None \<Rightarrow> keep p RStillValid (lose_streak cx p rd)
      | Some alt \<Rightarrow>
          if \<not> (c_Provider alt \<noteq> imp_Provider imp \<and> better alt cur cfg)
          then keep p RStillValid (lose_streak cx p rd)
          else (case evidenceLacking cfg cur alt of
             Some lacking \<Rightarrow> keep p lacking (recommend p (c_Provider alt) (upd_st (drop_confirm p) rd))
           | None \<Rightarrow> active_switch cx p cands imp cur alt held rd))"

definition static_of :: "Input \<Rightarrow> prefix \<Rightarrow> (PolicyVerdict \<times> string) option" where
  "static_of inp p =
     (case in_Policies inp p of
        None \<Rightarrow> None
      | Some v \<Rightarrow> if pv_Action v = PolicyStatic \<and> length (pv_Providers v) = 1 \<and> hd (pv_Providers v) \<noteq> []
                   then Some (v, hd (pv_Providers v)) else None)"

definition ignored :: "Input \<Rightarrow> prefix \<Rightarrow> bool" where
  "ignored inp p = (case in_Policies inp p of None \<Rightarrow> False | Some v \<Rightarrow> pv_Action v = PolicyIgnore)"

definition policy_rule :: "Input \<Rightarrow> prefix \<Rightarrow> string" where
  "policy_rule inp p = (case in_Policies inp p of None \<Rightarrow> [] | Some v \<Rightarrow> pv_Rule v)"

text \<open>After the RIB check: the fail-closed checks, the static policy, the planner's holds, performance.\<close>

definition active_checked :: "ctx \<Rightarrow> prefix \<Rightarrow> Candidate list \<Rightarrow> Improvement \<Rightarrow> round \<Rightarrow> round" where
  "active_checked cx p cands imp rd =
     (let cfg = cx_cfg cx; inp = cx_in cx in
      case fail_closed cx p cands imp of
        Some (rsn, cool, drsn) \<Rightarrow> retiredDecision p drsn (imp_Native imp) (cx_retire cx p rsn cool rd)
      | None \<Rightarrow>
          (case static_of inp p of
             Some (v, static) \<Rightarrow> active_static cx p cands imp v static rd
           | None \<Rightarrow>
               if imp_Cause imp = CauseStatic
               then setDecision p ActionRetire RStaticRemoved (imp_Native imp) [] CauseStatic
                      (cx_retire cx p RStaticRemoved False rd)
               else if planned (imp_Cause imp)
               then (if imp_Cause imp = CauseCommit \<and> ccDisabled cfg (imp_Provider imp)
                     then set_cause p CauseCommit (retiredDecision p RCCDisabled (imp_Native imp)
                            (cx_retire cx p RCCDisabled False rd))
                     else rd\<lparr>rd_holds := rd_holds rd @
                            [\<lparr>ch_imp = imp, ch_held = (time_sub (cx_now cx) (imp_Since imp) < cfg_HoldTime cfg)\<rparr>]\<rparr>)
               else (case usableCand cands (imp_Provider imp) of
                       None \<Rightarrow> rd
                     | Some cur \<Rightarrow> active_perf cx p cands imp cur rd)))"

definition active_branch :: "ctx \<Rightarrow> prefix \<Rightarrow> Candidate list \<Rightarrow> Improvement \<Rightarrow> round \<Rightarrow> round" where
  "active_branch cx p cands imp rd0 =
     (let inp = cx_in cx;
          rd = upd_dec p (\<lambda>d. d\<lparr>d_Native := imp_Native imp, d_Current := imp_Provider imp\<rparr>) rd0 in
      if ignored inp p
      then (let rsn = RPolicyIgnore (policy_rule inp p)
            in setDecision p ActionRetire rsn (imp_Native imp) [] (imp_Cause imp) (cx_retire cx p rsn False rd))
      else if in_RIBEnabled inp
      then (case rib_check cx p imp (improvements rd) of
              Inl rsn \<Rightarrow> retiredDecision p rsn (imp_Native imp) (cx_retire cx p rsn True rd)
            | Inr imp1 \<Rightarrow> active_checked cx p cands imp1 (put_imp p imp1 rd))
      else active_checked cx p cands imp rd)"

section \<open>A prefix on its native path\<close>

definition mark_commit :: "ctx \<Rightarrow> prefix \<Rightarrow> round \<Rightarrow> round" where
  "mark_commit cx p rd =
     (if IsValid (case cx_cover cx p of None \<Rightarrow> zeroPrefix | Some c \<Rightarrow> c) then rd
      else rd\<lparr>rd_commitOK := fmupd p True (rd_commitOK rd)\<rparr>)"

definition add_want :: "pending \<Rightarrow> round \<Rightarrow> round" where
  "add_want w rd = rd\<lparr>rd_wants := rd_wants rd @ [w]\<rparr>"

definition allowlisted :: "Config \<Rightarrow> prefix \<Rightarrow> bool" where
  "allowlisted cfg p \<longleftrightarrow> \<not> (cfg_Mode cfg = ''inject'' \<and> \<not> CoveredBy (cfg_Allowlist cfg) p)"

definition static_want :: "ctx \<Rightarrow> prefix \<Rightarrow> string \<Rightarrow> string \<Rightarrow> PolicyVerdict \<Rightarrow> pending" where
  "static_want cx p native static v =
     \<lparr>w_imp = mkImprovement p static native (cx_now cx) (RStaticPin (pv_Rule v)) CauseStatic, w_gain = 0,
      w_commit = False, w_rank = rankStatic, w_weight = 0, w_weighed = False\<rparr>"

definition native_static ::
  "ctx \<Rightarrow> prefix \<Rightarrow> Candidate list \<Rightarrow> string \<Rightarrow> PolicyVerdict \<Rightarrow> string \<Rightarrow> round \<Rightarrow> round" where
  "native_static cx p cands native v static rd0 =
     (let cfg = cx_cfg cx; rd = set_cause p CauseStatic rd0 in
      if static = native then noteReason p RStaticNative (recommend p static rd)
      else case usableCand cands static of
        None \<Rightarrow> noteReason p (RStaticNotUsable static (staticWhy cands cfg static)) rd
      | Some pin \<Rightarrow>
          if cfg_Excluded cfg static then noteReason p (RStaticNotUsable static (staticWhy cands cfg static)) rd
          else if pinFault pin cands native v cfg \<noteq> NoFault
          then noteReason p (RStaticFault static (pinFault pin cands native v cfg)) rd
          else (let rd1 = recommend p static rd in
            case fmlookup (s_Cooldown (rd_st rd1)) p of
              Some until \<Rightarrow> noteReason p (RCooldown until) rd1
            | None \<Rightarrow>
                if \<not> allowlisted cfg p then noteReason p RStaticNotAllowlisted rd1
                else add_want (static_want cx p native static v) rd1))"

text \<open>
  The exit the performance move would take: the best alternative, or the one its neighbor's MED
  prefers. \<open>Inl\<close> carries the reason to keep the native path, if it is not the default one.
\<close>

definition perf_choice :: "ctx \<Rightarrow> Candidate list \<Rightarrow> string \<Rightarrow> Candidate \<Rightarrow> reason + Candidate" where
  "perf_choice cx cands native natC =
     (let cfg = cx_cfg cx in
      case bestCandidate cands (cfg_Excluded cfg) native of
        None \<Rightarrow> Inl RNativeBest
      | Some alt \<Rightarrow>
          if \<not> better alt natC cfg then Inl RNativeBest
          else (case medPreferred cands alt cfg native [] of
             None \<Rightarrow> Inr alt
           | Some pref \<Rightarrow>
               if c_Provider pref = native \<or> \<not> better pref natC cfg
               then Inl (medKeepReason pref alt cfg) else Inr pref))"

definition perf_want :: "ctx \<Rightarrow> prefix \<Rightarrow> Candidate list \<Rightarrow> string \<Rightarrow> Candidate \<Rightarrow> Candidate \<Rightarrow> pending" where
  "perf_want cx p cands native natC alt =
     \<lparr>w_imp = (mkImprovement p (c_Provider alt) native (cx_now cx) (reasonText alt natC) CausePerformance)
        \<lparr>imp_MEDOverride := medOverride cands alt (cx_cfg cx) native,
         imp_Covering := (case cx_cover cx p of None \<Rightarrow> zeroPrefix | Some c \<Rightarrow> c)\<rparr>,
      w_gain = c_Score natC - c_Score alt, w_commit = False,
      w_rank = (case in_Policies (cx_in cx) p of
         Some v \<Rightarrow> if pv_Action v = PolicyVIP then rankVIP else rankPerformance | None \<Rightarrow> rankPerformance),
      w_weight = 0, w_weighed = False\<rparr>"

text \<open>From the evidence rule on.\<close>

definition native_confirm ::
  "ctx \<Rightarrow> prefix \<Rightarrow> Candidate list \<Rightarrow> string \<Rightarrow> Candidate \<Rightarrow> Candidate \<Rightarrow> round \<Rightarrow> round" where
  "native_confirm cx p cands native natC alt rd =
     (case evidenceLacking (cx_cfg cx) natC alt of
        Some lacking \<Rightarrow> noteReason p lacking (recommend p (c_Provider alt) (upd_st (drop_confirm p) rd))
      | None \<Rightarrow>
          (let (rd1, ready, n) = note_performance cx p (c_Provider alt) rd in
           if \<not> ready
           then noteReason p (RConfirming (c_Provider alt) n (confirmRounds (cx_cfg cx))) (recommend p (c_Provider alt) rd1)
           else add_want (perf_want cx p cands native natC alt) rd1))"

definition native_perf :: "ctx \<Rightarrow> prefix \<Rightarrow> Candidate list \<Rightarrow> string \<Rightarrow> round \<Rightarrow> round" where
  "native_perf cx p cands native rd =
     (let cfg = cx_cfg cx in
      case usableCand cands native of
        None \<Rightarrow> noteReason p (RNativeUnusable (whyUnusable cands native)) rd
      | Some natC \<Rightarrow>
          (case perf_choice cx cands native natC of
             Inl rsn \<Rightarrow> mark_commit cx p (noteReason p rsn (lose_streak cx p rd))
           | Inr alt \<Rightarrow>
               (case fmlookup (s_Cooldown (rd_st rd)) p of
                  Some until \<Rightarrow> noteReason p (RCooldownFlip until) rd
                | None \<Rightarrow>
                    if \<not> allowlisted cfg p
                    then noteReason p RBetterNotAllowlisted (recommend p (c_Provider alt) rd)
                    else (case costFirst (cx_scorer cx) of
                       None \<Rightarrow> native_confirm cx p cands native natC alt rd
                     | Some cp \<Rightarrow>
                         (let rd1 = mark_commit cx p rd in
                          if inFloor cands (cfg_Excluded cfg) native (cp_MaxLoss cp) (cp_MaxRTT cp)
                          then set_cause p CauseCost (noteReason p RInsideFloor (recommend p native rd1))
                          else native_confirm cx p cands native natC alt rd1)))))"

definition native_branch :: "ctx \<Rightarrow> prefix \<Rightarrow> Candidate list \<Rightarrow> round \<Rightarrow> round" where
  "native_branch cx p cands rd =
     (let inp = cx_in cx in
      if \<not> in_RIBEnabled inp then noteReason p RRankingOnly rd
      else case in_Native inp p of
        None \<Rightarrow> noteReason p (case cx_cover cx p of None \<Rightarrow> RNotInRIB | Some c \<Rightarrow> RCoveringNotInRIB c)
                  (upd_st (drop_confirm p) rd)
      | Some nat0 \<Rightarrow>
          (let rd1 = upd_dec p (\<lambda>d. d\<lparr>d_Native := nat0, d_Current := nat0\<rparr>) rd in
           if nat0 = [] then noteReason p RNoProvider rd1
           else if Bits p = 0 then noteReason p RDefaultRoute (upd_st (drop_confirm p) rd1)
           else if ignored inp p
           then noteReason p (RPolicyIgnore (policy_rule inp p)) (upd_st (drop_confirm p) rd1)
           else case fmlookup (s_quarantine (rd_st rd1)) p of
             Some q \<Rightarrow> noteReason p (flapReason q) (upd_st (drop_confirm p) rd1)
           | None \<Rightarrow>
               (case static_of inp p of
                  Some (v, static) \<Rightarrow> native_static cx p cands nat0 v static rd1
                | None \<Rightarrow> native_perf cx p cands nat0 rd1)))"

section \<open>The loop over the prefixes\<close>

definition prefix_cands :: "ctx \<Rightarrow> round \<Rightarrow> prefix \<Rightarrow> Candidate list" where
  "prefix_cands cx rd p =
     (let cands = sort_by provider_less (candsOf rd p) in
      case in_Policies (cx_in cx) p of
        None \<Rightarrow> cands
      | Some v \<Rightarrow> applyPolicy cands v (nativeOf (rd_st rd) (cx_in cx) p))"

text \<open>The head of the loop: the early probe request, the candidates under the policy, and a fresh decision.\<close>

definition new_decision :: "ctx \<Rightarrow> prefix \<Rightarrow> Candidate list \<Rightarrow> Decision" where
  "new_decision cx p cands =
     zeroDecision\<lparr>d_Prefix := p, d_Candidates := cands,
       d_Covering := (case cx_cover cx p of None \<Rightarrow> zeroPrefix | Some c \<Rightarrow> c),
       d_Policy := (case in_Policies (cx_in cx) p of None \<Rightarrow> [] | Some v \<Rightarrow> policyText v),
       d_Recommended := (case bestCandidate cands (cfg_Excluded (cx_cfg cx)) [] of
          None \<Rightarrow> [] | Some b \<Rightarrow> c_Provider b)\<rparr>"

definition prepare_prefix :: "ctx \<Rightarrow> prefix \<Rightarrow> round \<Rightarrow> round" where
  "prepare_prefix cx p rd0 =
     (let rd = upd_st (clearConfirmProbe p) rd0; cands = prefix_cands cx rd p
      in rd\<lparr>rd_by := fmupd p cands (rd_by rd), rd_dec := fmupd p (new_decision cx p cands) (rd_dec rd)\<rparr>)"

definition decide_prefix :: "ctx \<Rightarrow> round \<Rightarrow> prefix \<Rightarrow> round" where
  "decide_prefix cx rd0 p =
     (let rd = prepare_prefix cx p rd0; cands = candsOf rd p
      in case fmlookup (improvements rd) p of
           Some imp \<Rightarrow> active_branch cx p cands imp rd
         | None \<Rightarrow> native_branch cx p cands rd)"

section \<open>Admission\<close>

definition want_less :: "pending \<Rightarrow> pending \<Rightarrow> bool" where
  "want_less a b =
     (if w_rank a \<noteq> w_rank b then w_rank a < w_rank b
      else if w_weighed a \<and> w_weighed b \<and> w_weight a \<noteq> w_weight b then w_weight a > w_weight b
      else if w_gain a \<noteq> w_gain b then w_gain a > w_gain b
      else Less (imp_Prefix (w_imp a)) (imp_Prefix (w_imp b)))"

lemma displace_fold:
  assumes "foldl (displace_step imps volume) pick ps = Some (q, v)"
  shows "pick = Some (q, v) \<or> q \<in> set ps \<and> planned (imp_Cause (fmget zeroImprovement imps q))"
  using assms
proof (induction ps arbitrary: pick)
  case Nil
  then show ?case by simp
next
  case (Cons p ps)
  from Cons.IH [of "displace_step imps volume pick p"] Cons.prems show ?case
    by (auto simp: displace_step_def Let_def split: if_splits option.splits)
qed

lemma displace_pick_Some:
  assumes "displace_pick imps volume = Some p"
  shows "p \<in> fmdom' imps" "planned (imp_Cause (fmget zeroImprovement imps p))"
  using assms displace_fold [of imps volume None "SortedKeys imps" p]
  by (auto simp: displace_pick_def)

lemma improvements_retire [simp]:
  "improvements (retire cfg now p rsn cool rd) = fmdrop p (improvements rd)"
  by (simp add: retire_def improvements_def Let_def add_change_def upd_st_def)

lemma improvements_upd_dec [simp]: "improvements (upd_dec p f rd) = improvements rd"
  by (simp add: upd_dec_def improvements_def split: option.split)

lemma improvements_displaceCommit:
  "displaceCommit cfg now volume rd = Some rd' \<Longrightarrow>
     \<exists>p \<in> fmdom' (improvements rd). improvements rd' = fmdrop p (improvements rd)"
  by (auto simp: displaceCommit_def setDecision_def Let_def dest: displace_pick_Some split: option.splits)

text \<open>The loop that frees a slot for a move, and whether it got one.\<close>

function cap_loop :: "ctx \<Rightarrow> bool \<Rightarrow> round \<Rightarrow> round \<times> bool" where
  "cap_loop cx commit rd =
     (let cap = cfg_MaxImprovements (cx_cfg cx) in
      if int (fmlen (improvements rd)) < cap then (rd, True)
      else if commit \<or> cap \<le> 0 then (rd, False)
      else case displaceCommit (cx_cfg cx) (cx_now cx) (in_VolumeMbps (cx_in cx)) rd of
             None \<Rightarrow> (rd, False)
           | Some rd' \<Rightarrow> cap_loop cx commit rd')"
  by pat_completeness auto
termination
  by (relation "measure (\<lambda>(cx, commit, rd). fmlen (improvements rd))")
    (auto dest!: improvements_displaceCommit simp: fmlen_drop_present [symmetric])

declare cap_loop.simps [simp del]

definition take_want :: "ctx \<Rightarrow> pending \<Rightarrow> round \<Rightarrow> round" where
  "take_want cx w rd =
     (let imp = w_imp w; p = imp_Prefix imp;
          rd1 = note_flip cx p rd;
          rd2 = rd1\<lparr>rd_gate := book (rd_gate rd1) (imp_Provider imp) p\<rparr>;
          rd3 = put_imp p imp (upd_st (drop_confirm p) rd2)
      in upd_dec p (\<lambda>d. d\<lparr>d_Action := ActionImprove, d_Reason := imp_Reason imp, d_Current := imp_Provider imp,
                          d_Recommended := imp_Provider imp\<rparr>)
           (add_change ActionImprove zeroImprovement imp rd3))"

definition admit :: "ctx \<Rightarrow> round \<Rightarrow> pending \<Rightarrow> round" where
  "admit cx rd0 w =
     (let imp = w_imp w; p = imp_Prefix imp; prov = imp_Provider imp; rd = set_cause p (imp_Cause imp) rd0;
          refused = (if imp_Cause imp = CausePerformance then refuse (rd_gate rd) prov p else None) in
      case refused of
        Some note \<Rightarrow> add_overload note (noteReason p (ov_Reason note) (recommend p prov rd))
      | None \<Rightarrow>
          (let (rd1, flap) = flap_check cx p rd in
           if flap then
             (let (rd2, q) = park cx p rd1
              in upd_st (drop_confirm p) (noteReason p (flapReason q) (recommend p prov rd2)))
           else
             (let (rd2, free) = cap_loop cx (w_commit w) rd1 in
              if \<not> free
              then upd_dec p (\<lambda>d. d\<lparr>d_Action := ActionCapped, d_Reason := RCapped (cfg_MaxImprovements (cx_cfg cx)),
                                    d_Recommended := prov\<rparr>) rd2
              else take_want cx w rd2)))"

section \<open>Decide\<close>

definition initial_round :: "State \<Rightarrow> Output \<Rightarrow> round" where
  "initial_round st out =
     \<lparr>rd_st = st, rd_out = out, rd_gate = None, rd_dec = fmempty, rd_by = fmempty, rd_wants = [], rd_holds = [],
      rd_commitOK = fmempty\<rparr>"

definition with_maintenance :: "Input \<Rightarrow> Config \<Rightarrow> Config" where
  "with_maintenance inp cfg =
     cfg\<lparr>cfg_Excluded := (\<lambda>name. name \<in> set (in_Maintenance inp) \<or> cfg_Excluded cfg name)\<rparr>"

definition expire_cooldowns :: "time \<Rightarrow> State \<Rightarrow> State" where
  "expire_cooldowns now st =
     st\<lparr>s_Cooldown := fmfilter (\<lambda>p. now < fmget 0 (s_Cooldown st) p) (s_Cooldown st)\<rparr>"

definition stale_rib :: "Config \<Rightarrow> time \<Rightarrow> round \<Rightarrow> round" where
  "stale_rib cfg now rd0 =
     (let rd = upd_st (\<lambda>st. st\<lparr>s_confirm := fmempty\<rparr>) rd0
      in foldl (\<lambda>rd p. retire cfg now p RRibNotReady False rd) rd (SortedKeys (improvements rd)))"

text \<open>The phases of an evaluation, from the candidates to the admission.\<close>

definition start_round :: "ctx \<Rightarrow> round \<Rightarrow> round" where
  "start_round cx rd0 =
     (let rd1 = retire_unprobed cx (rd0\<lparr>rd_by := fst (group_results cx (rd_st rd0))\<rparr>)
      in rd1\<lparr>rd_gate := newLoadGate (rd_st rd1) (cx_in cx) (cx_cfg cx) (cx_now cx)\<rparr>)"

definition decide_prefixes :: "ctx \<Rightarrow> round \<Rightarrow> round" where
  "decide_prefixes cx rd = foldl (decide_prefix cx) rd (SortedKeys (rd_by rd))"

definition admit_wants :: "ctx \<Rightarrow> round \<Rightarrow> round" where
  "admit_wants cx rd = foldl (admit cx) rd (sort_by want_less (rd_wants rd))"

definition run_round :: "ctx \<Rightarrow> round \<Rightarrow> round" where
  "run_round cx rd0 =
     (let cfg = cx_cfg cx; now = cx_now cx;
          rd1 = decide_prefixes cx (start_round cx rd0);
          rd2 = integrateCommit cx rd1;
          rd3 = trimToCap cfg now (in_Policies (cx_in cx)) rd2;
          rd4 = shed cfg now rd3;
          rd5 = weighWants (cx_scorer cx) (volumes (cx_in cx)) rd4
      in admit_wants cx rd5)"

text \<open>The last lines: streaks of prefixes without results, urgent probes, costs, and the decisions.\<close>

definition final_decision :: "ctx \<Rightarrow> subtable \<Rightarrow> State \<Rightarrow> round \<Rightarrow> prefix \<Rightarrow> Decision" where
  "final_decision cx subs st rd p =
     (let d = attachSubranges (fmget fmempty subs p) (cfg_Excluded (cx_cfg cx)) (decOf rd p) in
      case fmlookup (s_Improvements st) p of
        None \<Rightarrow> d
      | Some imp \<Rightarrow> if d_Current d = imp_Provider imp then d\<lparr>d_MEDOverride := imp_MEDOverride imp\<rparr> else d)"

definition finish :: "ctx \<Rightarrow> subtable \<Rightarrow> round \<Rightarrow> State \<times> Output" where
  "finish cx subs rd =
     (let cfg = cx_cfg cx;
          st0 = (rd_st rd)\<lparr>s_confirm := fmfilter (\<lambda>p. p \<in> fmdom' (rd_by rd)) (s_confirm (rd_st rd))\<rparr>;
          out0 = markPendingUrgent st0 (confirmRounds cfg) (rd_out rd);
          (st, out) = annotateCost cfg (in_VolumeMbps (cx_in cx)) (st0, out0)
      in (st, out\<lparr>o_Decisions := map (final_decision cx subs st rd) (SortedKeys (rd_by rd))\<rparr>))"

definition decide_ctx :: "Input \<Rightarrow> Config \<Rightarrow> Scorer \<Rightarrow> time \<Rightarrow> ctx" where
  "decide_ctx inp cfg scorer now =
     (let (inp1, cover) = withSynthesized inp
      in \<lparr>cx_in = inp1, cx_cfg = with_maintenance inp cfg, cx_scorer = scorer, cx_now = now,
          cx_maint = (\<lambda>name. name \<in> set (in_Maintenance inp)), cx_cover = cover\<rparr>)"

definition Decide :: "State \<Rightarrow> Input \<Rightarrow> Config \<Rightarrow> Scorer \<Rightarrow> time \<Rightarrow> State \<times> Output" where
  "Decide prev inp cfg0 scorer now =
     (let cfg = with_maintenance inp cfg0;
          (st, out) = expireFlap (expire_cooldowns now prev) now (cfg_Flap cfg) zeroOutput;
          rd = initial_round st out in
      if in_RIBEnabled inp \<and> \<not> in_RIBReady inp
      then (let rd1 = stale_rib cfg now rd in (rd_st rd1, rd_out rd1))
      else (let cx = decide_ctx inp cfg0 scorer now
            in finish cx (snd (group_results cx st)) (run_round cx rd)))"

end
