(* ===== verification/Steering.thy ===== *)
theory Steering
  imports Decide
begin

text \<open>
  The abstract specification of an evaluation. What the rest of the program relies on is the table of
  improvements, the parked and the cooling prefixes, and the log of changes that the announcer
  replays. \<open>astep\<close> lists the only ways an evaluation may change them, with the guard of each;
  \<open>Refine\<close> shows that \<open>Decide\<close> takes no other step. The locale \<open>steer_invariant\<close> carries an invariant
  along a run; its interpretations are the invariants of the decision engine.
\<close>

section \<open>The abstract state\<close>

record steer =
  a_imps :: "(prefix, Improvement) fmap"
  a_quar :: "prefix set"
  a_cool :: "(prefix, time) fmap"
  a_log :: "ImpChange list"

definition steer_of :: "round \<Rightarrow> steer" where
  "steer_of rd =
     \<lparr>a_imps = improvements rd, a_quar = fmdom' (s_quarantine (rd_st rd)),
      a_cool = s_Cooldown (rd_st rd), a_log = changes rd\<rparr>"

text \<open>A measurement of this evaluation makes the provider usable for the prefix.\<close>

definition usable_path :: "ctx \<Rightarrow> State \<Rightarrow> prefix \<Rightarrow> string \<Rightarrow> bool" where
  "usable_path cx st0 p prov =
     list_ex (\<lambda>r. r_Prefix r = p \<and> r_Provider r = prov \<and> unusable_why cx st0 r (cand_base cx st0 r) = [])
       (in_Results (cx_in cx))"

text \<open>What every steered prefix must satisfy: the fail-closed rules.\<close>

definition safe_target :: "ctx \<Rightarrow> State \<Rightarrow> prefix \<Rightarrow> string \<Rightarrow> bool" where
  "safe_target cx st0 p prov \<longleftrightarrow>
     usable_path cx st0 p prov \<and> \<not> cfg_Excluded (cx_cfg cx) prov \<and> allowlisted (cx_cfg cx) p"

definition same_route :: "Improvement \<Rightarrow> Improvement \<Rightarrow> bool" where
  "same_route a b \<longleftrightarrow> imp_Prefix a = imp_Prefix b \<and> imp_Provider a = imp_Provider b \<and>
     imp_Native a = imp_Native b \<and> imp_Since a = imp_Since b"

text \<open>A switch waits out the hold time and goes to a safe provider other than the current and the native one.\<close>

definition switch_ok :: "ctx \<Rightarrow> State \<Rightarrow> Improvement \<Rightarrow> Improvement \<Rightarrow> bool" where
  "switch_ok cx st0 imp n \<longleftrightarrow>
     time_sub (cx_now cx) (imp_Since imp) \<ge> cfg_HoldTime (cx_cfg cx) \<and> imp_Since n = cx_now cx \<and>
     imp_Native n = imp_Native imp \<and> imp_Provider n \<noteq> imp_Native imp \<and> imp_Provider n \<noteq> imp_Provider imp \<and>
     safe_target cx st0 (imp_Prefix n) (imp_Provider n)"

text \<open>
  A new improvement is for a prefix of the RIB with a known native provider, never a default route
  and never a prefix under an ignore policy.
\<close>

definition steerable :: "ctx \<Rightarrow> prefix \<Rightarrow> string \<Rightarrow> bool" where
  "steerable cx p native \<longleftrightarrow>
     in_RIBEnabled (cx_in cx) \<and> in_Native (cx_in cx) p = Some native \<and> native \<noteq> [] \<and> Bits p \<noteq> 0 \<and>
     \<not> ignored (cx_in cx) p"

definition new_move_ok :: "ctx \<Rightarrow> State \<Rightarrow> Improvement \<Rightarrow> bool" where
  "new_move_ok cx st0 n \<longleftrightarrow>
     steerable cx (imp_Prefix n) (imp_Native n) \<and> imp_Since n = cx_now cx \<and> imp_Provider n \<noteq> imp_Native n \<and>
     safe_target cx st0 (imp_Prefix n) (imp_Provider n)"

text \<open>A prefix that is not steered, not parked and not cooling down.\<close>

definition free_prefix :: "steer \<Rightarrow> prefix \<Rightarrow> bool" where
  "free_prefix s p \<longleftrightarrow> fmlookup (a_imps s) p = None \<and> p \<notin> a_quar s \<and> fmlookup (a_cool s) p = None"

section \<open>The steps\<close>

inductive astep :: "ctx \<Rightarrow> State \<Rightarrow> prefix \<Rightarrow> steer \<Rightarrow> steer \<Rightarrow> bool" for cx st0 p where
  a_retire: "fmlookup (a_imps s) p = Some imp \<Longrightarrow> 
      K = a_cool s \<or> K = fmupd p (cx_now cx + cfg_HoldTime (cx_cfg cx)) (a_cool s) \<Longrightarrow>
    astep cx st0 p s (s\<lparr>a_imps := fmdrop p (a_imps s), a_cool := K,
      a_log := a_log s @ [\<lparr>ic_Action = ActionRetire, ic_Old = imp\<lparr>imp_Reason := rsn\<rparr>, ic_New = zeroImprovement\<rparr>]\<rparr>)"
| a_keep: "fmlookup (a_imps s) p = Some imp \<Longrightarrow> same_route imp imp' \<Longrightarrow>
    astep cx st0 p s (s\<lparr>a_imps := fmupd p imp' (a_imps s)\<rparr>)"
| a_switch: "fmlookup (a_imps s) p = Some imp \<Longrightarrow> imp_Prefix n = p \<Longrightarrow> switch_ok cx st0 imp n \<Longrightarrow>
    astep cx st0 p s (s\<lparr>a_imps := fmupd p n (a_imps s),
      a_log := a_log s @ [\<lparr>ic_Action = ActionSwitch, ic_Old = imp, ic_New = n\<rparr>]\<rparr>)"
| a_park: "fmlookup (a_imps s) p = None \<Longrightarrow> astep cx st0 p s (s\<lparr>a_quar := insert p (a_quar s)\<rparr>)"
| a_park_retire: "fmlookup (a_imps s) p = Some imp \<Longrightarrow>
    astep cx st0 p s (s\<lparr>a_quar := insert p (a_quar s), a_imps := fmdrop p (a_imps s),
      a_log := a_log s @ [\<lparr>ic_Action = ActionRetire, ic_Old = imp\<lparr>imp_Reason := rsn\<rparr>, ic_New = zeroImprovement\<rparr>]\<rparr>)"
| a_improve: "free_prefix s p \<Longrightarrow> imp_Prefix n = p \<Longrightarrow> new_move_ok cx st0 n \<Longrightarrow>
    astep cx st0 p s (s\<lparr>a_imps := fmupd p n (a_imps s),
      a_log := a_log s @ [\<lparr>ic_Action = ActionImprove, ic_Old = zeroImprovement, ic_New = n\<rparr>]\<rparr>)"

text \<open>Runs on one prefix, and runs of an evaluation.\<close>

abbreviation asteps :: "ctx \<Rightarrow> State \<Rightarrow> prefix \<Rightarrow> steer \<Rightarrow> steer \<Rightarrow> bool" where
  "asteps cx st0 p \<equiv> (astep cx st0 p)\<^sup>*\<^sup>*"

definition any_step :: "ctx \<Rightarrow> State \<Rightarrow> steer \<Rightarrow> steer \<Rightarrow> bool" where
  "any_step cx st0 s s' \<longleftrightarrow> (\<exists>p. astep cx st0 p s s')"

abbreviation runs :: "ctx \<Rightarrow> State \<Rightarrow> steer \<Rightarrow> steer \<Rightarrow> bool" where
  "runs cx st0 \<equiv> (any_step cx st0)\<^sup>*\<^sup>*"

inductive_cases astepE: "astep cx st0 p s s'"

lemma asteps_runs: "asteps cx st0 p s s' \<Longrightarrow> runs cx st0 s s'"
  by (erule rtranclp_mono [THEN predicate2D, rotated]) (auto simp: any_step_def)

section \<open>Invariants\<close>

locale steer_invariant =
  fixes cx :: ctx and st0 :: State and Inv :: "steer \<Rightarrow> bool"
  assumes step_keeps: "astep cx st0 p s s' \<Longrightarrow> Inv s \<Longrightarrow> Inv s'"
begin

lemma run_keeps: "runs cx st0 s s' \<Longrightarrow> Inv s \<Longrightarrow> Inv s'"
  by (induction rule: rtranclp_induct) (auto simp: any_step_def intro: step_keeps)

lemma prefix_run_keeps: "asteps cx st0 p s s' \<Longrightarrow> Inv s \<Longrightarrow> Inv s'"
  by (rule run_keeps [OF asteps_runs])

end

text \<open>Every improvement is stored under its own prefix.\<close>

definition keyed :: "(prefix, Improvement) fmap \<Rightarrow> bool" where
  "keyed m \<longleftrightarrow> (\<forall>p imp. fmlookup m p = Some imp \<longrightarrow> imp_Prefix imp = p)"

definition wf_steer :: "steer \<Rightarrow> bool" where
  "wf_steer s \<longleftrightarrow> keyed (a_imps s)"

lemma keyed_fmdrop: "keyed m \<Longrightarrow> keyed (fmdrop p m)"
  by (simp add: keyed_def)

lemma keyed_fmupd: "keyed m \<Longrightarrow> imp_Prefix imp = p \<Longrightarrow> keyed (fmupd p imp m)"
  by (simp add: keyed_def)

lemma keyedD: "keyed m \<Longrightarrow> fmlookup m p = Some imp \<Longrightarrow> imp_Prefix imp = p"
  by (simp add: keyed_def)

lemma keyed_same_route: "keyed m \<Longrightarrow> fmlookup m p = Some imp \<Longrightarrow> same_route imp imp' \<Longrightarrow> keyed (fmupd p imp' m)"
  by (simp add: keyed_fmupd keyedD same_route_def)

interpretation wf: steer_invariant cx st0 wf_steer for cx st0
  by unfold_locales
    (auto elim!: astepE simp: wf_steer_def intro: keyed_fmdrop keyed_fmupd keyed_same_route)

text \<open>No prefix is both parked and steered.\<close>

definition parked_apart :: "steer \<Rightarrow> bool" where
  "parked_apart s \<longleftrightarrow> (\<forall>p \<in> a_quar s. fmlookup (a_imps s) p = None)"

interpretation apart: steer_invariant cx st0 parked_apart for cx st0
  by unfold_locales (auto elim!: astepE simp: parked_apart_def free_prefix_def)

text \<open>No improvement points at the native provider.\<close>

definition off_native :: "steer \<Rightarrow> bool" where
  "off_native s \<longleftrightarrow> (\<forall>p imp. fmlookup (a_imps s) p = Some imp \<longrightarrow> imp_Provider imp \<noteq> imp_Native imp)"

interpretation off_native: steer_invariant cx st0 off_native for cx st0
  by unfold_locales (erule astepE; fastforce simp: off_native_def same_route_def switch_ok_def new_move_ok_def split: if_splits)

section \<open>Replaying the log\<close>

text \<open>The announcer's view: the provider of every steered prefix.\<close>

definition route_view :: "(prefix, Improvement) fmap \<Rightarrow> (prefix, string) fmap" where
  "route_view m = fmmap imp_Provider m"

definition apply_change :: "(prefix, string) fmap \<Rightarrow> ImpChange \<Rightarrow> (prefix, string) fmap" where
  "apply_change m ch =
     (if ic_Action ch = ActionRetire then fmdrop (imp_Prefix (ic_Old ch)) m
      else fmupd (imp_Prefix (ic_New ch)) (imp_Provider (ic_New ch)) m)"

definition replay :: "(prefix, string) fmap \<Rightarrow> ImpChange list \<Rightarrow> (prefix, string) fmap" where
  "replay m chs = foldl apply_change m chs"

lemma replay_append [simp]: "replay m (xs @ ys) = replay (replay m xs) ys"
  by (simp add: replay_def)

lemma replay_Nil [simp]: "replay m [] = m"
  by (simp add: replay_def)

lemma route_view_upd [simp]: "route_view (fmupd p imp m) = fmupd p (imp_Provider imp) (route_view m)"
  by (rule fmap_ext) (simp add: route_view_def)

lemma route_view_drop [simp]: "route_view (fmdrop p m) = fmdrop p (route_view m)"
  by (simp add: route_view_def)

lemma route_view_keep:
  "fmlookup m p = Some imp \<Longrightarrow> imp_Provider imp = prov \<Longrightarrow> fmupd p prov (route_view m) = route_view m"
  by (rule fmap_ext) (auto simp: route_view_def)

definition replays :: "(prefix, string) fmap \<Rightarrow> steer \<Rightarrow> bool" where
  "replays m0 s \<longleftrightarrow> wf_steer s \<and> replay m0 (a_log s) = route_view (a_imps s)"

lemma replay_step:
  assumes "astep cx st0 p s s'" and "replays m0 s"
  shows "replays m0 s'"
proof -
  have "wf_steer s'" using assms wf.step_keeps by (auto simp: replays_def)
  moreover have "replay m0 (a_log s') = route_view (a_imps s')"
    using assms
    by (cases rule: astep.cases)
      (auto simp: replays_def wf_steer_def replay_def apply_change_def same_route_def route_view_keep dest: keyedD)
  ultimately show ?thesis by (simp add: replays_def)
qed

interpretation log: steer_invariant cx st0 "replays m0" for cx st0 m0
  by unfold_locales (rule replay_step)

section \<open>The log\<close>

text \<open>What every change of a log says of the move it records.\<close>

definition change_ok :: "ctx \<Rightarrow> State \<Rightarrow> ImpChange \<Rightarrow> bool" where
  "change_ok cx st0 ch \<longleftrightarrow>
     (case ic_Action ch of
        ActionRetire \<Rightarrow> True
      | ActionSwitch \<Rightarrow> imp_Prefix (ic_Old ch) = imp_Prefix (ic_New ch) \<and> switch_ok cx st0 (ic_Old ch) (ic_New ch)
      | ActionImprove \<Rightarrow> new_move_ok cx st0 (ic_New ch)
      | _ \<Rightarrow> False)"

definition log_ok :: "ctx \<Rightarrow> State \<Rightarrow> steer \<Rightarrow> bool" where
  "log_ok cx st0 s \<longleftrightarrow> wf_steer s \<and> list_all (change_ok cx st0) (a_log s)"

lemma log_ok_step:
  assumes "astep cx st0 p s s'" and "log_ok cx st0 s"
  shows "log_ok cx st0 s'"
proof -
  have "wf_steer s'" using assms wf.step_keeps by (auto simp: log_ok_def)
  moreover have "list_all (change_ok cx st0) (a_log s')"
    using assms by (cases rule: astep.cases) (auto simp: log_ok_def change_ok_def wf_steer_def dest: keyedD)
  ultimately show ?thesis by (simp add: log_ok_def)
qed

interpretation logged: steer_invariant cx st0 "log_ok cx st0" for cx st0
  by unfold_locales (rule log_ok_step)

text \<open>
  A prefix that is cooling down or parked when the evaluation starts stays so, and gets no new
  improvement.
\<close>

definition waited_out :: "State \<Rightarrow> steer \<Rightarrow> bool" where
  "waited_out st0 s \<longleftrightarrow>
     fmdom' (s_Cooldown st0) \<subseteq> fmdom' (a_cool s) \<and> fmdom' (s_quarantine st0) \<subseteq> a_quar s \<and>
     (\<forall>ch \<in> set (a_log s). ic_Action ch = ActionImprove \<longrightarrow>
        imp_Prefix (ic_New ch) \<notin> fmdom' (s_Cooldown st0) \<and> imp_Prefix (ic_New ch) \<notin> fmdom' (s_quarantine st0))"

interpretation waited: steer_invariant cx st0 "waited_out st0" for cx st0
  by unfold_locales (erule astepE; fastforce simp: waited_out_def free_prefix_def fmdom'_iff)

text \<open>A prefix that cools down keeps its time and is not steered.\<close>

definition cooling :: "prefix \<Rightarrow> time \<Rightarrow> steer \<Rightarrow> bool" where
  "cooling p t s \<longleftrightarrow> fmlookup (a_imps s) p = None \<and> fmlookup (a_cool s) p = Some t"

interpretation cooling: steer_invariant cx st0 "cooling p t" for cx st0 p t
  by unfold_locales (erule astepE; auto simp: cooling_def free_prefix_def split: if_splits)

text \<open>A prefix found safe stays safe.\<close>

definition safe_at :: "ctx \<Rightarrow> State \<Rightarrow> prefix \<Rightarrow> steer \<Rightarrow> bool" where
  "safe_at cx st0 p s \<longleftrightarrow>
     (\<forall>imp. fmlookup (a_imps s) p = Some imp \<longrightarrow> safe_target cx st0 p (imp_Provider imp))"

interpretation safe: steer_invariant cx st0 "safe_at cx st0 p" for cx st0 p
  by unfold_locales (auto elim!: astepE simp: safe_at_def same_route_def switch_ok_def new_move_ok_def split: if_splits)

text \<open>A step on one prefix leaves the others alone.\<close>

lemma astep_other:
  assumes "astep cx st0 p s s'" and "q \<noteq> p"
  shows "fmlookup (a_imps s') q = fmlookup (a_imps s) q" "q \<in> a_quar s' \<longleftrightarrow> q \<in> a_quar s"
    "fmlookup (a_cool s') q = fmlookup (a_cool s) q"
  using assms by (auto elim!: astepE)

lemma asteps_other:
  assumes "asteps cx st0 p s s'" and "q \<noteq> p"
  shows "fmlookup (a_imps s') q = fmlookup (a_imps s) q \<and> (q \<in> a_quar s' \<longleftrightarrow> q \<in> a_quar s) \<and>
         fmlookup (a_cool s') q = fmlookup (a_cool s) q"
  using assms by (induction rule: rtranclp_induct) (auto simp: astep_other)

end
