(* ===== verification/Refine.thy ===== *)
theory Refine
  imports Steering
begin

text \<open>
  \<open>Decide\<close> refines the abstract machine of \<open>Steering\<close>: every operation of an evaluation is a run of
  \<open>astep\<close> on one prefix, or leaves the abstract state alone. This theory treats the branches of one
  prefix; \<open>Correct\<close> composes the phases.
\<close>

section \<open>What an operation leaves alone\<close>

definition natives :: "round \<Rightarrow> prefix \<Rightarrow> string option" where
  "natives rd p = map_option d_Native (fmlookup (rd_dec rd) p)"

record frame =
  fr_by :: "(prefix, Candidate list) fmap"
  fr_wants :: "pending list"
  fr_holds :: "commitHold list"
  fr_commitOK :: "(prefix, bool) fmap"
  fr_natives :: "prefix \<Rightarrow> string option"

definition frame_of :: "round \<Rightarrow> frame" where
  "frame_of rd = \<lparr>fr_by = rd_by rd, fr_wants = rd_wants rd, fr_holds = rd_holds rd, fr_commitOK = rd_commitOK rd,
     fr_natives = natives rd\<rparr>"

definition quiet :: "round \<Rightarrow> round \<Rightarrow> bool" where
  "quiet rd rd' \<longleftrightarrow> steer_of rd' = steer_of rd \<and> frame_of rd' = frame_of rd"

lemma natives_upd_dec:
  "(\<And>d. d_Native (f d) = d_Native d) \<Longrightarrow> natives (upd_dec p f rd) = natives rd"
  by (rule ext) (simp add: natives_def upd_dec_def split: option.split)

lemma steer_of_upd_dec [simp]: "steer_of (upd_dec p f rd) = steer_of rd"
  by (simp add: steer_of_def upd_dec_def improvements_def changes_def split: option.split)

lemma upd_dec_fields [simp]:
  "rd_by (upd_dec p f rd) = rd_by rd" "rd_wants (upd_dec p f rd) = rd_wants rd"
  "rd_holds (upd_dec p f rd) = rd_holds rd" "rd_commitOK (upd_dec p f rd) = rd_commitOK rd"
  "rd_gate (upd_dec p f rd) = rd_gate rd" "rd_st (upd_dec p f rd) = rd_st rd"
  by (simp_all add: upd_dec_def split: option.split)

lemma frame_of_upd_dec:
  "(\<And>d. d_Native (f d) = d_Native d) \<Longrightarrow> frame_of (upd_dec p f rd) = frame_of rd"
  by (simp add: frame_of_def natives_upd_dec)

lemmas dec_defs = setDecision_def retiredDecision_def noteReason_def keep_def recommend_def set_cause_def
  note_move_def

lemma dec_steer [simp]:
  "steer_of (setDecision p a rsn cur rec cs rd) = steer_of rd"
  "steer_of (retiredDecision p rsn cur rd) = steer_of rd"
  "steer_of (noteReason p rsn rd) = steer_of rd" "steer_of (keep p rsn rd) = steer_of rd"
  "steer_of (recommend p prov rd) = steer_of rd" "steer_of (set_cause p cs rd) = steer_of rd"
  "steer_of (note_move p mv rsn rd) = steer_of rd"
  by (simp_all add: dec_defs)

lemma dec_frame [simp]:
  "frame_of (setDecision p a rsn cur rec cs rd) = frame_of rd"
  "frame_of (retiredDecision p rsn cur rd) = frame_of rd"
  "frame_of (noteReason p rsn rd) = frame_of rd" "frame_of (keep p rsn rd) = frame_of rd"
  "frame_of (recommend p prov rd) = frame_of rd" "frame_of (set_cause p cs rd) = frame_of rd"
  "frame_of (note_move p mv rsn rd) = frame_of rd"
  by (simp_all add: dec_defs frame_of_upd_dec)

lemma dec_state [simp]:
  "rd_st (setDecision p a rsn cur rec cs rd) = rd_st rd"
  "rd_st (retiredDecision p rsn cur rd) = rd_st rd"
  "rd_st (noteReason p rsn rd) = rd_st rd" "rd_st (keep p rsn rd) = rd_st rd"
  "rd_st (recommend p prov rd) = rd_st rd" "rd_st (set_cause p cs rd) = rd_st rd"
  "rd_st (note_move p mv rsn rd) = rd_st rd"
  by (simp_all add: dec_defs)

lemma frame_of_simps [simp]:
  "frame_of (upd_st f rd) = frame_of rd" "frame_of (put_imp p imp rd) = frame_of rd"
  "frame_of (add_change a old new rd) = frame_of rd" "frame_of (add_overload note rd) = frame_of rd"
  "frame_of (rd\<lparr>rd_gate := g\<rparr>) = frame_of rd" "frame_of (rd\<lparr>rd_st := st\<rparr>) = frame_of rd"
  "frame_of (rd\<lparr>rd_st := st, rd_out := out\<rparr>) = frame_of rd"
  by (simp_all add: frame_of_def natives_def fun_eq_iff upd_st_def put_imp_def add_change_def add_overload_def)

lemma steer_of_simps [simp]:
  "steer_of (add_overload note rd) = steer_of rd" "steer_of (rd\<lparr>rd_gate := g\<rparr>) = steer_of rd"
  "steer_of (rd\<lparr>rd_wants := ws\<rparr>) = steer_of rd" "steer_of (rd\<lparr>rd_holds := hs\<rparr>) = steer_of rd"
  "steer_of (rd\<lparr>rd_commitOK := ok\<rparr>) = steer_of rd" "steer_of (rd\<lparr>rd_by := by0\<rparr>) = steer_of rd"
  "steer_of (upd_st (drop_confirm p) rd) = steer_of rd"
  "steer_of (upd_st (clearConfirmProbe p) rd) = steer_of rd"
  by (simp_all add: steer_of_def improvements_def changes_def add_overload_def upd_st_def)

lemma steer_of_put_imp [simp]:
  "steer_of (put_imp p imp rd) = (steer_of rd)\<lparr>a_imps := fmupd p imp (a_imps (steer_of rd))\<rparr>"
  by (simp add: steer_of_def improvements_def changes_def put_imp_def upd_st_def)

lemma steer_of_add_change [simp]:
  "steer_of (add_change a old new rd) =
     (steer_of rd)\<lparr>a_log := a_log (steer_of rd) @ [\<lparr>ic_Action = a, ic_Old = old, ic_New = new\<rparr>]\<rparr>"
  by (simp add: steer_of_def improvements_def changes_def add_change_def)

lemma steer_of_retire:
  "steer_of (cx_retire cx p rsn cool rd) =
     (steer_of rd)\<lparr>a_imps := fmdrop p (a_imps (steer_of rd)),
       a_cool := (if cool \<and> cfg_HoldTime (cx_cfg cx) > 0 
                  then fmupd p (cx_now cx + cfg_HoldTime (cx_cfg cx)) (a_cool (steer_of rd)) else a_cool (steer_of rd)),
       a_log := a_log (steer_of rd) @ [\<lparr>ic_Action = ActionRetire,
         ic_Old = (fmget zeroImprovement (a_imps (steer_of rd)) p)\<lparr>imp_Reason := rsn\<rparr>, ic_New = zeroImprovement\<rparr>]\<rparr>"
  by (simp add: cx_retire_def steer_of_def retire_def Let_def improvements_def changes_def upd_st_def add_change_def)

lemma frame_of_retire [simp]: "frame_of (cx_retire cx p rsn cool rd) = frame_of rd"
  by (simp add: cx_retire_def retire_def Let_def)

text \<open>The flap quarantine and the streaks.\<close>

lemma flap_check_quiet [simp]:
  "steer_of (fst (flap_check cx p rd)) = steer_of rd" "frame_of (fst (flap_check cx p rd)) = frame_of rd"
  by (simp_all add: flap_check_def split_beta) (simp add: steer_of_def improvements_def changes_def)

lemma note_flip_quiet [simp]:
  "steer_of (note_flip cx p rd) = steer_of rd" "frame_of (note_flip cx p rd) = frame_of rd"
  by (simp_all add: note_flip_def) (simp add: steer_of_def improvements_def changes_def upd_st_def)

lemma note_performance_quiet [simp]:
  "steer_of (fst (note_performance cx p prov rd)) = steer_of rd"
  "frame_of (fst (note_performance cx p prov rd)) = frame_of rd"
  by (simp_all add: note_performance_def split_beta) (simp add: steer_of_def improvements_def changes_def)

lemma lose_streak_quiet [simp]:
  "steer_of (lose_streak cx p rd) = steer_of rd" "frame_of (lose_streak cx p rd) = frame_of rd"
  by (simp_all add: lose_streak_def)

lemma steer_of_park [simp]:
  "steer_of (fst (park cx p rd)) = (steer_of rd)\<lparr>a_quar := insert p (a_quar (steer_of rd))\<rparr>"
  "frame_of (fst (park cx p rd)) = frame_of rd"
  by (simp_all add: park_def split_beta) (simp add: steer_of_def improvements_def changes_def)

lemma steer_of_perf_switch [simp]:
  "steer_of (perf_switch cx imp n rd) =
     (steer_of rd)\<lparr>a_imps := fmupd (imp_Prefix n) n (a_imps (steer_of rd)),
       a_log := a_log (steer_of rd) @ [\<lparr>ic_Action = ActionSwitch, ic_Old = imp, ic_New = n\<rparr>]\<rparr>"
  "frame_of (perf_switch cx imp n rd) = frame_of rd"
  by (simp_all add: perf_switch_def Let_def)

lemma mkImprovement_simps [simp]:
  "imp_Prefix (mkImprovement p prov nat0 since rsn cs) = p"
  "imp_Provider (mkImprovement p prov nat0 since rsn cs) = prov"
  "imp_Native (mkImprovement p prov nat0 since rsn cs) = nat0"
  "imp_Since (mkImprovement p prov nat0 since rsn cs) = since"
  "imp_Cause (mkImprovement p prov nat0 since rsn cs) = cs"
  "imp_Reason (mkImprovement p prov nat0 since rsn cs) = rsn"
  by (simp_all add: mkImprovement_def)

section \<open>Single operations as steps\<close>

lemma retire_step:
  assumes "fmlookup (a_imps (steer_of rd)) p = Some imp"
  shows "astep cx st0 p (steer_of rd) (steer_of (cx_retire cx p rsn cool rd))"
  using a_retire [OF assms, of _ cx st0 rsn] assms by (auto simp: steer_of_retire fmget_Some)

lemma park_retire_step:
  assumes "fmlookup (a_imps (steer_of rd)) p = Some imp"
  shows "astep cx st0 p (steer_of rd) (steer_of (cx_retire cx p rsn False (fst (park cx p rd))))"
  using a_park_retire [OF assms, of cx st0 rsn] assms by (simp add: steer_of_retire fmget_Some)

lemma retire_asteps:
  "fmlookup (a_imps (steer_of rd)) p = Some imp \<Longrightarrow>
     asteps cx st0 p (steer_of rd) (steer_of (cx_retire cx p rsn cool rd))"
  by (rule r_into_rtranclp, rule retire_step)

lemma not_steered_after_retire [simp]:
  "fmlookup (a_imps (steer_of (cx_retire cx p rsn cool rd))) p = None"
  by (simp add: steer_of_retire)

lemma safe_at_none: "fmlookup (a_imps s) p = None \<Longrightarrow> safe_at cx st0 p s"
  by (simp add: safe_at_def)

section \<open>Candidates\<close>

definition cands_ok :: "ctx \<Rightarrow> State \<Rightarrow> prefix \<Rightarrow> Candidate list \<Rightarrow> bool" where
  "cands_ok cx st0 p cands \<longleftrightarrow> (\<forall>c \<in> set cands. c_Usable c \<longrightarrow> usable_path cx st0 p (c_Provider c))"

lemma cands_okD: "cands_ok cx st0 p cands \<Longrightarrow> usableCand cands prov = Some c \<Longrightarrow> usable_path cx st0 p prov"
  by (auto simp: cands_ok_def dest: usableCand_Some)

lemma switch_alt_Some:
  assumes "switch_alt cx cands native = Some alt" and "cands_ok cx st0 p cands"
  shows "usable_path cx st0 p (c_Provider alt)" "\<not> cfg_Excluded (cx_cfg cx) (c_Provider alt)"
    "c_Provider alt \<noteq> native"
proof -
  from assms(1) consider (best) "bestCandidate cands (cfg_Excluded (cx_cfg cx)) native = Some alt"
    | (med) b where "medPreferred cands b (cx_cfg cx) native native = Some alt"
    by (auto simp: switch_alt_def split: option.splits)
  then have "alt \<in> set cands \<and> c_Usable alt \<and> \<not> cfg_Excluded (cx_cfg cx) (c_Provider alt) \<and> c_Provider alt \<noteq> native"
    by cases (auto dest: bestCandidate_Some medPreferred_Some)
  with assms(2) show "usable_path cx st0 p (c_Provider alt)" "\<not> cfg_Excluded (cx_cfg cx) (c_Provider alt)"
    "c_Provider alt \<noteq> native"
    by (auto simp: cands_ok_def)
qed

lemma perf_choice_Inr:
  assumes "perf_choice cx cands native natC = Inr alt" and "cands_ok cx st0 p cands"
  shows "usable_path cx st0 p (c_Provider alt)" "\<not> cfg_Excluded (cx_cfg cx) (c_Provider alt)"
    "c_Provider alt \<noteq> native"
proof -
  from assms(1) consider (best) "bestCandidate cands (cfg_Excluded (cx_cfg cx)) native = Some alt"
    | (med) b where "medPreferred cands b (cx_cfg cx) native [] = Some alt" "c_Provider alt \<noteq> native"
    by (auto simp: perf_choice_def Let_def split: option.splits if_splits)
  then have "alt \<in> set cands \<and> c_Usable alt \<and> \<not> cfg_Excluded (cx_cfg cx) (c_Provider alt) \<and> c_Provider alt \<noteq> native"
    by cases (auto dest: bestCandidate_Some medPreferred_Some)
  with assms(2) show "usable_path cx st0 p (c_Provider alt)" "\<not> cfg_Excluded (cx_cfg cx) (c_Provider alt)"
    "c_Provider alt \<noteq> native"
    by (auto simp: cands_ok_def)
qed

lemma inFloorOf_usable: "inFloorOf cands cfg cp prov \<Longrightarrow> \<exists>c. usableCand cands prov = Some c"
  by (auto simp: inFloorOf_def inFloor_def split: option.splits)

lemma moveAllowed_target:
  assumes "moveAllowed mv cands (cx_cfg cx) allowLoss cp native leaving" and "cands_ok cx st0 p cands"
  shows "usable_path cx st0 p (mv_Provider mv)" "\<not> cfg_Excluded (cx_cfg cx) (mv_Provider mv)"
    "mv_Provider mv \<noteq> native"
proof -
  have "\<exists>c. usableCand cands (mv_Provider mv) = Some c"
    using assms(1) by (auto simp: moveAllowed_def dest: inFloorOf_usable split: if_splits option.splits)
  then show "usable_path cx st0 p (mv_Provider mv)" using assms(2) by (auto dest: cands_okD)
  show "\<not> cfg_Excluded (cx_cfg cx) (mv_Provider mv)" "mv_Provider mv \<noteq> native"
    using assms(1) by (auto simp: moveAllowed_def split: if_splits)
qed

lemma fail_closed_None:
  assumes "fail_closed cx p cands imp = None" and "cands_ok cx st0 p cands"
  shows "safe_target cx st0 p (imp_Provider imp)"
  using assms(1) cands_okD [OF assms(2)]
  by (auto simp: fail_closed_def Let_def safe_target_def allowlisted_def split: if_splits)

section \<open>A prefix with an active improvement\<close>

text \<open>
  The outcome of an operation on a prefix: a run of the abstract machine on that prefix which ends
  safe, and nothing else but the operators' decision changed.
\<close>

definition on_prefix :: "ctx \<Rightarrow> State \<Rightarrow> prefix \<Rightarrow> round \<Rightarrow> round \<Rightarrow> bool" where
  "on_prefix cx st0 p rd rd' \<longleftrightarrow>
     asteps cx st0 p (steer_of rd) (steer_of rd') \<and> safe_at cx st0 p (steer_of rd') \<and> frame_of rd' = frame_of rd"

lemma on_prefix_quiet:
  "quiet rd rd' \<Longrightarrow> safe_at cx st0 p (steer_of rd) \<Longrightarrow> on_prefix cx st0 p rd rd'"
  by (simp add: on_prefix_def quiet_def)

lemma on_prefix_retire:
  assumes "fmlookup (a_imps (steer_of rd)) p = Some imp"
    and "steer_of rd' = steer_of (cx_retire cx p rsn cool rd)" and "frame_of rd' = frame_of rd"
  shows "on_prefix cx st0 p rd rd'"
  using retire_asteps [OF assms(1)] assms(2,3) by (simp add: on_prefix_def safe_at_none)

lemma on_prefix_switch:
  assumes "fmlookup (a_imps (steer_of rd)) p = Some imp" and "imp_Prefix n = p" and "switch_ok cx st0 imp n"
    and "steer_of rd' = (steer_of rd)\<lparr>a_imps := fmupd p n (a_imps (steer_of rd)),
           a_log := a_log (steer_of rd) @ [\<lparr>ic_Action = ActionSwitch, ic_Old = imp, ic_New = n\<rparr>]\<rparr>"
    and "frame_of rd' = frame_of rd"
  shows "on_prefix cx st0 p rd rd'"
proof -
  have "astep cx st0 p (steer_of rd) (steer_of rd')" using a_switch [OF assms(1-3)] assms(4) by simp
  moreover have "safe_at cx st0 p (steer_of rd')"
    using assms(2-4) by (auto simp: safe_at_def switch_ok_def)
  ultimately show ?thesis using assms(5) by (simp add: on_prefix_def r_into_rtranclp)
qed

lemma on_prefix_park_retire:
  assumes "fmlookup (a_imps (steer_of rd)) p = Some imp"
    and "steer_of rd' = steer_of (cx_retire cx p rsn False (fst (park cx p rd)))" and "frame_of rd' = frame_of rd"
  shows "on_prefix cx st0 p rd rd'"
  using park_retire_step [OF assms(1)] assms(2,3) by (auto simp: on_prefix_def safe_at_none)

lemma on_prefix_quiet_left:
  "quiet rd0 rd \<Longrightarrow> on_prefix cx st0 p rd rd' \<Longrightarrow> on_prefix cx st0 p rd0 rd'"
  by (simp add: on_prefix_def quiet_def)

lemma on_prefix_put:
  assumes "fmlookup (a_imps (steer_of rd)) p = Some imp" and "same_route imp imp'"
    and "safe_target cx st0 p (imp_Provider imp')"
    and "steer_of rd' = (steer_of rd)\<lparr>a_imps := fmupd p imp' (a_imps (steer_of rd))\<rparr>"
    and "frame_of rd' = frame_of rd"
  shows "on_prefix cx st0 p rd rd'"
  using a_keep [OF assms(1,2), of cx st0] assms(3-5) by (auto simp: on_prefix_def safe_at_def)

lemma active_static_on_prefix:
  assumes imp: "fmlookup (a_imps (steer_of rd)) p = Some imp" and wf: "imp_Prefix imp = p"
    and ok: "cands_ok cx st0 p cands" and safe: "safe_target cx st0 p (imp_Provider imp)"
  shows "on_prefix cx st0 p rd (active_static cx p cands imp v static rd)"
proof (cases "static = imp_Native imp")
  case True
  then show ?thesis by (auto simp: active_static_def Let_def intro!: on_prefix_retire [OF imp])
next
  case off: False
  show ?thesis
  proof (cases "usableCand cands static")
    case None
    then show ?thesis using off by (auto simp: active_static_def Let_def intro!: on_prefix_retire [OF imp])
  next
    case (Some pin)
    note u = cands_okD [OF ok Some]
    consider (retire) "cfg_Excluded (cx_cfg cx) static \<or> pinFault pin cands (imp_Native imp) v (cx_cfg cx) \<noteq> NoFault"
      | (relabel) "\<not> cfg_Excluded (cx_cfg cx) static" "pinFault pin cands (imp_Native imp) v (cx_cfg cx) = NoFault"
          "imp_Provider imp = static"
      | (go) "\<not> cfg_Excluded (cx_cfg cx) static" "pinFault pin cands (imp_Native imp) v (cx_cfg cx) = NoFault"
          "imp_Provider imp \<noteq> static" "\<not> time_sub (cx_now cx) (imp_Since imp) < cfg_HoldTime (cx_cfg cx)"
      | (held) "\<not> cfg_Excluded (cx_cfg cx) static" "pinFault pin cands (imp_Native imp) v (cx_cfg cx) = NoFault"
          "imp_Provider imp \<noteq> static" "time_sub (cx_now cx) (imp_Since imp) < cfg_HoldTime (cx_cfg cx)"
      by blast
    then show ?thesis
    proof cases
      case retire
      then show ?thesis using off Some by (auto simp: active_static_def Let_def intro!: on_prefix_retire [OF imp])
    next
      case relabel
      then show ?thesis using off Some safe
        by (intro on_prefix_put [OF imp, of "imp\<lparr>imp_Cause := CauseStatic, imp_Reason := RStaticPin (pv_Rule v)\<rparr>"])
          (auto simp: active_static_def Let_def same_route_def)
    next
      case go
      then have "safe_target cx st0 p static" using u safe by (simp add: safe_target_def)
      with go show ?thesis using off Some
        by (intro on_prefix_switch [OF imp]) (auto simp: active_static_def Let_def switch_ok_def)
    next
      case held
      have "safe_at cx st0 p (steer_of rd)" using imp safe by (simp add: safe_at_def)
      with held show ?thesis using off Some
        by (intro on_prefix_quiet) (auto simp: active_static_def Let_def quiet_def)
    qed
  qed
qed

lemma flip_back_on_prefix:
  assumes imp: "fmlookup (a_imps (steer_of rd)) p = Some imp" and safe: "safe_target cx st0 p (imp_Provider imp)"
  shows "on_prefix cx st0 p rd (flip_back cx p imp held rd)"
proof (cases held)
  case True
  then show ?thesis using imp safe
    by (auto simp: flip_back_def Let_def quiet_def safe_at_def intro!: on_prefix_quiet)
next
  case False
  let ?rd1 = "cx_retire cx p RNativeBetter True (upd_st (drop_confirm p) rd)"
  let ?rd2 = "fst (flap_check cx p ?rd1)"
  have r: "astep cx st0 p (steer_of rd) (steer_of ?rd2)"
    using retire_step [of "upd_st (drop_confirm p) rd" p imp] imp by simp
  have none: "fmlookup (a_imps (steer_of ?rd2)) p = None" by simp
  show ?thesis
  proof (cases "snd (flap_check cx p ?rd1)")
    case True
    then have "steer_of (flip_back cx p imp held rd) = steer_of (fst (park cx p ?rd2))"
      using False by (simp add: flip_back_def Let_def split_beta)
    moreover have "astep cx st0 p (steer_of ?rd2) (steer_of (fst (park cx p ?rd2)))"
      unfolding steer_of_park by (rule a_park) simp
    moreover have "frame_of (flip_back cx p imp held rd) = frame_of rd"
      using False by (simp add: flip_back_def Let_def split_beta)
    ultimately show ?thesis using r none
      by (auto simp: on_prefix_def safe_at_def intro: rtranclp.rtrancl_into_rtrancl)
  next
    case keep: False
    then show ?thesis using False r none
      by (auto simp: flip_back_def Let_def split_beta on_prefix_def safe_at_none)
  qed
qed

lemma active_switch_on_prefix:
  assumes imp: "fmlookup (a_imps (steer_of rd)) p = Some imp"
    and safe: "safe_target cx st0 p (imp_Provider imp)"
    and alt: "switch_alt cx cands (imp_Native imp) = Some alt" "cands_ok cx st0 p cands"
    and new: "c_Provider alt \<noteq> imp_Provider imp"
    and held: "held = (time_sub (cx_now cx) (imp_Since imp) < cfg_HoldTime (cx_cfg cx))"
  shows "on_prefix cx st0 p rd (active_switch cx p cands imp cur alt held rd)"
proof -
  let ?np = "note_performance cx p (c_Provider alt) rd"
  let ?rd1 = "fst ?np"
  let ?rd2 = "fst (flap_check cx p ?rd1)"
  note alt_ok = switch_alt_Some [OF alt]
  have s: "safe_at cx st0 p (steer_of rd)" using imp safe by (simp add: safe_at_def)
  have imp2: "fmlookup (a_imps (steer_of ?rd2)) p = Some imp" using imp by simp
  consider (q) "\<not> fst (snd ?np) \<or> held \<or> refuse (rd_gate ?rd1) (c_Provider alt) p \<noteq> None"
    | (park) "fst (snd ?np)" "\<not> held" "refuse (rd_gate ?rd1) (c_Provider alt) p = None" "snd (flap_check cx p ?rd1)"
    | (go) "fst (snd ?np)" "\<not> held" "refuse (rd_gate ?rd1) (c_Provider alt) p = None" "\<not> snd (flap_check cx p ?rd1)"
    by blast
  then show ?thesis
  proof cases
    case q
    then have "quiet rd (active_switch cx p cands imp cur alt held rd)"
      by (auto simp: active_switch_def split_beta Let_def quiet_def split: option.splits)
    then show ?thesis using s by (rule on_prefix_quiet)
  next
    case park
    then show ?thesis
      by (intro on_prefix_quiet_left [of rd ?rd2] on_prefix_park_retire [OF imp2])
        (auto simp: active_switch_def split_beta Let_def quiet_def)
  next
    case go
    then show ?thesis using alt_ok new held safe
      by (intro on_prefix_switch [OF imp]) (auto simp: active_switch_def split_beta Let_def switch_ok_def safe_target_def frame_of_upd_dec)
  qed
qed

lemma active_perf_on_prefix:
  assumes imp: "fmlookup (a_imps (steer_of rd)) p = Some imp"
    and safe: "safe_target cx st0 p (imp_Provider imp)" and ok: "cands_ok cx st0 p cands"
  shows "on_prefix cx st0 p rd (active_perf cx p cands imp cur rd)"
proof -
  have s: "safe_at cx st0 p (steer_of rd)" using imp safe by (simp add: safe_at_def)
  show ?thesis
    using flip_back_on_prefix [OF imp safe] s active_switch_on_prefix [OF imp safe _ ok _ refl]
    by (auto simp: active_perf_def Let_def quiet_def intro!: on_prefix_quiet split: option.split)
qed

text \<open>A held steer is queued for the planner and nothing else changes.\<close>

definition hold_of :: "ctx \<Rightarrow> Improvement \<Rightarrow> commitHold" where
  "hold_of cx imp = \<lparr>ch_imp = imp, ch_held = (time_sub (cx_now cx) (imp_Since imp) < cfg_HoldTime (cx_cfg cx))\<rparr>"

lemma active_checked_cases:
  assumes imp: "fmlookup (a_imps (steer_of rd)) p = Some imp" and wf: "imp_Prefix imp = p"
    and ok: "cands_ok cx st0 p cands"
  shows "on_prefix cx st0 p rd (active_checked cx p cands imp rd) \<or>
    active_checked cx p cands imp rd = rd\<lparr>rd_holds := rd_holds rd @ [hold_of cx imp]\<rparr> \<and>
    safe_target cx st0 p (imp_Provider imp)"
proof (cases "fail_closed cx p cands imp")
  case (Some x)
  obtain rsn cool drsn where x: "x = (rsn, cool, drsn)" by (cases x)
  have "on_prefix cx st0 p rd (active_checked cx p cands imp rd)"
    by (rule on_prefix_retire [OF imp]) (simp_all add: active_checked_def Some x Let_def)
  then show ?thesis ..
next
  case None
  note safe = fail_closed_None [OF None ok]
  obtain cur where cur: "usableCand cands (imp_Provider imp) = Some cur"
    using None by (auto simp: fail_closed_def Let_def split: if_splits)
  note defs = active_checked_def None cur Let_def
  consider (static) v static where "static_of (cx_in cx) p = Some (v, static)"
    | (retire) "static_of (cx_in cx) p = None" "imp_Cause imp = CauseStatic"
    | (cc) "static_of (cx_in cx) p = None" "imp_Cause imp = CauseCommit" "ccDisabled (cx_cfg cx) (imp_Provider imp)"
    | (hold) "static_of (cx_in cx) p = None" "planned (imp_Cause imp)" "imp_Cause imp \<noteq> CauseStatic"
        "\<not> (imp_Cause imp = CauseCommit \<and> ccDisabled (cx_cfg cx) (imp_Provider imp))"
    | (perf) "static_of (cx_in cx) p = None" "\<not> planned (imp_Cause imp)" "imp_Cause imp \<noteq> CauseStatic"
    by (cases "static_of (cx_in cx) p") auto
  then show ?thesis
  proof cases
    case static
    then show ?thesis using active_static_on_prefix [OF imp wf ok safe] by (simp add: defs)
  next
    case retire
    then have "on_prefix cx st0 p rd (active_checked cx p cands imp rd)"
      by (intro on_prefix_retire [OF imp]) (auto simp: defs)
    then show ?thesis ..
  next
    case cc
    then have "on_prefix cx st0 p rd (active_checked cx p cands imp rd)"
      by (intro on_prefix_retire [OF imp]) (auto simp: defs)
    then show ?thesis ..
  next
    case hold
    then show ?thesis using safe by (auto simp: defs hold_of_def)
  next
    case perf
    then show ?thesis using active_perf_on_prefix [OF imp safe ok] by (simp add: defs)
  qed
qed

text \<open>The frame without the native providers of the decisions, which the branches of a prefix set.\<close>

definition same_but :: "prefix \<Rightarrow> round \<Rightarrow> round \<Rightarrow> bool" where
  "same_but p rd rd' \<longleftrightarrow> rd_by rd' = rd_by rd \<and> rd_wants rd' = rd_wants rd \<and> rd_holds rd' = rd_holds rd \<and>
     rd_commitOK rd' = rd_commitOK rd \<and> (\<forall>q. q \<noteq> p \<longrightarrow> natives rd' q = natives rd q)"

lemma frame_of_same_but: "frame_of rd' = frame_of rd \<Longrightarrow> same_but p rd rd'"
  by (simp add: same_but_def frame_of_def)

lemma frame_ofD:
  assumes "frame_of rd' = frame_of rd"
  shows "rd_by rd' = rd_by rd" "rd_wants rd' = rd_wants rd" "rd_holds rd' = rd_holds rd"
    "rd_commitOK rd' = rd_commitOK rd" "natives rd' = natives rd"
  using assms by (simp_all add: frame_of_def)

lemma natives_upd_dec_other: "q \<noteq> p \<Longrightarrow> natives (upd_dec p f rd) q = natives rd q"
  by (simp add: natives_def upd_dec_def split: option.split)

lemma rib_check_Inr: "rib_check cx p imp imps = Inr imp' \<Longrightarrow> same_route imp imp'"
  by (auto simp: rib_check_def same_route_def Let_def split: if_splits option.splits)

text \<open>The outcome of the active branch: a run on the prefix that ends safe, with at most one new hold.\<close>

definition active_outcome :: "ctx \<Rightarrow> State \<Rightarrow> prefix \<Rightarrow> round \<Rightarrow> round \<Rightarrow> bool" where
  "active_outcome cx st0 p rd rd' \<longleftrightarrow>
     asteps cx st0 p (steer_of rd) (steer_of rd') \<and> safe_at cx st0 p (steer_of rd') \<and>
     (same_but p rd rd' \<or>
      (\<exists>imp. same_but p rd (rd'\<lparr>rd_holds := rd_holds rd\<rparr>) \<and> rd_holds rd' = rd_holds rd @ [hold_of cx imp] \<and>
         imp_Prefix imp = p \<and> fmlookup (a_imps (steer_of rd')) p = Some imp))"

lemma active_outcome_left:
  assumes "steer_of rd = steer_of rd0" and "same_but p rd0 rd" and "active_outcome cx st0 p rd rd'"
  shows "active_outcome cx st0 p rd0 rd'"
  using assms unfolding active_outcome_def same_but_def natives_def by fastforce

lemma active_outcome_retire:
  assumes "fmlookup (a_imps (steer_of rd)) p = Some imp"
    and "steer_of rd' = steer_of (cx_retire cx p rsn cool rd)" and "frame_of rd' = frame_of rd"
  shows "active_outcome cx st0 p rd rd'"
  using retire_asteps [OF assms(1), of cx st0 rsn cool] assms(2,3)
  by (simp add: active_outcome_def safe_at_none frame_of_same_but)

lemma active_outcome_checked:
  assumes imp: "fmlookup (a_imps (steer_of rd)) p = Some imp" "imp_Prefix imp = p"
    and ok: "cands_ok cx st0 p cands"
    and rd1: "steer_of rd1 = (steer_of rd)\<lparr>a_imps := fmupd p imp' (a_imps (steer_of rd))\<rparr>"
      "frame_of rd1 = frame_of rd" and same: "same_route imp imp'"
  shows "active_outcome cx st0 p rd (active_checked cx p cands imp' rd1)"
proof -
  have k: "astep cx st0 p (steer_of rd) (steer_of rd1)" unfolding rd1 by (rule a_keep [OF imp(1) same])
  have imp': "fmlookup (a_imps (steer_of rd1)) p = Some imp'" "imp_Prefix imp' = p"
    using rd1 same imp by (simp_all add: same_route_def)
  from active_checked_cases [OF imp' ok] show ?thesis
  proof (elim disjE conjE)
    assume "on_prefix cx st0 p rd1 (active_checked cx p cands imp' rd1)"
    then show ?thesis using k rd1
      by (auto simp: active_outcome_def on_prefix_def frame_of_same_but intro: converse_rtranclp_into_rtranclp)
  next
    assume h: "active_checked cx p cands imp' rd1 = rd1\<lparr>rd_holds := rd_holds rd1 @ [hold_of cx imp']\<rparr>"
      and safe: "safe_target cx st0 p (imp_Provider imp')"
    have "same_but p rd (rd1\<lparr>rd_holds := rd_holds rd\<rparr>)" "rd_holds rd1 = rd_holds rd"
      using frame_ofD [OF rd1(2)] by (simp_all add: same_but_def natives_def fun_eq_iff)
    then show ?thesis using k h safe imp'
      by (auto simp: active_outcome_def safe_at_def)
  qed
qed

lemma active_branch_outcome:
  assumes imp: "fmlookup (a_imps (steer_of rd0)) p = Some imp" "imp_Prefix imp = p"
    and ok: "cands_ok cx st0 p cands"
  shows "active_outcome cx st0 p rd0 (active_branch cx p cands imp rd0)"
proof -
  let ?rd = "upd_dec p (\<lambda>d. d\<lparr>d_Native := imp_Native imp, d_Current := imp_Provider imp\<rparr>) rd0"
  have imp1: "fmlookup (a_imps (steer_of ?rd)) p = Some imp" using imp by simp
  have id: "fmupd p imp (a_imps (steer_of rd0)) = a_imps (steer_of rd0)"
    by (rule fmap_ext) (auto simp: imp(1))
  note defs = active_branch_def Let_def
  consider (ignored) "ignored (cx_in cx) p"
    | (gone) rsn where "\<not> ignored (cx_in cx) p" "in_RIBEnabled (cx_in cx)"
        "rib_check cx p imp (improvements ?rd) = Inl rsn"
    | (seen) imp' where "\<not> ignored (cx_in cx) p" "in_RIBEnabled (cx_in cx)"
        "rib_check cx p imp (improvements ?rd) = Inr imp'"
    | (off) "\<not> ignored (cx_in cx) p" "\<not> in_RIBEnabled (cx_in cx)"
    by (cases "rib_check cx p imp (improvements ?rd)") auto
  then have "active_outcome cx st0 p ?rd (active_branch cx p cands imp rd0)"
  proof cases
    case ignored
    then show ?thesis by (intro active_outcome_retire [OF imp1]) (simp_all add: defs)
  next
    case gone
    then show ?thesis by (intro active_outcome_retire [OF imp1]) (simp_all add: defs)
  next
    case seen
    then show ?thesis
      using active_outcome_checked [OF imp1 imp(2) ok, of "put_imp p imp' ?rd" imp'] rib_check_Inr [OF seen(3)]
      by (simp add: defs)
  next
    case off
    then show ?thesis
      using active_outcome_checked [OF imp1 imp(2) ok, of ?rd imp] id by (simp add: defs same_route_def)
  qed
  then show ?thesis
    by (rule active_outcome_left [rotated 2]) (simp_all add: same_but_def natives_upd_dec_other)
qed

section \<open>A prefix on its native path\<close>

definition open_prefix :: "ctx \<Rightarrow> steer \<Rightarrow> prefix \<Rightarrow> string \<Rightarrow> bool" where
  "open_prefix cx s p native \<longleftrightarrow>
     steerable cx p native \<and> fmlookup (a_imps s) p = None \<and> p \<notin> a_quar s"

definition new_want :: "ctx \<Rightarrow> State \<Rightarrow> steer \<Rightarrow> pending \<Rightarrow> bool" where
  "new_want cx st0 s w \<longleftrightarrow> new_move_ok cx st0 (w_imp w) \<and> free_prefix s (imp_Prefix (w_imp w))"

text \<open>The outcome of the native branch: nothing is steered; at most one move waits, and the planner may be asked.\<close>

definition native_outcome :: "ctx \<Rightarrow> State \<Rightarrow> prefix \<Rightarrow> round \<Rightarrow> round \<Rightarrow> bool" where
  "native_outcome cx st0 p rd rd' \<longleftrightarrow>
     steer_of rd' = steer_of rd \<and> rd_by rd' = rd_by rd \<and> rd_holds rd' = rd_holds rd \<and>
     (\<forall>q. q \<noteq> p \<longrightarrow> natives rd' q = natives rd q) \<and>
     (rd_wants rd' = rd_wants rd \<or>
      (\<exists>w. rd_wants rd' = rd_wants rd @ [w] \<and> imp_Prefix (w_imp w) = p \<and> \<not> w_commit w \<and>
         new_want cx st0 (steer_of rd) w)) \<and>
     (rd_commitOK rd' = rd_commitOK rd \<or>
      (\<exists>native. rd_commitOK rd' = fmupd p True (rd_commitOK rd) \<and> natives rd' p = Some native \<and>
         open_prefix cx (steer_of rd) p native))"

lemma native_outcome_quiet: "steer_of rd' = steer_of rd \<Longrightarrow> frame_of rd' = frame_of rd \<Longrightarrow> native_outcome cx st0 p rd rd'"
  by (auto simp: native_outcome_def dest: frame_ofD)

lemma native_outcome_want:
  assumes "steer_of rd1 = steer_of rd" and "frame_of rd1 = frame_of rd" and "imp_Prefix (w_imp w) = p"
    and "\<not> w_commit w" and "new_want cx st0 (steer_of rd) w"
  shows "native_outcome cx st0 p rd (add_want w rd1)"
  using assms(1,3-5) frame_ofD [OF assms(2)]
  by (simp add: native_outcome_def add_want_def natives_def fun_eq_iff)

lemma mark_commit_fields [simp]:
  "steer_of (mark_commit cx p rd) = steer_of rd" "natives (mark_commit cx p rd) = natives rd"
  "rd_by (mark_commit cx p rd) = rd_by rd" "rd_holds (mark_commit cx p rd) = rd_holds rd"
  "rd_wants (mark_commit cx p rd) = rd_wants rd" "rd_st (mark_commit cx p rd) = rd_st rd"
  by (simp_all add: mark_commit_def natives_def fun_eq_iff)

lemma mark_commit_ok:
  "rd_commitOK (mark_commit cx p rd) = rd_commitOK rd \<or> rd_commitOK (mark_commit cx p rd) = fmupd p True (rd_commitOK rd)"
  by (simp add: mark_commit_def)

lemma mark_commit_outcome:
  assumes "open_prefix cx (steer_of rd) p native" and "natives rd p = Some native"
    and "steer_of rd1 = steer_of rd" and "frame_of rd1 = frame_of rd"
  shows "native_outcome cx st0 p rd (mark_commit cx p rd1)"
  using assms(1-3) frame_ofD [OF assms(4)] mark_commit_ok [of cx p rd1]
  by (auto simp: native_outcome_def)

text \<open>Opening the prefix to the planner may come first, when the planner is not asked again.\<close>

lemma native_outcome_marked:
  assumes "open_prefix cx (steer_of rd) p native" and "natives rd p = Some native"
    and "native_outcome cx st0 p (mark_commit cx p rd) rd'" and "natives rd' = natives rd"
    and "rd_commitOK rd' = rd_commitOK (mark_commit cx p rd)"
  shows "native_outcome cx st0 p rd rd'"
  using assms mark_commit_ok [of cx p rd] by (auto simp: native_outcome_def)

lemma cool_iff: "fmlookup (s_Cooldown (rd_st rd)) p = fmlookup (a_cool (steer_of rd)) p"
  by (simp add: steer_of_def)

lemma quar_iff: "fmlookup (s_quarantine (rd_st rd)) p = None \<longleftrightarrow> p \<notin> a_quar (steer_of rd)"
  by (simp add: steer_of_def fmdom'_iff)

lemma native_static_outcome:
  assumes o: "open_prefix cx (steer_of rd) p native" and ok: "cands_ok cx st0 p cands"
  shows "native_outcome cx st0 p rd (native_static cx p cands native v static rd)"
proof (cases "static \<noteq> native \<and> \<not> cfg_Excluded (cx_cfg cx) static \<and> allowlisted (cx_cfg cx) p \<and>
    fmlookup (s_Cooldown (rd_st rd)) p = None \<and> (\<exists>pin. usableCand cands static = Some pin \<and>
      pinFault pin cands native v (cx_cfg cx) = NoFault)")
  case True
  then obtain pin where pin: "usableCand cands static = Some pin" "pinFault pin cands native v (cx_cfg cx) = NoFault"
    by blast
  have "new_want cx st0 (steer_of rd) (static_want cx p native static v)"
    using True o cands_okD [OF ok pin(1)]
    by (auto simp: new_want_def new_move_ok_def static_want_def open_prefix_def free_prefix_def safe_target_def cool_iff)
  moreover have "imp_Prefix (w_imp (static_want cx p native static v)) = p" "\<not> w_commit (static_want cx p native static v)"
    by (simp_all add: static_want_def)
  ultimately show ?thesis using True pin
    by (auto simp: native_static_def Let_def intro!: native_outcome_want)
next
  case False
  then show ?thesis
    by (intro native_outcome_quiet) (auto simp: native_static_def Let_def split: option.splits)
qed

lemma native_confirm_outcome:
  assumes o: "open_prefix cx (steer_of rd) p native" and ok: "cands_ok cx st0 p cands"
    and alt: "perf_choice cx cands native natC = Inr alt"
    and cool: "fmlookup (a_cool (steer_of rd)) p = None" and allow: "allowlisted (cx_cfg cx) p"
  shows "native_outcome cx st0 p rd (native_confirm cx p cands native natC alt rd)"
proof (cases "evidenceLacking (cx_cfg cx) natC alt = None \<and> fst (snd (note_performance cx p (c_Provider alt) rd))")
  case True
  have "new_want cx st0 (steer_of rd) (perf_want cx p cands native natC alt)"
    using o cool allow perf_choice_Inr [OF alt ok]
    by (auto simp: new_want_def new_move_ok_def perf_want_def open_prefix_def free_prefix_def safe_target_def)
  moreover have "imp_Prefix (w_imp (perf_want cx p cands native natC alt)) = p"
    "\<not> w_commit (perf_want cx p cands native natC alt)"
    by (simp_all add: perf_want_def)
  ultimately show ?thesis using True
    by (auto simp: native_confirm_def split_beta intro!: native_outcome_want)
next
  case False
  then show ?thesis
    by (intro native_outcome_quiet) (auto simp: native_confirm_def split_beta split: option.splits)
qed

lemma native_confirm_fields:
  "natives (native_confirm cx p cands native natC alt rd) = natives rd"
  "rd_commitOK (native_confirm cx p cands native natC alt rd) = rd_commitOK rd"
proof -
  note f = frame_ofD [OF note_performance_quiet(2)]
    frame_ofD [OF dec_frame(3)] frame_ofD [OF dec_frame(5)] frame_ofD [OF frame_of_simps(1)]
  show "natives (native_confirm cx p cands native natC alt rd) = natives rd"
    "rd_commitOK (native_confirm cx p cands native natC alt rd) = rd_commitOK rd"
    by (auto simp: native_confirm_def split_beta add_want_def f split: option.split)
      (auto simp: natives_def fun_eq_iff f [unfolded natives_def fun_eq_iff])
qed

lemma native_perf_outcome:
  assumes o: "open_prefix cx (steer_of rd) p native" and n: "natives rd p = Some native"
    and ok: "cands_ok cx st0 p cands"
  shows "native_outcome cx st0 p rd (native_perf cx p cands native rd)"
proof (cases "\<exists>natC alt. usableCand cands native = Some natC \<and> perf_choice cx cands native natC = Inr alt \<and>
    fmlookup (s_Cooldown (rd_st rd)) p = None \<and> allowlisted (cx_cfg cx) p")
  case True
  then obtain natC alt where c: "usableCand cands native = Some natC" "perf_choice cx cands native natC = Inr alt"
    "fmlookup (s_Cooldown (rd_st rd)) p = None" "fmlookup (a_cool (steer_of rd)) p = None" "allowlisted (cx_cfg cx) p"
    by (auto simp: cool_iff)
  let ?m = "mark_commit cx p rd"
  have "native_outcome cx st0 p rd (native_confirm cx p cands native natC alt ?m)"
    by (rule native_outcome_marked [OF o n native_confirm_outcome [OF _ ok c(2) _ c(5)]])
      (use o c in \<open>simp_all add: native_confirm_fields\<close>)
  moreover have "native_outcome cx st0 p rd
      (set_cause p CauseCost (noteReason p RInsideFloor (recommend p native ?m)))"
    by (rule native_outcome_marked [OF o n native_outcome_quiet])
      (simp_all add: frame_ofD [OF dec_frame(6)] frame_ofD [OF dec_frame(3)] frame_ofD [OF dec_frame(5)])
  ultimately show ?thesis using c native_confirm_outcome [OF o ok c(2,4,5)]
    by (auto simp: native_perf_def Let_def split: option.split)
next
  case False
  then show ?thesis using mark_commit_outcome [OF o n]
    by (auto simp: native_perf_def Let_def intro: native_outcome_quiet split: option.split sum.split)
qed

lemma native_branch_outcome:
  assumes none: "fmlookup (a_imps (steer_of rd)) p = None" and d: "fmlookup (rd_dec rd) p = Some d"
    and ok: "cands_ok cx st0 p cands"
  shows "native_outcome cx st0 p rd (native_branch cx p cands rd)"
proof (cases "\<exists>native. steerable cx p native \<and> fmlookup (s_quarantine (rd_st rd)) p = None")
  case True
  then obtain native where s: "steerable cx p native" and q: "fmlookup (s_quarantine (rd_st rd)) p = None" by blast
  let ?rd = "upd_dec p (\<lambda>d. d\<lparr>d_Native := native, d_Current := native\<rparr>) rd"
  have o: "open_prefix cx (steer_of ?rd) p native" using s none q by (simp add: open_prefix_def quar_iff)
  have n: "natives ?rd p = Some native" using d by (simp add: natives_def upd_dec_def)
  have "native_outcome cx st0 p ?rd (native_branch cx p cands rd)"
    using s q native_static_outcome [OF o ok] native_perf_outcome [OF o n ok]
    by (auto simp: native_branch_def Let_def steerable_def split: option.split)
  then show ?thesis by (simp add: native_outcome_def natives_upd_dec_other)
next
  case False
  let ?rd = "\<lambda>nat0. upd_dec p (\<lambda>d. d\<lparr>d_Native := nat0, d_Current := nat0\<rparr>) rd"
  have other: "native_outcome cx st0 p rd rd'" if "native_outcome cx st0 p (?rd nat0) rd'" for nat0 rd'
    using that by (simp add: native_outcome_def natives_upd_dec_other)
  consider (direct) "\<not> in_RIBEnabled (cx_in cx) \<or> in_Native (cx_in cx) p = None"
    | (nat) nat0 where "in_RIBEnabled (cx_in cx)" "in_Native (cx_in cx) p = Some nat0"
        "nat0 = [] \<or> Bits p = 0 \<or> ignored (cx_in cx) p \<or> fmlookup (s_quarantine (rd_st rd)) p \<noteq> None"
    using False by (cases "in_Native (cx_in cx) p") (auto simp: steerable_def)
  then show ?thesis
  proof cases
    case direct
    then show ?thesis by (intro native_outcome_quiet) (auto simp: native_branch_def Let_def)
  next
    case nat
    then have "quiet (?rd nat0) (native_branch cx p cands rd)"
      by (auto simp: native_branch_def Let_def quiet_def)
    then show ?thesis
      unfolding quiet_def by (intro other [of nat0] native_outcome_quiet) (erule conjunct1, erule conjunct2)
  qed
qed

end
