(* ===== verification/Correct.thy ===== *)
theory Correct
  imports Refine
begin

text \<open>
  The phases of an evaluation compose: the invariant \<open>round_ok\<close> of the round says what the waiting
  moves, the held steers and the prefixes open to the planner may be, every phase keeps it, and every
  phase is a run of the abstract machine. The properties of \<open>Decide\<close> follow from the invariants of that
  machine.
\<close>

section \<open>The invariant of a round\<close>

abbreviation want_prefix :: "pending \<Rightarrow> prefix" where
  "want_prefix w \<equiv> imp_Prefix (w_imp w)"

abbreviation hold_prefix :: "commitHold \<Rightarrow> prefix" where
  "hold_prefix h \<equiv> imp_Prefix (ch_imp h)"

definition hold_ok :: "ctx \<Rightarrow> steer \<Rightarrow> commitHold \<Rightarrow> bool" where
  "hold_ok cx s h \<longleftrightarrow>
     ch_held h = (time_sub (cx_now cx) (imp_Since (ch_imp h)) < cfg_HoldTime (cx_cfg cx)) \<and>
     fmlookup (a_imps s) (hold_prefix h) = Some (ch_imp h)"

text \<open>\<open>D\<close> is the set of the prefixes decided so far.\<close>

definition round_ok :: "ctx \<Rightarrow> State \<Rightarrow> prefix set \<Rightarrow> round \<Rightarrow> bool" where
  "round_ok cx st0 D rd \<longleftrightarrow>
     wf_steer (steer_of rd) \<and>
     (\<forall>p. cands_ok cx st0 p (candsOf rd p)) \<and>
     fmdom' (a_imps (steer_of rd)) \<subseteq> fmdom' (rd_by rd) \<and>
     (\<forall>p \<in> D. safe_at cx st0 p (steer_of rd)) \<and>
     distinct (map want_prefix (rd_wants rd)) \<and>
     (\<forall>w \<in> set (rd_wants rd). \<not> w_commit w \<and> new_want cx st0 (steer_of rd) w \<and> want_prefix w \<in> D) \<and>
     distinct (map hold_prefix (rd_holds rd)) \<and>
     (\<forall>h \<in> set (rd_holds rd). hold_ok cx (steer_of rd) h \<and> hold_prefix h \<in> D) \<and>
     (\<forall>p \<in> fmdom' (rd_commitOK rd). p \<in> D \<and>
        (\<exists>native. natives rd p = Some native \<and> open_prefix cx (steer_of rd) p native))"

lemma round_okD:
  assumes "round_ok cx st0 D rd"
  shows "wf_steer (steer_of rd)" and "cands_ok cx st0 p (candsOf rd p)"
    and "fmdom' (a_imps (steer_of rd)) \<subseteq> fmdom' (rd_by rd)"
    and "p \<in> D \<Longrightarrow> safe_at cx st0 p (steer_of rd)"
    and "distinct (map want_prefix (rd_wants rd))"
    and "w \<in> set (rd_wants rd) \<Longrightarrow> \<not> w_commit w \<and> new_want cx st0 (steer_of rd) w \<and> want_prefix w \<in> D"
    and "distinct (map hold_prefix (rd_holds rd))"
    and "h \<in> set (rd_holds rd) \<Longrightarrow> hold_ok cx (steer_of rd) h \<and> hold_prefix h \<in> D"
    and "p \<in> fmdom' (rd_commitOK rd) \<Longrightarrow> p \<in> D"
    and "p \<in> fmdom' (rd_commitOK rd) \<Longrightarrow>
           \<exists>native. natives rd p = Some native \<and> open_prefix cx (steer_of rd) p native"
  using assms by (simp_all add: round_ok_def)

lemma round_okI:
  assumes "wf_steer (steer_of rd)" and "\<And>p. cands_ok cx st0 p (candsOf rd p)"
    and "fmdom' (a_imps (steer_of rd)) \<subseteq> fmdom' (rd_by rd)"
    and "\<And>p. p \<in> D \<Longrightarrow> safe_at cx st0 p (steer_of rd)"
    and "distinct (map want_prefix (rd_wants rd))"
    and "\<And>w. w \<in> set (rd_wants rd) \<Longrightarrow> \<not> w_commit w \<and> new_want cx st0 (steer_of rd) w \<and> want_prefix w \<in> D"
    and "distinct (map hold_prefix (rd_holds rd))"
    and "\<And>h. h \<in> set (rd_holds rd) \<Longrightarrow> hold_ok cx (steer_of rd) h \<and> hold_prefix h \<in> D"
    and "\<And>p. p \<in> fmdom' (rd_commitOK rd) \<Longrightarrow> p \<in> D \<and>
           (\<exists>native. natives rd p = Some native \<and> open_prefix cx (steer_of rd) p native)"
  shows "round_ok cx st0 D rd"
  using assms by (simp add: round_ok_def)

lemma other_prefix_stable:
  assumes "asteps cx st0 p s s'" and "q \<noteq> p"
  shows "open_prefix cx s' q native = open_prefix cx s q native"
    and "free_prefix s' q = free_prefix s q"
    and "fmlookup (a_imps s') q = fmlookup (a_imps s) q"
  using asteps_other [OF assms] by (auto simp: open_prefix_def free_prefix_def)

section \<open>Candidates\<close>

lemma applyPolicy_usable:
  "c \<in> set (applyPolicy cands v native) \<Longrightarrow> c_Usable c \<Longrightarrow> c \<in> set cands"
  by (auto simp: applyPolicy_def apply_policy1_def split: if_splits)

lemma prefix_cands_ok:
  assumes "cands_ok cx st0 p (candsOf rd p)"
  shows "cands_ok cx st0 p (prefix_cands cx rd p)"
  using assms applyPolicy_usable
  by (fastforce simp: cands_ok_def prefix_cands_def Let_def split: option.splits)

lemma mk_candidate_usable:
  "c_Usable (mk_candidate cx st0 r) \<Longrightarrow> unusable_why cx st0 r (cand_base cx st0 r) = []"
  by (auto simp: mk_candidate_def Let_def split: if_splits)

lemma c_Provider_mk_candidate: "c_Provider (mk_candidate cx st0 r) = r_Provider r"
  by (simp add: mk_candidate_def Let_def cand_base_def)

lemma group_fold:
  "set rs \<subseteq> set (in_Results (cx_in cx)) \<Longrightarrow> \<forall>p. cands_ok cx st0 p (fmget [] (fst bs) p) \<Longrightarrow>
     \<forall>p. cands_ok cx st0 p (fmget [] (fst (foldl (group_step cx st0) bs rs)) p)"
proof (induction rs arbitrary: bs)
  case Nil
  then show ?case by simp
next
  case (Cons r rs)
  have "cands_ok cx st0 p (fmget [] (fst (group_step cx st0 bs r)) p)" for p
    using Cons.prems
    by (auto simp: group_step_def split_beta Let_def cands_ok_def usable_path_def list_ex_iff
        c_Provider_mk_candidate dest!: mk_candidate_usable)
  then show ?case using Cons.IH [of "group_step cx st0 bs r"] Cons.prems by simp
qed

lemma group_results_ok: "cands_ok cx st0 p (fmget [] (fst (group_results cx st0)) p)"
  using group_fold [of "in_Results (cx_in cx)" cx st0 "(fmempty, fmempty)"]
  by (simp add: group_results_def cands_ok_def)

section \<open>The loop over the prefixes\<close>

lemma a_imps_steer_of: "a_imps (steer_of rd) = improvements rd"
  by (simp add: steer_of_def)

lemma prepare_prefix_fields:
  "steer_of (prepare_prefix cx p rd) = steer_of rd" "rd_wants (prepare_prefix cx p rd) = rd_wants rd"
  "rd_holds (prepare_prefix cx p rd) = rd_holds rd" "rd_commitOK (prepare_prefix cx p rd) = rd_commitOK rd"
  "q \<noteq> p \<Longrightarrow> natives (prepare_prefix cx p rd) q = natives rd q"
  "rd_by (prepare_prefix cx p rd) = fmupd p (prefix_cands cx (upd_st (clearConfirmProbe p) rd) p) (rd_by rd)"
  "\<exists>d. fmlookup (rd_dec (prepare_prefix cx p rd)) p = Some d"
  by (simp_all add: prepare_prefix_def Let_def natives_def)
    (simp_all add: steer_of_def improvements_def changes_def upd_st_def)

lemma prepare_prefix_ok:
  assumes "round_ok cx st0 D rd" and "p \<notin> D" and "p \<in> fmdom' (rd_by rd)"
  shows "round_ok cx st0 D (prepare_prefix cx p rd)"
    and "fmdom' (rd_by (prepare_prefix cx p rd)) = fmdom' (rd_by rd)"
proof -
  have c: "cands_ok cx st0 q (candsOf (prepare_prefix cx p rd) q)" for q
    using round_okD(2) [OF assms(1)] prefix_cands_ok [of cx st0 p "upd_st (clearConfirmProbe p) rd"]
    by (auto simp: candsOf_def prepare_prefix_fields upd_st_def)
  show d: "fmdom' (rd_by (prepare_prefix cx p rd)) = fmdom' (rd_by rd)"
    using assms(3) by (auto simp: prepare_prefix_fields)
  have n: "natives (prepare_prefix cx p rd) q = natives rd q" if "q \<in> fmdom' (rd_commitOK rd)" for q
    using assms that by (intro prepare_prefix_fields) (auto simp: round_ok_def)
  show "round_ok cx st0 D (prepare_prefix cx p rd)"
    using assms(1) c d n by (auto simp: round_ok_def prepare_prefix_fields)
qed

lemma prefix_run_dom:
  assumes "asteps cx st0 p s s'" and "fmdom' (a_imps s) \<subseteq> A" and "p \<in> A"
  shows "fmdom' (a_imps s') \<subseteq> A"
proof
  fix q
  assume "q \<in> fmdom' (a_imps s')"
  then show "q \<in> A" using assms asteps_other [OF assms(1), of q] by (cases "q = p") (auto simp: fmdom'_iff)
qed

lemma active_outcome_holds:
  assumes out: "active_outcome cx st0 p rd rd'" and "p \<notin> D" and "distinct (map hold_prefix (rd_holds rd))"
    and old: "\<And>h. h \<in> set (rd_holds rd) \<Longrightarrow> hold_ok cx (steer_of rd') h \<and> hold_prefix h \<in> D"
  shows "distinct (map hold_prefix (rd_holds rd')) \<and>
    (\<forall>h \<in> set (rd_holds rd'). hold_ok cx (steer_of rd') h \<and> hold_prefix h \<in> insert p D)"
proof -
  from out consider (same) "rd_holds rd' = rd_holds rd"
    | (new) imp where "rd_holds rd' = rd_holds rd @ [hold_of cx imp]" "imp_Prefix imp = p"
        "fmlookup (a_imps (steer_of rd')) p = Some imp"
    unfolding active_outcome_def same_but_def by blast
  then show ?thesis
  proof cases
    case same
    then show ?thesis using assms(3) old by simp
  next
    case new
    have "hold_ok cx (steer_of rd') (hold_of cx imp)" "hold_prefix (hold_of cx imp) = p"
      using new by (simp_all add: hold_ok_def hold_of_def)
    moreover have "p \<notin> hold_prefix ` set (rd_holds rd)" using old assms(2) by auto
    ultimately show ?thesis using assms(3) old new(1) by simp
  qed
qed

lemma active_outcome_ok:
  assumes ok: "round_ok cx st0 D rd" and p: "p \<notin> D" "p \<in> fmdom' (rd_by rd)" and out: "active_outcome cx st0 p rd rd'"
  shows "round_ok cx st0 (insert p D) rd' \<and> rd_by rd' = rd_by rd"
proof
  from out have run: "asteps cx st0 p (steer_of rd) (steer_of rd')" and safe: "safe_at cx st0 p (steer_of rd')"
    by (simp_all add: active_outcome_def)
  have f: "rd_by rd' = rd_by rd" "rd_wants rd' = rd_wants rd" "rd_commitOK rd' = rd_commitOK rd"
    "\<And>q. q \<noteq> p \<Longrightarrow> natives rd' q = natives rd q"
    using out by (auto simp: active_outcome_def same_but_def natives_def)
  then show "rd_by rd' = rd_by rd" by blast
  note okD = round_okD [OF ok] and stable = other_prefix_stable [OF run]
  have h: "hold_ok cx (steer_of rd') h \<and> hold_prefix h \<in> D" if "h \<in> set (rd_holds rd)" for h
    using okD(8) [OF that] stable(3) [of "hold_prefix h"] p(1) by (auto simp: hold_ok_def)
  note holds = active_outcome_holds [OF out p(1) okD(7) h]
  show "round_ok cx st0 (insert p D) rd'"
  proof (rule round_okI)
    show "wf_steer (steer_of rd')" by (rule wf.prefix_run_keeps [OF run okD(1)])
    show "cands_ok cx st0 q (candsOf rd' q)" for q using okD(2) f(1) by (simp add: candsOf_def)
    show "fmdom' (a_imps (steer_of rd')) \<subseteq> fmdom' (rd_by rd')"
      using prefix_run_dom [OF run okD(3) p(2)] f(1) by simp
    show "safe_at cx st0 q (steer_of rd')" if "q \<in> insert p D" for q
      using that safe safe.prefix_run_keeps [OF run okD(4)] by blast
    show "distinct (map want_prefix (rd_wants rd'))" using okD(5) f(2) by simp
    show "\<not> w_commit w \<and> new_want cx st0 (steer_of rd') w \<and> want_prefix w \<in> insert p D"
      if "w \<in> set (rd_wants rd')" for w
      using okD(6) [of w] that f(2) stable(2) [of "want_prefix w"] p(1) by (auto simp: new_want_def)
    show "distinct (map hold_prefix (rd_holds rd'))" using holds by blast
    show "hold_ok cx (steer_of rd') h \<and> hold_prefix h \<in> insert p D" if "h \<in> set (rd_holds rd')" for h
      using holds that by blast
    show "q \<in> insert p D \<and> (\<exists>native. natives rd' q = Some native \<and> open_prefix cx (steer_of rd') q native)"
      if "q \<in> fmdom' (rd_commitOK rd')" for q
    proof -
      have q: "q \<in> fmdom' (rd_commitOK rd)" using that f(3) by simp
      then have "q \<in> D" "q \<noteq> p" using okD(9) [OF q] p(1) by auto
      then show ?thesis using okD(10) [OF q] f(4) [of q] stable(1) [of q] by auto
    qed
  qed
qed

lemma native_outcome_ok:
  assumes ok: "round_ok cx st0 D rd" and p: "p \<notin> D" and none: "fmlookup (a_imps (steer_of rd)) p = None"
    and out: "native_outcome cx st0 p rd rd'"
  shows "round_ok cx st0 (insert p D) rd' \<and> rd_by rd' = rd_by rd"
proof
  from out have f: "steer_of rd' = steer_of rd" "rd_by rd' = rd_by rd" "rd_holds rd' = rd_holds rd"
    "\<And>q. q \<noteq> p \<Longrightarrow> natives rd' q = natives rd q"
    by (auto simp: native_outcome_def)
  then show "rd_by rd' = rd_by rd" by blast
  note okD = round_okD [OF ok]
  from out consider (same) "rd_wants rd' = rd_wants rd"
    | (new) w where "rd_wants rd' = rd_wants rd @ [w]" "want_prefix w = p" "\<not> w_commit w" "new_want cx st0 (steer_of rd) w"
    unfolding native_outcome_def by blast
  then have wants: "distinct (map want_prefix (rd_wants rd')) \<and>
      (\<forall>w \<in> set (rd_wants rd'). \<not> w_commit w \<and> new_want cx st0 (steer_of rd) w \<and> want_prefix w \<in> insert p D)"
  proof cases
    case same
    then show ?thesis using okD(5,6) by simp
  next
    case new
    moreover have "p \<notin> want_prefix ` set (rd_wants rd)" using okD(6) p by auto
    ultimately show ?thesis using okD(5,6) by simp
  qed
  have commit: "q \<in> insert p D \<and> (\<exists>native. natives rd' q = Some native \<and> open_prefix cx (steer_of rd) q native)"
    if q: "q \<in> fmdom' (rd_commitOK rd')" for q
  proof (cases "q = p")
    case True
    have "p \<notin> fmdom' (rd_commitOK rd)" using okD(9) p by blast
    with True q out show ?thesis by (auto simp: native_outcome_def)
  next
    case False
    then have "q \<in> fmdom' (rd_commitOK rd)" using q out by (auto simp: native_outcome_def)
    then show ?thesis using okD(9,10) f(4) [OF False] by simp
  qed
  show "round_ok cx st0 (insert p D) rd'"
    by (rule round_okI) (use okD wants commit f none in \<open>auto simp: candsOf_def safe_at_none\<close>)
qed

lemma decide_prefix_ok:
  assumes ok: "round_ok cx st0 D rd" and p: "p \<notin> D" "p \<in> fmdom' (rd_by rd)"
  shows "round_ok cx st0 (insert p D) (decide_prefix cx rd p)" (is ?ok)
    and "asteps cx st0 p (steer_of rd) (steer_of (decide_prefix cx rd p))" (is ?run)
    and "fmdom' (rd_by (decide_prefix cx rd p)) = fmdom' (rd_by rd)" (is ?by)
proof -
  let ?rd = "prepare_prefix cx p rd"
  note pok = prepare_prefix_ok [OF ok p]
  have pp: "p \<in> fmdom' (rd_by ?rd)" using pok(2) p(2) by simp
  have c: "cands_ok cx st0 p (candsOf ?rd p)" using pok(1) by (simp add: round_ok_def)
  have "?ok \<and> ?run \<and> ?by"
  proof (cases "fmlookup (a_imps (steer_of ?rd)) p")
    case None
    obtain d where "fmlookup (rd_dec ?rd) p = Some d" using prepare_prefix_fields(7) by blast
    note out = native_branch_outcome [OF None this c]
    have "decide_prefix cx rd p = native_branch cx p (candsOf ?rd p) ?rd"
      using None by (simp add: decide_prefix_def Let_def a_imps_steer_of)
    then show ?thesis using native_outcome_ok [OF pok(1) p(1) None out] out pok(2)
      by (simp add: native_outcome_def prepare_prefix_fields(1))
  next
    case (Some imp)
    have "imp_Prefix imp = p"
      using pok(1) keyedD [OF _ Some] by (simp add: round_ok_def wf_steer_def)
    note out = active_branch_outcome [OF Some this c]
    have "decide_prefix cx rd p = active_branch cx p (candsOf ?rd p) imp ?rd"
      using Some by (simp add: decide_prefix_def Let_def a_imps_steer_of)
    then show ?thesis using active_outcome_ok [OF pok(1) p(1) pp out] out pok(2)
      by (simp add: active_outcome_def prepare_prefix_fields(1))
  qed
  then show ?ok ?run ?by by blast+
qed

lemma runs_trans: "runs cx st0 s s' \<Longrightarrow> runs cx st0 s' s'' \<Longrightarrow> runs cx st0 s s''"
  by (rule rtranclp_trans)

lemma decide_fold:
  assumes "round_ok cx st0 D rd" and "distinct ps" and "set ps \<inter> D = {}" and "set ps \<subseteq> fmdom' (rd_by rd)"
  shows "round_ok cx st0 (D \<union> set ps) (foldl (decide_prefix cx) rd ps) \<and>
         runs cx st0 (steer_of rd) (steer_of (foldl (decide_prefix cx) rd ps)) \<and>
         fmdom' (rd_by (foldl (decide_prefix cx) rd ps)) = fmdom' (rd_by rd)"
  using assms
proof (induction ps arbitrary: D rd)
  case Nil
  then show ?case by simp
next
  case (Cons p ps)
  have p: "p \<notin> D" "p \<in> fmdom' (rd_by rd)" using Cons.prems by auto
  note step = decide_prefix_ok [OF Cons.prems(1) p]
  have IH: "round_ok cx st0 (insert p D \<union> set ps) (foldl (decide_prefix cx) (decide_prefix cx rd p) ps) \<and>
         runs cx st0 (steer_of (decide_prefix cx rd p)) (steer_of (foldl (decide_prefix cx) (decide_prefix cx rd p) ps)) \<and>
         fmdom' (rd_by (foldl (decide_prefix cx) (decide_prefix cx rd p) ps)) = fmdom' (rd_by (decide_prefix cx rd p))"
    using Cons.prems step by (intro Cons.IH) auto
  then show ?case using step asteps_runs [OF step(2)] by (auto intro: runs_trans)
qed

lemma decide_prefixes_ok:
  assumes "round_ok cx st0 {} rd"
  defines "rd' \<equiv> decide_prefixes cx rd"
  shows "round_ok cx st0 (fmdom' (rd_by rd')) rd'" and "runs cx st0 (steer_of rd) (steer_of rd')"
  using decide_fold [OF assms(1), of "SortedKeys (rd_by rd)"]
  by (simp_all add: rd'_def decide_prefixes_def)

section \<open>Improvements without a measurement\<close>

lemma improvements_cx_retire: "improvements (cx_retire cx p rsn cool rd) = fmdrop p (improvements rd)"
  by (simp add: cx_retire_def)

lemma unprobed_fold:
  assumes "distinct ps" and "set ps \<subseteq> fmdom' (improvements rd)"
  shows "runs cx st0 (steer_of rd) (steer_of (foldl (unprobed_step cx) rd ps)) \<and>
         frame_of (foldl (unprobed_step cx) rd ps) = frame_of rd \<and>
         fmdom' (improvements (foldl (unprobed_step cx) rd ps)) =
           fmdom' (improvements rd) - {p \<in> set ps. p \<notin> fmdom' (rd_by rd)}"
  using assms
proof (induction ps arbitrary: rd)
  case Nil
  then show ?case by simp
next
  case (Cons p ps)
  let ?rd = "unprobed_step cx rd p"
  have by': "rd_by ?rd = rd_by rd"
    using frame_ofD(1) [OF frame_of_retire] by (simp add: unprobed_step_def)
  have dom: "fmdom' (improvements ?rd) = fmdom' (improvements rd) - (if p \<in> fmdom' (rd_by rd) then {} else {p})"
    by (auto simp: unprobed_step_def improvements_cx_retire)
  obtain imp where imp: "fmlookup (a_imps (steer_of rd)) p = Some imp"
    using Cons.prems by (auto simp: a_imps_steer_of fmdom'_iff)
  have run: "runs cx st0 (steer_of rd) (steer_of ?rd)"
    using asteps_runs [OF retire_asteps [OF imp]] by (simp add: unprobed_step_def)
  have fr: "frame_of ?rd = frame_of rd" by (simp add: unprobed_step_def)
  have "distinct ps" "set ps \<subseteq> fmdom' (improvements ?rd)" using Cons.prems dom by auto
  from Cons.IH [OF this] show ?case using run fr dom by' Cons.prems by (auto intro: runs_trans)
qed

lemma start_round_ok:
  assumes wf: "wf_steer (steer_of rd)" and "rd_wants rd = []" and "rd_holds rd = []" and "rd_commitOK rd = fmempty"
  shows "round_ok cx (rd_st rd) {} (start_round cx rd)"
    and "runs cx (rd_st rd) (steer_of rd) (steer_of (start_round cx rd))"
    and "rd_by (start_round cx rd) = fst (group_results cx (rd_st rd))"
proof -
  let ?g = "rd\<lparr>rd_by := fst (group_results cx (rd_st rd))\<rparr>"
  have "distinct (SortedKeys (improvements ?g))" "set (SortedKeys (improvements ?g)) \<subseteq> fmdom' (improvements ?g)"
    by simp_all
  note fold = unprobed_fold [OF this, of cx "rd_st rd", folded retire_unprobed_def]
  then have u: "runs cx (rd_st rd) (steer_of ?g) (steer_of (retire_unprobed cx ?g))"
    "frame_of (retire_unprobed cx ?g) = frame_of ?g"
    "fmdom' (improvements (retire_unprobed cx ?g)) \<subseteq> fmdom' (fst (group_results cx (rd_st rd)))"
    by auto
  note fr = frame_ofD [OF u(2)]
  show run: "runs cx (rd_st rd) (steer_of rd) (steer_of (start_round cx rd))"
    using u(1) by (simp add: start_round_def Let_def)
  show by': "rd_by (start_round cx rd) = fst (group_results cx (rd_st rd))"
    using fr(1) by (simp add: start_round_def Let_def)
  show "round_ok cx (rd_st rd) {} (start_round cx rd)"
  proof (rule round_okI)
    show "wf_steer (steer_of (start_round cx rd))" by (rule wf.run_keeps [OF run wf])
    show "cands_ok cx (rd_st rd) p (candsOf (start_round cx rd) p)" for p
      using group_results_ok by (simp add: candsOf_def by')
    show "fmdom' (a_imps (steer_of (start_round cx rd))) \<subseteq> fmdom' (rd_by (start_round cx rd))"
      unfolding by' using u(3) by (simp add: start_round_def Let_def a_imps_steer_of)
  qed (use assms fr in \<open>simp_all add: start_round_def Let_def\<close>)
qed

end
