(* ===== verification/Phases.thy ===== *)
theory Phases
  imports Correct
begin

text \<open>
  The later phases of an evaluation keep the invariant and are runs of the abstract machine: the
  reconciliation with the planner (\<open>commit.go\<close>), trimming to the cap (\<open>cap.go\<close>), shedding
  (\<open>overload.go\<close>), weighing (\<open>weights.go\<close>) and the admission of the waiting moves.
\<close>

section \<open>A step on a steered prefix\<close>

text \<open>A step on a steered prefix, which no other hold is for, keeps the invariant of the round.\<close>

lemma on_prefix_ok:
  assumes ok: "round_ok cx st0 D rd" and imp: "fmlookup (a_imps (steer_of rd)) p = Some imp"
    and holds: "p \<notin> hold_prefix ` set (rd_holds rd)" and on: "on_prefix cx st0 p rd rd'"
  shows "round_ok cx st0 D rd'"
proof -
  from on have run: "asteps cx st0 p (steer_of rd) (steer_of rd')" and fr: "frame_of rd' = frame_of rd"
    by (simp_all add: on_prefix_def)
  note okD = round_okD [OF ok] and stable = other_prefix_stable [OF run] and f = frame_ofD [OF fr]
  have p: "p \<in> fmdom' (rd_by rd)" using subsetD [OF okD(3) fmdom'I [OF imp]] .
  have w: "want_prefix w \<noteq> p" if "w \<in> set (rd_wants rd)" for w
    using okD(6) [OF that] imp by (auto simp: new_want_def free_prefix_def)
  have c: "q \<noteq> p" if "q \<in> fmdom' (rd_commitOK rd)" for q
    using okD(10) [OF that] imp by (auto simp: open_prefix_def)
  show ?thesis
  proof (rule round_okI)
    show "wf_steer (steer_of rd')" by (rule wf.prefix_run_keeps [OF run okD(1)])
    show "cands_ok cx st0 q (candsOf rd' q)" for q using okD(2) f(1) by (simp add: candsOf_def)
    show "fmdom' (a_imps (steer_of rd')) \<subseteq> fmdom' (rd_by rd')"
      using prefix_run_dom [OF run okD(3) p] f(1) by simp
    show "safe_at cx st0 q (steer_of rd')" if "q \<in> D" for q
      by (rule safe.prefix_run_keeps [OF run okD(4) [OF that]])
    show "\<not> w_commit w \<and> new_want cx st0 (steer_of rd') w \<and> want_prefix w \<in> D" if "w \<in> set (rd_wants rd')" for w
      using okD(6) [of w] w [of w] that f(2) stable(2) [of "want_prefix w"] by (auto simp: new_want_def)
    show "hold_ok cx (steer_of rd') h \<and> hold_prefix h \<in> D" if "h \<in> set (rd_holds rd')" for h
      using okD(8) [of h] holds that f(3) stable(3) [of "hold_prefix h"] by (auto simp: hold_ok_def)
    show "q \<in> D \<and> (\<exists>native. natives rd' q = Some native \<and> open_prefix cx (steer_of rd') q native)"
      if "q \<in> fmdom' (rd_commitOK rd')" for q
      using okD(9,10) [of q] c [of q] that f(4,5) stable(1) [of q] by auto
  qed (use okD(5,7) f(2,3) in simp_all)
qed

section \<open>Holds\<close>

lemma hold_switch_cases:
  assumes imp: "fmlookup (a_imps (steer_of rd)) p = Some imp" "imp_Prefix imp = p"
    and safe: "safe_target cx st0 p (imp_Provider imp)"
    and alt: "switch_alt cx cands (imp_Native imp) = Some alt" "cands_ok cx st0 p cands"
    and new: "c_Provider alt \<noteq> imp_Provider imp"
    and hold: "\<not> time_sub (cx_now cx) (imp_Since imp) < cfg_HoldTime (cx_cfg cx)"
  shows "case hold_switch cx cands imp nat0 alt rd of
      Done rd' \<Rightarrow> on_prefix cx st0 p rd rd' | ToPlan rd' _ \<Rightarrow> quiet rd rd'"
proof (cases "refuse (rd_gate rd) (c_Provider alt) p")
  case (Some refusal)
  then show ?thesis by (simp add: hold_switch_def Let_def imp quiet_def)
next
  case None
  let ?rd1 = "fst (flap_check cx p rd)"
  have imp1: "fmlookup (a_imps (steer_of ?rd1)) p = Some imp" using imp by simp
  show ?thesis
  proof (cases "snd (flap_check cx p rd)")
    case True
    have "on_prefix cx st0 p rd (setDecision p ActionRetire (flapReason (snd (park cx p ?rd1))) (imp_Native imp) [] (imp_Cause imp)
        (cx_retire cx p (flapReason (snd (park cx p ?rd1))) False (fst (park cx p ?rd1))))"
      by (rule on_prefix_quiet_left [of rd ?rd1], simp add: quiet_def, rule on_prefix_park_retire [OF imp1]) simp_all
    then show ?thesis using None True by (simp add: hold_switch_def Let_def imp split_beta)
  next
    case False
    then show ?thesis using None switch_alt_Some [OF alt] new hold safe
      by (auto simp: hold_switch_def Let_def imp split_beta switch_ok_def safe_target_def
          intro!: on_prefix_switch [OF imp(1)])
  qed
qed

lemma hold_perf_cases:
  assumes imp: "fmlookup (a_imps (steer_of rd)) p = Some (ch_imp h)" "hold_prefix h = p"
    and safe: "safe_target cx st0 p (imp_Provider (ch_imp h))" and ok: "cands_ok cx st0 p cands"
    and held: "ch_held h = (time_sub (cx_now cx) (imp_Since (ch_imp h)) < cfg_HoldTime (cx_cfg cx))"
  shows "case hold_perf cx pw cands h rd of
      Done rd' \<Rightarrow> on_prefix cx st0 p rd rd' | ToPlan rd' _ \<Rightarrow> quiet rd rd'"
proof -
  have s: "safe_at cx st0 p (steer_of rd)" using imp safe by (simp add: safe_at_def)
  let ?np = "\<lambda>alt. note_performance cx p (c_Provider alt) rd"
  have q: "quiet rd (fst (?np alt))" for alt by (simp add: quiet_def)
  have sw: "case hold_switch cx cands (ch_imp h) nat0 alt (fst (?np alt)) of
      Done rd' \<Rightarrow> on_prefix cx st0 p rd rd' | ToPlan rd' _ \<Rightarrow> quiet rd rd'"
    if "switch_alt cx cands (imp_Native (ch_imp h)) = Some alt" "c_Provider alt \<noteq> imp_Provider (ch_imp h)" "\<not> ch_held h"
    for nat0 alt
    using hold_switch_cases [of "fst (?np alt)" p "ch_imp h" cx st0 cands alt nat0] imp safe ok held that
      on_prefix_quiet_left [OF q]
    by (auto simp: quiet_def split: hold_result.splits)
  show ?thesis
    using sw s
    by (auto simp: hold_perf_def Let_def imp(2) split_beta quiet_def
        intro: on_prefix_quiet split: option.split)
qed

lemma hold_plan_on_prefix:
  assumes imp: "fmlookup (a_imps (steer_of rd)) p = Some (ch_imp h)" "hold_prefix h = p"
    and safe: "safe_target cx st0 p (imp_Provider (ch_imp h))" and ok: "cands_ok cx st0 p cands"
    and held: "ch_held h = (time_sub (cx_now cx) (imp_Since (ch_imp h)) < cfg_HoldTime (cx_cfg cx))"
  shows "on_prefix cx st0 p rd (hold_plan cx pw cands h refusal rd)"
proof -
  have s: "safe_at cx st0 p (steer_of rd)" using imp safe by (simp add: safe_at_def)
  have q: "on_prefix cx st0 p rd (setDecision p ActionKeep rsn cur rec cs rd)" for rsn cur rec cs
    using s by (intro on_prefix_quiet) (simp_all add: quiet_def)
  have release: "on_prefix cx st0 p rd (hold_release cx h rd)"
    using q by (auto simp: hold_release_def Let_def imp(2) intro: on_prefix_retire [OF imp(1)])
  have keep: "on_prefix cx st0 p rd (setDecision p ActionKeep rsn cur rec cs (put_imp p (ch_imp h\<lparr>imp_Reason := r\<rparr>) rd))"
    for rsn cur rec cs r
    using safe by (intro on_prefix_put [OF imp(1)]) (auto simp: same_route_def)
  have switch: "on_prefix cx st0 p rd (setDecision p ActionSwitch rsn cur rec cs (add_change ActionSwitch (ch_imp h) n (put_imp p n rd)))"
    if "moveAllowed mv cands (cx_cfg cx) al cp (imp_Native (ch_imp h)) lv" "mv_Provider mv \<noteq> imp_Provider (ch_imp h)"
      "\<not> ch_held h" "imp_Prefix n = p" "imp_Provider n = mv_Provider mv" "imp_Native n = imp_Native (ch_imp h)"
      "imp_Since n = cx_now cx" for rsn cur rec cs n mv al cp lv
    using moveAllowed_target [OF that(1) ok] that(2-) held safe
    by (intro on_prefix_switch [OF imp(1)]) (auto simp: switch_ok_def safe_target_def)
  show ?thesis
    unfolding hold_plan_def Let_def imp(2)
    by (auto simp: release keep q intro!: switch split: option.split)
qed

lemma hold_step_on_prefix:
  assumes hold: "hold_ok cx (steer_of rd) h" and safe: "safe_at cx st0 (hold_prefix h) (steer_of rd)"
    and ok: "cands_ok cx st0 (hold_prefix h) (candsOf rd (hold_prefix h))"
  shows "on_prefix cx st0 (hold_prefix h) rd (hold_step cx pw rd h)"
proof -
  let ?p = "hold_prefix h" and ?c = "candsOf rd (hold_prefix h)"
  from hold have imp: "fmlookup (a_imps (steer_of rd)) ?p = Some (ch_imp h)"
    and held: "ch_held h = (time_sub (cx_now cx) (imp_Since (ch_imp h)) < cfg_HoldTime (cx_cfg cx))"
    by (simp_all add: hold_ok_def)
  have safe': "safe_target cx st0 ?p (imp_Provider (ch_imp h))" using safe imp by (simp add: safe_at_def)
  show ?thesis
  proof (cases "hold_valid cx pw ?c (ch_imp h)")
    case (Some x)
    then show ?thesis
      by (cases x) (auto simp: hold_step_def Let_def intro: on_prefix_retire [OF imp])
  next
    case None
    note perf = hold_perf_cases [OF imp refl safe' ok held, of pw]
    show ?thesis
    proof (cases "hold_perf cx pw ?c h rd")
      case (Done rd1)
      then show ?thesis using perf None by (simp add: hold_step_def Let_def)
    next
      case (ToPlan rd1 refusal)
      then have q: "quiet rd rd1" using perf by simp
      then have "fmlookup (a_imps (steer_of rd1)) ?p = Some (ch_imp h)" using imp by (simp add: quiet_def)
      note plan = hold_plan_on_prefix [OF this refl safe' ok held]
      show ?thesis using on_prefix_quiet_left [OF q plan] None ToPlan by (simp add: hold_step_def Let_def)
    qed
  qed
qed

text \<open>The loop over the holds; those still to come are the holds of the round.\<close>

abbreviation with_holds :: "commitHold list \<Rightarrow> round \<Rightarrow> round" where
  "with_holds hs rd \<equiv> rd\<lparr>rd_holds := hs\<rparr>"

lemma natives_with_holds [simp]: "natives (with_holds hs rd) = natives rd"
  by (simp add: natives_def fun_eq_iff)

lemma round_ok_with_holds:
  "round_ok cx st0 D rd \<Longrightarrow> set hs \<subseteq> set (rd_holds rd) \<Longrightarrow> distinct (map hold_prefix hs) \<Longrightarrow>
     round_ok cx st0 D (with_holds hs rd)"
  by (auto simp: round_ok_def candsOf_def)

lemma on_prefix_with_holds:
  "on_prefix cx st0 p rd rd' \<Longrightarrow> on_prefix cx st0 p (with_holds hs rd) (with_holds hs rd')"
  by (auto simp: on_prefix_def frame_of_def)

lemma hold_fold:
  assumes f: "\<And>rd h. hold_ok cx (steer_of rd) h \<Longrightarrow> safe_at cx st0 (hold_prefix h) (steer_of rd) \<Longrightarrow>
      cands_ok cx st0 (hold_prefix h) (candsOf rd (hold_prefix h)) \<Longrightarrow> on_prefix cx st0 (hold_prefix h) rd (f rd h)"
    and "round_ok cx st0 D (with_holds hs rd)"
  shows "round_ok cx st0 D (with_holds [] (foldl f rd hs)) \<and> runs cx st0 (steer_of rd) (steer_of (foldl f rd hs))"
  using assms(2)
proof (induction hs arbitrary: rd)
  case Nil
  then show ?case by simp
next
  case (Cons h hs)
  note okD = round_okD [OF Cons.prems]
  have hold: "hold_ok cx (steer_of rd) h" "hold_prefix h \<in> D" using okD(8) [of h] by simp_all
  have on: "on_prefix cx st0 (hold_prefix h) rd (f rd h)"
    using hold okD(2,4) by (intro f) (simp_all add: candsOf_def)
  have "round_ok cx st0 D (with_holds hs rd)"
    using round_ok_with_holds [OF Cons.prems, of hs] okD(7) by auto
  then have "round_ok cx st0 D (with_holds hs (f rd h))"
    using okD(7) hold by (intro on_prefix_ok [OF _ _ _ on_prefix_with_holds [OF on]]) (auto simp: hold_ok_def)
  from Cons.IH [OF this] show ?case
    using on by (auto simp: on_prefix_def intro: runs_trans asteps_runs)
qed

lemma no_planner_step_on_prefix:
  assumes "hold_ok cx (steer_of rd) h"
  shows "on_prefix cx st0 (hold_prefix h) rd (no_planner_step cx rd h)"
proof -
  have imp: "fmlookup (a_imps (steer_of rd)) (hold_prefix h) = Some (ch_imp h)" using assms by (simp add: hold_ok_def)
  show ?thesis by (rule on_prefix_retire [OF imp]) (simp_all add: no_planner_step_def Let_def frame_of_upd_dec)
qed

section \<open>New commit and cost moves\<close>

text \<open>What the loop over the open prefixes collects; the holds play no part in it.\<close>

definition fresh_ok :: "ctx \<Rightarrow> State \<Rightarrow> round \<Rightarrow> round \<times> pending list \<times> prefix list \<Rightarrow> bool" where
  "fresh_ok cx st0 rd0 acc \<longleftrightarrow>
     (let (rd, fresh, replaced) = acc in
      steer_of rd = steer_of rd0 \<and> frame_of rd = frame_of rd0 \<and> distinct (map want_prefix fresh) \<and>
      (\<forall>w \<in> set fresh. new_want cx st0 (steer_of rd0) w \<and> (hasPerf rd0 (want_prefix w) \<longrightarrow> want_prefix w \<in> set replaced)))"

lemma hasPerf_frame: "frame_of rd = frame_of rd0 \<Longrightarrow> hasPerf rd p = hasPerf rd0 p"
  using frame_ofD(2) [of rd rd0] by (simp add: hasPerf_def)

lemma commit_want_ok:
  assumes ok: "round_ok cx st0 D (with_holds [] rd0)" and p: "p \<in> fmdom' (rd_commitOK rd0)"
    and same: "steer_of rd = steer_of rd0" "frame_of rd = frame_of rd0"
    and d: "fmlookup (rd_dec rd) p = Some d" and cool: "fmlookup (s_Cooldown (rd_st rd)) p = None"
    and allow: "\<not> (cfg_Mode (cx_cfg cx) = ''inject'' \<and> \<not> CoveredBy (cfg_Allowlist (cx_cfg cx)) p)"
    and mv: "moveAllowed mv (candsOf rd p) (cx_cfg cx) al cp (d_Native d) lv"
  shows "new_want cx st0 (steer_of rd0) (commit_want cx p (d_Native d) mv)"
proof -
  note okD = round_okD [OF ok] and f = frame_ofD [OF same(2)]
  have "natives rd p = Some (d_Native d)" using d by (simp add: natives_def)
  then have "natives rd0 p = Some (d_Native d)" using f(5) by simp
  then have o: "open_prefix cx (steer_of rd0) p (d_Native d)" using okD(10) [of p] p by auto
  have "cands_ok cx st0 p (candsOf rd p)" using okD(2) f(1) by (simp add: candsOf_def)
  note t = moveAllowed_target [OF mv this]
  have "fmlookup (a_cool (steer_of rd0)) p = None" using cool same(1) by (simp add: cool_iff)
  then show ?thesis using o t allow
    by (auto simp: new_want_def commit_want_def new_move_ok_def open_prefix_def free_prefix_def
        safe_target_def allowlisted_def)
qed

lemma fresh_step_ok:
  assumes ok: "round_ok cx st0 D (with_holds [] rd0)" and acc: "fresh_ok cx st0 rd0 acc"
    and p: "p \<in> fmdom' (rd_commitOK rd0)" and new: "p \<notin> want_prefix ` set (fst (snd acc))"
  shows "fresh_ok cx st0 rd0 (fresh_step cx pw handled acc p) \<and>
         want_prefix ` set (fst (snd (fresh_step cx pw handled acc p))) \<subseteq> insert p (want_prefix ` set (fst (snd acc)))"
proof -
  obtain rd fresh replaced where a: "acc = (rd, fresh, replaced)" by (cases acc)
  have same: "steer_of rd = steer_of rd0" "frame_of rd = frame_of rd0" using acc by (simp_all add: a fresh_ok_def)
  have add: "fresh_ok cx st0 rd0 (rd, fresh @ [w], if hasPerf rd p then p # replaced else replaced)"
    if "new_want cx st0 (steer_of rd0) w" "want_prefix w = p" for w
    using acc new that hasPerf_frame [OF same(2)] by (auto simp: a fresh_ok_def)
  have note_ok: "fresh_ok cx st0 rd0 (note_move p mv rsn rd, fresh, replaced)" for mv rsn
    using acc by (simp add: a fresh_ok_def)
  have w: "want_prefix (commit_want cx p nat0 mv) = p" for nat0 mv by (simp add: commit_want_def)
  define Q where "Q acc' \<longleftrightarrow> fresh_ok cx st0 rd0 acc' \<and>
      want_prefix ` set (fst (snd acc')) \<subseteq> insert p (want_prefix ` set fresh)" for acc'
  have Q: "Q (rd, fresh, replaced)" "Q (note_move p mv rsn rd, fresh, replaced)" for mv rsn
    using acc note_ok by (auto simp: Q_def a)
  have Qadd: "Q (rd, fresh @ [commit_want cx p nat0 mv], if hasPerf rd p then p # replaced else replaced)"
    if "new_want cx st0 (steer_of rd0) (commit_want cx p nat0 mv)" for nat0 mv
    using add [OF that w] by (auto simp: Q_def w)
  have "Q (fresh_step cx pw handled acc p)"
    using Q Qadd [OF commit_want_ok [OF ok p same]]
    unfolding a fresh_step_def Let_def prod.case by (auto split: option.split)
  then show ?thesis by (simp add: Q_def a)
qed

lemma disjoint_grow: "A \<subseteq> insert p B \<Longrightarrow> p \<notin> C \<Longrightarrow> B \<inter> C = {} \<Longrightarrow> A \<inter> C = {}"
  by blast

lemma fresh_fold_ok:
  assumes ok: "round_ok cx st0 D (with_holds [] rd0)"
  shows "fresh_ok cx st0 rd0 acc \<Longrightarrow> distinct ps \<Longrightarrow> set ps \<subseteq> fmdom' (rd_commitOK rd0) \<Longrightarrow>
     want_prefix ` set (fst (snd acc)) \<inter> set ps = {} \<Longrightarrow> fresh_ok cx st0 rd0 (foldl (fresh_step cx pw handled) acc ps)"
proof (induction ps arbitrary: acc)
  case Nil
  then show ?case by simp
next
  case (Cons p ps)
  have step: "fresh_ok cx st0 rd0 (fresh_step cx pw handled acc p)"
    "want_prefix ` set (fst (snd (fresh_step cx pw handled acc p))) \<subseteq> insert p (want_prefix ` set (fst (snd acc)))"
    using fresh_step_ok [OF ok Cons.prems(1), of p pw handled] Cons.prems by auto
  from step(2) have "want_prefix ` set (fst (snd (fresh_step cx pw handled acc p))) \<inter> set ps = {}"
    by (rule disjoint_grow) (use Cons.prems(2,4) in auto)
  then show ?case using step(1) Cons.prems by (simp, intro Cons.IH) auto
qed

section \<open>The waiting moves\<close>

definition wants_ok :: "ctx \<Rightarrow> State \<Rightarrow> steer \<Rightarrow> pending list \<Rightarrow> bool" where
  "wants_ok cx st0 s ws \<longleftrightarrow> distinct (map want_prefix ws) \<and> (\<forall>w \<in> set ws. new_want cx st0 s w)"

lemma integrateCommit_ok:
  assumes ok: "round_ok cx st0 D rd"
  defines "rd' \<equiv> integrateCommit cx rd"
  shows "runs cx st0 (steer_of rd) (steer_of rd') \<and> wants_ok cx st0 (steer_of rd') (rd_wants rd')"
proof (cases "sc_Planner (cx_scorer cx)")
  case None
  have "round_ok cx st0 D (with_holds (rd_holds rd) rd)" using ok by simp
  note fold = hold_fold [OF no_planner_step_on_prefix this]
  have "rd' = foldl (no_planner_step cx) rd (rd_holds rd)" using None by (simp add: rd'_def integrateCommit_def)
  then show ?thesis using fold round_okD(5,6) [OF conjunct1 [OF fold]] by (simp add: wants_ok_def)
next
  case (Some plan)
  let ?pw = "planView cx plan rd" and ?hd = "\<lambda>p. list_ex (\<lambda>h. hold_prefix h = p) (rd_holds rd)"
  let ?rd1 = "foldl (hold_step cx ?pw) rd (rd_holds rd)"
  have "round_ok cx st0 D (with_holds (rd_holds rd) rd)" using ok by simp
  note fold = hold_fold [OF hold_step_on_prefix [where pw = ?pw] this]
  let ?r = "with_holds [] ?rd1" and ?acc = "foldl (fresh_step cx ?pw ?hd) (?rd1, [], []) (sortedCommitOK (rd_commitOK ?rd1))"
  obtain rd2 fresh replaced where acc: "?acc = (rd2, fresh, replaced)" by (cases ?acc)
  have "fresh_ok cx st0 ?rd1 ?acc"
    by (rule fresh_fold_ok [OF conjunct1 [OF fold]]) (auto simp: fresh_ok_def sortedCommitOK_def)
  then have "fresh_ok cx st0 ?rd1 (rd2, fresh, replaced)" unfolding acc .
  then have fresh: "steer_of rd2 = steer_of ?rd1" "frame_of rd2 = frame_of ?rd1" "distinct (map want_prefix fresh)"
    "\<And>w. w \<in> set fresh \<Longrightarrow> new_want cx st0 (steer_of ?rd1) w"
    "\<And>w. w \<in> set fresh \<Longrightarrow> hasPerf ?rd1 (want_prefix w) \<Longrightarrow> want_prefix w \<in> set replaced"
    by (auto simp: fresh_ok_def)
  note old = round_okD(5,6) [OF conjunct1 [OF fold]] and f = frame_ofD [OF fresh(2)]
  let ?kept = "filter (\<lambda>w. \<not> (\<not> w_commit w \<and> want_prefix w \<in> set replaced)) (rd_wants rd2)"
  have rd': "rd' = rd2\<lparr>rd_wants := ?kept @ fresh\<rparr>"
    using Some acc by (simp add: rd'_def integrateCommit_def Let_def)
  have "want_prefix v \<noteq> want_prefix w" if v: "v \<in> set ?kept" and w: "w \<in> set fresh" for v w
  proof
    assume eq: "want_prefix v = want_prefix w"
    have "v \<in> set (rd_wants ?rd1)" using v f(2) by simp
    moreover from this have "\<not> w_commit v" using old(2) [of v] by simp
    ultimately have "hasPerf ?rd1 (want_prefix w)" using eq by (auto simp: hasPerf_def list_ex_iff)
    then show False using fresh(5) [OF w] v eq \<open>\<not> w_commit v\<close> by auto
  qed
  then have "want_prefix ` set ?kept \<inter> want_prefix ` set fresh = {}" by blast
  moreover have "distinct (map want_prefix ?kept)" using old(1) f(2) by (simp add: distinct_map_filter)
  ultimately have "distinct (map want_prefix (?kept @ fresh))" using fresh(3) by simp
  then show ?thesis using fold old(2) f(2) fresh(1,4) by (auto simp: rd' wants_ok_def)
qed

text \<open>Retiring a steered prefix leaves the waiting moves valid.\<close>

lemma wants_ok_other:
  assumes "wants_ok cx st0 s ws" and "asteps cx st0 p s s'" and "p \<notin> want_prefix ` set ws"
  shows "wants_ok cx st0 s' ws"
proof -
  have "free_prefix s' (want_prefix w) = free_prefix s (want_prefix w)" if "w \<in> set ws" for w
    by (rule other_prefix_stable(2) [OF assms(2)]) (use that assms(3) in auto)
  then show ?thesis using assms(1) by (simp add: wants_ok_def new_want_def)
qed

lemma wants_ok_free: "wants_ok cx st0 s ws \<Longrightarrow> fmlookup (a_imps s) p = Some imp \<Longrightarrow> p \<notin> want_prefix ` set ws"
  by (auto simp: wants_ok_def new_want_def free_prefix_def)

text \<open>A phase that only retires: it is a run, it keeps the waiting moves and it steers no further prefix.\<close>

definition retiring :: "ctx \<Rightarrow> State \<Rightarrow> round \<Rightarrow> round \<Rightarrow> bool" where
  "retiring cx st0 rd rd' \<longleftrightarrow>
     runs cx st0 (steer_of rd) (steer_of rd') \<and> rd_wants rd' = rd_wants rd \<and>
     (\<forall>ws. wants_ok cx st0 (steer_of rd) ws \<longrightarrow> wants_ok cx st0 (steer_of rd') ws) \<and>
     fmlen (improvements rd') \<le> fmlen (improvements rd)"

lemma retiring_refl: "steer_of rd' = steer_of rd \<Longrightarrow> rd_wants rd' = rd_wants rd \<Longrightarrow> retiring cx st0 rd rd'"
  by (simp add: retiring_def a_imps_steer_of [symmetric])

lemma retiring_trans: "retiring cx st0 rd rd' \<Longrightarrow> retiring cx st0 rd' rd'' \<Longrightarrow> retiring cx st0 rd rd''"
  by (auto simp: retiring_def intro: runs_trans)

lemma retiring_retire:
  assumes imp: "fmlookup (improvements rd) p = Some imp"
    and same: "steer_of rd' = steer_of (cx_retire cx p rsn cool rd)" "rd_wants rd' = rd_wants rd"
  shows "retiring cx st0 rd rd'"
proof -
  have imp': "fmlookup (a_imps (steer_of rd)) p = Some imp" using imp by (simp add: a_imps_steer_of)
  note run = retire_asteps [OF imp', of cx st0 rsn cool]
  have "fmlen (improvements rd') \<le> fmlen (improvements rd)"
    using arg_cong [OF same(1), of a_imps] by (simp add: a_imps_steer_of improvements_cx_retire fmlen_drop_le)
  moreover have "wants_ok cx st0 (steer_of rd') ws" if "wants_ok cx st0 (steer_of rd) ws" for ws
    using wants_ok_other [OF that run wants_ok_free [OF that imp']] same(1) by simp
  ultimately show ?thesis using asteps_runs [OF run] same by (simp add: retiring_def)
qed

section \<open>Trimming to the cap\<close>

lemma retire_cx: "retire (cx_cfg cx) (cx_now cx) = cx_retire cx"
  by (simp add: fun_eq_iff cx_retire_def)

lemma rd_wants_retire [simp]: "rd_wants (cx_retire cx p rsn cool rd) = rd_wants rd"
  using frame_ofD(2) [OF frame_of_retire] .

lemma rd_wants_dec [simp]:
  "rd_wants (setDecision p a rsn cur rec cs rd) = rd_wants rd" "rd_wants (retiredDecision p rsn cur rd) = rd_wants rd"
  by (simp_all add: dec_defs)

lemma trim_loop_retiring:
  "distinct ps \<Longrightarrow> set ps \<subseteq> fmdom' (improvements rd) \<Longrightarrow>
     retiring cx st0 rd (trim_loop (cx_cfg cx) (cx_now cx) ps rd)"
proof (induction ps arbitrary: rd)
  case Nil
  then show ?case by (simp add: retiring_refl)
next
  case (Cons p ps)
  let ?imp = "fmget zeroImprovement (improvements rd) p" and ?rsn = "RCapped (cfg_MaxImprovements (cx_cfg cx))"
  let ?rd1 = "retiredDecision p ?rsn (imp_Native ?imp) (cx_retire cx p ?rsn False rd)"
  obtain imp where imp: "fmlookup (improvements rd) p = Some imp" using Cons.prems by (auto simp: fmdom'_iff)
  have "retiring cx st0 rd ?rd1" by (rule retiring_retire [OF imp]) simp_all
  moreover have "improvements ?rd1 = fmdrop p (improvements rd)"
    by (simp add: retiredDecision_def improvements_cx_retire)
  then have "retiring cx st0 ?rd1 (trim_loop (cx_cfg cx) (cx_now cx) ps ?rd1)"
    using Cons.prems by (intro Cons.IH) auto
  ultimately show ?case
    by (auto simp: Let_def retire_cx retiring_refl intro: retiring_trans)
qed

lemma trim_loop_cap:
  assumes "0 \<le> cfg_MaxImprovements cfg"
  shows "fmdom' (improvements rd) \<subseteq> set ps \<Longrightarrow>
     int (fmlen (improvements (trim_loop cfg now ps rd))) \<le> cfg_MaxImprovements cfg"
proof (induction ps arbitrary: rd)
  case Nil
  then show ?case using assms by (simp add: fmlen_def)
next
  case (Cons p ps)
  let ?imp = "fmget zeroImprovement (improvements rd) p" and ?rsn = "RCapped (cfg_MaxImprovements cfg)"
  let ?rd1 = "retiredDecision p ?rsn (imp_Native ?imp) (retire cfg now p ?rsn False rd)"
  have "fmdom' (improvements ?rd1) \<subseteq> set ps" using Cons.prems by (auto simp: retiredDecision_def)
  from Cons.IH [OF this] show ?case by (simp add: Let_def)
qed

lemma trim_order:
  "distinct (map ti_p (sort_by trim_less (map (\<lambda>p. \<lparr>ti_p = p, ti_rank = f p, ti_gain = g p\<rparr>) (SortedKeys m))))"
  "set (map ti_p (sort_by trim_less (map (\<lambda>p. \<lparr>ti_p = p, ti_rank = f p, ti_gain = g p\<rparr>) (SortedKeys m)))) = fmdom' m"
  by (simp_all add: distinct_map_sort_by o_def image_image)

lemma trimToCap_retiring: "retiring cx st0 rd (trimToCap (cx_cfg cx) (cx_now cx) pols rd)"
  unfolding trimToCap_def Let_def
  by (auto simp: retiring_refl simp del: set_map list.map_comp intro!: trim_loop_retiring trim_order(1) simp: trim_order(2))

lemma trimToCap_cap:
  "0 \<le> cfg_MaxImprovements cfg \<Longrightarrow>
     int (fmlen (improvements (trimToCap cfg now pols rd))) \<le> cfg_MaxImprovements cfg"
  unfolding trimToCap_def Let_def
  by (auto simp del: set_map list.map_comp intro!: trim_loop_cap simp: trim_order(2))

section \<open>Shedding\<close>

definition shed_cand_ok :: "(prefix, Improvement) fmap \<Rightarrow> shedCandidate \<Rightarrow> bool" where
  "shed_cand_ok m c \<longleftrightarrow> fmlookup m (imp_Prefix (sh_imp c)) = Some (sh_imp c)"

lemma steer_of_shedAt [simp]: "steer_of (upd_st (\<lambda>st. st\<lparr>s_shedAt := f st\<rparr>) rd) = steer_of rd"
  by (simp add: steer_of_def improvements_def changes_def upd_st_def)

lemma rd_wants_simps [simp]:
  "rd_wants (upd_st f rd) = rd_wants rd" "rd_wants (add_overload ov rd) = rd_wants rd"
  by (simp_all add: upd_st_def add_overload_def)

lemma shed_step_fields:
  "steer_of (shed_step (cx_cfg cx) (cx_now cx) name l c rd) =
     steer_of (cx_retire cx (imp_Prefix (sh_imp c)) (RShed name (pl_pct l (pl_used l)) (pl_capacity l) (pl_limitPct l)) True rd)"
  "rd_wants (shed_step (cx_cfg cx) (cx_now cx) name l c rd) = rd_wants rd"
  by (simp_all add: shed_step_def Let_def retire_cx)

lemma shed_loop_retiring:
  "distinct (map (\<lambda>c. imp_Prefix (sh_imp c)) cs) \<Longrightarrow> \<forall>c \<in> set cs. shed_cand_ok (improvements rd) c \<Longrightarrow>
     retiring cx st0 rd (shed_loop (cx_cfg cx) (cx_now cx) name cs rd)"
proof (induction cs arbitrary: rd)
  case Nil
  then show ?case by (simp add: retiring_refl)
next
  case (Cons c cs)
  show ?case
  proof (cases "gateLoad rd name")
    case None
    then show ?thesis by (simp add: retiring_refl)
  next
    case (Some l)
    let ?p = "imp_Prefix (sh_imp c)" and ?rd = "shed_step (cx_cfg cx) (cx_now cx) name l c rd"
    have imp: "fmlookup (improvements rd) ?p = Some (sh_imp c)" using Cons.prems by (simp add: shed_cand_ok_def)
    have step: "retiring cx st0 rd ?rd" by (rule retiring_retire [OF imp shed_step_fields])
    have imps: "improvements ?rd = fmdrop ?p (improvements rd)"
      using arg_cong [OF shed_step_fields(1), of a_imps] by (simp add: a_imps_steer_of improvements_cx_retire)
    have "shed_cand_ok (improvements ?rd) c'" if "c' \<in> set cs" for c'
    proof -
      have "imp_Prefix (sh_imp c') \<noteq> ?p" using Cons.prems(1) imageI [OF that, of "\<lambda>c. imp_Prefix (sh_imp c)"] by auto
      then show ?thesis using Cons.prems(2) that unfolding imps by (simp add: shed_cand_ok_def)
    qed
    then have "retiring cx st0 ?rd (shed_loop (cx_cfg cx) (cx_now cx) name cs ?rd)"
      using Cons.prems(1) by (intro Cons.IH) simp_all
    from retiring_trans [OF step this] step show ?thesis by (simp add: Some Let_def)
  qed
qed

text \<open>The improvements of a table, in prefix order, are listed under their own prefixes.\<close>

lemma keyed_values:
  assumes "keyed m"
  shows "map imp_Prefix (map (fmget zeroImprovement m) (SortedKeys m)) = SortedKeys m"
    and "imp \<in> set (map (fmget zeroImprovement m) (SortedKeys m)) \<Longrightarrow> fmlookup m (imp_Prefix imp) = Some imp"
proof -
  have "imp_Prefix (fmget zeroImprovement m p) = p \<and> fmlookup m p = Some (fmget zeroImprovement m p)" if "p \<in> fmdom' m" for p
    using that assms by (auto simp: fmdom'_iff fmget_Some keyed_def)
  then show "map imp_Prefix (map (fmget zeroImprovement m) (SortedKeys m)) = SortedKeys m"
    "imp \<in> set (map (fmget zeroImprovement m) (SortedKeys m)) \<Longrightarrow> fmlookup m (imp_Prefix imp) = Some imp"
    by (auto intro: map_idI)
qed

lemma shed_one_retiring:
  assumes "keyed (improvements rd)"
  shows "retiring cx st0 rd (shed_one (cx_cfg cx) (cx_now cx) rd name)"
proof -
  define vs where "vs = map (fmget zeroImprovement (improvements rd)) (SortedKeys (improvements rd))"
  have vs: "distinct (map imp_Prefix vs)" "\<And>imp. imp \<in> set vs \<Longrightarrow> fmlookup (improvements rd) (imp_Prefix imp) = Some imp"
    unfolding vs_def by (simp_all only: keyed_values(1) [OF assms] distinct_SortedKeys) (rule keyed_values(2) [OF assms])
  have "retiring cx st0 rd (shed_loop (cx_cfg cx) (cx_now cx) name
      (sort_by shed_less (map (\<lambda>imp. \<lparr>sh_imp = imp, sh_gain = g imp, sh_vol = v imp\<rparr>) (filter P vs))) rd)" for P g v
    using distinct_map_filter [OF vs(1), of P] vs(2)
    by (intro shed_loop_retiring) (auto simp: distinct_map_sort_by o_def shed_cand_ok_def)
  then show ?thesis
    unfolding shed_one_def Let_def vs_def [symmetric] by (auto simp: retiring_refl split: option.split)
qed

lemma retiring_keyed: "retiring cx st0 rd rd' \<Longrightarrow> keyed (improvements rd) \<Longrightarrow> keyed (improvements rd')"
  using wf.run_keeps by (fastforce simp: retiring_def wf_steer_def a_imps_steer_of)

lemma shed_retiring:
  assumes "keyed (improvements rd)"
  shows "retiring cx st0 rd (shed (cx_cfg cx) (cx_now cx) rd)"
proof -
  have "retiring cx st0 rd (foldl (shed_one (cx_cfg cx) (cx_now cx)) rd names)" for names
    using assms
  proof (induction names arbitrary: rd)
    case Nil
    then show ?case by (simp add: retiring_refl)
  next
    case (Cons n ns)
    note one = shed_one_retiring [OF Cons.prems, of cx st0 n]
    show ?case using retiring_trans [OF one Cons.IH [OF retiring_keyed [OF one Cons.prems]]] by simp
  qed
  then show ?thesis by (simp add: shed_def retiring_refl split: option.split)
qed

section \<open>Weighing\<close>

lemma w_imp_weigh [simp]: "w_imp (weigh f vol w) = w_imp w"
  by (simp add: weigh_def)

lemma weigh_fold:
  "steer_of (foldl (\<lambda>rd w. if w_rank w \<ge> rankPlanned then rd else upd_dec (p w) (g w) rd) rd ws) = steer_of rd \<and>
   rd_wants (foldl (\<lambda>rd w. if w_rank w \<ge> rankPlanned then rd else upd_dec (p w) (g w) rd) rd ws) = rd_wants rd"
  by (induction ws arbitrary: rd) auto

lemma weighWants_fields:
  "steer_of (weighWants scorer vol rd) = steer_of rd"
  "map w_imp (rd_wants (weighWants scorer vol rd)) = map w_imp (rd_wants rd)"
  by (auto simp: weighWants_def Let_def weigh_fold split: option.split)

lemma wants_ok_map:
  assumes "map w_imp ws' = map w_imp ws" and "wants_ok cx st0 s ws"
  shows "wants_ok cx st0 s ws'"
proof -
  have "map want_prefix ws' = map want_prefix ws"
    using arg_cong [OF assms(1), of "map imp_Prefix"] by (simp add: o_def)
  moreover have "w_imp ` set ws' = w_imp ` set ws" using arg_cong [OF assms(1), of set] by simp
  then have "\<exists>v \<in> set ws. w_imp v = w_imp w" if "w \<in> set ws'" for w
    using imageI [OF that, of w_imp] by auto
  then have "new_want cx st0 s w" if "w \<in> set ws'" for w
    using that assms(2) by (fastforce simp: wants_ok_def new_want_def)
  ultimately show ?thesis using assms(2) by (simp add: wants_ok_def)
qed

section \<open>Admission\<close>

lemma displaceCommit_retiring:
  assumes "displaceCommit (cx_cfg cx) (cx_now cx) vol rd = Some rd'"
  shows "retiring cx st0 rd rd'"
proof -
  from assms obtain p where p: "displace_pick (improvements rd) vol = Some p"
    and rd': "rd' = setDecision p ActionRetire RDisplaced (imp_Native (fmget zeroImprovement (improvements rd) p)) []
        (imp_Cause (fmget zeroImprovement (improvements rd) p)) (cx_retire cx p RDisplaced True rd)"
    by (auto simp: displaceCommit_def Let_def retire_cx split: option.splits)
  obtain imp where imp: "fmlookup (improvements rd) p = Some imp"
    using displace_pick_Some(1) [OF p] by (auto simp: fmdom'_iff)
  show ?thesis by (rule retiring_retire [OF imp]) (simp_all add: rd')
qed

lemma cap_loop_spec:
  "retiring cx st0 rd (fst (cap_loop cx commit rd)) \<and>
   (snd (cap_loop cx commit rd) \<longrightarrow>
      int (fmlen (improvements (fst (cap_loop cx commit rd)))) < cfg_MaxImprovements (cx_cfg cx))"
proof (induction cx commit rd rule: cap_loop.induct)
  case (1 cx commit rd)
  let ?cap = "cfg_MaxImprovements (cx_cfg cx)"
  let ?d = "displaceCommit (cx_cfg cx) (cx_now cx) (in_VolumeMbps (cx_in cx)) rd"
  consider (free) "int (fmlen (improvements rd)) < ?cap"
    | (full) "\<not> int (fmlen (improvements rd)) < ?cap" "commit \<or> ?cap \<le> 0 \<or> ?d = None"
    | (displace) rd' where "\<not> int (fmlen (improvements rd)) < ?cap" "\<not> (commit \<or> ?cap \<le> 0)" "?d = Some rd'"
    by (cases ?d) auto
  then show ?case
  proof cases
    case free
    then show ?thesis by (simp add: cap_loop.simps [of cx commit rd] retiring_refl)
  next
    case full
    then show ?thesis by (auto simp: cap_loop.simps [of cx commit rd] retiring_refl Let_def split: option.split)
  next
    case displace
    then have "cap_loop cx commit rd = cap_loop cx commit rd'" by (subst cap_loop.simps) simp
    then show ?thesis
      using 1 [OF refl displace] retiring_trans [OF displaceCommit_retiring [OF displace(3), of st0]] by simp
  qed
qed

lemma take_want_step:
  assumes "new_want cx st0 (steer_of rd) w"
  shows "astep cx st0 (want_prefix w) (steer_of rd) (steer_of (take_want cx w rd))"
  using a_improve [of "steer_of rd" "want_prefix w" "w_imp w" cx st0] assms
  by (simp add: take_want_def Let_def new_want_def)

lemma take_want_len: "fmlen (improvements (take_want cx w rd)) \<le> Suc (fmlen (improvements rd))"
proof -
  have "a_imps (steer_of (take_want cx w rd)) = fmupd (want_prefix w) (w_imp w) (a_imps (steer_of rd))"
    by (simp add: take_want_def Let_def)
  then show ?thesis by (simp add: a_imps_steer_of fmlen_upd_le)
qed

text \<open>The outcomes of an admission: the move waits, its prefix is parked, or it takes a slot.\<close>

lemma admit_cases:
  obtains (waits) rd1 where "retiring cx st0 rd rd1" "steer_of (admit cx rd w) = steer_of rd1"
  | (parks) "steer_of (admit cx rd w) = (steer_of rd)\<lparr>a_quar := insert (want_prefix w) (a_quar (steer_of rd))\<rparr>"
  | (takes) rd1 where "retiring cx st0 rd rd1" "steer_of (admit cx rd w) = steer_of (take_want cx w rd1)"
      "int (fmlen (improvements rd1)) < cfg_MaxImprovements (cx_cfg cx)"
proof -
  let ?p = "want_prefix w" and ?rd0 = "set_cause (want_prefix w) (imp_Cause (w_imp w)) rd"
  let ?ref = "if imp_Cause (w_imp w) = CausePerformance then refuse (rd_gate ?rd0) (imp_Provider (w_imp w)) ?p else None"
  let ?rd1 = "fst (flap_check cx ?p ?rd0)"
  let ?cl = "cap_loop cx (w_commit w) ?rd1"
  have q: "retiring cx st0 rd ?rd1"
    by (rule retiring_refl) (simp, simp add: flap_check_def split_beta dec_defs)
  note cap = cap_loop_spec [of cx st0 ?rd1 "w_commit w"]
  have r: "retiring cx st0 rd (fst ?cl)" using cap retiring_trans [OF q] by blast
  consider (ref) n where "?ref = Some n" | (flap) "?ref = None" "snd (flap_check cx ?p ?rd0)"
    | (cap) "?ref = None" "\<not> snd (flap_check cx ?p ?rd0)" "\<not> snd ?cl"
    | (free) "?ref = None" "\<not> snd (flap_check cx ?p ?rd0)" "snd ?cl"
    by blast
  then show thesis
  proof cases
    case ref
    then show thesis by (intro waits [of rd]) (simp_all add: retiring_refl admit_def Let_def)
  next
    case flap
    then show thesis by (intro parks) (simp add: admit_def Let_def split_beta)
  next
    case cap
    then show thesis by (intro waits [OF r]) (simp add: admit_def Let_def split_beta)
  next
    case free
    then show thesis using cap_loop_spec [of cx st0 ?rd1 "w_commit w"] by (intro takes [OF r]) (simp_all add: admit_def Let_def split_beta)
  qed
qed

lemma admit_spec:
  assumes ok: "wants_ok cx st0 (steer_of rd) (w # ws)"
  shows "runs cx st0 (steer_of rd) (steer_of (admit cx rd w)) \<and> wants_ok cx st0 (steer_of (admit cx rd w)) ws"
proof -
  let ?p = "want_prefix w"
  have new: "new_want cx st0 (steer_of rd) w" and p: "?p \<notin> want_prefix ` set ws" and ws: "wants_ok cx st0 (steer_of rd) ws"
    using ok by (auto simp: wants_ok_def)
  show ?thesis
  proof (cases rule: admit_cases [of cx st0 rd w])
    case (waits rd1)
    then show ?thesis using ws by (auto simp: retiring_def)
  next
    case parks
    have "astep cx st0 ?p (steer_of rd) (steer_of (admit cx rd w))"
      unfolding parks by (rule a_park) (use new in \<open>simp add: new_want_def free_prefix_def\<close>)
    then have "asteps cx st0 ?p (steer_of rd) (steer_of (admit cx rd w))" ..
    then show ?thesis using wants_ok_other [OF ws _ p] asteps_runs by blast
  next
    case (takes rd1)
    then have run1: "runs cx st0 (steer_of rd) (steer_of rd1)" and ok1: "wants_ok cx st0 (steer_of rd1) (w # ws)"
      using ok by (auto simp: retiring_def)
    then have "new_want cx st0 (steer_of rd1) w" and ws1: "wants_ok cx st0 (steer_of rd1) ws"
      by (auto simp: wants_ok_def)
    from take_want_step [OF this(1)] have "asteps cx st0 ?p (steer_of rd1) (steer_of (take_want cx w rd1))" ..
    then show ?thesis
      using wants_ok_other [OF ws1 _ p] asteps_runs runs_trans [OF run1] takes(2) by metis
  qed
qed

lemma admit_cap:
  assumes "int (fmlen (improvements rd)) \<le> cfg_MaxImprovements (cx_cfg cx)"
  shows "int (fmlen (improvements (admit cx rd w))) \<le> cfg_MaxImprovements (cx_cfg cx)"
proof (cases rule: admit_cases [of cx undefined rd w])
  case (waits rd1)
  then show ?thesis using assms by (simp add: retiring_def a_imps_steer_of [symmetric])
next
  case parks
  then show ?thesis using assms by (simp add: a_imps_steer_of [symmetric])
next
  case (takes rd1)
  then show ?thesis using take_want_len [of cx w rd1] by (simp add: a_imps_steer_of [symmetric])
qed

lemma admit_fold:
  "wants_ok cx st0 (steer_of rd) ws \<Longrightarrow> runs cx st0 (steer_of rd) (steer_of (foldl (admit cx) rd ws))"
proof (induction ws arbitrary: rd)
  case Nil
  then show ?case by simp
next
  case (Cons w ws)
  note step = admit_spec [OF Cons.prems]
  show ?case using runs_trans [OF conjunct1 [OF step] Cons.IH [OF conjunct2 [OF step]]] by simp
qed

lemma admit_wants_run:
  assumes "wants_ok cx st0 (steer_of rd) (rd_wants rd)"
  shows "runs cx st0 (steer_of rd) (steer_of (admit_wants cx rd))"
  using assms unfolding admit_wants_def by (intro admit_fold) (simp add: wants_ok_def distinct_map_sort_by)

lemma admit_wants_cap:
  assumes "int (fmlen (improvements rd)) \<le> cfg_MaxImprovements (cx_cfg cx)"
  shows "int (fmlen (improvements (admit_wants cx rd))) \<le> cfg_MaxImprovements (cx_cfg cx)"
proof -
  have "int (fmlen (improvements (foldl (admit cx) rd ws))) \<le> cfg_MaxImprovements (cx_cfg cx)" for ws
    using assms by (induction ws arbitrary: rd) (simp_all add: admit_cap)
  then show ?thesis by (simp add: admit_wants_def)
qed

end
