(* ===== verification/Example.thy ===== *)
theory Example
  imports Decide Sample
begin

text \<open>
  A concrete evaluation, used by the witnesses of the properties of \<open>Decide\<close>: the native provider
  \<open>a\<close> loses a tenth of the packets while \<open>b\<close> loses none, so the prefix moves to \<open>b\<close>.
\<close>

text \<open>The improvement the example makes.\<close>

definition exImp :: Improvement where
  "exImp = mkImprovement exP ''b'' ''a'' exNow (RPerf ''b'' 10 0 (20 * Millisecond) (20 * Millisecond)) CausePerformance"

definition exRound :: "State \<times> Output" where
  "exRound = Decide NewState exInput exCfg exScorer exNow"

lemma ex_improvements: "s_Improvements (fst exRound) = fmupd exP exImp fmempty"
proof (rule fmap_ext)
  fix p
  have "fmlookup (s_Improvements (fst exRound)) exP = Some exImp" by code_simp
  moreover have "SortedKeys (s_Improvements (fst exRound)) = [exP]" by code_simp
  then have "fmdom' (s_Improvements (fst exRound)) = {exP}" by (metis set_SortedKeys list.set(1) list.set(2))
  ultimately show "fmlookup (s_Improvements (fst exRound)) p = fmlookup (fmupd exP exImp fmempty) p"
    by (cases "p = exP") (auto simp: fmdom'_iff intro: fmdom'I)
qed

lemma ex_changes:
  "o_Changes (snd exRound) = [\<lparr>ic_Action = ActionImprove, ic_Old = zeroImprovement, ic_New = exImp\<rparr>]"
  by code_simp

end
