(* ===== verification/Decide_Spec.thy ===== *)
theory Decide_Spec
  imports Phases Example
begin

text \<open>
  The properties of \<open>Decide\<close>. They follow from the refinement of the abstract machine of \<open>Steering\<close> and
  its invariants, except for the cap on the number of improvements and the stale RIB, which are
  properties of the phases themselves.
\<close>

section \<open>A round is a run\<close>

lemma weigh_retiring:
  "retiring cx st0 rd rd' \<Longrightarrow> wants_ok cx st0 (steer_of rd) (rd_wants rd) \<Longrightarrow>
     runs cx st0 (steer_of rd) (steer_of (weighWants sc vol rd')) \<and>
     wants_ok cx st0 (steer_of (weighWants sc vol rd')) (rd_wants (weighWants sc vol rd'))"
  by (auto simp: retiring_def weighWants_fields intro!: wants_ok_map [OF weighWants_fields(2)])

lemma run_round_spec:
  assumes wf: "wf_steer (steer_of rd)" and empty: "rd_wants rd = []" "rd_holds rd = []" "rd_commitOK rd = fmempty"
  shows "runs cx (rd_st rd) (steer_of rd) (steer_of (run_round cx rd))"
    and "safe_at cx (rd_st rd) p (steer_of (run_round cx rd))"
proof -
  let ?st0 = "rd_st rd" and ?rd1 = "decide_prefixes cx (start_round cx rd)"
  let ?rd2 = "integrateCommit cx ?rd1"
  let ?rd3 = "trimToCap (cx_cfg cx) (cx_now cx) (in_Policies (cx_in cx)) ?rd2"
  let ?rd4 = "shed (cx_cfg cx) (cx_now cx) ?rd3"
  let ?rd5 = "weighWants (cx_scorer cx) (volumes (cx_in cx)) ?rd4"
  note start = start_round_ok [OF wf empty, of cx]
  note loop = decide_prefixes_ok [OF start(1)]
  note plan = integrateCommit_ok [OF loop(1)]
  have run1: "runs cx ?st0 (steer_of rd) (steer_of ?rd1)" by (rule runs_trans [OF start(2) loop(2)])
  have run2: "runs cx ?st0 (steer_of ?rd1) (steer_of ?rd2)" and w2: "wants_ok cx ?st0 (steer_of ?rd2) (rd_wants ?rd2)"
    using plan by blast+
  have trim: "retiring cx ?st0 ?rd2 ?rd3" by (rule trimToCap_retiring)
  have "wf_steer (steer_of ?rd2)" by (rule wf.run_keeps [OF runs_trans [OF run1 run2] wf])
  then have "keyed (improvements ?rd3)"
    using retiring_keyed [OF trim] by (simp add: wf_steer_def a_imps_steer_of)
  note shed = shed_retiring [OF this, of cx ?st0]
  note weigh = weigh_retiring [OF retiring_trans [OF trim shed] w2, of "cx_scorer cx" "volumes (cx_in cx)"]
  have run5: "runs cx ?st0 (steer_of ?rd2) (steer_of (admit_wants cx ?rd5))"
    using runs_trans [OF conjunct1 [OF weigh] admit_wants_run [OF conjunct2 [OF weigh]]] .
  have e: "run_round cx rd = admit_wants cx ?rd5" by (simp add: run_round_def Let_def)
  show "runs cx ?st0 (steer_of rd) (steer_of (run_round cx rd))"
    unfolding e by (rule runs_trans [OF runs_trans [OF run1 run2] run5])
  have "safe_at cx ?st0 p (steer_of ?rd1)"
  proof (cases "p \<in> fmdom' (rd_by ?rd1)")
    case True
    then show ?thesis by (rule round_okD(4) [OF loop(1)])
  next
    case False
    then have "fmlookup (a_imps (steer_of ?rd1)) p = None"
      using round_okD(3) [OF loop(1)] fmdom'I by (cases "fmlookup (a_imps (steer_of ?rd1)) p") blast+
    then show ?thesis by (rule safe_at_none)
  qed
  then show "safe_at cx ?st0 p (steer_of (run_round cx rd))"
    unfolding e by (rule safe.run_keeps [OF runs_trans [OF run2 run5]])
qed

text \<open>Shedding never adds an improvement.\<close>

lemma improvements_shed_step:
  "improvements (shed_step cfg now name l c rd) = fmdrop (imp_Prefix (sh_imp c)) (improvements rd)"
  by (simp add: shed_step_def Let_def improvements_def upd_st_def add_overload_def retire_def add_change_def)

lemma shed_loop_len: "fmlen (improvements (shed_loop cfg now name cs rd)) \<le> fmlen (improvements rd)"
proof (induction cs arbitrary: rd)
  case Nil
  then show ?case by simp
next
  case (Cons c cs)
  have "fmlen (improvements (shed_step cfg now name l c rd)) \<le> fmlen (improvements rd)" for l
    by (simp add: improvements_shed_step fmlen_drop_le)
  then show ?case using Cons.IH by (auto simp: Let_def intro: order_trans split: option.split)
qed

lemma shed_len: "fmlen (improvements (shed cfg now rd)) \<le> fmlen (improvements rd)"
proof -
  have one: "fmlen (improvements (shed_one cfg now rd name)) \<le> fmlen (improvements rd)" for rd name
    unfolding shed_one_def Let_def by (auto simp: shed_loop_len split: option.split)
  have "fmlen (improvements (foldl (shed_one cfg now) rd names)) \<le> fmlen (improvements rd)" for names
    by (induction names arbitrary: rd) (auto intro: order_trans one)
  then show ?thesis by (simp add: shed_def split: option.split)
qed

lemma run_round_cap:
  assumes "0 \<le> cfg_MaxImprovements (cx_cfg cx)"
  shows "int (fmlen (improvements (run_round cx rd))) \<le> cfg_MaxImprovements (cx_cfg cx)"
proof -
  let ?rd2 = "integrateCommit cx (decide_prefixes cx (start_round cx rd))"
  let ?rd3 = "trimToCap (cx_cfg cx) (cx_now cx) (in_Policies (cx_in cx)) ?rd2"
  have "int (fmlen (improvements (shed (cx_cfg cx) (cx_now cx) ?rd3))) \<le> cfg_MaxImprovements (cx_cfg cx)"
    using trimToCap_cap [OF assms, of "cx_now cx" "in_Policies (cx_in cx)" ?rd2] shed_len [of "cx_cfg cx" "cx_now cx" ?rd3]
    by linarith
  moreover have "improvements (weighWants (cx_scorer cx) vol rd') = improvements rd'" for vol rd'
    using arg_cong [OF weighWants_fields(1), of a_imps] by (simp add: a_imps_steer_of)
  ultimately show ?thesis unfolding run_round_def Let_def by (intro admit_wants_cap) simp
qed

section \<open>The end of an evaluation\<close>

text \<open>The cost annotations change neither a prefix, a provider, a native provider nor a time.\<close>

lemma withCost_route [simp]:
  "imp_Prefix (withCost cfg vol imp) = imp_Prefix imp" "imp_Provider (withCost cfg vol imp) = imp_Provider imp"
  "imp_Native (withCost cfg vol imp) = imp_Native imp" "imp_Since (withCost cfg vol imp) = imp_Since imp"
  "imp_Cause (withCost cfg vol imp) = imp_Cause imp" "imp_Reason (withCost cfg vol imp) = imp_Reason imp"
  by (auto simp: withCost_def Let_def split: option.split)

lemma costed_change_route [simp]:
  "ic_Action (costed_change cfg vol ch) = ic_Action ch"
  "imp_Prefix (ic_Old (costed_change cfg vol ch)) = imp_Prefix (ic_Old ch)"
  "imp_Provider (ic_Old (costed_change cfg vol ch)) = imp_Provider (ic_Old ch)"
  "imp_Native (ic_Old (costed_change cfg vol ch)) = imp_Native (ic_Old ch)"
  "imp_Since (ic_Old (costed_change cfg vol ch)) = imp_Since (ic_Old ch)"
  "imp_Prefix (ic_New (costed_change cfg vol ch)) = imp_Prefix (ic_New ch)"
  "imp_Provider (ic_New (costed_change cfg vol ch)) = imp_Provider (ic_New ch)"
  "imp_Native (ic_New (costed_change cfg vol ch)) = imp_Native (ic_New ch)"
  "imp_Since (ic_New (costed_change cfg vol ch)) = imp_Since (ic_New ch)"
  by (simp_all add: costed_change_def)

lemma markPendingUrgent_changes [simp]: "o_Changes (markPendingUrgent st n out) = o_Changes out"
  by (simp add: markPendingUrgent_def)

lemma finish_fields:
  "s_Improvements (fst (finish cx subs rd)) = fmmap (withCost (cx_cfg cx) (in_VolumeMbps (cx_in cx))) (improvements rd)"
  "s_quarantine (fst (finish cx subs rd)) = s_quarantine (rd_st rd)"
  "s_Cooldown (fst (finish cx subs rd)) = s_Cooldown (rd_st rd)"
  "o_Changes (snd (finish cx subs rd)) = map (costed_change (cx_cfg cx) (in_VolumeMbps (cx_in cx))) (changes rd)"
  by (simp_all add: finish_def Let_def annotateCost_def improvements_def changes_def)

text \<open>The state an evaluation starts from, after cooldowns and quarantines expired.\<close>

definition start_state :: "State \<Rightarrow> Input \<Rightarrow> Config \<Rightarrow> time \<Rightarrow> State" where
  "start_state prev inp cfg now =
     fst (expireFlap (expire_cooldowns now prev) now (cfg_Flap (with_maintenance inp cfg)) zeroOutput)"

definition start_output :: "State \<Rightarrow> Input \<Rightarrow> Config \<Rightarrow> time \<Rightarrow> Output" where
  "start_output prev inp cfg now =
     snd (expireFlap (expire_cooldowns now prev) now (cfg_Flap (with_maintenance inp cfg)) zeroOutput)"

definition rib_stale :: "Input \<Rightarrow> bool" where
  "rib_stale inp \<longleftrightarrow> in_RIBEnabled inp \<and> \<not> in_RIBReady inp"

lemma start_state_fields:
  "s_Improvements (start_state prev inp cfg now) = s_Improvements prev"
  "s_Cooldown (start_state prev inp cfg now) = fmfilter (\<lambda>p. now < fmget 0 (s_Cooldown prev) p) (s_Cooldown prev)"
  "fmlookup (s_quarantine (start_state prev inp cfg now)) p =
     (case fmlookup (s_quarantine prev) p of
        None \<Rightarrow> None | Some q \<Rightarrow> if flap_enabled (cfg_Flap cfg) \<and> now < q_Until q then Some q else None)"
  "o_Changes (start_output prev inp cfg now) = []"
  by (simp_all add: start_state_def start_output_def expire_cooldowns_def expireFlap_quarantine still_parked_def
      with_maintenance_def zeroOutput_def split: option.split)

lemma Decide_fresh:
  assumes "\<not> rib_stale inp"
  shows "\<exists>subs. Decide prev inp cfg scorer now =
    finish (decide_ctx inp cfg scorer now) subs
      (run_round (decide_ctx inp cfg scorer now)
        (initial_round (start_state prev inp cfg now) (start_output prev inp cfg now)))"
  using assms by (auto simp: Decide_def rib_stale_def Let_def split_beta start_state_def start_output_def)

lemma initial_round_fields [simp]:
  "rd_st (initial_round st out) = st" "rd_wants (initial_round st out) = []" "rd_holds (initial_round st out) = []"
  "rd_commitOK (initial_round st out) = fmempty"
  "steer_of (initial_round st out) = \<lparr>a_imps = s_Improvements st, a_quar = fmdom' (s_quarantine st),
     a_cool = s_Cooldown st, a_log = o_Changes out\<rparr>"
  by (simp_all add: initial_round_def steer_of_def improvements_def changes_def)

text \<open>The abstract state an evaluation starts from.\<close>

definition start_steer :: "State \<Rightarrow> Input \<Rightarrow> Config \<Rightarrow> time \<Rightarrow> steer" where
  "start_steer prev inp cfg now =
     \<lparr>a_imps = s_Improvements prev, a_quar = fmdom' (s_quarantine (start_state prev inp cfg now)),
      a_cool = s_Cooldown (start_state prev inp cfg now), a_log = []\<rparr>"

lemma withSynthesized_frame:
  assumes "\<And>i c. f (i\<lparr>in_Results := c\<rparr>) = f i" and "\<And>i c. f (i\<lparr>in_Native := c\<rparr>) = f i"
    and "\<And>i c. f (i\<lparr>in_NoRoute := c\<rparr>) = f i" and "\<And>i c. f (i\<lparr>in_RPKI := c\<rparr>) = f i"
    and "\<And>i c. f (i\<lparr>in_IRR := c\<rparr>) = f i"
  shows "f (fst (withSynthesized inp)) = f inp"
proof -
  have step: "f (fst (synth_step inp r ic sr)) = f (fst ic)" for r ic sr
    by (cases ic) (simp add: synth_step_def Let_def assms)
  have inner: "f (fst (foldl (synth_step inp r) ic srs)) = f (fst ic)" for r ic srs
    by (rule foldl_frame [where f = "\<lambda>ic. f (fst ic)"]) (rule step)
  have "f (fst (foldl (\<lambda>ic r. if policy_keeps_whole inp (r_Prefix r) then ic
      else foldl (synth_step inp r) ic (r_Subranges r)) ic rs)) = f (fst ic)" for ic rs
    by (rule foldl_frame [where f = "\<lambda>ic. f (fst ic)"]) (simp add: inner)
  then show ?thesis by (simp add: withSynthesized_def)
qed

lemma decide_ctx_fields [simp]:
  "cx_cfg (decide_ctx inp cfg scorer now) = with_maintenance inp cfg" "cx_now (decide_ctx inp cfg scorer now) = now"
  "cx_in (decide_ctx inp cfg scorer now) = fst (withSynthesized inp)"
  "in_VolumeMbps (fst (withSynthesized inp)) = in_VolumeMbps inp"
  "in_ProviderUp (fst (withSynthesized inp)) = in_ProviderUp inp"
  "in_RIBEnabled (fst (withSynthesized inp)) = in_RIBEnabled inp"
  "in_Policies (fst (withSynthesized inp)) = in_Policies inp"
  by (simp_all add: decide_ctx_def split_beta withSynthesized_frame [where f = in_VolumeMbps]
      withSynthesized_frame [where f = in_ProviderUp] withSynthesized_frame [where f = in_RIBEnabled]
      withSynthesized_frame [where f = in_Policies])

text \<open>What \<open>finish\<close> shows of an abstract state: \<open>s\<close> with the cost annotations.\<close>

definition shows_as :: "steer \<Rightarrow> Config \<Rightarrow> (prefix \<Rightarrow> float64) \<Rightarrow> State \<times> Output \<Rightarrow> bool" where
  "shows_as s cfg vol so \<longleftrightarrow>
     s_Improvements (fst so) = fmmap (withCost cfg vol) (a_imps s) \<and> fmdom' (s_quarantine (fst so)) = a_quar s \<and>
     s_Cooldown (fst so) = a_cool s \<and> o_Changes (snd so) = map (costed_change cfg vol) (a_log s)"

lemma Decide_run:
  assumes fresh: "\<not> rib_stale inp" and wf: "keyed (s_Improvements prev)"
  obtains s where "runs (decide_ctx inp cfg scorer now) (start_state prev inp cfg now) (start_steer prev inp cfg now) s"
    and "\<And>p. safe_at (decide_ctx inp cfg scorer now) (start_state prev inp cfg now) p s"
    and "shows_as s (with_maintenance inp cfg) (in_VolumeMbps inp) (Decide prev inp cfg scorer now)"
proof -
  let ?cx = "decide_ctx inp cfg scorer now" and ?st = "start_state prev inp cfg now"
  let ?rd = "initial_round ?st (start_output prev inp cfg now)"
  obtain subs where d: "Decide prev inp cfg scorer now = finish ?cx subs (run_round ?cx ?rd)"
    using Decide_fresh [OF fresh] by blast
  have start: "steer_of ?rd = start_steer prev inp cfg now"
    by (simp add: start_steer_def start_state_fields)
  have "wf_steer (steer_of ?rd)" using wf by (simp add: wf_steer_def start_state_fields)
  note spec = run_round_spec [OF this, of ?cx, simplified]
  have "shows_as (steer_of (run_round ?cx ?rd)) (with_maintenance inp cfg) (in_VolumeMbps inp) (Decide prev inp cfg scorer now)"
    by (simp add: shows_as_def d finish_fields a_imps_steer_of) (simp add: steer_of_def)
  then show thesis using spec start that by simp
qed

text \<open>The invariant of the state between evaluations.\<close>

definition state_ok :: "State \<Rightarrow> bool" where
  "state_ok st \<longleftrightarrow>
     (\<forall>p imp. fmlookup (s_Improvements st) p = Some imp \<longrightarrow>
        imp_Prefix imp = p \<and> imp_Provider imp \<noteq> imp_Native imp \<and> fmlookup (s_quarantine st) p = None)"

lemma state_ok_keyed: "state_ok st \<Longrightarrow> keyed (s_Improvements st)"
  by (simp add: state_ok_def keyed_def)

lemma fmdom'_None: "p \<notin> fmdom' m \<longleftrightarrow> fmlookup m p = None"
  by (simp add: fmdom'_iff)

lemma start_steer_ok:
  assumes "state_ok prev"
  shows "wf_steer (start_steer prev inp cfg now)" "parked_apart (start_steer prev inp cfg now)"
    "off_native (start_steer prev inp cfg now)"
proof -
  have "fmlookup (s_Improvements prev) p = None" if "p \<in> fmdom' (s_quarantine (start_state prev inp cfg now))" for p
    using that assms by (cases "fmlookup (s_Improvements prev) p")
      (auto simp: fmdom'_iff start_state_fields state_ok_def split: option.splits if_splits)
  then show "wf_steer (start_steer prev inp cfg now)" "parked_apart (start_steer prev inp cfg now)"
    "off_native (start_steer prev inp cfg now)"
    using assms by (auto simp: start_steer_def wf_steer_def keyed_def parked_apart_def off_native_def state_ok_def)
qed

lemma stale_fold:
  "improvements (foldl (\<lambda>rd p. retire cfg now p rsn cool rd) rd ps) = fmdrop_set (set ps) (improvements rd)"
  by (induction ps arbitrary: rd) (auto intro: fmap_ext)

lemma stale_fold_changes:
  "distinct ps \<Longrightarrow> changes (foldl (\<lambda>rd p. retire cfg now p rsn cool rd) rd ps) = changes rd @
     map (\<lambda>p. \<lparr>ic_Action = ActionRetire, ic_Old = (fmget zeroImprovement (improvements rd) p)\<lparr>imp_Reason := rsn\<rparr>,
               ic_New = zeroImprovement\<rparr>) ps"
proof (induction ps arbitrary: rd)
  case Nil
  then show ?case by simp
next
  case (Cons p ps)
  have "changes (retire cfg now p rsn cool rd) = changes rd @ [\<lparr>ic_Action = ActionRetire,
      ic_Old = (fmget zeroImprovement (improvements rd) p)\<lparr>imp_Reason := rsn\<rparr>, ic_New = zeroImprovement\<rparr>]"
    by (simp add: retire_def Let_def changes_def add_change_def upd_st_def)
  moreover have "fmget zeroImprovement (improvements (retire cfg now p rsn cool rd)) q =
      fmget zeroImprovement (improvements rd) q" if "q \<in> set ps" for q
    using that Cons.prems by (auto simp: fmget_def)
  ultimately show ?case using Cons by (simp cong: map_cong)
qed

lemma imps_expire_cooldowns: "s_Improvements (expire_cooldowns now st) = s_Improvements st"
  by (simp add: expire_cooldowns_def)

lemma stale_fold_frame:
  "s_confirm (rd_st rd) = fmempty \<Longrightarrow> s_Cooldown (rd_st rd) = K \<Longrightarrow> o_Decisions (rd_out rd) = D \<Longrightarrow>
   s_confirm (rd_st (foldl (\<lambda>rd p. retire cfg now p rsn False rd) rd ps)) = fmempty \<and>
   s_Cooldown (rd_st (foldl (\<lambda>rd p. retire cfg now p rsn False rd) rd ps)) = K \<and>
   o_Decisions (rd_out (foldl (\<lambda>rd p. retire cfg now p rsn False rd) rd ps)) = D"
  by (induction ps arbitrary: rd) (simp_all add: retire_def Let_def upd_st_def add_change_def)

text \<open>
  What an evaluation shows of an abstract state. With a stale RIB it ends before \<open>annotateCost\<close>: the withdrawals are logged as
  they are.
\<close>

definition seen_as :: "steer \<Rightarrow> Input \<Rightarrow> Config \<Rightarrow> State \<times> Output \<Rightarrow> bool" where
  "seen_as s inp cfg so \<longleftrightarrow>
     (if rib_stale inp
      then s_Improvements (fst so) = a_imps s \<and> fmdom' (s_quarantine (fst so)) = a_quar s \<and>
        s_Cooldown (fst so) = a_cool s \<and> o_Changes (snd so) = a_log s
      else shows_as s (with_maintenance inp cfg) (in_VolumeMbps inp) so)"

lemma stale_fold_runs:
  "distinct ps \<Longrightarrow> (\<forall>p \<in> set ps. fmlookup (a_imps (steer_of rd)) p \<noteq> None) \<Longrightarrow>
   runs cx st0 (steer_of rd) (steer_of (foldl (\<lambda>rd p. cx_retire cx p rsn cool rd) rd ps))"
proof (induction ps arbitrary: rd)
  case (Cons p ps)
  let ?rd = "cx_retire cx p rsn cool rd"
  have "runs cx st0 (steer_of rd) (steer_of ?rd)"
    using Cons.prems asteps_runs [OF retire_asteps] by auto
  moreover have "runs cx st0 (steer_of ?rd) (steer_of (foldl (\<lambda>rd p. cx_retire cx p rsn cool rd) ?rd ps))"
    using Cons.prems by (intro Cons.IH) (auto simp: steer_of_retire)
  ultimately show ?case by simp
qed simp

lemma Decide_run_any:
  assumes wf: "keyed (s_Improvements prev)"
  obtains s where "runs (decide_ctx inp cfg scorer now) (start_state prev inp cfg now) (start_steer prev inp cfg now) s"
    and "seen_as s inp cfg (Decide prev inp cfg scorer now)"
proof (cases "rib_stale inp")
  case False
  show thesis by (rule Decide_run [OF False wf, of cfg scorer now]) (rule that, use False in \<open>simp_all add: seen_as_def\<close>)
next
  case True
  let ?cx = "decide_ctx inp cfg scorer now" and ?st = "start_state prev inp cfg now"
  let ?rd = "upd_st (\<lambda>st. st\<lparr>s_confirm := fmempty\<rparr>) (initial_round ?st (start_output prev inp cfg now))"
  let ?last = "foldl (\<lambda>rd p. cx_retire ?cx p RRibNotReady False rd) ?rd (SortedKeys (s_Improvements prev))"
  have start: "steer_of ?rd = start_steer prev inp cfg now"
    by (simp add: steer_of_def start_steer_def upd_st_def improvements_def changes_def initial_round_def start_state_fields)
  have d: "Decide prev inp cfg scorer now = (rd_st ?last, rd_out ?last)"
    using True by (simp add: Decide_def rib_stale_def Let_def split_beta stale_rib_def start_state_def [symmetric] cx_retire_def
        start_output_def [symmetric] improvements_def upd_st_def start_state_fields imps_expire_cooldowns)
  have "runs ?cx ?st (steer_of ?rd) (steer_of ?last)"
    by (rule stale_fold_runs) (simp_all add: start start_steer_def fmdom'_iff SortedKeys_def)
  moreover have "seen_as (steer_of ?last) inp cfg (Decide prev inp cfg scorer now)"
    using True by (simp add: seen_as_def d steer_of_def improvements_def changes_def)
  ultimately show thesis using that start by simp
qed

lemma start_output_decisions: "o_Decisions (start_output prev inp cfg now) = []"
proof -
  have "o_Decisions (snd (release_step now c so p)) = o_Decisions (snd so)" for c so p
    by (simp add: release_step_def split_beta split: option.split)
  then show ?thesis
    by (simp add: start_output_def expireFlap_def split_beta Let_def zeroOutput_def
        foldl_frame [where f = "\<lambda>so. o_Decisions (snd so)"])
qed

lemma state_ok_Decide:
  assumes "state_ok prev"
  shows "state_ok (fst (Decide prev inp cfg scorer now))"
proof (cases "rib_stale inp")
  case True
  then have "s_Improvements (fst (Decide prev inp cfg scorer now)) = fmempty"
    by (auto simp: Decide_def rib_stale_def Let_def split_beta stale_rib_def stale_fold
        improvements_def [symmetric] intro!: fmap_ext)
  then show ?thesis by (simp add: state_ok_def)
next
  case False
  obtain s where run: "runs (decide_ctx inp cfg scorer now) (start_state prev inp cfg now) (start_steer prev inp cfg now) s"
    and sh: "shows_as s (with_maintenance inp cfg) (in_VolumeMbps inp) (Decide prev inp cfg scorer now)"
    using Decide_run [OF False state_ok_keyed [OF assms]] by blast
  note start = start_steer_ok [OF assms, of inp cfg now]
  note inv = wf.run_keeps [OF run start(1)] apart.run_keeps [OF run start(2)] off_native.run_keeps [OF run start(3)]
  have park: "fmlookup (s_quarantine (fst (Decide prev inp cfg scorer now))) p = None"
    if "fmlookup (a_imps s) p = Some imp" for p imp
  proof -
    have "p \<notin> a_quar s" using inv(2) that by (auto simp: parked_apart_def)
    then show ?thesis using sh by (simp add: shows_as_def fmdom'_None [symmetric])
  qed
  show ?thesis
    using inv(1,3) sh park by (auto simp: state_ok_def shows_as_def wf_steer_def keyed_def off_native_def)
qed

text \<open>A prefix that cools down past this evaluation keeps its time and is not steered.\<close>

lemma Decide_cooling:
  assumes "keyed (s_Improvements prev)" and "fmlookup (s_Improvements prev) p = None"
    and "fmlookup (s_Cooldown prev) p = Some t" and "now < t"
  shows "fmlookup (s_Improvements (fst (Decide prev inp cfg scorer now))) p = None \<and>
         fmlookup (s_Cooldown (fst (Decide prev inp cfg scorer now))) p = Some t"
proof (cases "rib_stale inp")
  case True
  let ?rd = "initial_round (start_state prev inp cfg now) (start_output prev inp cfg now)"
  let ?rd1 = "upd_st (\<lambda>st. st\<lparr>s_confirm := fmempty\<rparr>) ?rd"
  let ?rd2 = "foldl (\<lambda>rd p. retire (with_maintenance inp cfg) now p RRibNotReady False rd) ?rd1 (SortedKeys (improvements ?rd1))"
  have d: "fst (Decide prev inp cfg scorer now) = rd_st ?rd2"
    using True by (simp add: Decide_def rib_stale_def Let_def split_beta stale_rib_def start_state_def [symmetric]
        start_output_def [symmetric])
  have "improvements ?rd2 = fmempty" by (auto simp: stale_fold intro!: fmap_ext)
  moreover have "s_Cooldown (rd_st ?rd2) = s_Cooldown (start_state prev inp cfg now)"
    by (rule stale_fold_frame [where D = "o_Decisions (rd_out ?rd1)", THEN conjunct2, THEN conjunct1])
      (simp_all add: upd_st_def)
  ultimately show ?thesis using assms(3,4) by (simp add: d improvements_def start_state_fields fmget_def)
next
  case False
  obtain s where run: "runs (decide_ctx inp cfg scorer now) (start_state prev inp cfg now) (start_steer prev inp cfg now) s"
    and sh: "shows_as s (with_maintenance inp cfg) (in_VolumeMbps inp) (Decide prev inp cfg scorer now)"
    using Decide_run [OF False assms(1)] by blast
  have "cooling p t (start_steer prev inp cfg now)"
    using assms(2-4) by (simp add: cooling_def start_steer_def start_state_fields fmget_def)
  from cooling.run_keeps [OF run this] show ?thesis using sh by (simp add: cooling_def shows_as_def)
qed

section \<open>The example meets the hypotheses\<close>

lemma ex_keyed: "keyed (s_Improvements NewState)"
  by (simp add: keyed_def NewState_def)

lemma ex_ready: "\<not> rib_stale exInput"
  by (simp add: rib_stale_def exInput_def exIn_def)

lemma ex_mode: "cfg_Mode exCfg = ''inject''"
  by (simp add: exCfg_def)

lemma ex_lookup: "fmlookup (s_Improvements (fst (Decide NewState exInput exCfg exScorer exNow))) exP = Some exImp"
  using ex_improvements by (simp add: exRound_def)

section \<open>Properties\<close>

text \<open>
  C1: a decision fails closed. After an evaluation with a usable RIB, every improvement, old or new,
  goes through a provider that is up, neither excluded nor in maintenance, and that a result of
  this evaluation measured for the prefix without error, with packets sent and recently enough; in
  inject mode the prefix is on the allowlist.
\<close>

theorem Decide_fails_closed:
  assumes "keyed (s_Improvements prev)" and "\<not> rib_stale inp"
    and "fmlookup (s_Improvements (fst (Decide prev inp cfg scorer now))) p = Some imp"
  shows "in_ProviderUp inp (imp_Provider imp) \<and> \<not> cfg_Excluded cfg (imp_Provider imp) \<and>
         imp_Provider imp \<notin> set (in_Maintenance inp) \<and>
         (cfg_Mode cfg = ''inject'' \<longrightarrow> CoveredBy (cfg_Allowlist cfg) p) \<and>
         (\<exists>r \<in> set (in_Results (fst (withSynthesized inp))).
            r_Prefix r = p \<and> r_Provider r = imp_Provider imp \<and> OK r \<and> st_Sent (r_Stats r) \<noteq> 0 \<and>
            (cfg_MaxResultAge cfg > 0 \<longrightarrow> time_sub now (r_Time r) \<le> cfg_MaxResultAge cfg))"
proof -
  let ?cx = "decide_ctx inp cfg scorer now" and ?st = "start_state prev inp cfg now"
  obtain s where safe: "\<And>p. safe_at ?cx ?st p s"
    and sh: "shows_as s (with_maintenance inp cfg) (in_VolumeMbps inp) (Decide prev inp cfg scorer now)"
    using Decide_run [OF assms(2,1)] by blast
  from sh assms(3) obtain imp0 where "fmlookup (a_imps s) p = Some imp0" "imp_Provider imp0 = imp_Provider imp"
    by (auto simp: shows_as_def)
  then have t: "safe_target ?cx ?st p (imp_Provider imp)" using safe [of p] by (auto simp: safe_at_def)
  then obtain r where "r \<in> set (in_Results (fst (withSynthesized inp)))" "r_Prefix r = p" "r_Provider r = imp_Provider imp"
    and "unusable_why ?cx ?st r (cand_base ?cx ?st r) = []"
    by (auto simp: safe_target_def usable_path_def list_ex_iff)
  moreover from this have "OK r" "in_ProviderUp inp (imp_Provider imp)" "st_Sent (r_Stats r) \<noteq> 0"
    "cfg_MaxResultAge cfg > 0 \<longrightarrow> time_sub now (r_Time r) \<le> cfg_MaxResultAge cfg"
    by (auto simp: unusable_why_def Let_def with_maintenance_def split: if_splits)
  ultimately show ?thesis
    using t by (auto simp: safe_target_def allowlisted_def with_maintenance_def)
qed

theorem Decide_fails_closed_witness:
  "in_ProviderUp exInput (imp_Provider exImp) \<and> \<not> cfg_Excluded exCfg (imp_Provider exImp) \<and>
   imp_Provider exImp \<notin> set (in_Maintenance exInput) \<and> CoveredBy (cfg_Allowlist exCfg) exP \<and>
   (\<exists>r \<in> set (in_Results (fst (withSynthesized exInput))).
      r_Prefix r = exP \<and> r_Provider r = imp_Provider exImp \<and> OK r \<and> st_Sent (r_Stats r) \<noteq> 0)"
  using Decide_fails_closed [OF ex_keyed ex_ready ex_lookup] ex_mode by blast

text \<open>
  C2: the cap holds. With a cap that is not negative, no evaluation ends with more improvements than
  \<open>max_improvements\<close>, whatever it started with.
\<close>

theorem Decide_respects_cap:
  assumes "0 \<le> cfg_MaxImprovements cfg"
  shows "int (fmlen (s_Improvements (fst (Decide prev inp cfg scorer now)))) \<le> cfg_MaxImprovements cfg"
proof (cases "rib_stale inp")
  case True
  have "s_Improvements (fst (Decide prev inp cfg scorer now)) = fmempty"
    using True
    by (auto simp: Decide_def rib_stale_def Let_def split_beta stale_rib_def stale_fold
        improvements_def [symmetric] intro!: fmap_ext)
  then show ?thesis using assms by simp
next
  case False
  have len: "fmlen (fmmap f m) = fmlen m" for f :: "Improvement \<Rightarrow> Improvement" and m :: "(prefix, Improvement) fmap"
    by (simp add: fmlen_def)
  have cap: "cfg_MaxImprovements (with_maintenance inp cfg) = cfg_MaxImprovements cfg"
    by (simp add: with_maintenance_def)
  show ?thesis using Decide_fresh [OF False, of prev cfg scorer now] assms
      run_round_cap [of "decide_ctx inp cfg scorer now"]
    by (auto simp: finish_fields len cap)
qed

theorem Decide_respects_cap_witness:
  "int (fmlen (s_Improvements (fst (Decide NewState exInput exCfg exScorer exNow)))) \<le> cfg_MaxImprovements exCfg"
  by (rule Decide_respects_cap) (simp add: exCfg_def)

text \<open>
  C3: the change log is the whole story. Replaying the changes of an evaluation, in order, on the
  provider of every steered prefix before it gives the provider of every steered prefix after it:
  an announcer that applies the log announces exactly the improvements.
\<close>

theorem Decide_log_replays:
  assumes "keyed (s_Improvements prev)"
  shows "replay (route_view (s_Improvements prev)) (o_Changes (snd (Decide prev inp cfg scorer now))) =
         route_view (s_Improvements (fst (Decide prev inp cfg scorer now)))"
proof -
  obtain s where run: "runs (decide_ctx inp cfg scorer now) (start_state prev inp cfg now) (start_steer prev inp cfg now) s"
    and sh: "seen_as s inp cfg (Decide prev inp cfg scorer now)"
    using Decide_run_any [OF assms] by blast
  have "replays (route_view (s_Improvements prev)) (start_steer prev inp cfg now)"
    using assms by (simp add: replays_def wf_steer_def start_steer_def)
  from log.run_keeps [OF run this]
  have "replay (route_view (s_Improvements prev)) (a_log s) = route_view (a_imps s)" by (simp add: replays_def)
  moreover have "replay m (map (costed_change c v) chs) = replay m chs" for m c v chs
    by (induction chs arbitrary: m) (simp_all add: replay_def apply_change_def)
  moreover have "route_view (fmmap (withCost c v) m) = route_view m" for c v m
    by (rule fmap_ext) (simp add: route_view_def option.map_comp o_def)
  ultimately show ?thesis using sh by (simp add: seen_as_def shows_as_def split: if_splits)
qed

theorem Decide_log_replays_witness:
  "replay (route_view (s_Improvements NewState)) (o_Changes (snd (Decide NewState exInput exCfg exScorer exNow))) =
   route_view (s_Improvements (fst (Decide NewState exInput exCfg exScorer exNow)))"
  by (rule Decide_log_replays [OF ex_keyed])

text \<open>
  C4: moves are guarded. Every change is a withdrawal, a switch or a new improvement. A switch
  waits out the hold time since the improvement it replaces and goes to a third provider, neither
  the current one nor the native one. A new improvement is for a prefix of the RIB whose native
  provider is known, never for a default route or an ignored prefix, never while the prefix cools
  down or is parked, and never onto the native provider.
\<close>

theorem Decide_moves_guarded:
  assumes "keyed (s_Improvements prev)" and "ch \<in> set (o_Changes (snd (Decide prev inp cfg scorer now)))"
  shows "ic_Action ch = ActionRetire \<or>
         ic_Action ch = ActionSwitch \<and>
           imp_Prefix (ic_New ch) = imp_Prefix (ic_Old ch) \<and> imp_Native (ic_New ch) = imp_Native (ic_Old ch) \<and>
           time_sub now (imp_Since (ic_Old ch)) \<ge> cfg_HoldTime cfg \<and> imp_Since (ic_New ch) = now \<and>
           imp_Provider (ic_New ch) \<noteq> imp_Provider (ic_Old ch) \<and> imp_Provider (ic_New ch) \<noteq> imp_Native (ic_New ch) \<or>
         ic_Action ch = ActionImprove \<and> in_RIBEnabled inp \<and>
           in_Native (fst (withSynthesized inp)) (imp_Prefix (ic_New ch)) = Some (imp_Native (ic_New ch)) \<and>
           imp_Native (ic_New ch) \<noteq> [] \<and> Bits (imp_Prefix (ic_New ch)) \<noteq> 0 \<and>
           \<not> ignored inp (imp_Prefix (ic_New ch)) \<and> imp_Since (ic_New ch) = now \<and>
           imp_Provider (ic_New ch) \<noteq> imp_Native (ic_New ch) \<and>
           (\<forall>until. fmlookup (s_Cooldown prev) (imp_Prefix (ic_New ch)) = Some until \<longrightarrow> until \<le> now) \<and>
           (\<forall>q. fmlookup (s_quarantine prev) (imp_Prefix (ic_New ch)) = Some q \<longrightarrow>
              \<not> (flap_enabled (cfg_Flap cfg) \<and> now < q_Until q))"
proof -
  let ?cx = "decide_ctx inp cfg scorer now" and ?st = "start_state prev inp cfg now"
  obtain s where run: "runs ?cx ?st (start_steer prev inp cfg now) s"
    and sh: "seen_as s inp cfg (Decide prev inp cfg scorer now)"
    using Decide_run_any [OF assms(1)] by blast
  have "log_ok ?cx ?st (start_steer prev inp cfg now)" "waited_out ?st (start_steer prev inp cfg now)"
    using assms(1) by (simp_all add: log_ok_def waited_out_def wf_steer_def start_steer_def)
  note inv = logged.run_keeps [OF run this(1)] waited.run_keeps [OF run this(2)]
  from assms(2) sh obtain ch0 where ch0: "ch0 \<in> set (a_log s)"
    and ch: "ch = ch0 \<or> ch = costed_change (with_maintenance inp cfg) (in_VolumeMbps inp) ch0"
    by (auto simp: seen_as_def shows_as_def split: if_splits)
  have ok: "change_ok ?cx ?st ch0" using inv(1) ch0 by (auto simp: log_ok_def list_all_iff)
  have wait: "imp_Prefix (ic_New ch0) \<notin> fmdom' (s_Cooldown ?st)" "imp_Prefix (ic_New ch0) \<notin> fmdom' (s_quarantine ?st)"
    if "ic_Action ch0 = ActionImprove"
    using inv(2) ch0 that by (auto simp: waited_out_def)
  have cool: "until \<le> now" if "ic_Action ch0 = ActionImprove"
    "fmlookup (s_Cooldown prev) (imp_Prefix (ic_New ch0)) = Some until" for until
    using wait(1) [OF that(1)] that(2) by (auto simp: fmdom'_iff start_state_fields fmget_def)
  have park: "\<not> (flap_enabled (cfg_Flap cfg) \<and> now < q_Until q)" if "ic_Action ch0 = ActionImprove"
    "fmlookup (s_quarantine prev) (imp_Prefix (ic_New ch0)) = Some q" for q
    using wait(2) [OF that(1)] that(2) by (auto simp: fmdom'_iff start_state_fields)
  have ign: "ignored (fst (withSynthesized inp)) p = ignored inp p" for p by (simp add: ignored_def)
  have hold: "cfg_HoldTime (with_maintenance inp cfg) = cfg_HoldTime cfg" by (simp add: with_maintenance_def)
  show ?thesis
    using ch ok cool park
    by (elim disjE) (auto simp: change_ok_def switch_ok_def new_move_ok_def steerable_def ign hold split: act.splits)
qed

theorem Decide_moves_guarded_witness:
  "let ch = \<lparr>ic_Action = ActionImprove, ic_Old = zeroImprovement, ic_New = exImp\<rparr> in
   ic_Action ch = ActionRetire \<or>
         ic_Action ch = ActionSwitch \<and>
           imp_Prefix (ic_New ch) = imp_Prefix (ic_Old ch) \<and> imp_Native (ic_New ch) = imp_Native (ic_Old ch) \<and>
           time_sub exNow (imp_Since (ic_Old ch)) \<ge> cfg_HoldTime exCfg \<and> imp_Since (ic_New ch) = exNow \<and>
           imp_Provider (ic_New ch) \<noteq> imp_Provider (ic_Old ch) \<and> imp_Provider (ic_New ch) \<noteq> imp_Native (ic_New ch) \<or>
         ic_Action ch = ActionImprove \<and> in_RIBEnabled exInput \<and>
           in_Native (fst (withSynthesized exInput)) (imp_Prefix (ic_New ch)) = Some (imp_Native (ic_New ch)) \<and>
           imp_Native (ic_New ch) \<noteq> [] \<and> Bits (imp_Prefix (ic_New ch)) \<noteq> 0 \<and>
           \<not> ignored exInput (imp_Prefix (ic_New ch)) \<and> imp_Since (ic_New ch) = exNow \<and>
           imp_Provider (ic_New ch) \<noteq> imp_Native (ic_New ch) \<and>
           (\<forall>until. fmlookup (s_Cooldown NewState) (imp_Prefix (ic_New ch)) = Some until \<longrightarrow> until \<le> exNow) \<and>
           (\<forall>q. fmlookup (s_quarantine NewState) (imp_Prefix (ic_New ch)) = Some q \<longrightarrow>
              \<not> (flap_enabled (cfg_Flap exCfg) \<and> exNow < q_Until q))"
  unfolding Let_def
  by (rule Decide_moves_guarded [where prev = NewState and inp = exInput and cfg = exCfg and scorer = exScorer])
    (use ex_changes in \<open>simp_all add: keyed_def NewState_def rib_stale_def ex_defs exRound_def\<close>)

text \<open>
  C6: a stale RIB withdraws everything. While the BGP session is down an evaluation retires every
  improvement, in prefix order and with its own reason, drops every half-confirmed move, decides
  nothing and starts no cooldown.
\<close>

theorem Decide_stale_rib:
  assumes "in_RIBEnabled inp" and "\<not> in_RIBReady inp"
  shows "s_Improvements (fst (Decide prev inp cfg scorer now)) = fmempty \<and>
         s_confirm (fst (Decide prev inp cfg scorer now)) = fmempty \<and>
         s_Cooldown (fst (Decide prev inp cfg scorer now)) =
           fmfilter (\<lambda>p. now < fmget 0 (s_Cooldown prev) p) (s_Cooldown prev) \<and>
         o_Decisions (snd (Decide prev inp cfg scorer now)) = [] \<and>
         o_Changes (snd (Decide prev inp cfg scorer now)) =
           map (\<lambda>p. \<lparr>ic_Action = ActionRetire,
                     ic_Old = (fmget zeroImprovement (s_Improvements prev) p)\<lparr>imp_Reason := RRibNotReady\<rparr>,
                     ic_New = zeroImprovement\<rparr>) (SortedKeys (s_Improvements prev))"
proof -
  let ?cfg = "with_maintenance inp cfg" and ?rd0 = "initial_round (start_state prev inp cfg now) (start_output prev inp cfg now)"
  let ?rd1 = "upd_st (\<lambda>st. st\<lparr>s_confirm := fmempty\<rparr>) ?rd0"
  let ?f = "\<lambda>rd p. retire ?cfg now p RRibNotReady False rd"
  have d: "Decide prev inp cfg scorer now =
      (rd_st (foldl ?f ?rd1 (SortedKeys (s_Improvements prev))), rd_out (foldl ?f ?rd1 (SortedKeys (s_Improvements prev))))"
    using assms by (simp add: Decide_def Let_def split_beta stale_rib_def start_state_def [symmetric]
        start_output_def [symmetric] improvements_def upd_st_def start_state_fields imps_expire_cooldowns)
  have i: "improvements ?rd1 = s_Improvements prev" by (simp add: improvements_def upd_st_def start_state_fields)
  have "improvements (foldl ?f ?rd1 (SortedKeys (s_Improvements prev))) = fmempty"
    by (auto simp: stale_fold i intro!: fmap_ext)
  moreover have "changes (foldl ?f ?rd1 (SortedKeys (s_Improvements prev))) =
      map (\<lambda>p. \<lparr>ic_Action = ActionRetire, ic_Old = (fmget zeroImprovement (s_Improvements prev) p)\<lparr>imp_Reason := RRibNotReady\<rparr>,
                ic_New = zeroImprovement\<rparr>) (SortedKeys (s_Improvements prev))"
    by (simp add: stale_fold_changes i) (simp add: changes_def upd_st_def initial_round_def start_state_fields)
  moreover have "s_confirm (rd_st (foldl ?f ?rd1 ps)) = fmempty \<and>
      s_Cooldown (rd_st (foldl ?f ?rd1 ps)) = s_Cooldown (start_state prev inp cfg now) \<and>
      o_Decisions (rd_out (foldl ?f ?rd1 ps)) = o_Decisions (start_output prev inp cfg now)" for ps
    by (rule stale_fold_frame) (simp_all add: upd_st_def initial_round_def)
  ultimately show ?thesis
    using start_output_decisions by (simp add: d improvements_def changes_def start_state_fields)
qed

theorem Decide_stale_rib_witness:
  "let inp = exIn False []; st = fst exRound; p = exP in
   s_Improvements (fst (Decide st inp exCfg exScorer exNow)) = fmempty \<and>
   s_confirm (fst (Decide st inp exCfg exScorer exNow)) = fmempty \<and>
   s_Cooldown (fst (Decide st inp exCfg exScorer exNow)) =
     fmfilter (\<lambda>p. exNow < fmget 0 (s_Cooldown st) p) (s_Cooldown st) \<and>
   o_Decisions (snd (Decide st inp exCfg exScorer exNow)) = [] \<and>
   o_Changes (snd (Decide st inp exCfg exScorer exNow)) =
     map (\<lambda>p. \<lparr>ic_Action = ActionRetire,
               ic_Old = (fmget zeroImprovement (s_Improvements st) p)\<lparr>imp_Reason := RRibNotReady\<rparr>,
               ic_New = zeroImprovement\<rparr>) (SortedKeys (s_Improvements st))"
  unfolding Let_def by (rule Decide_stale_rib) (simp_all add: exIn_def)

text \<open>
  The invariant of the state. If every improvement is stored under its own prefix, points away
  from the native provider and is not of a parked prefix, the same holds after any evaluation.
\<close>

theorem Decide_keeps_state_ok:
  assumes "state_ok prev"
  shows "state_ok (fst (Decide prev inp cfg scorer now))"
  using assms by (rule state_ok_Decide)

text \<open>
  C5: \<open>Decide\<close> refines the abstract machine. The improvements, the parked and cooling prefixes and the
  log of every evaluation are those of a run of guarded steps from the state before it, less the cooldowns and
  parkings whose time is over. They are shown with their cost annotations, and as they are when the RIB is stale.
\<close>

theorem Decide_refines:
  assumes "keyed (s_Improvements prev)"
  shows "\<exists>s. runs (decide_ctx inp cfg scorer now) (start_state prev inp cfg now) (start_steer prev inp cfg now) s \<and>
             seen_as s inp cfg (Decide prev inp cfg scorer now)"
  using Decide_run_any [OF assms] by blast

theorem Decide_refines_witness:
  "\<exists>s. runs (decide_ctx exInput exCfg exScorer exNow) (start_state NewState exInput exCfg exNow)
           (start_steer NewState exInput exCfg exNow) s \<and>
         seen_as s exInput exCfg (Decide NewState exInput exCfg exScorer exNow)"
  by (rule Decide_refines [OF ex_keyed])

end
