(* ===== verification/Engine.thy ===== *)
theory Engine
  imports Decide_Spec
begin

text \<open>
  The engine that wraps \<open>Decide\<close> with state (src/internal/policy/engine.go). An operation that takes the
  write lock is a function from engine to engine and its result, one that takes the read lock a
  function of the engine. The operations the other goroutines call are the constructors of \<open>engine_op\<close>, and
  \<open>reachable\<close> is the set of engines any interleaving of them can produce.
\<close>

section \<open>The engine\<close>

record Engine =
  e_cfg :: Config
  e_scorer :: Scorer
  e_state :: State
  e_last :: Output
  e_lastIn :: Input
  e_hasIn :: bool
  e_lastCfg :: Config
  e_at :: time

definition zeroConfig :: Config where
  "zeroConfig = \<lparr>cfg_Mode = [], cfg_MinLossDeltaPct = 0, cfg_MinRTTDelta = 0, cfg_MinRTTDeltaPct = 0,
     cfg_ConfirmRounds = 0, cfg_HoldTime = 0, cfg_MaxImprovements = 0, cfg_ImprovementTTL = 0,
     cfg_MaxResultAge = 0, cfg_Excluded = (\<lambda>_. False), cfg_RPKIAvoidInvalid = False,
     cfg_IRRPreferRegistered = False, cfg_RequireEvidence = False, cfg_Allowlist = [], cfg_Providers = [],
     cfg_Ports = [], cfg_Flap = \<lparr>fc_MaxFlips = 0, fc_Window = 0, fc_Cooldown = 0, fc_MaxCooldown = 0\<rparr>,
     cfg_MEDTieBreak = False, cfg_MEDMargin = 0\<rparr>"

definition zeroInput :: Input where
  "zeroInput = \<lparr>in_Results = [], in_ProviderUp = (\<lambda>_. False), in_RIBEnabled = False, in_RIBReady = False,
     in_Native = (\<lambda>_. None), in_Held = None, in_Usage = [], in_Load = (\<lambda>_. None), in_VolumeMbps = (\<lambda>_. 0),
     in_WeightVolumeMbps = None, in_Policies = (\<lambda>_. None), in_Maintenance = [], in_NoRoute = (\<lambda>_. None),
     in_EgressDown = (\<lambda>_. False), in_RPKI = (\<lambda>_. None), in_IRR = (\<lambda>_. None), in_Remote = (\<lambda>_. False),
     in_Reorder = (\<lambda>_. None), in_Passive = (\<lambda>_. None), in_MED = (\<lambda>_. None), in_Synthesize = fmempty\<rparr>"

definition NewEngine :: "Config \<Rightarrow> Scorer \<Rightarrow> Engine" where
  "NewEngine cfg scorer =
     \<lparr>e_cfg = cfg, e_scorer = scorer, e_state = NewState, e_last = zeroOutput, e_lastIn = zeroInput, e_hasIn = False,
      e_lastCfg = zeroConfig, e_at = 0\<rparr>"

definition Evaluate :: "Engine \<Rightarrow> Input \<Rightarrow> time \<Rightarrow> Engine \<times> ImpChange list" where
  "Evaluate e inp now =
     (let (st, out) = Decide (e_state e) inp (e_cfg e) (e_scorer e) now
      in (e\<lparr>e_state := st, e_last := out, e_lastCfg := e_cfg e, e_at := now, e_lastIn := inp, e_hasIn := True\<rparr>,
          o_Changes out))"

definition Improvements :: "Engine \<Rightarrow> Improvement list" where
  "Improvements e = map (fmget zeroImprovement (s_Improvements (e_state e))) (SortedKeys (s_Improvements (e_state e)))"

record WhatIf_result =
  wi_Before :: "Improvement list"
  wi_Input :: Input
  wi_State :: State
  wi_Output :: Output

definition WhatIf :: "Engine \<Rightarrow> Config \<Rightarrow> time \<Rightarrow> WhatIf_result option" where
  "WhatIf e cfg now =
     (if \<not> e_hasIn e then None
      else let (st, out) = Decide (e_state e) (e_lastIn e) cfg (e_scorer e) now
           in Some \<lparr>wi_Before = map (fmget zeroImprovement (s_Improvements (e_state e))) (SortedKeys (s_Improvements (e_state e))),
                    wi_Input = e_lastIn e, wi_State = st, wi_Output = out\<rparr>)"

definition quar_less :: "Quarantine \<Rightarrow> Quarantine \<Rightarrow> bool" where
  "quar_less a b \<longleftrightarrow> Less (q_Prefix a) (q_Prefix b)"

definition Quarantined :: "Engine \<Rightarrow> Quarantine list" where
  "Quarantined e =
     sort_by quar_less (map (\<lambda>p. the (fmlookup (s_quarantine (e_state e)) p)) (SortedKeys (s_quarantine (e_state e))))"

definition QuarantineChanges :: "Engine \<Rightarrow> QuarantineChange list" where
  "QuarantineChanges e = o_Quarantines (e_last e)"

definition OverloadChanges :: "Engine \<Rightarrow> Overload list" where
  "OverloadChanges e = o_Overloads (e_last e)"

text \<open>\<open>None\<close> is the result \<open>false\<close>: the prefix is not quarantined, and nothing changes.\<close>

definition Release :: "Engine \<Rightarrow> prefix \<Rightarrow> time \<Rightarrow> Engine \<times> Quarantine option" where
  "Release e p now =
     (case fmlookup (s_quarantine (e_state e)) (Masked p) of
        None \<Rightarrow> (e, None)
      | Some q \<Rightarrow> (e\<lparr>e_state := releaseQuarantine (e_state e) (q_Prefix q) now\<rparr>, Some q))"

definition Backout :: "Engine \<Rightarrow> prefix \<Rightarrow> time \<Rightarrow> string \<Rightarrow> Engine \<times> ImpChange option" where
  "Backout e p until rsn =
     (let st = e_state e in
      case fmlookup (s_Improvements st) p of
        None \<Rightarrow> (e, None)
      | Some old \<Rightarrow>
          (e\<lparr>e_state := st\<lparr>s_Improvements := fmdrop p (s_Improvements st), s_confirm := fmdrop p (s_confirm st),
                           s_Cooldown := fmupd p until (s_Cooldown st)\<rparr>\<rparr>,
           Some \<lparr>ic_Action = ActionRetire, ic_Old = old\<lparr>imp_Reason := RText rsn\<rparr>, ic_New = zeroImprovement\<rparr>))"

definition Decisions :: "Engine \<Rightarrow> Decision list \<times> time" where
  "Decisions e = (o_Decisions (e_last e), e_at e)"

definition Urgent :: "Engine \<Rightarrow> prefix list" where
  "Urgent e = o_Urgent (e_last e)"

definition Reset :: "Engine \<Rightarrow> Engine" where
  "Reset e = e\<lparr>e_state := NewState, e_last := zeroOutput, e_at := 0, e_lastIn := zeroInput, e_hasIn := False\<rparr>"

text \<open>The nil checks of the engine's configuration methods are on the optional engine.\<close>

definition SetConfig :: "Engine option \<Rightarrow> Config \<Rightarrow> Engine option" where
  "SetConfig e cfg = map_option (\<lambda>e. e\<lparr>e_cfg := cfg\<rparr>) e"

record Thresholds =
  th_MinLossDeltaPct :: float64
  th_MinRTTDelta :: duration
  th_MinRTTDeltaPct :: float64
  th_HoldTime :: duration

definition th_config :: "Thresholds \<Rightarrow> Config" where
  "th_config t = zeroConfig\<lparr>cfg_MinLossDeltaPct := th_MinLossDeltaPct t, cfg_MinRTTDelta := th_MinRTTDelta t,
     cfg_MinRTTDeltaPct := th_MinRTTDeltaPct t\<rparr>"

definition LossWins :: "Thresholds \<Rightarrow> Candidate \<Rightarrow> Candidate \<Rightarrow> bool" where
  "LossWins t to from = lossWins to from (th_config t)"

definition RTTWins :: "Thresholds \<Rightarrow> Candidate \<Rightarrow> Candidate \<Rightarrow> bool" where
  "RTTWins t to from = rttWins to from (th_config t)"

definition engine_Thresholds :: "Engine option \<Rightarrow> Thresholds" where
  "engine_Thresholds e =
     (case e of
        None \<Rightarrow> \<lparr>th_MinLossDeltaPct = 0, th_MinRTTDelta = 0, th_MinRTTDeltaPct = 0, th_HoldTime = 0\<rparr>
      | Some e \<Rightarrow> \<lparr>th_MinLossDeltaPct = cfg_MinLossDeltaPct (e_cfg e), th_MinRTTDelta = cfg_MinRTTDelta (e_cfg e),
          th_MinRTTDeltaPct = cfg_MinRTTDeltaPct (e_cfg e), th_HoldTime = cfg_HoldTime (e_cfg e)\<rparr>)"

definition Mode :: "Engine option \<Rightarrow> string" where
  "Mode e = (case e of None \<Rightarrow> [] | Some e \<Rightarrow> cfg_Mode (e_cfg e))"

section \<open>Histories\<close>

text \<open>The operations that change the engine, in whatever order their callers take the lock.\<close>

datatype engine_op =
    OpEvaluate Input time
  | OpRelease prefix time
  | OpBackout prefix time string
  | OpReset
  | OpSetConfig Config

fun apply_op :: "Engine \<Rightarrow> engine_op \<Rightarrow> Engine" where
  "apply_op e (OpEvaluate inp now) = fst (Evaluate e inp now)"
| "apply_op e (OpRelease p now) = fst (Release e p now)"
| "apply_op e (OpBackout p until rsn) = fst (Backout e p until rsn)"
| "apply_op e OpReset = Reset e"
| "apply_op e (OpSetConfig cfg) = the (SetConfig (Some e) cfg)"

inductive reachable :: "Scorer \<Rightarrow> Engine \<Rightarrow> bool" for scorer where
  reachable_new: "reachable scorer (NewEngine cfg scorer)"
| reachable_op: "reachable scorer e \<Longrightarrow> reachable scorer (apply_op e op)"

section \<open>The state of a reachable engine\<close>

lemma e_state_Evaluate [simp]:
  "e_state (fst (Evaluate e inp now)) = fst (Decide (e_state e) inp (e_cfg e) (e_scorer e) now)"
  "e_last (fst (Evaluate e inp now)) = snd (Decide (e_state e) inp (e_cfg e) (e_scorer e) now)"
  "snd (Evaluate e inp now) = o_Changes (snd (Decide (e_state e) inp (e_cfg e) (e_scorer e) now))"
  by (simp_all add: Evaluate_def split_beta)

lemma fmget_image: "fmget z m ` fmdom' m = fmran' m"
proof (intro set_eqI iffI)
  fix v assume "v \<in> fmran' m"
  then obtain k where "fmlookup m k = Some v" by (auto simp: fmlookup_ran'_iff)
  then show "v \<in> fmget z m ` fmdom' m" by (intro image_eqI [of _ _ k]) (auto simp: fmget_Some intro: fmdom'I)
next
  fix v assume "v \<in> fmget z m ` fmdom' m"
  then obtain k where "k \<in> fmdom' m" "v = fmget z m k" by blast
  then show "v \<in> fmran' m" by (auto simp: fmdom'_iff fmget_def intro: fmran'I)
qed

lemma state_ok_NewState: "state_ok NewState"
  by (simp add: state_ok_def NewState_def)

lemma state_ok_Release: "state_ok (e_state e) \<Longrightarrow> state_ok (e_state (fst (Release e p now)))"
  by (auto simp: Release_def state_ok_def releaseQuarantine_def split: option.splits)

lemma state_ok_Backout: "state_ok (e_state e) \<Longrightarrow> state_ok (e_state (fst (Backout e p until rsn)))"
  by (simp add: Backout_def Let_def state_ok_def split: option.split)

lemma state_ok_apply_op: "state_ok (e_state e) \<Longrightarrow> state_ok (e_state (apply_op e op))"
  by (cases op) (simp_all add: state_ok_Decide state_ok_Release state_ok_Backout Reset_def state_ok_NewState SetConfig_def)

lemma reachable_state_ok: "reachable scorer e \<Longrightarrow> state_ok (e_state e)"
  by (induction rule: reachable.induct) (simp_all add: NewEngine_def state_ok_NewState state_ok_apply_op)

section \<open>A prefix that was backed out\<close>

text \<open>The operations that leave a backed out prefix alone until \<open>until\<close>.\<close>

fun before_op :: "time \<Rightarrow> engine_op \<Rightarrow> bool" where
  "before_op until (OpEvaluate inp now) \<longleftrightarrow> now < until"
| "before_op until OpReset \<longleftrightarrow> False"
| "before_op until _ \<longleftrightarrow> True"

definition held_off :: "prefix \<Rightarrow> time \<Rightarrow> Engine \<Rightarrow> bool" where
  "held_off p until e \<longleftrightarrow> state_ok (e_state e) \<and> fmlookup (s_Improvements (e_state e)) p = None \<and>
     fmlookup (s_Cooldown (e_state e)) p = Some until"

lemma held_off_Backout: "held_off p until e \<Longrightarrow> held_off p until (fst (Backout e q t rsn))"
  by (cases "q = p") (auto simp: held_off_def state_ok_Backout Backout_def Let_def state_ok_def split: option.split)

lemma held_off_op:
  assumes "held_off p until e" and "before_op until op"
  shows "held_off p until (apply_op e op)"
proof (cases op)
  case (OpEvaluate inp now)
  with assms show ?thesis
    using Decide_cooling [OF state_ok_keyed, of "e_state e" p until now inp "e_cfg e" "e_scorer e"]
    by (simp add: held_off_def state_ok_Decide)
next
  case (OpRelease q now)
  have "s_Improvements (e_state (fst (Release e q now))) = s_Improvements (e_state e) \<and>
        s_Cooldown (e_state (fst (Release e q now))) = s_Cooldown (e_state e)"
    by (simp add: Release_def releaseQuarantine_def split: option.split)
  with assms OpRelease show ?thesis by (simp add: held_off_def state_ok_Release)
next
  case (OpBackout q t rsn)
  with assms show ?thesis by (simp add: held_off_Backout)
next
  case OpReset
  with assms show ?thesis by simp
next
  case (OpSetConfig cfg)
  with assms show ?thesis by (simp add: held_off_def SetConfig_def)
qed

lemma held_off_ops:
  "held_off p until e \<Longrightarrow> list_all (before_op until) ops \<Longrightarrow> held_off p until (foldl apply_op e ops)"
  by (induction ops arbitrary: e) (simp_all add: held_off_op)

section \<open>Properties\<close>

text \<open>
  C7: the invariant of the engine. In whatever order evaluations, releases, back-outs, resets and
  reloads take the lock, every improvement of the engine is stored under its own prefix, points away
  from the native provider, and is not of a parked prefix.
\<close>

theorem reachable_engine_ok:
  assumes "reachable scorer e" and "fmlookup (s_Improvements (e_state e)) p = Some imp"
  shows "imp_Prefix imp = p \<and> imp_Provider imp \<noteq> imp_Native imp \<and> fmlookup (s_quarantine (e_state e)) p = None"
  using reachable_state_ok [OF assms(1)] assms(2) by (simp add: state_ok_def)

theorem reachable_engine_ok_witness:
  "imp_Prefix exImp = exP \<and> imp_Provider exImp \<noteq> imp_Native exImp \<and>
   fmlookup (s_quarantine (e_state (apply_op (NewEngine exCfg exScorer) (OpEvaluate exInput exNow)))) exP = None"
  by (rule reachable_engine_ok [OF reachable_op [OF reachable_new]])
    (simp add: NewEngine_def ex_lookup)

text \<open>
  C8: a back-out holds. After \<open>Backout\<close> retired an improvement, the prefix is not steered again by any
  sequence of evaluations before \<open>until\<close>, releases, further back-outs and configuration reloads; only a
  reset, which drops every improvement, forgets it. A prefix without an improvement changes nothing.
\<close>

theorem Backout_holds:
  assumes "reachable scorer e" and "list_all (before_op until) ops"
  shows "(case Backout e p until rsn of
            (e', None) \<Rightarrow> e' = e \<and> fmlookup (s_Improvements (e_state e)) p = None
          | (e', Some ch) \<Rightarrow> ic_Action ch = ActionRetire \<and> imp_Prefix (ic_Old ch) = p \<and>
              fmlookup (s_Improvements (e_state (foldl apply_op e' ops))) p = None)"
proof (cases "fmlookup (s_Improvements (e_state e)) p")
  case None
  then show ?thesis by (simp add: Backout_def)
next
  case (Some old)
  have ok: "state_ok (e_state e)" using assms(1) by (rule reachable_state_ok)
  then have "held_off p until (fst (Backout e p until rsn))"
    using Some state_ok_Backout [OF ok, of p until rsn] by (simp add: held_off_def Backout_def Let_def)
  from held_off_ops [OF this assms(2)] show ?thesis
    using Some ok by (simp add: Backout_def Let_def held_off_def state_ok_def)
qed

theorem Backout_holds_witness:
  "let e = apply_op (NewEngine exCfg exScorer) (OpEvaluate exInput exNow);
       (e', ch) = Backout e exP (exNow + Minute) ''no traffic moved'' in
   ch \<noteq> None \<and>
   fmlookup (s_Improvements (e_state (foldl apply_op e' [OpEvaluate exInput (exNow + Second), OpSetConfig exCfg]))) exP = None"
  using Backout_holds [OF reachable_op [OF reachable_new], of "exNow + Minute"
      "[OpEvaluate exInput (exNow + Second), OpSetConfig exCfg]" exCfg exScorer "OpEvaluate exInput exNow" exP "''no traffic moved''"]
  by (simp add: NewEngine_def ex_lookup Backout_def Let_def Minute_def Second_def split: option.splits)

text \<open>
  What the engine lists. \<open>Improvements\<close> lists every improvement of a reachable engine exactly once,
  sorted by prefix.
\<close>

theorem Improvements_sorted:
  assumes "reachable scorer e"
  shows "set (Improvements e) = fmran' (s_Improvements (e_state e)) \<and>
         sorted_wrt Less (map imp_Prefix (Improvements e)) \<and> distinct (map imp_Prefix (Improvements e))"
proof -
  let ?m = "s_Improvements (e_state e)"
  have key: "imp_Prefix (fmget zeroImprovement ?m p) = p" if "p \<in> set (SortedKeys ?m)" for p
    using that reachable_state_ok [OF assms] by (auto simp: state_ok_def fmget_def fmdom'_iff split: option.splits)
  then have pre: "map imp_Prefix (Improvements e) = SortedKeys ?m"
    unfolding Improvements_def map_map by (intro map_idI) (simp add: key)
  have "sorted_wrt Less (SortedKeys ?m)"
    by (simp add: Less_eq_less sorted_SortedKeys)
  then show ?thesis
    by (simp add: pre) (simp add: Improvements_def fmget_image)
qed

end
