(* ===== verification/Weights.thy ===== *)
theory Weights
  imports Plugin
begin

text \<open>
  The linear score the built-in scorers share and the weights that order improvements for the last
  slots of the cap (src/internal/plugins/scorer/weighted, src/internal/plugins/scorer/weights). A
  number of a configuration file may be no number at all; the checks of the factories are modelled on
  \<open>yaml_float\<close>, and what they accept is an exact number from then on.
\<close>

section \<open>Numbers of a configuration block\<close>

datatype yaml_float = Finite float64 | NaN | Inf bool

datatype scorer_error =
    NotFinite string
  | Negative string
  | NoPositiveWeight
  | WeightRange string
  | NoPositiveImprovementWeight
  | BadPrecedence string
  | BadFloorLoss
  | BadFloorRTT
  | BadBalance string
  | BadSlack
  | NegativeMaxAge

fun CheckNonNegative :: "string \<Rightarrow> yaml_float \<Rightarrow> scorer_error + float64" where
  "CheckNonNegative name NaN = Inl (NotFinite name)"
| "CheckNonNegative name (Inf neg) = Inl (NotFinite name)"
| "CheckNonNegative name (Finite v) = (if v < 0 then Inl (Negative name) else Inr v)"

section \<open>The linear score\<close>

record coeffs =
  k_loss :: float64
  k_rtt :: float64
  k_jitter :: float64
  k_reorder :: float64

definition defaultCoeffs :: coeffs where
  "defaultCoeffs = \<lparr>k_loss = 100, k_rtt = 1, k_jitter = 1 / 2, k_reorder = 0\<rparr>"

record coeff_config =
  kc_LossWeight :: "yaml_float option"
  kc_RTTWeight :: "yaml_float option"
  kc_JitterWeight :: "yaml_float option"
  kc_ReorderWeight :: "yaml_float option"

text \<open>A key that is set replaces the default after the check; one that is not keeps it.\<close>

definition take_weight :: "string \<Rightarrow> yaml_float option \<Rightarrow> float64 \<Rightarrow> scorer_error + float64" where
  "take_weight name v dflt = (case v of None \<Rightarrow> Inr dflt | Some x \<Rightarrow> CheckNonNegative name x)"

text \<open>
  The loop over the four keys and the check after it. The source ranges over a map, so when several
  keys are wrong the one it reports is not fixed; the model reports them in the order they are written.
\<close>

definition new_coeffs :: "coeff_config \<Rightarrow> scorer_error + coeffs" where
  "new_coeffs c =
     (case take_weight ''loss_weight'' (kc_LossWeight c) (k_loss defaultCoeffs) of Inl e \<Rightarrow> Inl e | Inr l \<Rightarrow>
      (case take_weight ''rtt_weight'' (kc_RTTWeight c) (k_rtt defaultCoeffs) of Inl e \<Rightarrow> Inl e | Inr r \<Rightarrow>
      (case take_weight ''jitter_weight'' (kc_JitterWeight c) (k_jitter defaultCoeffs) of Inl e \<Rightarrow> Inl e | Inr j \<Rightarrow>
      (case take_weight ''reorder_weight'' (kc_ReorderWeight c) (k_reorder defaultCoeffs) of Inl e \<Rightarrow> Inl e | Inr o' \<Rightarrow>
         if l = 0 \<and> r = 0 \<and> j = 0 \<and> o' = 0 then Inl NoPositiveWeight
         else Inr \<lparr>k_loss = l, k_rtt = r, k_jitter = j, k_reorder = o'\<rparr>))))"

definition ms :: "duration \<Rightarrow> float64" where
  "ms d = of_int d / of_int Millisecond"

definition Score :: "coeffs \<Rightarrow> PathStats \<Rightarrow> float64" where
  "Score k p = ps_LossPct p * k_loss k + ms (ps_RTTAvg p) * k_rtt k + ms (ps_Jitter p) * k_jitter k +
     ps_ReorderPct p * k_reorder k"

section \<open>Improvement weights\<close>

record weights_config =
  wc_Performance :: "yaml_float option"
  wc_Volume :: "yaml_float option"

record Weights =
  wt_on :: bool
  wt_performance :: float64
  wt_volume :: float64

definition MaxWeight :: float64 where "MaxWeight = 1000000"

definition zeroWeights :: Weights where
  "zeroWeights = \<lparr>wt_on = False, wt_performance = 0, wt_volume = 0\<rparr>"

text \<open>\<open>v > MaxWeight\<close> refuses plus infinity and \<open>v < 0\<close> minus infinity.\<close>

fun in_weight_range :: "yaml_float \<Rightarrow> float64 option" where
  "in_weight_range NaN = None"
| "in_weight_range (Inf neg) = None"
| "in_weight_range (Finite v) = (if v < 0 \<or> v > MaxWeight then None else Some v)"

definition improvement_weight :: "string \<Rightarrow> yaml_float option \<Rightarrow> float64 \<Rightarrow> scorer_error + float64" where
  "improvement_weight name v dflt =
     (case v of None \<Rightarrow> Inr dflt
      | Some x \<Rightarrow> (case in_weight_range x of None \<Rightarrow> Inl (WeightRange name) | Some y \<Rightarrow> Inr y))"

definition weights_New :: "weights_config option \<Rightarrow> scorer_error + Weights" where
  "weights_New c =
     (case c of None \<Rightarrow> Inr zeroWeights
      | Some c \<Rightarrow>
         (case improvement_weight ''performance'' (wc_Performance c) 1 of Inl e \<Rightarrow> Inl e | Inr p \<Rightarrow>
         (case improvement_weight ''volume'' (wc_Volume c) 0 of Inl e \<Rightarrow> Inl e | Inr v \<Rightarrow>
            if p = 0 \<and> v = 0 then Inl NoPositiveImprovementWeight
            else Inr \<lparr>wt_on = True, wt_performance = p, wt_volume = v\<rparr>)))"

definition ImprovementWeights :: "Weights \<Rightarrow> bool \<times> bool" where
  "ImprovementWeights w = (wt_on w, wt_on w \<and> wt_volume w > 0)"

definition ImprovementWeight :: "Weights \<Rightarrow> WeightInput \<Rightarrow> float64" where
  "ImprovementWeight w inp =
     (let vol = (if wi_VolumeMbps inp < 0 then 0 else wi_VolumeMbps inp)
      in wt_performance w * wi_Gain inp + wt_volume w * vol)"

section \<open>The weighted scorer\<close>

record WeightedScorer =
  ws_weights :: Weights
  ws_coeffs :: coeffs

definition weighted_New :: "coeff_config \<Rightarrow> weights_config option \<Rightarrow> scorer_error + WeightedScorer" where
  "weighted_New c wc =
     (case new_coeffs c of Inl e \<Rightarrow> Inl e | Inr k \<Rightarrow>
     (case weights_New wc of Inl e \<Rightarrow> Inl e | Inr w \<Rightarrow> Inr \<lparr>ws_weights = w, ws_coeffs = k\<rparr>))"

text \<open>What the policy engine sees of it: no planner, no cost policy.\<close>

definition weighted_scorer :: "WeightedScorer \<Rightarrow> Scorer" where
  "weighted_scorer s =
     \<lparr>sc_Score = Score (ws_coeffs s), sc_Planner = None, sc_AllowLoss = None, sc_CostPolicy = None,
      sc_Weigher = Some (fst (ImprovementWeights (ws_weights s)), ImprovementWeight (ws_weights s))\<rparr>"

section \<open>Lemmas\<close>

text \<open>The coefficients a factory accepts.\<close>

definition good_coeffs :: "coeffs \<Rightarrow> bool" where
  "good_coeffs k \<longleftrightarrow> 0 \<le> k_loss k \<and> 0 \<le> k_rtt k \<and> 0 \<le> k_jitter k \<and> 0 \<le> k_reorder k \<and>
     (0 < k_loss k \<or> 0 < k_rtt k \<or> 0 < k_jitter k \<or> 0 < k_reorder k)"

lemma CheckNonNegative_Inr: "CheckNonNegative name v = Inr x \<longleftrightarrow> v = Finite x \<and> 0 \<le> x"
  by (cases v) auto

lemma take_weight_Inr: "0 \<le> dflt \<Longrightarrow> take_weight name v dflt = Inr x \<Longrightarrow> 0 \<le> x"
  by (cases v) (auto simp: take_weight_def CheckNonNegative_Inr)

lemma new_coeffs_good:
  assumes "new_coeffs c = Inr k"
  shows "good_coeffs k"
proof -
  from assms obtain l r j d where
    "take_weight ''loss_weight'' (kc_LossWeight c) (k_loss defaultCoeffs) = Inr l"
    "take_weight ''rtt_weight'' (kc_RTTWeight c) (k_rtt defaultCoeffs) = Inr r"
    "take_weight ''jitter_weight'' (kc_JitterWeight c) (k_jitter defaultCoeffs) = Inr j"
    "take_weight ''reorder_weight'' (kc_ReorderWeight c) (k_reorder defaultCoeffs) = Inr d"
    and nz: "\<not> (l = 0 \<and> r = 0 \<and> j = 0 \<and> d = 0)" and k: "k = \<lparr>k_loss = l, k_rtt = r, k_jitter = j, k_reorder = d\<rparr>"
    by (auto simp: new_coeffs_def split: sum.splits if_splits)
  then have "0 \<le> l" "0 \<le> r" "0 \<le> j" "0 \<le> d"
    by (auto simp: defaultCoeffs_def dest!: take_weight_Inr [rotated])
  with nz show ?thesis by (auto simp: good_coeffs_def k)
qed

text \<open>A path that is no better in any figure never scores lower.\<close>

definition no_better :: "PathStats \<Rightarrow> PathStats \<Rightarrow> bool" where
  "no_better a b \<longleftrightarrow> ps_LossPct b \<le> ps_LossPct a \<and> ps_RTTAvg b \<le> ps_RTTAvg a \<and> ps_Jitter b \<le> ps_Jitter a \<and>
     ps_ReorderPct b \<le> ps_ReorderPct a"

lemma ms_mono: "a \<le> b \<Longrightarrow> ms a \<le> ms b"
  by (simp add: ms_def Millisecond_def divide_right_mono)

lemma Score_mono:
  assumes "good_coeffs k" and "no_better a b"
  shows "Score k b \<le> Score k a"
  unfolding Score_def
  using assms by (intro add_mono mult_right_mono) (auto simp: good_coeffs_def no_better_def intro: ms_mono)

lemma Score_nonneg:
  assumes "good_coeffs k" and "0 \<le> ps_LossPct p" "0 \<le> ps_RTTAvg p" "0 \<le> ps_Jitter p" "0 \<le> ps_ReorderPct p"
  shows "0 \<le> Score k p"
  unfolding Score_def
  using assms by (intro add_nonneg_nonneg mult_nonneg_nonneg) (auto simp: good_coeffs_def ms_def Millisecond_def)

lemma weights_New_nonneg: "weights_New c = Inr w \<Longrightarrow> 0 \<le> wt_performance w \<and> 0 \<le> wt_volume w"
proof -
  have *: "0 \<le> x" if "improvement_weight n v d = Inr x" "0 \<le> d" for n v d x
    using that by (auto simp: improvement_weight_def split: option.splits if_splits elim!: in_weight_range.elims)
  show "weights_New c = Inr w \<Longrightarrow> 0 \<le> wt_performance w \<and> 0 \<le> wt_volume w"
    by (auto simp: weights_New_def zeroWeights_def split: option.splits sum.splits if_splits intro: *)
qed

text \<open>The value of a key: its default when it is not set, nothing when it is not a number from 0 on.\<close>

definition weight_of :: "yaml_float option \<Rightarrow> float64 \<Rightarrow> float64 option" where
  "weight_of v dflt = (case v of None \<Rightarrow> Some dflt | Some (Finite x) \<Rightarrow> if 0 \<le> x then Some x else None | Some _ \<Rightarrow> None)"

lemma take_weight_of: "take_weight name v dflt = Inr x \<longleftrightarrow> weight_of v dflt = Some x"
  by (auto simp: take_weight_def weight_of_def CheckNonNegative_Inr split: option.split yaml_float.split)

lemma weight_of_nonneg: "0 \<le> dflt \<Longrightarrow> weight_of v dflt = Some x \<Longrightarrow> 0 \<le> x"
  by (auto simp: weight_of_def split: option.splits yaml_float.splits if_splits)

lemma new_coeffs_accepts:
  "(\<exists>k. new_coeffs c = Inr k) \<longleftrightarrow>
     (\<exists>l r j d. weight_of (kc_LossWeight c) 100 = Some l \<and> weight_of (kc_RTTWeight c) 1 = Some r \<and>
        weight_of (kc_JitterWeight c) (1 / 2) = Some j \<and> weight_of (kc_ReorderWeight c) 0 = Some d \<and>
        (l > 0 \<or> r > 0 \<or> j > 0 \<or> d > 0))"
    (is "?L \<longleftrightarrow> ?R")
proof
  assume ?L
  then obtain k where k: "new_coeffs c = Inr k" by blast
  then have "weight_of (kc_LossWeight c) 100 = Some (k_loss k) \<and> weight_of (kc_RTTWeight c) 1 = Some (k_rtt k) \<and>
      weight_of (kc_JitterWeight c) (1 / 2) = Some (k_jitter k) \<and> weight_of (kc_ReorderWeight c) 0 = Some (k_reorder k)"
    by (auto simp: new_coeffs_def defaultCoeffs_def take_weight_of split: sum.splits if_splits)
  then show ?R using new_coeffs_good [OF k] by (auto simp: good_coeffs_def)
next
  assume ?R
  then obtain l r j d where *: "weight_of (kc_LossWeight c) 100 = Some l" "weight_of (kc_RTTWeight c) 1 = Some r"
    "weight_of (kc_JitterWeight c) (1 / 2) = Some j" "weight_of (kc_ReorderWeight c) 0 = Some d"
    "l > 0 \<or> r > 0 \<or> j > 0 \<or> d > 0" by blast
  have "new_coeffs c = Inr \<lparr>k_loss = l, k_rtt = r, k_jitter = j, k_reorder = d\<rparr>"
    unfolding new_coeffs_def defaultCoeffs_def
    using *(5) by (auto simp: take_weight_of [THEN iffD2, OF *(1)] take_weight_of [THEN iffD2, OF *(2)]
        take_weight_of [THEN iffD2, OF *(3)] take_weight_of [THEN iffD2, OF *(4)])
  then show ?L by blast
qed

lemma improvement_weight_of: "dflt \<le> MaxWeight \<Longrightarrow>
  improvement_weight name v dflt = Inr x \<longleftrightarrow> weight_of v dflt = Some x \<and> x \<le> MaxWeight"
  by (auto simp: improvement_weight_def weight_of_def split: option.split yaml_float.split)

lemma weights_New_accepts:
  "(\<exists>w. weights_New wc = Inr w) \<longleftrightarrow> (case wc of None \<Rightarrow> True
      | Some w \<Rightarrow> \<exists>p v. weight_of (wc_Performance w) 1 = Some p \<and> weight_of (wc_Volume w) 0 = Some v \<and>
           p \<le> MaxWeight \<and> v \<le> MaxWeight \<and> (p > 0 \<or> v > 0))"
proof (cases wc)
  case None
  then show ?thesis by (simp add: weights_New_def)
next
  case (Some w)
  have le: "(1 :: float64) \<le> MaxWeight" "(0 :: float64) \<le> MaxWeight" by (simp_all add: MaxWeight_def)
  note iff = improvement_weight_of [OF le(1)] improvement_weight_of [OF le(2)]
  have nn: "0 \<le> p" "0 \<le> v" if "weight_of (wc_Performance w) 1 = Some p" "weight_of (wc_Volume w) 0 = Some v" for p v
    using weight_of_nonneg [OF _ that(1)] weight_of_nonneg [OF _ that(2)] by simp_all
  have "(\<exists>x. weights_New wc = Inr x) \<longleftrightarrow>
      (\<exists>p v. improvement_weight ''performance'' (wc_Performance w) 1 = Inr p \<and>
             improvement_weight ''volume'' (wc_Volume w) 0 = Inr v \<and> \<not> (p = 0 \<and> v = 0))"
    by (auto simp: Some weights_New_def split: sum.splits)
  also have "\<dots> \<longleftrightarrow> (\<exists>p v. weight_of (wc_Performance w) 1 = Some p \<and> weight_of (wc_Volume w) 0 = Some v \<and>
           p \<le> MaxWeight \<and> v \<le> MaxWeight \<and> (p > 0 \<or> v > 0))"
    unfolding iff using nn by (metis order_less_le)
  finally show ?thesis by (simp add: Some)
qed

section \<open>Properties\<close>

text \<open>
  The score of an accepted configuration is sound. Whatever weights the factory accepts, they are
  non-negative and one is positive, a path that is no better than another in loss, latency, jitter and
  reordering never scores lower, and the improvement weight grows with the gain and the volume.
\<close>

theorem weighted_score_sound:
  assumes "weighted_New c wc = Inr s"
  shows "good_coeffs (ws_coeffs s) \<and>
         (\<forall>a b. no_better a b \<longrightarrow> sc_Score (weighted_scorer s) b \<le> sc_Score (weighted_scorer s) a) \<and>
         (\<forall>x y. wi_Gain x \<le> wi_Gain y \<and> wi_VolumeMbps x \<le> wi_VolumeMbps y \<longrightarrow>
            ImprovementWeight (ws_weights s) x \<le> ImprovementWeight (ws_weights s) y)"
proof -
  from assms obtain k w where k: "new_coeffs c = Inr k" and w: "weights_New wc = Inr w"
    and s: "s = \<lparr>ws_weights = w, ws_coeffs = k\<rparr>"
    by (auto simp: weighted_New_def split: sum.splits)
  have "0 \<le> wt_performance w \<and> 0 \<le> wt_volume w" by (rule weights_New_nonneg [OF w])
  then have "ImprovementWeight w x \<le> ImprovementWeight w y"
    if "wi_Gain x \<le> wi_Gain y" "wi_VolumeMbps x \<le> wi_VolumeMbps y" for x y
    unfolding ImprovementWeight_def Let_def
    using that by (intro add_mono mult_left_mono) auto
  then show ?thesis
    using new_coeffs_good [OF k] by (auto simp: s weighted_scorer_def intro: Score_mono)
qed

text \<open>
  The factory refuses exactly the unusable configurations. It accepts a block if and only if every
  weight that is set is a finite number that is not negative, some weight is positive, and the
  improvement weights, when given, are finite, between 0 and a million, and not both zero.
\<close>

theorem weighted_New_accepts:
  "(\<exists>s. weighted_New c wc = Inr s) \<longleftrightarrow>
     (\<exists>l r j d. weight_of (kc_LossWeight c) 100 = Some l \<and> weight_of (kc_RTTWeight c) 1 = Some r \<and>
        weight_of (kc_JitterWeight c) (1 / 2) = Some j \<and> weight_of (kc_ReorderWeight c) 0 = Some d \<and>
        (l > 0 \<or> r > 0 \<or> j > 0 \<or> d > 0)) \<and>
     (case wc of None \<Rightarrow> True
      | Some w \<Rightarrow> \<exists>p v. weight_of (wc_Performance w) 1 = Some p \<and> weight_of (wc_Volume w) 0 = Some v \<and>
           p \<le> MaxWeight \<and> v \<le> MaxWeight \<and> (p > 0 \<or> v > 0))"
proof -
  have "(\<exists>k. new_coeffs c = Inr k) \<longleftrightarrow>
     (\<exists>l r j d. weight_of (kc_LossWeight c) 100 = Some l \<and> weight_of (kc_RTTWeight c) 1 = Some r \<and>
        weight_of (kc_JitterWeight c) (1 / 2) = Some j \<and> weight_of (kc_ReorderWeight c) 0 = Some d \<and>
        (l > 0 \<or> r > 0 \<or> j > 0 \<or> d > 0))"
    by (rule new_coeffs_accepts)
  moreover have "(\<exists>w. weights_New wc = Inr w) \<longleftrightarrow> (case wc of None \<Rightarrow> True
      | Some w \<Rightarrow> \<exists>p v. weight_of (wc_Performance w) 1 = Some p \<and> weight_of (wc_Volume w) 0 = Some v \<and>
           p \<le> MaxWeight \<and> v \<le> MaxWeight \<and> (p > 0 \<or> v > 0))"
    by (rule weights_New_accepts)
  ultimately show ?thesis by (auto simp: weighted_New_def split: sum.splits)
qed

end
