(* ===== verification/Cost_Scorer.thy ===== *)
theory Cost_Scorer
  imports Weights Ports
begin

text \<open>
  The cost scorer (src/internal/plugins/scorer/cost): the linear score, and a plan that moves a prefix to
  the cheapest provider whose path is inside the performance floor and whose exchange port, if it has
  one, has room for the traffic.
\<close>

section \<open>The scorer and its factory\<close>

record CostScorer =
  co_weights :: Weights
  co_coeffs :: coeffs
  co_costFirst :: bool
  co_floorLoss :: float64
  co_floorRTT :: duration

record cost_config =
  cc_coeffs :: coeff_config
  cc_ImprovementWeights :: "weights_config option"
  cc_Precedence :: string
  cc_MaxLossPct :: "yaml_float option"
  cc_MaxRTT :: "duration option"

definition DefaultFloorRTT :: duration where "DefaultFloorRTT = 10 * Millisecond"
definition maxFloorRTT :: duration where "maxFloorRTT = 10 * Second"
definition costEps :: float64 where "costEps = 1 / 1000000000"
definition lossEps :: float64 where "lossEps = 1 / 1000000"

definition cost_precedence :: "string \<Rightarrow> scorer_error + bool" where
  "cost_precedence s =
     (if s = [] \<or> s = ''performance'' then Inr False
      else if s = ''cost'' then Inr True else Inl (BadPrecedence s))"

fun floor_loss :: "yaml_float option \<Rightarrow> scorer_error + float64" where
  "floor_loss None = Inr 0"
| "floor_loss (Some (Finite v)) = (if 0 \<le> v \<and> v \<le> 100 then Inr v else Inl BadFloorLoss)"
| "floor_loss (Some _) = Inl BadFloorLoss"

definition floor_rtt :: "duration option \<Rightarrow> scorer_error + duration" where
  "floor_rtt v =
     (case v of None \<Rightarrow> Inr DefaultFloorRTT
      | Some d \<Rightarrow> if d < 0 \<or> d > maxFloorRTT then Inl BadFloorRTT else Inr d)"

definition cost_New :: "cost_config \<Rightarrow> scorer_error + CostScorer" where
  "cost_New c =
     (case new_coeffs (cc_coeffs c) of Inl e \<Rightarrow> Inl e | Inr k \<Rightarrow>
     (case weights_New (cc_ImprovementWeights c) of Inl e \<Rightarrow> Inl e | Inr w \<Rightarrow>
     (case cost_precedence (cc_Precedence c) of Inl e \<Rightarrow> Inl e | Inr first \<Rightarrow>
     (case floor_loss (cc_MaxLossPct c) of Inl e \<Rightarrow> Inl e | Inr fl \<Rightarrow>
     (case floor_rtt (cc_MaxRTT c) of Inl e \<Rightarrow> Inl e | Inr fr \<Rightarrow>
        Inr \<lparr>co_weights = w, co_coeffs = k, co_costFirst = first, co_floorLoss = fl, co_floorRTT = fr\<rparr>)))))"

definition Floor :: "CostScorer \<Rightarrow> float64 \<times> duration" where
  "Floor s = (co_floorLoss s, co_floorRTT s)"

definition CostFirst :: "CostScorer \<Rightarrow> bool" where
  "CostFirst s = co_costFirst s"

section \<open>The plan\<close>

text \<open>The prices of the providers that may be a destination, and the price of a native provider.\<close>

definition plan_excluded :: "PlanInput \<Rightarrow> string \<Rightarrow> bool" where
  "plan_excluded inp name \<longleftrightarrow> name \<noteq> [] \<and> list_ex (\<lambda>p. pr_Name p = name \<and> pr_Excluded p) (pi_Providers inp)"

definition prices :: "PlanInput \<Rightarrow> string \<Rightarrow> float64 option" where
  "prices inp name =
     (if name = [] then None
      else map_option pr_Cost
        (find (\<lambda>p. pr_Name p = name \<and> pr_HasCost p \<and> pr_Up p \<and> \<not> pr_Excluded p) (pi_Providers inp)))"

definition natCost :: "PlanInput \<Rightarrow> string \<Rightarrow> float64 option" where
  "natCost inp name =
     (case find (\<lambda>p. pr_Name p = name) (pi_Providers inp) of
        None \<Rightarrow> None | Some p \<Rightarrow> if pr_HasCost p then Some (pr_Cost p) else None)"

text \<open>\<open>inside\<close>: the providers whose path is usable and inside the floor, by name.\<close>

definition best_path_step ::
  "(string \<Rightarrow> bool) \<Rightarrow> (float64 \<times> duration) option \<Rightarrow> PlanPath \<Rightarrow> (float64 \<times> duration) option" where
  "best_path_step excluded acc p =
     (if \<not> pp_Usable p \<or> excluded (pp_Provider p) then acc
      else case acc of
        None \<Rightarrow> Some (pp_LossPct p, pp_RTT p)
      | Some (ml, mr) \<Rightarrow> Some (if pp_LossPct p < ml then pp_LossPct p else ml, if pp_RTT p < mr then pp_RTT p else mr))"

definition inside :: "CostScorer \<Rightarrow> PlanPath list \<Rightarrow> (string \<Rightarrow> bool) \<Rightarrow> string list" where
  "inside s paths excluded =
     (case foldl (best_path_step excluded) None paths of
        None \<Rightarrow> []
      | Some (minLoss, minRTT) \<Rightarrow>
          sort (map pp_Provider
            (filter (\<lambda>p. pp_Usable p \<and> \<not> excluded (pp_Provider p) \<and>
                pp_LossPct p \<le> minLoss + co_floorLoss s + lossEps \<and> pp_RTT p \<le> wrap64 (minRTT + co_floorRTT s))
              paths)))"

definition tie_rank :: "string \<Rightarrow> string \<Rightarrow> string \<Rightarrow> nat" where
  "tie_rank keep native n = (if keep \<noteq> [] \<and> n = keep then 0 else if n = native then 1 else 2)"

definition tieFirst :: "string \<Rightarrow> string \<Rightarrow> string \<Rightarrow> string \<Rightarrow> bool" where
  "tieFirst a b keep native =
     (if tie_rank keep native a \<noteq> tie_rank keep native b then tie_rank keep native a < tie_rank keep native b
      else a < b)"

definition cheapest_step ::
  "PlanInput \<Rightarrow> Ledger \<Rightarrow> PlanPrefix \<Rightarrow> (string \<times> float64) option \<Rightarrow> string \<Rightarrow> (string \<times> float64) option" where
  "cheapest_step inp led px best name =
     (let keep = (if px_Reversible px then px_Current px else []) in
      case prices inp name of
        None \<Rightarrow> best
      | Some c \<Rightarrow>
          if \<not> Allows led (px_Native px) name (px_VolumeMbps px) then best
          else (case best of
             None \<Rightarrow> Some (name, c)
           | Some (b, bc) \<Rightarrow>
               if c < bc - costEps \<or> (c \<le> bc + costEps \<and> tieFirst name b keep (px_Native px))
               then Some (name, c) else best))"

definition cheapest :: "CostScorer \<Rightarrow> PlanInput \<Rightarrow> Ledger \<Rightarrow> PlanPrefix \<Rightarrow> (string \<times> float64) option" where
  "cheapest s inp led px = foldl (cheapest_step inp led px) None (inside s (px_Paths px) (plan_excluded inp))"

definition px_less :: "PlanPrefix \<Rightarrow> PlanPrefix \<Rightarrow> bool" where
  "px_less a b \<longleftrightarrow> Less (px_Prefix a) (px_Prefix b)"

text \<open>Booking the traffic where it flows now, once per prefix.\<close>

definition book_step :: "Ledger \<times> prefix list \<Rightarrow> PlanPrefix \<Rightarrow> Ledger \<times> prefix list" where
  "book_step acc px =
     (let (led, booked) = acc in
      if \<not> IsValid (px_Prefix px) \<or> px_Prefix px \<in> set booked then acc
      else (if px_Locked px then Move led (px_Native px) (px_Current px) (px_VolumeMbps px)
            else if px_Reversible px then Move led (px_Current px) (px_Native px) (px_VolumeMbps px)
            else led,
            px_Prefix px # booked))"

record cost_acc =
  ca_led :: Ledger
  ca_seen :: "prefix list"
  ca_moves :: "PlanMove list"

definition cost_move :: "PlanPrefix \<Rightarrow> float64 \<Rightarrow> string \<Rightarrow> float64 \<Rightarrow> PlanMove" where
  "cost_move px nc best bestCost =
     \<lparr>mv_Prefix = px_Prefix px, mv_Provider = best, mv_Reason = RCostMove (px_Native px) nc best bestCost,
      mv_ReliefMbps = px_VolumeMbps px, mv_Cause = CauseCost,
      mv_Savings = (if px_VolumeMbps px > 0 then (nc - bestCost) * px_VolumeMbps px else nc - bestCost)\<rparr>"

definition cost_step :: "CostScorer \<Rightarrow> PlanInput \<Rightarrow> cost_acc \<Rightarrow> PlanPrefix \<Rightarrow> cost_acc" where
  "cost_step s inp acc px =
     (if \<not> IsValid (px_Prefix px) \<or> px_Locked px \<or> px_Native px = [] \<or> px_Prefix px \<in> set (ca_seen acc) then acc
      else let acc1 = acc\<lparr>ca_seen := px_Prefix px # ca_seen acc\<rparr> in
        case natCost inp (px_Native px) of
          None \<Rightarrow> acc1
        | Some nc \<Rightarrow>
            (case cheapest s inp (ca_led acc1) px of
               None \<Rightarrow> acc1
             | Some (best, bestCost) \<Rightarrow>
                 if best = px_Native px \<or> bestCost \<ge> nc - costEps then acc1
                 else acc1\<lparr>ca_led := Move (ca_led acc1) (px_Native px) best (px_VolumeMbps px),
                           ca_moves := ca_moves acc1 @ [cost_move px nc best bestCost]\<rparr>))"

definition cost_booked :: "PlanInput \<Rightarrow> Ledger" where
  "cost_booked inp = fst (foldl book_step (NewLedger inp DefaultMaxAge, []) (sort_by px_less (pi_Prefixes inp)))"

definition cost_plan :: "CostScorer \<Rightarrow> PlanInput \<Rightarrow> cost_acc" where
  "cost_plan s inp =
     foldl (cost_step s inp) \<lparr>ca_led = cost_booked inp, ca_seen = [], ca_moves = []\<rparr> (sort_by px_less (pi_Prefixes inp))"

definition cost_Plan :: "CostScorer \<Rightarrow> PlanInput \<Rightarrow> PlanMove list" where
  "cost_Plan s inp = ca_moves (cost_plan s inp)"

definition cost_scorer :: "CostScorer \<Rightarrow> Scorer" where
  "cost_scorer s =
     \<lparr>sc_Score = Score (co_coeffs s), sc_Planner = Some (cost_Plan s), sc_AllowLoss = None,
      sc_CostPolicy = Some \<lparr>cp_MaxLoss = fst (Floor s), cp_MaxRTT = snd (Floor s), cp_CostFirst = CostFirst s\<rparr>,
      sc_Weigher = Some (fst (ImprovementWeights (co_weights s)), ImprovementWeight (co_weights s))\<rparr>"

section \<open>Lemmas\<close>

lemma cheapest_fold:
  assumes "foldl (cheapest_step inp led px) acc names = Some (b, c)"
  shows "acc = Some (b, c) \<or> b \<in> set names \<and> prices inp b = Some c \<and> Allows led (px_Native px) b (px_VolumeMbps px)"
  using assms
proof (induction names arbitrary: acc)
  case Nil
  then show ?case by simp
next
  case (Cons n names)
  from Cons.IH [of "cheapest_step inp led px acc n"] Cons.prems show ?case
    by (auto simp: cheapest_step_def Let_def split: option.splits if_splits)
qed

lemma cheapest_Some:
  assumes "cheapest s inp led px = Some (b, c)"
  shows "b \<in> set (inside s (px_Paths px) (plan_excluded inp))" "prices inp b = Some c"
    "Allows led (px_Native px) b (px_VolumeMbps px)"
  using cheapest_fold [of inp led px None "inside s (px_Paths px) (plan_excluded inp)" b c] assms
  by (auto simp: cheapest_def)

text \<open>What a step adds: nothing, or one allowed move of a prefix not seen before.\<close>

definition cost_move_ok :: "CostScorer \<Rightarrow> PlanInput \<Rightarrow> PlanPrefix \<Rightarrow> PlanMove \<Rightarrow> bool" where
  "cost_move_ok s inp px m \<longleftrightarrow>
     IsValid (px_Prefix px) \<and> \<not> px_Locked px \<and> px_Native px \<noteq> [] \<and> mv_Prefix m = px_Prefix px \<and>
     mv_Cause m = CauseCost \<and> mv_Provider m \<noteq> px_Native px \<and>
     mv_Provider m \<in> set (inside s (px_Paths px) (plan_excluded inp)) \<and>
     (\<exists>c nc. prices inp (mv_Provider m) = Some c \<and> natCost inp (px_Native px) = Some nc \<and> c < nc \<and>
        (px_VolumeMbps px > 0 \<longrightarrow> mv_Savings m = (nc - c) * px_VolumeMbps px))"

lemma cost_step_cases:
  obtains (quiet) "ca_moves (cost_step s inp acc px) = ca_moves acc" "ca_led (cost_step s inp acc px) = ca_led acc"
      "ca_seen (cost_step s inp acc px) = ca_seen acc \<or> ca_seen (cost_step s inp acc px) = px_Prefix px # ca_seen acc"
  | (move) b c nc where "px_Prefix px \<notin> set (ca_seen acc)" "cost_move_ok s inp px (cost_move px nc b c)"
      "Allows (ca_led acc) (px_Native px) b (px_VolumeMbps px)"
      "cost_step s inp acc px = acc\<lparr>ca_seen := px_Prefix px # ca_seen acc,
         ca_led := Move (ca_led acc) (px_Native px) b (px_VolumeMbps px), ca_moves := ca_moves acc @ [cost_move px nc b c]\<rparr>"
proof (cases "\<not> IsValid (px_Prefix px) \<or> px_Locked px \<or> px_Native px = [] \<or> px_Prefix px \<in> set (ca_seen acc)")
  case True
  then show thesis using quiet by (simp add: cost_step_def)
next
  case fresh: False
  show thesis
  proof (cases "\<exists>nc b c. natCost inp (px_Native px) = Some nc \<and> cheapest s inp (ca_led acc) px = Some (b, c) \<and>
      b \<noteq> px_Native px \<and> c < nc - costEps")
    case True
    then obtain nc b c where f: "natCost inp (px_Native px) = Some nc" "cheapest s inp (ca_led acc) px = Some (b, c)"
      "b \<noteq> px_Native px" "c < nc - costEps" by blast
    moreover from f(4) have "c < nc" by (simp add: costEps_def)
    moreover note cheapest_Some [OF f(2)]
    ultimately show thesis using fresh
      by (intro move [of nc b c]) (simp_all add: cost_step_def Let_def cost_move_ok_def cost_move_def)
  next
    case False
    with fresh show thesis
      by (intro quiet) (auto simp: cost_step_def Let_def split: option.splits)
  qed
qed

lemma ca_led_cost_step:
  "ca_led (cost_step s inp acc px) = ca_led acc \<or>
   (\<exists>from to vol. Allows (ca_led acc) from to vol \<and> ca_led (cost_step s inp acc px) = Move (ca_led acc) from to vol)"
  by (rule cost_step_cases [where s = s and inp = inp and acc = acc and px = px]) auto

text \<open>The invariant of the loop over the prefixes.\<close>

definition cost_inv :: "CostScorer \<Rightarrow> PlanInput \<Rightarrow> PlanPrefix list \<Rightarrow> cost_acc \<Rightarrow> bool" where
  "cost_inv s inp pxs acc \<longleftrightarrow>
     distinct (map mv_Prefix (ca_moves acc)) \<and> mv_Prefix ` set (ca_moves acc) \<subseteq> set (ca_seen acc) \<and>
     (\<forall>m \<in> set (ca_moves acc). \<exists>px \<in> set pxs. cost_move_ok s inp px m)"

lemma cost_step_inv:
  assumes "cost_inv s inp pxs acc" and "px \<in> set pxs"
  shows "cost_inv s inp pxs (cost_step s inp acc px)"
proof (cases rule: cost_step_cases [where s = s and inp = inp and acc = acc and px = px])
  case quiet
  then show ?thesis using assms(1) by (auto simp: cost_inv_def)
next
  case (move b c nc)
  then show ?thesis using assms by (auto simp: cost_inv_def cost_move_def)
qed

lemma cost_fold_inv:
  "cost_inv s inp pxs acc \<Longrightarrow> set xs \<subseteq> set pxs \<Longrightarrow> cost_inv s inp pxs (foldl (cost_step s inp) acc xs)"
  by (induction xs arbitrary: acc) (auto simp: cost_step_inv)

lemma cost_plan_inv: "cost_inv s inp (pi_Prefixes inp) (cost_plan s inp)"
  unfolding cost_plan_def by (rule cost_fold_inv) (auto simp: cost_inv_def set_sort_by)

lemma prices_Some:
  "prices inp name = Some c \<Longrightarrow> \<exists>p \<in> set (pi_Providers inp). pr_Name p = name \<and> name \<noteq> [] \<and> pr_HasCost p \<and> pr_Up p \<and>
     \<not> pr_Excluded p \<and> pr_Cost p = c"
  by (fastforce simp: prices_def find_Some_iff in_set_conv_nth split: if_splits)

lemma floor_loss_Inr: "floor_loss v = Inr x \<Longrightarrow> 0 \<le> x \<and> x \<le> 100"
  by (cases v rule: floor_loss.cases) (auto split: if_splits)

lemma floor_rtt_Inr: "floor_rtt v = Inr x \<Longrightarrow> 0 \<le> x \<and> x \<le> maxFloorRTT"
  by (auto simp: floor_rtt_def DefaultFloorRTT_def maxFloorRTT_def Millisecond_def Second_def split: option.splits if_splits)

section \<open>An example\<close>

text \<open>Two providers with equal paths: the traffic of one prefix moves to the cheaper one, a peer on a port.\<close>

definition exCost :: CostScorer where
  "exCost = \<lparr>co_weights = zeroWeights, co_coeffs = defaultCoeffs, co_costFirst = False, co_floorLoss = 0,
     co_floorRTT = DefaultFloorRTT\<rparr>"

definition exProvider :: "string \<Rightarrow> float64 \<Rightarrow> string \<Rightarrow> PlanProvider" where
  "exProvider name cost prt = \<lparr>pr_Name = name, pr_Group = [], pr_Precedence = 0, pr_CCDisable = False, pr_Excluded = False,
     pr_Up = True, pr_Usage = zeroUsage, pr_HaveRow = False, pr_Cost = cost, pr_HasCost = True, pr_Port = prt\<rparr>"

definition exPath :: "string \<Rightarrow> PlanPath" where
  "exPath name = \<lparr>pp_Provider = name, pp_LossPct = 0, pp_RTT = 20 * Millisecond, pp_Usable = True\<rparr>"

definition exPlanIn :: PlanInput where
  "exPlanIn = \<lparr>pi_Now = 1000 * Second, pi_Providers = [exProvider ''a'' 10 [], exProvider ''b'' 5 ''ix''],
     pi_Ports = [\<lparr>pt_Name = ''ix'', pt_CapacityMbps = 100, pt_CommitMbps = 0,
        pt_Usage = zeroUsage\<lparr>us_Provider := ''ix'', us_Samples := 1, us_CommitMbps := 100, us_OutMbps := 10, us_OutMbps95 := 10\<rparr>, pt_HaveRow = True\<rparr>],
     pi_Prefixes = [\<lparr>px_Prefix = Pfx (V4 0xC6336400) 24, px_Native = ''a'', px_Current = ''a'', px_VolumeMbps = 20,
        px_Locked = False, px_Reversible = False, px_Paths = [exPath ''a'', exPath ''b'']\<rparr>]\<rparr>"

lemma ex_cost_Plan:
  "cost_Plan exCost exPlanIn =
     [\<lparr>mv_Prefix = Pfx (V4 0xC6336400) 24, mv_Provider = ''b'', mv_Reason = RCostMove ''a'' 10 ''b'' 5, mv_ReliefMbps = 20,
       mv_Cause = CauseCost, mv_Savings = 100\<rparr>]"
  by code_simp

lemma ex_cost_ports: "port_inv (cost_booked exPlanIn)"
proof -
  have "cost_booked exPlanIn = \<lparr>l_byName = fmupd ''ix'' \<lparr>po_capacity = 100, po_commit = 0, po_ok = True, po_load = 10,
      po_p95 = 10\<rparr> fmempty, l_peer = fmupd ''b'' ''ix'' fmempty\<rparr>"
    by (simp add: cost_booked_def book_step_def NewLedger_def new_port_def add_peer_def exPlanIn_def exProvider_def sort_by_def
        Read_def Fresh_def BillableMbps_def zeroUsage_def IsValid_def Let_def)
  then show ?thesis
    by (simp add: port_inv_def wf_ledger_def ledger_within_def within_limits_def mbpsEps_def)
qed

section \<open>Properties\<close>

text \<open>
  C22: a cost move pays off. Every move of a plan is for a prefix of the snapshot that no performance
  steer holds, leads away from the native provider to one that is up and not excluded, has a price
  below the native one and a path inside the performance floor; a prefix gets at most one move.
\<close>

theorem cost_Plan_sound:
  "distinct (map mv_Prefix (cost_Plan s inp)) \<and>
   (\<forall>m \<in> set (cost_Plan s inp). \<exists>px \<in> set (pi_Prefixes inp). \<exists>p \<in> set (pi_Providers inp). \<exists>nc.
      px_Prefix px = mv_Prefix m \<and> \<not> px_Locked px \<and> mv_Cause m = CauseCost \<and> mv_Provider m \<noteq> px_Native px \<and>
      pr_Name p = mv_Provider m \<and> pr_Up p \<and> \<not> pr_Excluded p \<and> pr_HasCost p \<and>
      natCost inp (px_Native px) = Some nc \<and> pr_Cost p < nc \<and>
      mv_Provider m \<in> set (inside s (px_Paths px) (plan_excluded inp)))"
proof -
  have ok: "\<exists>px \<in> set (pi_Prefixes inp). cost_move_ok s inp px m" if "m \<in> set (cost_Plan s inp)" for m
    using that cost_plan_inv [of s inp] by (auto simp: cost_inv_def cost_Plan_def)
  show ?thesis
  proof (intro conjI ballI)
    show "distinct (map mv_Prefix (cost_Plan s inp))"
      using cost_plan_inv [of s inp] by (simp add: cost_inv_def cost_Plan_def)
    fix m assume "m \<in> set (cost_Plan s inp)"
    from ok [OF this] obtain px c nc where px: "px \<in> set (pi_Prefixes inp)" "cost_move_ok s inp px m"
      and c: "prices inp (mv_Provider m) = Some c" "natCost inp (px_Native px) = Some nc" "c < nc"
      by (auto simp: cost_move_ok_def)
    from prices_Some [OF c(1)] obtain p where "p \<in> set (pi_Providers inp)" "pr_Name p = mv_Provider m" "pr_HasCost p"
      "pr_Up p" "\<not> pr_Excluded p" "pr_Cost p = c" by blast
    with px c show "\<exists>px \<in> set (pi_Prefixes inp). \<exists>p \<in> set (pi_Providers inp). \<exists>nc.
      px_Prefix px = mv_Prefix m \<and> \<not> px_Locked px \<and> mv_Cause m = CauseCost \<and> mv_Provider m \<noteq> px_Native px \<and>
      pr_Name p = mv_Provider m \<and> pr_Up p \<and> \<not> pr_Excluded p \<and> pr_HasCost p \<and>
      natCost inp (px_Native px) = Some nc \<and> pr_Cost p < nc \<and>
      mv_Provider m \<in> set (inside s (px_Paths px) (plan_excluded inp))"
      by (intro bexI [of _ px] bexI [of _ p] exI [of _ nc]) (auto simp: cost_move_ok_def)
  qed
qed

theorem cost_Plan_sound_witness:
  "\<exists>px \<in> set (pi_Prefixes exPlanIn). \<exists>p \<in> set (pi_Providers exPlanIn). \<exists>nc.
      px_Prefix px = Pfx (V4 0xC6336400) 24 \<and> \<not> px_Locked px \<and> px_Native px \<noteq> ''b'' \<and>
      pr_Name p = ''b'' \<and> pr_Up p \<and> \<not> pr_Excluded p \<and> pr_HasCost p \<and>
      natCost exPlanIn (px_Native px) = Some nc \<and> pr_Cost p < nc \<and>
      ''b'' \<in> set (inside exCost (px_Paths px) (plan_excluded exPlanIn))"
  using cost_Plan_sound [of exCost exPlanIn, THEN conjunct2] unfolding ex_cost_Plan by force

text \<open>
  A plan keeps the shared ports inside their limits. When every exchange port with a usable reading
  is inside its capacity and commit once the current traffic is booked, it still is with every move of
  the plan booked on top.
\<close>

theorem cost_Plan_keeps_ports:
  assumes "port_inv (cost_booked inp)"
  shows "port_inv (ca_led (cost_plan s inp))"
  unfolding cost_plan_def
  by (rule ledger.guarded_fold [where led = ca_led]) (simp_all add: assms ca_led_cost_step)

end
