(* ===== verification/Commit_Scorer.thy ===== *)
theory Commit_Scorer
  imports Weights Ports
begin

text \<open>
  The commit scorer (src/internal/plugins/scorer/commit): the linear score, and a plan that keeps the
  billable 95th percentile of every provider at or under its commit and can balance the providers of
  a group. The source ranges over a Go map of providers in two places where the order is visible. The
  order is a parameter \<open>it\<close>: for a call site, identified by a list of numbers, it arranges the names of
  the map; the runtime promises only that it is a permutation.
\<close>

section \<open>The scorer and its factory\<close>

datatype balance_mode = BalanceOff | BalanceEqual | BalanceProportional

record CommitScorer =
  cs_weights :: Weights
  cs_coeffs :: coeffs
  cs_lossOverride :: bool
  cs_balance :: balance_mode
  cs_slack :: float64
  cs_maxAge :: duration
  cs_minMbps :: float64

record commit_config =
  mc_coeffs :: coeff_config
  mc_ImprovementWeights :: "weights_config option"
  mc_LossOverride :: bool
  mc_Balance :: string
  mc_BalanceSlack :: "yaml_float option"
  mc_MaxAge :: duration
  mc_MinMbps :: yaml_float

definition balance_of :: "string \<Rightarrow> scorer_error + balance_mode" where
  "balance_of s =
     (if s = [] \<or> s = ''off'' then Inr BalanceOff
      else if s = ''equal'' then Inr BalanceEqual
      else if s = ''proportional'' then Inr BalanceProportional
      else Inl (BadBalance s))"

fun slack_of :: "yaml_float option \<Rightarrow> scorer_error + float64" where
  "slack_of None = Inr (1 / 10)"
| "slack_of (Some (Finite v)) = (if 0 \<le> v \<and> v \<le> 1 then Inr v else Inl BadSlack)"
| "slack_of (Some _) = Inl BadSlack"

definition commit_New :: "commit_config \<Rightarrow> scorer_error + CommitScorer" where
  "commit_New c =
     (case new_coeffs (mc_coeffs c) of Inl e \<Rightarrow> Inl e | Inr k \<Rightarrow>
     (case weights_New (mc_ImprovementWeights c) of Inl e \<Rightarrow> Inl e | Inr w \<Rightarrow>
     (case balance_of (mc_Balance c) of Inl e \<Rightarrow> Inl e | Inr b \<Rightarrow>
     (case slack_of (mc_BalanceSlack c) of Inl e \<Rightarrow> Inl e | Inr sl \<Rightarrow>
        if mc_MaxAge c < 0 then Inl NegativeMaxAge
        else (case CheckNonNegative ''min_mbps'' (mc_MinMbps c) of Inl e \<Rightarrow> Inl e | Inr mb \<Rightarrow>
          Inr \<lparr>cs_weights = w, cs_coeffs = k, cs_lossOverride = mc_LossOverride c, cs_balance = b, cs_slack = sl,
               cs_maxAge = (if mc_MaxAge c > 0 then mc_MaxAge c else DefaultMaxAge), cs_minMbps = mb\<rparr>)))))"

definition AllowLoss :: "CommitScorer \<Rightarrow> bool" where
  "AllowLoss s = cs_lossOverride s"

definition TelemetryMaxAge :: "CommitScorer \<Rightarrow> duration" where
  "TelemetryMaxAge s = cs_maxAge s"

section \<open>The state of a plan\<close>

definition commitLossSlack :: float64 where "commitLossSlack = 1 / 1000000"

record live =
  lv_name :: string
  lv_group :: string
  lv_prec :: int
  lv_cc :: bool
  lv_excluded :: bool
  lv_up :: bool
  lv_commit :: float64
  lv_have :: bool
  lv_projected :: float64
  lv_target :: float64
  lv_onPort :: bool

type_synonym provs = "(string, live) fmap"

record placed =
  pf_px :: PlanPrefix
  pf_base :: string

record plan_state =
  ps_provs :: provs
  ps_led :: Ledger
  ps_prefs :: "placed list"
  ps_moved :: "prefix list"
  ps_moves :: "PlanMove list"

definition eligible :: "Ledger \<Rightarrow> live \<Rightarrow> bool" where
  "eligible led p =
     (if \<not> lv_up p \<or> lv_cc p \<or> lv_excluded p then False
      else if lv_onPort p then Headroom led (lv_name p) \<noteq> None
      else lv_have p \<and> lv_commit p > 0)"

definition headroom :: "Ledger \<Rightarrow> live \<Rightarrow> float64" where
  "headroom led p = (if lv_onPort p then val0 (Headroom led (lv_name p)) else lv_commit p - lv_projected p)"

definition commit_fresh :: "CommitScorer \<Rightarrow> Usage \<Rightarrow> time \<Rightarrow> bool" where
  "commit_fresh s u now \<longleftrightarrow> BillableMbps u \<noteq> None \<and> Fresh (us_Updated u) now (cs_maxAge s)"

definition defaultPrecedence :: int where "defaultPrecedence = 100"

definition new_live :: "CommitScorer \<Rightarrow> PlanInput \<Rightarrow> Ledger \<Rightarrow> PlanProvider \<Rightarrow> live" where
  "new_live s inp led p =
     (let have = pr_HaveRow p \<and> pr_Up p \<and> commit_fresh s (pr_Usage p) (pi_Now inp) in
      \<lparr>lv_name = pr_Name p, lv_group = pr_Group p,
       lv_prec = (if pr_Precedence p \<le> 0 then defaultPrecedence else pr_Precedence p),
       lv_cc = pr_CCDisable p, lv_excluded = pr_Excluded p, lv_up = pr_Up p,
       lv_commit = (if have then us_CommitMbps (pr_Usage p) else 0), lv_have = have,
       lv_projected = (if have then val0 (BillableMbps (pr_Usage p)) else 0), lv_target = 0,
       lv_onPort = OnPort led (pr_Name p)\<rparr>)"

definition add_live :: "CommitScorer \<Rightarrow> PlanInput \<Rightarrow> Ledger \<Rightarrow> provs \<Rightarrow> PlanProvider \<Rightarrow> provs" where
  "add_live s inp led m p =
     (if pr_Name p = [] \<or> fmlookup m (pr_Name p) \<noteq> None then m else fmupd (pr_Name p) (new_live s inp led p) m)"

definition live_provs :: "CommitScorer \<Rightarrow> PlanInput \<Rightarrow> Ledger \<Rightarrow> provs" where
  "live_provs s inp led = foldl (add_live s inp led) fmempty (pi_Providers inp)"

text \<open>Taking a volume off one provider's projection and putting it on another's, where they have one.\<close>

definition upd_projected :: "string \<Rightarrow> (float64 \<Rightarrow> float64) \<Rightarrow> provs \<Rightarrow> provs" where
  "upd_projected name f m =
     (case fmlookup m name of
        None \<Rightarrow> m
      | Some p \<Rightarrow> fmupd name (p\<lparr>lv_projected := f (lv_projected p)\<rparr>) m)"

definition have_row :: "provs \<Rightarrow> string \<Rightarrow> bool" where
  "have_row m name = (case fmlookup m name of None \<Rightarrow> False | Some p \<Rightarrow> lv_have p)"

definition shift_volume :: "provs \<Rightarrow> string \<Rightarrow> string \<Rightarrow> float64 \<Rightarrow> provs" where
  "shift_volume m src dst vol =
     (let m1 = (if have_row m src then upd_projected src (\<lambda>x. max (x - vol) 0) m else m)
      in if have_row m1 dst then upd_projected dst (\<lambda>x. x + vol) m1 else m1)"

definition shiftLocked :: "provs \<times> Ledger \<Rightarrow> PlanPrefix \<Rightarrow> provs \<times> Ledger" where
  "shiftLocked pl px =
     (if px_VolumeMbps px \<le> mbpsEps \<or> px_Native px = [] \<or> px_Current px = [] \<or> px_Native px = px_Current px then pl
      else (shift_volume (fst pl) (px_Native px) (px_Current px) (px_VolumeMbps px),
            Move (snd pl) (px_Native px) (px_Current px) (px_VolumeMbps px)))"

definition place_step ::
  "CommitScorer \<Rightarrow> (provs \<times> Ledger) \<times> placed list \<Rightarrow> PlanPrefix \<Rightarrow> (provs \<times> Ledger) \<times> placed list" where
  "place_step s acc px =
     (let (pl, prefs) = acc; vol = px_VolumeMbps px in
      if px_Prefix px = zeroPrefix then acc
      else if px_Locked px then (shiftLocked pl px, prefs)
      else if vol < cs_minMbps s \<or> vol \<le> mbpsEps then acc
      else if px_Reversible px \<and> px_Native px \<noteq> [] \<and> px_Current px \<noteq> [] \<and> px_Current px \<noteq> px_Native px
      then ((shift_volume (fst pl) (px_Current px) (px_Native px) vol, Move (snd pl) (px_Current px) (px_Native px) vol),
            prefs @ [\<lparr>pf_px = px, pf_base = px_Native px\<rparr>])
      else (let base = (if px_Current px = [] then px_Native px else px_Current px) in
            if base = [] then acc else (pl, prefs @ [\<lparr>pf_px = px, pf_base = base\<rparr>])))"

definition placed_less :: "placed \<Rightarrow> placed \<Rightarrow> bool" where
  "placed_less a b \<longleftrightarrow> Less (px_Prefix (pf_px a)) (px_Prefix (pf_px b))"

definition start_plan :: "CommitScorer \<Rightarrow> PlanInput \<Rightarrow> plan_state" where
  "start_plan s inp =
     (let led = NewLedger inp (cs_maxAge s);
          (pl, prefs) = foldl (place_step s) ((live_provs s inp led, led), []) (pi_Prefixes inp)
      in \<lparr>ps_provs = fst pl, ps_led = snd pl, ps_prefs = sort_by placed_less prefs, ps_moved = [], ps_moves = []\<rparr>)"

section \<open>Choosing a move\<close>

definition pathLoss :: "PlanPath list \<Rightarrow> string \<Rightarrow> float64 option" where
  "pathLoss paths provider =
     map_option pp_LossPct (find (\<lambda>p. pp_Provider p = provider \<and> pp_Usable p) paths)"

definition within_eps :: "float64 \<Rightarrow> float64 \<Rightarrow> bool" where
  "within_eps a b \<longleftrightarrow> a \<ge> b - mbpsEps \<and> a \<le> b + mbpsEps"

text \<open>The providers of the map in the order of one \<open>range\<close>.\<close>

type_synonym map_order = "nat list \<Rightarrow> string list \<Rightarrow> string list"

definition visit :: "map_order \<Rightarrow> nat list \<Rightarrow> provs \<Rightarrow> live list" where
  "visit it site m = List.map_filter (fmlookup m) (it site (sorted_list_of_set (fmdom' m)))"

definition over_step :: "string list \<Rightarrow> (live \<times> float64) option \<Rightarrow> live \<Rightarrow> (live \<times> float64) option" where
  "over_step skip best p =
     (if lv_name p \<in> set skip \<or> \<not> lv_have p \<or> lv_cc p \<or> lv_commit p \<le> 0 then best
      else let excess = lv_projected p - lv_commit p in
        if excess \<le> mbpsEps then best
        else (case best of
           None \<Rightarrow> Some (p, excess)
         | Some (src, b) \<Rightarrow>
             if excess > b + mbpsEps \<or> (within_eps excess b \<and> lv_name p < lv_name src) then Some (p, excess) else best))"

definition heaviestOver :: "live list \<Rightarrow> string list \<Rightarrow> (live \<times> float64) option" where
  "heaviestOver ls skip = foldl (over_step skip) None ls"

definition imbalance_step :: "string list \<Rightarrow> float64 \<Rightarrow> (live \<times> float64) option \<Rightarrow> live \<Rightarrow> (live \<times> float64) option" where
  "imbalance_step skip slack best p =
     (if lv_name p \<in> set skip \<or> lv_projected p \<le> lv_target p * (1 + slack) + mbpsEps then best
      else let excess = lv_projected p - lv_target p in
        case best of
          None \<Rightarrow> Some (p, excess)
        | Some (src, b) \<Rightarrow>
            if excess > b + mbpsEps \<or> (within_eps excess b \<and> lv_name p < lv_name src) then Some (p, excess) else best)"

definition heaviestImbalance :: "live list \<Rightarrow> string list \<Rightarrow> float64 \<Rightarrow> live option" where
  "heaviestImbalance active skip slack = map_option fst (foldl (imbalance_step skip slack) None active)"

text \<open>The count, the least and the greatest precedence of the eligible providers.\<close>

definition resort_step :: "Ledger \<Rightarrow> nat \<times> int \<times> int \<Rightarrow> live \<Rightarrow> nat \<times> int \<times> int" where
  "resort_step led acc p =
     (let (n, minP, maxP) = acc in
      if \<not> eligible led p then acc
      else (n + 1, if n = 0 \<or> lv_prec p < minP then lv_prec p else minP, if n = 0 \<or> lv_prec p > maxP then lv_prec p else maxP))"

definition lastResort :: "Ledger \<Rightarrow> live list \<Rightarrow> int option" where
  "lastResort led ls =
     (let (n, minP, maxP) = foldl (resort_step led) (0, 0, 0) ls
      in if n < 2 \<or> maxP \<le> minP then None else Some maxP)"

definition canTake :: "CommitScorer \<Rightarrow> Ledger \<Rightarrow> live \<Rightarrow> live \<Rightarrow> PlanPrefix \<Rightarrow> bool \<Rightarrow> bool" where
  "canTake s led dst src px sameGroup =
     (let vol = px_VolumeMbps px in
      if lv_name dst = lv_name src then False
      else if \<not> eligible led dst then False
      else if sameGroup \<and> (lv_group src = [] \<or> lv_group dst \<noteq> lv_group src) then False
      else if lv_onPort dst \<and> (sameGroup \<or> \<not> Allows led (lv_name src) (lv_name dst) vol) then False
      else if \<not> lv_onPort dst \<and> lv_projected dst + vol > lv_commit dst + mbpsEps then False
      else if sameGroup \<and> lv_projected dst + vol \<ge> lv_projected src - vol - mbpsEps then False
      else (case pathLoss (px_Paths px) (lv_name dst) of
         None \<Rightarrow> False
       | Some dstLoss \<Rightarrow>
           if cs_lossOverride s then True
           else (case pathLoss (px_Paths px) (lv_name src) of
              None \<Rightarrow> False
            | Some srcLoss \<Rightarrow> \<not> dstLoss > srcLoss + commitLossSlack)))"

definition betterDest :: "Ledger \<Rightarrow> live \<Rightarrow> live \<Rightarrow> bool" where
  "betterDest led a b =
     (if lv_prec a \<noteq> lv_prec b then lv_prec a < lv_prec b
      else if \<not> within_eps (headroom led a) (headroom led b) then headroom led a > headroom led b
      else lv_name a < lv_name b)"

text \<open>
  \<open>sort.SliceStable\<close> on up to twenty elements is an insertion sort from the left. \<open>betterDest\<close> compares
  with a tolerance and is not a strict weak order, so the algorithm and the order of the map are visible.
\<close>

fun insert_left :: "('a \<Rightarrow> 'a \<Rightarrow> bool) \<Rightarrow> 'a \<Rightarrow> 'a list \<Rightarrow> 'a list" where
  "insert_left lt x [] = [x]"
| "insert_left lt x (y # ys) = (if lt x y then y # insert_left lt x ys else x # y # ys)"

definition SliceStable :: "('a \<Rightarrow> 'a \<Rightarrow> bool) \<Rightarrow> 'a list \<Rightarrow> 'a list" where
  "SliceStable lt xs = rev (foldl (\<lambda>acc x. insert_left lt x acc) [] xs)"

definition chooseDest ::
  "CommitScorer \<Rightarrow> map_order \<Rightarrow> nat list \<Rightarrow> provs \<Rightarrow> Ledger \<Rightarrow> live \<Rightarrow> PlanPrefix \<Rightarrow> bool \<Rightarrow> string option" where
  "chooseDest s it site m led src px sameGroup =
     (let lr = lastResort led (visit it (site @ [0]) m);
          all = filter (\<lambda>p. canTake s led p src px sameGroup) (visit it (site @ [1]) m);
          preferred = filter (\<lambda>p. case lr of None \<Rightarrow> True | Some r \<Rightarrow> lv_prec p < r) all;
          cands = (if preferred = [] then all else preferred)
      in if cands = [] then None else Some (lv_name (hd (SliceStable (betterDest led) cands))))"

record option_move =
  om_index :: nat
  om_px :: PlanPrefix
  om_dest :: string

definition pick_option ::
  "CommitScorer \<Rightarrow> map_order \<Rightarrow> nat list \<Rightarrow> plan_state \<Rightarrow> live \<Rightarrow> bool \<Rightarrow> nat \<times> placed \<Rightarrow> option_move option" where
  "pick_option s it site st src sameGroup ip =
     (let (i, pf) = ip; px = pf_px pf in
      if px_Prefix px \<in> set (ps_moved st) \<or> pf_base pf \<noteq> lv_name src then None
      else if pathLoss (px_Paths px) (lv_name src) = None then None
      else map_option (\<lambda>d. \<lparr>om_index = i, om_px = px, om_dest = d\<rparr>)
             (chooseDest s it (site @ [i]) (ps_provs st) (ps_led st) src px sameGroup))"

definition smaller_option :: "option_move \<Rightarrow> option_move \<Rightarrow> option_move" where
  "smaller_option best o' =
     (let v = px_VolumeMbps (om_px o'); w = px_VolumeMbps (om_px best) in
      if v < w - mbpsEps \<or> (within_eps v w \<and> Less (px_Prefix (om_px o')) (px_Prefix (om_px best))) then o' else best)"

definition larger_option :: "option_move \<Rightarrow> option_move \<Rightarrow> option_move" where
  "larger_option best o' =
     (let v = px_VolumeMbps (om_px o'); w = px_VolumeMbps (om_px best) in
      if v > w + mbpsEps \<or> (within_eps v w \<and> Less (px_Prefix (om_px o')) (px_Prefix (om_px best))) then o' else best)"

definition smallest :: "option_move list \<Rightarrow> option_move" where
  "smallest ps = foldl smaller_option (hd ps) (tl ps)"

definition largest :: "option_move list \<Rightarrow> option_move" where
  "largest ps = foldl larger_option (hd ps) (tl ps)"

definition pick ::
  "CommitScorer \<Rightarrow> map_order \<Rightarrow> nat list \<Rightarrow> plan_state \<Rightarrow> live \<Rightarrow> float64 \<Rightarrow> bool \<Rightarrow> option_move option" where
  "pick s it site st src excess sameGroup =
     (let opts = List.map_filter (pick_option s it site st src sameGroup) (enumerate 0 (ps_prefs st));
          ge = filter (\<lambda>o'. px_VolumeMbps (om_px o') + mbpsEps \<ge> excess) opts;
          lt = filter (\<lambda>o'. \<not> px_VolumeMbps (om_px o') + mbpsEps \<ge> excess) opts
      in if ge \<noteq> [] then Some (smallest ge) else if lt \<noteq> [] then Some (largest lt) else None)"

section \<open>Applying a move\<close>

definition commit_move :: "live \<Rightarrow> string \<Rightarrow> PlanPrefix \<Rightarrow> bool \<Rightarrow> PlanMove" where
  "commit_move src dest px balancing =
     \<lparr>mv_Prefix = px_Prefix px, mv_Provider = dest,
      mv_Reason = (if balancing then RBalanceMove (lv_group src) (lv_name src) (px_VolumeMbps px) dest
                   else RCommitMove (lv_name src) (lv_projected src) (lv_commit src) (px_VolumeMbps px) dest),
      mv_ReliefMbps = px_VolumeMbps px, mv_Cause = CauseUnset, mv_Savings = 0\<rparr>"

definition apply_move :: "live \<Rightarrow> option_move \<Rightarrow> bool \<Rightarrow> plan_state \<Rightarrow> plan_state" where
  "apply_move src o' balancing st =
     (let px = om_px o'; vol = px_VolumeMbps px; dest = om_dest o' in
      if dest = px_Native px then st\<lparr>ps_moved := px_Prefix px # ps_moved st\<rparr>
      else st\<lparr>ps_provs := upd_projected dest (\<lambda>x. x + vol) (upd_projected (lv_name src) (\<lambda>x. max (x - vol) 0) (ps_provs st)),
              ps_led := Move (ps_led st) (lv_name src) dest vol,
              ps_prefs := (ps_prefs st)[om_index o' := \<lparr>pf_px = px, pf_base = dest\<rparr>],
              ps_moved := px_Prefix px # ps_moved st,
              ps_moves := ps_moves st @ [commit_move src dest px balancing]\<rparr>)"

section \<open>The loops\<close>

definition maxPlanIterations :: int where "maxPlanIterations = 10000"

text \<open>\<open>relieve\<close>, with the bound on its turns as a parameter.\<close>

function relieve_loop ::
  "int \<Rightarrow> CommitScorer \<Rightarrow> map_order \<Rightarrow> nat list \<Rightarrow> int \<Rightarrow> string list \<Rightarrow> nat \<Rightarrow> plan_state \<Rightarrow> nat \<times> plan_state" where
  "relieve_loop bound s it site guard skip n st =
     (if guard \<ge> bound then (n, st)
      else case heaviestOver (visit it (site @ [nat guard, 0]) (ps_provs st)) skip of
        None \<Rightarrow> (n, st)
      | Some (src, excess) \<Rightarrow>
          (case pick s it (site @ [nat guard, 1]) st src excess False of
             None \<Rightarrow> relieve_loop bound s it site (guard + 1) (lv_name src # skip) n st
           | Some o' \<Rightarrow> relieve_loop bound s it site (guard + 1) skip (n + 1) (apply_move src o' False st)))"
  by pat_completeness auto
termination
  by (relation "measure (\<lambda>(bound, s, it, site, guard, skip, n, st). nat (bound - guard))") auto

declare relieve_loop.simps [simp del]

definition relieve :: "CommitScorer \<Rightarrow> map_order \<Rightarrow> nat list \<Rightarrow> plan_state \<Rightarrow> nat \<times> plan_state" where
  "relieve s it site st = relieve_loop maxPlanIterations s it site 0 [] 0 st"

definition balanceSet :: "live list \<Rightarrow> live list option" where
  "balanceSet members =
     (let active = filter (\<lambda>m. \<not> (lv_cc m \<or> lv_excluded m \<or> lv_onPort m)) members in
      if list_ex (\<lambda>m. \<not> lv_up m \<or> \<not> lv_have m \<or> lv_commit m \<le> 0) active then None
      else if length active < 2 then None else Some active)"

definition target_of :: "CommitScorer \<Rightarrow> float64 \<Rightarrow> float64 \<Rightarrow> nat \<Rightarrow> live \<Rightarrow> float64" where
  "target_of s tot totC n m =
     (if cs_balance s = BalanceEqual then tot / of_nat n
      else if totC \<le> 0 then tot / of_nat n else tot * lv_commit m / totC)"

definition lives :: "provs \<Rightarrow> string list \<Rightarrow> live list" where
  "lives m names = List.map_filter (fmlookup m) names"

definition assignTargets :: "CommitScorer \<Rightarrow> string list \<Rightarrow> provs \<Rightarrow> provs" where
  "assignTargets s active m =
     (let ls = lives m active; tot = sum_list (map lv_projected ls); totC = sum_list (map lv_commit ls)
      in foldl (\<lambda>acc p. fmupd (lv_name p) (p\<lparr>lv_target := target_of s tot totC (length ls) p\<rparr>) acc) m ls)"

function balance_loop ::
  "int \<Rightarrow> CommitScorer \<Rightarrow> map_order \<Rightarrow> nat list \<Rightarrow> string list \<Rightarrow> int \<Rightarrow> string list \<Rightarrow> nat \<Rightarrow> plan_state \<Rightarrow>
   nat \<times> plan_state" where
  "balance_loop bound s it site active guard skip n st =
     (if guard \<ge> bound then (n, st)
      else case heaviestImbalance (lives (ps_provs st) active) skip (cs_slack s) of
        None \<Rightarrow> (n, st)
      | Some src \<Rightarrow>
          (let ex = lv_projected src - lv_target src; excess = (if ex < mbpsEps then mbpsEps else ex) in
           case pick s it (site @ [nat guard]) st src excess True of
             None \<Rightarrow> balance_loop bound s it site active (guard + 1) (lv_name src # skip) n st
           | Some o' \<Rightarrow>
               (let st1 = apply_move src o' True st
                in balance_loop bound s it site active (guard + 1) skip (n + 1)
                     (st1\<lparr>ps_provs := assignTargets s active (ps_provs st1)\<rparr>))))"
  by pat_completeness auto
termination
  by (relation "measure (\<lambda>(bound, s, it, site, active, guard, skip, n, st). nat (bound - guard))") auto

declare balance_loop.simps [simp del]

definition group_names :: "provs \<Rightarrow> string list" where
  "group_names m =
     sorted_list_of_set (lv_group ` set (filter (\<lambda>p. lv_group p \<noteq> []) (lives m (sorted_list_of_set (fmdom' m)))))"

definition group_members :: "provs \<Rightarrow> string \<Rightarrow> live list" where
  "group_members m g = filter (\<lambda>p. lv_group p = g) (lives m (sorted_list_of_set (fmdom' m)))"

definition balance_group :: "CommitScorer \<Rightarrow> map_order \<Rightarrow> nat list \<Rightarrow> nat \<times> plan_state \<Rightarrow> nat \<times> string \<Rightarrow> nat \<times> plan_state" where
  "balance_group s it site acc ig =
     (let (n, st) = acc in
      case balanceSet (group_members (ps_provs st) (snd ig)) of
        None \<Rightarrow> acc
      | Some active \<Rightarrow>
          (let names = map lv_name active
           in balance_loop maxPlanIterations s it (site @ [fst ig]) names 0 [] n
                (st\<lparr>ps_provs := assignTargets s names (ps_provs st)\<rparr>)))"

definition balanceGroups :: "CommitScorer \<Rightarrow> map_order \<Rightarrow> nat list \<Rightarrow> plan_state \<Rightarrow> nat \<times> plan_state" where
  "balanceGroups s it site st = foldl (balance_group s it site) (0, st) (enumerate 0 (group_names (ps_provs st)))"

text \<open>At most three passes, until one moves nothing.\<close>

fun plan_passes :: "nat \<Rightarrow> CommitScorer \<Rightarrow> map_order \<Rightarrow> plan_state \<Rightarrow> plan_state" where
  "plan_passes 0 s it st = st"
| "plan_passes (Suc k) s it st =
     (let (n, st1) = relieve s it [k, 0] st;
          (b, st2) = (if cs_balance s \<noteq> BalanceOff then balanceGroups s it [k, 1] st1 else (0, st1))
      in if n + b = 0 then st2 else plan_passes k s it st2)"

definition commit_plan :: "CommitScorer \<Rightarrow> map_order \<Rightarrow> PlanInput \<Rightarrow> plan_state" where
  "commit_plan s it inp = plan_passes 3 s it (start_plan s inp)"

definition commit_Plan :: "CommitScorer \<Rightarrow> map_order \<Rightarrow> PlanInput \<Rightarrow> PlanMove list" where
  "commit_Plan s it inp = ps_moves (commit_plan s it inp)"

definition commit_scorer :: "CommitScorer \<Rightarrow> map_order \<Rightarrow> Scorer" where
  "commit_scorer s it =
     \<lparr>sc_Score = Score (cs_coeffs s), sc_Planner = Some (commit_Plan s it), sc_AllowLoss = Some (AllowLoss s),
      sc_CostPolicy = None,
      sc_Weigher = Some (fst (ImprovementWeights (cs_weights s)), ImprovementWeight (cs_weights s))\<rparr>"


end
