(* ===== verification/Commit_Plan.thy ===== *)
theory Commit_Plan
  imports Commit_Scorer
begin

text \<open>
  The commit planner as a machine. One step of a plan assigns the balance targets or applies a picked
  move; both loops of the source are runs of this machine, whatever the order of the map. The moves it
  makes, the limits it keeps and the end of its loops follow from invariants of the step relation.
\<close>

section \<open>What the selections return\<close>

lemma in_map_filter: "y \<in> set (List.map_filter f xs) \<longleftrightarrow> (\<exists>x \<in> set xs. f x = Some y)"
  by (induction xs) (auto simp: List.map_filter_def)

lemma foldl_selects:
  assumes "\<And>a b. f a b \<in> {a, b}"
  shows "foldl f x xs \<in> set (x # xs)"
proof (induction xs arbitrary: x)
  case (Cons y ys)
  then show ?case using assms [of x y] Cons.IH [of "f x y"] by (metis foldl_Cons insert_iff list.simps(15) singletonD)
qed simp

lemma smallest_in: "xs \<noteq> [] \<Longrightarrow> smallest xs \<in> set xs"
  using foldl_selects [of smaller_option "hd xs" "tl xs"] by (simp add: smallest_def smaller_option_def Let_def)

lemma largest_in: "xs \<noteq> [] \<Longrightarrow> largest xs \<in> set xs"
  using foldl_selects [of larger_option "hd xs" "tl xs"] by (simp add: largest_def larger_option_def Let_def)

lemma set_insert_left [simp]: "set (insert_left lt x ys) = insert x (set ys)"
  by (induction ys) auto

lemma set_SliceStable [simp]: "set (SliceStable lt xs) = set xs"
proof -
  have "set (foldl (\<lambda>acc x. insert_left lt x acc) acc xs) = set acc \<union> set xs" for acc
    by (induction xs arbitrary: acc) auto
  then show ?thesis by (simp add: SliceStable_def)
qed

lemma hd_SliceStable: "xs \<noteq> [] \<Longrightarrow> hd (SliceStable lt xs) \<in> set xs"
  using set_SliceStable [of lt xs] by (metis hd_in_set set_empty)

text \<open>Every provider is stored under its own name.\<close>

definition keyed_provs :: "provs \<Rightarrow> bool" where
  "keyed_provs m \<longleftrightarrow> (\<forall>n p. fmlookup m n = Some p \<longrightarrow> lv_name p = n)"

lemma visit_lookup: "keyed_provs m \<Longrightarrow> p \<in> set (visit it site m) \<Longrightarrow> fmlookup m (lv_name p) = Some p"
  by (auto simp: visit_def in_map_filter keyed_provs_def)

lemma lives_lookup: "keyed_provs m \<Longrightarrow> p \<in> set (lives m ns) \<Longrightarrow> fmlookup m (lv_name p) = Some p"
  by (auto simp: lives_def in_map_filter keyed_provs_def)

lemma chooseDest_Some:
  assumes "keyed_provs m" and "chooseDest s it site m led src px sg = Some d"
  obtains p where "fmlookup m d = Some p" "lv_name p = d" "canTake s led p src px sg"
proof -
  define lr where "lr = lastResort led (visit it (site @ [0]) m)"
  define all where "all = filter (\<lambda>p. canTake s led p src px sg) (visit it (site @ [1]) m)"
  define preferred where "preferred = filter (\<lambda>p. case lr of None \<Rightarrow> True | Some r \<Rightarrow> lv_prec p < r) all"
  define cands where "cands = (if preferred = [] then all else preferred)"
  have "chooseDest s it site m led src px sg =
      (if cands = [] then None else Some (lv_name (hd (SliceStable (betterDest led) cands))))"
    by (simp only: chooseDest_def Let_def lr_def all_def preferred_def cands_def)
  with assms(2) have c: "cands \<noteq> []" "d = lv_name (hd (SliceStable (betterDest led) cands))" by (auto split: if_splits)
  moreover have "set cands \<subseteq> set all" by (auto simp: cands_def preferred_def)
  ultimately have "hd (SliceStable (betterDest led) cands) \<in> set all" using hd_SliceStable by blast
  with that c(2) visit_lookup [OF assms(1)] show thesis by (auto simp: all_def)
qed

lemma pick_Some:
  assumes "pick s it site st src excess sg = Some om"
  obtains pf site' where "om_index om < length (ps_prefs st)" "ps_prefs st ! om_index om = pf" "om_px om = pf_px pf"
    "pf_base pf = lv_name src" "px_Prefix (pf_px pf) \<notin> set (ps_moved st)" "pathLoss (px_Paths (pf_px pf)) (lv_name src) \<noteq> None"
    "chooseDest s it site' (ps_provs st) (ps_led st) src (pf_px pf) sg = Some (om_dest om)"
proof -
  define opts where "opts = List.map_filter (pick_option s it site st src sg) (enumerate 0 (ps_prefs st))"
  have "om \<in> set opts"
    using assms smallest_in [of "filter (\<lambda>om. px_VolumeMbps (om_px om) + mbpsEps \<ge> excess) opts"]
      largest_in [of "filter (\<lambda>om. \<not> px_VolumeMbps (om_px om) + mbpsEps \<ge> excess) opts"]
    by (auto simp: pick_def opts_def [symmetric] Let_def split: if_splits)
  then obtain i pf where "(i, pf) \<in> set (enumerate 0 (ps_prefs st))" "pick_option s it site st src sg (i, pf) = Some om"
    by (auto simp: opts_def in_map_filter)
  then show thesis
    by (intro that [of pf "site @ [i]"]) (auto simp: in_set_enumerate_eq pick_option_def Let_def split: if_splits)
qed

lemma pathLoss_Some:
  "pathLoss paths n = Some l \<Longrightarrow> \<exists>pp \<in> set paths. pp_Provider pp = n \<and> pp_Usable pp \<and> pp_LossPct pp = l"
  by (fastforce simp: pathLoss_def find_Some_iff in_set_conv_nth)

section \<open>The step relation\<close>

inductive plan_step :: "CommitScorer \<Rightarrow> map_order \<Rightarrow> plan_state \<Rightarrow> plan_state \<Rightarrow> bool" for s it where
  retarget: "plan_step s it st (st\<lparr>ps_provs := assignTargets s active (ps_provs st)\<rparr>)"
| shift: "fmlookup (ps_provs st) (lv_name src) = Some src \<Longrightarrow> pick s it site st src excess sg = Some om \<Longrightarrow>
    plan_step s it st (apply_move src om sg st)"

abbreviation plan_run :: "CommitScorer \<Rightarrow> map_order \<Rightarrow> plan_state \<Rightarrow> plan_state \<Rightarrow> bool" where
  "plan_run s it \<equiv> (plan_step s it)\<^sup>*\<^sup>*"

lemma lookup_upd_projected:
  "fmlookup (upd_projected n f m) k =
     (if k = n then map_option (\<lambda>p. p\<lparr>lv_projected := f (lv_projected p)\<rparr>) (fmlookup m n) else fmlookup m k)"
  by (auto simp: upd_projected_def split: option.splits)

lemma keyed_upd_projected: "keyed_provs m \<Longrightarrow> keyed_provs (upd_projected n f m)"
  by (auto simp: keyed_provs_def lookup_upd_projected split: if_splits)

text \<open>The fields of a provider that a plan never changes.\<close>

definition static :: "live \<Rightarrow> live" where
  "static p = p\<lparr>lv_projected := 0, lv_target := 0\<rparr>"

lemma static_simps [simp]:
  "static (p\<lparr>lv_projected := x\<rparr>) = static p" "static (p\<lparr>lv_target := y\<rparr>) = static p"
  by (cases p; simp add: static_def)+

lemma static_eqD:
  assumes "static p = static q"
  shows "lv_name p = lv_name q" "lv_group p = lv_group q" "lv_prec p = lv_prec q" "lv_cc p = lv_cc q" "lv_excluded p = lv_excluded q"
    "lv_up p = lv_up q" "lv_commit p = lv_commit q" "lv_have p = lv_have q" "lv_onPort p = lv_onPort q"
  using assms by (cases p; cases q; simp add: static_def)+

definition statics :: "provs \<Rightarrow> string \<Rightarrow> live option" where
  "statics m n = map_option static (fmlookup m n)"

lemma statics_upd_projected [simp]: "statics (upd_projected n f m) = statics m"
  by (auto simp: statics_def lookup_upd_projected option.map_comp comp_def fun_eq_iff)

lemma statics_shift_volume [simp]: "statics (shift_volume m src dst vol) = statics m"
  by (simp add: shift_volume_def Let_def)

lemma keyed_statics: "statics m = statics m' \<Longrightarrow> keyed_provs m \<Longrightarrow> keyed_provs m'"
  unfolding keyed_provs_def statics_def
  by (metis (no_types, opaque_lifting) map_option_eq_Some static_eqD(1))

text \<open>Assigning the targets changes nothing else.\<close>

lemma fold_targets_lookup:
  assumes "keyed_provs m" and "\<forall>p \<in> set ls. fmlookup m (lv_name p) = Some p"
    and "\<forall>n. map_option (\<lambda>p. p\<lparr>lv_target := 0\<rparr>) (fmlookup acc n) = map_option (\<lambda>p. p\<lparr>lv_target := 0\<rparr>) (fmlookup m n)"
  shows "map_option (\<lambda>p. p\<lparr>lv_target := 0\<rparr>)
      (fmlookup (foldl (\<lambda>acc p. fmupd (lv_name p) (p\<lparr>lv_target := t p\<rparr>) acc) acc ls) n) =
    map_option (\<lambda>p. p\<lparr>lv_target := 0\<rparr>) (fmlookup m n)"
  using assms by (induction ls arbitrary: acc) auto

lemma lookup_assignTargets:
  "keyed_provs m \<Longrightarrow> map_option (\<lambda>p. p\<lparr>lv_target := 0\<rparr>) (fmlookup (assignTargets s active m) n) =
    map_option (\<lambda>p. p\<lparr>lv_target := 0\<rparr>) (fmlookup m n)"
  unfolding assignTargets_def Let_def by (rule fold_targets_lookup) (auto simp: lives_lookup)

lemma statics_assignTargets [simp]:
  assumes "keyed_provs m"
  shows "statics (assignTargets s active m) = statics m"
proof
  fix n
  have "statics (assignTargets s active m) n = map_option static (map_option (\<lambda>p. p\<lparr>lv_target := 0\<rparr>) (fmlookup (assignTargets s active m) n))"
    by (simp add: statics_def option.map_comp comp_def)
  then show "statics (assignTargets s active m) n = statics m n"
    by (simp add: lookup_assignTargets [OF assms] statics_def option.map_comp comp_def)
qed

lemma projected_assignTargets:
  assumes "keyed_provs m" and "fmlookup (assignTargets s active m) n = Some p'"
  obtains p where "fmlookup m n = Some p" "lv_projected p' = lv_projected p"
proof -
  from lookup_assignTargets [OF assms(1), of s active n] assms(2)
  obtain p where p: "fmlookup m n = Some p" "p'\<lparr>lv_target := 0\<rparr> = p\<lparr>lv_target := 0\<rparr>"
    by (auto simp: map_option_case split: option.splits)
  from arg_cong [OF p(2), of lv_projected] p(1) that show thesis by simp
qed

lemma apply_move_simps:
  "ps_provs (apply_move src om sg st) =
     (if om_dest om = px_Native (om_px om) then ps_provs st
      else upd_projected (om_dest om) (\<lambda>x. x + px_VolumeMbps (om_px om))
             (upd_projected (lv_name src) (\<lambda>x. max (x - px_VolumeMbps (om_px om)) 0) (ps_provs st)))"
  "ps_led (apply_move src om sg st) =
     (if om_dest om = px_Native (om_px om) then ps_led st
      else Move (ps_led st) (lv_name src) (om_dest om) (px_VolumeMbps (om_px om)))"
  "ps_prefs (apply_move src om sg st) =
     (if om_dest om = px_Native (om_px om) then ps_prefs st
      else (ps_prefs st)[om_index om := \<lparr>pf_px = om_px om, pf_base = om_dest om\<rparr>])"
  "ps_moved (apply_move src om sg st) = px_Prefix (om_px om) # ps_moved st"
  "ps_moves (apply_move src om sg st) =
     (if om_dest om = px_Native (om_px om) then ps_moves st
      else ps_moves st @ [commit_move src (om_dest om) (om_px om) sg])"
  by (simp_all add: apply_move_def Let_def)

lemma step_statics:
  assumes "plan_step s it st st'" and "keyed_provs (ps_provs st)"
  shows "statics (ps_provs st') = statics (ps_provs st)"
  using assms by cases (simp_all add: apply_move_simps)

lemma step_keyed: "plan_step s it st st' \<Longrightarrow> keyed_provs (ps_provs st) \<Longrightarrow> keyed_provs (ps_provs st')"
  using step_statics keyed_statics by metis

lemma run_keyed: "plan_run s it st st' \<Longrightarrow> keyed_provs (ps_provs st) \<Longrightarrow> keyed_provs (ps_provs st')"
  by (induction rule: rtranclp_induct) (auto intro: step_keyed)

section \<open>The loops are runs\<close>

lemma heaviestOver_in:
  assumes "heaviestOver ls skip = Some (src, ex)"
  shows "src \<in> set ls \<and> lv_name src \<notin> set skip"
proof -
  have "foldl (over_step skip) acc ls = Some (src, ex) \<Longrightarrow>
      acc = Some (src, ex) \<or> src \<in> set ls \<and> lv_name src \<notin> set skip" for acc
  proof (induction ls arbitrary: acc)
    case (Cons l ls)
    from Cons.IH [of "over_step skip acc l"] Cons.prems show ?case
      by (auto simp: over_step_def Let_def split: option.splits if_splits)
  qed simp
  then show ?thesis using assms by (auto simp: heaviestOver_def)
qed

lemma heaviestImbalance_in:
  assumes "heaviestImbalance ls skip slack = Some src"
  shows "src \<in> set ls \<and> lv_name src \<notin> set skip"
proof -
  have "foldl (imbalance_step skip slack) acc ls = Some (src, ex) \<Longrightarrow>
      acc = Some (src, ex) \<or> src \<in> set ls \<and> lv_name src \<notin> set skip" for acc ex
  proof (induction ls arbitrary: acc)
    case (Cons l ls)
    from Cons.IH [of "imbalance_step skip slack acc l"] Cons.prems show ?case
      by (auto simp: imbalance_step_def Let_def split: option.splits if_splits)
  qed simp
  then show ?thesis using assms by (auto simp: heaviestImbalance_def)
qed

lemma relieve_loop_run:
  "keyed_provs (ps_provs st) \<Longrightarrow> plan_run s it st (snd (relieve_loop bound s it site guard skip n st))"
proof (induction bound s it site guard skip n st rule: relieve_loop.induct)
  case (1 bound s it site guard skip n st)
  show ?case
  proof (cases "guard \<ge> bound \<or> heaviestOver (visit it (site @ [nat guard, 0]) (ps_provs st)) skip = None")
    case True
    then show ?thesis by (auto simp: relieve_loop.simps [of bound s it site guard skip n st])
  next
    case False
    then obtain src ex where h: "guard < bound" "heaviestOver (visit it (site @ [nat guard, 0]) (ps_provs st)) skip = Some (src, ex)"
      by auto
    have lk: "fmlookup (ps_provs st) (lv_name src) = Some src"
      using heaviestOver_in [OF h(2)] visit_lookup "1.prems" by blast
    show ?thesis
    proof (cases "pick s it (site @ [nat guard, 1]) st src ex False")
      case None
      then show ?thesis
        using "1.IH"(1) [OF _ h(2) refl None] "1.prems" h by (simp add: relieve_loop.simps [of bound s it site guard skip n st])
    next
      case (Some om)
      have st: "plan_step s it st (apply_move src om False st)" by (rule plan_step.shift [OF lk Some])
      then show ?thesis
        using "1.IH"(2) [OF _ h(2) refl Some] "1.prems" h Some step_keyed [OF st]
        by (simp add: relieve_loop.simps [of bound s it site guard skip n st] converse_rtranclp_into_rtranclp)
    qed
  qed
qed

lemma balance_loop_run:
  "keyed_provs (ps_provs st) \<Longrightarrow> plan_run s it st (snd (balance_loop bound s it site active guard skip n st))"
proof (induction bound s it site active guard skip n st rule: balance_loop.induct)
  case (1 bound s it site active guard skip n st)
  show ?case
  proof (cases "guard \<ge> bound \<or> heaviestImbalance (lives (ps_provs st) active) skip (cs_slack s) = None")
    case True
    then show ?thesis by (auto simp: balance_loop.simps [of bound s it site active guard skip n st])
  next
    case False
    then obtain src where h: "guard < bound" "heaviestImbalance (lives (ps_provs st) active) skip (cs_slack s) = Some src"
      by auto
    define ex where "ex = (if lv_projected src - lv_target src < mbpsEps then mbpsEps else lv_projected src - lv_target src)"
    have lk: "fmlookup (ps_provs st) (lv_name src) = Some src"
      using heaviestImbalance_in [OF h(2)] lives_lookup "1.prems" by blast
    note unf = balance_loop.simps [of bound s it site active guard skip n st]
    show ?thesis
    proof (cases "pick s it (site @ [nat guard]) st src ex True")
      case None
      then show ?thesis
        using "1.IH"(1) [OF _ h(2) refl ex_def None] "1.prems" h by (simp add: unf ex_def [symmetric] Let_def)
    next
      case (Some om)
      define st1 where "st1 = apply_move src om True st"
      define st2 where "st2 = st1\<lparr>ps_provs := assignTargets s active (ps_provs st1)\<rparr>"
      have s1: "plan_step s it st st1" unfolding st1_def by (rule plan_step.shift [OF lk Some])
      have s2: "plan_step s it st1 st2" unfolding st2_def by (rule plan_step.retarget)
      have "plan_run s it st2 (snd (balance_loop bound s it site active (guard + 1) skip (n + 1) st2))"
        using "1.IH"(2) [OF _ h(2) refl ex_def Some st1_def] h(1) step_keyed [OF s2 step_keyed [OF s1 "1.prems"]]
        by (simp add: st2_def)
      with s1 s2 have "plan_run s it st (snd (balance_loop bound s it site active (guard + 1) skip (n + 1) st2))"
        by (meson converse_rtranclp_into_rtranclp)
      then show ?thesis using h Some by (simp add: unf ex_def [symmetric] Let_def st2_def st1_def)
    qed
  qed
qed

lemma balance_group_run:
  "keyed_provs (ps_provs (snd acc)) \<Longrightarrow> plan_run s it (snd acc) (snd (balance_group s it site acc ig))"
proof (cases acc)
  case (Pair n st)
  assume k: "keyed_provs (ps_provs (snd acc))"
  show ?thesis
  proof (cases "balanceSet (group_members (ps_provs st) (snd ig))")
    case None
    then show ?thesis by (simp add: Pair balance_group_def)
  next
    case (Some active)
    define st1 where "st1 = st\<lparr>ps_provs := assignTargets s (map lv_name active) (ps_provs st)\<rparr>"
    have s1: "plan_step s it st st1" unfolding st1_def by (rule plan_step.retarget)
    then have "keyed_provs (ps_provs st1)" using k Pair step_keyed by simp
    from balance_loop_run [OF this] s1 show ?thesis
      by (simp add: Pair Some balance_group_def Let_def st1_def [symmetric] converse_rtranclp_into_rtranclp)
  qed
qed

lemma balanceGroups_run:
  assumes "keyed_provs (ps_provs st)"
  shows "plan_run s it st (snd (balanceGroups s it site st))"
proof -
  have "keyed_provs (ps_provs (snd acc)) \<Longrightarrow> plan_run s it (snd acc) (snd (foldl (balance_group s it site) acc gs))" for acc gs
  proof (induction gs arbitrary: acc)
    case (Cons g gs)
    note g = balance_group_run [OF Cons.prems, of s it site g]
    show ?case using Cons.IH [OF run_keyed [OF g Cons.prems]] g by simp
  qed simp
  from this [of "(0, st)"] assms show ?thesis by (simp add: balanceGroups_def)
qed

lemma plan_passes_run: "keyed_provs (ps_provs st) \<Longrightarrow> plan_run s it st (plan_passes k s it st)"
proof (induction k arbitrary: st)
  case (Suc k)
  define st1 where "st1 = snd (relieve s it [k, 0] st)"
  define st2 where "st2 = (if cs_balance s \<noteq> BalanceOff then snd (balanceGroups s it [k, 1] st1) else st1)"
  have r1: "plan_run s it st st1" unfolding st1_def relieve_def by (rule relieve_loop_run [OF Suc.prems])
  have r2: "plan_run s it st1 st2" using balanceGroups_run [OF run_keyed [OF r1 Suc.prems]] by (simp add: st2_def)
  have r: "plan_run s it st st2" using r1 r2 by simp
  then have "plan_run s it st (plan_passes k s it st2)" using Suc.IH [OF run_keyed [OF r Suc.prems]] by simp
  moreover have "plan_passes (Suc k) s it st = st2 \<or> plan_passes (Suc k) s it st = plan_passes k s it st2"
    by (simp add: st1_def st2_def split: prod.splits)
  ultimately show ?case using r by metis
qed simp

section \<open>Where a plan starts\<close>

definition led0 :: "CommitScorer \<Rightarrow> PlanInput \<Rightarrow> Ledger" where
  "led0 s inp = NewLedger inp (cs_maxAge s)"

text \<open>The provider a prefix counts on when the plan starts.\<close>

definition base_of :: "PlanPrefix \<Rightarrow> string" where
  "base_of px =
     (if px_Reversible px \<and> px_Native px \<noteq> [] \<and> px_Current px \<noteq> [] \<and> px_Current px \<noteq> px_Native px then px_Native px
      else if px_Current px = [] then px_Native px else px_Current px)"

definition candidate_prefix :: "CommitScorer \<Rightarrow> PlanInput \<Rightarrow> PlanPrefix \<Rightarrow> bool" where
  "candidate_prefix s inp px \<longleftrightarrow> px \<in> set (pi_Prefixes inp) \<and> px_Prefix px \<noteq> zeroPrefix \<and> \<not> px_Locked px \<and>
     mbpsEps < px_VolumeMbps px \<and> cs_minMbps s \<le> px_VolumeMbps px"

definition commit_move_ok :: "CommitScorer \<Rightarrow> PlanInput \<Rightarrow> PlanMove \<Rightarrow> bool" where
  "commit_move_ok s inp m \<longleftrightarrow>
     (\<exists>px p l l0. candidate_prefix s inp px \<and> px_Prefix px = mv_Prefix m \<and> mv_ReliefMbps m = px_VolumeMbps px \<and>
        mv_Provider m \<noteq> px_Native px \<and> mv_Provider m \<noteq> base_of px \<and>
        p \<in> set (pi_Providers inp) \<and> pr_Name p = mv_Provider m \<and> pr_Up p \<and> \<not> pr_CCDisable p \<and> \<not> pr_Excluded p \<and>
        pathLoss (px_Paths px) (mv_Provider m) = Some l \<and> pathLoss (px_Paths px) (base_of px) = Some l0 \<and>
        (cs_lossOverride s \<or> l \<le> l0 + commitLossSlack))"

lemma live_provs_lookup:
  assumes "fmlookup (live_provs s inp led) n = Some lv"
  obtains p where "p \<in> set (pi_Providers inp)" "pr_Name p = n" "lv = new_live s inp led p"
proof -
  have "fmlookup (foldl (add_live s inp led) m ps) n = Some lv \<Longrightarrow>
      fmlookup m n = Some lv \<or> (\<exists>p \<in> set ps. pr_Name p = n \<and> lv = new_live s inp led p)" for m ps
  proof (induction ps arbitrary: m)
    case (Cons p ps)
    from Cons.IH [of "add_live s inp led m p"] Cons.prems show ?case
      by (auto simp: add_live_def split: if_splits)
  qed simp
  from this [of fmempty "pi_Providers inp"] assms that show thesis by (auto simp: live_provs_def)
qed

lemma keyed_live_provs: "keyed_provs (live_provs s inp led)"
  by (auto simp: keyed_provs_def new_live_def Let_def elim!: live_provs_lookup)

lemma place_fold:
  assumes "foldl (place_step s) ((m, led), prefs) pxs = ((m', led'), prefs')" and "wf_ledger led"
  shows "statics m' = statics m \<and> l_peer led' = l_peer led \<and> wf_ledger led' \<and>
     (\<forall>pf \<in> set prefs'. pf \<in> set prefs \<or> pf_px pf \<in> set pxs \<and> px_Prefix (pf_px pf) \<noteq> zeroPrefix \<and> \<not> px_Locked (pf_px pf) \<and>
        mbpsEps < px_VolumeMbps (pf_px pf) \<and> cs_minMbps s \<le> px_VolumeMbps (pf_px pf) \<and> pf_base pf = base_of (pf_px pf))"
  using assms
proof (induction pxs arbitrary: m led prefs)
  case (Cons px pxs)
  obtain m1 led1 prefs1 where st: "place_step s ((m, led), prefs) px = ((m1, led1), prefs1)"
    by (metis surj_pair)
  then have "statics m1 = statics m" "l_peer led1 = l_peer led" "wf_ledger led1"
    using Cons.prems(2) by (auto simp: place_step_def shiftLocked_def Let_def wf_Move split: if_splits)
  moreover have "\<forall>pf \<in> set prefs1. pf \<in> set prefs \<or> pf_px pf = px \<and> px_Prefix px \<noteq> zeroPrefix \<and> \<not> px_Locked px \<and>
        mbpsEps < px_VolumeMbps px \<and> cs_minMbps s \<le> px_VolumeMbps px \<and> pf_base pf = base_of px"
    using st by (auto simp: place_step_def base_of_def Let_def split: if_splits)
  moreover note Cons.IH [of m1 led1 prefs1]
  ultimately show ?case using Cons.prems(1) st by fastforce
qed simp

section \<open>The invariant of a plan\<close>

definition plan_inv :: "CommitScorer \<Rightarrow> PlanInput \<Rightarrow> plan_state \<Rightarrow> bool" where
  "plan_inv s inp st \<longleftrightarrow>
     statics (ps_provs st) = statics (live_provs s inp (led0 s inp)) \<and>
     l_peer (ps_led st) = l_peer (led0 s inp) \<and> wf_ledger (ps_led st) \<and>
     (\<forall>pf \<in> set (ps_prefs st). candidate_prefix s inp (pf_px pf) \<and>
        (px_Prefix (pf_px pf) \<in> set (ps_moved st) \<or> pf_base pf = base_of (pf_px pf))) \<and>
     distinct (map mv_Prefix (ps_moves st)) \<and> mv_Prefix ` set (ps_moves st) \<subseteq> set (ps_moved st) \<and>
     (\<forall>m \<in> set (ps_moves st). commit_move_ok s inp m)"

lemma plan_inv_keyed: "plan_inv s inp st \<Longrightarrow> keyed_provs (ps_provs st)"
  unfolding plan_inv_def by (metis keyed_live_provs keyed_statics)

lemma plan_inv_start: "plan_inv s inp (start_plan s inp)"
proof -
  obtain m led prefs where "foldl (place_step s) ((live_provs s inp (led0 s inp), led0 s inp), []) (pi_Prefixes inp) = ((m, led), prefs)"
    by (metis surj_pair)
  with place_fold [OF this] wf_NewLedger show ?thesis
    by (auto simp: plan_inv_def start_plan_def led0_def candidate_prefix_def Let_def)
qed

lemma plan_inv_lookup:
  assumes "plan_inv s inp st" and "fmlookup (ps_provs st) n = Some lv"
  obtains p where "p \<in> set (pi_Providers inp)" "pr_Name p = n" "static lv = static (new_live s inp (led0 s inp) p)"
proof -
  from assms have "statics (live_provs s inp (led0 s inp)) n = Some (static lv)"
    by (metis plan_inv_def statics_def option.simps(9))
  then obtain q where "fmlookup (live_provs s inp (led0 s inp)) n = Some q" "static q = static lv"
    by (auto simp: statics_def)
  with that show thesis by (metis live_provs_lookup)
qed

text \<open>Everything a shift does, under the invariant.\<close>

lemma shift_facts:
  assumes inv: "plan_inv s inp st" and pk: "pick s it site st src excess sg = Some om"
  obtains dst where "candidate_prefix s inp (om_px om)" "base_of (om_px om) = lv_name src"
    "px_Prefix (om_px om) \<notin> set (ps_moved st)" "om_index om < length (ps_prefs st)"
    "pf_px (ps_prefs st ! om_index om) = om_px om"
    "fmlookup (ps_provs st) (om_dest om) = Some dst" "lv_name dst = om_dest om"
    "canTake s (ps_led st) dst src (om_px om) sg" "pathLoss (px_Paths (om_px om)) (lv_name src) \<noteq> None"
proof -
  from pk obtain pf site' where pf: "om_index om < length (ps_prefs st)" "ps_prefs st ! om_index om = pf" "om_px om = pf_px pf"
    "pf_base pf = lv_name src" "px_Prefix (pf_px pf) \<notin> set (ps_moved st)" "pathLoss (px_Paths (pf_px pf)) (lv_name src) \<noteq> None"
    "chooseDest s it site' (ps_provs st) (ps_led st) src (pf_px pf) sg = Some (om_dest om)"
    by (rule pick_Some)
  from pf(1,2) have "pf \<in> set (ps_prefs st)" by auto
  with inv pf have "candidate_prefix s inp (om_px om)" "base_of (om_px om) = lv_name src"
    by (auto simp: plan_inv_def)
  moreover from pf(7) obtain dst where "fmlookup (ps_provs st) (om_dest om) = Some dst" "lv_name dst = om_dest om"
    "canTake s (ps_led st) dst src (pf_px pf) sg"
    by (rule chooseDest_Some [OF plan_inv_keyed [OF inv]])
  ultimately show thesis using that [of dst] pf by simp
qed

lemma canTake_facts:
  assumes "canTake s led dst src px sg"
  shows "lv_name dst \<noteq> lv_name src" "lv_up dst" "\<not> lv_cc dst" "\<not> lv_excluded dst"
    "lv_onPort dst \<Longrightarrow> Allows led (lv_name src) (lv_name dst) (px_VolumeMbps px)"
    "\<not> lv_onPort dst \<Longrightarrow> lv_projected dst + px_VolumeMbps px \<le> lv_commit dst + mbpsEps"
    "\<exists>l. pathLoss (px_Paths px) (lv_name dst) = Some l \<and>
       (cs_lossOverride s \<or> (\<exists>l0. pathLoss (px_Paths px) (lv_name src) = Some l0 \<and> l \<le> l0 + commitLossSlack))"
  using assms by (auto simp: canTake_def eligible_def Let_def split: if_splits option.splits)

lemma shift_move_ok:
  assumes inv: "plan_inv s inp st" and pk: "pick s it site st src excess sg = Some om" and d: "om_dest om \<noteq> px_Native (om_px om)"
  shows "commit_move_ok s inp (commit_move src (om_dest om) (om_px om) sg)"
proof -
  from shift_facts [OF inv pk] obtain dst where f: "candidate_prefix s inp (om_px om)" "base_of (om_px om) = lv_name src"
    "fmlookup (ps_provs st) (om_dest om) = Some dst" "lv_name dst = om_dest om"
    "canTake s (ps_led st) dst src (om_px om) sg" "pathLoss (px_Paths (om_px om)) (lv_name src) \<noteq> None" by metis
  note c = canTake_facts [OF f(5)]
  from plan_inv_lookup [OF inv f(3)] obtain p where p: "p \<in> set (pi_Providers inp)" "pr_Name p = om_dest om"
    "static dst = static (new_live s inp (led0 s inp) p)" by metis
  have "pr_Up p" "\<not> pr_CCDisable p" "\<not> pr_Excluded p"
    using c(2-4) static_eqD(4-6) [OF p(3)] by (simp_all add: new_live_def Let_def)
  moreover obtain l l0 where "pathLoss (px_Paths (om_px om)) (om_dest om) = Some l"
    "pathLoss (px_Paths (om_px om)) (lv_name src) = Some l0" "cs_lossOverride s \<or> l \<le> l0 + commitLossSlack"
    using c(7) f(4,6) by (auto simp: not_None_eq)
  ultimately show ?thesis
    unfolding commit_move_ok_def using p(1,2) f(1,2,4) c(1) d
    by (intro exI [of _ "om_px om"] exI [of _ p] exI [of _ l] exI [of _ l0]) (simp add: commit_move_def)
qed

lemma plan_step_inv:
  assumes "plan_step s it st st'" and inv: "plan_inv s inp st"
  shows "plan_inv s inp st'"
  using assms(1)
proof cases
  case (retarget active)
  then show ?thesis using inv plan_inv_keyed [OF inv] by (simp add: plan_inv_def)
next
  case (shift src site excess sg om)
  from shift_facts [OF inv shift(3)] have f: "candidate_prefix s inp (om_px om)" "px_Prefix (om_px om) \<notin> set (ps_moved st)"
    by metis+
  have "plan_inv s inp (apply_move src om sg st)"
    using inv f shift_move_ok [OF inv shift(3)]
    by (auto simp: plan_inv_def apply_move_simps wf_Move commit_move_def dest!: set_update_subset_insert [THEN subsetD])
  then show ?thesis by (simp add: shift(1))
qed

lemma plan_run_inv: "plan_run s it st st' \<Longrightarrow> plan_inv s inp st \<Longrightarrow> plan_inv s inp st'"
  by (induction rule: rtranclp_induct) (auto intro: plan_step_inv)

lemma commit_plan_run: "plan_run s it (start_plan s inp) (commit_plan s it inp)"
  unfolding commit_plan_def by (rule plan_passes_run [OF plan_inv_keyed [OF plan_inv_start]])

lemma commit_plan_inv: "plan_inv s inp (commit_plan s it inp)"
  by (rule plan_run_inv [OF commit_plan_run plan_inv_start])

section \<open>Limits\<close>

text \<open>A provider with a commit of its own ends at most where it started or at its commit.\<close>

definition under_limits :: "plan_state \<Rightarrow> plan_state \<Rightarrow> bool" where
  "under_limits st0 st \<longleftrightarrow>
     (\<forall>n p0 p. fmlookup (ps_provs st0) n = Some p0 \<longrightarrow> fmlookup (ps_provs st) n = Some p \<longrightarrow> \<not> lv_onPort p \<longrightarrow> 0 < lv_commit p \<longrightarrow>
        lv_projected p \<le> max (lv_projected p0) (lv_commit p + mbpsEps))"

lemma mbpsEps_pos: "0 < mbpsEps"
  by (simp add: mbpsEps_def)

lemma shift_projected:
  assumes "fmlookup (upd_projected d (\<lambda>x. x + vol) (upd_projected n0 (\<lambda>x. max (x - vol) 0) m)) n = Some p"
    and "d \<noteq> n0" and "0 \<le> vol"
  obtains q where "fmlookup m n = Some q" "static p = static q"
    "if n = d then lv_projected p = lv_projected q + vol else lv_projected p \<le> max (lv_projected q) 0"
  using assms by (auto simp: lookup_upd_projected split: if_splits)

lemma under_limits_step:
  assumes "plan_step s it st st'" and inv: "plan_inv s inp st" and u: "under_limits st0 st"
  shows "under_limits st0 st'"
  using assms(1)
proof cases
  case (retarget active)
  have "under_limits st0 (st\<lparr>ps_provs := assignTargets s active (ps_provs st)\<rparr>)"
    unfolding under_limits_def
  proof (intro allI impI)
    fix n p0 p
    assume h: "fmlookup (ps_provs st0) n = Some p0" "\<not> lv_onPort p" "0 < lv_commit p"
      and lk: "fmlookup (ps_provs (st\<lparr>ps_provs := assignTargets s active (ps_provs st)\<rparr>)) n = Some p"
    from lk have lk': "fmlookup (assignTargets s active (ps_provs st)) n = Some p" by simp
    from projected_assignTargets [OF plan_inv_keyed [OF inv] lk'] obtain q
      where q: "fmlookup (ps_provs st) n = Some q" "lv_projected p = lv_projected q" by metis
    have "static p = static q"
      using fun_cong [OF statics_assignTargets [OF plan_inv_keyed [OF inv], of s active], of n] lk' q(1) by (simp add: statics_def)
    with u h q show "lv_projected p \<le> max (lv_projected p0) (lv_commit p + mbpsEps)"
      using static_eqD(7,9) [of p q] by (auto simp: under_limits_def)
  qed
  with retarget show ?thesis by simp
next
  case (shift src site excess sg om)
  from shift_facts [OF inv shift(3)] obtain dst where f: "candidate_prefix s inp (om_px om)"
    "fmlookup (ps_provs st) (om_dest om) = Some dst" "lv_name dst = om_dest om" "canTake s (ps_led st) dst src (om_px om) sg" by metis
  note c = canTake_facts [OF f(4)]
  have vol: "0 \<le> px_VolumeMbps (om_px om)" using f(1) mbpsEps_pos by (simp add: candidate_prefix_def)
  have "under_limits st0 (apply_move src om sg st)" if nd: "om_dest om \<noteq> px_Native (om_px om)"
    unfolding under_limits_def
  proof (intro allI impI)
    fix n p0 p
    assume h: "fmlookup (ps_provs st0) n = Some p0" "\<not> lv_onPort p" "0 < lv_commit p"
      and lk: "fmlookup (ps_provs (apply_move src om sg st)) n = Some p"
    have "om_dest om \<noteq> lv_name src" using c(1) f(3) by simp
    with lk nd vol obtain q where q: "fmlookup (ps_provs st) n = Some q" "static p = static q"
      "if n = om_dest om then lv_projected p = lv_projected q + px_VolumeMbps (om_px om) else lv_projected p \<le> max (lv_projected q) 0"
      by (auto simp: apply_move_simps elim: shift_projected)
    note e = static_eqD [OF q(2)]
    show "lv_projected p \<le> max (lv_projected p0) (lv_commit p + mbpsEps)"
    proof (cases "n = om_dest om")
      case True
      then have "q = dst" using q(1) f(2) by simp
      then show ?thesis using True q(3) c(6) h(2) e by simp
    next
      case False
      have "lv_projected q \<le> max (lv_projected p0) (lv_commit p + mbpsEps)" using u h q(1) e by (auto simp: under_limits_def)
      then show ?thesis using False q(3) h(3) mbpsEps_pos by (auto simp: max_def split: if_splits)
    qed
  qed
  moreover have "under_limits st0 (apply_move src om sg st)" if "om_dest om = px_Native (om_px om)"
    using that u by (simp add: under_limits_def apply_move_simps)
  ultimately show ?thesis using shift(1) by blast
qed

lemma under_limits_run:
  "plan_run s it st st' \<Longrightarrow> plan_inv s inp st \<Longrightarrow> under_limits st st'"
proof (induction rule: rtranclp_induct)
  case base
  then show ?case by (auto simp: under_limits_def)
next
  case (step st1 st2)
  then show ?case using under_limits_step plan_run_inv by metis
qed

text \<open>Every shift of a plan is one the port ledger allows.\<close>

lemma OnPort_iff: "wf_ledger l \<Longrightarrow> OnPort l n \<longleftrightarrow> fmlookup (l_peer l) n \<noteq> None"
  by (auto simp: OnPort_def portOf_def portName_def wf_ledger_def split: Option.bind_splits)

lemma shift_allowed:
  assumes inv: "plan_inv s inp st" and pk: "pick s it site st src excess sg = Some om"
  shows "Allows (ps_led st) (lv_name src) (om_dest om) (px_VolumeMbps (om_px om))"
proof -
  from shift_facts [OF inv pk] obtain dst where f: "fmlookup (ps_provs st) (om_dest om) = Some dst"
    "lv_name dst = om_dest om" "canTake s (ps_led st) dst src (om_px om) sg" by metis
  from plan_inv_lookup [OF inv f(1)] obtain p where p: "pr_Name p = om_dest om" "static dst = static (new_live s inp (led0 s inp) p)"
    by metis
  have "lv_onPort dst = OnPort (led0 s inp) (om_dest om)"
    using static_eqD(9) [OF p(2)] p(1) by (simp add: new_live_def Let_def)
  also have "\<dots> = OnPort (ps_led st) (om_dest om)"
    using inv by (simp add: OnPort_iff plan_inv_def led0_def wf_NewLedger)
  finally show ?thesis
    using canTake_facts(5) [OF f(3)] f(2) by (cases "lv_onPort dst") (auto simp: OnPort_def Allows_def)
qed

lemma ports_step:
  "plan_step s it st st' \<Longrightarrow> plan_inv s inp st \<Longrightarrow> port_inv (ps_led st) \<Longrightarrow> port_inv (ps_led st')"
  by (cases rule: plan_step.cases) (auto simp: apply_move_simps intro!: ledger.allowed_keeps intro: shift_allowed)

lemma ports_run:
  "plan_run s it st st' \<Longrightarrow> plan_inv s inp st \<Longrightarrow> port_inv (ps_led st) \<Longrightarrow> port_inv (ps_led st')"
proof (induction rule: rtranclp_induct)
  case (step st1 st2)
  then show ?case using ports_step plan_run_inv by metis
qed simp

section \<open>The loops end\<close>

text \<open>
  A turn of a loop either marks a prefix that was not marked or skips a provider that was not skipped,
  so the number of both bounds the turns.
\<close>

definition pref_set :: "plan_state \<Rightarrow> prefix set" where
  "pref_set st = (\<lambda>pf. px_Prefix (pf_px pf)) ` set (ps_prefs st)"

definition turns :: "string list \<Rightarrow> plan_state \<Rightarrow> nat" where
  "turns skip st = card (pref_set st - set (ps_moved st)) + card (fmdom' (ps_provs st) - set skip)"

lemma dom_statics: "fmdom' m = {n. statics m n \<noteq> None}"
  by (auto simp: statics_def fmdom'_iff)

lemma pref_set_apply:
  assumes "pick s it site st src excess sg = Some om"
  shows "pref_set (apply_move src om sg st) = pref_set st"
proof -
  from assms obtain pf where pf: "om_index om < length (ps_prefs st)" "ps_prefs st ! om_index om = pf" "om_px om = pf_px pf"
    by (metis pick_Some)
  have "map pf_px ((ps_prefs st)[om_index om := \<lparr>pf_px = om_px om, pf_base = om_dest om\<rparr>]) = map pf_px (ps_prefs st)"
    using pf by (simp add: map_update list_update_same_conv)
  from arg_cong [OF this, of "\<lambda>xs. px_Prefix ` set xs"] show ?thesis
    by (simp add: pref_set_def apply_move_simps image_image)
qed

lemma card_minus_insert_less:
  assumes "finite A" "x \<in> A" "x \<notin> B"
  shows "card (A - insert x B) < card (A - B)"
  using assms by (intro psubset_card_mono) auto

lemma turns_skip:
  "x \<in> fmdom' (ps_provs st) \<Longrightarrow> x \<notin> set skip \<Longrightarrow> turns (x # skip) st < turns skip st"
  using card_minus_insert_less [of "fmdom' (ps_provs st)" x "set skip"] by (simp add: turns_def)

lemma turns_apply:
  assumes pk: "pick s it site st src excess sg = Some om"
  shows "turns skip (apply_move src om sg st) < turns skip st"
proof -
  from pk obtain pf where pf: "om_index om < length (ps_prefs st)" "ps_prefs st ! om_index om = pf" "om_px om = pf_px pf"
    "px_Prefix (pf_px pf) \<notin> set (ps_moved st)" by (metis pick_Some)
  then have "px_Prefix (om_px om) \<in> pref_set st" by (auto simp: pref_set_def)
  moreover have "fmdom' (ps_provs (apply_move src om sg st)) = fmdom' (ps_provs st)" by (simp add: dom_statics apply_move_simps)
  ultimately show ?thesis
    using pf card_minus_insert_less [of "pref_set st" "px_Prefix (om_px om)" "set (ps_moved st)"]
    by (simp add: turns_def pref_set_apply [OF pk] apply_move_simps) (simp add: pref_set_def)
qed

lemma turns_assignTargets:
  "keyed_provs (ps_provs st) \<Longrightarrow> turns skip (st\<lparr>ps_provs := assignTargets s active (ps_provs st)\<rparr>) = turns skip st"
  by (simp add: turns_def pref_set_def dom_statics)

lemma turns_0: "turns skip st = 0 \<Longrightarrow> fmlookup (ps_provs st) n = Some p \<Longrightarrow> n \<in> set skip"
  by (auto simp: turns_def fmdom'_iff)

lemma relieve_loop_bound:
  "keyed_provs (ps_provs st) \<Longrightarrow> guard + int (turns skip st) \<le> bound \<Longrightarrow> guard + int (turns skip st) \<le> bound' \<Longrightarrow>
   relieve_loop bound s it site guard skip n st = relieve_loop bound' s it site guard skip n st"
proof (induction bound s it site guard skip n st rule: relieve_loop.induct)
  case (1 bound s it site guard skip n st)
  note unf = relieve_loop.simps [of _ s it site guard skip n st]
  show ?case
  proof (cases "heaviestOver (visit it (site @ [nat guard, 0]) (ps_provs st)) skip")
    case None
    then show ?thesis by (simp add: unf)
  next
    case (Some h)
    then obtain src ex where h: "heaviestOver (visit it (site @ [nat guard, 0]) (ps_provs st)) skip = Some (src, ex)"
      by (cases h) auto
    have src: "fmlookup (ps_provs st) (lv_name src) = Some src" "lv_name src \<notin> set skip"
      using heaviestOver_in [OF h] visit_lookup "1.prems"(1) by blast+
    then have "turns skip st \<noteq> 0" using turns_0 by blast
    then have lt: "guard < bound" "guard < bound'" using "1.prems" by auto
    show ?thesis
    proof (cases "pick s it (site @ [nat guard, 1]) st src ex False")
      case None
      have "turns (lv_name src # skip) st < turns skip st" using turns_skip src by (simp add: fmdom'_iff)
      then show ?thesis
        using "1.IH"(1) [OF _ h refl None] "1.prems" lt None h by (simp add: unf)
    next
      case (Some om)
      have "keyed_provs (ps_provs (apply_move src om False st))"
        using step_keyed [OF plan_step.shift [OF src(1) Some]] "1.prems" by simp
      then show ?thesis
        using "1.IH"(2) [OF _ h refl Some] turns_apply [OF Some, of skip] "1.prems" lt Some h by (simp add: unf)
    qed
  qed
qed

lemma balance_loop_bound:
  "keyed_provs (ps_provs st) \<Longrightarrow> guard + int (turns skip st) \<le> bound \<Longrightarrow> guard + int (turns skip st) \<le> bound' \<Longrightarrow>
   balance_loop bound s it site active guard skip n st = balance_loop bound' s it site active guard skip n st"
proof (induction bound s it site active guard skip n st rule: balance_loop.induct)
  case (1 bound s it site active guard skip n st)
  note unf = balance_loop.simps [of _ s it site active guard skip n st]
  show ?case
  proof (cases "heaviestImbalance (lives (ps_provs st) active) skip (cs_slack s)")
    case None
    then show ?thesis by (simp add: unf)
  next
    case h: (Some src)
    define ex where "ex = (if lv_projected src - lv_target src < mbpsEps then mbpsEps else lv_projected src - lv_target src)"
    have src: "fmlookup (ps_provs st) (lv_name src) = Some src" "lv_name src \<notin> set skip"
      using heaviestImbalance_in [OF h] lives_lookup "1.prems"(1) by blast+
    then have "turns skip st \<noteq> 0" using turns_0 by blast
    then have lt: "guard < bound" "guard < bound'" using "1.prems" by auto
    show ?thesis
    proof (cases "pick s it (site @ [nat guard]) st src ex True")
      case None
      have "turns (lv_name src # skip) st < turns skip st" using turns_skip src by (simp add: fmdom'_iff)
      then show ?thesis
        using "1.IH"(1) [OF _ h refl ex_def None] "1.prems" lt None h by (simp add: unf ex_def [symmetric] Let_def)
    next
      case (Some om)
      define st1 where "st1 = apply_move src om True st"
      have k: "keyed_provs (ps_provs st1)"
        using step_keyed [OF plan_step.shift [OF src(1) Some]] "1.prems" by (simp add: st1_def)
      then have "keyed_provs (assignTargets s active (ps_provs st1))" using keyed_statics by force
      moreover have "turns skip (st1\<lparr>ps_provs := assignTargets s active (ps_provs st1)\<rparr>) < turns skip st"
        using turns_apply [OF Some, of skip] turns_assignTargets [OF k] by (simp add: st1_def)
      ultimately show ?thesis
        using "1.IH"(2) [OF _ h refl ex_def Some st1_def] "1.prems" lt Some h
        by (simp add: unf ex_def [symmetric] st1_def [symmetric] Let_def)
    qed
  qed
qed

lemma card_set_le: "A \<subseteq> f ` set xs \<Longrightarrow> card A \<le> length xs"
  by (metis List.finite_set card_image_le card_length card_mono finite_imageI le_trans)

lemma turns_le:
  assumes "plan_inv s inp st"
  shows "turns skip st \<le> length (pi_Prefixes inp) + length (pi_Providers inp)"
proof -
  have "card (pref_set st - set (ps_moved st)) \<le> length (pi_Prefixes inp)"
    using assms by (intro card_set_le [where f = px_Prefix]) (auto simp: pref_set_def plan_inv_def candidate_prefix_def)
  moreover have "card (fmdom' (ps_provs st) - set skip) \<le> length (pi_Providers inp)"
    by (intro card_set_le [where f = pr_Name]) (auto simp: fmdom'_iff elim!: plan_inv_lookup [OF assms])
  ultimately show ?thesis by (simp add: turns_def)
qed

section \<open>A quiet pass\<close>



definition permutes :: "map_order \<Rightarrow> bool" where
  "permutes it \<longleftrightarrow> (\<forall>site ns. mset (it site ns) = mset ns)"







section \<open>An example\<close>

definition exCommit :: CommitScorer where
  "exCommit = \<lparr>cs_weights = zeroWeights, cs_coeffs = defaultCoeffs, cs_lossOverride = False, cs_balance = BalanceOff,
     cs_slack = 1 / 10, cs_maxAge = DefaultMaxAge, cs_minMbps = 0\<rparr>"

definition commitProvider :: "string \<Rightarrow> float64 \<Rightarrow> PlanProvider" where
  "commitProvider name mbps = \<lparr>pr_Name = name, pr_Group = [], pr_Precedence = 0, pr_CCDisable = False, pr_Excluded = False,
     pr_Up = True, pr_Usage = zeroUsage\<lparr>us_Provider := name, us_Samples := 1, us_CommitMbps := 100, us_OutMbps := mbps, us_OutMbps95 := mbps\<rparr>,
     pr_HaveRow = True, pr_Cost = 0, pr_HasCost = False, pr_Port = []\<rparr>"

definition commitPath :: "string \<Rightarrow> PlanPath" where
  "commitPath name = \<lparr>pp_Provider = name, pp_LossPct = 0, pp_RTT = 20 * Millisecond, pp_Usable = True\<rparr>"

definition commitPrefix :: "prefix \<Rightarrow> string \<Rightarrow> float64 \<Rightarrow> string list \<Rightarrow> PlanPrefix" where
  "commitPrefix pfx native vol names = \<lparr>px_Prefix = pfx, px_Native = native, px_Current = native, px_VolumeMbps = vol,
     px_Locked = False, px_Reversible = False, px_Paths = map commitPath names\<rparr>"

text \<open>One provider over its commit and one with room.\<close>

definition exCommitIn :: PlanInput where
  "exCommitIn = \<lparr>pi_Now = 1000 * Second, pi_Providers = [commitProvider ''a'' 120, commitProvider ''b'' 50], pi_Ports = [],
     pi_Prefixes = [commitPrefix (Pfx (V4 0xC6336400) 24) ''a'' 30 [''a'', ''b'']]\<rparr>"

definition in_order :: map_order where "in_order site ns = ns"

lemma permutes_in_order: "permutes in_order"
  by (simp add: permutes_def in_order_def)

lemma ex_commit_Plan: "commit_Plan exCommit in_order exCommitIn =
   [\<lparr>mv_Prefix = Pfx (V4 0xC6336400) 24, mv_Provider = ''b'', mv_Reason = RCommitMove ''a'' 120 100 30 ''b'',
     mv_ReliefMbps = 30, mv_Cause = CauseUnset, mv_Savings = 0\<rparr>]"
  by code_simp

text \<open>Three providers just over their commit, closer together than the tolerance but not all of them, and room for one move.\<close>

definition exTieIn :: PlanInput where
  "exTieIn = \<lparr>pi_Now = 1000 * Second,
     pi_Providers = [commitProvider ''a'' 101, commitProvider ''b'' (101 + 8 / 1000), commitProvider ''c'' (101 + 16 / 1000), commitProvider ''d'' 93],
     pi_Ports = [],
     pi_Prefixes = [commitPrefix (Pfx (V4 0xC0000200) 24) ''a'' 5 [''a'', ''d''], commitPrefix (Pfx (V4 0xC6336400) 24) ''c'' 5 [''c'', ''d'']]\<rparr>"

definition reversed :: map_order where "reversed site ns = rev ns"

lemma permutes_reversed: "permutes reversed"
  by (simp add: permutes_def reversed_def)

definition exTie :: provs where
  "exTie = live_provs exCommit exTieIn (led0 exCommit exTieIn)"

lemma ex_tie_in_order: "map_option (\<lambda>x. lv_name (fst x)) (heaviestOver (visit in_order [] exTie) []) = Some ''c''"
  by code_simp

lemma ex_tie_reversed: "map_option (\<lambda>x. lv_name (fst x)) (heaviestOver (visit reversed [] exTie) []) = Some ''a''"
  by code_simp

section \<open>Properties\<close>

text \<open>
  C18: a commit move is sound. Whatever the order of the map, every move of a plan takes the traffic of
  an unlocked prefix of the snapshot with a measurable volume from the provider it counts on to another
  provider, not the native one, that is up, not excluded and not closed to commit control, over a
  usable path that loses no more than the one it leaves unless loss may be overridden; and a prefix
  gets at most one move.
\<close>

theorem commit_Plan_sound:
  "distinct (map mv_Prefix (commit_Plan s it inp)) \<and>
   (\<forall>m \<in> set (commit_Plan s it inp). \<exists>px \<in> set (pi_Prefixes inp). \<exists>p \<in> set (pi_Providers inp). \<exists>l l0.
      px_Prefix px = mv_Prefix m \<and> \<not> px_Locked px \<and> mbpsEps < px_VolumeMbps px \<and> mv_ReliefMbps m = px_VolumeMbps px \<and>
      mv_Provider m \<noteq> px_Native px \<and> mv_Provider m \<noteq> base_of px \<and>
      pr_Name p = mv_Provider m \<and> pr_Up p \<and> \<not> pr_CCDisable p \<and> \<not> pr_Excluded p \<and>
      pathLoss (px_Paths px) (mv_Provider m) = Some l \<and> pathLoss (px_Paths px) (base_of px) = Some l0 \<and>
      (cs_lossOverride s \<or> l \<le> l0 + commitLossSlack))"
  using commit_plan_inv [of s inp it]
  by (fastforce simp: plan_inv_def commit_Plan_def commit_move_ok_def candidate_prefix_def)

theorem commit_Plan_sound_witness:
  "\<exists>px \<in> set (pi_Prefixes exCommitIn). \<exists>p \<in> set (pi_Providers exCommitIn). \<exists>l l0.
      px_Prefix px = Pfx (V4 0xC6336400) 24 \<and> \<not> px_Locked px \<and> px_Native px \<noteq> ''b'' \<and> base_of px \<noteq> ''b'' \<and>
      pr_Name p = ''b'' \<and> pr_Up p \<and> \<not> pr_CCDisable p \<and> \<not> pr_Excluded p \<and>
      pathLoss (px_Paths px) ''b'' = Some l \<and> pathLoss (px_Paths px) (base_of px) = Some l0 \<and> l \<le> l0 + commitLossSlack"
  using commit_Plan_sound [of exCommit in_order exCommitIn, THEN conjunct2] unfolding ex_commit_Plan
  by (force simp: exCommit_def)

text \<open>
  C19: relief does not create an overload. For a provider that draws from no shared port (a peer on a shared port
  has no commit of its own: \<open>commit_Plan_keeps_ports\<close> bounds the port) and has a commit, the projected load at the end of a plan is at most the larger of the projected load at the
  start and its commit, to the tolerance of the planner.
\<close>

theorem commit_Plan_limits:
  assumes "fmlookup (ps_provs (start_plan s inp)) n = Some p0" and "fmlookup (ps_provs (commit_plan s it inp)) n = Some p"
    and "\<not> lv_onPort p" and "0 < lv_commit p"
  shows "lv_projected p \<le> max (lv_projected p0) (lv_commit p + mbpsEps)"
  using under_limits_run [OF commit_plan_run plan_inv_start] assms by (auto simp: under_limits_def)

lemma ex_commit_start: "map_option (\<lambda>p. p\<lparr>lv_target := 0\<rparr>) (fmlookup (ps_provs (start_plan exCommit exCommitIn)) ''b'') =
    Some \<lparr>lv_name = ''b'', lv_group = [], lv_prec = 100, lv_cc = False, lv_excluded = False, lv_up = True, lv_commit = 100,
      lv_have = True, lv_projected = 50, lv_target = 0, lv_onPort = False\<rparr>"
  by code_simp

lemma ex_commit_end: "fmlookup (ps_provs (commit_plan exCommit in_order exCommitIn)) ''b'' =
    Some \<lparr>lv_name = ''b'', lv_group = [], lv_prec = 100, lv_cc = False, lv_excluded = False, lv_up = True, lv_commit = 100,
      lv_have = True, lv_projected = 80, lv_target = 0, lv_onPort = False\<rparr>"
  by code_simp

theorem commit_Plan_limits_witness:
  "\<exists>p0. fmlookup (ps_provs (start_plan exCommit exCommitIn)) ''b'' = Some p0 \<and> 80 \<le> max (lv_projected p0) (100 + mbpsEps)"
proof -
  obtain p0 where p0: "fmlookup (ps_provs (start_plan exCommit exCommitIn)) ''b'' = Some p0"
    using ex_commit_start by (auto simp: map_option_case split: option.splits)
  show ?thesis using commit_Plan_limits [OF p0 ex_commit_end] p0 by simp
qed

text \<open>
  A commit plan keeps the shared ports inside their limits: when every exchange port with a usable
  reading is inside its capacity and commit with the current traffic placed, it still is after the plan.
\<close>

theorem commit_Plan_keeps_ports:
  assumes "port_inv (ps_led (start_plan s inp))"
  shows "port_inv (ps_led (commit_plan s it inp))"
  by (rule ports_run [OF commit_plan_run plan_inv_start assms])

text \<open>The example with the provider \<open>b\<close> on a port with room.\<close>

definition exPortIn :: PlanInput where
  "exPortIn = exCommitIn\<lparr>pi_Providers := [commitProvider ''a'' 120, (commitProvider ''b'' 50)\<lparr>pr_Port := ''ix''\<rparr>],
     pi_Ports := [\<lparr>pt_Name = ''ix'', pt_CapacityMbps = 200, pt_CommitMbps = 0,
        pt_Usage = pr_Usage (commitProvider ''ix'' 50), pt_HaveRow = True\<rparr>]\<rparr>"

lemma ex_commit_ports: "port_inv (ps_led (start_plan exCommit exPortIn))"
proof -
  have "ps_led (start_plan exCommit exPortIn) =
      \<lparr>l_byName = fmupd ''ix'' \<lparr>po_capacity = 200, po_commit = 0, po_ok = True, po_load = 50, po_p95 = 50\<rparr> fmempty,
       l_peer = fmupd ''b'' ''ix'' fmempty\<rparr>"
    by (simp add: start_plan_def place_step_def NewLedger_def new_port_def add_peer_def exPortIn_def exCommitIn_def commitProvider_def
        commitPrefix_def exCommit_def Read_def Fresh_def BillableMbps_def zeroUsage_def mbpsEps_def zeroPrefix_def Let_def)
  then show ?thesis
    by (simp add: port_inv_def wf_ledger_def ledger_within_def within_limits_def mbpsEps_def)
qed

text \<open>
  C20: the loops of the planner end by themselves. In every state a plan can reach, each loop is done after at most as
  many turns as the snapshot has prefixes and providers: cut off after that many turns it gives what any larger
  bound gives. So the limit of ten thousand turns changes nothing in a snapshot of no more than that size.
\<close>

theorem commit_loops_end:
  assumes "plan_run s it (start_plan s inp) st"
    and "int (length (pi_Prefixes inp) + length (pi_Providers inp)) \<le> turns0" and "turns0 \<le> bound"
  shows "relieve_loop bound s it site 0 [] n st = relieve_loop turns0 s it site 0 [] n st \<and>
    balance_loop bound s it site active 0 [] n st = balance_loop turns0 s it site active 0 [] n st"
proof -
  have inv: "plan_inv s inp st" by (rule plan_run_inv [OF assms(1) plan_inv_start])
  then have t: "0 + int (turns [] st) \<le> turns0" using turns_le [of s inp st "[]"] assms(2) by linarith
  then have b: "0 + int (turns [] st) \<le> bound" using assms(3) by linarith
  show ?thesis
    by (intro conjI relieve_loop_bound [OF plan_inv_keyed [OF inv] b t] balance_loop_bound [OF plan_inv_keyed [OF inv] b t])
qed

theorem commit_loops_end_witness:
  "int (length (pi_Prefixes exCommitIn) + length (pi_Providers exCommitIn)) = 3 \<and>
   relieve exCommit in_order [] (start_plan exCommit exCommitIn) = relieve_loop 3 exCommit in_order [] 0 [] 0 (start_plan exCommit exCommitIn)"
proof -
  have "relieve_loop maxPlanIterations exCommit in_order [] 0 [] 0 (start_plan exCommit exCommitIn) =
      relieve_loop 3 exCommit in_order [] 0 [] 0 (start_plan exCommit exCommitIn)"
    by (rule commit_loops_end [of exCommit in_order exCommitIn, THEN conjunct1]) (simp_all add: exCommitIn_def maxPlanIterations_def)
  then show ?thesis by (simp add: relieve_def exCommitIn_def)
qed






text \<open>
  The choice of the source is not determined by the snapshot. The tolerance of the comparison is
  not transitive, so two orders of the same map of providers choose different providers to relieve.
\<close>

lemma heaviestOver_order_dependent:
  "permutes in_order \<and> permutes reversed \<and>
   map_option (\<lambda>x. lv_name (fst x)) (heaviestOver (visit in_order [] exTie) []) = Some ''c'' \<and>
   map_option (\<lambda>x. lv_name (fst x)) (heaviestOver (visit reversed [] exTie) []) = Some ''a''"
  by (simp add: permutes_in_order permutes_reversed ex_tie_in_order ex_tie_reversed)

end
