(* ===== verification/Community.thy ===== *)
theory Community
  imports Prelude
begin

text \<open>
  BGP community texts as the configuration reads them (\<open>CommunityText\<close> and \<open>ExtraCommunityText\<close> of
  src/internal/config/validate.go), over the parts of \<open>strings\<close>, \<open>strconv\<close> and \<open>fmt\<close> they use. An accepted
  text is rewritten in canonical decimal form, so that communities can be compared as texts.
\<close>

section \<open>Texts\<close>

text \<open>\<open>strings.Split\<close> with a separator of one character, and \<open>strings.Cut\<close>.\<close>

fun Split :: "char \<Rightarrow> string \<Rightarrow> string list" where
  "Split c [] = [[]]"
| "Split c (x # xs) = (if x = c then [] # Split c xs else (case Split c xs of [] \<Rightarrow> [[x]] | y # ys \<Rightarrow> (x # y) # ys))"

fun Cut :: "char \<Rightarrow> string \<Rightarrow> (string \<times> string) option" where
  "Cut c [] = None"
| "Cut c (x # xs) = (if x = c then Some ([], xs) else map_option (\<lambda>(a, b). (x # a, b)) (Cut c xs))"

text \<open>\<open>strconv.ParseUint\<close> in base ten for a width, and the decimal text of a number.\<close>

definition digit :: "char \<Rightarrow> nat option" where
  "digit c = map_option fst (find (\<lambda>x. snd x = c) (enumerate 0 ''0123456789''))"

fun digits_value :: "nat \<Rightarrow> string \<Rightarrow> nat option" where
  "digits_value acc [] = Some acc"
| "digits_value acc (c # cs) = (case digit c of None \<Rightarrow> None | Some d \<Rightarrow> digits_value (10 * acc + d) cs)"

definition ParseUint :: "nat \<Rightarrow> string \<Rightarrow> nat option" where
  "ParseUint bits s =
     (if s = [] then None
      else case digits_value 0 s of None \<Rightarrow> None | Some n \<Rightarrow> if n < 2 ^ bits then Some n else None)"

definition digit_char :: "nat \<Rightarrow> char" where
  "digit_char d = ''0123456789'' ! d"

fun decimal :: "nat \<Rightarrow> string" where
  "decimal n = (if n < 10 then [digit_char n] else decimal (n div 10) @ [digit_char (n mod 10)])"

declare decimal.simps [simp del]

section \<open>Communities\<close>

datatype community_error = BadShape | BadPart nat | DuplicatesPacketeer | Reserved

definition colon :: char where "colon = CHR '':''"

definition CommunityText :: "string \<Rightarrow> community_error + string" where
  "CommunityText s =
     (let parts = Split colon s in
      if length parts \<noteq> 2 \<and> length parts \<noteq> 3 then Inl BadShape
      else let bits = (if length parts = 3 then 32 else 16) in
        if list_ex (\<lambda>p. ParseUint bits p = None) parts then Inl (BadPart bits)
        else let nums = map (\<lambda>p. the (ParseUint bits p)) parts in
          Inr (if length nums = 2 then decimal (nums ! 0) @ [colon] @ decimal (nums ! 1)
               else decimal (nums ! 0) @ [colon] @ decimal (nums ! 1) @ [colon] @ decimal (nums ! 2)))"

definition ExtraCommunityText :: "string \<Rightarrow> string \<Rightarrow> community_error + string" where
  "ExtraCommunityText s packeteer =
     (case CommunityText s of
        Inl e \<Rightarrow> Inl e
      | Inr t \<Rightarrow>
          if packeteer \<noteq> [] \<and> t = packeteer then Inl DuplicatesPacketeer
          else (case Cut colon t of
             None \<Rightarrow> Inr t
           | Some (hi, rest) \<Rightarrow>
               if colon \<notin> set rest \<and> (hi = ''0'' \<or> hi = ''65535'') then Inl Reserved else Inr t))"

section \<open>Lemmas\<close>

lemma less_10: "d < 10 \<Longrightarrow> d \<in> {0, 1, 2, 3, 4, 5, 6, 7, 8, 9 :: nat}"
  by auto

lemma digit_digit_char: "d < 10 \<Longrightarrow> digit (digit_char d) = Some d"
  by (drule less_10) (auto simp: digit_def digit_char_def)

lemma digit_char_not_colon: "d < 10 \<Longrightarrow> digit_char d \<noteq> colon"
  by (drule less_10) (auto simp: digit_char_def colon_def)

lemma decimal_not_Nil [simp]: "decimal n \<noteq> []"
  by (subst decimal.simps) simp

lemma colon_notin_decimal [simp]: "colon \<notin> set (decimal n)"
proof (induction n rule: less_induct)
  case (less n)
  then show ?case
    by (subst decimal.simps) (auto simp: less digit_char_not_colon [symmetric] dest: digit_char_not_colon)
qed

lemma digits_value_append:
  "digits_value acc (xs @ ys) = (case digits_value acc xs of None \<Rightarrow> None | Some n \<Rightarrow> digits_value n ys)"
  by (induction xs arbitrary: acc) (auto split: option.splits)

lemma digits_value_decimal: "digits_value 0 (decimal n) = Some n"
proof (induction n rule: less_induct)
  case (less n)
  show ?case
  proof (cases "n < 10")
    case True
    then show ?thesis by (subst decimal.simps) (simp add: digit_digit_char)
  next
    case False
    then have "digits_value 0 (decimal (n div 10)) = Some (n div 10)" by (intro less) simp
    with False show ?thesis by (subst decimal.simps) (simp add: digits_value_append digit_digit_char)
  qed
qed

lemma ParseUint_decimal: "n < 2 ^ bits \<Longrightarrow> ParseUint bits (decimal n) = Some n"
  by (simp add: ParseUint_def digits_value_decimal)

lemma ParseUint_bound: "ParseUint bits s = Some n \<Longrightarrow> n < 2 ^ bits"
  by (auto simp: ParseUint_def split: option.splits if_splits)

lemma Split_plain: "c \<notin> set xs \<Longrightarrow> Split c xs = [xs]"
  by (induction xs) auto

lemma Split_append: "c \<notin> set xs \<Longrightarrow> Split c (xs @ c # ys) = xs # Split c ys"
  by (induction xs) auto

text \<open>What a community text stands for: two numbers of 16 bits or three of 32.\<close>

definition community_nums :: "string \<Rightarrow> nat list option" where
  "community_nums s =
     (let parts = Split colon s; bits = (if length parts = 3 then 32 else 16) in
      if (length parts = 2 \<or> length parts = 3) \<and> list_all (\<lambda>p. ParseUint bits p \<noteq> None) parts
      then Some (map (\<lambda>p. the (ParseUint bits p)) parts) else None)"

fun community_print :: "nat list \<Rightarrow> string" where
  "community_print [] = []"
| "community_print [n] = decimal n"
| "community_print (n # ns) = decimal n @ colon # community_print ns"

definition community_ok :: "nat list \<Rightarrow> bool" where
  "community_ok ns \<longleftrightarrow> length ns = 2 \<and> (\<forall>n \<in> set ns. n < 2 ^ 16) \<or> length ns = 3 \<and> (\<forall>n \<in> set ns. n < 2 ^ 32)"

lemma community_print_2: "length ns = 2 \<Longrightarrow> community_print ns = decimal (ns ! 0) @ [colon] @ decimal (ns ! 1)"
  by (auto simp: length_Suc_conv numeral_2_eq_2)

lemma community_print_3:
  "length ns = 3 \<Longrightarrow> community_print ns = decimal (ns ! 0) @ [colon] @ decimal (ns ! 1) @ [colon] @ decimal (ns ! 2)"
  by (auto simp: length_Suc_conv numeral_3_eq_3 numeral_2_eq_2)

lemma CommunityText_nums:
  "CommunityText s = Inr t \<longleftrightarrow> (\<exists>ns. community_nums s = Some ns \<and> t = community_print ns)"
proof -
  consider "length (Split colon s) = 2" | "length (Split colon s) = 3" | "length (Split colon s) \<noteq> 2" "length (Split colon s) \<noteq> 3"
    by blast
  then show ?thesis
  proof cases
    case 1
    then show ?thesis
      by (auto simp: CommunityText_def community_nums_def Let_def list_ex_iff list_all_iff community_print_2)
  next
    case 2
    then show ?thesis
      by (auto simp: CommunityText_def community_nums_def Let_def list_ex_iff list_all_iff community_print_3)
  next
    case 3
    then show ?thesis by (simp add: CommunityText_def community_nums_def Let_def)
  qed
qed

lemma community_nums_ok:
  assumes "community_nums s = Some ns"
  shows "community_ok ns"
proof -
  define bits :: nat where "bits = (if length (Split colon s) = 3 then 32 else 16)"
  from assms have ns: "ns = map (\<lambda>p. the (ParseUint bits p)) (Split colon s)" "length (Split colon s) = 2 \<or> length (Split colon s) = 3"
    and all: "\<forall>p \<in> set (Split colon s). ParseUint bits p \<noteq> None"
    by (auto simp: community_nums_def bits_def Let_def list_all_iff split: if_splits)
  have "\<forall>n \<in> set ns. n < 2 ^ bits" using all ParseUint_bound by (auto simp: ns(1))
  then show ?thesis using ns by (auto simp: community_ok_def bits_def split: if_splits)
qed

lemma community_nums_print: "community_ok ns \<Longrightarrow> community_nums (community_print ns) = Some ns"
  by (auto simp: community_ok_def community_nums_def length_Suc_conv numeral_2_eq_2 numeral_3_eq_3 Split_append Split_plain
      ParseUint_decimal Let_def)

lemma CommunityText_idem: "CommunityText s = Inr t \<Longrightarrow> CommunityText t = Inr t"
  by (auto simp: CommunityText_nums dest!: community_nums_ok intro: community_nums_print)

section \<open>Properties\<close>

text \<open>
  C23: canonical community texts. Two texts have the same canonical form exactly when they stand for the
  same numbers; the canonical form is accepted and is its own canonical form, and every standard or
  large community is the canonical form of its numbers.
\<close>

theorem CommunityText_canonical:
  assumes "CommunityText s = Inr t"
  shows "CommunityText t = Inr t \<and> community_nums t = community_nums s \<and>
    (CommunityText s' = Inr t \<longleftrightarrow> community_nums s' = community_nums s)"
proof -
  from assms obtain ns where ns: "community_nums s = Some ns" "t = community_print ns" by (auto simp: CommunityText_nums)
  have t: "community_nums t = Some ns" by (simp add: ns(2) community_nums_print community_nums_ok [OF ns(1)])
  have inj: "ms = ns" if "community_nums s' = Some ms" "community_print ms = community_print ns" for ms
    using that t community_nums_print [OF community_nums_ok [OF that(1)]] by (simp add: ns(2))
  show ?thesis using ns t inj by (auto simp: CommunityText_nums)
qed

lemma ex_CommunityText: "CommunityText ''064500:0070'' = Inr ''64500:70''"
  by (simp add: CommunityText_def colon_def ParseUint_def digit_def decimal.simps digit_char_def)

theorem CommunityText_canonical_witness:
  "CommunityText ''64500:70'' = Inr ''64500:70'' \<and> community_nums ''64500:70'' = community_nums ''064500:0070''"
  using CommunityText_canonical [OF ex_CommunityText] by blast

end
