(* ===== verification/Nettext.thy ===== *)
theory Nettext
  imports Select Community
begin

text \<open>
  The texts of \<open>netip.Addr\<close> and \<open>netip.Prefix\<close> as \<open>String\<close> prints them, which the sources use as parts of keys: dotted decimal
  for IPv4, and for IPv6 groups of hexadecimal digits in which the first longest run of two or more zero groups is
  written as \<open>::\<close>, with the low half in dotted decimal for an IPv4-mapped address. Distinct prefixes have distinct texts.
\<close>

section \<open>Texts\<close>

text \<open>The \<open>k\<close> digits of a number in a base, the most significant first.\<close>

fun fixed_digits :: "int \<Rightarrow> nat \<Rightarrow> int \<Rightarrow> int list" where
  "fixed_digits b 0 n = []"
| "fixed_digits b (Suc k) n = fixed_digits b k (n div b) @ [n mod b]"

definition hex_char :: "nat \<Rightarrow> char" where
  "hex_char d = ''0123456789abcdef'' ! d"

function hex :: "int \<Rightarrow> string" where
  "hex n = (if n < 16 then [hex_char (nat n)] else hex (n div 16) @ [hex_char (nat (n mod 16))])"
  by auto
termination by (relation "measure nat") auto

declare hex.simps [simp del]

definition string4 :: "int \<Rightarrow> string" where
  "string4 n = Join (map (\<lambda>d. decimal (nat d)) (fixed_digits 256 4 n)) ''.''"

definition groups :: "int \<Rightarrow> int list" where
  "groups n = fixed_digits 65536 8 n"

text \<open>The run of zero groups that is shortened, as its start and end.\<close>

definition run_step :: "int list \<Rightarrow> nat \<times> nat \<Rightarrow> nat \<Rightarrow> nat \<times> nat" where
  "run_step gs best i =
     (let l = length (takeWhile (\<lambda>g. g = 0) (drop i gs)) in
      if l \<ge> 2 \<and> l > snd best - fst best then (i, i + l) else best)"

definition zero_run :: "int list \<Rightarrow> nat \<times> nat" where
  "zero_run gs = foldl (run_step gs) (255, 255) [0..<8]"

definition string6 :: "int list \<Rightarrow> string" where
  "string6 gs =
     (let (s, e) = zero_run gs in
      if s < 8 then Join (map hex (take s gs)) '':'' @ ''::'' @ Join (map hex (drop e gs)) '':''
      else Join (map hex gs) '':'')"

definition Is4In6 :: "int \<Rightarrow> bool" where
  "Is4In6 n \<longleftrightarrow> n div 2 ^ 32 = 0xffff"

fun Addr_String :: "addr \<Rightarrow> string" where
  "Addr_String NoAddr = ''invalid IP''"
| "Addr_String (V4 w) = string4 (uint w)"
| "Addr_String (V6 w) = (if Is4In6 (uint w) then ''::ffff:'' @ string4 (uint w mod 2 ^ 32) else string6 (groups (uint w)))"

definition Prefix_String :: "prefix \<Rightarrow> string" where
  "Prefix_String p = (if IsValid p then Addr_String (Addr p) @ ''/'' @ decimal (nat (Bits p)) else ''invalid Prefix'')"

text \<open>The family of an address; an IPv4-mapped address is an IPv6 address.\<close>

fun Is4 :: "addr \<Rightarrow> bool" where
  "Is4 (V4 _) = True"
| "Is4 _ = False"

fun Is6 :: "addr \<Rightarrow> bool" where
  "Is6 (V6 _) = True"
| "Is6 _ = False"

section \<open>Digits\<close>

lemma length_fixed_digits [simp]: "length (fixed_digits b k n) = k"
  by (induction k arbitrary: n) auto

lemma fixed_digits_range: "0 < b \<Longrightarrow> d \<in> set (fixed_digits b k n) \<Longrightarrow> 0 \<le> d \<and> d < b"
  by (induction k arbitrary: n) auto

lemma div_int_less:
  fixes x b c :: int
  assumes "0 < b" "x < b * c"
  shows "x div b < c"
proof (rule ccontr)
  assume "\<not> x div b < c"
  then have "b * c \<le> b * (x div b)" using assms(1) by (intro mult_left_mono) simp_all
  also have "\<dots> \<le> x" using assms(1) by (metis add_increasing2 div_mult_mod_eq mult.commute order_refl pos_mod_sign)
  finally show False using assms(2) by simp
qed

lemma fixed_digits_inj:
  "0 < b \<Longrightarrow> 0 \<le> n \<Longrightarrow> n < b ^ k \<Longrightarrow> 0 \<le> m \<Longrightarrow> m < b ^ k \<Longrightarrow> fixed_digits b k n = fixed_digits b k m \<Longrightarrow> n = m"
proof (induction k arbitrary: n m)
  case (Suc k)
  have small: "x div b < b ^ k" if "x < b ^ Suc k" for x
    using that Suc.prems(1) by (intro div_int_less) simp_all
  from Suc.prems small [of n] small [of m] have "n div b = m div b" by (intro Suc.IH) (simp_all add: pos_imp_zdiv_nonneg_iff)
  moreover from Suc.prems have "n mod b = m mod b" by simp
  ultimately show ?case by (metis div_mult_mod_eq)
qed simp

lemma less_16: "d < 16 \<Longrightarrow> d \<in> {0, 1, 2, 3, 4, 5, 6, 7, 8, 9, 10, 11, 12, 13, 14, 15 :: nat}"
  by simp presburger

lemma hex_char_inj: "d < 16 \<Longrightarrow> d' < 16 \<Longrightarrow> hex_char d = hex_char d' \<Longrightarrow> d = d'"
  by (drule less_16, drule less_16) (auto simp: hex_char_def)

lemma hex_not_Nil [simp]: "hex n \<noteq> []"
  by (subst hex.simps) simp

lemma Nil_not_hex [simp]: "[] \<noteq> hex n"
  using hex_not_Nil by metis

lemma hex_inj: "0 \<le> n \<Longrightarrow> 0 \<le> m \<Longrightarrow> hex n = hex m \<Longrightarrow> n = m"
proof (induction n arbitrary: m rule: hex.induct)
  case (1 n)
  have n: "hex n = (if n < 16 then [] else hex (n div 16)) @ [hex_char (nat (n mod 16))]" if "0 \<le> n" for n
    using that by (subst hex.simps) simp
  from "1.prems" n [of n] n [of m] have last: "hex_char (nat (n mod 16)) = hex_char (nat (m mod 16))"
    and init: "(if n < 16 then [] else hex (n div 16)) = (if m < 16 then [] else hex (m div 16))" by simp_all
  from last have "nat (n mod 16) = nat (m mod 16)" by (intro hex_char_inj) (simp_all add: nat_less_iff)
  then have md: "n mod 16 = m mod 16" by (simp add: nat_eq_iff)
  show ?case
  proof (cases "n < 16")
    case True
    then show ?thesis using init md "1.prems" by (auto split: if_splits)
  next
    case False
    with init have m: "\<not> m < 16" "hex (n div 16) = hex (m div 16)" by (auto split: if_splits)
    have "n div 16 = m div 16" using False m "1.prems" by (intro "1.IH") simp_all
    with md show ?thesis by (metis div_mult_mod_eq)
  qed
qed

lemma decimal_inj: "decimal n = decimal m \<Longrightarrow> n = m"
  by (metis digits_value_decimal option.inject)

lemma decimal_chars: "set (decimal n) \<subseteq> set ''0123456789''"
proof (induction n rule: less_induct)
  case (less n)
  have d: "digit_char d \<in> set ''0123456789''" if "d < 10" for d
    unfolding digit_char_def using that by (intro nth_mem) simp
  show ?case
  proof (cases "n < 10")
    case True
    then show ?thesis using d [of n] by (subst decimal.simps) simp
  next
    case False
    then have "set (decimal (n div 10)) \<subseteq> set ''0123456789''" by (intro less) simp
    then show ?thesis using False d [of "n mod 10"] unfolding decimal.simps [of n] by simp
  qed
qed

lemma hex_chars: "set (hex n) \<subseteq> set ''0123456789abcdef''"
proof (induction n rule: hex.induct)
  case (1 n)
  have d: "hex_char d \<in> set ''0123456789abcdef''" if "d < 16" for d
    unfolding hex_char_def using that by (intro nth_mem) simp
  show ?case
  proof (cases "n < 16")
    case True
    then show ?thesis using d [of "nat n"] by (subst hex.simps) simp
  next
    case False
    then show ?thesis using 1 d [of "nat (n mod 16)"] unfolding hex.simps [of n] by (simp add: nat_less_iff)
  qed
qed

section \<open>Joined texts\<close>

lemma Join_chars: "set (Join xs sep) \<subseteq> (\<Union>x \<in> set xs. set x) \<union> set sep"
  by (induction xs sep rule: Join.induct) auto

text \<open>Splitting at the separator gives the parts back.\<close>

lemma Split_Join: "xs \<noteq> [] \<Longrightarrow> \<forall>x \<in> set xs. c \<notin> set x \<Longrightarrow> Split c (Join xs [c]) = xs"
  by (induction xs "[c]" rule: Join.induct) (auto simp: Split_plain Split_append)

lemma Join_inj:
  assumes "Join xs [c] = Join ys [c]" "xs \<noteq> []" "ys \<noteq> []" "\<forall>x \<in> set xs. c \<notin> set x" "\<forall>y \<in> set ys. c \<notin> set y"
  shows "xs = ys"
  using Split_Join [OF assms(2,4)] Split_Join [OF assms(3,5)] unfolding assms(1) by (rule trans [OF sym])

lemma map_inj:
  assumes "map f xs = map f ys" "\<And>x y. x \<in> S \<Longrightarrow> y \<in> S \<Longrightarrow> f x = f y \<Longrightarrow> x = y" "set xs \<subseteq> S" "set ys \<subseteq> S"
  shows "xs = ys"
  using assms(1) by (rule map_inj_on) (use assms(2-4) in \<open>auto simp: inj_on_def\<close>)

lemma decimal_no [simp]: "CHR ''.'' \<notin> set (decimal n)" "CHR ''/'' \<notin> set (decimal n)" "CHR '' '' \<notin> set (decimal n)"
  "CHR '','' \<notin> set (decimal n)" "CHR ''='' \<notin> set (decimal n)" "CHR ''-'' \<notin> set (decimal n)" "CHR '':'' \<notin> set (decimal n)"
  using decimal_chars [of n] by auto

lemma hex_no [simp]: "CHR ''.'' \<notin> set (hex n)" "CHR ''/'' \<notin> set (hex n)" "CHR '' '' \<notin> set (hex n)" "CHR '':'' \<notin> set (hex n)"
  using hex_chars [of n] by auto

lemma string4_inj:
  assumes "0 \<le> n" "n < 2 ^ 32" "0 \<le> m" "m < 2 ^ 32" "string4 n = string4 m"
  shows "n = m"
proof -
  have ne: "fixed_digits 256 4 x \<noteq> []" for x using length_fixed_digits [of 256 4 x] by force
  have "map (\<lambda>d. decimal (nat d)) (fixed_digits 256 4 n) = map (\<lambda>d. decimal (nat d)) (fixed_digits 256 4 m)"
    using assms(5) unfolding string4_def by (rule Join_inj) (auto simp: ne)
  then have "fixed_digits 256 4 n = fixed_digits 256 4 m"
    by (rule map_inj [where S = "{0..}"]) (auto dest!: decimal_inj dest: fixed_digits_range [rotated])
  with assms show ?thesis by (intro fixed_digits_inj [of 256 n 4 m]) simp_all
qed

lemma Join_within: "\<forall>x \<in> set xs. set x \<subseteq> S \<Longrightarrow> set sep \<subseteq> S \<Longrightarrow> set (Join xs sep) \<subseteq> S"
  by (induction xs sep rule: Join.induct) auto

lemma string4_chars: "set (string4 n) \<subseteq> set ''0123456789.''"
  unfolding string4_def
proof (rule Join_within)
  show "\<forall>x \<in> set (map (\<lambda>d. decimal (nat d)) (fixed_digits 256 4 n)). set x \<subseteq> set ''0123456789.''"
  proof
    fix x assume "x \<in> set (map (\<lambda>d. decimal (nat d)) (fixed_digits 256 4 n))"
    then obtain k where "x = decimal k" by auto
    then have "set x \<subseteq> set ''0123456789''" using decimal_chars by simp
    then show "set x \<subseteq> set ''0123456789.''" by (rule order_trans) simp
  qed
qed simp

lemma Join_sep: "length xs \<ge> 2 \<Longrightarrow> c \<in> set sep \<Longrightarrow> c \<in> set (Join xs sep)"
  by (cases "(xs, sep)" rule: Join.cases) auto

lemma string4_dot: "CHR ''.'' \<in> set (string4 n)"
  unfolding string4_def by (rule Join_sep) simp_all

section \<open>IPv6\<close>

definition run_ok :: "int list \<Rightarrow> nat \<times> nat \<Rightarrow> bool" where
  "run_ok gs r \<longleftrightarrow> r = (255, 255) \<or> fst r + 2 \<le> snd r \<and> snd r \<le> length gs \<and> gs = take (fst r) gs @ replicate (snd r - fst r) 0 @ drop (snd r) gs"

lemma run_step_ok:
  assumes "run_ok gs best" "i \<le> length gs"
  shows "run_ok gs (run_step gs best i)"
proof (cases "length (takeWhile (\<lambda>g. g = 0) (drop i gs)) \<ge> 2 \<and> length (takeWhile (\<lambda>g. g = 0) (drop i gs)) > snd best - fst best")
  case True
  let ?z = "takeWhile (\<lambda>g. g = 0) (drop i gs)"
  have z: "?z = replicate (length ?z) 0" by (intro replicate_eqI) (auto dest: set_takeWhileD)
  have split: "gs = take i gs @ ?z @ dropWhile (\<lambda>g. g = 0) (drop i gs)" by simp
  have "dropWhile (\<lambda>g. g = 0) (drop i gs) = drop (i + length ?z) gs"
    by (metis add.commute drop_drop dropWhile_eq_drop)
  then have "gs = take i gs @ replicate (length ?z) 0 @ drop (i + length ?z) gs" using split z by metis
  moreover have "i + length ?z \<le> length gs"
    using length_takeWhile_le [of "\<lambda>g. g = 0" "drop i gs"] assms(2) by simp
  ultimately show ?thesis using True by (simp add: run_step_def run_ok_def Let_def)
next
  case False
  then have "run_step gs best i = best" unfolding run_step_def Let_def by (rule if_not_P)
  with assms(1) show ?thesis by simp
qed

lemma zero_run_ok:
  assumes "length gs = 8"
  shows "run_ok gs (zero_run gs)"
proof -
  have "run_ok gs (foldl (run_step gs) b is)" if "run_ok gs b" "\<forall>i \<in> set is. i \<le> length gs" for b "is"
    using that
  proof (induction "is" arbitrary: b)
    case (Cons i "is")
    have "run_ok gs (run_step gs b i)" using Cons.prems by (intro run_step_ok) simp_all
    with Cons.IH [OF this] Cons.prems show ?case by simp
  qed simp
  from this [of "(255, 255)" "[0..<8]"] assms show ?thesis by (simp add: zero_run_def run_ok_def)
qed

lemma Split_Join_tail:
  "xs \<noteq> [] \<Longrightarrow> \<forall>x \<in> set xs. c \<notin> set x \<Longrightarrow> Split c (Join xs [c] @ c # ys) = xs @ Split c ys"
  by (induction xs "[c]" rule: Join.induct) (auto simp: Split_append)

definition parts6 :: "int list \<Rightarrow> int list \<Rightarrow> string list" where
  "parts6 pre post = (if pre = [] then [[]] else map hex pre) @ [[]] @ (if post = [] then [[]] else map hex post)"

lemma Split_string6_run: "Split (CHR '':'') (Join (map hex pre) '':'' @ ''::'' @ Join (map hex post) '':'') = parts6 pre post"
proof -
  have post: "Split (CHR '':'') (Join (map hex post) '':'') = (if post = [] then [[]] else map hex post)"
    by (cases "post = []") (simp, simp add: Split_Join)
  show ?thesis
  proof (cases "pre = []")
    case True
    then show ?thesis using post by (simp add: parts6_def)
  next
    case False
    then show ?thesis using post Split_Join_tail [of "map hex pre" "CHR '':''" "CHR '':'' # Join (map hex post) '':''"]
      by (simp add: parts6_def)
  qed
qed

lemma parts6_inj:
  assumes "parts6 pre post = parts6 pre' post'" "set (pre @ post @ pre' @ post') \<subseteq> {0..}"
  shows "pre = pre' \<and> post = post'"
proof -
  have tw: "takeWhile (\<lambda>x. x \<noteq> []) (parts6 a b) = map hex a" "takeWhile (\<lambda>x. x \<noteq> []) (rev (parts6 a b)) = map hex (rev b)" for a b
    by (auto simp: parts6_def takeWhile_append rev_map)
  from assms(1) tw have "map hex pre = map hex pre'" "map hex (rev post) = map hex (rev post')" by metis+
  note eqs = this
  have "pre = pre'" using eqs(1) by (rule map_inj [where S = "{0..}"]) (use assms(2) in \<open>auto intro: hex_inj\<close>)
  moreover have "rev post = rev post'" using eqs(2) by (rule map_inj [where S = "{0..}"]) (use assms(2) in \<open>auto intro: hex_inj\<close>)
  ultimately show ?thesis by simp
qed

lemma string6_inj:
  assumes "length gs = 8" "length hs = 8" "set gs \<subseteq> {0..}" "set hs \<subseteq> {0..}" "string6 gs = string6 hs"
  shows "gs = hs"
proof -
  have shape: "\<exists>pre post. Split (CHR '':'') (string6 gs) = parts6 pre post \<and> gs = pre @ replicate (8 - length pre - length post) 0 @ post \<or>
      Split (CHR '':'') (string6 gs) = map hex gs" if "length gs = 8" for gs
  proof (cases "fst (zero_run gs) < 8")
    case True
    obtain s e where r: "zero_run gs = (s, e)" by fastforce
    from zero_run_ok [OF that] True r have ok: "s + 2 \<le> e" "e \<le> 8" "gs = take s gs @ replicate (e - s) 0 @ drop e gs"
      by (auto simp: run_ok_def that)
    have "Split (CHR '':'') (string6 gs) = parts6 (take s gs) (drop e gs)"
      using True r Split_string6_run [of "take s gs" "drop e gs"] by (simp add: string6_def take_map drop_map)
    moreover have "8 - length (take s gs) - length (drop e gs) = e - s" using ok(1,2) that by simp
    ultimately show ?thesis using ok(3) by metis
  next
    case False
    then have "string6 gs = Join (map hex gs) '':''" by (simp add: string6_def case_prod_beta Let_def)
    moreover have "gs \<noteq> []" using that by force
    ultimately show ?thesis using Split_Join [of "map hex gs" "CHR '':''"] by auto
  qed
  have no: "parts6 pre post \<noteq> map hex xs" for pre post xs
  proof
    assume "parts6 pre post = map hex xs"
    moreover have "[] \<in> set (parts6 pre post)" by (simp add: parts6_def)
    ultimately show False by auto
  qed
  have nonneg: "set pre \<subseteq> {0..} \<and> set post \<subseteq> {0..}" if "xs = pre @ replicate k 0 @ post" "set xs \<subseteq> {0..}" for xs pre post :: "int list" and k
    using that by auto
  from shape [OF assms(1)] shape [OF assms(2)]
  consider (runs) pre post pre' post' where "parts6 pre post = parts6 pre' post'"
      "gs = pre @ replicate (8 - length pre - length post) 0 @ post" "hs = pre' @ replicate (8 - length pre' - length post') 0 @ post'"
    | (plain) "map hex gs = map hex hs" using assms(5) no by metis
  then show ?thesis
  proof cases
    case runs
    with parts6_inj [OF runs(1)] nonneg [OF runs(2) assms(3)] nonneg [OF runs(3) assms(4)] show ?thesis by simp
  next
    case plain
    then show ?thesis by (rule map_inj [where S = "{0..}"]) (use assms(3,4) in \<open>auto intro: hex_inj\<close>)
  qed
qed

lemma string6_chars: "set (string6 gs) \<subseteq> set ''0123456789abcdef:''"
proof -
  have hex: "set (hex n) \<subseteq> set ''0123456789abcdef:''" for n
    by (rule order_trans [OF hex_chars]) simp
  have j: "set (Join (map hex xs) '':'') \<subseteq> set ''0123456789abcdef:''" for xs
    by (rule Join_within) (use hex in auto)
  obtain s e where r: "zero_run gs = (s, e)" by fastforce
  show ?thesis
  proof (cases "s < 8")
    case True
    have "set (string6 gs) = set (Join (map hex (take s gs)) '':'') \<union> set '':'' \<union> set (Join (map hex (drop e gs)) '':'')"
      using True r by (auto simp: string6_def)
    then show ?thesis using j [of "take s gs"] j [of "drop e gs"] by auto
  next
    case False
    then show ?thesis using r j [of gs] by (simp add: string6_def)
  qed
qed

lemma string6_colon:
  assumes "length gs = 8"
  shows "CHR '':'' \<in> set (string6 gs)"
proof (cases "fst (zero_run gs) < 8")
  case True
  then show ?thesis by (simp add: string6_def case_prod_beta)
next
  case False
  then have "string6 gs = Join (map hex gs) '':''" by (simp add: string6_def case_prod_beta)
  then show ?thesis using assms by (simp add: Join_sep)
qed

section \<open>Addresses and prefixes\<close>

lemma string4_no: "CHR '':'' \<notin> set (string4 n)" "CHR ''/'' \<notin> set (string4 n)" "CHR '' '' \<notin> set (string4 n)"
  using string4_chars [of n] by auto

lemma string6_no: "CHR ''.'' \<notin> set (string6 gs)" "CHR ''/'' \<notin> set (string6 gs)" "CHR '' '' \<notin> set (string6 gs)"
  using string6_chars [of gs] by auto

lemma Addr_String_no: "a \<noteq> NoAddr \<Longrightarrow> CHR ''/'' \<notin> set (Addr_String a) \<and> CHR '' '' \<notin> set (Addr_String a)"
  by (cases a) (simp_all add: string4_no string6_no)

lemma length_groups [simp]: "length (groups n) = 8"
  by (simp add: groups_def)

lemma groups_nonneg: "set (groups n) \<subseteq> {0..}"
  using fixed_digits_range [of 65536] by (auto simp: groups_def)

lemma uint_range: "0 \<le> uint w" "uint (w :: 'a :: len word) < 2 ^ LENGTH('a)"
  by simp_all

lemma Addr_String_V6_inj:
  assumes "Addr_String (V6 v) = Addr_String (V6 w)"
  shows "v = w"
proof -
  have lt: "uint v < 65536 ^ 8" "uint w < 65536 ^ 8" using uint_range(2) [of v] uint_range(2) [of w] by simp_all
  have dot: "CHR ''.'' \<in> set (Addr_String (V6 x)) \<longleftrightarrow> Is4In6 (uint x)" for x :: "128 word"
    by (simp add: string4_dot string6_no)
  have "uint v = uint w"
  proof (cases "Is4In6 (uint v)")
    case True
    then have w: "Is4In6 (uint w)" using dot assms by metis
    with True assms have "string4 (uint v mod 2 ^ 32) = string4 (uint w mod 2 ^ 32)" by simp
    then have "uint v mod 2 ^ 32 = uint w mod 2 ^ 32" by (intro string4_inj) simp_all
    with True w show ?thesis unfolding Is4In6_def by (metis div_mult_mod_eq)
  next
    case False
    then have "\<not> Is4In6 (uint w)" using dot assms by metis
    with False assms have "string6 (groups (uint v)) = string6 (groups (uint w))" by simp
    then have "groups (uint v) = groups (uint w)" by (intro string6_inj) (simp_all add: groups_nonneg)
    then show ?thesis unfolding groups_def using lt by (intro fixed_digits_inj [of 65536 _ 8]) simp_all
  qed
  then show ?thesis by (simp add: word_uint_eq_iff)
qed

lemma Addr_String_colon: "CHR '':'' \<in> set (Addr_String a) \<longleftrightarrow> (\<exists>w. a = V6 w)"
  by (cases a) (auto simp: string4_no string6_colon)

lemma Addr_String_inj:
  assumes "Addr_String a = Addr_String b" "a \<noteq> NoAddr" "b \<noteq> NoAddr"
  shows "a = b"
proof (cases a)
  case (V4 v)
  with assms Addr_String_colon [of a] Addr_String_colon [of b] obtain w where b: "b = V4 w" by (cases b) auto
  have "uint v = uint w" using assms(1) V4 b uint_range(2) [of v] uint_range(2) [of w] by (intro string4_inj) simp_all
  then show ?thesis using V4 b by (simp add: word_uint_eq_iff)
next
  case (V6 v)
  with assms Addr_String_colon [of a] Addr_String_colon [of b] obtain w where b: "b = V6 w" by auto
  then show ?thesis using V6 Addr_String_V6_inj [of v w] assms(1) by metis
qed (use assms in simp)

lemma append_sep_inj: "xs @ c # ys = xs' @ c # ys' \<Longrightarrow> c \<notin> set xs \<Longrightarrow> c \<notin> set xs' \<Longrightarrow> xs = xs' \<and> ys = ys'"
proof (induction xs arbitrary: xs')
  case Nil
  then show ?case by (cases xs') auto
next
  case (Cons x xs)
  then show ?case by (cases xs') auto
qed

lemma Prefix_String_inj:
  assumes "Prefix_String p = Prefix_String q" "wf_prefix p" "wf_prefix q" "IsValid p"
  shows "p = q"
proof -
  have a: "Addr p \<noteq> NoAddr" using assms(2,4) by (auto simp: wf_prefix_def IsValid_def)
  have "CHR ''/'' \<in> set (Prefix_String p)" using assms(4) by (simp add: Prefix_String_def)
  then have q: "IsValid q" using assms(1) by (auto simp: Prefix_String_def split: if_splits)
  then have b: "Addr q \<noteq> NoAddr" using assms(3) by (auto simp: wf_prefix_def IsValid_def)
  have "Addr_String (Addr p) @ CHR ''/'' # decimal (nat (Bits p)) = Addr_String (Addr q) @ CHR ''/'' # decimal (nat (Bits q))"
    using assms(1,4) q by (simp add: Prefix_String_def)
  then have "Addr_String (Addr p) = Addr_String (Addr q) \<and> decimal (nat (Bits p)) = decimal (nat (Bits q))"
    by (rule append_sep_inj) (use Addr_String_no a b in auto)
  then have "Addr p = Addr q" "nat (Bits p) = nat (Bits q)" using Addr_String_inj [OF _ a b] by (auto dest: decimal_inj)
  with assms(4) q show ?thesis by (cases p; cases q) (auto simp: IsValid_def)
qed

lemma Prefix_String_no_space: "wf_prefix p \<Longrightarrow> IsValid p \<Longrightarrow> CHR '' '' \<notin> set (Prefix_String p)"
  using Addr_String_no [of "Addr p"] by (auto simp: Prefix_String_def wf_prefix_def IsValid_def)

end
