(* ===== verification/Leakwatch.thy ===== *)
theory Leakwatch
  imports Rpki Nettext
begin

text \<open>
  The leak watch (src/internal/leakwatch/leakwatch.go): routes of Packeteer seen outside the AS are withdrawn and held out until an
  operator clears them.

  The calls into the announcer and the clock are arguments: \<open>leak_env\<close> is what the announcer answers while one sighting is handled.
  What is emitted and the route that is withdrawn are results. The queue is a list; a source that reports into a full queue
  is only counted.
\<close>

section \<open>Data\<close>

datatype leak_reason = ReasonCommunity | ReasonASPath

datatype leak_action = ActionWithdrawn | ActionWithdrawFailed | ActionHeld

definition queueSize :: nat where "queueSize = 4096"

definition maxHeld :: nat where "maxHeld = 1000"

definition alertRepeat :: duration where "alertRepeat = 3600 * Second"

definition maxAlerted :: nat where "maxAlerted = 1000"

record LeakSighting =
  lg_Prefix :: prefix
  lg_ASPath :: "32 word list"
  lg_Communities :: "32 word list"
  lg_LargeCommunities :: "string list"
  lg_Seen :: string
  lg_OurExport :: bool
  lg_PublicCollector :: bool

record leakConfig =
  lc_ASN :: "32 word"
  lc_ASPathRule :: bool
  lc_Community :: "32 word"
  lc_Large :: string
  lc_Emit :: bool
  lc_RPKI :: "(prefix \<Rightarrow> 32 word \<Rightarrow> RPKIAnswer) option"

record Leak =
  lk_Prefix :: prefix
  lk_Reason :: leak_reason
  lk_Action :: leak_action
  lk_Source :: string
  lk_Seen :: string
  lk_ASPath :: "32 word list"
  lk_Since :: time
  lk_LastSeen :: time
  lk_Sightings :: int
  lk_RPKI :: RPKIValidity
  lk_RPKISource :: string

text \<open>A source is its name and its type; its plugin only reports.\<close>

record Watcher =
  lw_cfg :: leakConfig
  lw_sources :: "(string \<times> string) list"
  lw_queue :: "(string \<times> LeakSighting) list"
  lw_dropped :: "64 word"
  lw_held :: "(prefix, Leak) fmap"
  lw_alerted :: "(prefix, time) fmap"
  lw_healthy :: "(string, bool) fmap"

datatype leak_event =
    EventLeakDetected time Leak
  | EventLeakUnconfirmed time string LeakSighting leak_reason
  | EventLeakCleared time prefix

text \<open>
  The answers for one sighting: to \<open>Injected\<close> in the AS path rule, before the hold and after it, and whether the
  withdrawal succeeds.
\<close>

record leak_env =
  le_rule :: bool
  le_on :: bool
  le_again :: bool
  le_withdraw :: bool

section \<open>Operations\<close>

definition lw_New :: "leakConfig \<Rightarrow> (string \<times> string) list \<Rightarrow> Watcher" where
  "lw_New cfg srcs = \<lparr>lw_cfg = cfg, lw_sources = srcs, lw_queue = [], lw_dropped = 0, lw_held = fmempty, lw_alerted = fmempty, lw_healthy = fmempty\<rparr>"

definition leak_sink :: "string \<Rightarrow> LeakSighting \<Rightarrow> Watcher \<Rightarrow> Watcher" where
  "leak_sink name s w =
     (if length (lw_queue w) < queueSize then w\<lparr>lw_queue := lw_queue w @ [(name, s)]\<rparr> else w\<lparr>lw_dropped := lw_dropped w + 1\<rparr>)"

definition pollHealth :: "(string \<Rightarrow> bool) \<Rightarrow> Watcher \<Rightarrow> Watcher" where
  "pollHealth healthy w = w\<lparr>lw_healthy := foldl (\<lambda>m src. fmupd (fst src) (healthy (fst src)) m) (lw_healthy w) (lw_sources w)\<rparr>"

definition lk_reason :: "leakConfig \<Rightarrow> bool \<Rightarrow> LeakSighting \<Rightarrow> leak_reason option" where
  "lk_reason cfg injected s =
     (if lc_Community cfg \<noteq> 0 \<and> lc_Community cfg \<in> set (lg_Communities s) \<or> lc_Large cfg \<noteq> [] \<and> lc_Large cfg \<in> set (lg_LargeCommunities s)
      then Some ReasonCommunity
      else if lc_ASPathRule cfg \<and> \<not> lg_OurExport s \<and> lc_ASN cfg \<noteq> 0 \<and> lc_ASN cfg \<in> set (lg_ASPath s) \<and> injected then Some ReasonASPath
      else None)"

text \<open>The loop over the path, with the previous element and the number of distinct elements so far.\<close>

fun next_loop :: "32 word \<Rightarrow> 32 word option \<Rightarrow> nat \<Rightarrow> 32 word list \<Rightarrow> bool" where
  "next_loop own prev n [] = False"
| "next_loop own prev n (a # path) =
     (if prev = Some a then next_loop own (Some a) n path
      else if a = own then True
      else if n + 1 = 2 then False
      else next_loop own (Some a) (n + 1) path)"

definition nextToPeer :: "32 word list \<Rightarrow> 32 word \<Rightarrow> bool" where
  "nextToPeer path own = next_loop own None 0 path"

definition leak_emit :: "Watcher \<Rightarrow> leak_event \<Rightarrow> leak_event list" where
  "leak_emit w ev = (if lc_Emit (lw_cfg w) then [ev] else [])"

definition unconfirmed :: "string \<Rightarrow> LeakSighting \<Rightarrow> leak_reason \<Rightarrow> time \<Rightarrow> Watcher \<Rightarrow> Watcher \<times> leak_event list" where
  "unconfirmed source s why now w =
     (if (case fmlookup (lw_alerted w) (lg_Prefix s) of Some seen \<Rightarrow> time_sub now seen < alertRepeat | None \<Rightarrow> False) then (w, [])
      else let old = (if fmlen (lw_alerted w) \<ge> maxAlerted then fmempty else lw_alerted w)
           in (w\<lparr>lw_alerted := fmupd (lg_Prefix s) now old\<rparr>, leak_emit w (EventLeakUnconfirmed now source s why)))"

text \<open>A sighting up to the end of the critical section that holds its prefix: the leak, when it is held now.\<close>

definition lk_confirmed :: "leakConfig \<Rightarrow> bool \<Rightarrow> LeakSighting \<Rightarrow> bool" where
  "lk_confirmed cfg on s \<longleftrightarrow> \<not> lg_PublicCollector s \<or> on \<and> lc_ASN cfg \<noteq> 0 \<and> nextToPeer (lg_ASPath s) (lc_ASN cfg)"

definition lk_hold :: "string \<Rightarrow> LeakSighting \<Rightarrow> leak_reason \<Rightarrow> bool \<Rightarrow> time \<Rightarrow> Watcher \<Rightarrow> Watcher \<times> leak_event list \<times> Leak option" where
  "lk_hold source s why on now w =
     (case fmlookup (lw_held w) (lg_Prefix s) of
        Some l \<Rightarrow> (w\<lparr>lw_held := fmupd (lg_Prefix s) (l\<lparr>lk_Sightings := lk_Sightings l + 1, lk_LastSeen := now\<rparr>) (lw_held w)\<rparr>, [], None)
      | None \<Rightarrow>
          if \<not> lk_confirmed (lw_cfg w) on s then (case unconfirmed source s why now w of (w1, evs) \<Rightarrow> (w1, evs, None))
          else if fmlen (lw_held w) \<ge> maxHeld \<and> \<not> on then (w, [], None)
          else let l = \<lparr>lk_Prefix = lg_Prefix s, lk_Reason = why, lk_Action = ActionHeld, lk_Source = source, lk_Seen = lg_Seen s, lk_ASPath = lg_ASPath s,
                     lk_Since = now, lk_LastSeen = now, lk_Sightings = 1, lk_RPKI = RPKIUnset, lk_RPKISource = []\<rparr>
               in (w\<lparr>lw_held := fmupd (lg_Prefix s) l (lw_held w)\<rparr>, [], Some l))"

definition lk_take :: "leak_env \<Rightarrow> time \<Rightarrow> string \<times> LeakSighting \<Rightarrow> Watcher \<Rightarrow> Watcher \<times> leak_event list \<times> Leak option" where
  "lk_take e now sg w =
     (if \<not> IsValid (lg_Prefix (snd sg)) then (w, [], None)
      else let s = (snd sg)\<lparr>lg_Prefix := Masked (lg_Prefix (snd sg))\<rparr> in
           case lk_reason (lw_cfg w) (le_rule e) s of
             None \<Rightarrow> (w, [], None)
           | Some why \<Rightarrow> lk_hold (fst sg) s why (le_on e) now w)"

definition lk_action :: "bool \<Rightarrow> bool \<Rightarrow> leak_action" where
  "lk_action on ok = (if on \<and> ok then ActionWithdrawn else if on then ActionWithdrawFailed else ActionHeld)"

definition lk_answer :: "leakConfig \<Rightarrow> Leak \<Rightarrow> RPKIAnswer" where
  "lk_answer cfg l = (case lc_RPKI cfg of Some f \<Rightarrow> if lk_ASPath l \<noteq> [] then f (lk_Prefix l) (last (lk_ASPath l)) else zeroAnswer | None \<Rightarrow> zeroAnswer)"

text \<open>The last critical section writes through the pointer to the leak, which the table holds as long as nobody cleared the hold.\<close>

definition lk_labelled :: "leak_action \<Rightarrow> RPKIAnswer \<Rightarrow> Leak \<Rightarrow> Leak" where
  "lk_labelled act ans l = l\<lparr>lk_Action := act, lk_RPKI := ra_State ans, lk_RPKISource := ra_Source ans\<rparr>"

definition lk_finish :: "leak_action \<Rightarrow> RPKIAnswer \<Rightarrow> Leak \<Rightarrow> time \<Rightarrow> Watcher \<Rightarrow> Watcher \<times> leak_event list" where
  "lk_finish act ans l now w =
     (w\<lparr>lw_held := (case fmlookup (lw_held w) (lk_Prefix l) of
          None \<Rightarrow> lw_held w
        | Some x \<Rightarrow> fmupd (lk_Prefix l) (lk_labelled act ans x) (lw_held w))\<rparr>,
      leak_emit w (EventLeakDetected now (lk_labelled act ans l)))"

text \<open>The whole of \<open>handle\<close>, with the prefix whose route it withdraws.\<close>

definition lw_handle :: "leak_env \<Rightarrow> time \<Rightarrow> string \<times> LeakSighting \<Rightarrow> Watcher \<Rightarrow> Watcher \<times> prefix option \<times> leak_event list" where
  "lw_handle e now sg w =
     (case lk_take e now sg w of
        (w1, evs, None) \<Rightarrow> (w1, None, evs)
      | (w1, evs, Some l) \<Rightarrow>
          (let on = (le_on e \<or> le_again e);
               (w2, evs2) = lk_finish (lk_action on (le_withdraw e)) (lk_answer (lw_cfg w) l) l now w1
           in (w2, if on then Some (lk_Prefix l) else None, evs @ evs2)))"

text \<open>One turn of \<open>Run\<close> that takes a sighting from the queue.\<close>

definition lw_turn :: "leak_env \<Rightarrow> time \<Rightarrow> Watcher \<Rightarrow> Watcher \<times> prefix option \<times> leak_event list" where
  "lw_turn e now w = (case lw_queue w of [] \<Rightarrow> (w, None, []) | sg # rest \<Rightarrow> lw_handle e now sg (w\<lparr>lw_queue := rest\<rparr>))"

definition lw_Held :: "Watcher \<Rightarrow> prefix \<Rightarrow> bool" where
  "lw_Held w p \<longleftrightarrow> fmlookup (lw_held w) (Masked p) \<noteq> None"

definition lw_Clear :: "time \<Rightarrow> prefix \<Rightarrow> Watcher \<Rightarrow> Watcher \<times> bool \<times> leak_event list" where
  "lw_Clear now p0 w =
     (let p = Masked p0; on = (fmlookup (lw_held w) p \<noteq> None)
      in (w\<lparr>lw_held := fmdrop p (lw_held w)\<rparr>, on, if on then leak_emit w (EventLeakCleared now p) else []))"

record leakStatus =
  lt_State :: string
  lt_Sources :: "(string \<times> string \<times> bool) list"
  lt_Leaks :: "Leak list"
  lt_Dropped :: "64 word"

definition lw_Status :: "Watcher \<Rightarrow> leakStatus" where
  "lw_Status w =
     (let srcs = map (\<lambda>(name, typ). (name, typ, fmget False (lw_healthy w) name)) (lw_sources w)
      in \<lparr>lt_State = (if list_ex (\<lambda>(_, _, ok). ok) srcs then ''watching'' else ''unknown''), lt_Sources = srcs,
          lt_Leaks = sort_by (\<lambda>a b. Prefix_String (lk_Prefix a) < Prefix_String (lk_Prefix b)) (List.map_filter (fmlookup (lw_held w)) (SortedKeys (lw_held w))),
          lt_Dropped = lw_dropped w\<rparr>)"

definition joinASNs :: "32 word list \<Rightarrow> string" where
  "joinASNs path = Join (map (\<lambda>a. decimal (unat a)) path) '' ''"

section \<open>What is next to the peer\<close>

lemma next_loop_eq:
  "next_loop own prev n path \<longleftrightarrow> own \<in> set (take (2 - n) (case prev of None \<Rightarrow> remdups_adj path | Some a \<Rightarrow> tl (remdups_adj (a # path))))" if "n < 2"
  using that
proof (induction own prev n path rule: next_loop.induct)
  case (2 own prev n a path)
  have t: "tl (remdups_adj (b # xs)) = (case xs of [] \<Rightarrow> [] | x # ys \<Rightarrow> if x = b then tl (remdups_adj (x # ys)) else remdups_adj (x # ys))" for b :: "32 word" and xs
    by (cases xs) simp_all
  have h: "remdups_adj (a # xs) = a # tl (remdups_adj (a # xs))" for xs by (metis hd_Cons_tl remdups_adj_Nil_iff list.discI list.sel(1) remdups_adj_Cons')
  show ?case
  proof (cases "prev = Some a")
    case True
    then show ?thesis using 2 by (simp add: t)
  next
    case False
    then have "(case prev of None \<Rightarrow> remdups_adj (a # path) | Some b \<Rightarrow> tl (remdups_adj (b # a # path))) = remdups_adj (a # path)"
      by (cases prev) (auto simp: t)
    note eq = this
    define rest where "rest = tl (remdups_adj (a # path))"
    have ra: "remdups_adj (a # path) = a # rest" unfolding rest_def by (rule h)
    consider "n = 0" | "n = 1" using 2 by linarith
    then show ?thesis
    proof cases
      case 1
      have "a \<noteq> own \<Longrightarrow> next_loop own (Some a) (n + 1) path \<longleftrightarrow> own \<in> set (take (2 - (n + 1)) rest)"
        using 2(2) False 1 by (simp add: rest_def del: remdups_adj.simps)
      then show ?thesis unfolding eq unfolding ra using False 1 by (auto simp: numeral_2_eq_2)
    next
      case 2
      then show ?thesis unfolding eq unfolding ra using False by auto
    qed
  qed
qed (simp split: option.splits)

end
