(* ===== verification/Announce.thy ===== *)
theory Announce
  imports Nettext
begin

text \<open>
  The announce controller (src/internal/announce/announce.go): it makes the routes on the wire follow
  the improvements of the decision engine. The announcer, the RIB view and the holds of the other
  controllers are not part of it: what they answer during one operation is the record \<open>env\<close>, and every call
  of the announcer is kept with its outcome in the log \<open>c_log\<close>, which the source does not have. Whether a
  call fails may depend on all calls before it. The mutex makes an operation one step; the methods of a
  nil controller do nothing and are left out. Ranging over the map of active routes goes through
  \<open>ev_order\<close>, an arrangement of its keys.
\<close>

section \<open>Configuration, routes, state\<close>

record RouterExport =
  re_Neighbor :: addr
  re_Via :: "(addr, addr) fmap"
  re_Blocked :: "addr list"

record Route =
  rt_Prefix :: prefix
  rt_NextHop :: addr
  rt_Provider :: string
  rt_LocalPref :: "32 word"
  rt_Communities :: "string list"
  rt_ASPath :: "32 word list"

record Synthesize =
  sy_Covering :: "prefix list"
  sy_MaxBits :: int
  sy_MaxLenV4 :: int
  sy_MaxLenV6 :: int
  sy_Marker :: string
  sy_NoAdvertise :: bool
  sy_LocalASN :: "32 word"
  sy_Invalid :: "(prefix \<Rightarrow> 32 word \<Rightarrow> bool) option"

record annConfig =
  an_Mode :: string
  an_LocalPref :: "32 word"
  an_CauseLocalPref :: "(string, 32 word) fmap"
  an_ProviderLocalPref :: "(string, 32 word) fmap"
  an_Community :: string
  an_CauseCommunities :: "(string, string list) fmap"
  an_ProviderCommunities :: "(string, string list) fmap"
  an_MaxImprovements :: int
  an_Allowlist :: "prefix list"
  an_NextHops :: "(string, addr) fmap"
  an_Routers :: "RouterExport list"
  an_ASPath :: string
  an_MoreSpecific :: bool
  an_MaxRoutes :: int
  an_Synthesize :: "Synthesize option"

definition noAdvertise :: string where "noAdvertise = ''65535:65282''"

definition ModeInject :: string where "ModeInject = ''inject''"

record slot =
  sl_provider :: string
  sl_asPath :: "32 word list"
  sl_localPref :: "32 word"
  sl_communities :: "string list"
  sl_parent :: prefix
  sl_cover :: prefix
  sl_seen :: time
  sl_held :: bool

definition zeroSlot :: slot where
  "zeroSlot = \<lparr>sl_provider = [], sl_asPath = [], sl_localPref = 0, sl_communities = [], sl_parent = zeroPrefix,
     sl_cover = zeroPrefix, sl_seen = 0, sl_held = False\<rparr>"

definition moreSpecific :: "slot \<Rightarrow> bool" where
  "moreSpecific s = IsValid (sl_parent s)"

text \<open>The calls of the announcer.\<close>

datatype ann_call = Announce Route | Withdraw prefix | AnnWithdrawAll
  | AnnBind string | AnnBindRouters string "RouterExport list" | AnnSetRouters "RouterExport list"

text \<open>Which of the optional interfaces the announcer and the RIB view implement; \<open>None\<close> is a nil value.\<close>

record annCaps =
  ac_Bind :: bool
  ac_BindRouters :: bool
  ac_SetRouters :: bool

record ribCaps =
  rc_PathRIB :: bool
  rc_MoreSpecificRIB :: bool

record Controller =
  c_cfg :: annConfig
  c_ann :: "annCaps option"
  c_rib :: "ribCaps option"
  c_active :: "(prefix, slot) fmap"
  c_improvements :: int
  c_onWire :: int
  c_routes :: int
  c_srv :: bool
  c_bound :: bool
  c_log :: "(ann_call \<times> bool) list"

text \<open>What the surroundings answer during one operation.\<close>

record env =
  ev_Ready :: bool
  ev_Contains :: "prefix \<Rightarrow> bool"
  ev_NativePath :: "prefix \<Rightarrow> 32 word list option"
  ev_ProviderPath :: "prefix \<Rightarrow> string \<Rightarrow> 32 word list option"
  ev_MoreSpecifics :: "prefix list \<Rightarrow> prefix list"
  ev_Reserved :: "prefix \<Rightarrow> bool"
  ev_Held :: "prefix \<Rightarrow> bool"
  ev_Others :: int
  ev_Now :: time
  ev_Leader :: bool
  ev_fails :: "(ann_call \<times> bool) list \<Rightarrow> ann_call \<Rightarrow> bool"
  ev_order :: "nat \<Rightarrow> prefix list \<Rightarrow> prefix list"

datatype ann_error =
    NoAnnouncer | NoRIB | NoLocalPref | BadCauseLocalPref | BadProviderLocalPref | NoCommunity | BadCommunity community_error
  | BadCauseCommunities | BadProviderCommunities | NegativeCap | BadASPath | NoMaxRoutes | NoMoreSpecificRIB
  | NoCovering | NoSynthLimits | BadMarker community_error
  | NoSpeaker | CannotBindRouters | CannotBind | CallFailed ann_call
  | IsDefaultRoute prefix | IsReserved prefix | NotSynthesized prefix string | CoverNotInRIB prefix | NotInRIB prefix
  | NotAllowlisted prefix | MaxRoutesReached prefix | NoNextHop string | MaxImprovementsReached | RoutesCapped prefix nat
  | CannotReload

section \<open>The table of active routes\<close>

definition store :: "Controller \<Rightarrow> Controller" where
  "store c = c\<lparr>c_onWire := c_improvements c, c_routes := int (fmlen (c_active c))\<rparr>"

definition counted :: "(prefix, slot) fmap \<Rightarrow> prefix \<Rightarrow> int" where
  "counted m p = (case fmlookup m p of None \<Rightarrow> 0 | Some s \<Rightarrow> if moreSpecific s then 0 else 1)"

definition setActiveLocked :: "prefix \<Rightarrow> slot \<Rightarrow> Controller \<Rightarrow> Controller" where
  "setActiveLocked p s c =
     c\<lparr>c_improvements := c_improvements c - counted (c_active c) p + (if moreSpecific s then 0 else 1),
       c_active := fmupd p s (c_active c)\<rparr>"

definition dropActiveLocked :: "prefix \<Rightarrow> Controller \<Rightarrow> Controller" where
  "dropActiveLocked p c =
     c\<lparr>c_improvements := c_improvements c - counted (c_active c) p, c_active := fmdrop p (c_active c)\<rparr>"

definition clearActiveLocked :: "Controller \<Rightarrow> Controller" where
  "clearActiveLocked c = c\<lparr>c_active := fmempty, c_improvements := 0\<rparr>"

text \<open>One call of the announcer.\<close>

definition ann_do :: "env \<Rightarrow> ann_call \<Rightarrow> Controller \<Rightarrow> bool \<times> Controller" where
  "ann_do e x c = (let ok = \<not> ev_fails e (c_log c) x in (ok, c\<lparr>c_log := c_log c @ [(x, ok)]\<rparr>))"

definition withdrawAllLocked :: "env \<Rightarrow> Controller \<Rightarrow> Controller \<times> ann_error list" where
  "withdrawAllLocked e c =
     (case ann_do e AnnWithdrawAll c of
        (False, c1) \<Rightarrow> (c1, [CallFailed AnnWithdrawAll])
      | (True, c1) \<Rightarrow> (clearActiveLocked c1, []))"

definition withdrawLocked :: "env \<Rightarrow> prefix \<Rightarrow> Controller \<Rightarrow> Controller \<times> ann_error list" where
  "withdrawLocked e p0 c =
     (let p = Masked p0 in
      if fmlookup (c_active c) p = None then (c, [])
      else case ann_do e (Withdraw p) c of
        (False, c1) \<Rightarrow> (c1, [CallFailed (Withdraw p)])
      | (True, c1) \<Rightarrow> (dropActiveLocked p c1, []))"

text \<open>Withdrawing when the route is on the wire, before an error is returned.\<close>

definition withdraw_if :: "bool \<Rightarrow> env \<Rightarrow> prefix \<Rightarrow> ann_error \<Rightarrow> Controller \<Rightarrow> Controller \<times> ann_error list" where
  "withdraw_if on e p why c = (let (c1, errs) = (if on then withdrawLocked e p c else (c, [])) in (c1, errs @ [why]))"

section \<open>Attributes of a route\<close>

fun cause_text :: "cause \<Rightarrow> string" where
  "cause_text CauseUnset = []"
| "cause_text CausePerformance = ''performance''"
| "cause_text CauseCommit = ''commit''"
| "cause_text CauseCost = ''cost''"
| "cause_text CauseStatic = ''static''"
| "cause_text (CauseOther s) = s"

definition known_cause :: "string \<Rightarrow> bool" where
  "known_cause s \<longleftrightarrow> s \<in> {''performance'', ''static'', ''commit'', ''cost''}"

definition localPref :: "annConfig \<Rightarrow> string \<Rightarrow> string \<Rightarrow> 32 word" where
  "localPref cfg provider cause0 =
     (case fmlookup (an_ProviderLocalPref cfg) provider of
        Some v \<Rightarrow> v
      | None \<Rightarrow>
          (case fmlookup (an_CauseLocalPref cfg) (if cause0 = [] then ''performance'' else cause0) of
             Some v \<Rightarrow> v
           | None \<Rightarrow> an_LocalPref cfg))"

definition add_comms :: "string list \<Rightarrow> string list \<Rightarrow> string list" where
  "add_comms out list = foldl (\<lambda>out x. if x = [] \<or> x \<in> set out then out else out @ [x]) out list"

definition communities :: "annConfig \<Rightarrow> string \<Rightarrow> string \<Rightarrow> string list" where
  "communities cfg provider cause0 =
     add_comms
       (add_comms [an_Community cfg] (fmget [] (an_CauseCommunities cfg) (if cause0 = [] then ''performance'' else cause0)))
       (fmget [] (an_ProviderCommunities cfg) provider)"

definition routeCommunities :: "annConfig \<Rightarrow> Improvement \<Rightarrow> string list" where
  "routeCommunities cfg imp =
     (let out = communities cfg (imp_Provider imp) (cause_text (imp_Cause imp)) in
      case an_Synthesize cfg of
        None \<Rightarrow> out
      | Some sy \<Rightarrow>
          if IsValid (imp_Covering imp) then out @ [sy_Marker sy] @ (if sy_NoAdvertise sy then [noAdvertise] else [])
          else out)"

definition path_rib :: "Controller \<Rightarrow> bool" where
  "path_rib c = (case c_rib c of None \<Rightarrow> False | Some r \<Rightarrow> rc_PathRIB r)"

definition kept_path :: "Controller \<Rightarrow> prefix \<Rightarrow> string \<Rightarrow> 32 word list" where
  "kept_path c p provider =
     (case fmlookup (c_active c) p of None \<Rightarrow> [] | Some s \<Rightarrow> if sl_provider s = provider then sl_asPath s else [])"

definition asPath :: "env \<Rightarrow> Controller \<Rightarrow> prefix \<Rightarrow> string \<Rightarrow> 32 word list" where
  "asPath e c p provider =
     (let mode = an_ASPath (c_cfg c) in
      if mode = [] \<or> mode = ''empty'' \<or> \<not> path_rib c then []
      else case (if mode = ''provider'' then ev_ProviderPath e p provider else None) of
        Some as \<Rightarrow> as
      | None \<Rightarrow> (case ev_NativePath e p of Some as \<Rightarrow> as | None \<Rightarrow> kept_path c p provider))"

definition routePath :: "env \<Rightarrow> Controller \<Rightarrow> prefix \<Rightarrow> prefix \<Rightarrow> string \<Rightarrow> 32 word list" where
  "routePath e c p cover provider = (if IsValid cover then asPath e c cover provider else asPath e c p provider)"

section \<open>The rails of a synthesized sub-range\<close>

text \<open>\<open>Prefix.Overlaps\<close>: valid, the same family, and the leading bits of the shorter agree.\<close>

definition Overlaps :: "prefix \<Rightarrow> prefix \<Rightarrow> bool" where
  "Overlaps p q \<longleftrightarrow> IsValid p \<and> IsValid q \<and>
     (p = q \<or> same_lead (nat (min (Bits p) (Bits q))) (Addr p) (Addr q))"

definition ms_rib :: "Controller \<Rightarrow> bool" where
  "ms_rib c = (case c_rib c of None \<Rightarrow> False | Some r \<Rightarrow> rc_MoreSpecificRIB r)"

text \<open>The reason of a refusal is a word for the message of the source; \<open>None\<close> is the empty text.\<close>

definition synthRefusal :: "env \<Rightarrow> Controller \<Rightarrow> prefix \<Rightarrow> prefix \<Rightarrow> string \<Rightarrow> string option" where
  "synthRefusal e c sub cover provider =
     (case an_Synthesize (c_cfg c) of
        None \<Rightarrow> Some ''synthesize is off''
      | Some sy \<Rightarrow>
          (let maxLen = (if Is6 (Addr sub) then sy_MaxLenV6 sy else sy_MaxLenV4 sy) in
           if \<not> CoveredBy (sy_Covering sy) cover then Some ''covering prefix is not inside synthesize.covering_prefixes''
           else if Is4 (Addr sub) \<noteq> Is4 (Addr cover) \<or> Bits sub \<le> Bits cover \<or> \<not> Contains cover (Addr sub)
           then Some ''not strictly inside the covering prefix''
           else if Bits sub - Bits cover > sy_MaxBits sy then Some ''more than synthesize.max_bits past the covering prefix''
           else if Bits sub > maxLen then Some ''longer than synthesize.max_prefix_len''
           else if \<not> CoveredBy (an_Allowlist (c_cfg c)) sub then Some ''not allowlisted''
           else if \<not> ms_rib c then Some ''no learned more-specifics to check for overlap''
           else if list_ex (\<lambda>m. Overlaps (Masked m) sub) (ev_MoreSpecifics e [cover]) then Some ''a neighbor advertises an overlapping prefix''
           else (case sy_Invalid sy of
              None \<Rightarrow> None
            | Some invalid \<Rightarrow>
                (let path = routePath e c sub cover provider;
                     origin = (if path \<noteq> [] then last path else sy_LocalASN sy)
                 in if invalid sub origin then Some ''its RPKI state would be invalid'' else None))))"

definition coverMissing :: "env \<Rightarrow> Controller \<Rightarrow> prefix \<Rightarrow> bool \<Rightarrow> bool" where
  "coverMissing e c cover on =
     (if ev_Contains e cover then False else \<not> (on \<and> fmlookup (c_active c) cover \<noteq> None))"

definition barred :: "env \<Rightarrow> prefix \<Rightarrow> bool" where
  "barred e p \<longleftrightarrow> ev_Reserved e p \<or> ev_Held e p"

definition usedRoutesLocked :: "env \<Rightarrow> Controller \<Rightarrow> int" where
  "usedRoutesLocked e c = int (fmlen (c_active c)) + ev_Others e"

definition next_hop :: "annConfig \<Rightarrow> string \<Rightarrow> addr option" where
  "next_hop cfg provider =
     (case fmlookup (an_NextHops cfg) provider of None \<Rightarrow> None | Some nh \<Rightarrow> if nh = NoAddr then None else Some nh)"

section \<open>Announcing\<close>

definition learned_now :: "env \<Rightarrow> Controller \<Rightarrow> Improvement \<Rightarrow> prefix \<Rightarrow> bool" where
  "learned_now e c imp p =
     (if IsValid (imp_Covering imp)
      then synthRefusal e c p (imp_Covering imp) (imp_Provider imp) = None \<and> ev_Contains e (imp_Covering imp)
      else ev_Contains e p)"

definition announceLocked :: "env \<Rightarrow> Improvement \<Rightarrow> Controller \<Rightarrow> Controller \<times> ann_error list" where
  "announceLocked e imp c =
     (let p = Masked (imp_Prefix imp); cfg = c_cfg c in
      if \<not> CoveredBy (an_Allowlist cfg) p then (c, [NotAllowlisted p])
      else if fmlookup (c_active c) p = None \<and> \<not> learned_now e c imp p then (c, [NotInRIB p])
      else case next_hop cfg (imp_Provider imp) of
        None \<Rightarrow> (c, [NoNextHop (imp_Provider imp)])
      | Some nh \<Rightarrow>
          if counted (c_active c) p = 0 \<and> c_improvements c + ev_Others e \<ge> an_MaxImprovements cfg then (c, [MaxImprovementsReached])
          else let lp = localPref cfg (imp_Provider imp) (cause_text (imp_Cause imp));
                   comms = routeCommunities cfg imp;
                   path = routePath e c p (imp_Covering imp) (imp_Provider imp);
                   rt = \<lparr>rt_Prefix = p, rt_NextHop = nh, rt_Provider = imp_Provider imp, rt_LocalPref = lp,
                         rt_Communities = comms, rt_ASPath = path\<rparr>
               in case ann_do e (Announce rt) c of
                    (False, c1) \<Rightarrow> (c1, [CallFailed (Announce rt)])
                  | (True, c1) \<Rightarrow>
                      (setActiveLocked p (zeroSlot\<lparr>sl_provider := imp_Provider imp, sl_asPath := path, sl_localPref := lp,
                         sl_communities := comms, sl_cover := imp_Covering imp\<rparr>) c1, []))"

definition announceMoreSpecificLocked :: "env \<Rightarrow> prefix \<Rightarrow> prefix \<Rightarrow> string \<Rightarrow> Controller \<Rightarrow> Controller \<times> ann_error list" where
  "announceMoreSpecificLocked e m0 parent provider c =
     (let m = Masked m0; cfg = c_cfg c in
      if \<not> CoveredBy (an_Allowlist cfg) m then (c, [NotAllowlisted m])
      else if fmlookup (c_active c) m = None \<and> \<not> ev_Contains e m then (c, [NotInRIB m])
      else case next_hop cfg provider of
        None \<Rightarrow> (c, [NoNextHop provider])
      | Some nh \<Rightarrow>
          (let par = fmget zeroSlot (c_active c) parent;
               lp = (if sl_localPref par \<noteq> 0 then sl_localPref par else an_LocalPref cfg);
               comms = (if sl_communities par \<noteq> [] then sl_communities par else [an_Community cfg]);
               path = asPath e c m provider;
               rt = \<lparr>rt_Prefix = m, rt_NextHop = nh, rt_Provider = provider, rt_LocalPref = lp, rt_Communities = comms, rt_ASPath = path\<rparr>
           in case ann_do e (Announce rt) c of
                (False, c1) \<Rightarrow> (c1, [CallFailed (Announce rt)])
              | (True, c1) \<Rightarrow>
                  (let s = zeroSlot\<lparr>sl_provider := provider, sl_asPath := path, sl_localPref := lp, sl_communities := comms, sl_parent := parent\<rparr>;
                       old = fmget zeroSlot (c_active c) m;
                       s' = (if moreSpecific old \<and> sl_parent old = parent then s\<lparr>sl_seen := sl_seen old, sl_held := sl_held old\<rparr> else s)
                   in (setActiveLocked m s' c1, []))))"

section \<open>One improvement\<close>

definition unchanged :: "env \<Rightarrow> Controller \<Rightarrow> Improvement \<Rightarrow> prefix \<Rightarrow> slot \<Rightarrow> bool" where
  "unchanged e c im p s \<longleftrightarrow>
     \<not> moreSpecific s \<and> sl_provider s = imp_Provider im \<and>
     sl_localPref s = localPref (c_cfg c) (imp_Provider im) (cause_text (imp_Cause im)) \<and>
     sl_communities s = routeCommunities (c_cfg c) im \<and>
     sl_asPath s = routePath e c p (imp_Covering im) (imp_Provider im)"

text \<open>The part after the holds and the change of the covering prefix; \<open>on\<close> is what is on the wire then.\<close>

definition sync_route :: "env \<Rightarrow> Improvement \<Rightarrow> prefix list \<Rightarrow> slot option \<Rightarrow> Controller \<Rightarrow> Controller \<times> ann_error list" where
  "sync_route e im learned on c =
     (let p = Masked (imp_Prefix im); cfg = c_cfg c; cover = imp_Covering im in
      if IsValid cover \<and> synthRefusal e c p cover (imp_Provider im) \<noteq> None
      then withdraw_if (on \<noteq> None) e p (NotSynthesized p (the (synthRefusal e c p cover (imp_Provider im)))) c
      else if IsValid cover \<and> coverMissing e c cover (on \<noteq> None) then withdraw_if (on \<noteq> None) e p (CoverNotInRIB cover) c
      else if \<not> IsValid cover \<and> on = None \<and> \<not> ev_Contains e p then (c, [NotInRIB p])
      else if \<not> CoveredBy (an_Allowlist cfg) p then withdraw_if (on \<noteq> None) e p (NotAllowlisted p) c
      else if (case on of None \<Rightarrow> False | Some s \<Rightarrow> unchanged e c im p s) then (c, [])
      else if (an_MoreSpecific cfg \<or> an_Synthesize cfg \<noteq> None) \<and> on = None \<and>
              usedRoutesLocked e c + 1 + int (length (filter (\<lambda>m. fmlookup (c_active c) m = None) learned)) > an_MaxRoutes cfg
      then (c, [MaxRoutesReached p])
      else announceLocked e im c)"

definition syncImprovementLocked :: "env \<Rightarrow> Improvement \<Rightarrow> prefix list \<Rightarrow> Controller \<Rightarrow> Controller \<times> ann_error list" where
  "syncImprovementLocked e im learned c =
     (let p = Masked (imp_Prefix im); on = fmlookup (c_active c) p in
      if Bits p = 0 then (c, [IsDefaultRoute p])
      else if ev_Held e p then (if on \<noteq> None then withdrawLocked e p c else (c, []))
      else if ev_Reserved e p then withdraw_if (on \<noteq> None) e p (IsReserved p) c
      else case on of
        Some s \<Rightarrow>
          if sl_cover s \<noteq> imp_Covering im
          then (case withdrawLocked e p c of
                  (c1, []) \<Rightarrow> sync_route e im learned None c1
                | (c1, errs) \<Rightarrow> (c1, errs))
          else sync_route e im learned on c
      | None \<Rightarrow> sync_route e im learned None c)"

section \<open>Learned more-specifics\<close>

definition best_parent :: "prefix list \<Rightarrow> prefix \<Rightarrow> prefix" where
  "best_parent parents m =
     foldl (\<lambda>best p. if Bits p < Bits m \<and> Contains p (Addr m) \<and> (\<not> IsValid best \<or> Bits p > Bits best) then p else best)
       zeroPrefix parents"

text \<open>
  The more-specifics the improvements of \<open>want\<close> claim, once each, and for each the improvement that owns it. The
  order in which the RIB lists them is lost when the source sorts them.
\<close>

definition claimed :: "env \<Rightarrow> annConfig \<Rightarrow> prefix list \<Rightarrow> prefix list" where
  "claimed e cfg parents =
     (if parents = [] then []
      else filter (\<lambda>m. m \<notin> set parents \<and> CoveredBy (an_Allowlist cfg) m \<and> \<not> barred e m \<and> IsValid (best_parent parents m))
             (remdups (map Masked (ev_MoreSpecifics e parents))))"

definition owner_of :: "env \<Rightarrow> annConfig \<Rightarrow> prefix list \<Rightarrow> prefix \<Rightarrow> prefix option" where
  "owner_of e cfg parents m = (if m \<in> set (claimed e cfg parents) then Some (best_parent parents m) else None)"

definition kids_of :: "env \<Rightarrow> annConfig \<Rightarrow> prefix list \<Rightarrow> prefix \<Rightarrow> prefix list" where
  "kids_of e cfg parents p = Sort (filter (\<lambda>m. best_parent parents m = p) (claimed e cfg parents))"

record ms_acc =
  ms_c :: Controller
  ms_visited :: "prefix list"
  ms_errs :: "ann_error list"
  ms_capped :: nat

definition ms_visit :: "prefix \<Rightarrow> ms_acc \<Rightarrow> ms_acc" where
  "ms_visit m a = a\<lparr>ms_visited := m # ms_visited a\<rparr>"

text \<open>Withdrawing one that may not stay; a failed withdrawal still counts as visited.\<close>

definition ms_withdraw :: "env \<Rightarrow> prefix \<Rightarrow> ms_acc \<Rightarrow> ms_acc" where
  "ms_withdraw e m a =
     (case withdrawLocked e m (ms_c a) of
        (c1, []) \<Rightarrow> a\<lparr>ms_c := c1\<rparr>
      | (c1, errs) \<Rightarrow> ms_visit m (a\<lparr>ms_c := c1, ms_errs := ms_errs a @ errs\<rparr>))"

text \<open>Announcing one again when its attributes differ from those of its improvement.\<close>

definition ms_refresh :: "env \<Rightarrow> prefix \<Rightarrow> slot \<Rightarrow> prefix \<Rightarrow> slot \<Rightarrow> ms_acc \<Rightarrow> ms_acc" where
  "ms_refresh e p par m s a =
     (if sl_provider s \<noteq> sl_provider par \<or> sl_localPref s \<noteq> sl_localPref par \<or> sl_communities s \<noteq> sl_communities par \<or>
         sl_asPath s \<noteq> asPath e (ms_c a) m (sl_provider par)
      then (case announceMoreSpecificLocked e m p (sl_provider par) (ms_c a) of
              (c1, errs) \<Rightarrow> a\<lparr>ms_c := c1, ms_errs := ms_errs a @ errs\<rparr>)
      else a)"

definition ms_mine_step :: "env \<Rightarrow> prefix \<Rightarrow> slot \<Rightarrow> prefix list \<Rightarrow> (prefix \<Rightarrow> prefix option) \<Rightarrow> ms_acc \<Rightarrow> prefix \<Rightarrow> ms_acc" where
  "ms_mine_step e p par learned owner a m =
     (let c = ms_c a; s = fmget zeroSlot (c_active c) m; now = ev_Now e in
      if (case owner m of None \<Rightarrow> False | Some q \<Rightarrow> q \<noteq> p) then a
      else if \<not> CoveredBy (an_Allowlist (c_cfg c)) m \<or> barred e m then ms_withdraw e m a
      else if m \<notin> set learned \<and> sl_held s \<and> sl_seen s \<noteq> 0 \<and> time_sub now (sl_seen s) \<ge> NativePathConfirm then ms_withdraw e m a
      else let s' = (if m \<in> set learned then s\<lparr>sl_seen := (if sl_seen s = 0 then now else sl_seen s), sl_held := True\<rparr>
                     else s\<lparr>sl_seen := 0, sl_held := False\<rparr>)
           in ms_refresh e p par m s' (ms_visit m (a\<lparr>ms_c := setActiveLocked m s' c\<rparr>)))"

definition ms_learned_step :: "env \<Rightarrow> prefix \<Rightarrow> slot \<Rightarrow> ms_acc \<Rightarrow> prefix \<Rightarrow> ms_acc" where
  "ms_learned_step e p par a m =
     (let c = ms_c a in
      case fmlookup (c_active c) m of
        Some s \<Rightarrow>
          if \<not> moreSpecific s \<or> sl_parent s = p then a
          else let s' = s\<lparr>sl_parent := p, sl_seen := 0, sl_held := False\<rparr>
               in ms_refresh e p par m s' (ms_visit m (a\<lparr>ms_c := setActiveLocked m s' c\<rparr>))
      | None \<Rightarrow>
          if usedRoutesLocked e c + 1 > an_MaxRoutes (c_cfg c) then a\<lparr>ms_capped := ms_capped a + 1\<rparr>
          else (case announceMoreSpecificLocked e m p (sl_provider par) c of
                  (c1, []) \<Rightarrow> ms_visit m (a\<lparr>ms_c := c1\<rparr>)
                | (c1, errs) \<Rightarrow> a\<lparr>ms_c := c1, ms_errs := ms_errs a @ errs\<rparr>))"

definition mine_of :: "Controller \<Rightarrow> prefix \<Rightarrow> prefix list" where
  "mine_of c p = filter (\<lambda>m. let s = fmget zeroSlot (c_active c) m in moreSpecific s \<and> sl_parent s = p) (SortedKeys (c_active c))"

definition syncMoreSpecificsLocked ::
  "env \<Rightarrow> prefix \<Rightarrow> prefix list \<Rightarrow> (prefix \<Rightarrow> prefix option) \<Rightarrow> prefix list \<Rightarrow> Controller \<Rightarrow>
   Controller \<times> prefix list \<times> ann_error list" where
  "syncMoreSpecificsLocked e p learned owner visited c =
     (let par = fmget zeroSlot (c_active c) p;
          a0 = \<lparr>ms_c = c, ms_visited = visited, ms_errs = [], ms_capped = 0\<rparr>;
          a1 = foldl (ms_mine_step e p par learned owner) a0 (mine_of c p);
          a2 = foldl (ms_learned_step e p par) a1 learned
      in (ms_c a2, ms_visited a2, ms_errs a2 @ (if ms_capped a2 > 0 then [RoutesCapped p (ms_capped a2)] else [])))"

section \<open>Sync\<close>

type_synonym wanted = "(prefix, Improvement) fmap"

definition want_of :: "Improvement list \<Rightarrow> wanted" where
  "want_of imps = foldl (\<lambda>m im. fmupd (Masked (imp_Prefix im)) im m) fmempty imps"

definition withdraw_step :: "env \<Rightarrow> Controller \<times> ann_error list \<Rightarrow> prefix \<Rightarrow> Controller \<times> ann_error list" where
  "withdraw_step e acc p = (let (c1, errs) = withdrawLocked e p (fst acc) in (c1, snd acc @ errs))"

definition unwanted :: "wanted \<Rightarrow> Controller \<Rightarrow> prefix \<Rightarrow> bool" where
  "unwanted want c p =
     (let s = fmget zeroSlot (c_active c) p in
      fmlookup want p = None \<and> \<not> (moreSpecific s \<and> fmlookup want (sl_parent s) \<noteq> None))"

record sync_acc =
  sa_c :: Controller
  sa_visited :: "prefix list"
  sa_errs :: "ann_error list"

definition sync_step :: "env \<Rightarrow> wanted \<Rightarrow> sync_acc \<Rightarrow> prefix \<Rightarrow> sync_acc" where
  "sync_step e want a p =
     (let cfg = c_cfg (sa_c a); parents = SortedKeys want;
          kids = (if an_MoreSpecific cfg then kids_of e cfg parents p else []);
          (c1, errs1) = (case fmlookup want p of None \<Rightarrow> (sa_c a, []) | Some im \<Rightarrow> syncImprovementLocked e im kids (sa_c a));
          a1 = a\<lparr>sa_c := c1, sa_errs := sa_errs a @ errs1\<rparr>
      in case fmlookup (c_active c1) p of
           None \<Rightarrow> a1
         | Some s \<Rightarrow>
             if an_MoreSpecific cfg \<and> \<not> moreSpecific s
             then (case syncMoreSpecificsLocked e p kids (owner_of e cfg parents) (sa_visited a) c1 of
                     (c2, visited, errs2) \<Rightarrow> a1\<lparr>sa_c := c2, sa_visited := visited, sa_errs := sa_errs a1 @ errs2\<rparr>)
             else a1)"

definition orphan :: "Controller \<Rightarrow> prefix list \<Rightarrow> prefix \<Rightarrow> bool" where
  "orphan c visited p \<longleftrightarrow> moreSpecific (fmget zeroSlot (c_active c) p) \<and> p \<notin> set visited"

definition sync_wanted :: "env \<Rightarrow> wanted \<Rightarrow> Controller \<Rightarrow> Controller \<times> ann_error list" where
  "sync_wanted e want c =
     (let (c1, errs1) = foldl (withdraw_step e) (c, []) (filter (unwanted want c) (ev_order e 0 (SortedKeys (c_active c))));
          a = foldl (sync_step e want) \<lparr>sa_c = c1, sa_visited = [], sa_errs = errs1\<rparr> (SortedKeys want);
          c2 = sa_c a
      in foldl (withdraw_step e) (c2, sa_errs a) (filter (orphan c2 (sa_visited a)) (ev_order e 1 (SortedKeys (c_active c2)))))"

definition Sync :: "env \<Rightarrow> Improvement list \<Rightarrow> Controller \<Rightarrow> Controller \<times> ann_error list" where
  "Sync e imps c =
     (let (c', errs) =
        (if an_Mode (c_cfg c) \<noteq> ModeInject then (c, [])
         else if \<not> ev_Leader e then (if fmlen (c_active c) = 0 then (c, []) else withdrawAllLocked e c)
         else if \<not> ev_Ready e then withdrawAllLocked e c
         else sync_wanted e (want_of imps) c)
      in (store c', errs))"

section \<open>The other operations\<close>

definition WithdrawPrefix :: "env \<Rightarrow> prefix \<Rightarrow> Controller \<Rightarrow> Controller \<times> ann_error list" where
  "WithdrawPrefix e p0 c =
     (let p = Masked p0;
          hit = (\<lambda>q. q = p \<or> (let s = fmget zeroSlot (c_active c) q in moreSpecific s \<and> sl_parent s = p));
          (c1, errs) = foldl (withdraw_step e) (c, []) (filter hit (ev_order e 0 (SortedKeys (c_active c))))
      in (store c1, errs))"

definition WithdrawAll :: "env \<Rightarrow> Controller \<Rightarrow> Controller \<times> ann_error list" where
  "WithdrawAll e c =
     (if c_ann c = None then (c, [])
      else let (c1, errs) = (if an_Mode (c_cfg c) \<noteq> ModeInject then (c, []) else withdrawAllLocked e c) in (store c1, errs))"

definition Active :: "Controller \<Rightarrow> int" where "Active c = c_onWire c"

definition Routes :: "Controller \<Rightarrow> int" where "Routes c = c_routes c"

definition Injected :: "Controller \<Rightarrow> prefix \<Rightarrow> bool" where
  "Injected c p \<longleftrightarrow> fmlookup (c_active c) (Masked p) \<noteq> None"

definition OnWireProvider :: "Controller \<Rightarrow> prefix \<Rightarrow> string option" where
  "OnWireProvider c p =
     (case fmlookup (c_active c) (Masked p) of None \<Rightarrow> None | Some s \<Rightarrow> if moreSpecific s then None else Some (sl_provider s))"

definition Routers :: "Controller \<Rightarrow> RouterExport list" where
  "Routers c = an_Routers (c_cfg c)"

text \<open>A sub-range is offered to the decision engine only while no measurement of it was refused.\<close>

definition synth_step ::
  "env \<Rightarrow> Controller \<Rightarrow> Result \<Rightarrow> (prefix, prefix) fmap \<times> prefix list \<Rightarrow> SubrangeResult \<Rightarrow> (prefix, prefix) fmap \<times> prefix list" where
  "synth_step e c r acc sr =
     (let (out, refused) = acc; sub = Masked (sr_Prefix sr) in
      if sub \<in> set refused then acc
      else if synthRefusal e c sub (Masked (r_Prefix r)) (r_Provider r) \<noteq> None then (fmdrop sub out, sub # refused)
      else (fmupd sub (Masked (r_Prefix r)) out, refused))"

definition Synthesizable :: "env \<Rightarrow> Controller \<Rightarrow> Result list \<Rightarrow> (prefix, prefix) fmap" where
  "Synthesizable e c results =
     (if an_Synthesize (c_cfg c) = None \<or> c_rib c = None then fmempty
      else fst (foldl (\<lambda>acc r. foldl (synth_step e c r) acc (r_Subranges r)) (fmempty, []) results))"

definition SynthesizeRefusal :: "env \<Rightarrow> Controller \<Rightarrow> prefix \<Rightarrow> prefix \<Rightarrow> string \<Rightarrow> string option" where
  "SynthesizeRefusal e c sub cover provider =
     (if c_rib c = None then Some ''no RIB view''
      else case synthRefusal e c sub cover provider of
        Some why \<Rightarrow> Some why
      | None \<Rightarrow> if coverMissing e c cover (fmlookup (c_active c) sub \<noteq> None) then Some ''covering prefix is not in the learned RIB'' else None)"

section \<open>Entering and leaving inject mode\<close>

text \<open>
  The checks of the settings. The source ranges over Go maps and returns the first error it meets; the
  model names the map. \<open>validateInject\<close> writes the canonical community lists into the maps of the
  configuration, which its copies share; a refused entry may leave some of the lists canonical already, which
  the next entry makes them anyway, and the model leaves them as they were.
\<close>

definition check_extras :: "string list \<Rightarrow> string \<Rightarrow> string list option" where
  "check_extras list packeteer =
     (if length list > 16 then None
      else let texts = map (\<lambda>s. ExtraCommunityText s packeteer) list in
        if list_ex (\<lambda>t. case t of Inl _ \<Rightarrow> True | Inr _ \<Rightarrow> False) texts then None
        else let out = map (\<lambda>t. case t of Inl _ \<Rightarrow> [] | Inr x \<Rightarrow> x) texts in if distinct out then Some out else None)"

definition fm_all :: "(string \<Rightarrow> 'v \<Rightarrow> bool) \<Rightarrow> (string, 'v) fmap \<Rightarrow> bool" where
  "fm_all P m \<longleftrightarrow> (\<forall>k \<in> fmdom' m. P k (the (fmlookup m k)))"

definition canon_extras :: "string \<Rightarrow> (string, string list) fmap \<Rightarrow> (string, string list) fmap" where
  "canon_extras packeteer m = fmmap (\<lambda>l. case check_extras l packeteer of None \<Rightarrow> l | Some x \<Rightarrow> x) m"

definition as_path_ok :: "string \<Rightarrow> ribCaps \<Rightarrow> bool" where
  "as_path_ok mode rib \<longleftrightarrow> mode = [] \<or> mode = ''empty'' \<or> (mode = ''native'' \<or> mode = ''provider'') \<and> rc_PathRIB rib"

definition check_synthesize :: "annConfig \<Rightarrow> ann_error + Synthesize option" where
  "check_synthesize cfg =
     (case an_Synthesize cfg of
        None \<Rightarrow> Inr None
      | Some sy \<Rightarrow>
          if sy_Covering sy = [] then Inl NoCovering
          else if sy_MaxBits sy < 1 \<or> sy_MaxLenV4 sy < 1 \<or> sy_MaxLenV6 sy < 1 then Inl NoSynthLimits
          else (case ExtraCommunityText (sy_Marker sy) (an_Community cfg) of
                  Inl err \<Rightarrow> Inl (BadMarker err)
                | Inr marker \<Rightarrow> Inr (Some (sy\<lparr>sy_Marker := marker\<rparr>))))"

definition validateInject :: "annConfig \<Rightarrow> annCaps option \<Rightarrow> ribCaps option \<Rightarrow> ann_error + annConfig" where
  "validateInject cfg ann rib =
     (if ann = None then Inl NoAnnouncer
      else case rib of None \<Rightarrow> Inl NoRIB | Some rb \<Rightarrow>
        if an_LocalPref cfg = 0 then Inl NoLocalPref
        else if \<not> fm_all (\<lambda>cause v. known_cause cause \<and> v \<noteq> 0) (an_CauseLocalPref cfg) then Inl BadCauseLocalPref
        else if \<not> fm_all (\<lambda>name v. fmlookup (an_NextHops cfg) name \<noteq> None \<and> v \<noteq> 0) (an_ProviderLocalPref cfg) then Inl BadProviderLocalPref
        else if an_Community cfg = [] then Inl NoCommunity
        else case CommunityText (an_Community cfg) of Inl err \<Rightarrow> Inl (BadCommunity err) | Inr text \<Rightarrow>
          if \<not> fm_all (\<lambda>cause l. known_cause cause \<and> check_extras l text \<noteq> None) (an_CauseCommunities cfg) then Inl BadCauseCommunities
          else if \<not> fm_all (\<lambda>name l. fmlookup (an_NextHops cfg) name \<noteq> None \<and> check_extras l text \<noteq> None) (an_ProviderCommunities cfg)
          then Inl BadProviderCommunities
          else if an_MaxImprovements cfg < 0 then Inl NegativeCap
          else if \<not> as_path_ok (an_ASPath cfg) rb then Inl BadASPath
          else if (an_MoreSpecific cfg \<or> an_Synthesize cfg \<noteq> None) \<and> an_MaxRoutes cfg < 1 then Inl NoMaxRoutes
          else if (an_MoreSpecific cfg \<or> an_Synthesize cfg \<noteq> None) \<and> \<not> rc_MoreSpecificRIB rb then Inl NoMoreSpecificRIB
          else (let cfg1 = cfg\<lparr>an_Community := text, an_CauseCommunities := canon_extras text (an_CauseCommunities cfg),
                              an_ProviderCommunities := canon_extras text (an_ProviderCommunities cfg)\<rparr>
                in case check_synthesize cfg1 of Inl err \<Rightarrow> Inl err | Inr sy \<Rightarrow> Inr (cfg1\<lparr>an_Synthesize := sy\<rparr>)))"

definition NewController :: "annConfig \<Rightarrow> annCaps option \<Rightarrow> ribCaps option \<Rightarrow> ann_error + Controller" where
  "NewController cfg ann rib =
     (case (if an_Mode cfg = ModeInject then validateInject cfg ann rib else Inr cfg) of
        Inl err \<Rightarrow> Inl err
      | Inr cfg1 \<Rightarrow> Inr \<lparr>c_cfg = cfg1, c_ann = ann, c_rib = rib, c_active = fmempty, c_improvements = 0, c_onWire = 0,
          c_routes = 0, c_srv = False, c_bound = False, c_log = []\<rparr>)"

definition bindLocked :: "env \<Rightarrow> Controller \<Rightarrow> Controller \<times> ann_error option" where
  "bindLocked e c =
     (if c_bound c then (c, None)
      else case c_ann c of None \<Rightarrow> (c, Some NoAnnouncer) | Some ann \<Rightarrow>
        if \<not> c_srv c then (c, Some NoSpeaker)
        else let cfg = c_cfg c;
                 x = (if an_Routers cfg \<noteq> [] then AnnBindRouters (an_Community cfg) (an_Routers cfg) else AnnBind (an_Community cfg));
                 can = (if an_Routers cfg \<noteq> [] then ac_BindRouters ann else ac_Bind ann)
             in if \<not> can then (c, Some (if an_Routers cfg \<noteq> [] then CannotBindRouters else CannotBind))
                else case ann_do e x c of
                  (False, c1) \<Rightarrow> (c1, Some (CallFailed x))
                | (True, c1) \<Rightarrow> (c1\<lparr>c_bound := True\<rparr>, None))"

definition Bind :: "env \<Rightarrow> bool \<Rightarrow> Controller \<Rightarrow> Controller \<times> ann_error option" where
  "Bind e srv c =
     (let c1 = (if srv then c\<lparr>c_srv := True\<rparr> else c)
      in if an_Mode (c_cfg c) \<noteq> ModeInject then (c1, None) else bindLocked e c1)"

definition RememberSpeaker :: "bool \<Rightarrow> Controller \<Rightarrow> Controller" where
  "RememberSpeaker srv c = (if srv then c\<lparr>c_srv := True\<rparr> else c)"

definition enterInjectLocked :: "env \<Rightarrow> int \<Rightarrow> Controller \<Rightarrow> Controller \<times> ann_error option" where
  "enterInjectLocked e mx c =
     (if an_Mode (c_cfg c) = ModeInject \<and> c_bound c then (c, None)
      else case validateInject ((c_cfg c)\<lparr>an_Mode := ModeInject, an_MaxImprovements := mx\<rparr>) (c_ann c) (c_rib c) of
        Inl err \<Rightarrow> (c, Some err)
      | Inr checked \<Rightarrow>
          bindLocked e (c\<lparr>c_cfg := (c_cfg c)\<lparr>an_Community := an_Community checked, an_Synthesize := an_Synthesize checked,
             an_CauseCommunities := an_CauseCommunities checked, an_ProviderCommunities := an_ProviderCommunities checked\<rparr>\<rparr>))"

definition PrepareRuntime :: "env \<Rightarrow> string \<Rightarrow> int \<Rightarrow> Controller \<Rightarrow> Controller \<times> ann_error option" where
  "PrepareRuntime e mode mx c = (if mode \<noteq> ModeInject then (c, None) else enterInjectLocked e mx c)"

definition ApplyRuntime :: "env \<Rightarrow> string \<Rightarrow> prefix list \<Rightarrow> int \<Rightarrow> Controller \<Rightarrow> Controller \<times> ann_error option" where
  "ApplyRuntime e mode allow mx c =
     (let prev = an_Mode (c_cfg c);
          (c1, err1) =
            (if prev = ModeInject \<and> mode \<noteq> ModeInject
             then (case withdrawAllLocked e c of (c', []) \<Rightarrow> (store c', None) | (c', err # _) \<Rightarrow> (c', Some err))
             else (c, None))
      in if err1 \<noteq> None then (c1, err1)
         else let (c2, err2) = (if prev \<noteq> ModeInject \<and> mode = ModeInject then enterInjectLocked e mx c1 else (c1, None))
              in if err2 \<noteq> None then (c2, err2)
                 else (c2\<lparr>c_cfg := (c_cfg c2)\<lparr>an_Mode := mode, an_Allowlist := allow, an_MaxImprovements := mx\<rparr>\<rparr>, None))"

definition SetRouters :: "env \<Rightarrow> RouterExport list \<Rightarrow> Controller \<Rightarrow> Controller \<times> ann_error option" where
  "SetRouters e routers c =
     (let set_cfg = (\<lambda>c. c\<lparr>c_cfg := (c_cfg c)\<lparr>an_Routers := routers\<rparr>\<rparr>);
          (c', err) =
            (if an_Mode (c_cfg c) \<noteq> ModeInject then (set_cfg c, None)
             else if \<not> (case c_ann c of None \<Rightarrow> False | Some ann \<Rightarrow> ac_SetRouters ann) then (c, Some CannotReload)
             else case ann_do e (AnnSetRouters routers) c of
               (False, c1) \<Rightarrow> (clearActiveLocked c1, Some (CallFailed (AnnSetRouters routers)))
             | (True, c1) \<Rightarrow> (set_cfg (clearActiveLocked c1), None))
      in (store c', err))"

end
