(* ===== verification/Announce_Run.thy ===== *)
theory Announce_Run
  imports Announce
begin

text \<open>
  The announce controller as a machine. A step is one call of the announcer together with the change of
  the table that goes with its outcome, or a note on a more-specific that calls nothing. The guards are
  those a controller that injects routes has to respect; every operation of the controller is a run.
\<close>

section \<open>Guards\<close>

text \<open>A prefix may be announced: it is on the wire, or learned, or synthesized inside a learned prefix under the rails.\<close>

definition grounded :: "env \<Rightarrow> Controller \<Rightarrow> prefix \<Rightarrow> bool" where
  "grounded e c p \<longleftrightarrow> fmlookup (c_active c) p \<noteq> None \<or> ev_Contains e p \<or>
     (\<exists>cover provider. IsValid cover \<and> synthRefusal e c p cover provider = None \<and> ev_Contains e cover)"

definition route_ok :: "env \<Rightarrow> Controller \<Rightarrow> Route \<Rightarrow> bool" where
  "route_ok e c rt \<longleftrightarrow>
     Masked (rt_Prefix rt) = rt_Prefix rt \<and> Bits (rt_Prefix rt) \<noteq> 0 \<and> CoveredBy (an_Allowlist (c_cfg c)) (rt_Prefix rt) \<and>
     \<not> ev_Held e (rt_Prefix rt) \<and> \<not> ev_Reserved e (rt_Prefix rt) \<and> grounded e c (rt_Prefix rt) \<and>
     next_hop (c_cfg c) (rt_Provider rt) = Some (rt_NextHop rt) \<and>
     (\<exists>rest. rt_Communities rt = an_Community (c_cfg c) # rest)"

definition slot_of :: "slot \<Rightarrow> Route \<Rightarrow> bool" where
  "slot_of s rt \<longleftrightarrow> sl_provider s = rt_Provider rt \<and> sl_localPref s = rt_LocalPref rt \<and>
     sl_communities s = rt_Communities rt \<and> sl_asPath s = rt_ASPath rt"

definition caps_on :: "annConfig \<Rightarrow> bool" where
  "caps_on cfg \<longleftrightarrow> an_MoreSpecific cfg \<or> an_Synthesize cfg \<noteq> None"

definition has_room :: "env \<Rightarrow> Controller \<Rightarrow> prefix \<Rightarrow> slot \<Rightarrow> bool" where
  "has_room e c p s \<longleftrightarrow>
     (\<not> moreSpecific s \<longrightarrow> counted (c_active c) p = 0 \<longrightarrow> c_improvements c + ev_Others e < an_MaxImprovements (c_cfg c)) \<and>
     (caps_on (c_cfg c) \<longrightarrow> fmlookup (c_active c) p = None \<longrightarrow> usedRoutesLocked e c < an_MaxRoutes (c_cfg c))"

definition logged :: "ann_call \<Rightarrow> bool \<Rightarrow> Controller \<Rightarrow> Controller" where
  "logged x ok c = c\<lparr>c_log := c_log c @ [(x, ok)]\<rparr>"

lemma ann_do_eq: "ann_do e x c = (\<not> ev_fails e (c_log c) x, logged x (\<not> ev_fails e (c_log c) x) c)"
  by (simp add: ann_do_def logged_def Let_def)

inductive wire_step :: "env \<Rightarrow> Controller \<Rightarrow> Controller \<Rightarrow> bool" for e where
  failed_announce: "route_ok e c rt \<Longrightarrow> wire_step e c (logged (Announce rt) False c)"
| failed_withdraw: "wire_step e c (logged (Withdraw p) False c)"
| failed_all: "wire_step e c (logged AnnWithdrawAll False c)"
| withdraw: "fmlookup (c_active c) p \<noteq> None \<Longrightarrow> wire_step e c (dropActiveLocked p (logged (Withdraw p) True c))"
| withdraw_all: "wire_step e c (clearActiveLocked (logged AnnWithdrawAll True c))"
| put: "route_ok e c rt \<Longrightarrow> slot_of s rt \<Longrightarrow> has_room e c (rt_Prefix rt) s \<Longrightarrow>
    wire_step e c (setActiveLocked (rt_Prefix rt) s (logged (Announce rt) True c))"
| note_seen: "fmlookup (c_active c) m = Some s \<Longrightarrow> moreSpecific s \<Longrightarrow> IsValid q \<Longrightarrow>
    wire_step e c (setActiveLocked m (s\<lparr>sl_parent := q, sl_seen := t, sl_held := h\<rparr>) c)"

abbreviation wire_run :: "env \<Rightarrow> Controller \<Rightarrow> Controller \<Rightarrow> bool" where
  "wire_run e \<equiv> (wire_step e)\<^sup>*\<^sup>*"

lemma logged_simps [simp]:
  "c_cfg (logged x ok c) = c_cfg c" "c_active (logged x ok c) = c_active c" "c_improvements (logged x ok c) = c_improvements c"
  "c_log (logged x ok c) = c_log c @ [(x, ok)]" "c_rib (logged x ok c) = c_rib c" "c_ann (logged x ok c) = c_ann c"
  by (simp_all add: logged_def)

lemma setActive_simps [simp]:
  "c_cfg (setActiveLocked p s c) = c_cfg c" "c_active (setActiveLocked p s c) = fmupd p s (c_active c)"
  "c_log (setActiveLocked p s c) = c_log c" "c_rib (setActiveLocked p s c) = c_rib c" "c_ann (setActiveLocked p s c) = c_ann c"
  by (simp_all add: setActiveLocked_def)

lemma dropActive_simps [simp]:
  "c_cfg (dropActiveLocked p c) = c_cfg c" "c_active (dropActiveLocked p c) = fmdrop p (c_active c)"
  "c_log (dropActiveLocked p c) = c_log c" "c_rib (dropActiveLocked p c) = c_rib c" "c_ann (dropActiveLocked p c) = c_ann c"
  by (simp_all add: dropActiveLocked_def)

lemma clearActive_simps [simp]:
  "c_cfg (clearActiveLocked c) = c_cfg c" "c_active (clearActiveLocked c) = fmempty" "c_improvements (clearActiveLocked c) = 0"
  "c_log (clearActiveLocked c) = c_log c" "c_rib (clearActiveLocked c) = c_rib c" "c_ann (clearActiveLocked c) = c_ann c"
  by (simp_all add: clearActiveLocked_def)

lemma step_cfg: "wire_step e c c' \<Longrightarrow> c_cfg c' = c_cfg c \<and> c_rib c' = c_rib c \<and> c_ann c' = c_ann c"
  by (induction rule: wire_step.induct) simp_all

lemma run_cfg: "wire_run e c c' \<Longrightarrow> c_cfg c' = c_cfg c \<and> c_rib c' = c_rib c \<and> c_ann c' = c_ann c"
  by (induction rule: rtranclp_induct) (auto dest: step_cfg)

text \<open>A property of the controller that every step keeps is kept by every run.\<close>

locale wire_invariant =
  fixes inv :: "env \<Rightarrow> Controller \<Rightarrow> bool"
  assumes step: "inv e c \<Longrightarrow> wire_step e c c' \<Longrightarrow> inv e c'"
begin

lemma run: "wire_run e c c' \<Longrightarrow> inv e c \<Longrightarrow> inv e c'"
  by (induction rule: rtranclp_induct) (auto intro: step)

end

text \<open>Every active route is stored under a masked prefix, not a default route, and carries the community.\<close>

definition active_ok :: "env \<Rightarrow> Controller \<Rightarrow> bool" where
  "active_ok e c \<longleftrightarrow> (\<forall>p s. fmlookup (c_active c) p = Some s \<longrightarrow> Masked p = p \<and> 0 < Bits p \<and>
     (\<exists>rest. sl_communities s = an_Community (c_cfg c) # rest))"

lemma active_okD:
  "active_ok e c \<Longrightarrow> fmlookup (c_active c) p = Some s \<Longrightarrow> Masked p = p \<and> 0 < Bits p \<and> (\<exists>rest. sl_communities s = an_Community (c_cfg c) # rest)"
  by (auto simp: active_ok_def)

lemma CoveredBy_valid: "CoveredBy l p \<Longrightarrow> IsValid p"
  by (auto simp: CoveredBy_iff Contains_def IsValid_def)

interpretation table: wire_invariant active_ok
proof
  fix e c c'
  assume ok: "active_ok e c" and "wire_step e c c'"
  from this(2) show "active_ok e c'"
    using ok by cases (auto simp: active_ok_def route_ok_def slot_of_def IsValid_def dest!: CoveredBy_valid)
qed

section \<open>The operations are runs\<close>

lemma withdrawAll_run: "wire_run e c (fst (withdrawAllLocked e c))"
  by (auto simp: withdrawAllLocked_def ann_do_eq split: bool.splits intro: wire_step.intros)

lemma withdraw_run: "wire_run e c (fst (withdrawLocked e p c))"
  by (auto simp: withdrawLocked_def ann_do_eq Let_def split: bool.splits intro: wire_step.intros)

lemma withdraw_if_run: "wire_run e c (fst (withdraw_if on e p why c))"
  using withdraw_run [of e c p] by (auto simp: withdraw_if_def Let_def split: prod.splits)

lemma add_comms_hd: "\<exists>rest'. add_comms (x # rest) l = x # rest'"
  unfolding add_comms_def by (induction l arbitrary: rest) auto

lemma routeCommunities_hd: "\<exists>rest. routeCommunities cfg imp = an_Community cfg # rest"
proof -
  obtain r1 where r1: "add_comms [an_Community cfg] (fmget [] (an_CauseCommunities cfg)
      (if cause_text (imp_Cause imp) = [] then ''performance'' else cause_text (imp_Cause imp))) = an_Community cfg # r1"
    using add_comms_hd by blast
  obtain r2 where "communities cfg (imp_Provider imp) (cause_text (imp_Cause imp)) = an_Community cfg # r2"
    unfolding communities_def r1 using add_comms_hd by blast
  then show ?thesis by (simp add: routeCommunities_def Let_def split: option.splits)
qed

lemma announce_run:
  assumes "Bits (Masked (imp_Prefix imp)) \<noteq> 0" and "\<not> ev_Held e (Masked (imp_Prefix imp))" and "\<not> ev_Reserved e (Masked (imp_Prefix imp))"
    and "caps_on (c_cfg c) \<Longrightarrow> fmlookup (c_active c) (Masked (imp_Prefix imp)) = None \<Longrightarrow> usedRoutesLocked e c < an_MaxRoutes (c_cfg c)"
  shows "wire_run e c (fst (announceLocked e imp c))"
proof -
  define p where "p = Masked (imp_Prefix imp)"
  define rt where "rt nh = \<lparr>rt_Prefix = p, rt_NextHop = nh, rt_Provider = imp_Provider imp,
    rt_LocalPref = localPref (c_cfg c) (imp_Provider imp) (cause_text (imp_Cause imp)),
    rt_Communities = routeCommunities (c_cfg c) imp, rt_ASPath = routePath e c p (imp_Covering imp) (imp_Provider imp)\<rparr>" for nh
  define s where "s = zeroSlot\<lparr>sl_provider := imp_Provider imp, sl_asPath := routePath e c p (imp_Covering imp) (imp_Provider imp),
    sl_localPref := localPref (c_cfg c) (imp_Provider imp) (cause_text (imp_Cause imp)),
    sl_communities := routeCommunities (c_cfg c) imp, sl_cover := imp_Covering imp\<rparr>"
  show ?thesis
  proof (cases "CoveredBy (an_Allowlist (c_cfg c)) p \<and> (fmlookup (c_active c) p = None \<longrightarrow> learned_now e c imp p)")
    case False
    then show ?thesis by (auto simp: announceLocked_def Let_def p_def)
  next
    case ok: True
    show ?thesis
    proof (cases "next_hop (c_cfg c) (imp_Provider imp)")
      case None
      then show ?thesis using ok by (auto simp: announceLocked_def Let_def p_def)
    next
      case (Some nh)
      show ?thesis
      proof (cases "counted (c_active c) p = 0 \<and> c_improvements c + ev_Others e \<ge> an_MaxImprovements (c_cfg c)")
        case True
        then show ?thesis using ok Some by (auto simp: announceLocked_def Let_def p_def)
      next
        case False
        have "grounded e c p" using ok by (auto simp: grounded_def learned_now_def split: if_splits)
        then have r: "route_ok e c (rt nh)"
          using ok assms(1-3) Some routeCommunities_hd by (simp add: route_ok_def rt_def p_def [symmetric]) (simp add: p_def)
        have "has_room e c (rt_Prefix (rt nh)) s"
          using False assms(4) by (auto simp: has_room_def rt_def p_def)
        then have "wire_step e c (setActiveLocked p s (logged (Announce (rt nh)) True c))"
          using wire_step.put [OF r, of s] by (simp add: slot_of_def s_def rt_def)
        moreover have "fst (announceLocked e imp c) =
            (if ev_fails e (c_log c) (Announce (rt nh)) then logged (Announce (rt nh)) False c
             else setActiveLocked p s (logged (Announce (rt nh)) True c))"
          using ok Some False
          by (auto simp: announceLocked_def Let_def p_def [symmetric] ann_do_eq rt_def s_def)
        ultimately show ?thesis using wire_step.failed_announce [OF r] by auto
      qed
    qed
  qed
qed

lemma announceMS_cases:
  assumes m: "Masked m = m"
  obtains (quiet) errs where "announceMoreSpecificLocked e m parent provider c = (c, errs)" "errs \<noteq> []"
  | (call) nh rt s where "rt_Prefix rt = m" "rt_Provider rt = provider" "rt_NextHop rt = nh" "next_hop (c_cfg c) provider = Some nh"
      "slot_of s rt" "sl_parent s = parent" "CoveredBy (an_Allowlist (c_cfg c)) m"
      "fmlookup (c_active c) m \<noteq> None \<or> ev_Contains e m"
      "rt_Communities rt = (if sl_communities (fmget zeroSlot (c_active c) parent) \<noteq> []
         then sl_communities (fmget zeroSlot (c_active c) parent) else [an_Community (c_cfg c)])"
      "announceMoreSpecificLocked e m parent provider c =
         (if ev_fails e (c_log c) (Announce rt) then (logged (Announce rt) False c, [CallFailed (Announce rt)])
          else (setActiveLocked m s (logged (Announce rt) True c), []))"
proof (cases "CoveredBy (an_Allowlist (c_cfg c)) m \<and> (fmlookup (c_active c) m = None \<longrightarrow> ev_Contains e m) \<and> next_hop (c_cfg c) provider \<noteq> None")
  case False
  then show thesis
    by (intro quiet [of "snd (announceMoreSpecificLocked e m parent provider c)"])
      (auto simp: announceMoreSpecificLocked_def Let_def m)
next
  case ok: True
  then obtain nh where nh: "next_hop (c_cfg c) provider = Some nh" by auto
  define par where "par = fmget zeroSlot (c_active c) parent"
  define lp where "lp = (if sl_localPref par \<noteq> 0 then sl_localPref par else an_LocalPref (c_cfg c))"
  define comms where "comms = (if sl_communities par \<noteq> [] then sl_communities par else [an_Community (c_cfg c)])"
  define path where "path = asPath e c m provider"
  define rt where "rt = \<lparr>rt_Prefix = m, rt_NextHop = nh, rt_Provider = provider, rt_LocalPref = lp, rt_Communities = comms, rt_ASPath = path\<rparr>"
  define s where "s = zeroSlot\<lparr>sl_provider := provider, sl_asPath := path, sl_localPref := lp, sl_communities := comms, sl_parent := parent\<rparr>"
  define old where "old = fmget zeroSlot (c_active c) m"
  define s' where "s' = (if moreSpecific old \<and> sl_parent old = parent then s\<lparr>sl_seen := sl_seen old, sl_held := sl_held old\<rparr> else s)"
  have "announceMoreSpecificLocked e m parent provider c =
      (if ev_fails e (c_log c) (Announce rt) then (logged (Announce rt) False c, [CallFailed (Announce rt)])
       else (setActiveLocked m s' (logged (Announce rt) True c), []))"
    using ok nh
    by (auto simp: announceMoreSpecificLocked_def Let_def m ann_do_eq rt_def comms_def lp_def path_def par_def s'_def s_def old_def)
  moreover have "slot_of s' rt" "sl_parent s' = parent" by (simp_all add: slot_of_def s'_def s_def rt_def)
  ultimately show thesis using ok nh
    by (intro call [of rt nh s']) (auto simp: rt_def comms_def par_def)
qed

lemma announceMS_run:
  assumes ok: "active_ok e c" and m: "Masked m = m" "Bits m \<noteq> 0" "\<not> barred e m" and parent: "IsValid parent"
    and room: "fmlookup (c_active c) m = None \<Longrightarrow> usedRoutesLocked e c < an_MaxRoutes (c_cfg c)"
  shows "wire_run e c (fst (announceMoreSpecificLocked e m parent provider c))"
  using m(1)
proof (cases rule: announceMS_cases [where e = e and parent = parent and provider = provider and c = c])
  case (quiet errs)
  then show ?thesis by simp
next
  case (call nh rt s)
  have "\<exists>rest. rt_Communities rt = an_Community (c_cfg c) # rest"
    using call(9) active_okD [OF ok, of parent] by (auto simp: fmget_def zeroSlot_def split: option.splits)
  then have r: "route_ok e c rt"
    using call(1-4,7,8) m by (auto simp: route_ok_def barred_def grounded_def)
  have "has_room e c (rt_Prefix rt) s"
    using room call(1,6) parent by (auto simp: has_room_def moreSpecific_def)
  from wire_step.put [OF r call(5) this] wire_step.failed_announce [OF r] call(1,10) show ?thesis by auto
qed

lemma sync_route_run:
  assumes "Bits (Masked (imp_Prefix im)) \<noteq> 0" and "\<not> ev_Held e (Masked (imp_Prefix im))" and "\<not> ev_Reserved e (Masked (imp_Prefix im))"
    and on: "fmlookup (c_active c) (Masked (imp_Prefix im)) = on"
  shows "wire_run e c (fst (sync_route e im learned on c))"
proof -
  define p where "p = Masked (imp_Prefix im)"
  have a: "wire_run e c (fst (announceLocked e im c))"
    if "\<not> ((an_MoreSpecific (c_cfg c) \<or> an_Synthesize (c_cfg c) \<noteq> None) \<and> on = None \<and>
         usedRoutesLocked e c + 1 + int (length (filter (\<lambda>m. fmlookup (c_active c) m = None) learned)) > an_MaxRoutes (c_cfg c))"
    using that on by (intro announce_run [OF assms(1-3)]) (auto simp: caps_on_def)
  show ?thesis
    unfolding sync_route_def Let_def p_def [symmetric]
    by (simp add: withdraw_if_run a del: de_Morgan_conj)
qed

lemma withdrawLocked_Nil:
  assumes "withdrawLocked e p c = (c1, [])"
  shows "c_active c1 = fmdrop (Masked p) (c_active c)" "c_cfg c1 = c_cfg c"
  using assms by (auto simp: withdrawLocked_def ann_do_eq Let_def fmdrop_fmupd_same split: if_splits bool.splits intro!: fmap_ext)

lemma syncImprovement_run: "wire_run e c (fst (syncImprovementLocked e im learned c))"
proof -
  define p where "p = Masked (imp_Prefix im)"
  have w: "wire_run e c (fst (case withdrawLocked e p c of (c1, []) \<Rightarrow> sync_route e im learned None c1 | (c1, errs) \<Rightarrow> (c1, errs)))"
    if "Bits p \<noteq> 0" "\<not> ev_Held e p" "\<not> ev_Reserved e p"
  proof (cases "withdrawLocked e p c")
    case (Pair c1 errs)
    have r: "wire_run e c c1" using withdraw_run [of e c p] Pair by simp
    show ?thesis
    proof (cases errs)
      case Nil
      then have "fmlookup (c_active c1) p = None" using withdrawLocked_Nil(1) [of e p c c1] Pair by (simp add: p_def)
      then have "wire_run e c1 (fst (sync_route e im learned None c1))"
        using that by (intro sync_route_run) (simp_all add: p_def)
      then show ?thesis using r Pair Nil by simp
    next
      case (Cons er ers)
      then show ?thesis using r Pair by simp
    qed
  qed
  show ?thesis
    unfolding syncImprovementLocked_def Let_def p_def [symmetric]
    using w withdraw_run [of e c p] withdraw_if_run sync_route_run [of im e c, folded p_def]
    by (auto split: option.splits)
qed

lemma best_parent_fold:
  "foldl (\<lambda>best p. if Bits p < Bits m \<and> Contains p (Addr m) \<and> (\<not> IsValid best \<or> Bits p > Bits best) then p else best) b ps = q \<Longrightarrow>
   q = b \<or> q \<in> set ps \<and> Bits q < Bits m \<and> Contains q (Addr m)"
proof (induction ps arbitrary: b)
  case (Cons p ps)
  from Cons.IH [OF Cons.prems [unfolded foldl_Cons]] show ?case by (auto split: if_splits)
qed simp

lemma best_parent_valid:
  "IsValid (best_parent ps m) \<Longrightarrow> best_parent ps m \<in> set ps \<and> Bits (best_parent ps m) < Bits m \<and> Contains (best_parent ps m) (Addr m)"
  using best_parent_fold [OF refl, of m zeroPrefix ps] by (auto simp: best_parent_def)

lemma claimed_facts:
  assumes "m \<in> set (claimed e cfg parents)"
  shows "Masked m = m" "Bits m \<noteq> 0" "\<not> barred e m" "CoveredBy (an_Allowlist cfg) m" "IsValid (best_parent parents m)"
    "best_parent parents m \<in> set parents" "m \<notin> set parents"
proof -
  show 1: "Masked m = m" "\<not> barred e m" "CoveredBy (an_Allowlist cfg) m" and v: "IsValid (best_parent parents m)" "m \<notin> set parents"
    using assms by (auto simp: claimed_def split: if_splits)
  show "Bits m \<noteq> 0" "best_parent parents m \<in> set parents" using best_parent_valid [OF v(1)] v(1) by (auto simp: IsValid_def)
qed

lemma kids_facts:
  assumes "m \<in> set (kids_of e cfg parents p)"
  shows "m \<in> set (claimed e cfg parents)" "best_parent parents m = p"
  using assms by (auto simp: kids_of_def Sort_def)

text \<open>The steps over the more-specifics of one improvement. A step touches only its own prefix.\<close>

lemma ms_visit_simps [simp]: "ms_c (ms_visit m a) = ms_c a" "ms_errs (ms_visit m a) = ms_errs a"
  "ms_visited (ms_visit m a) = m # ms_visited a" "ms_capped (ms_visit m a) = ms_capped a"
  by (simp_all add: ms_visit_def)

lemma ms_withdraw_c [simp]: "ms_c (ms_withdraw e m a) = fst (withdrawLocked e m (ms_c a))"
  by (auto simp: ms_withdraw_def split: prod.splits list.splits)

lemma ms_refresh_c:
  "ms_c (ms_refresh e p par m s a) = ms_c a \<or>
   ms_c (ms_refresh e p par m s a) = fst (announceMoreSpecificLocked e m p (sl_provider par) (ms_c a))"
  by (auto simp: ms_refresh_def split: prod.splits)

lemma withdraw_other: "q \<noteq> Masked m \<Longrightarrow> fmlookup (c_active (fst (withdrawLocked e m c))) q = fmlookup (c_active c) q"
  by (auto simp: withdrawLocked_def ann_do_eq Let_def split: bool.splits)

lemma announceMS_other:
  assumes "Masked m = m" and "q \<noteq> m"
  shows "fmlookup (c_active (fst (announceMoreSpecificLocked e m parent provider c))) q = fmlookup (c_active c) q"
  using assms(1) by (cases rule: announceMS_cases [where e = e and parent = parent and provider = provider and c = c]) (use assms(2) in auto)

lemma ms_refresh_other:
  "Masked m = m \<Longrightarrow> q \<noteq> m \<Longrightarrow> fmlookup (c_active (ms_c (ms_refresh e p par m s a))) q = fmlookup (c_active (ms_c a)) q"
  using ms_refresh_c [of e p par m s a] announceMS_other by auto

lemma ms_mine_other:
  assumes "Masked m = m" "q \<noteq> m"
  shows "fmlookup (c_active (ms_c (ms_mine_step e p par learned owner a m))) q = fmlookup (c_active (ms_c a)) q"
  using assms withdraw_other [of q m e "ms_c a"] ms_refresh_other [OF assms]
  by (auto simp: ms_mine_step_def Let_def split: option.splits)

lemma setActive_note:
  assumes "fmlookup (c_active c) m = Some s" "moreSpecific s" "IsValid (sl_parent s')"
    and "s' = s\<lparr>sl_parent := sl_parent s', sl_seen := sl_seen s', sl_held := sl_held s'\<rparr>"
  shows "wire_run e c (setActiveLocked m s' c)"
  using wire_step.note_seen [OF assms(1-3), where e = e and t = "sl_seen s'" and h = "sl_held s'"] assms(4) by auto

text \<open>Noting a more-specific that is on the wire and announcing it again is a run.\<close>

lemma ms_touch_run:
  assumes ok: "active_ok e c" and lk: "fmlookup (c_active c) m = Some s" "moreSpecific s" and nb: "\<not> barred e m" and p: "IsValid p"
    and s': "s' = s\<lparr>sl_parent := p, sl_seen := t, sl_held := h\<rparr>" and a: "ms_c a = setActiveLocked m s' c"
  shows "wire_run e c (ms_c (ms_refresh e p par m s' a))"
proof -
  have n: "wire_run e c (ms_c a)" unfolding a using lk p s' by (intro setActive_note) auto
  have ok': "active_ok e (ms_c a)" by (rule table.run [OF n ok])
  have m: "Masked m = m" "Bits m \<noteq> 0" using active_okD [OF ok lk(1)] by auto
  have "wire_run e (ms_c a) (fst (announceMoreSpecificLocked e m p (sl_provider par) (ms_c a)))"
    using ok' m nb p by (intro announceMS_run) (auto simp: a)
  with n ms_refresh_c [of e p par m s' a] show ?thesis by (metis rtranclp_trans)
qed

lemma slot_eta [simp]: "s\<lparr>sl_parent := sl_parent s\<rparr> = s"
  by (cases s) simp

lemma ms_mine_run:
  assumes ok: "active_ok e (ms_c a)" and lk: "fmlookup (c_active (ms_c a)) m = Some s" "moreSpecific s" "sl_parent s = p"
  shows "wire_run e (ms_c a) (ms_c (ms_mine_step e p par learned owner a m))"
proof -
  have g: "fmget zeroSlot (c_active (ms_c a)) m = s" using lk(1) by (simp add: fmget_Some)
  have p: "IsValid p" using lk(2,3) by (simp add: moreSpecific_def)
  have t: "wire_run e (ms_c a) (ms_c (ms_refresh e p par m s' (ms_visit m (a\<lparr>ms_c := setActiveLocked m s' (ms_c a)\<rparr>))))"
    if "\<not> barred e m" "s' = s\<lparr>sl_seen := t, sl_held := h\<rparr>" for s' t h
    using that lk by (intro ms_touch_run [OF ok lk(1,2) that(1) p, where t = t and h = h]) auto
  show ?thesis
    unfolding ms_mine_step_def Let_def g
    using withdraw_run [of e "ms_c a" m] t by (auto split: option.splits)
qed

lemma ms_learned_run:
  assumes ok: "active_ok e (ms_c a)" and m: "Masked m = m" "Bits m \<noteq> 0" "\<not> barred e m" and p: "IsValid p"
  shows "wire_run e (ms_c a) (ms_c (ms_learned_step e p par a m))"
proof (cases "fmlookup (c_active (ms_c a)) m")
  case None
  have "wire_run e (ms_c a) (fst (announceMoreSpecificLocked e m p (sl_provider par) (ms_c a)))"
    if "\<not> usedRoutesLocked e (ms_c a) + 1 > an_MaxRoutes (c_cfg (ms_c a))"
    using that m p by (intro announceMS_run [OF ok]) auto
  then show ?thesis using None by (auto simp: ms_learned_step_def Let_def split: prod.splits list.splits)
next
  case (Some s)
  have "wire_run e (ms_c a) (ms_c (ms_refresh e p par m s' (ms_visit m (a\<lparr>ms_c := setActiveLocked m s' (ms_c a)\<rparr>))))"
    if "moreSpecific s" "s' = s\<lparr>sl_parent := p, sl_seen := 0, sl_held := False\<rparr>" for s'
    using that by (intro ms_touch_run [OF ok Some that(1) m(3) p that(2)]) simp
  then show ?thesis using Some by (auto simp: ms_learned_step_def Let_def)
qed

lemma ms_mine_fold_run:
  assumes "active_ok e (ms_c a)" and "distinct ms"
    and "\<forall>m \<in> set ms. \<exists>s. fmlookup (c_active (ms_c a)) m = Some s \<and> moreSpecific s \<and> sl_parent s = p"
  shows "wire_run e (ms_c a) (ms_c (foldl (ms_mine_step e p par learned owner) a ms))"
  using assms
proof (induction ms arbitrary: a)
  case (Cons m ms)
  let ?a = "ms_mine_step e p par learned owner a m"
  from Cons.prems(3) obtain s where s: "fmlookup (c_active (ms_c a)) m = Some s" "moreSpecific s" "sl_parent s = p" by auto
  have r: "wire_run e (ms_c a) (ms_c ?a)" by (rule ms_mine_run [OF Cons.prems(1) s])
  have "Masked m = m" using active_okD [OF Cons.prems(1) s(1)] by simp
  then have "\<forall>q \<in> set ms. fmlookup (c_active (ms_c ?a)) q = fmlookup (c_active (ms_c a)) q"
    using Cons.prems(2) by (auto intro: ms_mine_other)
  then have "wire_run e (ms_c ?a) (ms_c (foldl (ms_mine_step e p par learned owner) ?a ms))"
    using Cons.prems by (intro Cons.IH table.run [OF r]) auto
  with r show ?case by simp
qed simp

lemma ms_learned_fold_run:
  assumes "active_ok e (ms_c a)" and "\<forall>m \<in> set ms. Masked m = m \<and> Bits m \<noteq> 0 \<and> \<not> barred e m" and "IsValid p"
  shows "wire_run e (ms_c a) (ms_c (foldl (ms_learned_step e p par) a ms))"
  using assms
proof (induction ms arbitrary: a)
  case (Cons m ms)
  have r: "wire_run e (ms_c a) (ms_c (ms_learned_step e p par a m))" using Cons.prems by (intro ms_learned_run) auto
  have "wire_run e (ms_c (ms_learned_step e p par a m)) (ms_c (foldl (ms_learned_step e p par) (ms_learned_step e p par a m) ms))"
    using Cons.prems by (intro Cons.IH table.run [OF r]) auto
  with r show ?case by simp
qed simp

lemma mine_of_facts:
  "distinct (mine_of c p)"
  "m \<in> set (mine_of c p) \<Longrightarrow> \<exists>s. fmlookup (c_active c) m = Some s \<and> moreSpecific s \<and> sl_parent s = p"
  by (auto simp: mine_of_def Let_def fmdom'_iff fmget_def)

lemma syncMoreSpecifics_run:
  assumes "active_ok e c" and "\<forall>m \<in> set learned. Masked m = m \<and> Bits m \<noteq> 0 \<and> \<not> barred e m" and "IsValid p"
  shows "wire_run e c (fst (syncMoreSpecificsLocked e p learned owner visited c))"
proof -
  define a0 where "a0 = \<lparr>ms_c = c, ms_visited = visited, ms_errs = [], ms_capped = 0\<rparr>"
  define par where "par = fmget zeroSlot (c_active c) p"
  define a1 where "a1 = foldl (ms_mine_step e p par learned owner) a0 (mine_of c p)"
  have r1: "wire_run e c (ms_c a1)"
    using ms_mine_fold_run [of e a0 "mine_of c p" p par learned owner] assms(1) mine_of_facts by (simp add: a0_def a1_def)
  have "wire_run e (ms_c a1) (ms_c (foldl (ms_learned_step e p par) a1 learned))"
    by (intro ms_learned_fold_run table.run [OF r1] assms)
  with r1 show ?thesis
    by (simp add: syncMoreSpecificsLocked_def Let_def a0_def [symmetric] par_def [symmetric] a1_def [symmetric])
qed

lemma withdraw_fold_run: "wire_run e (fst acc) (fst (foldl (withdraw_step e) acc ps))"
proof (induction ps arbitrary: acc)
  case (Cons p ps)
  have "wire_run e (fst acc) (fst (withdraw_step e acc p))"
    using withdraw_run [of e "fst acc" p] by (simp add: withdraw_step_def case_prod_beta)
  with Cons.IH [of "withdraw_step e acc p"] show ?case by simp
qed simp

lemma sync_step_run:
  assumes "active_ok e (sa_c a)"
  shows "wire_run e (sa_c a) (sa_c (sync_step e want a p))"
proof -
  define cfg where "cfg = c_cfg (sa_c a)"
  define kids where "kids = (if an_MoreSpecific cfg then kids_of e cfg (SortedKeys want) p else [])"
  define r1 where "r1 = (case fmlookup want p of None \<Rightarrow> (sa_c a, []) | Some im \<Rightarrow> syncImprovementLocked e im kids (sa_c a))"
  have r: "wire_run e (sa_c a) (fst r1)" by (auto simp: r1_def syncImprovement_run split: option.splits)
  have ok: "active_ok e (fst r1)" by (rule table.run [OF r assms])
  have k: "\<forall>m \<in> set kids. Masked m = m \<and> Bits m \<noteq> 0 \<and> \<not> barred e m"
    by (simp add: kids_def) (metis claimed_facts(1-3) kids_facts(1))
  have unf: "sync_step e want a p =
      (let a1 = a\<lparr>sa_c := fst r1, sa_errs := sa_errs a @ snd r1\<rparr> in
       case fmlookup (c_active (fst r1)) p of None \<Rightarrow> a1 | Some s \<Rightarrow>
         if an_MoreSpecific cfg \<and> \<not> moreSpecific s
         then (case syncMoreSpecificsLocked e p kids (owner_of e cfg (SortedKeys want)) (sa_visited a) (fst r1) of
                 (c2, visited, errs2) \<Rightarrow> a1\<lparr>sa_c := c2, sa_visited := visited, sa_errs := sa_errs a1 @ errs2\<rparr>)
         else a1)"
    unfolding sync_step_def Let_def cfg_def [symmetric] kids_def [symmetric] r1_def [symmetric] by (simp add: case_prod_beta)
  show ?thesis
  proof (cases "\<exists>s. fmlookup (c_active (fst r1)) p = Some s \<and> an_MoreSpecific cfg \<and> \<not> moreSpecific s")
    case True
    then have "IsValid p" using active_okD [OF ok] by (force simp: IsValid_def)
    from syncMoreSpecifics_run [OF ok k this, of "owner_of e cfg (SortedKeys want)" "sa_visited a"] r True show ?thesis
      by (auto simp: unf Let_def case_prod_beta)
  next
    case False
    then have "sa_c (sync_step e want a p) = fst r1"
      by (auto simp: unf Let_def split: option.splits)
    then show ?thesis using r by simp
  qed
qed

lemma sync_fold_run:
  "active_ok e (sa_c a) \<Longrightarrow> wire_run e (sa_c a) (sa_c (foldl (sync_step e want) a ps))"
proof (induction ps arbitrary: a)
  case (Cons p ps)
  have r: "wire_run e (sa_c a) (sa_c (sync_step e want a p))" by (rule sync_step_run [OF Cons.prems])
  from Cons.IH [OF table.run [OF r Cons.prems]] r show ?case by simp
qed simp

lemma sync_wanted_run:
  assumes "active_ok e c"
  shows "wire_run e c (fst (sync_wanted e want c))"
proof -
  define w where "w = foldl (withdraw_step e) (c, []) (filter (unwanted want c) (ev_order e 0 (SortedKeys (c_active c))))"
  define a where "a = foldl (sync_step e want) \<lparr>sa_c = fst w, sa_visited = [], sa_errs = snd w\<rparr> (SortedKeys want)"
  have r1: "wire_run e c (fst w)" using withdraw_fold_run [of e "(c, [])"] by (simp add: w_def)
  have r2: "wire_run e (fst w) (sa_c a)"
    using sync_fold_run [of e "\<lparr>sa_c = fst w, sa_visited = [], sa_errs = snd w\<rparr>"] table.run [OF r1 assms] by (simp add: a_def)
  have r3: "wire_run e (sa_c a) (fst (foldl (withdraw_step e) (sa_c a, sa_errs a) ps))" for ps
    using withdraw_fold_run [of e "(sa_c a, sa_errs a)"] by simp
  from r1 r2 r3 show ?thesis
    by (auto simp: sync_wanted_def Let_def w_def [symmetric] a_def [symmetric] case_prod_beta intro: rtranclp_trans)
qed

text \<open>The counters \<open>store\<close> publishes are not part of a step.\<close>

lemma store_simps [simp]:
  "c_cfg (store c) = c_cfg c" "c_active (store c) = c_active c" "c_improvements (store c) = c_improvements c" "c_log (store c) = c_log c"
  "c_rib (store c) = c_rib c" "c_ann (store c) = c_ann c" "c_onWire (store c) = c_improvements c" "c_routes (store c) = int (fmlen (c_active c))"
  by (simp_all add: store_def)

lemma Sync_run:
  assumes "active_ok e c"
  obtains c' where "wire_run e c c'" "fst (Sync e imps c) = store c'"
proof
  let ?c = "fst (if an_Mode (c_cfg c) \<noteq> ModeInject then (c, [])
         else if \<not> ev_Leader e then (if fmlen (c_active c) = 0 then (c, []) else withdrawAllLocked e c)
         else if \<not> ev_Ready e then withdrawAllLocked e c
         else sync_wanted e (want_of imps) c)"
  show "wire_run e c ?c" by (simp add: withdrawAll_run sync_wanted_run [OF assms])
  show "fst (Sync e imps c) = store ?c" by (simp add: Sync_def Let_def case_prod_beta)
qed

lemma WithdrawPrefix_run:
  obtains c' where "wire_run e c c'" "fst (WithdrawPrefix e p c) = store c'"
  using withdraw_fold_run [of e "(c, [])"] by (fastforce simp: WithdrawPrefix_def Let_def case_prod_beta)

end
