(* ===== verification/Announce_Spec.thy ===== *)
theory Announce_Spec
  imports Announce_Run
begin

text \<open>
  What the announce controller guarantees: the table is what the announcer was told, the counters count it,
  every announcement respects the allowlist, the holds and the caps, and a synchronisation without an
  error leaves exactly the wanted improvements on the wire.
\<close>

section \<open>The counters\<close>

definition improvement_set :: "(prefix, slot) fmap \<Rightarrow> prefix set" where
  "improvement_set m = {p. counted m p = 1}"

lemma counted_01: "counted m p = 0 \<or> counted m p = 1"
  by (auto simp: counted_def split: option.splits)

lemma finite_improvement_set [simp]: "finite (improvement_set m)"
  by (rule finite_subset [of _ "fmdom' m"]) (auto simp: improvement_set_def counted_def fmdom'_iff split: option.splits)

lemma improvement_set_upd:
  "improvement_set (fmupd p s m) = (if moreSpecific s then improvement_set m - {p} else insert p (improvement_set m))"
  by (auto simp: improvement_set_def counted_def)

lemma improvement_set_drop: "improvement_set (fmdrop p m) = improvement_set m - {p}"
  by (auto simp: improvement_set_def counted_def)

lemma card_improvement_drop: "int (card (improvement_set m - {p})) = int (card (improvement_set m)) - counted m p"
proof (cases "p \<in> improvement_set m")
  case True
  then have "0 < card (improvement_set m)" by (auto simp: card_gt_0_iff)
  then show ?thesis using True by (simp add: card_Diff_singleton improvement_set_def of_nat_diff)
next
  case False
  then have "counted m p = 0" using counted_01 [of m p] by (simp add: improvement_set_def)
  then show ?thesis using False by simp
qed

definition count_ok :: "env \<Rightarrow> Controller \<Rightarrow> bool" where
  "count_ok e c \<longleftrightarrow> c_improvements c = int (card (improvement_set (c_active c)))"

lemma count_set:
  "c_improvements c = int (card (improvement_set (c_active c))) \<Longrightarrow>
   c_improvements (setActiveLocked p s c) = int (card (improvement_set (fmupd p s (c_active c))))"
proof -
  assume c: "c_improvements c = int (card (improvement_set (c_active c)))"
  have "insert p (improvement_set (c_active c)) = insert p (improvement_set (c_active c) - {p})" by auto
  then have "int (card (insert p (improvement_set (c_active c)))) = int (card (improvement_set (c_active c) - {p})) + 1"
    by (metis (no_types, lifting) Diff_iff card_insert_disjoint finite_Diff finite_improvement_set of_nat_Suc singletonI add.commute)
  then show ?thesis by (simp add: setActiveLocked_def c improvement_set_upd card_improvement_drop)
qed

lemma count_drop:
  "c_improvements c = int (card (improvement_set (c_active c))) \<Longrightarrow>
   c_improvements (dropActiveLocked p c) = int (card (improvement_set (fmdrop p (c_active c))))"
  by (simp add: dropActiveLocked_def improvement_set_drop card_improvement_drop)

interpretation counters: wire_invariant count_ok
proof
  fix e c c'
  assume ok: "count_ok e c" and "wire_step e c c'"
  from this(2) show "count_ok e c'"
  proof cases
    case (put rt s)
    then show ?thesis using ok count_set [of "logged (Announce rt) True c"] by (simp add: count_ok_def)
  next
    case (withdraw p)
    then show ?thesis using ok count_drop [of "logged (Withdraw p) True c"] by (simp add: count_ok_def)
  next
    case (note_seen m s q h t)
    then show ?thesis using ok count_set [of c] by (simp add: count_ok_def)
  next
    case withdraw_all
    then show ?thesis by (simp add: count_ok_def improvement_set_def counted_def)
  qed (use ok in \<open>simp_all add: count_ok_def\<close>)
qed

section \<open>The wire\<close>

text \<open>What the announcer was told, from the calls that succeeded.\<close>

type_synonym wire_route = "string \<times> 32 word \<times> string list \<times> 32 word list"

definition route_view :: "Route \<Rightarrow> wire_route" where
  "route_view rt = (rt_Provider rt, rt_LocalPref rt, rt_Communities rt, rt_ASPath rt)"

definition slot_view :: "slot \<Rightarrow> wire_route" where
  "slot_view s = (sl_provider s, sl_localPref s, sl_communities s, sl_asPath s)"

fun wire_do :: "(prefix \<rightharpoonup> wire_route) \<Rightarrow> ann_call \<times> bool \<Rightarrow> (prefix \<rightharpoonup> wire_route)" where
  "wire_do w (Announce rt, True) = w(rt_Prefix rt \<mapsto> route_view rt)"
| "wire_do w (Withdraw p, True) = w(p := None)"
| "wire_do w (AnnWithdrawAll, True) = Map.empty"
| "wire_do w (AnnSetRouters _, True) = Map.empty"
| "wire_do w _ = w"

definition wire :: "(ann_call \<times> bool) list \<Rightarrow> (prefix \<rightharpoonup> wire_route)" where
  "wire calls = foldl wire_do Map.empty calls"

definition table_view :: "Controller \<Rightarrow> (prefix \<rightharpoonup> wire_route)" where
  "table_view c p = map_option slot_view (fmlookup (c_active c) p)"

definition wire_ok :: "env \<Rightarrow> Controller \<Rightarrow> bool" where
  "wire_ok e c \<longleftrightarrow> wire (c_log c) = table_view c"

lemma wire_snoc: "wire (calls @ [x]) = wire_do (wire calls) x"
  by (simp add: wire_def)

interpretation on_wire: wire_invariant wire_ok
proof
  fix e c c'
  assume ok: "wire_ok e c" and "wire_step e c c'"
  from this(2) show "wire_ok e c'"
    using ok by cases (auto simp: wire_ok_def wire_snoc table_view_def fun_eq_iff slot_of_def slot_view_def route_view_def)
qed

section \<open>Caps\<close>

definition caps_ok :: "int \<Rightarrow> int \<Rightarrow> env \<Rightarrow> Controller \<Rightarrow> bool" where
  "caps_ok imps routes e c \<longleftrightarrow> count_ok e c \<and>
     c_improvements c \<le> max imps (an_MaxImprovements (c_cfg c) - ev_Others e) \<and>
     (caps_on (c_cfg c) \<longrightarrow> int (fmlen (c_active c)) \<le> max routes (an_MaxRoutes (c_cfg c) - ev_Others e))"

lemma fmlen_upd_None: "fmlookup m p = None \<Longrightarrow> fmlen (fmupd p s m) = Suc (fmlen m)"
  by (simp add: fmlen_def fmdom'_iff)

lemma fmlen_upd_Some: "fmlookup m p \<noteq> None \<Longrightarrow> fmlen (fmupd p s m) = fmlen m"
  by (rule fmlen_upd_present) (auto simp: fmdom'_iff)

lemma caps_set:
  assumes "caps_ok i r e c" and "has_room e c p s"
  shows "caps_ok i r e (setActiveLocked p s (logged x ok c))"
proof -
  have "count_ok e (setActiveLocked p s (logged x ok c))"
    using assms(1) count_set [of "logged x ok c"] by (simp add: caps_ok_def count_ok_def)
  moreover have "c_improvements (setActiveLocked p s (logged x ok c)) \<le> max i (an_MaxImprovements (c_cfg c) - ev_Others e)"
    using assms counted_01 [of "c_active c" p] by (auto simp: setActiveLocked_def caps_ok_def has_room_def)
  moreover have "int (fmlen (fmupd p s (c_active c))) \<le> max r (an_MaxRoutes (c_cfg c) - ev_Others e)" if "caps_on (c_cfg c)"
    using that assms by (cases "fmlookup (c_active c) p = None")
      (auto simp: caps_ok_def has_room_def usedRoutesLocked_def fmlen_upd_None fmlen_upd_Some)
  ultimately show ?thesis by (simp add: caps_ok_def)
qed

lemma has_room_note: "fmlookup (c_active c) m = Some s \<Longrightarrow> moreSpecific s' \<Longrightarrow> has_room e c m s'"
  by (simp add: has_room_def)

lemma caps_ok_logged: "caps_ok i r e c \<Longrightarrow> caps_ok i r e (logged x ok c)"
  by (simp add: caps_ok_def count_ok_def)

lemma caps_ok_smaller:
  assumes "caps_ok i r e c" "count_ok e c'" "c_cfg c' = c_cfg c" "c_improvements c' \<le> c_improvements c" "fmlen (c_active c') \<le> fmlen (c_active c)"
  shows "caps_ok i r e c'"
  using assms by (auto simp: caps_ok_def)

lemma caps_step: "caps_ok i r e c \<Longrightarrow> wire_step e c c' \<Longrightarrow> caps_ok i r e c'"
proof -
  assume ok: "caps_ok i r e c" and st: "wire_step e c c'"
  have cnt: "count_ok e c'" using counters.step [OF _ st] ok by (simp add: caps_ok_def)
  from st show ?thesis
  proof cases
    case (put rt s)
    then show ?thesis using caps_set [OF ok put(4)] by simp
  next
    case (note_seen m s q h t)
    have "caps_ok i r e (setActiveLocked m (s\<lparr>sl_parent := q, sl_seen := t, sl_held := h\<rparr>) (logged AnnWithdrawAll False c))"
      using note_seen by (intro caps_set [OF ok] has_room_note) (auto simp: moreSpecific_def)
    then show ?thesis using cnt by (simp add: note_seen(1) caps_ok_def setActiveLocked_def)
  next
    case (withdraw p)
    then show ?thesis using counted_01 [of "c_active c" p] cnt fmlen_drop_le [of p "c_active c"]
      by (intro caps_ok_smaller [OF ok]) (auto simp: dropActiveLocked_def)
  next
    case withdraw_all
    then show ?thesis using ok cnt
      by (intro caps_ok_smaller [OF ok]) (auto simp: caps_ok_def count_ok_def)
  qed (use ok caps_ok_logged in simp_all)
qed

interpretation caps: wire_invariant "caps_ok i r" for i r
  by unfold_locales (rule caps_step)

section \<open>Announcements\<close>

text \<open>The rails of a synthesized sub-range that do not depend on the table.\<close>

definition rails :: "env \<Rightarrow> annConfig \<Rightarrow> prefix \<Rightarrow> prefix \<Rightarrow> bool" where
  "rails e cfg p cover \<longleftrightarrow>
     (\<exists>sy. an_Synthesize cfg = Some sy \<and> CoveredBy (sy_Covering sy) cover \<and>
        Bits cover < Bits p \<and> Contains cover (Addr p) \<and> Bits p - Bits cover \<le> sy_MaxBits sy \<and>
        Bits p \<le> (if Is6 (Addr p) then sy_MaxLenV6 sy else sy_MaxLenV4 sy) \<and>
        (\<forall>m \<in> set (ev_MoreSpecifics e [cover]). \<not> Overlaps (Masked m) p))"

lemma synthRefusal_rails: "synthRefusal e c p cover provider = None \<Longrightarrow> rails e (c_cfg c) p cover"
  by (auto simp: synthRefusal_def rails_def Let_def list_ex_iff not_less split: option.splits if_splits)

definition safe_prefix :: "env \<Rightarrow> annConfig \<Rightarrow> prefix set \<Rightarrow> prefix \<Rightarrow> bool" where
  "safe_prefix e cfg before p \<longleftrightarrow> p \<in> before \<or> ev_Contains e p \<or> (\<exists>cover. rails e cfg p cover \<and> ev_Contains e cover)"

definition safe_route :: "env \<Rightarrow> annConfig \<Rightarrow> prefix set \<Rightarrow> Route \<Rightarrow> bool" where
  "safe_route e cfg before rt \<longleftrightarrow>
     0 < Bits (rt_Prefix rt) \<and> CoveredBy (an_Allowlist cfg) (rt_Prefix rt) \<and> \<not> ev_Held e (rt_Prefix rt) \<and> \<not> ev_Reserved e (rt_Prefix rt) \<and>
     next_hop cfg (rt_Provider rt) = Some (rt_NextHop rt) \<and> an_Community cfg \<in> set (rt_Communities rt) \<and>
     safe_prefix e cfg before (rt_Prefix rt)"

definition safe_calls :: "annConfig \<Rightarrow> prefix set \<Rightarrow> (ann_call \<times> bool) list \<Rightarrow> env \<Rightarrow> Controller \<Rightarrow> bool" where
  "safe_calls cfg before calls e c \<longleftrightarrow> c_cfg c = cfg \<and> (\<forall>p \<in> fmdom' (c_active c). safe_prefix e cfg before p) \<and>
     (\<exists>new. c_log c = calls @ new \<and> (\<forall>rt ok. (Announce rt, ok) \<in> set new \<longrightarrow> safe_route e cfg before rt))"

lemma route_ok_safe:
  assumes "route_ok e c rt" and "c_cfg c = cfg" and "\<forall>p \<in> fmdom' (c_active c). safe_prefix e cfg before p"
  shows "safe_route e cfg before rt"
proof -
  have "safe_prefix e cfg before (rt_Prefix rt)"
    using assms synthRefusal_rails by (fastforce simp: route_ok_def grounded_def safe_prefix_def fmdom'_iff)
  then show ?thesis
    using assms(1,2) CoveredBy_valid [of "an_Allowlist cfg" "rt_Prefix rt"] by (auto simp: safe_route_def route_ok_def IsValid_def)
qed

interpretation announced: wire_invariant "safe_calls cfg before calls" for cfg before calls
proof
  fix e c c'
  assume ok: "safe_calls cfg before calls e c" and st: "wire_step e c c'"
  have sr: "safe_route e cfg before rt" if "route_ok e c rt" for rt
    using route_ok_safe [OF that] ok by (auto simp: safe_calls_def)
  from st show "safe_calls cfg before calls e c'"
  proof cases
    case (put rt s)
    have "safe_prefix e cfg before (rt_Prefix rt)" using sr [OF put(2)] by (simp add: safe_route_def)
    then show ?thesis using put(1) ok sr [OF put(2)] by (auto simp: safe_calls_def) blast
  next
    case (failed_announce rt)
    then show ?thesis using ok sr [OF failed_announce(2)] by (auto simp: safe_calls_def) blast
  next
    case (note_seen m s q h t)
    then show ?thesis using ok by (auto simp: safe_calls_def fmdom'_iff)
  next
    case (withdraw p)
    then show ?thesis using ok by (auto simp: safe_calls_def fmdom'_iff)
  next
    case withdraw_all
    then show ?thesis using ok by (auto simp: safe_calls_def fmdom'_iff)
  qed (use ok in \<open>auto simp: safe_calls_def\<close>)
qed

section \<open>Sequences of operations\<close>

datatype ann_op =
    OpSync env "Improvement list" | OpWithdrawPrefix env prefix | OpWithdrawAll env | OpBind env bool | OpRemember bool
  | OpPrepare env string int | OpApply env string "prefix list" int | OpSetRouters env "RouterExport list"

fun apply_ann_op :: "ann_op \<Rightarrow> Controller \<Rightarrow> Controller" where
  "apply_ann_op (OpSync e imps) c = fst (Sync e imps c)"
| "apply_ann_op (OpWithdrawPrefix e p) c = fst (WithdrawPrefix e p c)"
| "apply_ann_op (OpWithdrawAll e) c = fst (WithdrawAll e c)"
| "apply_ann_op (OpBind e srv) c = fst (Bind e srv c)"
| "apply_ann_op (OpRemember srv) c = RememberSpeaker srv c"
| "apply_ann_op (OpPrepare e mode mx) c = fst (PrepareRuntime e mode mx c)"
| "apply_ann_op (OpApply e mode allow mx) c = fst (ApplyRuntime e mode allow mx c)"
| "apply_ann_op (OpSetRouters e routers) c = fst (SetRouters e routers c)"

definition run_ann_ops :: "ann_op list \<Rightarrow> Controller \<Rightarrow> Controller" where
  "run_ann_ops ops c = foldl (\<lambda>c op. apply_ann_op op c) c ops"

text \<open>
  The invariant. When a replacement of the per-router table has failed, the announcer makes no promise about
  the wire any more, so the table is compared with it only while none has.
\<close>

definition no_failed_reload :: "(ann_call \<times> bool) list \<Rightarrow> bool" where
  "no_failed_reload calls \<longleftrightarrow> list_all (\<lambda>x. case x of (AnnSetRouters _, False) \<Rightarrow> False | _ \<Rightarrow> True) calls"

lemma no_failed_reload_iff: "no_failed_reload calls \<longleftrightarrow> (\<forall>rs. (AnnSetRouters rs, False) \<notin> set calls)"
  by (auto simp: no_failed_reload_def list_all_iff split: ann_call.splits bool.splits)

definition table_ok :: "Controller \<Rightarrow> bool" where
  "table_ok c \<longleftrightarrow>
     (\<forall>p s. fmlookup (c_active c) p = Some s \<longrightarrow> Masked p = p \<and> 0 < Bits p \<and> (\<exists>rest. sl_communities s = an_Community (c_cfg c) # rest)) \<and>
     c_improvements c = int (card (improvement_set (c_active c))) \<and>
     (no_failed_reload (c_log c) \<longrightarrow> wire (c_log c) = table_view c)"

definition mode_ok :: "Controller \<Rightarrow> bool" where
  "mode_ok c \<longleftrightarrow> (if an_Mode (c_cfg c) = ModeInject then CommunityText (an_Community (c_cfg c)) = Inr (an_Community (c_cfg c))
     else c_active c = fmempty)"

definition stored_ok :: "Controller \<Rightarrow> bool" where
  "stored_ok c \<longleftrightarrow> c_onWire c = c_improvements c \<and> c_routes c = int (fmlen (c_active c))"

definition ctl_ok :: "Controller \<Rightarrow> bool" where
  "ctl_ok c \<longleftrightarrow> table_ok c \<and> mode_ok c \<and> stored_ok c"

lemma run_log:
  assumes "wire_run e c c'"
  obtains new where "c_log c' = c_log c @ new" "\<forall>rs ok. (AnnSetRouters rs, ok) \<notin> set new"
proof -
  have "\<exists>new. c_log c' = c_log c @ new \<and> (\<forall>rs ok. (AnnSetRouters rs, ok) \<notin> set new)"
    using assms
  proof (induction rule: rtranclp_induct)
    case base
    then show ?case by (auto intro: exI [of _ "[]"])
  next
    case (step c1 c2)
    from step.IH obtain new where new: "c_log c1 = c_log c @ new" "\<forall>rs ok. (AnnSetRouters rs, ok) \<notin> set new" by blast
    from step.hyps(2) show ?case
      by cases (use new in \<open>auto intro: exI [of _ new] exI [of _ "new @ [x]" for x]\<close>)
  qed
  then show thesis using that by blast
qed

lemma table_ok_run:
  assumes "table_ok c" and r: "wire_run e c c'"
  shows "table_ok c'"
proof -
  have "active_ok e c'" by (rule table.run [OF r]) (use assms in \<open>simp add: table_ok_def active_ok_def\<close>)
  moreover have "count_ok e c'" by (rule counters.run [OF r]) (use assms in \<open>simp add: table_ok_def count_ok_def\<close>)
  moreover have "wire_ok e c'" if nf: "no_failed_reload (c_log c')"
  proof (rule on_wire.run [OF r])
    from r obtain new where "c_log c' = c_log c @ new" by (rule run_log)
    then have "no_failed_reload (c_log c)" using nf by (auto simp: no_failed_reload_iff)
    then show "wire_ok e c" using assms(1) by (simp add: table_ok_def wire_ok_def)
  qed
  ultimately show ?thesis by (simp add: table_ok_def active_ok_def count_ok_def wire_ok_def)
qed

lemma table_view_cfg [simp]: "table_view (c\<lparr>c_cfg := cfg\<rparr>) = table_view c"
  by (simp add: table_view_def fun_eq_iff)

lemma table_ok_store [simp]: "table_ok (store c) = table_ok c"
  by (simp add: table_ok_def table_view_def [abs_def])

lemma stored_ok_store [simp]: "stored_ok (store c)"
  by (simp add: stored_ok_def)

text \<open>After a run under inject mode the stored controller satisfies the invariant.\<close>

lemma ctl_ok_run:
  assumes "ctl_ok c" and "an_Mode (c_cfg c) = ModeInject" and "wire_run e c c'"
  shows "ctl_ok (store c')"
  using assms table_ok_run [of c e c'] run_cfg [OF assms(3)] by (simp add: ctl_ok_def mode_ok_def)

lemma ctl_ok_store: "ctl_ok c \<Longrightarrow> ctl_ok (store c)"
  by (simp add: ctl_ok_def mode_ok_def)

lemma table_ok_active: "table_ok c \<Longrightarrow> active_ok e c"
  by (simp add: table_ok_def active_ok_def)

lemma ctl_ok_Sync: "ctl_ok c \<Longrightarrow> ctl_ok (fst (Sync e imps c))"
proof (cases "an_Mode (c_cfg c) = ModeInject")
  case True
  assume c: "ctl_ok c"
  then have "active_ok e c" by (simp add: ctl_ok_def table_ok_active)
  then obtain c' where "wire_run e c c'" "fst (Sync e imps c) = store c'" by (rule Sync_run)
  then show ?thesis using ctl_ok_run [OF c True] by simp
next
  case False
  assume "ctl_ok c"
  then show ?thesis using False by (simp add: Sync_def ctl_ok_store)
qed

lemma wire_run_empty:
  "c_active c = fmempty \<Longrightarrow> withdrawLocked e p c = (c, [])"
  by (simp add: withdrawLocked_def Let_def)

lemma withdraw_fold_empty: "c_active c = fmempty \<Longrightarrow> foldl (withdraw_step e) (c, []) ps = (c, [])"
  by (induction ps) (simp_all add: withdraw_step_def wire_run_empty)

lemma ctl_ok_WithdrawPrefix: "ctl_ok c \<Longrightarrow> ctl_ok (fst (WithdrawPrefix e p c))"
proof (cases "an_Mode (c_cfg c) = ModeInject")
  case True
  assume c: "ctl_ok c"
  obtain c' where "wire_run e c c'" "fst (WithdrawPrefix e p c) = store c'" by (rule WithdrawPrefix_run)
  then show ?thesis using ctl_ok_run [OF c True] by simp
next
  case False
  assume "ctl_ok c"
  then show ?thesis using False
    by (simp add: WithdrawPrefix_def Let_def withdraw_fold_empty ctl_ok_def mode_ok_def)
qed

lemma ctl_ok_WithdrawAll: "ctl_ok c \<Longrightarrow> ctl_ok (fst (WithdrawAll e c))"
  using ctl_ok_run [OF _ _ withdrawAll_run, of c e] by (auto simp: WithdrawAll_def Let_def case_prod_beta ctl_ok_store)

text \<open>Calls that leave the table and the configuration of a route alone.\<close>

lemma ctl_ok_quiet:
  assumes "ctl_ok c" and "c_cfg c' = c_cfg c" "c_active c' = c_active c" "c_improvements c' = c_improvements c"
    "c_onWire c' = c_onWire c" "c_routes c' = c_routes c" "wire (c_log c') = wire (c_log c)"
    "no_failed_reload (c_log c') \<Longrightarrow> no_failed_reload (c_log c)"
  shows "ctl_ok c'"
  using assms by (auto simp: ctl_ok_def table_ok_def mode_ok_def stored_ok_def table_view_def fun_eq_iff)

lemma bindLocked_quiet:
  "c_cfg (fst (bindLocked e c)) = c_cfg c \<and> c_active (fst (bindLocked e c)) = c_active c \<and>
   c_improvements (fst (bindLocked e c)) = c_improvements c \<and> c_onWire (fst (bindLocked e c)) = c_onWire c \<and>
   c_routes (fst (bindLocked e c)) = c_routes c \<and> wire (c_log (fst (bindLocked e c))) = wire (c_log c) \<and>
   (no_failed_reload (c_log (fst (bindLocked e c))) \<longrightarrow> no_failed_reload (c_log c))"
  by (auto simp: bindLocked_def ann_do_def Let_def wire_snoc no_failed_reload_iff split: option.splits bool.splits)

lemma ctl_ok_bindLocked: "ctl_ok c \<Longrightarrow> ctl_ok (fst (bindLocked e c))"
  using bindLocked_quiet [of e c] by (auto intro: ctl_ok_quiet)

lemma ctl_ok_srv: "ctl_ok c \<Longrightarrow> ctl_ok (c\<lparr>c_srv := b\<rparr>)"
  by (auto intro: ctl_ok_quiet)

lemma ctl_ok_Bind: "ctl_ok c \<Longrightarrow> ctl_ok (fst (Bind e srv c))"
  by (auto simp: Bind_def Let_def ctl_ok_bindLocked ctl_ok_srv)

text \<open>The settings inject mode was validated with, as \<open>enterInjectLocked\<close> keeps them.\<close>

lemma validateInject_community:
  "validateInject cfg ann rib = Inr checked \<Longrightarrow>
   CommunityText (an_Community cfg) = Inr (an_Community checked)"
  by (auto simp: validateInject_def Let_def split: option.splits if_splits sum.splits)

lemma ctl_ok_cfg:
  assumes "ctl_ok c" and "c_active c = fmempty \<or> an_Community cfg = an_Community (c_cfg c)"
    and "an_Mode cfg = ModeInject \<Longrightarrow> CommunityText (an_Community cfg) = Inr (an_Community cfg)"
    and "an_Mode cfg \<noteq> ModeInject \<Longrightarrow> c_active c = fmempty"
  shows "ctl_ok (c\<lparr>c_cfg := cfg\<rparr>)"
  using assms by (auto simp: ctl_ok_def table_ok_def mode_ok_def stored_ok_def table_view_def fun_eq_iff)

lemma enterInject_ok:
  assumes c: "ctl_ok c"
  shows "ctl_ok (fst (enterInjectLocked e mx c))"
    and "snd (enterInjectLocked e mx c) = None \<Longrightarrow> an_Mode (c_cfg c) \<noteq> ModeInject \<Longrightarrow>
      CommunityText (an_Community (c_cfg (fst (enterInjectLocked e mx c)))) = Inr (an_Community (c_cfg (fst (enterInjectLocked e mx c))))"
    and "c_active (fst (enterInjectLocked e mx c)) = c_active c"
    and "an_Mode (c_cfg (fst (enterInjectLocked e mx c))) = an_Mode (c_cfg c)"
proof -
  define chk where "chk = validateInject ((c_cfg c)\<lparr>an_Mode := ModeInject, an_MaxImprovements := mx\<rparr>) (c_ann c) (c_rib c)"
  define cf where "cf checked = (c_cfg c)\<lparr>an_Community := an_Community checked, an_Synthesize := an_Synthesize checked,
     an_CauseCommunities := an_CauseCommunities checked, an_ProviderCommunities := an_ProviderCommunities checked\<rparr>" for checked :: annConfig
  have enter: "enterInjectLocked e mx c =
      (if an_Mode (c_cfg c) = ModeInject \<and> c_bound c then (c, None)
       else case chk of Inl err \<Rightarrow> (c, Some err) | Inr checked \<Rightarrow> bindLocked e (c\<lparr>c_cfg := cf checked\<rparr>))"
    unfolding enterInjectLocked_def chk_def cf_def by simp
  have comm: "CommunityText (an_Community (c_cfg c)) = Inr (an_Community checked)" if "chk = Inr checked" for checked
    using validateInject_community [OF that [unfolded chk_def]] by simp
  have idem: "CommunityText (an_Community checked) = Inr (an_Community checked)" if "chk = Inr checked" for checked
    by (rule CommunityText_idem [OF comm [OF that]])
  have ok: "ctl_ok (c\<lparr>c_cfg := cf checked\<rparr>)" if "chk = Inr checked" for checked
    using c comm [OF that] idem [OF that] by (intro ctl_ok_cfg) (auto simp: cf_def ctl_ok_def mode_ok_def split: if_splits)
  show "ctl_ok (fst (enterInjectLocked e mx c))"
    by (auto simp: enter c ok ctl_ok_bindLocked split: sum.splits)
  show "snd (enterInjectLocked e mx c) = None \<Longrightarrow> an_Mode (c_cfg c) \<noteq> ModeInject \<Longrightarrow>
      CommunityText (an_Community (c_cfg (fst (enterInjectLocked e mx c)))) = Inr (an_Community (c_cfg (fst (enterInjectLocked e mx c))))"
    by (auto simp: enter bindLocked_quiet cf_def idem split: sum.splits)
  show "c_active (fst (enterInjectLocked e mx c)) = c_active c" "an_Mode (c_cfg (fst (enterInjectLocked e mx c))) = an_Mode (c_cfg c)"
    by (auto simp: enter bindLocked_quiet cf_def split: sum.splits)
qed

lemma ctl_ok_Prepare: "ctl_ok c \<Longrightarrow> ctl_ok (fst (PrepareRuntime e mode mx c))"
  by (simp add: PrepareRuntime_def enterInject_ok(1))

lemma withdrawAllLocked_cases:
  obtains (failed) "withdrawAllLocked e c = (logged AnnWithdrawAll False c, [CallFailed AnnWithdrawAll])"
  | (cleared) "withdrawAllLocked e c = (clearActiveLocked (logged AnnWithdrawAll True c), [])"
  by (cases "ev_fails e (c_log c) AnnWithdrawAll") (auto simp: withdrawAllLocked_def ann_do_eq)

lemma ctl_ok_logged_all: "ctl_ok c \<Longrightarrow> ctl_ok (logged AnnWithdrawAll False c)"
  by (rule ctl_ok_quiet) (auto simp: logged_def wire_snoc no_failed_reload_iff)

lemma ctl_ok_Apply:
  assumes c: "ctl_ok c"
  shows "ctl_ok (fst (ApplyRuntime e mode allow mx c))"
proof -
  let ?set = "\<lambda>c. c\<lparr>c_cfg := (c_cfg c)\<lparr>an_Mode := mode, an_Allowlist := allow, an_MaxImprovements := mx\<rparr>\<rparr>"
  consider (leave) "an_Mode (c_cfg c) = ModeInject" "mode \<noteq> ModeInject" | (enter) "an_Mode (c_cfg c) \<noteq> ModeInject" "mode = ModeInject"
    | (stay) "an_Mode (c_cfg c) = ModeInject \<longleftrightarrow> mode = ModeInject" by blast
  then show ?thesis
  proof cases
    case leave
    show ?thesis
    proof (cases rule: withdrawAllLocked_cases [of e c])
      case failed
      then show ?thesis using leave c by (simp add: ApplyRuntime_def Let_def ctl_ok_logged_all)
    next
      case cleared
      define c1 where "c1 = store (clearActiveLocked (logged AnnWithdrawAll True c))"
      have "ctl_ok c1" unfolding c1_def using ctl_ok_run [OF c leave(1) withdrawAll_run [of e c]] cleared by simp
      then have "ctl_ok (?set c1)" using leave by (intro ctl_ok_cfg) (auto simp: c1_def)
      then show ?thesis using leave cleared by (simp add: ApplyRuntime_def Let_def c1_def)
    qed
  next
    case enter
    have a: "c_active c = fmempty" using c enter by (simp add: ctl_ok_def mode_ok_def)
    obtain c2 err where r: "enterInjectLocked e mx c = (c2, err)" by force
    have c2: "ctl_ok c2" "c_active c2 = fmempty" "err = None \<Longrightarrow> CommunityText (an_Community (c_cfg c2)) = Inr (an_Community (c_cfg c2))"
      using enterInject_ok [OF c, of e mx] r a enter by auto
    have "ctl_ok (?set c2)" if "err = None" using c2 that by (intro ctl_ok_cfg) auto
    then show ?thesis using enter r c2 by (cases err) (simp_all add: ApplyRuntime_def Let_def)
  next
    case stay
    have "ctl_ok (?set c)" using c stay by (intro ctl_ok_cfg) (auto simp: ctl_ok_def mode_ok_def split: if_splits)
    then show ?thesis using stay by (auto simp: ApplyRuntime_def Let_def)
  qed
qed

lemma table_ok_cleared:
  assumes "no_failed_reload (c_log c) \<Longrightarrow> wire (c_log c) = Map.empty"
  shows "table_ok (clearActiveLocked c)"
  using assms by (auto simp: table_ok_def table_view_def fun_eq_iff improvement_set_def counted_def)

lemma ctl_ok_SetRouters:
  assumes c: "ctl_ok c"
  shows "ctl_ok (fst (SetRouters e routers c))"
proof (cases "an_Mode (c_cfg c) = ModeInject")
  case False
  then have "ctl_ok (c\<lparr>c_cfg := (c_cfg c)\<lparr>an_Routers := routers\<rparr>\<rparr>)"
    using c by (intro ctl_ok_cfg) (auto simp: ctl_ok_def mode_ok_def)
  then show ?thesis using False by (simp add: SetRouters_def Let_def ctl_ok_store)
next
  case True
  define c1 where "c1 ok = clearActiveLocked (logged (AnnSetRouters routers) ok c)" for ok
  have t: "table_ok (c1 ok)" for ok
    unfolding c1_def by (rule table_ok_cleared) (cases ok; auto simp: wire_snoc no_failed_reload_iff)
  have "ctl_ok (store (c1 ok))" "ctl_ok (store ((c1 ok)\<lparr>c_cfg := (c_cfg (c1 ok))\<lparr>an_Routers := routers\<rparr>\<rparr>))" for ok
    using t [of ok] c True by (simp_all add: ctl_ok_def mode_ok_def c1_def) (simp add: table_ok_def)
  then show ?thesis using True c
    by (auto simp: SetRouters_def Let_def ann_do_eq c1_def ctl_ok_store split: option.splits bool.splits)
qed

lemma ctl_ok_op: "ctl_ok c \<Longrightarrow> ctl_ok (apply_ann_op op c)"
  by (cases op) (simp_all add: ctl_ok_Sync ctl_ok_WithdrawPrefix ctl_ok_WithdrawAll ctl_ok_Bind ctl_ok_srv RememberSpeaker_def
      ctl_ok_Prepare ctl_ok_Apply ctl_ok_SetRouters)

lemma ctl_ok_ops: "ctl_ok c \<Longrightarrow> ctl_ok (run_ann_ops ops c)"
  unfolding run_ann_ops_def by (induction ops arbitrary: c) (auto simp: ctl_ok_op)

lemma ctl_ok_New:
  assumes "NewController cfg ann rib = Inr c"
  shows "ctl_ok c"
proof -
  from assms obtain cfg1 where cfg1: "(if an_Mode cfg = ModeInject then validateInject cfg ann rib else Inr cfg) = Inr cfg1"
    and c: "c = \<lparr>c_cfg = cfg1, c_ann = ann, c_rib = rib, c_active = fmempty, c_improvements = 0, c_onWire = 0,
          c_routes = 0, c_srv = False, c_bound = False, c_log = []\<rparr>"
    by (auto simp: NewController_def split: sum.splits)
  have "CommunityText (an_Community cfg1) = Inr (an_Community cfg1)" if "an_Mode cfg = ModeInject"
    using that cfg1 validateInject_community [of cfg ann rib cfg1] CommunityText_idem by auto
  moreover have "an_Mode cfg1 = an_Mode cfg"
    using cfg1 by (auto simp: validateInject_def Let_def split: if_splits option.splits sum.splits)
  ultimately show ?thesis
    by (auto simp: ctl_ok_def table_ok_def mode_ok_def stored_ok_def c wire_def table_view_def fun_eq_iff improvement_set_def counted_def)
qed

end
