(* ===== verification/Announce_Sync.thy ===== *)
theory Announce_Sync
  imports Announce_Spec
begin

text \<open>
  A synchronisation that returns no error: the improvements on the wire are exactly the wanted ones that the
  leak watch does not hold, with the attributes the configuration gives them, and a second one is silent.
\<close>

section \<open>The improvements in the table\<close>

definition imp_view :: "Controller \<Rightarrow> prefix \<Rightarrow> slot option" where
  "imp_view c p = (case fmlookup (c_active c) p of None \<Rightarrow> None | Some s \<Rightarrow> if moreSpecific s then None else Some s)"

definition carries :: "annConfig \<Rightarrow> Improvement \<Rightarrow> slot \<Rightarrow> bool" where
  "carries cfg im s \<longleftrightarrow> \<not> moreSpecific s \<and> sl_provider s = imp_Provider im \<and> sl_cover s = imp_Covering im \<and>
     sl_localPref s = localPref cfg (imp_Provider im) (cause_text (imp_Cause im)) \<and> sl_communities s = routeCommunities cfg im"

lemma imp_view_cong: "c_active c = c_active c' \<Longrightarrow> imp_view c = imp_view c'"
  by (simp add: imp_view_def fun_eq_iff)

lemma imp_view_logged [simp]: "imp_view (logged x ok c) = imp_view c" "imp_view (store c) = imp_view c"
  by (rule imp_view_cong; simp)+

lemma imp_view_set_ms: "moreSpecific s \<Longrightarrow> imp_view c m = None \<Longrightarrow> imp_view (setActiveLocked m s c) = imp_view c"
  by (auto simp: imp_view_def fun_eq_iff)

lemma imp_view_drop: "imp_view (dropActiveLocked p c) = (imp_view c)(p := None)"
  by (auto simp: imp_view_def fun_eq_iff)

lemma imp_view_withdraw_ms: "imp_view c (Masked m) = None \<Longrightarrow> imp_view (fst (withdrawLocked e m c)) = imp_view c"
  by (auto simp: withdrawLocked_def ann_do_eq Let_def imp_view_drop fun_eq_iff split: bool.splits)

lemma imp_view_announceMS:
  assumes m: "Masked m = m" and "imp_view c m = None" "IsValid parent"
  shows "imp_view (fst (announceMoreSpecificLocked e m parent provider c)) = imp_view c"
  using m
proof (cases rule: announceMS_cases [where e = e and parent = parent and provider = provider and c = c])
  case (call nh rt s)
  then have "moreSpecific s" using assms(3) by (simp add: moreSpecific_def)
  then show ?thesis using call(10) assms(2) imp_view_set_ms [of s "logged (Announce rt) True c" m] by simp
qed simp

section \<open>One improvement\<close>

lemma withdraw_if_err: "snd (withdraw_if on e p why c) \<noteq> []"
  by (simp add: withdraw_if_def case_prod_beta)

lemma announceLocked_Nil:
  assumes "announceLocked e im c = (c', [])"
  obtains s where "c_active c' = fmupd (Masked (imp_Prefix im)) s (c_active c)" "c_cfg c' = c_cfg c" "c_rib c' = c_rib c" "carries (c_cfg c) im s"
    "sl_asPath s = routePath e c (Masked (imp_Prefix im)) (imp_Covering im) (imp_Provider im)"
  using assms
  by (fastforce simp: announceLocked_def Let_def ann_do_eq carries_def moreSpecific_def zeroSlot_def split: if_splits option.splits bool.splits)

text \<open>The AS path of a learned prefix does not change by announcing it with that path.\<close>

lemma asPath_kept:
  assumes "c_cfg c' = c_cfg c" "c_rib c' = c_rib c" and "fmlookup (c_active c') p = Some s" "sl_provider s = provider" "sl_asPath s = asPath e c p provider"
  shows "asPath e c' p provider = asPath e c p provider"
  using assms by (auto simp: asPath_def Let_def path_rib_def kept_path_def split: option.splits)

definition settled :: "env \<Rightarrow> Controller \<Rightarrow> Improvement \<Rightarrow> bool" where
  "settled e c im \<longleftrightarrow>
     (let p = Masked (imp_Prefix im) in
      Bits p \<noteq> 0 \<and>
      (if ev_Held e p then fmlookup (c_active c) p = None
       else \<not> ev_Reserved e p \<and> CoveredBy (an_Allowlist (c_cfg c)) p \<and>
         (\<exists>s. fmlookup (c_active c) p = Some s \<and> carries (c_cfg c) im s \<and>
            (\<not> IsValid (imp_Covering im) \<longrightarrow> sl_asPath s = asPath e c p (imp_Provider im)))))"

lemma sync_route_Nil:
  assumes r: "sync_route e im learned on c = (c', [])" and p: "p = Masked (imp_Prefix im)" and on: "fmlookup (c_active c) p = on"
    and cover: "\<And>s. on = Some s \<Longrightarrow> sl_cover s = imp_Covering im"
  shows "c_cfg c' = c_cfg c \<and> c_rib c' = c_rib c \<and> (\<forall>q. q \<noteq> p \<longrightarrow> fmlookup (c_active c') q = fmlookup (c_active c) q) \<and>
     CoveredBy (an_Allowlist (c_cfg c)) p \<and>
     (\<exists>s. fmlookup (c_active c') p = Some s \<and> carries (c_cfg c) im s \<and>
        (\<not> IsValid (imp_Covering im) \<longrightarrow> sl_asPath s = asPath e c' p (imp_Provider im)))"
proof -
  have ne: "withdraw_if b e q why c \<noteq> (c', [])" for b q why using withdraw_if_err by (metis snd_conv)
  have al: "CoveredBy (an_Allowlist (c_cfg c)) p"
    and step: "(\<exists>s. on = Some s \<and> unchanged e c im p s \<and> c' = c) \<or> announceLocked e im c = (c', [])"
    using r by (auto simp: sync_route_def Let_def p [symmetric] ne split: if_splits option.splits)
  from step show ?thesis
  proof
    assume "\<exists>s. on = Some s \<and> unchanged e c im p s \<and> c' = c"
    then show ?thesis using al on cover by (auto simp: unchanged_def carries_def routePath_def)
  next
    assume "announceLocked e im c = (c', [])"
    then obtain s where s: "c_active c' = fmupd p s (c_active c)" "c_cfg c' = c_cfg c" "c_rib c' = c_rib c" "carries (c_cfg c) im s"
      "sl_asPath s = routePath e c p (imp_Covering im) (imp_Provider im)"
      using announceLocked_Nil unfolding p by metis
    have "sl_asPath s = asPath e c' p (imp_Provider im)" if "\<not> IsValid (imp_Covering im)"
    proof -
      have "sl_asPath s = asPath e c p (imp_Provider im)" using that s(5) by (simp add: routePath_def)
      then show ?thesis using asPath_kept [of c' c p s "imp_Provider im" e] s by (simp add: carries_def)
    qed
    then show ?thesis using al s by auto
  qed
qed

lemma withdraw_cfg: "c_cfg (fst (withdrawLocked e p c)) = c_cfg c" "c_rib (fst (withdrawLocked e p c)) = c_rib c"
  using run_cfg [OF withdraw_run [of e c p]] by auto

lemma syncImprovement_Nil:
  assumes r: "syncImprovementLocked e im learned c = (c', [])"
  shows "settled e c' im \<and> (\<forall>q. q \<noteq> Masked (imp_Prefix im) \<longrightarrow> fmlookup (c_active c') q = fmlookup (c_active c) q)"
proof -
  define p where "p = Masked (imp_Prefix im)"
  have ne: "withdraw_if b e q why c \<noteq> (c', [])" for b q why using withdraw_if_err by (metis snd_conv)
  have pp: "Masked p = p" by (simp add: p_def)
  have b: "Bits p \<noteq> 0" using r by (auto simp: syncImprovementLocked_def Let_def p_def)
  show ?thesis
  proof (cases "ev_Held e p")
    case True
    have "if fmlookup (c_active c) p \<noteq> None then withdrawLocked e p c = (c', []) else c' = c"
      using r True b by (auto simp: syncImprovementLocked_def Let_def p_def [symmetric])
    then have "c_active c' = fmdrop p (c_active c) \<or> fmlookup (c_active c) p = None \<and> c' = c"
      using withdrawLocked_Nil(1) [of e p c c'] pp by (auto split: if_splits)
    then show ?thesis using True b by (auto simp: settled_def Let_def p_def [symmetric])
  next
    case False
    have nr: "\<not> ev_Reserved e p" using r False b ne by (auto simp: syncImprovementLocked_def Let_def p_def [symmetric])
    have "\<exists>c1 on. sync_route e im learned on c1 = (c', []) \<and> fmlookup (c_active c1) p = on \<and> (\<forall>s. on = Some s \<longrightarrow> sl_cover s = imp_Covering im) \<and>
        c_cfg c1 = c_cfg c \<and> (\<forall>q. q \<noteq> p \<longrightarrow> fmlookup (c_active c1) q = fmlookup (c_active c) q)"
    proof (cases "\<exists>s. fmlookup (c_active c) p = Some s \<and> sl_cover s \<noteq> imp_Covering im")
      case True
      then obtain s where s: "fmlookup (c_active c) p = Some s" "sl_cover s \<noteq> imp_Covering im" by blast
      obtain c1 errs where w: "withdrawLocked e p c = (c1, errs)" by force
      have "errs = []" "sync_route e im learned None c1 = (c', [])"
        using r s False b nr w by (auto simp: syncImprovementLocked_def Let_def p_def [symmetric] split: list.splits)
      then show ?thesis using withdrawLocked_Nil [of e p c c1] w pp by (intro exI [of _ c1] exI [of _ None]) auto
    next
      case no: False
      then have "sync_route e im learned (fmlookup (c_active c) p) c = (c', [])"
        using r False b nr by (auto simp: syncImprovementLocked_def Let_def p_def [symmetric] split: option.splits)
      then show ?thesis using no by blast
    qed
    then obtain c1 on where c1: "sync_route e im learned on c1 = (c', [])" "fmlookup (c_active c1) p = on"
      "\<And>s. on = Some s \<Longrightarrow> sl_cover s = imp_Covering im" "c_cfg c1 = c_cfg c" "\<forall>q. q \<noteq> p \<longrightarrow> fmlookup (c_active c1) q = fmlookup (c_active c) q"
      by blast
    from sync_route_Nil [OF c1(1) p_def c1(2,3)] show ?thesis
      using b nr False c1(4,5) by (simp add: settled_def Let_def p_def [symmetric])
  qed
qed

section \<open>More-specifics leave the improvements alone\<close>

lemma ms_refresh_view:
  assumes "Masked m = m" "imp_view (ms_c a) m = None" "IsValid p"
  shows "imp_view (ms_c (ms_refresh e p par m s a)) = imp_view (ms_c a)"
  using ms_refresh_c [of e p par m s a] imp_view_announceMS [OF assms] by auto

lemma ms_touch_view:
  assumes "Masked m = m" "imp_view c m = None" "IsValid p" and "moreSpecific s'"
  shows "imp_view (ms_c (ms_refresh e p par m s' (ms_visit m (a\<lparr>ms_c := setActiveLocked m s' c\<rparr>)))) = imp_view c"
proof -
  have v: "imp_view (setActiveLocked m s' c) = imp_view c" by (rule imp_view_set_ms [OF assms(4,2)])
  show ?thesis using ms_refresh_view [of m "ms_visit m (a\<lparr>ms_c := setActiveLocked m s' c\<rparr>)" p e par s'] assms v by simp
qed

lemma imp_view_ms: "fmlookup (c_active c) m = Some s \<Longrightarrow> moreSpecific s \<Longrightarrow> imp_view c m = None"
  by (simp add: imp_view_def)

lemma ms_mine_view:
  assumes m: "Masked m = m" and lk: "fmlookup (c_active (ms_c a)) m = Some s" "moreSpecific s" "sl_parent s = p"
  shows "imp_view (ms_c (ms_mine_step e p par learned owner a m)) = imp_view (ms_c a)"
proof -
  have p: "IsValid p" using lk(2,3) by (simp add: moreSpecific_def)
  have n: "imp_view (ms_c a) m = None" by (rule imp_view_ms [OF lk(1,2)])
  have g: "fmget zeroSlot (c_active (ms_c a)) m = s" using lk(1) by (simp add: fmget_Some)
  show ?thesis
    unfolding ms_mine_step_def Let_def g
    using imp_view_withdraw_ms [of "ms_c a" m e] n m lk(2) ms_touch_view [OF m n p]
    by (auto simp: moreSpecific_def split: option.splits)
qed

lemma ms_learned_view:
  assumes m: "Masked m = m" and p: "IsValid p"
  shows "imp_view (ms_c (ms_learned_step e p par a m)) = imp_view (ms_c a)"
proof (cases "fmlookup (c_active (ms_c a)) m")
  case None
  then have "imp_view (ms_c a) m = None" by (simp add: imp_view_def)
  from imp_view_announceMS [OF m this p] None show ?thesis
    by (auto simp: ms_learned_step_def Let_def split: prod.splits list.splits) (metis fst_conv)+
next
  case (Some s)
  have "imp_view (ms_c (ms_refresh e p par m s' (ms_visit m (a\<lparr>ms_c := setActiveLocked m s' (ms_c a)\<rparr>)))) = imp_view (ms_c a)"
    if "moreSpecific s" "s' = s\<lparr>sl_parent := p, sl_seen := 0, sl_held := False\<rparr>" for s'
    using ms_touch_view [OF m imp_view_ms [OF Some that(1)] p, of s'] that(2) p by (simp add: moreSpecific_def)
  then show ?thesis using Some by (auto simp: ms_learned_step_def Let_def)
qed

lemma ms_learned_other:
  assumes "Masked m = m" "q \<noteq> m"
  shows "fmlookup (c_active (ms_c (ms_learned_step e p par a m))) q = fmlookup (c_active (ms_c a)) q"
  using announceMS_other [OF assms, of e p "sl_provider par" "ms_c a"] ms_refresh_other [OF assms] assms(2)
  by (auto simp: ms_learned_step_def Let_def split: option.splits prod.splits list.splits)

lemma ms_mine_fold:
  assumes "active_ok e (ms_c a)" and "distinct ms"
    and "\<forall>m \<in> set ms. \<exists>s. fmlookup (c_active (ms_c a)) m = Some s \<and> moreSpecific s \<and> sl_parent s = p"
  shows "imp_view (ms_c (foldl (ms_mine_step e p par learned owner) a ms)) = imp_view (ms_c a) \<and>
    (\<forall>q. q \<notin> set ms \<longrightarrow> fmlookup (c_active (ms_c (foldl (ms_mine_step e p par learned owner) a ms))) q = fmlookup (c_active (ms_c a)) q)"
  using assms
proof (induction ms arbitrary: a)
  case (Cons m ms)
  let ?a = "ms_mine_step e p par learned owner a m"
  from Cons.prems(3) obtain s where s: "fmlookup (c_active (ms_c a)) m = Some s" "moreSpecific s" "sl_parent s = p" by auto
  have m: "Masked m = m" using active_okD [OF Cons.prems(1) s(1)] by simp
  have ok: "active_ok e (ms_c ?a)" by (rule table.run [OF ms_mine_run [OF Cons.prems(1) s] Cons.prems(1)])
  have other: "fmlookup (c_active (ms_c ?a)) q = fmlookup (c_active (ms_c a)) q" if "q \<noteq> m" for q
    by (rule ms_mine_other [OF m that])
  have "\<forall>q \<in> set ms. \<exists>s. fmlookup (c_active (ms_c ?a)) q = Some s \<and> moreSpecific s \<and> sl_parent s = p"
  proof
    fix q assume q: "q \<in> set ms"
    then have "q \<noteq> m" using Cons.prems(2) by auto
    with q Cons.prems(3) show "\<exists>s. fmlookup (c_active (ms_c ?a)) q = Some s \<and> moreSpecific s \<and> sl_parent s = p"
      by (simp add: other)
  qed
  from Cons.IH [OF ok _ this] Cons.prems(2) ms_mine_view [OF m s, of e par learned owner] other show ?case by simp
qed simp

lemma ms_learned_fold:
  assumes "\<forall>m \<in> set ms. Masked m = m" and "IsValid p"
  shows "imp_view (ms_c (foldl (ms_learned_step e p par) a ms)) = imp_view (ms_c a) \<and>
    (\<forall>q. q \<notin> set ms \<longrightarrow> fmlookup (c_active (ms_c (foldl (ms_learned_step e p par) a ms))) q = fmlookup (c_active (ms_c a)) q)"
  using assms(1)
proof (induction ms arbitrary: a)
  case (Cons m ms)
  then show ?case using ms_learned_view [OF _ assms(2), of m e par a] ms_learned_other [of m _ e p par a] by simp
qed simp

lemma syncMoreSpecifics_view:
  assumes "active_ok e c" and "\<forall>m \<in> set learned. Masked m = m" and "IsValid p"
  shows "imp_view (fst (syncMoreSpecificsLocked e p learned owner visited c)) = imp_view c \<and>
    (\<forall>q. q \<notin> set learned \<longrightarrow> (\<forall>s. fmlookup (c_active c) q = Some s \<longrightarrow> \<not> moreSpecific s) \<longrightarrow>
       fmlookup (c_active (fst (syncMoreSpecificsLocked e p learned owner visited c))) q = fmlookup (c_active c) q)"
proof -
  define a0 where "a0 = \<lparr>ms_c = c, ms_visited = visited, ms_errs = [], ms_capped = 0\<rparr>"
  define par where "par = fmget zeroSlot (c_active c) p"
  define a1 where "a1 = foldl (ms_mine_step e p par learned owner) a0 (mine_of c p)"
  have mine: "imp_view (ms_c a1) = imp_view c \<and> (\<forall>q. q \<notin> set (mine_of c p) \<longrightarrow> fmlookup (c_active (ms_c a1)) q = fmlookup (c_active c) q)"
    using ms_mine_fold [of e a0 "mine_of c p" p par learned owner] assms(1) mine_of_facts by (simp add: a0_def a1_def)
  have "fst (syncMoreSpecificsLocked e p learned owner visited c) = ms_c (foldl (ms_learned_step e p par) a1 learned)"
    by (simp add: syncMoreSpecificsLocked_def Let_def a0_def [symmetric] par_def [symmetric] a1_def [symmetric])
  with ms_learned_fold [OF assms(2,3), of e par a1] mine mine_of_facts(2) [of _ c p] show ?thesis by fastforce
qed

section \<open>The loop over the wanted improvements\<close>

definition first_sync :: "env \<Rightarrow> wanted \<Rightarrow> Controller \<Rightarrow> prefix \<Rightarrow> Controller \<times> ann_error list" where
  "first_sync e want c p =
     (case fmlookup want p of None \<Rightarrow> (c, []) | Some im \<Rightarrow>
        syncImprovementLocked e im (if an_MoreSpecific (c_cfg c) then kids_of e (c_cfg c) (SortedKeys want) p else []) c)"

lemma sync_step_cases:
  assumes "sa_errs (sync_step e want a p) = []"
  obtains (plain) c1 where "first_sync e want (sa_c a) p = (c1, [])" "sa_errs a = []" "sa_c (sync_step e want a p) = c1"
      "sa_visited (sync_step e want a p) = sa_visited a"
  | (more) c1 s where "first_sync e want (sa_c a) p = (c1, [])" "sa_errs a = []" "an_MoreSpecific (c_cfg (sa_c a))"
      "fmlookup (c_active c1) p = Some s" "\<not> moreSpecific s"
      "sa_c (sync_step e want a p) = fst (syncMoreSpecificsLocked e p (kids_of e (c_cfg (sa_c a)) (SortedKeys want) p)
         (owner_of e (c_cfg (sa_c a)) (SortedKeys want)) (sa_visited a) c1)"
proof -
  obtain c1 errs1 where f: "first_sync e want (sa_c a) p = (c1, errs1)" by force
  have unf: "sync_step e want a p =
      (let a1 = a\<lparr>sa_c := c1, sa_errs := sa_errs a @ errs1\<rparr> in
       case fmlookup (c_active c1) p of None \<Rightarrow> a1 | Some s \<Rightarrow>
         if an_MoreSpecific (c_cfg (sa_c a)) \<and> \<not> moreSpecific s
         then (case syncMoreSpecificsLocked e p (kids_of e (c_cfg (sa_c a)) (SortedKeys want) p)
                 (owner_of e (c_cfg (sa_c a)) (SortedKeys want)) (sa_visited a) c1 of
                 (c2, visited, errs2) \<Rightarrow> a1\<lparr>sa_c := c2, sa_visited := visited, sa_errs := sa_errs a1 @ errs2\<rparr>)
         else a1)"
    using f unfolding first_sync_def sync_step_def Let_def
    by (auto split: option.splits if_splits)
  show thesis
  proof (cases "\<exists>s. fmlookup (c_active c1) p = Some s \<and> an_MoreSpecific (c_cfg (sa_c a)) \<and> \<not> moreSpecific s")
    case True
    then obtain s where s: "fmlookup (c_active c1) p = Some s" "an_MoreSpecific (c_cfg (sa_c a))" "\<not> moreSpecific s" by blast
    show thesis using assms f s unf by (intro more [of c1 s]) (auto simp: Let_def case_prod_beta)
  next
    case False
    then have "sync_step e want a p = a\<lparr>sa_c := c1, sa_errs := sa_errs a @ errs1\<rparr>"
      unfolding unf Let_def by (auto split: option.splits)
    then show thesis using assms f by (intro plain [of c1]) auto
  qed
qed

text \<open>The wanted improvements are stored under their own prefix.\<close>

definition want_ok :: "wanted \<Rightarrow> bool" where
  "want_ok want \<longleftrightarrow> (\<forall>p im. fmlookup want p = Some im \<longrightarrow> p = Masked (imp_Prefix im))"

lemma want_ok_upd: "want_ok m \<Longrightarrow> want_ok (fmupd (Masked (imp_Prefix im)) im m)"
  unfolding want_ok_def by (metis fmupd_lookup option.inject)

lemma want_of_ok: "want_ok (want_of imps)"
proof -
  have "want_ok (foldl (\<lambda>m im. fmupd (Masked (imp_Prefix im)) im m) m imps)" if "want_ok m" for m
    using that by (induction imps arbitrary: m) (simp_all add: want_ok_upd)
  moreover have "want_ok fmempty" by (simp add: want_ok_def)
  ultimately show ?thesis unfolding want_of_def by blast
qed

text \<open>What is settled depends on the entry of the prefix only.\<close>

lemma asPath_cong:
  assumes "fmlookup (c_active c') p = fmlookup (c_active c) p" "c_cfg c' = c_cfg c" "c_rib c' = c_rib c"
  shows "asPath e c' p provider = asPath e c p provider"
  unfolding asPath_def path_rib_def kept_path_def assms ..

lemma settled_cong:
  assumes "settled e c im" "fmlookup (c_active c') (Masked (imp_Prefix im)) = fmlookup (c_active c) (Masked (imp_Prefix im))"
    "c_cfg c' = c_cfg c" "c_rib c' = c_rib c"
  shows "settled e c' im"
  using assms(1) asPath_cong [OF assms(2-4)] unfolding settled_def Let_def assms(2,3) by simp

lemma settled_not_ms:
  "settled e c im \<Longrightarrow> fmlookup (c_active c) (Masked (imp_Prefix im)) = Some s \<Longrightarrow> \<not> moreSpecific s"
  by (auto simp: settled_def Let_def carries_def split: if_splits)

lemma first_sync_Nil:
  assumes "first_sync e want c p = (c1, [])" "want_ok want" "fmlookup want p = Some im"
  shows "settled e c1 im" "\<And>q. q \<noteq> p \<Longrightarrow> fmlookup (c_active c1) q = fmlookup (c_active c) q"
  using assms syncImprovement_Nil [of e im _ c c1] by (auto simp: first_sync_def want_ok_def)

lemma first_sync_run: "wire_run e c (fst (first_sync e want c p))"
  by (auto simp: first_sync_def syncImprovement_run split: option.splits)

lemma sync_step_Nil:
  assumes nil: "sa_errs (sync_step e want a p) = []" and ok: "active_ok e (sa_c a)" and w: "want_ok want" and im: "fmlookup want p = Some im"
  shows "sa_errs a = []" "settled e (sa_c (sync_step e want a p)) im"
    "\<And>q im'. fmlookup want q = Some im' \<Longrightarrow> q \<noteq> p \<Longrightarrow> settled e (sa_c a) im' \<Longrightarrow> settled e (sa_c (sync_step e want a p)) im'"
    "\<And>q. q \<noteq> p \<Longrightarrow> imp_view (sa_c a) q = None \<Longrightarrow> imp_view (sa_c (sync_step e want a p)) q = None"
proof -
  let ?c = "sa_c (sync_step e want a p)"
  have cf: "c_cfg ?c = c_cfg (sa_c a)" "c_rib ?c = c_rib (sa_c a)" using run_cfg [OF sync_step_run [OF ok]] by auto
  have "sa_errs a = [] \<and> (\<exists>c1. first_sync e want (sa_c a) p = (c1, []) \<and> imp_view ?c = imp_view c1 \<and>
      (\<forall>q \<in> fmdom' want. (\<forall>s. fmlookup (c_active c1) q = Some s \<longrightarrow> \<not> moreSpecific s) \<longrightarrow> fmlookup (c_active ?c) q = fmlookup (c_active c1) q))"
    using nil
  proof (cases rule: sync_step_cases)
    case (plain c1)
    then show ?thesis by auto
  next
    case (more c1 s)
    have r: "wire_run e (sa_c a) c1" using first_sync_run [of e "sa_c a" want p] more(1) by simp
    have ok1: "active_ok e c1" by (rule table.run [OF r ok])
    have "IsValid p" using active_okD [OF ok1 more(4)] by (simp add: IsValid_def)
    moreover have "\<forall>m \<in> set (kids_of e (c_cfg (sa_c a)) (SortedKeys want) p). Masked m = m"
      using claimed_facts(1) kids_facts(1) by blast
    moreover have "q \<notin> set (kids_of e (c_cfg (sa_c a)) (SortedKeys want) p)" if "q \<in> fmdom' want" for q
      using that claimed_facts(7) kids_facts(1) set_SortedKeys by metis
    ultimately show ?thesis using syncMoreSpecifics_view [OF ok1] more(1,2,6) by metis
  qed
  then obtain c1 where e: "sa_errs a = []" and c1: "first_sync e want (sa_c a) p = (c1, [])" "imp_view ?c = imp_view c1"
    and keep: "\<And>q. q \<in> fmdom' want \<Longrightarrow> (\<And>s. fmlookup (c_active c1) q = Some s \<Longrightarrow> \<not> moreSpecific s) \<Longrightarrow>
        fmlookup (c_active ?c) q = fmlookup (c_active c1) q" by blast
  have cf1: "c_cfg c1 = c_cfg (sa_c a)" "c_rib c1 = c_rib (sa_c a)" using run_cfg [OF first_sync_run [of e "sa_c a" want p]] c1(1) by auto
  have pm: "p = Masked (imp_Prefix im)" using w im by (simp add: want_ok_def)
  show "sa_errs a = []" by (rule e)
  note fs = first_sync_Nil [OF c1(1) w im]
  show "settled e ?c im"
    using settled_cong [OF fs(1), of ?c] keep [of p] settled_not_ms [OF fs(1)] im cf cf1 pm by (auto simp: fmdom'_iff)
  show "settled e ?c im'" if q: "fmlookup want q = Some im'" "q \<noteq> p" "settled e (sa_c a) im'" for q im'
  proof -
    have qm: "q = Masked (imp_Prefix im')" using w q by (simp add: want_ok_def)
    have s1: "settled e c1 im'" by (rule settled_cong [OF q(3)]) (use fs(2) [OF q(2)] cf1 qm in auto)
    show ?thesis
      using settled_cong [OF s1, of ?c] keep [of q] settled_not_ms [OF s1] q(1) cf cf1 qm by (auto simp: fmdom'_iff)
  qed
  show "imp_view ?c q = None" if "q \<noteq> p" "imp_view (sa_c a) q = None" for q
    using that fs(2) [OF that(1)] c1(2) by (simp add: imp_view_def)
qed

lemma sync_fold_Nil:
  assumes "sa_errs (foldl (sync_step e want) a ps) = []" and "active_ok e (sa_c a)" and "want_ok want"
    and "distinct ps" and "set ps \<subseteq> fmdom' want"
  shows "sa_errs a = [] \<and>
     (\<forall>q im. fmlookup want q = Some im \<longrightarrow> q \<in> set ps \<or> settled e (sa_c a) im \<longrightarrow> settled e (sa_c (foldl (sync_step e want) a ps)) im) \<and>
     (\<forall>q. q \<notin> set ps \<longrightarrow> imp_view (sa_c a) q = None \<longrightarrow> imp_view (sa_c (foldl (sync_step e want) a ps)) q = None)"
  using assms(1,2,4,5)
proof (induction ps arbitrary: a)
  case (Cons p ps)
  let ?a = "sync_step e want a p"
  from Cons.prems(4) obtain im where im: "fmlookup want p = Some im" by (auto simp: fmdom'_iff)
  have ok: "active_ok e (sa_c ?a)" by (rule table.run [OF sync_step_run [OF Cons.prems(2)] Cons.prems(2)])
  from Cons.IH [OF _ ok] Cons.prems have ih: "sa_errs ?a = []"
    "\<And>q im. fmlookup want q = Some im \<Longrightarrow> q \<in> set ps \<or> settled e (sa_c ?a) im \<Longrightarrow> settled e (sa_c (foldl (sync_step e want) ?a ps)) im"
    "\<And>q. q \<notin> set ps \<Longrightarrow> imp_view (sa_c ?a) q = None \<Longrightarrow> imp_view (sa_c (foldl (sync_step e want) ?a ps)) q = None"
    by auto
  note st = sync_step_Nil [OF ih(1) Cons.prems(2) assms(3) im]
  show ?case
  proof (intro conjI allI impI)
    show "sa_errs a = []" by (rule st(1))
    fix q im' assume q: "fmlookup want q = Some im'" "q \<in> set (p # ps) \<or> settled e (sa_c a) im'"
    have "q \<in> set ps \<or> settled e (sa_c ?a) im'" using q im st(2) st(3) [OF q(1)] by (cases "q = p") auto
    then show "settled e (sa_c (foldl (sync_step e want) a (p # ps))) im'" using ih(2) [OF q(1)] by simp
  next
    fix q assume "q \<notin> set (p # ps)" "imp_view (sa_c a) q = None"
    then show "imp_view (sa_c (foldl (sync_step e want) a (p # ps))) q = None" using ih(3) st(4) by simp
  qed
qed simp

section \<open>The loops that withdraw\<close>

lemma withdraw_fold_Nil:
  assumes "foldl (withdraw_step e) acc ps = (c1, [])" and "\<forall>p \<in> set ps. Masked p = p"
  shows "snd acc = [] \<and> (\<forall>q. fmlookup (c_active c1) q = (if q \<in> set ps then None else fmlookup (c_active (fst acc)) q))"
  using assms
proof (induction ps arbitrary: acc)
  case (Cons p ps)
  obtain c' errs where w: "withdrawLocked e p (fst acc) = (c', errs)" by force
  then have st: "withdraw_step e acc p = (c', snd acc @ errs)" by (simp add: withdraw_step_def)
  from Cons.IH [of "(c', snd acc @ errs)"] Cons.prems st have ih: "snd acc = []" "errs = []"
    "\<forall>q. fmlookup (c_active c1) q = (if q \<in> set ps then None else fmlookup (c_active c') q)" by auto
  then have "c_active c' = fmdrop p (c_active (fst acc))" using withdrawLocked_Nil(1) [of e p "fst acc" c'] w Cons.prems(2) by simp
  then show ?case using ih by auto
qed simp

lemma withdraw_fold_view:
  assumes "\<forall>p \<in> set ps. Masked p = p \<and> imp_view (fst acc) p = None"
  shows "imp_view (fst (foldl (withdraw_step e) acc ps)) = imp_view (fst acc)"
  using assms
proof (induction ps arbitrary: acc)
  case (Cons p ps)
  have "imp_view (fst (withdraw_step e acc p)) = imp_view (fst acc)"
    using imp_view_withdraw_ms [of "fst acc" p e] Cons.prems by (simp add: withdraw_step_def case_prod_beta)
  with Cons.IH [of "withdraw_step e acc p"] Cons.prems show ?case by simp
qed simp

text \<open>The runtime visits every entry of a map once.\<close>

definition orders :: "env \<Rightarrow> bool" where
  "orders e \<longleftrightarrow> (\<forall>k ps. mset (ev_order e k ps) = mset ps)"

lemma orders_set: "orders e \<Longrightarrow> set (ev_order e k ps) = set ps"
  by (metis orders_def mset_eq_setD)

lemma active_masked: "active_ok e c \<Longrightarrow> p \<in> fmdom' (c_active c) \<Longrightarrow> Masked p = p"
  by (auto simp: fmdom'_iff dest: active_okD)

text \<open>The three phases of a synchronisation without an error.\<close>

lemma sync_wanted_Nil:
  assumes ok: "active_ok e c" and ord: "orders e" and w: "want_ok want" and r: "sync_wanted e want c = (c', [])"
  obtains c2 visited where "\<And>p im. fmlookup want p = Some im \<Longrightarrow> settled e c2 im" "\<And>p. fmlookup want p = None \<Longrightarrow> imp_view c2 p = None"
    "active_ok e c2" "c_cfg c2 = c_cfg c" "c_rib c2 = c_rib c"
    "foldl (withdraw_step e) (c2, []) (filter (orphan c2 visited) (ev_order e 1 (SortedKeys (c_active c2)))) = (c', [])"
    "\<not> an_MoreSpecific (c_cfg c) \<Longrightarrow> visited = []"
proof -
  obtain c1 errs1 where f1: "foldl (withdraw_step e) (c, []) (filter (unwanted want c) (ev_order e 0 (SortedKeys (c_active c)))) = (c1, errs1)"
    by force
  define a0 where "a0 = \<lparr>sa_c = c1, sa_visited = [], sa_errs = errs1\<rparr>"
  define a where "a = foldl (sync_step e want) a0 (SortedKeys want)"
  have r': "foldl (withdraw_step e) (sa_c a, sa_errs a) (filter (orphan (sa_c a) (sa_visited a)) (ev_order e 1 (SortedKeys (c_active (sa_c a))))) = (c', [])"
    using r by (simp add: sync_wanted_def Let_def f1 a0_def [symmetric] a_def [symmetric])
  have run1: "wire_run e c c1" using withdraw_fold_run [of e "(c, [])"] f1 by (metis fst_conv)
  have ok1: "active_ok e c1" by (rule table.run [OF run1 ok])
  have run2: "wire_run e c1 (sa_c a)" using sync_fold_run [of e a0] ok1 by (simp add: a_def a0_def)
  have ok2: "active_ok e (sa_c a)" by (rule table.run [OF run2 ok1])
  have "sa_errs a = []" using withdraw_fold_Nil [OF r'] active_masked [OF ok2] orders_set [OF ord] by auto
  with sync_fold_Nil [of e want a0 "SortedKeys want"] ok1 w
  have a: "errs1 = []" "\<And>q im. fmlookup want q = Some im \<Longrightarrow> settled e (sa_c a) im"
    "\<And>q. fmlookup want q = None \<Longrightarrow> imp_view c1 q = None \<Longrightarrow> imp_view (sa_c a) q = None"
    by (auto simp: a_def a0_def fmdom'_iff)
  have "imp_view c1 q = None" if "fmlookup want q = None" for q
  proof (cases "imp_view c q")
    case None
    then show ?thesis
      using withdraw_fold_Nil [OF f1 [unfolded a(1)]] active_masked [OF ok] orders_set [OF ord] by (auto simp: imp_view_def)
  next
    case (Some s)
    then have "fmlookup (c_active c) q = Some s" "\<not> moreSpecific s" by (auto simp: imp_view_def split: option.splits if_splits)
    then have "q \<in> set (filter (unwanted want c) (ev_order e 0 (SortedKeys (c_active c))))"
      using that by (simp add: orders_set [OF ord] unwanted_def Let_def fmget_Some fmdom'_iff)
    then have "fmlookup (c_active c1) q = None"
      using withdraw_fold_Nil [OF f1 [unfolded a(1)]] active_masked [OF ok] orders_set [OF ord] by auto
    then show ?thesis by (simp add: imp_view_def)
  qed
  moreover have "sa_visited a = []" if "\<not> an_MoreSpecific (c_cfg c)"
  proof -
    have "\<not> an_MoreSpecific (c_cfg (sa_c b)) \<and> active_ok e (sa_c b) \<and> sa_visited b = [] \<Longrightarrow> sa_visited (foldl (sync_step e want) b ps) = []" for b ps
    proof (induction ps arbitrary: b)
      case (Cons p ps)
      have "c_cfg (sa_c (sync_step e want b p)) = c_cfg (sa_c b)" using run_cfg [OF sync_step_run, of e b want p] Cons.prems by simp
      moreover have "sa_visited (sync_step e want b p) = []"
        using Cons.prems by (auto simp: sync_step_def Let_def case_prod_beta split: option.splits)
      ultimately show ?case
        using Cons.IH [of "sync_step e want b p"] Cons.prems table.run [OF sync_step_run, of e b want p] by simp
    qed simp
    from this [of a0 "SortedKeys want"] that ok1 run_cfg [OF run1] show ?thesis by (simp add: a_def a0_def)
  qed
  ultimately show thesis
    using that [of "sa_c a" "sa_visited a"] a ok2 run_cfg [OF run1] run_cfg [OF run2] r' \<open>sa_errs a = []\<close> by simp
qed

lemma orphan_facts:
  assumes "active_ok e c" and "orders e"
  shows "\<forall>p \<in> set (filter (orphan c v) (ev_order e k (SortedKeys (c_active c)))). Masked p = p \<and> imp_view c p = None"
  using assms active_masked by (auto simp: orders_set orphan_def imp_view_def fmdom'_iff fmget_Some)

lemma settled_view:
  assumes "settled e c im" and "p = Masked (imp_Prefix im)"
  shows "if ev_Held e p then imp_view c p = None else \<exists>s. imp_view c p = Some s \<and> carries (c_cfg c) im s"
  using assms by (auto simp: settled_def Let_def imp_view_def carries_def split: if_splits)

lemma Sync_eq:
  "an_Mode (c_cfg c) = ModeInject \<Longrightarrow> ev_Leader e \<Longrightarrow> ev_Ready e \<Longrightarrow>
   Sync e imps c = (store (fst (sync_wanted e (want_of imps) c)), snd (sync_wanted e (want_of imps) c))"
  by (simp add: Sync_def Let_def case_prod_beta)

lemma Sync_views:
  assumes "active_ok e c" "orders e" and m: "an_Mode (c_cfg c) = ModeInject" "ev_Leader e" "ev_Ready e" and r: "Sync e imps c = (c', [])"
  shows "case fmlookup (want_of imps) p of
      None \<Rightarrow> imp_view c' p = None
    | Some im \<Rightarrow> if ev_Held e p then imp_view c' p = None else \<exists>s. imp_view c' p = Some s \<and> carries (c_cfg c) im s"
proof -
  obtain c1 where c1: "sync_wanted e (want_of imps) c = (c1, [])" "c' = store c1" using r Sync_eq [OF m] by (metis prod.collapse prod.inject)
  from sync_wanted_Nil [OF assms(1,2) want_of_ok c1(1)] obtain c2 v where c2:
    "\<And>p im. fmlookup (want_of imps) p = Some im \<Longrightarrow> settled e c2 im" "\<And>p. fmlookup (want_of imps) p = None \<Longrightarrow> imp_view c2 p = None"
    "active_ok e c2" "c_cfg c2 = c_cfg c"
    "foldl (withdraw_step e) (c2, []) (filter (orphan c2 v) (ev_order e 1 (SortedKeys (c_active c2)))) = (c1, [])" by metis
  have "imp_view c1 = imp_view c2"
    using withdraw_fold_view [of "filter (orphan c2 v) (ev_order e 1 (SortedKeys (c_active c2)))" "(c2, [])" e]
      orphan_facts [OF c2(3) assms(2)] c2(5) by simp
  then have v: "imp_view c' = imp_view c2" by (simp add: c1(2))
  have w: "p = Masked (imp_Prefix im)" if "fmlookup (want_of imps) p = Some im" for im
    using that want_of_ok [of imps] by (simp add: want_ok_def)
  show ?thesis
  proof (cases "fmlookup (want_of imps) p")
    case None
    then show ?thesis using c2(2) by (simp add: v)
  next
    case (Some im)
    then show ?thesis using settled_view [OF c2(1) [OF Some] w [OF Some]] unfolding c2(4) by (simp add: v)
  qed
qed

section \<open>A second synchronisation\<close>

text \<open>Without more-specifics the table after the first one holds the wanted improvements and nothing else.\<close>

lemma Sync_exact:
  assumes "active_ok e c" "orders e" and m: "an_Mode (c_cfg c) = ModeInject" "ev_Leader e" "ev_Ready e" "\<not> an_MoreSpecific (c_cfg c)"
    and r: "Sync e imps c = (c', [])"
  shows "c_cfg c' = c_cfg c" "\<And>p im. fmlookup (want_of imps) p = Some im \<Longrightarrow> settled e c' im"
    "\<And>p. fmlookup (want_of imps) p = None \<Longrightarrow> fmlookup (c_active c') p = None" "store c' = c'"
proof -
  obtain c1 where c1: "sync_wanted e (want_of imps) c = (c1, [])" "c' = store c1" using r Sync_eq [OF m(1-3)] by (metis prod.collapse prod.inject)
  from sync_wanted_Nil [OF assms(1,2) want_of_ok c1(1)] m(4) obtain c2 where c2:
    "\<And>p im. fmlookup (want_of imps) p = Some im \<Longrightarrow> settled e c2 im" "\<And>p. fmlookup (want_of imps) p = None \<Longrightarrow> imp_view c2 p = None"
    "active_ok e c2" "c_cfg c2 = c_cfg c" "c_rib c2 = c_rib c"
    "foldl (withdraw_step e) (c2, []) (filter (orphan c2 []) (ev_order e 1 (SortedKeys (c_active c2)))) = (c1, [])" by metis
  have lk: "fmlookup (c_active c1) q = imp_view c2 q" for q
  proof -
    have "fmlookup (c_active c1) q =
        (if q \<in> set (filter (orphan c2 []) (ev_order e 1 (SortedKeys (c_active c2)))) then None else fmlookup (c_active c2) q)"
      using withdraw_fold_Nil [OF c2(6)] orphan_facts [OF c2(3) assms(2)] by simp
    then show ?thesis
      by (cases "fmlookup (c_active c2) q") (auto simp: orders_set [OF assms(2)] orphan_def imp_view_def fmdom'_iff fmget_Some)
  qed
  have cf: "c_cfg c1 = c_cfg c2" "c_rib c1 = c_rib c2" using run_cfg [OF withdraw_fold_run [of e "(c2, [])"]] c2(6) by (metis fst_conv)+
  show "c_cfg c' = c_cfg c" using cf c2(4) by (simp add: c1(2))
  show "store c' = c'" by (simp add: c1(2) store_def)
  show "fmlookup (c_active c') p = None" if "fmlookup (want_of imps) p = None" for p using c2(2) [OF that] lk by (simp add: c1(2))
  show "settled e c' im" if "fmlookup (want_of imps) p = Some im" for p im
  proof (rule settled_cong [OF c2(1) [OF that]])
    show "fmlookup (c_active c') (Masked (imp_Prefix im)) = fmlookup (c_active c2) (Masked (imp_Prefix im))"
      using settled_not_ms [OF c2(1) [OF that]] by (auto simp: c1(2) lk imp_view_def split: option.splits)
  qed (simp_all add: c1(2) cf)
qed

lemma settled_silent:
  assumes "settled e c im" and "\<not> IsValid (imp_Covering im)"
  shows "syncImprovementLocked e im learned c = (c, [])"
proof (cases "ev_Held e (Masked (imp_Prefix im))")
  case True
  then show ?thesis using assms(1) by (auto simp: settled_def syncImprovementLocked_def Let_def)
next
  case False
  from assms(1) False obtain s where s: "fmlookup (c_active c) (Masked (imp_Prefix im)) = Some s" "carries (c_cfg c) im s"
    "sl_asPath s = asPath e c (Masked (imp_Prefix im)) (imp_Provider im)" "\<not> ev_Reserved e (Masked (imp_Prefix im))"
    "CoveredBy (an_Allowlist (c_cfg c)) (Masked (imp_Prefix im))" "Bits (Masked (imp_Prefix im)) \<noteq> 0"
    using assms(2) by (auto simp: settled_def Let_def)
  then have "unchanged e c im (Masked (imp_Prefix im)) s" using assms(2) by (simp add: unchanged_def carries_def routePath_def)
  then show ?thesis using s False assms(2)
    by (simp add: syncImprovementLocked_def sync_route_def Let_def carries_def)
qed

lemma sync_fold_silent:
  assumes "\<forall>p im. fmlookup want p = Some im \<longrightarrow> syncImprovementLocked e im [] (sa_c a) = (sa_c a, [])" and "\<not> an_MoreSpecific (c_cfg (sa_c a))"
  shows "foldl (sync_step e want) a ps = a"
proof -
  have "sync_step e want a p = a" for p
    using assms by (cases "fmlookup want p") (auto simp: sync_step_def Let_def split: option.splits)
  then show ?thesis by (induction ps) auto
qed

lemma Sync_silent:
  assumes m: "an_Mode (c_cfg c) = ModeInject" "ev_Leader e" "ev_Ready e" "\<not> an_MoreSpecific (c_cfg c)" "store c = c" "orders e"
    and st: "\<And>p im. fmlookup (want_of imps) p = Some im \<Longrightarrow> settled e c im \<and> \<not> IsValid (imp_Covering im)"
    and no: "\<And>p. fmlookup (want_of imps) p = None \<Longrightarrow> fmlookup (c_active c) p = None"
  shows "Sync e imps c = (c, [])"
proof -
  have u: "filter (unwanted (want_of imps) c) (ev_order e 0 (SortedKeys (c_active c))) = []"
    using no by (fastforce simp: filter_empty_conv orders_set [OF m(6)] fmdom'_iff unwanted_def Let_def)
  have f: "foldl (sync_step e (want_of imps)) \<lparr>sa_c = c, sa_visited = [], sa_errs = []\<rparr> ps = \<lparr>sa_c = c, sa_visited = [], sa_errs = []\<rparr>" for ps
    by (rule sync_fold_silent) (use st settled_silent m(4) in auto)
  have ms: "\<not> moreSpecific s" if lk: "fmlookup (c_active c) p = Some s" for p s
  proof -
    obtain im where im: "fmlookup (want_of imps) p = Some im" using no [of p] lk by (cases "fmlookup (want_of imps) p") auto
    then have "p = Masked (imp_Prefix im)" using want_of_ok [of imps] by (simp add: want_ok_def)
    then show ?thesis using st [OF im] settled_not_ms lk by blast
  qed
  have o: "filter (orphan c []) (ev_order e 1 (SortedKeys (c_active c))) = []"
    using ms by (fastforce simp: filter_empty_conv orders_set [OF m(6)] fmdom'_iff orphan_def fmget_Some)
  show ?thesis using m(5) by (simp add: Sync_eq [OF m(1-3)] sync_wanted_def u f o [unfolded One_nat_def])
qed

section \<open>An example\<close>

definition exAnnP :: prefix where "exAnnP = Pfx (V4 0xC6336400) 24"

definition exAnnCfg :: annConfig where
  "exAnnCfg = \<lparr>an_Mode = ModeInject, an_LocalPref = 200, an_CauseLocalPref = fmempty, an_ProviderLocalPref = fmempty,
     an_Community = ''64500:777'', an_CauseCommunities = fmempty, an_ProviderCommunities = fmempty, an_MaxImprovements = 10,
     an_Allowlist = [Pfx (V4 0xC6336400) 22], an_NextHops = fmupd ''b'' (V4 0x0A000001) fmempty, an_Routers = [], an_ASPath = [],
     an_MoreSpecific = False, an_MaxRoutes = 0, an_Synthesize = None\<rparr>"

definition exAnnEnv :: env where
  "exAnnEnv = \<lparr>ev_Ready = True, ev_Contains = (\<lambda>p. p = exAnnP), ev_NativePath = (\<lambda>_. None), ev_ProviderPath = (\<lambda>_ _. None),
     ev_MoreSpecifics = (\<lambda>_. []), ev_Reserved = (\<lambda>_. False), ev_Held = (\<lambda>_. False), ev_Others = 0, ev_Now = 1000 * Second,
     ev_Leader = True, ev_fails = (\<lambda>_ _. False), ev_order = (\<lambda>_ ps. ps)\<rparr>"

definition exAnn :: Controller where
  "exAnn = \<lparr>c_cfg = exAnnCfg, c_ann = Some \<lparr>ac_Bind = True, ac_BindRouters = False, ac_SetRouters = True\<rparr>,
     c_rib = Some \<lparr>rc_PathRIB = False, rc_MoreSpecificRIB = False\<rparr>, c_active = fmempty, c_improvements = 0, c_onWire = 0,
     c_routes = 0, c_srv = False, c_bound = False, c_log = []\<rparr>"

definition exAnnImp :: Improvement where
  "exAnnImp = zeroImprovement\<lparr>imp_Prefix := exAnnP, imp_Provider := ''b'', imp_Native := ''a'', imp_Cause := CausePerformance\<rparr>"

definition exAnnAfter :: Controller where "exAnnAfter = fst (Sync exAnnEnv [exAnnImp] exAnn)"

lemma ex_New: "NewController exAnnCfg (c_ann exAnn) (c_rib exAnn) = Inr exAnn"
  by (simp add: NewController_def validateInject_def exAnnCfg_def exAnn_def fm_all_def canon_extras_def check_synthesize_def as_path_ok_def
      CommunityText_def colon_def ParseUint_def digit_def enumerate_eq_zip decimal.simps digit_char_def Let_def fmap_ext)

lemma ex_Masked: "Masked exAnnP = exAnnP"
  by code_simp

lemma ex_Sync: "snd (Sync exAnnEnv [exAnnImp] exAnn) = []"
  by code_simp


section \<open>Properties\<close>

text \<open>The controllers a sequence of operations can reach.\<close>

definition reachable_ctl :: "Controller \<Rightarrow> bool" where
  "reachable_ctl c \<longleftrightarrow> (\<exists>cfg ann rib c0 ops. NewController cfg ann rib = Inr c0 \<and> c = run_ann_ops ops c0)"

lemma reachable_ok: "reachable_ctl c \<Longrightarrow> ctl_ok c"
  by (auto simp: reachable_ctl_def intro: ctl_ok_ops ctl_ok_New)

lemma reachable_active_ok: "reachable_ctl c \<Longrightarrow> active_ok e c"
  using reachable_ok by (auto simp: ctl_ok_def intro: table_ok_active)

lemma ex_reachable: "reachable_ctl exAnn" "reachable_ctl exAnnAfter"
proof -
  have "run_ann_ops [] exAnn = exAnn" "run_ann_ops [OpSync exAnnEnv [exAnnImp]] exAnn = exAnnAfter"
    by (simp_all add: run_ann_ops_def exAnnAfter_def)
  then show "reachable_ctl exAnn" "reachable_ctl exAnnAfter" unfolding reachable_ctl_def using ex_New by metis+
qed

lemma ex_orders: "orders exAnnEnv"
  by (simp add: orders_def exAnnEnv_def)

text \<open>
  C11: the table is the wire. After any sequence of operations, with any announcement or withdrawal failing, the
  routes the controller believes to be active are exactly those the successful calls left on the wire,
  with the same provider, local preference, communities and AS path. The hypothesis excludes one failure: a call
  of \<open>SetRouters\<close> that returned an error, after which the source clears its table without knowing the wire.
\<close>

theorem controller_table_is_wire:
  assumes "reachable_ctl c" and "no_failed_reload (c_log c)"
  shows "wire (c_log c) p = map_option slot_view (fmlookup (c_active c) p)"
  using reachable_ok [OF assms(1)] assms(2) by (simp add: ctl_ok_def table_ok_def table_view_def)

theorem controller_table_is_wire_witness:
  "wire (c_log exAnnAfter) exAnnP = map_option slot_view (fmlookup (c_active exAnnAfter) exAnnP)"
  by (rule controller_table_is_wire [OF ex_reachable(2)]) code_simp

text \<open>
  What the controller reports is true in every reachable state: the published counters are the number of
  improvements and of routes in the table, and outside inject mode nothing is on the wire.
\<close>

theorem controller_counts:
  assumes "reachable_ctl c"
  shows "Active c = int (card {p. OnWireProvider c p \<noteq> None \<and> Masked p = p}) \<and> Routes c = int (card (fmdom' (c_active c))) \<and>
    (an_Mode (c_cfg c) = ModeInject \<or> c_active c = fmempty)"
proof -
  note ok = reachable_ok [OF assms]
  have "{p. OnWireProvider c p \<noteq> None \<and> Masked p = p} = improvement_set (c_active c)"
  proof -
    have "OnWireProvider c p \<noteq> None \<and> Masked p = p \<longleftrightarrow> counted (c_active c) p = 1" for p
      using active_okD [OF reachable_active_ok [OF assms], of p]
      by (cases "Masked p = p") (auto simp: OnWireProvider_def counted_def split: option.splits)
    then show ?thesis by (simp add: improvement_set_def)
  qed
  then show ?thesis using ok
    by (auto simp: ctl_ok_def stored_ok_def table_ok_def mode_ok_def Active_def Routes_def fmlen_def split: if_splits)
qed



text \<open>
  C15: a synchronisation respects the caps. It never brings the number of improvements above
  \<open>max_improvements\<close> less the routes of inbound steering, nor the routes above \<open>max_routes\<close> where that
  applies, beyond what was there before.
\<close>

theorem Sync_respects_caps:
  assumes "reachable_ctl c"
  shows "c_improvements (fst (Sync e imps c)) \<le> max (c_improvements c) (an_MaxImprovements (c_cfg c) - ev_Others e) \<and>
    (an_MoreSpecific (c_cfg c) \<or> an_Synthesize (c_cfg c) \<noteq> None \<longrightarrow>
       int (fmlen (c_active (fst (Sync e imps c)))) \<le> max (int (fmlen (c_active c))) (an_MaxRoutes (c_cfg c) - ev_Others e))"
proof -
  obtain c' where c': "wire_run e c c'" "fst (Sync e imps c) = store c'" by (rule Sync_run [OF reachable_active_ok [OF assms]])
  have "caps_ok (c_improvements c) (int (fmlen (c_active c))) e c"
    using reachable_ok [OF assms] by (simp add: caps_ok_def count_ok_def ctl_ok_def table_ok_def)
  from caps.run [OF c'(1) this] c'(2) run_cfg [OF c'(1)] show ?thesis by (auto simp: caps_ok_def caps_on_def)
qed

theorem Sync_respects_caps_witness: "c_improvements exAnnAfter \<le> max (c_improvements exAnn) (10 - 0)"
  using Sync_respects_caps [OF ex_reachable(1), of exAnnEnv "[exAnnImp]"] by (simp add: exAnnAfter_def) (simp add: exAnn_def exAnnCfg_def exAnnEnv_def)

text \<open>Outside inject mode, on standby and without the RIB, a synchronisation without an error leaves no route.\<close>

lemma Sync_off:
  assumes "reachable_ctl c" and "\<not> (an_Mode (c_cfg c) = ModeInject \<and> ev_Leader e \<and> ev_Ready e)" and "Sync e imps c = (c', [])"
  shows "c_active c' = fmempty"
proof -
  have "c_active c = fmempty" if "fmlen (c_active c) = 0"
    using that by (auto simp: fmlen_def fmdom'_iff intro!: fmap_ext)
  moreover have "an_Mode (c_cfg c) = ModeInject \<or> c_active c = fmempty" using controller_counts [OF assms(1)] by blast
  ultimately show ?thesis
    using assms(2,3) by (auto simp: Sync_def Let_def case_prod_beta withdrawAllLocked_def ann_do_eq split: bool.splits if_splits)
qed

text \<open>
  C13: a synchronisation without an error leaves exactly the wanted improvements on the wire, where they may be
  there. In inject mode, with the lease and a session of the RIB up, that is every wanted one that the leak watch
  does not hold, toward its provider and with the local preference and the communities of the configuration, and
  no other; in observe mode, on standby or without the RIB no route at all is left.
\<close>

theorem Sync_complete:
  assumes "reachable_ctl c" and "orders e" and "Sync e imps c = (c', [])" and "Masked p = p"
  shows "if an_Mode (c_cfg c) = ModeInject \<and> ev_Leader e \<and> ev_Ready e
    then OnWireProvider c' p =
        (case fmlookup (want_of imps) p of None \<Rightarrow> None | Some im \<Rightarrow> if ev_Held e p then None else Some (imp_Provider im)) \<and>
      (\<forall>im s. fmlookup (want_of imps) p = Some im \<longrightarrow> \<not> ev_Held e p \<longrightarrow> fmlookup (c_active c') p = Some s \<longrightarrow> carries (c_cfg c) im s)
    else c_active c' = fmempty"
proof (cases "an_Mode (c_cfg c) = ModeInject \<and> ev_Leader e \<and> ev_Ready e")
  case True
  then show ?thesis
    using Sync_views [OF reachable_active_ok [OF assms(1)] assms(2) _ _ _ assms(3), of p] assms(4)
    by (auto simp: OnWireProvider_def imp_view_def carries_def split: option.splits if_splits)
next
  case False
  then show ?thesis using Sync_off [OF assms(1) False assms(3)] by auto
qed

theorem Sync_complete_witness: "OnWireProvider exAnnAfter exAnnP = Some ''b''"
proof -
  have "Sync exAnnEnv [exAnnImp] exAnn = (exAnnAfter, [])" using ex_Sync by (simp add: exAnnAfter_def prod_eq_iff)
  from Sync_complete [OF ex_reachable(1) ex_orders this ex_Masked] show ?thesis
    by (simp add: exAnnCfg_def exAnn_def exAnnEnv_def want_of_def exAnnImp_def ex_Masked)
qed

text \<open>
  C14: synchronising again is silent. In inject mode, with the lease and the RIB, with more-specific injection off and
  no improvement synthesized: when a synchronisation returned no error, doing it again with the same improvements and
  surroundings calls the announcer for nothing and changes nothing.
\<close>

theorem Sync_again_silent:
  assumes "reachable_ctl c" and "orders e" and m: "an_Mode (c_cfg c) = ModeInject" "ev_Leader e" "ev_Ready e" "\<not> an_MoreSpecific (c_cfg c)"
    and im: "\<forall>im \<in> set imps. \<not> IsValid (imp_Covering im)" and r: "Sync e imps c = (c', [])"
  shows "Sync e imps c' = (c', [])"
proof -
  note ex = Sync_exact [OF reachable_active_ok [OF assms(1)] assms(2) m r]
  have "\<not> IsValid (imp_Covering x)" if "fmlookup (want_of imps) p = Some x" for p x
  proof -
    have "fmlookup (foldl (\<lambda>m im. fmupd (Masked (imp_Prefix im)) im m) m xs) p = Some x \<Longrightarrow> fmlookup m p = Some x \<or> x \<in> set xs" for m xs
      by (induction xs arbitrary: m) (fastforce split: if_splits)+
    from this [of fmempty imps] that im show ?thesis by (auto simp: want_of_def)
  qed
  then show ?thesis using ex m assms(2) by (intro Sync_silent) auto
qed

theorem Sync_again_silent_witness: "Sync exAnnEnv [exAnnImp] exAnnAfter = (exAnnAfter, [])"
proof -
  have "Sync exAnnEnv [exAnnImp] exAnn = (exAnnAfter, [])" using ex_Sync by (simp add: exAnnAfter_def prod_eq_iff)
  from Sync_again_silent [OF ex_reachable(1) ex_orders _ _ _ _ _ this] show ?thesis
    by (simp add: exAnnCfg_def exAnn_def exAnnEnv_def exAnnImp_def zeroImprovement_def)
qed

text \<open>
  The controller fails closed. While this instance is not the leader, or no BGP session is up, a
  synchronisation announces nothing, and when the announcer withdraws everything nothing is left on the wire.
\<close>

theorem Sync_fails_closed:
  assumes "reachable_ctl c" and "an_Mode (c_cfg c) = ModeInject" and "\<not> ev_Leader e \<or> \<not> ev_Ready e"
  shows "(\<exists>new. c_log (fst (Sync e imps c)) = c_log c @ new \<and> (\<forall>x \<in> set new. fst x = AnnWithdrawAll)) \<and>
    (snd (Sync e imps c) = [] \<longrightarrow> c_active (fst (Sync e imps c)) = fmempty)"
proof -
  have "c_active c = fmempty" if "fmlen (c_active c) = 0"
    using that by (auto simp: fmlen_def fmdom'_iff intro!: fmap_ext)
  then show ?thesis
    using assms(2,3) by (auto simp: Sync_def Let_def case_prod_beta withdrawAllLocked_def ann_do_eq split: bool.splits)
qed

end
