(* ===== verification/Inbound.thy ===== *)
theory Inbound
  imports Select
begin

text \<open>
  Inbound optimization (src/internal/inbound/inbound.go): which providers the operator's own prefixes are
  steered away from, and the steer routes on the wire. The inbound announcer, the RIB view and the other
  controllers are not part of it: what they answer during one operation is the record \<open>in_env\<close>, and every call of
  the announcer is kept with its outcome in the log \<open>ib_log\<close>, which the source does not have. The mutex makes
  an operation one step; the methods of a nil controller do nothing and are left out.
\<close>

section \<open>Data\<close>

record PerfConfig =
  pf_LossPct :: float64
  pf_LatencyMs :: float64
  pf_MinPrefixes :: int
  pf_ReleasePct :: float64

record Damping =
  da_Disabled :: bool
  da_Confirm :: duration
  da_Backoff :: float64
  da_MaxHold :: duration

record inConfig =
  ic_Mode :: string
  ic_Prefixes :: "prefix list"
  ic_Allowlist :: "prefix list"
  ic_Community :: string
  ic_LocalPref :: "32 word"
  ic_MaxImprovements :: int
  ic_SharedCap :: int
  ic_HoldTime :: duration
  ic_TTL :: duration
  ic_ReleasePct :: float64
  ic_MaxAge :: duration
  ic_Providers :: "string list"
  ic_ASN :: "string \<Rightarrow> 32 word"
  ic_Performance :: "PerfConfig option"
  ic_PerfMaxAge :: duration
  ic_Damping :: Damping
  ic_Moderated :: "string \<Rightarrow> bool"

record InboundAction =
  ia_Provider :: string
  ia_Name :: string
  ia_Prepend :: int
  ia_Withhold :: bool
  ia_MED :: "32 word"
  ia_Communities :: "string list"

record Path =
  pa_Provider :: string
  pa_Prefix :: prefix
  pa_LossPct :: float64
  pa_RTT :: duration
  pa_Time :: time

record PerfGap =
  pg_LossPct :: float64
  pg_RTTMs :: float64
  pg_LossGap :: float64
  pg_RTTGapMs :: float64
  pg_Prefixes :: int

datatype trigger = TriggerCommit | TriggerPerformance

fun trigger_text :: "trigger \<Rightarrow> string" where
  "trigger_text TriggerCommit = ''commit''"
| "trigger_text TriggerPerformance = ''performance''"

definition maxFutureSkew :: duration where "maxFutureSkew = Minute"

definition DefaultInboundReleasePct :: float64 where "DefaultInboundReleasePct = 90"

definition DefaultInboundPerfReleasePct :: float64 where "DefaultInboundPerfReleasePct = 50"

record Steer =
  st_Provider :: string
  st_Trigger :: trigger
  st_Since :: time
  st_InMbps95 :: float64
  st_CommitMbps :: float64
  st_Action :: InboundAction
  st_Perf :: "PerfGap option"
  st_Moderated :: bool
  st_Hold :: duration
  st_HoldUntil :: time
  st_Flaps :: int
  st_Shift :: float64

record damping =
  dm_released :: time
  dm_releaseIn95 :: float64
  dm_trigger :: "trigger option"
  dm_flaps :: int
  dm_shift :: float64

text \<open>The texts of a change and of a blocked provider, one constructor per message.\<close>

datatype in_reason =
    PerfDataMissing | TTLReached | PerfWithinRelease PerfGap | TelemetryMissing
  | BelowRelease float64 float64 | AboveCommit float64 float64 | WorstProvider PerfGap | RevertReason string

datatype block_reason =
    Inertia float64 | Confirming trigger duration | ReleasedRecently | BackingOff time | NoCatalogAction
  | EveryProvider | MEDMovesNothing "32 word"

datatype in_action = ActionSteer | ActionRelease

record in_change =
  ch_Action :: in_action
  ch_Steer :: Steer
  ch_Reason :: in_reason

record inRoute =
  ir_Prefix :: prefix
  ir_NextHop :: addr
  ir_Away :: "string list"

record InboundRoute =
  io_Prefix :: prefix
  io_NextHop :: addr
  io_LocalPref :: "32 word"
  io_Community :: string
  io_Away :: "string list"

text \<open>The calls of the inbound announcer. The controller keeps what the source keeps, and the log.\<close>

datatype in_call = InAnnounce InboundRoute | InWithdraw prefix | InWithdrawAll

text \<open>The announcer as the controller sees it without a call: its catalog. \<open>ib_ann\<close> is \<open>None\<close> for a nil announcer.\<close>

record inController =
  ib_cfg :: inConfig
  ib_ann :: "(string \<Rightarrow> InboundAction option) option"
  ib_rib :: bool
  ib_steers :: "(string, Steer) fmap"
  ib_cooldown :: "(string, time) fmap"
  ib_backedOff :: "string list"
  ib_blocked :: "(string \<times> block_reason) list"
  ib_evaluated :: time
  ib_active :: "(prefix, inRoute) fmap"
  ib_onWire :: int
  ib_pending :: "(string, time) fmap"
  ib_damp :: "(string, damping) fmap"
  ib_log :: "(in_call \<times> bool) list"

record in_env =
  ie_Ready :: bool
  ie_NextHop :: "prefix \<Rightarrow> addr option"
  ie_Excluded :: "prefix \<Rightarrow> bool"
  ie_Others :: "int option"
  ie_Leader :: bool
  ie_fails :: "(in_call \<times> bool) list \<Rightarrow> in_call \<Rightarrow> bool"

datatype in_error =
    InNoAnnouncer | InNoRIB | InNoLocalPref | InNoCommunity | InNoCap | InNoAllowlist
  | InCallFailed in_call | InNotAllowlisted prefix | InNotInRIB prefix | InMaxReached | InSharedReached

definition sortedKeys :: "(string, 'v) fmap \<Rightarrow> string list" where
  "sortedKeys m = sorted_list_of_set (fmdom' m)"

section \<open>Construction\<close>

definition in_checkInject :: "inConfig \<Rightarrow> bool \<Rightarrow> bool \<Rightarrow> in_error option" where
  "in_checkInject cfg ann rib =
     (if \<not> ann then Some InNoAnnouncer
      else if \<not> rib then Some InNoRIB
      else if ic_LocalPref cfg = 0 then Some InNoLocalPref
      else if ic_Community cfg = [] then Some InNoCommunity
      else if ic_MaxImprovements cfg < 1 then Some InNoCap
      else if ic_Allowlist cfg = [] then Some InNoAllowlist
      else None)"

definition perf_defaults :: "PerfConfig \<Rightarrow> PerfConfig" where
  "perf_defaults pc =
     pc\<lparr>pf_MinPrefixes := (if pf_MinPrefixes pc < 1 then 1 else pf_MinPrefixes pc),
        pf_ReleasePct := (if pf_ReleasePct pc \<le> 0 \<or> pf_ReleasePct pc > 100 then DefaultInboundPerfReleasePct else pf_ReleasePct pc)\<rparr>"

definition in_New :: "inConfig \<Rightarrow> (string \<Rightarrow> InboundAction option) option \<Rightarrow> bool \<Rightarrow> in_error + inController" where
  "in_New cfg ann rib =
     (case (if ic_Mode cfg = ''inject'' then in_checkInject cfg (ann \<noteq> None) rib else None) of
        Some err \<Rightarrow> Inl err
      | None \<Rightarrow>
          (let cfg1 = cfg\<lparr>
             ic_ReleasePct := (if ic_ReleasePct cfg \<le> 0 \<or> ic_ReleasePct cfg > 100 then DefaultInboundReleasePct else ic_ReleasePct cfg),
             ic_Performance := map_option perf_defaults (ic_Performance cfg),
             ic_Damping := (let d = ic_Damping cfg in if da_Backoff d < 1 then d\<lparr>da_Backoff := 1\<rparr> else d),
             ic_Prefixes := Sort (map Masked (ic_Prefixes cfg))\<rparr>
           in Inr \<lparr>ib_cfg = cfg1, ib_ann = ann, ib_rib = rib, ib_steers = fmempty, ib_cooldown = fmempty, ib_backedOff = [],
                ib_blocked = [], ib_evaluated = 0, ib_active = fmempty, ib_onWire = 0, ib_pending = fmempty, ib_damp = fmempty,
                ib_log = []\<rparr>))"

definition medSiblings :: "inConfig \<Rightarrow> string \<Rightarrow> string list" where
  "medSiblings cfg p =
     (if ic_ASN cfg p = 0 then [] else filter (\<lambda>x. x \<noteq> p \<and> ic_ASN cfg x = ic_ASN cfg p) (ic_Providers cfg))"

definition catalog_action :: "inController \<Rightarrow> string \<Rightarrow> InboundAction option" where
  "catalog_action c provider =
     (case ib_ann c of
        None \<Rightarrow> Some \<lparr>ia_Provider = provider, ia_Name = [], ia_Prepend = 0, ia_Withhold = False, ia_MED = 0, ia_Communities = []\<rparr>
      | Some act \<Rightarrow> act provider)"

section \<open>Damping\<close>

definition in_window :: "inConfig \<Rightarrow> duration" where
  "in_window cfg = (if da_Disabled (ic_Damping cfg) then 0 else max (da_MaxHold (ic_Damping cfg)) (ic_HoldTime cfg))"

definition noteRelease :: "time \<Rightarrow> Steer \<Rightarrow> inController \<Rightarrow> inController" where
  "noteRelease now s c =
     (let p = st_Provider s;
          d = fmget \<lparr>dm_released = 0, dm_releaseIn95 = 0, dm_trigger = None, dm_flaps = 0, dm_shift = 0\<rparr> (ib_damp c) p
      in c\<lparr>ib_backedOff := removeAll p (ib_backedOff c),
           ib_damp := fmupd p (d\<lparr>dm_released := now, dm_releaseIn95 := st_InMbps95 s, dm_trigger := Some (st_Trigger s)\<rparr>) (ib_damp c)\<rparr>)"

text \<open>The loop of \<open>damped\<close>: at most \<open>n\<close> multiplications while the hold is below the maximum.\<close>

fun hold_loop :: "nat \<Rightarrow> float64 \<Rightarrow> float64 \<Rightarrow> float64 \<Rightarrow> float64" where
  "hold_loop 0 backoff mx hold = hold"
| "hold_loop (Suc n) backoff mx hold = (if hold < mx then hold_loop n backoff mx (hold * backoff) else hold)"

text \<open>The conversion of a \<open>float64\<close> to a duration drops the fraction.\<close>

definition to_duration :: "float64 \<Rightarrow> duration" where
  "to_duration x = (if x < 0 then \<lceil>x\<rceil> else \<lfloor>x\<rfloor>)"

definition damped :: "time \<Rightarrow> Steer \<Rightarrow> inController \<Rightarrow> Steer \<times> inController" where
  "damped now s0 c =
     (let cfg = ib_cfg c; p = st_Provider s0; s = s0\<lparr>st_Hold := ic_HoldTime cfg\<rparr> in
      case (if da_Disabled (ic_Damping cfg) then None else fmlookup (ib_damp c) p) of
        None \<Rightarrow> (s, c\<lparr>ib_damp := fmdrop p (ib_damp c)\<rparr>)
      | Some d0 \<Rightarrow>
          if time_sub now (dm_released d0) > in_window cfg then (s, c\<lparr>ib_damp := fmdrop p (ib_damp c)\<rparr>)
          else let d1 = d0\<lparr>dm_flaps := dm_flaps d0 + 1\<rparr>;
                   back = st_InMbps95 s - dm_releaseIn95 d1;
                   d2 = (if st_Trigger s = TriggerCommit \<and> dm_trigger d1 = Some TriggerCommit \<and> back > dm_shift d1
                         then d1\<lparr>dm_shift := back\<rparr> else d1);
                   hold = hold_loop (nat (dm_flaps d2)) (da_Backoff (ic_Damping cfg)) (of_int (da_MaxHold (ic_Damping cfg)))
                            (of_int (ic_HoldTime cfg))
               in (s\<lparr>st_Shift := (if st_Trigger s = TriggerCommit then dm_shift d2 else st_Shift s), st_Flaps := dm_flaps d2,
                     st_Hold := min (to_duration hold) (max (da_MaxHold (ic_Damping cfg)) (ic_HoldTime cfg))\<rparr>,
                   c\<lparr>ib_damp := fmupd p d2 (ib_damp c)\<rparr>))"

section \<open>Telemetry and probes\<close>

definition in_fresh_age :: "time \<Rightarrow> time \<Rightarrow> duration \<Rightarrow> bool" where
  "in_fresh_age now t maxAge \<longleftrightarrow>
     t \<noteq> 0 \<and> \<not> time_sub now t < - maxFutureSkew \<and> \<not> (maxAge > 0 \<and> time_sub now t > maxAge)"

definition fresh_usage :: "inConfig \<Rightarrow> time \<Rightarrow> Usage list \<Rightarrow> (string, Usage) fmap" where
  "fresh_usage cfg now usage =
     foldl (\<lambda>m u. if us_Provider u \<in> set (ic_Providers cfg) \<and> us_Error u = [] \<and> InboundMbps u \<noteq> None \<and>
                     in_fresh_age now (us_Updated u) (ic_MaxAge cfg)
                  then fmupd (us_Provider u) u m else m) fmempty usage"

definition perfReleased :: "PerfConfig \<Rightarrow> PerfGap \<Rightarrow> bool" where
  "perfReleased pc g =
     (let f = pf_ReleasePct pc / 100 in
      if pf_LossPct pc \<ge> 0 \<and> pg_LossGap g > pf_LossPct pc * f then False
      else if pf_LatencyMs pc \<ge> 0 \<and> pg_RTTGapMs g > pf_LatencyMs pc * f then False
      else True)"

definition perfSteered :: "inController \<Rightarrow> bool" where
  "perfSteered c = list_ex (\<lambda>p. case fmlookup (ib_steers c) p of None \<Rightarrow> False | Some s \<Rightarrow> st_Trigger s = TriggerPerformance)
     (sortedKeys (ib_steers c))"

type_synonym path_table = "(string, (prefix, Path) fmap) fmap"

definition fresh_paths :: "inConfig \<Rightarrow> time \<Rightarrow> Path list \<Rightarrow> path_table" where
  "fresh_paths cfg now paths =
     foldl (\<lambda>m r. if pa_Provider r \<in> set (ic_Providers cfg) \<and> IsValid (pa_Prefix r) \<and> in_fresh_age now (pa_Time r) (ic_PerfMaxAge cfg)
                  then fmupd (pa_Provider r) (fmupd (Masked (pa_Prefix r)) r (fmget fmempty m (pa_Provider r))) m else m) fmempty paths"

definition common_prefixes :: "path_table \<Rightarrow> prefix list" where
  "common_prefixes tab =
     (case sortedKeys tab of
        [] \<Rightarrow> []
      | q # qs \<Rightarrow> filter (\<lambda>p. list_all (\<lambda>x. fmlookup (fmget fmempty tab x) p \<noteq> None) qs) (SortedKeys (fmget fmempty tab q)))"

definition paths_of :: "path_table \<Rightarrow> prefix list \<Rightarrow> string \<Rightarrow> Path list" where
  "paths_of tab common q = List.map_filter (fmlookup (fmget fmempty tab q)) common"

definition mean_loss :: "path_table \<Rightarrow> prefix list \<Rightarrow> string \<Rightarrow> float64" where
  "mean_loss tab common q = sum_list (map pa_LossPct (paths_of tab common q)) / of_nat (length common)"

text \<open>The mean over the paths that answered; \<open>None\<close> when none did.\<close>

definition mean_rtt :: "path_table \<Rightarrow> prefix list \<Rightarrow> string \<Rightarrow> float64 option" where
  "mean_rtt tab common q =
     (let answered = filter (\<lambda>r. pa_LossPct r < 100) (paths_of tab common q) in
      if answered = [] then None
      else Some (sum_list (map (\<lambda>r. of_int (pa_RTT r) / of_int Millisecond) answered) / of_nat (length answered)))"

text \<open>The least of a list of numbers, \<open>None\<close> standing for infinity.\<close>

definition least_of :: "float64 list \<Rightarrow> float64 option" where
  "least_of xs = foldl (\<lambda>b x. Some (case b of None \<Rightarrow> x | Some y \<Rightarrow> min y x)) None xs"

definition perf_gap :: "path_table \<Rightarrow> prefix list \<Rightarrow> string list \<Rightarrow> string \<Rightarrow> PerfGap" where
  "perf_gap tab common provs q =
     (let others = filter (\<lambda>x. x \<noteq> q) provs;
          bestLoss = least_of (map (mean_loss tab common) others);
          bestRTT = least_of (List.map_filter (mean_rtt tab common) others);
          rtt = mean_rtt tab common q
      in \<lparr>pg_LossPct = mean_loss tab common q, pg_RTTMs = (case rtt of None \<Rightarrow> 0 | Some v \<Rightarrow> v),
          pg_LossGap = mean_loss tab common q - the bestLoss,
          pg_RTTGapMs = (case (rtt, bestRTT) of (Some v, Some b) \<Rightarrow> v - b | _ \<Rightarrow> 0),
          pg_Prefixes = int (length common)\<rparr>)"

definition perf_score :: "PerfConfig \<Rightarrow> PerfGap \<Rightarrow> float64" where
  "perf_score pc g =
     (let tl = max (pf_LossPct pc) (1 / 10 ^ 9); tr = max (pf_LatencyMs pc) (1 / 10 ^ 9);
          s1 = (if pf_LossPct pc \<ge> 0 \<and> pg_LossGap g \<ge> tl then max 0 (pg_LossGap g / tl) else 0)
      in if pf_LatencyMs pc \<ge> 0 \<and> pg_RTTGapMs g \<ge> tr then max s1 (pg_RTTGapMs g / tr) else s1)"

record perfView =
  pv_gaps :: "(string, PerfGap) fmap"
  pv_worst :: string

definition worst_step :: "PerfConfig \<Rightarrow> (string \<Rightarrow> PerfGap) \<Rightarrow> perfView \<times> float64 \<Rightarrow> string \<Rightarrow> perfView \<times> float64" where
  "worst_step pc gap acc q =
     (let (v, best) = acc; g = gap q; v1 = v\<lparr>pv_gaps := fmupd q g (pv_gaps v)\<rparr>; score = perf_score pc g
      in if score > best then (v1\<lparr>pv_worst := q\<rparr>, score) else (v1, best))"

definition in_performance :: "inConfig \<Rightarrow> time \<Rightarrow> Path list \<Rightarrow> perfView" where
  "in_performance cfg now paths =
     (let none = \<lparr>pv_gaps = fmempty, pv_worst = []\<rparr> in
      case ic_Performance cfg of
        None \<Rightarrow> none
      | Some pc \<Rightarrow>
          (let tab = fresh_paths cfg now paths; common = common_prefixes tab; provs = sortedKeys tab in
           if length provs < 2 \<or> int (length common) < pf_MinPrefixes pc then none
           else fst (foldl (worst_step pc (perf_gap tab common provs)) (none, 0) provs)))"

section \<open>Plan\<close>

record in_input =
  in_Usage :: "Usage list"
  in_Paths :: "Path list"

text \<open>The variables of \<open>Plan\<close> that its loops change besides the controller.\<close>

record plan_acc =
  pl_c :: inController
  pl_changes :: "in_change list"
  pl_released :: "string list"

definition in_block :: "string \<Rightarrow> block_reason \<Rightarrow> inController \<Rightarrow> inController" where
  "in_block p why c = c\<lparr>ib_blocked := ib_blocked c @ [(p, why)]\<rparr>"

definition set_steer :: "Steer \<Rightarrow> inController \<Rightarrow> inController" where
  "set_steer s c = c\<lparr>ib_steers := fmupd (st_Provider s) s (ib_steers c)\<rparr>"

definition in_release :: "time \<Rightarrow> Steer \<Rightarrow> in_reason \<Rightarrow> bool \<Rightarrow> plan_acc \<Rightarrow> plan_acc" where
  "in_release now s why cool a =
     (let c1 = (pl_c a)\<lparr>ib_steers := fmdrop (st_Provider s) (ib_steers (pl_c a))\<rparr>;
          c2 = (if cool \<and> st_Hold s > 0 then c1\<lparr>ib_cooldown := fmupd (st_Provider s) (now + st_Hold s) (ib_cooldown c1)\<rparr> else c1)
      in a\<lparr>pl_c := noteRelease now s c2, pl_released := st_Provider s # pl_released a,
           pl_changes := pl_changes a @ [\<lparr>ch_Action = ActionRelease, ch_Steer = s, ch_Reason = why\<rparr>]\<rparr>)"

definition review_perf :: "inConfig \<Rightarrow> time \<Rightarrow> perfView \<Rightarrow> Steer \<Rightarrow> plan_acc \<Rightarrow> plan_acc" where
  "review_perf cfg now perf s a =
     (let held = (time_sub now (st_Since s) \<ge> st_Hold s);
          ttl = (ic_TTL cfg > 0 \<and> time_sub now (st_Since s) \<ge> ic_TTL cfg)
      in case fmlookup (pv_gaps perf) (st_Provider s) of
           None \<Rightarrow> in_release now s PerfDataMissing True a
         | Some g \<Rightarrow>
             if ttl then in_release now s TTLReached False a
             else if held \<and> (case ic_Performance cfg of None \<Rightarrow> True | Some pc \<Rightarrow> perfReleased pc g)
             then in_release now (s\<lparr>st_Perf := Some g\<rparr>) (PerfWithinRelease g) True a
             else a\<lparr>pl_c := set_steer (s\<lparr>st_Perf := Some g\<rparr>) (pl_c a)\<rparr>)"

definition review_commit :: "inConfig \<Rightarrow> time \<Rightarrow> (string, Usage) fmap \<Rightarrow> Steer \<Rightarrow> plan_acc \<Rightarrow> plan_acc" where
  "review_commit cfg now fresh s0 a =
     (let held = (time_sub now (st_Since s0) \<ge> st_Hold s0);
          ttl = (ic_TTL cfg > 0 \<and> time_sub now (st_Since s0) \<ge> ic_TTL cfg)
      in case fmlookup fresh (st_Provider s0) of
           None \<Rightarrow> in_release now s0 TelemetryMissing True a
         | Some u \<Rightarrow>
             (let in95 = us_InMbps95 u; s = s0\<lparr>st_InMbps95 := in95, st_CommitMbps := us_CommitMbps u\<rparr>;
                  limit = us_CommitMbps u * ic_ReleasePct cfg / 100
              in if ttl then in_release now s TTLReached False a
                 else if held \<and> in95 + st_Shift s \<le> limit then in_release now s (BelowRelease in95 (us_CommitMbps u)) True a
                 else let c1 = (if held \<and> in95 \<le> limit then in_block (st_Provider s) (Inertia (st_Shift s)) (pl_c a) else pl_c a)
                      in a\<lparr>pl_c := set_steer s c1\<rparr>))"

text \<open>One steer of the loop over the steers; a steer is stored under the name of its provider.\<close>

definition review_step :: "inConfig \<Rightarrow> time \<Rightarrow> (string, Usage) fmap \<Rightarrow> perfView \<Rightarrow> plan_acc \<Rightarrow> string \<Rightarrow> plan_acc" where
  "review_step cfg now fresh perf a p =
     (case fmlookup (ib_steers (pl_c a)) p of
        None \<Rightarrow> a
      | Some s \<Rightarrow> if st_Trigger s = TriggerPerformance then review_perf cfg now perf s a else review_commit cfg now fresh s a)"

record cand =
  cd_trigger :: trigger
  cd_p :: string
  cd_in95 :: float64
  cd_commit :: float64
  cd_ratio :: float64
  cd_gap :: "PerfGap option"
  cd_reason :: in_reason

definition cand_less :: "cand \<Rightarrow> cand \<Rightarrow> bool" where
  "cand_less a b \<longleftrightarrow> (if cd_ratio a \<noteq> cd_ratio b then cd_ratio a > cd_ratio b else cd_p a < cd_p b)"

definition commit_cand :: "Usage \<Rightarrow> cand" where
  "commit_cand u = \<lparr>cd_trigger = TriggerCommit, cd_p = us_Provider u, cd_in95 = us_InMbps95 u, cd_commit = us_CommitMbps u,
     cd_ratio = us_InMbps95 u / us_CommitMbps u, cd_gap = None, cd_reason = AboveCommit (us_InMbps95 u) (us_CommitMbps u)\<rparr>"

definition commit_cands :: "(string, Usage) fmap \<Rightarrow> plan_acc \<Rightarrow> cand list" where
  "commit_cands fresh a =
     sort_by cand_less (map commit_cand
       (filter (\<lambda>u. fmlookup (ib_steers (pl_c a)) (us_Provider u) = None \<and> us_Provider u \<notin> set (pl_released a) \<and>
                    us_InMbps95 u > us_CommitMbps u)
          (map (fmget zeroUsage fresh) (sortedKeys fresh))))"

definition perf_cands :: "perfView \<Rightarrow> plan_acc \<Rightarrow> cand list" where
  "perf_cands perf a =
     (let w = pv_worst perf; c = pl_c a in
      if w \<noteq> [] \<and> w \<notin> set (pl_released a) \<and> \<not> perfSteered c \<and> fmlookup (ib_steers c) w = None
      then (case fmlookup (pv_gaps perf) w of
              None \<Rightarrow> []
            | Some g \<Rightarrow> [\<lparr>cd_trigger = TriggerPerformance, cd_p = w, cd_in95 = 0, cd_commit = 0, cd_ratio = 0, cd_gap = Some g,
                          cd_reason = WorstProvider g\<rparr>])
      else [])"

definition new_steer :: "inConfig \<Rightarrow> time \<Rightarrow> cand \<Rightarrow> InboundAction \<Rightarrow> Steer" where
  "new_steer cfg now cd act =
     \<lparr>st_Provider = cd_p cd, st_Trigger = cd_trigger cd, st_Since = now, st_InMbps95 = cd_in95 cd, st_CommitMbps = cd_commit cd,
      st_Action = act, st_Perf = cd_gap cd, st_Moderated = ic_Moderated cfg (trigger_text (cd_trigger cd)), st_Hold = 0,
      st_HoldUntil = 0, st_Flaps = 0, st_Shift = 0\<rparr>"

text \<open>The checks of a candidate after its cool-down, and the steer.\<close>

definition try_steer :: "time \<Rightarrow> cand \<Rightarrow> plan_acc \<Rightarrow> plan_acc" where
  "try_steer now cd a =
     (let c = pl_c a; cfg = ib_cfg c; p = cd_p cd; block = (\<lambda>why. a\<lparr>pl_c := in_block p why c\<rparr>) in
      case catalog_action c p of
        None \<Rightarrow> block NoCatalogAction
      | Some act \<Rightarrow>
          if int (fmlen (ib_steers c)) + 1 \<ge> int (length (ic_Providers cfg)) then block EveryProvider
          else if ia_MED act \<noteq> 0 \<and> \<not> list_ex (\<lambda>x. fmlookup (ib_steers c) x = None) (medSiblings cfg p)
          then block (MEDMovesNothing (ic_ASN cfg p))
          else let (s1, c1) = damped now (new_steer cfg now cd act) c;
                   s = s1\<lparr>st_HoldUntil := now + st_Hold s1\<rparr>;
                   c2 = set_steer s c1
               in a\<lparr>pl_c := c2\<lparr>ib_pending := fmdrop p (ib_pending c2)\<rparr>,
                    pl_changes := pl_changes a @ [\<lparr>ch_Action = ActionSteer, ch_Steer = s, ch_Reason = cd_reason cd\<rparr>]\<rparr>)"

definition cand_step :: "time \<Rightarrow> plan_acc \<times> string list \<Rightarrow> cand \<Rightarrow> plan_acc \<times> string list" where
  "cand_step now acc cd =
     (let (a, seen) = acc; c = pl_c a; cfg = ib_cfg c; p = cd_p cd in
      if p \<in> set seen then acc
      else let first = (case fmlookup (ib_pending c) p of None \<Rightarrow> now | Some t \<Rightarrow> t);
               c1 = c\<lparr>ib_pending := fmupd p first (ib_pending c)\<rparr>;
               confirm = da_Confirm (ic_Damping cfg);
               cooling = (case fmlookup (ib_cooldown c1) p of None \<Rightarrow> None | Some until \<Rightarrow> if now < until then Some until else None)
           in (if confirm > 0 \<and> time_sub now first < confirm then a\<lparr>pl_c := in_block p (Confirming (cd_trigger cd) confirm) c1\<rparr>
               else (case cooling of
                 Some until \<Rightarrow>
                   a\<lparr>pl_c := in_block p (if p \<in> set (ib_backedOff c1) then BackingOff until else ReleasedRecently) c1\<rparr>
               | None \<Rightarrow>
                   try_steer now cd (a\<lparr>pl_c := c1\<lparr>ib_cooldown := fmdrop p (ib_cooldown c1), ib_backedOff := removeAll p (ib_backedOff c1)\<rparr>\<rparr>)),
               p # seen))"

text \<open>The memory that is dropped at the end of a round.\<close>

definition forget :: "time \<Rightarrow> string list \<Rightarrow> inController \<Rightarrow> inController" where
  "forget now seen c =
     (let c1 = c\<lparr>ib_pending := fmfilter (\<lambda>p. p \<in> set seen) (ib_pending c)\<rparr>
      in c1\<lparr>ib_damp := fmfilter (\<lambda>p. fmlookup (ib_steers c1) p \<noteq> None \<or>
              \<not> (case fmlookup (ib_damp c1) p of None \<Rightarrow> False | Some d \<Rightarrow> time_sub now (dm_released d) > in_window (ib_cfg c1))) (ib_damp c1)\<rparr>)"

definition in_reviewed :: "time \<Rightarrow> (string, Usage) fmap \<Rightarrow> perfView \<Rightarrow> inController \<Rightarrow> plan_acc" where
  "in_reviewed now fresh perf c =
     foldl (review_step (ib_cfg c) now fresh perf) \<lparr>pl_c = c\<lparr>ib_blocked := []\<rparr>, pl_changes = [], pl_released = []\<rparr> (sortedKeys (ib_steers c))"

definition in_Plan :: "time \<Rightarrow> in_input \<Rightarrow> inController \<Rightarrow> inController \<times> in_change list" where
  "in_Plan now inp c0 =
     (let c = c0\<lparr>ib_evaluated := now\<rparr>;
          fresh = fresh_usage (ib_cfg c) now (in_Usage inp);
          perf = in_performance (ib_cfg c) now (in_Paths inp);
          a1 = in_reviewed now fresh perf c;
          (a2, seen) = foldl (cand_step now) (a1, []) (commit_cands fresh a1 @ perf_cands perf a1)
      in (forget now seen (pl_c a2), pl_changes a2))"

definition in_Evaluate :: "time \<Rightarrow> Usage list \<Rightarrow> inController \<Rightarrow> inController \<times> in_change list" where
  "in_Evaluate now usage c = in_Plan now \<lparr>in_Usage = usage, in_Paths = []\<rparr> c"

definition Revert :: "time \<Rightarrow> string \<Rightarrow> string \<Rightarrow> duration \<Rightarrow> inController \<Rightarrow> inController \<times> in_change option" where
  "Revert now provider why backoff c =
     (case fmlookup (ib_steers c) provider of
        None \<Rightarrow> (c, None)
      | Some s \<Rightarrow>
          (let c1 = c\<lparr>ib_steers := fmdrop provider (ib_steers c), ib_cooldown := fmupd provider (now + backoff) (ib_cooldown c)\<rparr>;
               c2 = noteRelease now s c1
           in (c2\<lparr>ib_backedOff := provider # ib_backedOff c2\<rparr>,
               Some \<lparr>ch_Action = ActionRelease, ch_Steer = s, ch_Reason = RevertReason why\<rparr>)))"

section \<open>The wire\<close>

definition storeActive :: "inController \<Rightarrow> inController" where
  "storeActive c = c\<lparr>ib_onWire := int (fmlen (ib_active c))\<rparr>"

definition in_do :: "in_env \<Rightarrow> in_call \<Rightarrow> inController \<Rightarrow> bool \<times> inController" where
  "in_do e x c = (let ok = \<not> ie_fails e (ib_log c) x in (ok, c\<lparr>ib_log := ib_log c @ [(x, ok)]\<rparr>))"

definition in_withdrawAllLocked :: "in_env \<Rightarrow> inController \<Rightarrow> inController \<times> in_error list" where
  "in_withdrawAllLocked e c =
     (if fmlen (ib_active c) = 0 then (c, [])
      else case in_do e InWithdrawAll c of
        (False, c1) \<Rightarrow> (c1, [InCallFailed InWithdrawAll])
      | (True, c1) \<Rightarrow> (c1\<lparr>ib_active := fmempty\<rparr>, []))"

definition in_withdrawLocked :: "in_env \<Rightarrow> prefix \<Rightarrow> inController \<Rightarrow> inController \<times> in_error list" where
  "in_withdrawLocked e p c =
     (case in_do e (InWithdraw p) c of
        (False, c1) \<Rightarrow> (c1, [InCallFailed (InWithdraw p)])
      | (True, c1) \<Rightarrow> (c1\<lparr>ib_active := fmdrop p (ib_active c1)\<rparr>, []))"

definition in_announce :: "in_env \<Rightarrow> string list \<Rightarrow> prefix \<Rightarrow> addr \<Rightarrow> inController \<Rightarrow> inController \<times> in_error list" where
  "in_announce e away p nh c =
     (let r = \<lparr>io_Prefix = p, io_NextHop = nh, io_LocalPref = ic_LocalPref (ib_cfg c), io_Community = ic_Community (ib_cfg c), io_Away = away\<rparr>
      in case in_do e (InAnnounce r) c of
           (False, c1) \<Rightarrow> (c1, [InCallFailed (InAnnounce r)])
         | (True, c1) \<Rightarrow> (c1\<lparr>ib_active := fmupd p \<lparr>ir_Prefix = p, ir_NextHop = nh, ir_Away = away\<rparr> (ib_active c1)\<rparr>, []))"

definition in_sync_prefix :: "in_env \<Rightarrow> string list \<Rightarrow> prefix \<Rightarrow> inController \<Rightarrow> inController \<times> in_error list" where
  "in_sync_prefix e away p c =
     (let cfg = ib_cfg c; on = fmlookup (ib_active c) p in
      if ie_Excluded e p then (if on \<noteq> None then in_withdrawLocked e p c else (c, []))
      else if \<not> CoveredBy (ic_Allowlist cfg) p
      then (let (c1, errs) = (if on \<noteq> None then in_withdrawLocked e p c else (c, [])) in (c1, errs @ [InNotAllowlisted p]))
      else case on of
        Some cur \<Rightarrow> if Join (ir_Away cur) '','' = Join away '','' then (c, []) else in_announce e away p (ir_NextHop cur) c
      | None \<Rightarrow>
          (case ie_NextHop e p of
             None \<Rightarrow> (c, [InNotInRIB p])
           | Some nh \<Rightarrow>
               if int (fmlen (ib_active c)) \<ge> ic_MaxImprovements cfg then (c, [InMaxReached])
               else if ic_SharedCap cfg > 0 \<and> (case ie_Others e of None \<Rightarrow> False | Some n \<Rightarrow> int (fmlen (ib_active c)) + n \<ge> ic_SharedCap cfg)
               then (c, [InSharedReached])
               else in_announce e away p nh c))"

definition in_sync_step :: "in_env \<Rightarrow> string list \<Rightarrow> inController \<times> in_error list \<Rightarrow> prefix \<Rightarrow> inController \<times> in_error list" where
  "in_sync_step e away acc p = (let (c1, errs) = in_sync_prefix e away p (fst acc) in (c1, snd acc @ errs))"

definition away_of :: "inController \<Rightarrow> string list" where
  "away_of c = filter (\<lambda>p. case fmlookup (ib_steers c) p of None \<Rightarrow> False | Some s \<Rightarrow> \<not> st_Moderated s) (sortedKeys (ib_steers c))"

definition in_Sync :: "in_env \<Rightarrow> inController \<Rightarrow> inController \<times> in_error list" where
  "in_Sync e c =
     (let away = away_of c;
          (c1, errs) =
            (if ic_Mode (ib_cfg c) \<noteq> ''inject'' then (c, [])
             else if \<not> ie_Leader e \<or> \<not> ie_Ready e \<or> away = [] then in_withdrawAllLocked e c
             else foldl (in_sync_step e away) (c, []) (ic_Prefixes (ib_cfg c)))
      in (storeActive c1, errs))"

definition in_WithdrawAll :: "in_env \<Rightarrow> inController \<Rightarrow> inController \<times> in_error list" where
  "in_WithdrawAll e c =
     (if ib_ann c = None then (c, [])
      else let (c1, errs) = (if ic_Mode (ib_cfg c) \<noteq> ''inject'' then (c, []) else in_withdrawAllLocked e c) in (storeActive c1, errs))"

definition in_Reserved :: "inController \<Rightarrow> prefix \<Rightarrow> bool" where
  "in_Reserved c p \<longleftrightarrow> Masked p \<in> set (ic_Prefixes (ib_cfg c))"

definition in_OnWire :: "inController \<Rightarrow> prefix \<Rightarrow> bool" where
  "in_OnWire c p \<longleftrightarrow> fmlookup (ib_active c) (Masked p) \<noteq> None"

definition in_Active :: "inController \<Rightarrow> int" where "in_Active c = ib_onWire c"

section \<open>Reload\<close>

record Runtime =
  rt_Mode :: string
  rt_Allowlist :: "prefix list"
  rt_HoldTime :: duration
  rt_TTL :: duration

definition in_PrepareRuntime :: "Runtime \<Rightarrow> inController \<Rightarrow> in_error option" where
  "in_PrepareRuntime rt c =
     (if rt_Mode rt \<noteq> ''inject'' then None
      else in_checkInject ((ib_cfg c)\<lparr>ic_Allowlist := rt_Allowlist rt\<rparr>) (ib_ann c \<noteq> None) (ib_rib c))"

definition in_ApplyRuntime :: "in_env \<Rightarrow> Runtime \<Rightarrow> inController \<Rightarrow> inController \<times> in_error list" where
  "in_ApplyRuntime e rt c =
     (let prev = ic_Mode (ib_cfg c);
          (c1, errs1) = (if prev = ''inject'' \<and> rt_Mode rt \<noteq> ''inject'' then in_withdrawAllLocked e c else (c, []));
          err2 = (if prev \<noteq> ''inject'' \<and> rt_Mode rt = ''inject''
                  then in_checkInject ((ib_cfg c1)\<lparr>ic_Allowlist := rt_Allowlist rt\<rparr>) (ib_ann c1 \<noteq> None) (ib_rib c1) else None)
      in if errs1 \<noteq> [] then (storeActive c1, errs1)
         else case err2 of
           Some err \<Rightarrow> (storeActive c1, [err])
         | None \<Rightarrow> (storeActive (c1\<lparr>ib_cfg := (ib_cfg c1)\<lparr>ic_Mode := rt_Mode rt, ic_Allowlist := rt_Allowlist rt,
              ic_HoldTime := rt_HoldTime rt, ic_TTL := rt_TTL rt\<rparr>\<rparr>), []))"

end
