(* ===== verification/Inbound_Spec.thy ===== *)
theory Inbound_Spec
  imports Inbound
begin

text \<open>
  What inbound optimization guarantees: it never steers away from every provider, a steer needs fresh
  evidence, the hold of a flapping provider stays inside its limits, and the steer routes on the wire are those of the
  table, safe, and within the caps.
\<close>

section \<open>The wire as a machine\<close>

definition in_route_ok :: "in_env \<Rightarrow> string list \<Rightarrow> inController \<Rightarrow> InboundRoute \<Rightarrow> bool" where
  "in_route_ok e away c r \<longleftrightarrow>
     io_Prefix r \<in> set (ic_Prefixes (ib_cfg c)) \<and> CoveredBy (ic_Allowlist (ib_cfg c)) (io_Prefix r) \<and> \<not> ie_Excluded e (io_Prefix r) \<and>
     io_Away r = away \<and> away \<noteq> [] \<and> io_Community r = ic_Community (ib_cfg c) \<and> io_LocalPref r = ic_LocalPref (ib_cfg c) \<and>
     (case fmlookup (ib_active c) (io_Prefix r) of
        Some cur \<Rightarrow> io_NextHop r = ir_NextHop cur
      | None \<Rightarrow> ie_NextHop e (io_Prefix r) = Some (io_NextHop r) \<and> int (fmlen (ib_active c)) < ic_MaxImprovements (ib_cfg c) \<and>
          (\<forall>n. ic_SharedCap (ib_cfg c) > 0 \<longrightarrow> ie_Others e = Some n \<longrightarrow> int (fmlen (ib_active c)) + n < ic_SharedCap (ib_cfg c)))"

definition in_logged :: "in_call \<Rightarrow> bool \<Rightarrow> inController \<Rightarrow> inController" where
  "in_logged x ok c = c\<lparr>ib_log := ib_log c @ [(x, ok)]\<rparr>"

definition table_route :: "InboundRoute \<Rightarrow> inRoute" where
  "table_route r = \<lparr>ir_Prefix = io_Prefix r, ir_NextHop = io_NextHop r, ir_Away = io_Away r\<rparr>"

inductive in_step :: "in_env \<Rightarrow> string list \<Rightarrow> inController \<Rightarrow> inController \<Rightarrow> bool" for e away where
  failed_announce: "in_route_ok e away c r \<Longrightarrow> in_step e away c (in_logged (InAnnounce r) False c)"
| failed_withdraw: "in_step e away c (in_logged (InWithdraw p) False c)"
| failed_all: "in_step e away c (in_logged InWithdrawAll False c)"
| in_withdraw: "in_step e away c ((in_logged (InWithdraw p) True c)\<lparr>ib_active := fmdrop p (ib_active c)\<rparr>)"
| in_withdraw_all: "in_step e away c ((in_logged InWithdrawAll True c)\<lparr>ib_active := fmempty\<rparr>)"
| in_put: "in_route_ok e away c r \<Longrightarrow>
    in_step e away c ((in_logged (InAnnounce r) True c)\<lparr>ib_active := fmupd (io_Prefix r) (table_route r) (ib_active c)\<rparr>)"

abbreviation in_run :: "in_env \<Rightarrow> string list \<Rightarrow> inController \<Rightarrow> inController \<Rightarrow> bool" where
  "in_run e away \<equiv> (in_step e away)\<^sup>*\<^sup>*"

locale in_invariant =
  fixes inv :: "in_env \<Rightarrow> inController \<Rightarrow> bool"
  assumes step: "inv e c \<Longrightarrow> in_step e away c c' \<Longrightarrow> inv e c'"
begin

lemma run: "in_run e away c c' \<Longrightarrow> inv e c \<Longrightarrow> inv e c'"
  by (induction rule: rtranclp_induct) (auto intro: step)

end

lemma in_logged_simps [simp]:
  "ib_cfg (in_logged x ok c) = ib_cfg c" "ib_active (in_logged x ok c) = ib_active c" "ib_steers (in_logged x ok c) = ib_steers c"
  "ib_log (in_logged x ok c) = ib_log c @ [(x, ok)]" "ib_ann (in_logged x ok c) = ib_ann c"
  by (simp_all add: in_logged_def)

lemma in_do_eq: "in_do e x c = (\<not> ie_fails e (ib_log c) x, in_logged x (\<not> ie_fails e (ib_log c) x) c)"
  by (simp add: in_do_def in_logged_def Let_def)

text \<open>A run changes the table of routes and the log only.\<close>

definition in_rest :: "inController \<Rightarrow> inController" where
  "in_rest c = c\<lparr>ib_active := fmempty, ib_log := []\<rparr>"

lemma in_step_rest: "in_step e away c c' \<Longrightarrow> in_rest c' = in_rest c"
  by (induction rule: in_step.induct) (simp_all add: in_rest_def in_logged_def)

lemma in_run_rest: "in_run e away c c' \<Longrightarrow> in_rest c' = in_rest c"
  by (induction rule: rtranclp_induct) (auto dest: in_step_rest)

lemma in_rest_cfg:
  assumes "in_rest c' = in_rest c"
  shows "ib_cfg c' = ib_cfg c" "ib_steers c' = ib_steers c" "ib_ann c' = ib_ann c"
  using arg_cong [OF assms, of ib_cfg] arg_cong [OF assms, of ib_steers] arg_cong [OF assms, of ib_ann]
  by (simp_all add: in_rest_def)

lemmas in_run_keeps = in_rest_cfg [OF in_run_rest]

section \<open>The operations are runs\<close>

lemma in_withdrawAll_run: "in_run e away c (fst (in_withdrawAllLocked e c))"
  by (auto simp: in_withdrawAllLocked_def in_do_eq split: bool.splits intro!: r_into_rtranclp intro: failed_all)
    (metis in_withdraw_all in_logged_simps(2))

lemma in_withdraw_run: "in_run e away c (fst (in_withdrawLocked e p c))"
proof (cases "ie_fails e (ib_log c) (InWithdraw p)")
  case True
  then show ?thesis by (auto simp: in_withdrawLocked_def in_do_eq intro: failed_withdraw)
next
  case False
  then show ?thesis using in_withdraw [of e away c p] by (auto simp: in_withdrawLocked_def in_do_eq)
qed

lemma in_announce_run:
  assumes "in_route_ok e away c \<lparr>io_Prefix = p, io_NextHop = nh, io_LocalPref = ic_LocalPref (ib_cfg c), io_Community = ic_Community (ib_cfg c), io_Away = away\<rparr>"
  shows "in_run e away c (fst (in_announce e away p nh c))"
proof (cases "ie_fails e (ib_log c) (InAnnounce \<lparr>io_Prefix = p, io_NextHop = nh, io_LocalPref = ic_LocalPref (ib_cfg c), io_Community = ic_Community (ib_cfg c), io_Away = away\<rparr>)")
  case True
  then show ?thesis using failed_announce [OF assms] by (auto simp: in_announce_def in_do_eq Let_def)
next
  case False
  then show ?thesis using in_put [OF assms] by (auto simp: in_announce_def in_do_eq Let_def table_route_def)
qed

lemma in_sync_prefix_run:
  assumes "p \<in> set (ic_Prefixes (ib_cfg c))" "away \<noteq> []"
  shows "in_run e away c (fst (in_sync_prefix e away p c))"
proof (cases "ie_Excluded e p \<or> \<not> CoveredBy (ic_Allowlist (ib_cfg c)) p")
  case True
  then show ?thesis using in_withdraw_run [of e away c p] by (auto simp: in_sync_prefix_def Let_def case_prod_beta)
next
  case False
  show ?thesis
  proof (cases "fmlookup (ib_active c) p")
    case None
    then show ?thesis using False assms
      by (auto simp: in_sync_prefix_def Let_def in_route_ok_def split: option.splits intro!: in_announce_run)
  next
    case (Some cur)
    then show ?thesis using False assms by (auto simp: in_sync_prefix_def Let_def in_route_ok_def intro!: in_announce_run)
  qed
qed

lemma in_sync_fold_run:
  assumes "set ps \<subseteq> set (ic_Prefixes (ib_cfg (fst acc)))" "away \<noteq> []"
  shows "in_run e away (fst acc) (fst (foldl (in_sync_step e away) acc ps))"
  using assms(1)
proof (induction ps arbitrary: acc)
  case (Cons p ps)
  have one: "in_run e away (fst acc) (fst (in_sync_step e away acc p))"
    using in_sync_prefix_run [of p "fst acc" away e] Cons.prems assms(2) by (simp add: in_sync_step_def case_prod_beta Let_def)
  have "in_run e away (fst (in_sync_step e away acc p)) (fst (foldl (in_sync_step e away) (in_sync_step e away acc p) ps))"
    using Cons.prems by (intro Cons.IH) (simp add: in_run_keeps(1) [OF one])
  with one show ?case by simp
qed simp

lemma in_Sync_run: "\<exists>c1. in_run e (away_of c) c c1 \<and> fst (in_Sync e c) = storeActive c1"
proof (cases "ic_Mode (ib_cfg c) \<noteq> ''inject'' \<or> \<not> ie_Leader e \<or> \<not> ie_Ready e \<or> away_of c = []")
  case True
  then show ?thesis using in_withdrawAll_run [of e "away_of c" c] by (auto simp: in_Sync_def Let_def case_prod_beta)
next
  case False
  then show ?thesis using in_sync_fold_run [of "ic_Prefixes (ib_cfg c)" "(c, [])" "away_of c" e]
    by (auto simp: in_Sync_def Let_def case_prod_beta)
qed

section \<open>Invariants of the wire\<close>

text \<open>What the calls leave on the wire.\<close>

fun in_wire_do :: "(prefix \<rightharpoonup> inRoute) \<Rightarrow> in_call \<times> bool \<Rightarrow> (prefix \<rightharpoonup> inRoute)" where
  "in_wire_do w (InAnnounce r, True) = w(io_Prefix r \<mapsto> table_route r)"
| "in_wire_do w (InWithdraw p, True) = w(p := None)"
| "in_wire_do w (InWithdrawAll, True) = Map.empty"
| "in_wire_do w (x, False) = w"

definition in_wire :: "(in_call \<times> bool) list \<Rightarrow> (prefix \<rightharpoonup> inRoute)" where
  "in_wire log' = foldl in_wire_do Map.empty log'"

definition in_table_ok :: "in_env \<Rightarrow> inController \<Rightarrow> bool" where
  "in_table_ok e c \<longleftrightarrow> in_wire (ib_log c) = fmlookup (ib_active c) \<and> fmdom' (ib_active c) \<subseteq> set (ic_Prefixes (ib_cfg c))"

interpretation in_table: in_invariant in_table_ok
proof
  fix e c away c'
  assume ok: "in_table_ok e c" and "in_step e away c c'"
  from this(2) show "in_table_ok e c'"
    using ok by cases (auto simp: in_table_ok_def in_wire_def in_route_ok_def fmdom'_iff split: if_splits)
qed

definition in_caps_ok :: "nat \<Rightarrow> in_env \<Rightarrow> inController \<Rightarrow> bool" where
  "in_caps_ok n e c \<longleftrightarrow> int (fmlen (ib_active c)) \<le> max (int n) (ic_MaxImprovements (ib_cfg c)) \<and>
     (\<forall>k. ic_SharedCap (ib_cfg c) > 0 \<longrightarrow> ie_Others e = Some k \<longrightarrow> int (fmlen (ib_active c)) \<le> max (int n) (ic_SharedCap (ib_cfg c) - k))"

lemma fmlen_upd_cases:
  "fmlen (fmupd k v m) = (if fmlookup m k = None then Suc (fmlen m) else fmlen m)"
  by (auto simp: fmlen_def card_insert_if fmdom'_iff)

interpretation in_caps: in_invariant "in_caps_ok n"
proof
  fix e c away c'
  assume ok: "in_caps_ok n e c" and "in_step e away c c'"
  from this(2) show "in_caps_ok n e c'"
  proof cases
    case (in_withdraw p)
    have "int (fmlen (fmdrop p (ib_active c))) \<le> int (fmlen (ib_active c))" by (simp add: fmlen_drop_le)
    with ok show ?thesis unfolding in_withdraw in_caps_ok_def by (auto intro: order_trans)
  next
    case (in_put r)
    with ok show ?thesis
      by (auto simp: in_caps_ok_def in_route_ok_def fmlen_upd_cases split: option.splits) 
  qed (use ok in \<open>auto simp: in_caps_ok_def\<close>)
qed

definition in_safe_route :: "in_env \<Rightarrow> inConfig \<Rightarrow> string list \<Rightarrow> (prefix, inRoute) fmap \<Rightarrow> InboundRoute \<Rightarrow> bool" where
  "in_safe_route e cfg away before r \<longleftrightarrow>
     io_Prefix r \<in> set (ic_Prefixes cfg) \<and> CoveredBy (ic_Allowlist cfg) (io_Prefix r) \<and> \<not> ie_Excluded e (io_Prefix r) \<and>
     io_Away r = away \<and> away \<noteq> [] \<and> io_Community r = ic_Community cfg \<and>
     (ie_NextHop e (io_Prefix r) = Some (io_NextHop r) \<or> map_option ir_NextHop (fmlookup before (io_Prefix r)) = Some (io_NextHop r))"

definition in_safe_calls :: "inConfig \<Rightarrow> string list \<Rightarrow> (prefix, inRoute) fmap \<Rightarrow> (in_call \<times> bool) list \<Rightarrow> in_env \<Rightarrow> inController \<Rightarrow> bool" where
  "in_safe_calls cfg away before log0 e c \<longleftrightarrow> ib_cfg c = cfg \<and>
     (\<forall>p cur. fmlookup (ib_active c) p = Some cur \<longrightarrow>
        ie_NextHop e p = Some (ir_NextHop cur) \<or> map_option ir_NextHop (fmlookup before p) = Some (ir_NextHop cur)) \<and>
     (\<exists>new. ib_log c = log0 @ new \<and> (\<forall>r ok. (InAnnounce r, ok) \<in> set new \<longrightarrow> in_safe_route e cfg away before r))"

lemma in_route_safe:
  assumes "in_safe_calls cfg away before log0 e c" "in_route_ok e away c r"
  shows "in_safe_route e cfg away before r"
proof (cases "fmlookup (ib_active c) (io_Prefix r)")
  case None
  with assms show ?thesis by (auto simp: in_safe_calls_def in_route_ok_def in_safe_route_def)
next
  case (Some cur)
  then have "ie_NextHop e (io_Prefix r) = Some (ir_NextHop cur) \<or> map_option ir_NextHop (fmlookup before (io_Prefix r)) = Some (ir_NextHop cur)"
    using assms(1) unfolding in_safe_calls_def by blast
  with Some assms show ?thesis by (simp add: in_safe_calls_def in_route_ok_def in_safe_route_def)
qed

lemma in_safe_step:
  assumes "in_safe_calls cfg away before log0 e c" "in_step e away c c'"
  shows "in_safe_calls cfg away before log0 e c'"
  using assms(2)
proof cases
  case (failed_announce r)
  with assms(1) in_route_safe [OF assms(1), of r] show ?thesis by (auto simp: in_safe_calls_def) blast
next
  case (in_put r)
  have nh: "ie_NextHop e (io_Prefix r) = Some (io_NextHop r) \<or> map_option ir_NextHop (fmlookup before (io_Prefix r)) = Some (io_NextHop r)"
    using in_route_safe [OF assms(1) in_put(2)] by (simp add: in_safe_route_def)
  show ?thesis using assms(1) in_route_safe [OF assms(1) in_put(2)] nh unfolding in_put(1)
    by (auto simp: in_safe_calls_def table_route_def) blast+
qed (use assms(1) in \<open>auto simp: in_safe_calls_def\<close>)

lemma in_safe_run: "in_run e away c c' \<Longrightarrow> in_safe_calls cfg away before log0 e c \<Longrightarrow> in_safe_calls cfg away before log0 e c'"
  by (induction rule: rtranclp_induct) (auto intro: in_safe_step)

section \<open>Planning\<close>

definition steers_ok :: "inController \<Rightarrow> bool" where
  "steers_ok c \<longleftrightarrow>
     (\<forall>p s. fmlookup (ib_steers c) p = Some s \<longrightarrow> st_Provider s = p \<and> p \<in> set (ic_Providers (ib_cfg c))) \<and>
     (fmlen (ib_steers c) = 0 \<or> fmlen (ib_steers c) < length (ic_Providers (ib_cfg c))) \<and>
     (\<forall>p q s t. fmlookup (ib_steers c) p = Some s \<longrightarrow> fmlookup (ib_steers c) q = Some t \<longrightarrow>
        st_Trigger s = TriggerPerformance \<longrightarrow> st_Trigger t = TriggerPerformance \<longrightarrow> p = q)"

lemma noteRelease_simps [simp]:
  "ib_cfg (noteRelease now s c) = ib_cfg c" "ib_steers (noteRelease now s c) = ib_steers c" "ib_active (noteRelease now s c) = ib_active c"
  "ib_log (noteRelease now s c) = ib_log c" "ib_ann (noteRelease now s c) = ib_ann c" "ib_onWire (noteRelease now s c) = ib_onWire c"
  by (simp_all add: noteRelease_def Let_def)

lemma in_block_simps [simp]:
  "ib_cfg (in_block p w c) = ib_cfg c" "ib_steers (in_block p w c) = ib_steers c" "ib_active (in_block p w c) = ib_active c"
  "ib_log (in_block p w c) = ib_log c" "ib_ann (in_block p w c) = ib_ann c" "ib_onWire (in_block p w c) = ib_onWire c"
  "ib_pending (in_block p w c) = ib_pending c"
  by (simp_all add: in_block_def)

lemma set_steer_simps [simp]:
  "ib_cfg (set_steer s c) = ib_cfg c" "ib_steers (set_steer s c) = fmupd (st_Provider s) s (ib_steers c)" "ib_active (set_steer s c) = ib_active c"
  "ib_log (set_steer s c) = ib_log c" "ib_ann (set_steer s c) = ib_ann c" "ib_onWire (set_steer s c) = ib_onWire c"
  by (simp_all add: set_steer_def)

text \<open>What planning leaves as it is.\<close>

definition same_wire :: "inController \<Rightarrow> inController \<Rightarrow> bool" where
  "same_wire c c' \<longleftrightarrow> ib_cfg c' = ib_cfg c \<and> ib_active c' = ib_active c \<and> ib_log c' = ib_log c \<and> ib_ann c' = ib_ann c \<and>
     ib_onWire c' = ib_onWire c"

lemma same_wire_refl [simp]: "same_wire c c"
  by (simp add: same_wire_def)

lemma same_wire_trans: "same_wire a b \<Longrightarrow> same_wire b c \<Longrightarrow> same_wire a c"
  by (simp add: same_wire_def)

definition same_memory :: "string \<Rightarrow> inController \<Rightarrow> inController \<Rightarrow> bool" where
  "same_memory q c c' \<longleftrightarrow> fmlookup (ib_pending c') q = fmlookup (ib_pending c) q \<and> fmlookup (ib_cooldown c') q = fmlookup (ib_cooldown c) q"

lemma same_memory_refl [simp]: "same_memory q c c"
  by (simp add: same_memory_def)

lemma same_memory_trans: "same_memory q a b \<Longrightarrow> same_memory q b c \<Longrightarrow> same_memory q a c"
  by (simp add: same_memory_def)

text \<open>A review keeps a steer with its trigger, or releases it.\<close>

definition fewer_steers :: "(string, Steer) fmap \<Rightarrow> (string, Steer) fmap \<Rightarrow> bool" where
  "fewer_steers m m' \<longleftrightarrow>
     (\<forall>p s'. fmlookup m' p = Some s' \<longrightarrow> (\<exists>s. fmlookup m p = Some s \<and> st_Provider s' = st_Provider s \<and> st_Trigger s' = st_Trigger s))"

lemma fewer_refl [simp]: "fewer_steers m m"
  by (simp add: fewer_steers_def)

lemma fewer_trans: "fewer_steers a b \<Longrightarrow> fewer_steers b c \<Longrightarrow> fewer_steers a c"
  by (fastforce simp: fewer_steers_def)

lemma fewer_drop [simp]: "fewer_steers m (fmdrop p m)"
  by (simp add: fewer_steers_def)

lemma fewer_upd:
  "fmlookup m p = Some s \<Longrightarrow> st_Provider s' = st_Provider s \<Longrightarrow> st_Trigger s' = st_Trigger s \<Longrightarrow> fewer_steers m (fmupd p s' m)"
  by (simp add: fewer_steers_def)

lemma fewer_len: "fewer_steers m m' \<Longrightarrow> fmlen m' \<le> fmlen m"
  unfolding fmlen_def by (rule card_mono) (simp, unfold fewer_steers_def subset_iff fmdom'_iff, blast)

lemma fewer_steers_ok:
  assumes "steers_ok c" "fewer_steers (ib_steers c) (ib_steers c')" "ib_cfg c' = ib_cfg c"
  shows "steers_ok c'"
  unfolding steers_ok_def
proof (intro conjI allI impI)
  fix p s assume "fmlookup (ib_steers c') p = Some s"
  with assms(2) obtain s0 where s0: "fmlookup (ib_steers c) p = Some s0" "st_Provider s = st_Provider s0"
    by (auto simp: fewer_steers_def)
  with assms(1,3) show "st_Provider s = p" "p \<in> set (ic_Providers (ib_cfg c'))" by (auto simp: steers_ok_def)
next
  show "fmlen (ib_steers c') = 0 \<or> fmlen (ib_steers c') < length (ic_Providers (ib_cfg c'))"
    using fewer_len [OF assms(2)] assms(1,3) by (auto simp: steers_ok_def)
next
  fix p q s t
  assume "fmlookup (ib_steers c') p = Some s" "fmlookup (ib_steers c') q = Some t"
    and "st_Trigger s = TriggerPerformance" "st_Trigger t = TriggerPerformance"
  then obtain s0 t0 where "fmlookup (ib_steers c) p = Some s0" "fmlookup (ib_steers c) q = Some t0"
    "st_Trigger s0 = TriggerPerformance" "st_Trigger t0 = TriggerPerformance"
    using assms(2) unfolding fewer_steers_def by metis
  with assms(1) show "p = q" unfolding steers_ok_def by blast
qed

lemma in_release_keeps:
  "same_wire (pl_c a) (pl_c (in_release now s why cool a))"
  "ib_steers (pl_c (in_release now s why cool a)) = fmdrop (st_Provider s) (ib_steers (pl_c a))"
  by (simp_all add: in_release_def Let_def same_wire_def)

text \<open>The outcome of a review as one of two shapes. A steer that is kept rests on fresh evidence.\<close>

definition evidenced :: "inConfig \<Rightarrow> time \<Rightarrow> (string, Usage) fmap \<Rightarrow> perfView \<Rightarrow> Steer \<Rightarrow> bool" where
  "evidenced cfg now fresh perf s \<longleftrightarrow>
     (if st_Trigger s = TriggerPerformance then fmlookup (pv_gaps perf) (st_Provider s) \<noteq> None
      else fmlookup fresh (st_Provider s) \<noteq> None) \<and>
     (ic_TTL cfg > 0 \<longrightarrow> time_sub now (st_Since s) < ic_TTL cfg)"

lemma review_shape:
  assumes "fmlookup (ib_steers (pl_c a)) p = Some s" "st_Provider s = p"
  obtains (released) s' why cool where "review_step cfg now fresh perf a p = in_release now s' why cool a" "st_Provider s' = p"
  | (kept) s' c1 where "review_step cfg now fresh perf a p = a\<lparr>pl_c := set_steer s' c1\<rparr>" "st_Provider s' = p" "st_Trigger s' = st_Trigger s"
      "c1 = pl_c a \<or> (\<exists>w. c1 = in_block p w (pl_c a))" "evidenced cfg now fresh perf s'"
proof (cases "st_Trigger s = TriggerPerformance")
  case True
  then have eq: "review_step cfg now fresh perf a p = review_perf cfg now perf s a" using assms by (simp add: review_step_def)
  show thesis
  proof (cases "fmlookup (pv_gaps perf) p")
    case None
    then show ?thesis using assms(2) eq by (intro released [of s]) (simp_all add: review_perf_def)
  next
    case (Some g)
    let ?s = "s\<lparr>st_Perf := Some g\<rparr>" and ?ttl = "ic_TTL cfg > 0 \<and> time_sub now (st_Since s) \<ge> ic_TTL cfg"
    let ?rel = "time_sub now (st_Since s) \<ge> st_Hold s \<and> (case ic_Performance cfg of None \<Rightarrow> True | Some pc \<Rightarrow> perfReleased pc g)"
    have eq2: "review_perf cfg now perf s a =
        (if ?ttl then in_release now s TTLReached False a else if ?rel then in_release now ?s (PerfWithinRelease g) True a
         else a\<lparr>pl_c := set_steer ?s (pl_c a)\<rparr>)"
      by (simp only: review_perf_def assms(2) Some option.case Let_def)
    consider "?ttl" | "\<not> ?ttl" "?rel" | "\<not> ?ttl" "\<not> ?rel" by blast
    then show ?thesis
    proof cases
      case 1
      have "review_step cfg now fresh perf a p = in_release now s TTLReached False a" unfolding eq eq2 by (rule if_P [OF 1])
      then show ?thesis using assms(2) by (intro released)
    next
      case 2
      have "review_step cfg now fresh perf a p = in_release now ?s (PerfWithinRelease g) True a"
        unfolding eq eq2 if_not_P [OF 2(1)] by (rule if_P [OF 2(2)])
      then show ?thesis using assms(2) by (intro released [of ?s]) simp_all
    next
      case 3
      have step: "review_step cfg now fresh perf a p = a\<lparr>pl_c := set_steer ?s (pl_c a)\<rparr>"
        unfolding eq eq2 if_not_P [OF 3(1)] by (rule if_not_P [OF 3(2)])
      have "evidenced cfg now fresh perf ?s" using 3(1) True Some assms(2) by (auto simp: evidenced_def)
      then show ?thesis using assms(2) step by (intro kept [of ?s]) auto
    qed
  qed
next
  case False
  then have eq: "review_step cfg now fresh perf a p = review_commit cfg now fresh s a" using assms by (simp add: review_step_def)
  show thesis
  proof (cases "fmlookup fresh p")
    case None
    then show ?thesis using assms(2) eq by (intro released [of s]) (simp_all add: review_commit_def)
  next
    case (Some u)
    let ?s = "s\<lparr>st_InMbps95 := us_InMbps95 u, st_CommitMbps := us_CommitMbps u\<rparr>"
    let ?ttl = "ic_TTL cfg > 0 \<and> time_sub now (st_Since s) \<ge> ic_TTL cfg"
    have eq2: "review_commit cfg now fresh s a =
        (if ?ttl then in_release now ?s TTLReached False a
         else if time_sub now (st_Since s) \<ge> st_Hold s \<and> us_InMbps95 u + st_Shift s \<le> us_CommitMbps u * ic_ReleasePct cfg / 100
         then in_release now ?s (BelowRelease (us_InMbps95 u) (us_CommitMbps u)) True a
         else if time_sub now (st_Since s) \<ge> st_Hold s \<and> us_InMbps95 u \<le> us_CommitMbps u * ic_ReleasePct cfg / 100
         then a\<lparr>pl_c := set_steer ?s (in_block p (Inertia (st_Shift s)) (pl_c a))\<rparr>
         else a\<lparr>pl_c := set_steer ?s (pl_c a)\<rparr>)"
      unfolding review_commit_def assms(2) Some option.case Let_def by (simp add: assms(2))
    have ev: "evidenced cfg now fresh perf ?s" if "\<not> ?ttl" using that False Some assms(2) by (auto simp: evidenced_def)
    consider "review_commit cfg now fresh s a = in_release now ?s TTLReached False a"
      | "review_commit cfg now fresh s a = in_release now ?s (BelowRelease (us_InMbps95 u) (us_CommitMbps u)) True a"
      | "\<not> ?ttl" "review_commit cfg now fresh s a = a\<lparr>pl_c := set_steer ?s (in_block p (Inertia (st_Shift s)) (pl_c a))\<rparr>"
      | "\<not> ?ttl" "review_commit cfg now fresh s a = a\<lparr>pl_c := set_steer ?s (pl_c a)\<rparr>"
      using eq2 by argo
    then show ?thesis
    proof cases
      case 1 then show ?thesis using assms(2) eq by (intro released [of ?s]) simp_all
    next
      case 2 then show ?thesis using assms(2) eq by (intro released [of ?s]) simp_all
    next
      case 3 then show ?thesis using assms(2) eq ev by (intro kept [of ?s]) auto
    next
      case 4 then show ?thesis using assms(2) eq ev by (intro kept [of ?s]) auto
    qed
  qed
qed

lemma review_step_at:
  assumes "steers_ok (pl_c a)"
  shows "q \<noteq> p \<Longrightarrow> fmlookup (ib_steers (pl_c (review_step cfg now fresh perf a p))) q = fmlookup (ib_steers (pl_c a)) q"
    and "fmlookup (ib_steers (pl_c (review_step cfg now fresh perf a p))) p = Some s' \<Longrightarrow> evidenced cfg now fresh perf s'"
    and "fmlookup (ib_steers (pl_c a)) q = None \<Longrightarrow> same_memory q (pl_c a) (pl_c (review_step cfg now fresh perf a p))"
proof -
  have rel: "same_memory q (pl_c a) (pl_c (in_release now s why cool a))" if "q \<noteq> st_Provider s" for s why cool
    using that by (simp add: same_memory_def in_release_def noteRelease_def Let_def)
  have "(q \<noteq> p \<longrightarrow> fmlookup (ib_steers (pl_c (review_step cfg now fresh perf a p))) q = fmlookup (ib_steers (pl_c a)) q) \<and>
     (fmlookup (ib_steers (pl_c (review_step cfg now fresh perf a p))) p = Some s' \<longrightarrow> evidenced cfg now fresh perf s') \<and>
     (fmlookup (ib_steers (pl_c a)) q = None \<longrightarrow> same_memory q (pl_c a) (pl_c (review_step cfg now fresh perf a p)))"
  proof (cases "fmlookup (ib_steers (pl_c a)) p")
    case None
    then show ?thesis by (simp add: review_step_def)
  next
    case (Some s)
    with assms have key: "st_Provider s = p" by (auto simp: steers_ok_def)
    show ?thesis
      using Some key
    proof (cases rule: review_shape [where cfg = cfg and now = now and fresh = fresh and perf = perf])
      case (released t why cool)
      have "same_memory q (pl_c a) (pl_c (in_release now t why cool a))" if "fmlookup (ib_steers (pl_c a)) q = None"
        using that Some released(2) by (intro rel) auto
      with released show ?thesis by (auto simp: in_release_keeps)
    next
      case (kept t c1)
      then show ?thesis by (auto simp: same_memory_def set_steer_def in_block_def)
    qed
  qed
  then show "q \<noteq> p \<Longrightarrow> fmlookup (ib_steers (pl_c (review_step cfg now fresh perf a p))) q = fmlookup (ib_steers (pl_c a)) q"
    and "fmlookup (ib_steers (pl_c (review_step cfg now fresh perf a p))) p = Some s' \<Longrightarrow> evidenced cfg now fresh perf s'"
    and "fmlookup (ib_steers (pl_c a)) q = None \<Longrightarrow> same_memory q (pl_c a) (pl_c (review_step cfg now fresh perf a p))"
    by blast+
qed

lemma review_step_keeps:
  assumes "steers_ok (pl_c a)"
  shows "same_wire (pl_c a) (pl_c (review_step cfg now fresh perf a p)) \<and>
    fewer_steers (ib_steers (pl_c a)) (ib_steers (pl_c (review_step cfg now fresh perf a p)))"
proof (cases "fmlookup (ib_steers (pl_c a)) p")
  case None
  then show ?thesis by (simp add: review_step_def)
next
  case (Some s)
  with assms have key: "st_Provider s = p" by (auto simp: steers_ok_def)
  show ?thesis
    using Some key
  proof (cases rule: review_shape [where cfg = cfg and now = now and fresh = fresh and perf = perf])
    case (released s' why cool)
    then show ?thesis by (simp add: in_release_keeps)
  next
    case (kept s' c1)
    then show ?thesis using Some key fewer_upd [of "ib_steers (pl_c a)" p s s'] by (auto simp: same_wire_def)
  qed
qed

lemma review_fold_keeps:
  assumes "steers_ok (pl_c a)"
  shows "same_wire (pl_c a) (pl_c (foldl (review_step cfg now fresh perf) a ps)) \<and>
    fewer_steers (ib_steers (pl_c a)) (ib_steers (pl_c (foldl (review_step cfg now fresh perf) a ps)))"
  using assms
proof (induction ps arbitrary: a)
  case (Cons p ps)
  let ?b = "review_step cfg now fresh perf a p"
  note keeps = review_step_keeps [OF Cons.prems, of cfg now fresh perf p]
  have "steers_ok (pl_c ?b)"
    using fewer_steers_ok [OF Cons.prems conjunct2 [OF keeps]] keeps by (simp add: same_wire_def)
  from Cons.IH [OF this] keeps show ?case by (auto intro: same_wire_trans fewer_trans)
qed simp

lemma review_fold_evidence:
  assumes "steers_ok (pl_c a)" "distinct ps"
    and "\<forall>q s. fmlookup (ib_steers (pl_c a)) q = Some s \<longrightarrow> q \<notin> set ps \<longrightarrow> evidenced cfg now fresh perf s"
  shows "\<forall>q s. fmlookup (ib_steers (pl_c (foldl (review_step cfg now fresh perf) a ps))) q = Some s \<longrightarrow> evidenced cfg now fresh perf s"
  using assms
proof (induction ps arbitrary: a)
  case (Cons p ps)
  let ?b = "review_step cfg now fresh perf a p"
  note keeps = review_step_keeps [OF Cons.prems(1), of cfg now fresh perf p] and at = review_step_at [OF Cons.prems(1)]
  have ok: "steers_ok (pl_c ?b)"
    using fewer_steers_ok [OF Cons.prems(1) conjunct2 [OF keeps]] keeps by (simp add: same_wire_def)
  have "evidenced cfg now fresh perf s" if "fmlookup (ib_steers (pl_c ?b)) q = Some s" "q \<notin> set ps" for q s
  proof (cases "q = p")
    case True
    then show ?thesis using at(2) that(1) by blast
  next
    case False
    then have "fmlookup (ib_steers (pl_c a)) q = Some s" using at(1) that(1) by simp
    with Cons.prems(3) False that(2) show ?thesis by simp
  qed
  then show ?case using Cons.IH [OF ok] Cons.prems(2) by simp
qed simp

lemma review_fold_memory:
  assumes "steers_ok (pl_c a)" "fmlookup (ib_steers (pl_c a)) q = None"
  shows "same_memory q (pl_c a) (pl_c (foldl (review_step cfg now fresh perf) a ps))"
  using assms
proof (induction ps arbitrary: a)
  case (Cons p ps)
  let ?b = "review_step cfg now fresh perf a p"
  note keeps = review_step_keeps [OF Cons.prems(1), of cfg now fresh perf p]
  have ok: "steers_ok (pl_c ?b)"
    using fewer_steers_ok [OF Cons.prems(1) conjunct2 [OF keeps]] keeps by (simp add: same_wire_def)
  have "fmlookup (ib_steers (pl_c ?b)) q = None"
    using keeps Cons.prems(2) unfolding fewer_steers_def by (metis option.distinct(1) option.exhaust)
  from Cons.IH [OF ok this] review_step_at(3) [OF Cons.prems(1) Cons.prems(2), of cfg now fresh perf p]
  show ?case by (simp add: same_memory_def)
qed simp

lemma damped_keeps:
  "st_Provider (fst (damped now s c)) = st_Provider s" "st_Trigger (fst (damped now s c)) = st_Trigger s"
  "st_Action (fst (damped now s c)) = st_Action s" "st_Since (fst (damped now s c)) = st_Since s"
  "same_wire c (snd (damped now s c))" "ib_steers (snd (damped now s c)) = ib_steers c"
  by (simp_all add: damped_def Let_def same_wire_def split: option.splits)

text \<open>A candidate is steered or blocked.\<close>

lemma try_steer_shape:
  obtains (blocked) why where "try_steer now cd a = a\<lparr>pl_c := in_block (cd_p cd) why (pl_c a)\<rparr>"
  | (steered) s act where "ib_steers (pl_c (try_steer now cd a)) = fmupd (cd_p cd) s (ib_steers (pl_c a))"
      "same_wire (pl_c a) (pl_c (try_steer now cd a))" "st_Provider s = cd_p cd" "st_Trigger s = cd_trigger cd" "st_Since s = now"
      "catalog_action (pl_c a) (cd_p cd) = Some act" "st_Action s = act"
      "int (fmlen (ib_steers (pl_c a))) + 1 < int (length (ic_Providers (ib_cfg (pl_c a))))"
      "ia_MED act \<noteq> 0 \<Longrightarrow> list_ex (\<lambda>x. fmlookup (ib_steers (pl_c a)) x = None) (medSiblings (ib_cfg (pl_c a)) (cd_p cd))"
proof (cases "catalog_action (pl_c a) (cd_p cd)")
  case None
  then show ?thesis by (intro blocked) (simp add: try_steer_def)
next
  case (Some act)
  let ?c = "pl_c a"
  consider "int (fmlen (ib_steers ?c)) + 1 \<ge> int (length (ic_Providers (ib_cfg ?c)))"
    | "\<not> int (fmlen (ib_steers ?c)) + 1 \<ge> int (length (ic_Providers (ib_cfg ?c)))"
      "ia_MED act \<noteq> 0 \<and> \<not> list_ex (\<lambda>x. fmlookup (ib_steers ?c) x = None) (medSiblings (ib_cfg ?c) (cd_p cd))"
    | "\<not> int (fmlen (ib_steers ?c)) + 1 \<ge> int (length (ic_Providers (ib_cfg ?c)))"
      "\<not> (ia_MED act \<noteq> 0 \<and> \<not> list_ex (\<lambda>x. fmlookup (ib_steers ?c) x = None) (medSiblings (ib_cfg ?c) (cd_p cd)))"
    by blast
  then show ?thesis
  proof cases
    case 1
    then show ?thesis by (intro blocked) (simp add: try_steer_def Some)
  next
    case 2
    show ?thesis
      by (rule blocked [of "MEDMovesNothing (ic_ASN (ib_cfg ?c) (cd_p cd))"])
        (simp only: try_steer_def Let_def Some option.case if_not_P [OF 2(1)] if_P [OF 2(2)])
  next
    case 3
    let ?d = "damped now (new_steer (ib_cfg ?c) now cd act) ?c"
    let ?s = "(fst ?d)\<lparr>st_HoldUntil := now + st_Hold (fst ?d)\<rparr>"
    have eq: "pl_c (try_steer now cd a) = (set_steer ?s (snd ?d))\<lparr>ib_pending := fmdrop (cd_p cd) (ib_pending (set_steer ?s (snd ?d)))\<rparr>"
      unfolding try_steer_def Let_def Some option.case if_not_P [OF 3(1)] if_not_P [OF 3(2)] by (simp add: case_prod_beta)
    show ?thesis
      by (rule steered [of ?s act]) (use 3 damped_keeps [where now = now and s = "new_steer (ib_cfg ?c) now cd act" and c = ?c] in
          \<open>auto simp: eq Some new_steer_def same_wire_def\<close>)
  qed
qed

definition no_perf :: "inController \<Rightarrow> bool" where
  "no_perf c \<longleftrightarrow> (\<forall>p s. fmlookup (ib_steers c) p = Some s \<longrightarrow> st_Trigger s \<noteq> TriggerPerformance)"

text \<open>A candidate adds at most its own steer, when it is confirmed and its cool-down is over.\<close>

definition ripe :: "time \<Rightarrow> inController \<Rightarrow> string \<Rightarrow> bool" where
  "ripe now c p \<longleftrightarrow>
     (let confirm = da_Confirm (ic_Damping (ib_cfg c)) in
      confirm \<le> 0 \<or> time_sub now (case fmlookup (ib_pending c) p of None \<Rightarrow> now | Some t \<Rightarrow> t) \<ge> confirm) \<and>
     (case fmlookup (ib_cooldown c) p of None \<Rightarrow> True | Some until \<Rightarrow> until \<le> now) \<and> catalog_action c p \<noteq> None"

lemma ripe_cong: "same_memory p c c' \<Longrightarrow> same_wire c c' \<Longrightarrow> ripe now c' p = ripe now c p"
  by (simp add: ripe_def same_memory_def same_wire_def catalog_action_def)

lemma try_steer_memory: "q \<noteq> cd_p cd \<Longrightarrow> same_memory q (pl_c a) (pl_c (try_steer now cd a))"
  by (auto simp: try_steer_def Let_def case_prod_beta in_block_def set_steer_def damped_def same_memory_def split: option.splits)

lemma cand_step_shape:
  obtains (same) "ib_steers (pl_c (fst (cand_step now acc cd))) = ib_steers (pl_c (fst acc))"
      "same_wire (pl_c (fst acc)) (pl_c (fst (cand_step now acc cd)))"
  | (steered) s where "cd_p cd \<notin> set (snd acc)" "ripe now (pl_c (fst acc)) (cd_p cd)"
      "ib_steers (pl_c (fst (cand_step now acc cd))) = fmupd (cd_p cd) s (ib_steers (pl_c (fst acc)))"
      "same_wire (pl_c (fst acc)) (pl_c (fst (cand_step now acc cd)))" "st_Provider s = cd_p cd" "st_Trigger s = cd_trigger cd" "st_Since s = now"
      "int (fmlen (ib_steers (pl_c (fst acc)))) + 1 < int (length (ic_Providers (ib_cfg (pl_c (fst acc)))))"
proof (cases "cd_p cd \<in> set (snd acc)")
  case True
  then show ?thesis by (intro same) (simp_all add: cand_step_def case_prod_beta)
next
  case False
  let ?c = "pl_c (fst acc)" and ?p = "cd_p cd"
  let ?first = "case fmlookup (ib_pending ?c) ?p of None \<Rightarrow> now | Some t \<Rightarrow> t"
  let ?c1 = "?c\<lparr>ib_pending := fmupd ?p ?first (ib_pending ?c)\<rparr>"
  let ?b = "(fst acc)\<lparr>pl_c := ?c1\<lparr>ib_cooldown := fmdrop ?p (ib_cooldown ?c1), ib_backedOff := removeAll ?p (ib_backedOff ?c1)\<rparr>\<rparr>"
  let ?ripe = "(da_Confirm (ic_Damping (ib_cfg ?c)) \<le> 0 \<or> time_sub now ?first \<ge> da_Confirm (ic_Damping (ib_cfg ?c))) \<and>
    (case fmlookup (ib_cooldown ?c) ?p of None \<Rightarrow> True | Some until \<Rightarrow> until \<le> now)"
  have b: "ib_steers (pl_c ?b) = ib_steers ?c" "same_wire ?c (pl_c ?b)" "ib_cfg (pl_c ?b) = ib_cfg ?c"
    "catalog_action (pl_c ?b) ?p = catalog_action ?c ?p" by (simp_all add: same_wire_def catalog_action_def)
  have "(\<exists>w. fst (cand_step now acc cd) = (fst acc)\<lparr>pl_c := in_block ?p w ?c1\<rparr>) \<or> ?ripe \<and> fst (cand_step now acc cd) = try_steer now cd ?b"
    using False by (auto simp: cand_step_def case_prod_beta Let_def split: option.splits)
  then consider (block) w where "fst (cand_step now acc cd) = (fst acc)\<lparr>pl_c := in_block ?p w ?c1\<rparr>"
    | (try') "?ripe" "fst (cand_step now acc cd) = try_steer now cd ?b" by blast
  then show ?thesis
  proof cases
    case block
    then show ?thesis by (intro same) (simp_all add: same_wire_def)
  next
    case try'
    show ?thesis
    proof (cases rule: try_steer_shape [where now = now and cd = cd and a = ?b])
      case (blocked why)
      then show ?thesis using b try' by (intro same) (simp_all add: same_wire_def)
    next
      case (steered s act)
      have "catalog_action ?c ?p = Some act" using steered(6) b(4) by metis
      then have "ripe now ?c ?p" using try'(1) by (simp add: ripe_def Let_def)
      then show ?thesis using b False steered same_wire_trans [OF b(2) steered(2)] unfolding try'(2) [symmetric]
        by (intro that(2) [of s]) simp_all
    qed
  qed
qed

lemma cand_step_memory:
  assumes "q \<noteq> cd_p cd"
  shows "same_memory q (pl_c (fst acc)) (pl_c (fst (cand_step now acc cd)))"
proof -
  have blk: "same_memory q c (in_block p w c)" for p w c by (simp add: in_block_def same_memory_def)
  have mem: "same_memory q a (pl_c (try_steer now cd b))" if "same_memory q a (pl_c b)" for a b
    using that try_steer_memory [OF assms, of b now] by (rule same_memory_trans)
  show ?thesis
    using assms by (auto simp: cand_step_def case_prod_beta Let_def split: option.splits intro!: mem)
      (auto simp: same_memory_def in_block_def)
qed

lemma cand_step_seen: "set (snd (cand_step now acc cd)) = insert (cd_p cd) (set (snd acc))"
  by (auto simp: cand_step_def case_prod_beta Let_def)

lemma cand_step_keeps:
  assumes "steers_ok (pl_c (fst acc))" "cd_p cd \<in> set (ic_Providers (ib_cfg (pl_c (fst acc))))"
    and "cd_trigger cd = TriggerPerformance \<longrightarrow> no_perf (pl_c (fst acc))"
    and "cd_p cd \<in> set (snd acc) \<or> fmlookup (ib_steers (pl_c (fst acc))) (cd_p cd) = None"
  shows "steers_ok (pl_c (fst (cand_step now acc cd))) \<and> same_wire (pl_c (fst acc)) (pl_c (fst (cand_step now acc cd))) \<and>
    (cd_trigger cd = TriggerCommit \<longrightarrow> no_perf (pl_c (fst acc)) \<longrightarrow> no_perf (pl_c (fst (cand_step now acc cd)))) \<and>
    (\<forall>q. q \<noteq> cd_p cd \<longrightarrow> fmlookup (ib_steers (pl_c (fst (cand_step now acc cd)))) q = fmlookup (ib_steers (pl_c (fst acc))) q)"
proof (cases rule: cand_step_shape [where now = now and acc = acc and cd = cd])
  case same
  then show ?thesis using assms(1) by (simp add: steers_ok_def same_wire_def no_perf_def)
next
  case (steered s)
  let ?c = "pl_c (fst acc)" and ?c' = "pl_c (fst (cand_step now acc cd))"
  have cfg: "ib_cfg ?c' = ib_cfg ?c" using steered by (simp add: same_wire_def)
  have one: "st_Trigger t \<noteq> TriggerPerformance \<or> st_Trigger s \<noteq> TriggerPerformance" if "fmlookup (ib_steers ?c) q = Some t" for q t
    using that assms(3) steered(6) by (auto simp: no_perf_def)
  have "steers_ok ?c'"
    unfolding steers_ok_def
  proof (intro conjI allI impI)
    fix p s' assume "fmlookup (ib_steers ?c') p = Some s'"
    then show "st_Provider s' = p" "p \<in> set (ic_Providers (ib_cfg ?c'))"
      using assms(1,2) steered cfg by (auto simp: steers_ok_def split: if_splits)
  next
    show "fmlen (ib_steers ?c') = 0 \<or> fmlen (ib_steers ?c') < length (ic_Providers (ib_cfg ?c'))"
      using steered(3,8) cfg fmlen_upd_le [of "cd_p cd" s "ib_steers ?c"] by simp
  next
    fix p q s1 t assume "fmlookup (ib_steers ?c') p = Some s1" "fmlookup (ib_steers ?c') q = Some t"
      "st_Trigger s1 = TriggerPerformance" "st_Trigger t = TriggerPerformance"
    then show "p = q"
      using assms(1) one [of p s1] one [of q t] unfolding steered(3) steers_ok_def by (auto split: if_splits)
  qed
  then show ?thesis using steered by (auto simp: no_perf_def)
qed

text \<open>The candidates of the telemetry.\<close>

lemma cands_fold_keeps:
  assumes "steers_ok (pl_c (fst acc))"
    and "\<forall>cd \<in> set cs. cd_trigger cd = TriggerCommit \<and> cd_p cd \<in> set (ic_Providers (ib_cfg (pl_c (fst acc)))) \<and>
      (cd_p cd \<in> set (snd acc) \<or> fmlookup (ib_steers (pl_c (fst acc))) (cd_p cd) = None)"
  shows "steers_ok (pl_c (fst (foldl (cand_step now) acc cs))) \<and> same_wire (pl_c (fst acc)) (pl_c (fst (foldl (cand_step now) acc cs))) \<and>
    (no_perf (pl_c (fst acc)) \<longrightarrow> no_perf (pl_c (fst (foldl (cand_step now) acc cs)))) \<and>
    (\<forall>q. q \<notin> cd_p ` set cs \<longrightarrow> fmlookup (ib_steers (pl_c (fst (foldl (cand_step now) acc cs)))) q = fmlookup (ib_steers (pl_c (fst acc))) q \<and>
       same_memory q (pl_c (fst acc)) (pl_c (fst (foldl (cand_step now) acc cs)))) \<and>
    set (snd (foldl (cand_step now) acc cs)) = cd_p ` set cs \<union> set (snd acc)"
  using assms
proof (induction cs arbitrary: acc)
  case (Cons cd cs)
  let ?b = "cand_step now acc cd"
  have one: "steers_ok (pl_c (fst ?b))" "same_wire (pl_c (fst acc)) (pl_c (fst ?b))" "no_perf (pl_c (fst acc)) \<longrightarrow> no_perf (pl_c (fst ?b))"
    "\<forall>q. q \<noteq> cd_p cd \<longrightarrow> fmlookup (ib_steers (pl_c (fst ?b))) q = fmlookup (ib_steers (pl_c (fst acc))) q"
    using cand_step_keeps [of acc cd now] Cons.prems by auto
  have "\<forall>x \<in> set cs. cd_trigger x = TriggerCommit \<and> cd_p x \<in> set (ic_Providers (ib_cfg (pl_c (fst ?b)))) \<and>
      (cd_p x \<in> set (snd ?b) \<or> fmlookup (ib_steers (pl_c (fst ?b))) (cd_p x) = None)"
    using Cons.prems(2) one(2,4) by (auto simp: same_wire_def cand_step_seen)
  note rest = Cons.IH [OF one(1) this]
  have "same_memory q (pl_c (fst acc)) (pl_c (fst (foldl (cand_step now) ?b cs)))" if "q \<noteq> cd_p cd" "q \<notin> cd_p ` set cs" for q
    using same_memory_trans [OF cand_step_memory [OF that(1), of acc now]] rest that(2) by blast
  then show ?case using rest one same_wire_trans [OF one(2)] by (auto simp: cand_step_seen)
qed simp

lemma fresh_usage_key:
  assumes "fmlookup (fresh_usage cfg now us) p = Some u"
  shows "us_Provider u = p \<and> p \<in> set (ic_Providers cfg) \<and> us_Error u = [] \<and> InboundMbps u \<noteq> None \<and> in_fresh_age now (us_Updated u) (ic_MaxAge cfg) \<and> u \<in> set us"
proof -
  let ?ok = "\<lambda>u. us_Provider u \<in> set (ic_Providers cfg) \<and> us_Error u = [] \<and> InboundMbps u \<noteq> None \<and> in_fresh_age now (us_Updated u) (ic_MaxAge cfg)"
  have "fmlookup (foldl (\<lambda>m u. if ?ok u then fmupd (us_Provider u) u m else m) m xs) p = Some u \<Longrightarrow>
      fmlookup m p = Some u \<or> us_Provider u = p \<and> ?ok u \<and> u \<in> set xs" for m xs
    by (induction xs arbitrary: m) (fastforce split: if_splits)+
  from this [of fmempty us] assms show ?thesis by (auto simp: fresh_usage_def)
qed

lemma set_sortedKeys [simp]: "set (sortedKeys m) = fmdom' m"
  by (simp add: sortedKeys_def)

lemma distinct_sortedKeys [simp]: "distinct (sortedKeys m)"
  by (simp add: sortedKeys_def)

lemma commit_cands_ok:
  assumes "cd \<in> set (commit_cands (fresh_usage cfg now us) a)"
  shows "\<exists>u. fmlookup (fresh_usage cfg now us) (cd_p cd) = Some u \<and> us_InMbps95 u > us_CommitMbps u \<and> cd = commit_cand u \<and>
    cd_trigger cd = TriggerCommit \<and> cd_p cd \<in> set (ic_Providers cfg) \<and> fmlookup (ib_steers (pl_c a)) (cd_p cd) = None"
  using assms fresh_usage_key [of cfg now us]
  by (fastforce simp: commit_cands_def commit_cand_def fmdom'_iff fmget_Some)

lemma fresh_paths_key: "fmdom' (fresh_paths cfg now ps) \<subseteq> set (ic_Providers cfg)"
proof -
  have "fmdom' (foldl (\<lambda>m r. if pa_Provider r \<in> set (ic_Providers cfg) \<and> IsValid (pa_Prefix r) \<and> in_fresh_age now (pa_Time r) (ic_PerfMaxAge cfg)
      then fmupd (pa_Provider r) (fmupd (Masked (pa_Prefix r)) r (fmget fmempty m (pa_Provider r))) m else m) m xs) \<subseteq> fmdom' m \<union> set (ic_Providers cfg)" for m xs
    by (induction xs arbitrary: m) (fastforce split: if_splits)+
  from this [of fmempty ps] show ?thesis by (simp add: fresh_paths_def)
qed

lemma worst_fold_gaps:
  "fmdom' (pv_gaps (fst (foldl (worst_step pc gap) acc qs))) = set qs \<union> fmdom' (pv_gaps (fst acc))"
  by (induction qs arbitrary: acc) (auto simp: worst_step_def case_prod_beta Let_def)

lemma in_performance_gaps: "fmdom' (pv_gaps (in_performance cfg now ps)) \<subseteq> set (ic_Providers cfg)"
  using fresh_paths_key [of cfg now ps]
  by (auto simp: in_performance_def Let_def worst_fold_gaps split: option.splits if_splits)

lemma perf_cands_cases:
  assumes "cd \<in> set (perf_cands v a)"
  obtains g where "fmlookup (pv_gaps v) (pv_worst v) = Some g" "fmlookup (ib_steers (pl_c a)) (pv_worst v) = None" "\<not> perfSteered (pl_c a)"
    "cd_trigger cd = TriggerPerformance" "cd_p cd = pv_worst v" "perf_cands v a = [cd]"
proof -
  have ne: "pv_worst v \<noteq> [] \<and> pv_worst v \<notin> set (pl_released a) \<and> \<not> perfSteered (pl_c a) \<and> fmlookup (ib_steers (pl_c a)) (pv_worst v) = None"
  proof (rule ccontr)
    assume "\<not> ?thesis"
    then have "perf_cands v a = []" unfolding perf_cands_def Let_def by (rule if_not_P)
    with assms show False by simp
  qed
  show thesis
  proof (cases "fmlookup (pv_gaps v) (pv_worst v)")
    case None
    with ne assms show thesis by (simp add: perf_cands_def Let_def)
  next
    case (Some g)
    with ne assms show thesis by (intro that [of g]) (simp_all add: perf_cands_def Let_def)
  qed
qed

lemma perf_cands_ok:
  assumes "cd \<in> set (perf_cands (in_performance cfg now ps) a)"
  shows "perf_cands (in_performance cfg now ps) a = [cd] \<and> cd_trigger cd = TriggerPerformance \<and> cd_p cd \<in> set (ic_Providers cfg) \<and>
    cd_p cd \<in> fmdom' (pv_gaps (in_performance cfg now ps)) \<and> fmlookup (ib_steers (pl_c a)) (cd_p cd) = None \<and> \<not> perfSteered (pl_c a)"
  using assms
proof (cases rule: perf_cands_cases)
  case (1 g)
  then have "pv_worst (in_performance cfg now ps) \<in> fmdom' (pv_gaps (in_performance cfg now ps))" by (simp add: fmdom'_iff)
  moreover have "pv_worst (in_performance cfg now ps) \<in> set (ic_Providers cfg)" using calculation in_performance_gaps by (rule rev_subsetD)
  ultimately show ?thesis using 1 by simp
qed

lemma not_perfSteered:
  assumes "\<not> perfSteered c"
  shows "no_perf c"
  unfolding no_perf_def
proof (intro allI impI notI)
  fix p s assume "fmlookup (ib_steers c) p = Some s" "st_Trigger s = TriggerPerformance"
  then have "perfSteered c" by (auto simp: perfSteered_def list_ex_iff fmdom'_iff intro!: bexI [of _ p])
  with assms show False ..
qed

text \<open>Everything \<open>Plan\<close> does to the steers.\<close>

definition plan_fresh :: "time \<Rightarrow> in_input \<Rightarrow> inController \<Rightarrow> (string, Usage) fmap" where
  "plan_fresh now inp c = fresh_usage (ib_cfg c) now (in_Usage inp)"

definition plan_perf :: "time \<Rightarrow> in_input \<Rightarrow> inController \<Rightarrow> perfView" where
  "plan_perf now inp c = in_performance (ib_cfg c) now (in_Paths inp)"

definition plan_reviewed :: "time \<Rightarrow> in_input \<Rightarrow> inController \<Rightarrow> plan_acc" where
  "plan_reviewed now inp c = in_reviewed now (plan_fresh now inp c) (plan_perf now inp c) (c\<lparr>ib_evaluated := now\<rparr>)"

definition plan_final :: "time \<Rightarrow> in_input \<Rightarrow> inController \<Rightarrow> plan_acc \<times> string list" where
  "plan_final now inp c = foldl (cand_step now) (plan_reviewed now inp c, [])
     (commit_cands (plan_fresh now inp c) (plan_reviewed now inp c) @ perf_cands (plan_perf now inp c) (plan_reviewed now inp c))"

lemma in_Plan_eq: "fst (in_Plan now inp c) = forget now (snd (plan_final now inp c)) (pl_c (fst (plan_final now inp c)))"
  by (simp add: in_Plan_def plan_final_def plan_reviewed_def plan_fresh_def plan_perf_def Let_def case_prod_beta)

lemma forget_keeps: "same_wire c (forget now seen c)" "ib_steers (forget now seen c) = ib_steers c"
  by (simp_all add: forget_def Let_def same_wire_def)

lemma plan_reviewed_keeps:
  assumes "steers_ok c"
  shows "same_wire c (pl_c (plan_reviewed now inp c))" "fewer_steers (ib_steers c) (ib_steers (pl_c (plan_reviewed now inp c)))"
    and "steers_ok (pl_c (plan_reviewed now inp c))"
proof -
  let ?a = "\<lparr>pl_c = c\<lparr>ib_evaluated := now, ib_blocked := []\<rparr>, pl_changes = [], pl_released = []\<rparr> :: plan_acc"
  have "steers_ok (pl_c ?a)" using assms by (simp add: steers_ok_def)
  note k = review_fold_keeps [OF this, of "ib_cfg c" now "plan_fresh now inp c" "plan_perf now inp c" "sortedKeys (ib_steers c)"]
  then show w: "same_wire c (pl_c (plan_reviewed now inp c))" and f: "fewer_steers (ib_steers c) (ib_steers (pl_c (plan_reviewed now inp c)))"
    by (simp_all add: plan_reviewed_def in_reviewed_def same_wire_def)
  show "steers_ok (pl_c (plan_reviewed now inp c))"
    using fewer_steers_ok [OF assms f] w by (simp add: same_wire_def)
qed

lemma plan_final_keeps:
  assumes "steers_ok c"
  shows "steers_ok (pl_c (fst (plan_final now inp c)))" "same_wire c (pl_c (fst (plan_final now inp c)))"
proof -
  let ?r = "plan_reviewed now inp c" and ?cs = "commit_cands (plan_fresh now inp c) (plan_reviewed now inp c)"
  let ?a = "foldl (cand_step now) (?r, []) ?cs" and ?ps = "perf_cands (plan_perf now inp c) (plan_reviewed now inp c)"
  note rev = plan_reviewed_keeps [OF assms, of now inp]
  have cfg: "ib_cfg (pl_c ?r) = ib_cfg c" using rev by (simp add: same_wire_def)
  have "\<forall>cd \<in> set ?cs. cd_trigger cd = TriggerCommit \<and> cd_p cd \<in> set (ic_Providers (ib_cfg (pl_c (fst (?r, [])))))
      \<and> (cd_p cd \<in> set (snd (?r, [])) \<or> fmlookup (ib_steers (pl_c (fst (?r, [])))) (cd_p cd) = None)"
    using commit_cands_ok [of _ "ib_cfg c" now "in_Usage inp" ?r] cfg by (auto simp: plan_fresh_def)
  from cands_fold_keeps [OF _ this, of now] rev
  have a: "steers_ok (pl_c (fst ?a))" "same_wire (pl_c ?r) (pl_c (fst ?a))" "no_perf (pl_c ?r) \<longrightarrow> no_perf (pl_c (fst ?a))"
    "\<forall>q. q \<notin> cd_p ` set ?cs \<longrightarrow> fmlookup (ib_steers (pl_c (fst ?a))) q = fmlookup (ib_steers (pl_c ?r)) q"
    "set (snd ?a) = cd_p ` set ?cs" by auto
  have "steers_ok (pl_c (fst (foldl (cand_step now) ?a ?ps))) \<and> same_wire (pl_c (fst ?a)) (pl_c (fst (foldl (cand_step now) ?a ?ps)))"
  proof (cases "?ps = []")
    case True
    then show ?thesis using a by simp
  next
    case False
    then obtain cd where cd: "cd \<in> set ?ps" by (metis list.set_intros(1) neq_Nil_conv)
    note p = perf_cands_ok [OF cd [unfolded plan_perf_def]]
    have "steers_ok (pl_c (fst (cand_step now ?a cd))) \<and> same_wire (pl_c (fst ?a)) (pl_c (fst (cand_step now ?a cd)))"
    proof -
      have "ib_cfg (pl_c (fst ?a)) = ib_cfg c" using a(2) cfg by (simp add: same_wire_def)
      then have 1: "cd_p cd \<in> set (ic_Providers (ib_cfg (pl_c (fst ?a))))" using p by simp
      have 2: "cd_p cd \<in> set (snd ?a) \<or> fmlookup (ib_steers (pl_c (fst ?a))) (cd_p cd) = None" using a(4,5) p by metis
      have 3: "no_perf (pl_c (fst ?a))" using a(3) p not_perfSteered by blast
      from cand_step_keeps [OF a(1) 1 _ 2, of now] 3 show ?thesis by simp
    qed
    then show ?thesis using p by (simp add: plan_perf_def)
  qed
  then show "steers_ok (pl_c (fst (plan_final now inp c)))" "same_wire c (pl_c (fst (plan_final now inp c)))"
    using rev(1) a(2) by (auto simp: plan_final_def intro: same_wire_trans)
qed

lemma in_Plan_keeps:
  assumes "steers_ok c"
  shows "steers_ok (fst (in_Plan now inp c))" "same_wire c (fst (in_Plan now inp c))"
proof -
  note f = plan_final_keeps [OF assms, of now inp] and g = forget_keeps [where c = "pl_c (fst (plan_final now inp c))" and now = now and seen = "snd (plan_final now inp c)"]
  show "steers_ok (fst (in_Plan now inp c))" using f(1) g by (simp add: in_Plan_eq steers_ok_def same_wire_def)
  show "same_wire c (fst (in_Plan now inp c))" unfolding in_Plan_eq using f(2) g(1) by (rule same_wire_trans)
qed

end
