(* ===== verification/Inbound_Safe.thy ===== *)
theory Inbound_Safe
  imports Inbound_Spec
begin

text \<open>
  The properties of inbound optimization: the operations as a machine, the invariant of its reachable states, and what
  a round of planning and a synchronisation guarantee.
\<close>

section \<open>New steers\<close>

definition cand_evidence :: "(string, Usage) fmap \<Rightarrow> perfView \<Rightarrow> cand \<Rightarrow> bool" where
  "cand_evidence fresh perf cd \<longleftrightarrow>
     (if cd_trigger cd = TriggerPerformance then fmlookup (pv_gaps perf) (cd_p cd) \<noteq> None else fmlookup fresh (cd_p cd) \<noteq> None)"

text \<open>A steer after the candidates was there before, or is new: made now, on evidence, confirmed and not cooling down.\<close>

definition fresh_steer :: "time \<Rightarrow> (string, Usage) fmap \<Rightarrow> perfView \<Rightarrow> inController \<Rightarrow> string \<Rightarrow> Steer \<Rightarrow> bool" where
  "fresh_steer now fresh perf c q s \<longleftrightarrow> st_Since s = now \<and> st_Provider s = q \<and> ripe now c q \<and>
     (if st_Trigger s = TriggerPerformance then fmlookup (pv_gaps perf) q \<noteq> None else fmlookup fresh q \<noteq> None)"

lemma cands_fold_new:
  assumes "\<forall>cd \<in> set cs. cand_evidence fresh perf cd"
    and "fmlookup (ib_steers (pl_c (fst (foldl (cand_step now) acc cs)))) q = Some s"
  shows "fmlookup (ib_steers (pl_c (fst acc))) q = Some s \<or> q \<notin> set (snd acc) \<and> fresh_steer now fresh perf (pl_c (fst acc)) q s"
  using assms
proof (induction cs arbitrary: acc)
  case (Cons cd cs)
  let ?b = "cand_step now acc cd"
  have wire: "same_wire (pl_c (fst acc)) (pl_c (fst ?b))"
    by (cases rule: cand_step_shape [where now = now and acc = acc and cd = cd])
  have "fmlookup (ib_steers (pl_c (fst (foldl (cand_step now) ?b cs)))) q = Some s" using Cons.prems(2) by simp
  with Cons.IH [of ?b] Cons.prems(1) consider (old) "fmlookup (ib_steers (pl_c (fst ?b))) q = Some s"
    | (new) "q \<notin> set (snd ?b)" "fresh_steer now fresh perf (pl_c (fst ?b)) q s" by auto
  then show ?case
  proof cases
    case old
    then show ?thesis
    proof (cases rule: cand_step_shape [where now = now and acc = acc and cd = cd])
      case same
      then show ?thesis using old by simp
    next
      case (steered t)
      then show ?thesis using old Cons.prems(1) by (auto simp: fresh_steer_def cand_evidence_def split: if_splits)
    qed
  next
    case new
    then have "q \<noteq> cd_p cd" "q \<notin> set (snd acc)" by (auto simp: cand_step_seen)
    then show ?thesis using new(2) ripe_cong [OF cand_step_memory wire] by (simp add: fresh_steer_def)
  qed
qed simp

lemma plan_final_new:
  assumes "steers_ok c" "fmlookup (ib_steers (pl_c (fst (plan_final now inp c)))) q = Some s"
  shows "(\<exists>s0. fmlookup (ib_steers c) q = Some s0 \<and> st_Trigger s = st_Trigger s0) \<and>
      evidenced (ib_cfg c) now (plan_fresh now inp c) (plan_perf now inp c) s \<or>
    fresh_steer now (plan_fresh now inp c) (plan_perf now inp c) (pl_c (plan_reviewed now inp c)) q s"
proof -
  let ?r = "plan_reviewed now inp c"
  note rev = plan_reviewed_keeps [OF assms(1), of now inp]
  let ?cs = "commit_cands (plan_fresh now inp c) ?r @ perf_cands (plan_perf now inp c) ?r"
  have "cand_evidence (plan_fresh now inp c) (plan_perf now inp c) cd" if "cd \<in> set ?cs" for cd
    using that commit_cands_ok [of cd "ib_cfg c" now "in_Usage inp" ?r] perf_cands_ok [of cd "ib_cfg c" now "in_Paths inp" ?r]
    by (auto simp: cand_evidence_def plan_fresh_def plan_perf_def fmdom'_iff)
  then have ev: "\<forall>cd \<in> set ?cs. cand_evidence (plan_fresh now inp c) (plan_perf now inp c) cd" by blast
  from cands_fold_new [OF ev assms(2) [unfolded plan_final_def]]
  consider (old) "fmlookup (ib_steers (pl_c ?r)) q = Some s"
    | (new) "fresh_steer now (plan_fresh now inp c) (plan_perf now inp c) (pl_c ?r) q s" by auto
  then show ?thesis
  proof cases
    case old
    let ?a = "\<lparr>pl_c = c\<lparr>ib_evaluated := now, ib_blocked := []\<rparr>, pl_changes = [], pl_released = []\<rparr> :: plan_acc"
    have "steers_ok (pl_c ?a)" using assms(1) by (simp add: steers_ok_def)
    from review_fold_evidence [OF this, of "sortedKeys (ib_steers c)" "ib_cfg c" now "plan_fresh now inp c" "plan_perf now inp c"] old
    have "evidenced (ib_cfg c) now (plan_fresh now inp c) (plan_perf now inp c) s"
      by (simp add: plan_reviewed_def in_reviewed_def fmdom'_iff)
    moreover have "\<exists>s0. fmlookup (ib_steers c) q = Some s0 \<and> st_Trigger s = st_Trigger s0"
      using rev(2) old by (auto simp: fewer_steers_def)
    ultimately show ?thesis by blast
  next
    case new
    then show ?thesis ..
  qed
qed

lemma plan_reviewed_memory:
  assumes "steers_ok c" "fmlookup (ib_steers c) q = None"
  shows "same_memory q c (pl_c (plan_reviewed now inp c))"
proof -
  let ?a = "\<lparr>pl_c = c\<lparr>ib_evaluated := now, ib_blocked := []\<rparr>, pl_changes = [], pl_released = []\<rparr> :: plan_acc"
  have "steers_ok (pl_c ?a)" "fmlookup (ib_steers (pl_c ?a)) q = None" using assms by (simp_all add: steers_ok_def)
  from review_fold_memory [OF this, of "ib_cfg c" now "plan_fresh now inp c" "plan_perf now inp c" "sortedKeys (ib_steers c)"]
  show ?thesis by (simp add: plan_reviewed_def in_reviewed_def same_memory_def)
qed

section \<open>Reachable states\<close>

datatype in_op =
    OpPlan time in_input
  | OpRevert time string string duration
  | OpSync in_env
  | OpWithdrawAll in_env
  | OpApply in_env Runtime

fun apply_in_op :: "in_op \<Rightarrow> inController \<Rightarrow> inController" where
  "apply_in_op (OpPlan now inp) c = fst (in_Plan now inp c)"
| "apply_in_op (OpRevert now p why d) c = fst (Revert now p why d c)"
| "apply_in_op (OpSync e) c = fst (in_Sync e c)"
| "apply_in_op (OpWithdrawAll e) c = fst (in_WithdrawAll e c)"
| "apply_in_op (OpApply e rt) c = fst (in_ApplyRuntime e rt c)"

inductive reachable_in :: "inController \<Rightarrow> bool" where
  start: "in_New cfg ann rib = Inr c \<Longrightarrow> reachable_in c"
| op: "reachable_in c \<Longrightarrow> reachable_in (apply_in_op x c)"

definition wire_state_ok :: "inController \<Rightarrow> bool" where
  "wire_state_ok c \<longleftrightarrow> in_wire (ib_log c) = fmlookup (ib_active c) \<and> fmdom' (ib_active c) \<subseteq> set (ic_Prefixes (ib_cfg c)) \<and>
     ib_onWire c = int (fmlen (ib_active c)) \<and> (ic_Mode (ib_cfg c) \<noteq> ''inject'' \<longrightarrow> ib_active c = fmempty)"

lemma fmlen_zero: "fmlen m = 0 \<Longrightarrow> m = fmempty"
  by (auto simp: fmlen_def fmdom'_iff intro!: fmap_ext)

lemma wire_state_run:
  assumes "wire_state_ok c" "in_run e away c c'" "ic_Mode (ib_cfg c) = ''inject'' \<or> ib_active c' = fmempty"
  shows "wire_state_ok (storeActive c')"
proof -
  have "in_table_ok e c" using assms(1) by (simp add: wire_state_ok_def in_table_ok_def)
  from in_table.run [OF assms(2) this] assms(1,3) in_run_keeps(1) [OF assms(2)]
  show ?thesis by (auto simp: wire_state_ok_def in_table_ok_def storeActive_def)
qed

lemma withdrawAll_empty: "snd (in_withdrawAllLocked e c) = [] \<Longrightarrow> ib_active (fst (in_withdrawAllLocked e c)) = fmempty"
  by (auto simp: in_withdrawAllLocked_def in_do_eq fmlen_zero split: bool.splits)

lemma steers_ok_cong: "ib_steers c' = ib_steers c \<Longrightarrow> ic_Providers (ib_cfg c') = ic_Providers (ib_cfg c) \<Longrightarrow> steers_ok c' = steers_ok c"
  by (simp add: steers_ok_def)

lemma storeActive_simps [simp]:
  "ib_cfg (storeActive c) = ib_cfg c" "ib_steers (storeActive c) = ib_steers c" "ib_active (storeActive c) = ib_active c"
  "ib_log (storeActive c) = ib_log c"
  by (simp_all add: storeActive_def)

lemma Sync_ok:
  assumes "steers_ok c" "wire_state_ok c"
  shows "steers_ok (fst (in_Sync e c)) \<and> wire_state_ok (fst (in_Sync e c))"
proof (cases "ic_Mode (ib_cfg c) = ''inject''")
  case True
  obtain c1 where c1: "in_run e (away_of c) c c1" "fst (in_Sync e c) = storeActive c1" using in_Sync_run by blast
  then show ?thesis
    using steers_ok_cong [of "fst (in_Sync e c)" c] assms wire_state_run [OF assms(2) c1(1)] True in_run_keeps [OF c1(1)] by simp
next
  case False
  then have "fst (in_Sync e c) = storeActive c" by (simp add: in_Sync_def Let_def)
  then show ?thesis using assms steers_ok_cong [of "storeActive c" c] by (simp add: wire_state_ok_def) (simp add: storeActive_def)
qed

lemma withdrawAll_ok:
  assumes "steers_ok c" "wire_state_ok c" "ic_Mode (ib_cfg c) = ''inject''"
  shows "steers_ok (storeActive (fst (in_withdrawAllLocked e c))) \<and> wire_state_ok (storeActive (fst (in_withdrawAllLocked e c)))"
proof -
  note run = in_withdrawAll_run [of e "[]" c]
  show ?thesis
    using steers_ok_cong [of "storeActive (fst (in_withdrawAllLocked e c))" c] assms wire_state_run [OF assms(2) run] in_run_keeps [OF run] by simp
qed

lemma WithdrawAll_ok:
  assumes "steers_ok c" "wire_state_ok c"
  shows "steers_ok (fst (in_WithdrawAll e c)) \<and> wire_state_ok (fst (in_WithdrawAll e c))"
proof -
  have "steers_ok (storeActive c) \<and> wire_state_ok (storeActive c)"
    using assms steers_ok_cong [of "storeActive c" c] by (simp add: wire_state_ok_def) (simp add: storeActive_def)
  then show ?thesis using assms withdrawAll_ok [OF assms, of e] by (auto simp: in_WithdrawAll_def Let_def case_prod_beta)
qed

lemma ApplyRuntime_ok:
  assumes "steers_ok c" "wire_state_ok c"
  shows "steers_ok (fst (in_ApplyRuntime e rt c)) \<and> wire_state_ok (fst (in_ApplyRuntime e rt c))"
proof -
  let ?leave = "ic_Mode (ib_cfg c) = ''inject'' \<and> rt_Mode rt \<noteq> ''inject''"
  define c1 where "c1 = (if ?leave then fst (in_withdrawAllLocked e c) else c)"
  define errs where "errs = (if ?leave then snd (in_withdrawAllLocked e c) else [])"
  have store: "steers_ok (storeActive c1) \<and> wire_state_ok (storeActive c1)"
  proof (cases ?leave)
    case True
    then show ?thesis using withdrawAll_ok [OF assms] by (simp add: c1_def)
  next
    case False
    then show ?thesis unfolding c1_def if_not_P [OF False]
      using assms steers_ok_cong [of "storeActive c" c] by (simp add: wire_state_ok_def) (simp add: storeActive_def)
  qed
  have empty: "ib_active c1 = fmempty" if "errs = []" "rt_Mode rt \<noteq> ''inject''"
    using that assms(2) withdrawAll_empty [of e c] by (auto simp: errs_def c1_def wire_state_ok_def split: if_splits)
  let ?c2 = "storeActive (c1\<lparr>ib_cfg := (ib_cfg c1)\<lparr>ic_Mode := rt_Mode rt, ic_Allowlist := rt_Allowlist rt, ic_HoldTime := rt_HoldTime rt, ic_TTL := rt_TTL rt\<rparr>\<rparr>)"
  have final: "steers_ok ?c2 \<and> wire_state_ok ?c2" if "errs = []"
    using store empty that steers_ok_cong [of ?c2 "storeActive c1"] by (simp add: wire_state_ok_def) (simp add: storeActive_def)
  have "(if ?leave then in_withdrawAllLocked e c else (c, [])) = (c1, errs)" by (simp add: c1_def errs_def)
  then have "fst (in_ApplyRuntime e rt c) = storeActive c1 \<or> errs = [] \<and> fst (in_ApplyRuntime e rt c) = ?c2"
    unfolding in_ApplyRuntime_def Let_def by (auto split: option.splits)
  with store final show ?thesis by auto
qed

lemma Revert_ok:
  assumes "steers_ok c" "wire_state_ok c"
  shows "steers_ok (fst (Revert now p why d c)) \<and> wire_state_ok (fst (Revert now p why d c))"
proof -
  have eq: "fewer_steers (ib_steers c) (ib_steers (fst (Revert now p why d c)))" "same_wire c (fst (Revert now p why d c))"
    by (auto simp: Revert_def Let_def same_wire_def split: option.splits)
  then have "steers_ok (fst (Revert now p why d c))" using fewer_steers_ok [OF assms(1)] by (simp add: same_wire_def)
  with eq(2) assms(2) show ?thesis by (simp add: wire_state_ok_def same_wire_def)
qed

lemma in_New_state:
  "in_New cfg ann rib = Inr c \<Longrightarrow> ib_steers c = fmempty \<and> ib_active c = fmempty \<and> ib_log c = [] \<and> ib_onWire c = 0"
  by (auto simp: in_New_def Let_def split: option.splits if_splits)

lemma reachable_in_ok: "reachable_in c \<Longrightarrow> steers_ok c \<and> wire_state_ok c"
proof (induction rule: reachable_in.induct)
  case (start cfg ann rib c)
  from in_New_state [OF start] show ?case by (auto simp: steers_ok_def wire_state_ok_def in_wire_def)
next
  case (op c x)
  then show ?case
  proof (cases x)
    case (OpPlan now inp)
    then show ?thesis using in_Plan_keeps [of c now inp] op by (simp add: wire_state_ok_def same_wire_def)
  qed (use Sync_ok WithdrawAll_ok ApplyRuntime_ok Revert_ok op in auto)
qed

section \<open>Damping\<close>

lemma hold_loop_eq:
  assumes "1 \<le> backoff" "0 \<le> hold"
  shows "min (hold_loop n backoff mx hold) (max mx hold) = min (hold * backoff ^ n) (max mx hold) \<and> hold \<le> hold_loop n backoff mx hold"
  using assms(2)
proof (induction n arbitrary: hold)
  case (Suc n)
  have grow: "hold \<le> hold * backoff" "1 \<le> backoff ^ n" using Suc.prems assms(1) by (simp_all add: mult_le_cancel_left1)
  then have "hold * backoff * 1 \<le> hold * backoff * backoff ^ n" using Suc.prems assms(1) by (intro mult_left_mono) auto
  then have pow: "hold \<le> hold * backoff ^ Suc n" using grow by (simp add: mult.assoc)
  show ?case
  proof (cases "hold < mx")
    case True
    with Suc.IH [of "hold * backoff"] Suc.prems assms(1) grow show ?thesis by (auto simp: min_def max_def mult.assoc split: if_splits)
  next
    case False
    with pow show ?thesis by (simp add: min_def max_def)
  qed
qed simp

lemma min_floor: "min \<lfloor>x :: rat\<rfloor> k = \<lfloor>min x (of_int k)\<rfloor>"
  by (simp add: min_def) linarith

lemma hold_loop_duration:
  assumes "1 \<le> backoff" "0 \<le> h"
  shows "min (to_duration (hold_loop n backoff (of_int mx) (of_int h))) (max mx h) = min \<lfloor>of_int h * backoff ^ n\<rfloor> (max mx h)"
proof -
  have h: "(0 :: rat) \<le> of_int h" using assms(2) by simp
  note loop = hold_loop_eq [OF assms(1) h, of n "of_int mx"]
  have "0 \<le> hold_loop n backoff (of_int mx) (of_int h)" using loop h by linarith
  then have "to_duration (hold_loop n backoff (of_int mx) (of_int h)) = \<lfloor>hold_loop n backoff (of_int mx) (of_int h)\<rfloor>"
    by (simp add: to_duration_def)
  moreover have "max (of_int mx) (of_int h) = (of_int (max mx h) :: rat)" by (simp add: max_def)
  ultimately show ?thesis using loop min_floor [of _ "max mx h"] by metis
qed

text \<open>
  The hold of a steer. A provider that is steered again within the flap window of its release is held for the hold
  time multiplied by the backoff once per flap, and never longer than the longer of \<open>max_hold\<close> and the hold time; a
  provider that is not flapping is held for the hold time.
\<close>

theorem damped_hold:
  assumes "0 \<le> ic_HoldTime (ib_cfg c)" "1 \<le> da_Backoff (ic_Damping (ib_cfg c))" "st_Flaps s = 0"
  shows "st_Hold (fst (damped now s c)) =
    min \<lfloor>of_int (ic_HoldTime (ib_cfg c)) * da_Backoff (ic_Damping (ib_cfg c)) ^ nat (st_Flaps (fst (damped now s c)))\<rfloor>
      (max (da_MaxHold (ic_Damping (ib_cfg c))) (ic_HoldTime (ib_cfg c)))"
  using assms(3) hold_loop_duration [OF assms(2,1)] by (simp add: damped_def Let_def split: option.splits)

section \<open>Properties\<close>

text \<open>
  C24: inbound traffic always has a way in. In every reachable state some configured provider is not steered, a steer is stored
  under its own provider, which is configured, and at most one of them is steered for its performance.
\<close>

theorem inbound_keeps_a_provider:
  assumes "reachable_in c" "distinct (ic_Providers (ib_cfg c))" "ic_Providers (ib_cfg c) \<noteq> []"
  shows "(\<exists>q \<in> set (ic_Providers (ib_cfg c)). fmlookup (ib_steers c) q = None) \<and>
    (\<forall>p s. fmlookup (ib_steers c) p = Some s \<longrightarrow> st_Provider s = p \<and> p \<in> set (ic_Providers (ib_cfg c))) \<and>
    card {p. \<exists>s. fmlookup (ib_steers c) p = Some s \<and> st_Trigger s = TriggerPerformance} \<le> 1"
proof -
  have ok: "steers_ok c" using reachable_in_ok [OF assms(1)] ..
  then have sub: "fmdom' (ib_steers c) \<subseteq> set (ic_Providers (ib_cfg c))" by (auto simp: steers_ok_def fmdom'_iff)
  have "fmlen (ib_steers c) < card (set (ic_Providers (ib_cfg c)))"
    using ok assms(2,3) by (auto simp: steers_ok_def distinct_card)
  with sub have "fmdom' (ib_steers c) \<noteq> set (ic_Providers (ib_cfg c))" by (auto simp: fmlen_def)
  with sub obtain q where "q \<in> set (ic_Providers (ib_cfg c))" "q \<notin> fmdom' (ib_steers c)" by blast
  moreover have "card {p. \<exists>s. fmlookup (ib_steers c) p = Some s \<and> st_Trigger s = TriggerPerformance} \<le> 1"
  proof -
    have fin: "finite {p. \<exists>s. fmlookup (ib_steers c) p = Some s \<and> st_Trigger s = TriggerPerformance}"
      by (rule finite_subset [of _ "fmdom' (ib_steers c)"]) (auto simp: fmdom'_iff)
    show ?thesis unfolding One_nat_def card_le_Suc0_iff_eq [OF fin] using ok unfolding steers_ok_def by blast
  qed
  moreover have "\<forall>p s. fmlookup (ib_steers c) p = Some s \<longrightarrow> st_Provider s = p \<and> p \<in> set (ic_Providers (ib_cfg c))"
    using ok by (simp add: steers_ok_def)
  ultimately show ?thesis by (auto simp: fmdom'_iff)
qed

text \<open>
  C25: a steer rests on fresh evidence. After a round every steer has a fresh telemetry row of its provider, or a
  comparison of the probes it is in, and has not outlived \<open>improvement_ttl\<close>; a provider that was not steered before has
  had its trigger for the confirmation time, is not cooling down, and has an action in the catalog.
\<close>

theorem in_Plan_on_evidence:
  assumes "reachable_in c" and "fmlookup (ib_steers (fst (in_Plan now inp c))) q = Some s"
  shows "(case st_Trigger s of
        TriggerCommit \<Rightarrow> \<exists>u \<in> set (in_Usage inp). us_Provider u = q \<and> us_Error u = [] \<and> in_fresh_age now (us_Updated u) (ic_MaxAge (ib_cfg c))
      | TriggerPerformance \<Rightarrow> fmlookup (pv_gaps (in_performance (ib_cfg c) now (in_Paths inp))) q \<noteq> None) \<and>
    (ic_TTL (ib_cfg c) > 0 \<longrightarrow> time_sub now (st_Since s) < ic_TTL (ib_cfg c)) \<and>
    (fmlookup (ib_steers c) q = None \<longrightarrow> ripe now c q)"
proof -
  have ok: "steers_ok c" using reachable_in_ok [OF assms(1)] ..
  have final: "fmlookup (ib_steers (pl_c (fst (plan_final now inp c)))) q = Some s"
    using assms(2) by (simp add: in_Plan_eq forget_keeps)
  have prov: "st_Provider s = q" using plan_final_keeps(1) [OF ok, of now inp] final by (auto simp: steers_ok_def)
  have fresh: "\<exists>u \<in> set (in_Usage inp). us_Provider u = q \<and> us_Error u = [] \<and> in_fresh_age now (us_Updated u) (ic_MaxAge (ib_cfg c))"
    if "fmlookup (plan_fresh now inp c) q \<noteq> None"
    using that fresh_usage_key [of "ib_cfg c" now "in_Usage inp" q] by (auto simp: plan_fresh_def)
  from plan_final_new [OF ok final] show ?thesis
  proof
    assume "(\<exists>s0. fmlookup (ib_steers c) q = Some s0 \<and> st_Trigger s = st_Trigger s0) \<and>
      evidenced (ib_cfg c) now (plan_fresh now inp c) (plan_perf now inp c) s"
    then show ?thesis using prov fresh by (cases "st_Trigger s") (auto simp: evidenced_def plan_perf_def)
  next
    assume new: "fresh_steer now (plan_fresh now inp c) (plan_perf now inp c) (pl_c (plan_reviewed now inp c)) q s"
    have "ripe now c q" if "fmlookup (ib_steers c) q = None"
      using new ripe_cong [OF plan_reviewed_memory [OF ok that] plan_reviewed_keeps(1) [OF ok]] by (simp add: fresh_steer_def)
    moreover have "time_sub now now = 0" by (simp add: time_sub_def minDuration_def maxDuration_def)
    ultimately show ?thesis using new fresh by (cases "st_Trigger s") (auto simp: fresh_steer_def plan_perf_def)
  qed
qed

text \<open>
  C26: the steer routes on the wire. In every reachable state the table of steer routes is what the successful calls of
  the announcer left on the wire, all of them are prefixes of the configuration, the published counter is their number, and
  outside inject mode there are none.
\<close>

theorem in_table_is_wire:
  assumes "reachable_in c"
  shows "in_wire (ib_log c) p = fmlookup (ib_active c) p \<and> (in_OnWire c p \<longrightarrow> in_Reserved c p) \<and>
    in_Active c = int (fmlen (ib_active c)) \<and> (ic_Mode (ib_cfg c) \<noteq> ''inject'' \<longrightarrow> ib_active c = fmempty)"
  using reachable_in_ok [OF assms]
  by (auto simp: wire_state_ok_def in_OnWire_def in_Reserved_def in_Active_def subset_iff fmdom'_iff)

text \<open>
  C27: every announcement of a steer route is safe: an inbound prefix that is allowlisted and not held by threat
  mitigation, with the learned next hop, and steering away from the providers with a steer that is not moderated; and a
  synchronisation brings the routes neither above \<open>max_improvements\<close> nor, with those of outbound, above the shared cap.
\<close>

theorem in_Sync_safe:
  assumes "reachable_in c"
  shows "(\<forall>r ok. (InAnnounce r, ok) \<in> set (drop (length (ib_log c)) (ib_log (fst (in_Sync e c)))) \<longrightarrow>
      in_safe_route e (ib_cfg c) (away_of c) (ib_active c) r) \<and>
    in_caps_ok (fmlen (ib_active c)) e (fst (in_Sync e c))"
proof -
  obtain c1 where c1: "in_run e (away_of c) c c1" "fst (in_Sync e c) = storeActive c1" using in_Sync_run by blast
  have "in_safe_calls (ib_cfg c) (away_of c) (ib_active c) (ib_log c) e c" by (auto simp: in_safe_calls_def)
  from in_safe_run [OF c1(1) this] have safe: "\<exists>new. ib_log c1 = ib_log c @ new \<and> (\<forall>r ok. (InAnnounce r, ok) \<in> set new \<longrightarrow>
      in_safe_route e (ib_cfg c) (away_of c) (ib_active c) r)" by (simp add: in_safe_calls_def)
  have "in_caps_ok (fmlen (ib_active c)) e c" by (simp add: in_caps_ok_def)
  from in_caps.run [OF c1(1) this] safe show ?thesis unfolding c1(2) by (auto simp: in_caps_ok_def) blast+
qed

definition in_settled :: "in_env \<Rightarrow> string list \<Rightarrow> inController \<Rightarrow> prefix \<Rightarrow> bool" where
  "in_settled e away c p \<longleftrightarrow>
     (case fmlookup (ib_active c) p of
        None \<Rightarrow> ie_Excluded e p
      | Some r \<Rightarrow> \<not> ie_Excluded e p \<and> CoveredBy (ic_Allowlist (ib_cfg c)) p \<and> Join (ir_Away r) '','' = Join away '','')"

lemma in_withdrawLocked_facts:
  "ib_cfg (fst (in_withdrawLocked e p c)) = ib_cfg c"
  "q \<noteq> p \<Longrightarrow> fmlookup (ib_active (fst (in_withdrawLocked e p c))) q = fmlookup (ib_active c) q"
  "snd (in_withdrawLocked e p c) = [] \<Longrightarrow> fmlookup (ib_active (fst (in_withdrawLocked e p c))) p = None"
  by (simp_all add: in_withdrawLocked_def in_do_eq split: bool.splits)

lemma in_announce_facts:
  "ib_cfg (fst (in_announce e away p nh c)) = ib_cfg c"
  "q \<noteq> p \<Longrightarrow> fmlookup (ib_active (fst (in_announce e away p nh c))) q = fmlookup (ib_active c) q"
  "snd (in_announce e away p nh c) = [] \<Longrightarrow>
     fmlookup (ib_active (fst (in_announce e away p nh c))) p = Some \<lparr>ir_Prefix = p, ir_NextHop = nh, ir_Away = away\<rparr>"
  by (simp_all add: in_announce_def in_do_eq Let_def split: bool.splits)

text \<open>What happens to one prefix, as a withdrawal, an announcement, or nothing.\<close>

lemma in_sync_prefix_shape:
  obtains (drop) errs where "fst (in_sync_prefix e away p c) = fst (in_withdrawLocked e p c)" "ie_Excluded e p \<or> errs \<noteq> []"
      "snd (in_sync_prefix e away p c) = snd (in_withdrawLocked e p c) @ errs"
  | (put) nh where "in_sync_prefix e away p c = in_announce e away p nh c" "\<not> ie_Excluded e p" "CoveredBy (ic_Allowlist (ib_cfg c)) p"
  | (stay) "fst (in_sync_prefix e away p c) = c" "snd (in_sync_prefix e away p c) = [] \<longrightarrow> in_settled e away c p"
proof (cases "ie_Excluded e p")
  case True
  show ?thesis
  proof (cases "fmlookup (ib_active c) p")
    case None
    then show ?thesis using True by (intro stay) (simp_all add: in_sync_prefix_def in_settled_def)
  next
    case (Some r)
    then show ?thesis using True by (intro drop [of "[]"]) (simp_all add: in_sync_prefix_def)
  qed
next
  case ex: False
  show ?thesis
  proof (cases "CoveredBy (ic_Allowlist (ib_cfg c)) p")
    case False
    then show ?thesis
    proof (cases "fmlookup (ib_active c) p")
      case None
      then show ?thesis using ex False by (intro stay) (simp_all add: in_sync_prefix_def)
    next
      case (Some r)
      then show ?thesis using ex False by (intro drop [of "[InNotAllowlisted p]"]) (simp_all add: in_sync_prefix_def case_prod_beta)
    qed
  next
    case True
    show ?thesis
    proof (cases "fmlookup (ib_active c) p")
      case None
      show ?thesis
      proof (cases "ie_NextHop e p")
        case no: None
        then show ?thesis using ex True None by (intro stay) (simp_all add: in_sync_prefix_def)
      next
        case (Some nh)
        have "in_sync_prefix e away p c = in_announce e away p nh c \<or> (\<exists>x. in_sync_prefix e away p c = (c, [x]))"
          unfolding in_sync_prefix_def Let_def None Some using ex True by simp
        then show ?thesis
        proof
          assume "in_sync_prefix e away p c = in_announce e away p nh c"
          then show ?thesis using ex True by (intro put)
        next
          assume "\<exists>x. in_sync_prefix e away p c = (c, [x])"
          then show ?thesis by (intro stay) auto
        qed
      qed
    next
      case (Some r)
      then show ?thesis
        using ex True stay put by (cases "Join (ir_Away r) '','' = Join away '',''") (auto simp: in_sync_prefix_def in_settled_def)
    qed
  qed
qed

lemma in_sync_prefix_settles:
  assumes "snd (in_sync_prefix e away p c) = []"
  shows "in_settled e away (fst (in_sync_prefix e away p c)) p"
proof (cases rule: in_sync_prefix_shape [where e = e and away = away and p = p and c = c])
  case (drop errs)
  then show ?thesis using assms in_withdrawLocked_facts(3) [of e p c] by (simp add: in_settled_def)
next
  case (put nh)
  then show ?thesis using assms in_announce_facts(1,3) [of e away p nh c] by (simp add: in_settled_def)
next
  case stay
  then show ?thesis using assms by simp
qed

lemma in_sync_prefix_frame:
  assumes "q \<noteq> p"
  shows "fmlookup (ib_active (fst (in_sync_prefix e away p c))) q = fmlookup (ib_active c) q \<and> ib_cfg (fst (in_sync_prefix e away p c)) = ib_cfg c"
  using assms by (cases rule: in_sync_prefix_shape [where e = e and away = away and p = p and c = c])
    (simp_all add: in_withdrawLocked_facts in_announce_facts)

lemma in_sync_step_parts:
  "fst (in_sync_step e away acc p) = fst (in_sync_prefix e away p (fst acc))"
  "snd (in_sync_step e away acc p) = snd acc @ snd (in_sync_prefix e away p (fst acc))"
  by (simp_all add: in_sync_step_def Let_def case_prod_beta)

lemma in_sync_fold_settles:
  assumes "snd (foldl (in_sync_step e away) (c, []) ps) = []" "p \<in> set ps"
  shows "in_settled e away (fst (foldl (in_sync_step e away) (c, []) ps)) p"
  using assms
proof (induction ps rule: rev_induct)
  case (snoc x ps)
  let ?b = "foldl (in_sync_step e away) (c, []) ps"
  have errs: "snd ?b = []" "snd (in_sync_prefix e away x (fst ?b)) = []"
    using snoc.prems(1) by (simp_all add: in_sync_step_parts)
  show ?case
  proof (cases "p = x")
    case True
    then show ?thesis using in_sync_prefix_settles [OF errs(2)] by (simp add: in_sync_step_parts)
  next
    case False
    then have "in_settled e away (fst ?b) p" using snoc errs(1) by simp
    then show ?thesis using False
      using in_sync_prefix_frame [OF False, of e away "fst ?b"]
      unfolding in_settled_def foldl_append foldl.simps in_sync_step_parts by (auto split: option.splits)
  qed
qed simp

text \<open>Where nothing is to be steered away from, or the routes may not be there, a synchronisation without an error leaves none.\<close>

lemma in_Sync_off:
  assumes "reachable_in c" and "\<not> (ic_Mode (ib_cfg c) = ''inject'' \<and> ie_Leader e \<and> ie_Ready e \<and> away_of c \<noteq> [])" and "in_Sync e c = (c', [])"
  shows "ib_active c' = fmempty"
proof -
  have "ic_Mode (ib_cfg c) \<noteq> ''inject'' \<longrightarrow> ib_active c = fmempty"
    using reachable_in_ok [OF assms(1)] by (auto simp: wire_state_ok_def)
  then show ?thesis
    using assms(2,3) fmlen_zero [of "ib_active c"] by (auto simp: in_Sync_def Let_def case_prod_beta in_withdrawAllLocked_def storeActive_def split: prod.splits bool.splits if_splits)
qed

text \<open>
  C28: a synchronisation without an error leaves exactly the steer routes the steers call for. In inject mode, with the lease,
  the RIB and a provider to steer away from, every inbound prefix has a route that steers away from those providers, but
  for the prefixes threat mitigation holds, which have none, and no other prefix has one. In observe mode, on standby,
  without the RIB, and once no provider is to be steered away from, no route at all is left.
\<close>

theorem in_Sync_complete:
  assumes "reachable_in c" "in_Sync e c = (c', [])"
  shows "if ic_Mode (ib_cfg c) = ''inject'' \<and> ie_Leader e \<and> ie_Ready e \<and> away_of c \<noteq> []
    then (case fmlookup (ib_active c') p of
        None \<Rightarrow> p \<in> set (ic_Prefixes (ib_cfg c)) \<longrightarrow> ie_Excluded e p
      | Some r \<Rightarrow> p \<in> set (ic_Prefixes (ib_cfg c)) \<and> \<not> ie_Excluded e p \<and> CoveredBy (ic_Allowlist (ib_cfg c)) p \<and>
          Join (ir_Away r) '','' = Join (away_of c) '','')
    else ib_active c' = fmempty"
proof (cases "ic_Mode (ib_cfg c) = ''inject'' \<and> ie_Leader e \<and> ie_Ready e \<and> away_of c \<noteq> []")
  case False
  then show ?thesis using in_Sync_off [OF assms(1) False assms(2)] by auto
next
  case True
  let ?f = "foldl (in_sync_step e (away_of c)) (c, []) (ic_Prefixes (ib_cfg c))"
  have eq: "c' = storeActive (fst ?f)" "snd ?f = []" using True assms(2) by (auto simp: in_Sync_def Let_def case_prod_beta)
  have cfg: "ib_cfg (fst ?f) = ib_cfg c" using in_run_keeps(1) [OF in_sync_fold_run [of _ "(c, [])"]] True by auto
  have "reachable_in c'" using reachable_in.op [OF assms(1), of "OpSync e"] assms(2) by simp
  then have "fmdom' (ib_active c') \<subseteq> set (ic_Prefixes (ib_cfg c'))" using reachable_in_ok by (simp add: wire_state_ok_def)
  then have dom: "p \<in> set (ic_Prefixes (ib_cfg c))" if "fmlookup (ib_active c') p \<noteq> None"
    using that cfg by (auto simp: eq(1) fmdom'_iff subset_iff)
  show ?thesis
  proof (cases "p \<in> set (ic_Prefixes (ib_cfg c))")
    case inside: True
    then show ?thesis using in_sync_fold_settles [OF eq(2) inside] cfg True by (auto simp: in_settled_def eq(1) split: option.splits)
  next
    case False
    then show ?thesis using dom True by (cases "fmlookup (ib_active c') p") auto
  qed
qed

section \<open>An example\<close>

definition exInP :: prefix where "exInP = Pfx (V4 0x0A000000) 24"

definition exInCfg :: inConfig where
  "exInCfg = \<lparr>ic_Mode = ''inject'', ic_Prefixes = [exInP], ic_Allowlist = [exInP], ic_Community = ''64500:777'', ic_LocalPref = 200,
     ic_MaxImprovements = 5, ic_SharedCap = 10, ic_HoldTime = 60, ic_TTL = 0, ic_ReleasePct = 90, ic_MaxAge = 0,
     ic_Providers = [''a'', ''b'', ''c''], ic_ASN = (\<lambda>p. if p = ''c'' then 3 else 1), ic_Performance = None, ic_PerfMaxAge = 0,
     ic_Damping = \<lparr>da_Disabled = False, da_Confirm = 0, da_Backoff = 2, da_MaxHold = 480\<rparr>, ic_Moderated = (\<lambda>_. False)\<rparr>"

definition exInAct :: "string \<Rightarrow> InboundAction option" where
  "exInAct p = Some \<lparr>ia_Provider = p, ia_Name = [], ia_Prepend = (if p = ''a'' then 0 else 2), ia_Withhold = False,
     ia_MED = (if p = ''a'' then 50 else 0), ia_Communities = [''64500:1'']\<rparr>"

definition exInEnv :: in_env where
  "exInEnv = \<lparr>ie_Ready = True, ie_NextHop = (\<lambda>_. Some (V4 0x0A000001)), ie_Excluded = (\<lambda>_. False), ie_Others = Some 0, ie_Leader = True,
     ie_fails = (\<lambda>_ _. False)\<rparr>"

definition exInUsage :: "string \<Rightarrow> float64 \<Rightarrow> Usage" where
  "exInUsage p mbps = zeroUsage\<lparr>us_Provider := p, us_CommitMbps := 100, us_Samples := 1, us_InMbps95 := mbps, us_Updated := 1000\<rparr>"

definition exIn0 :: inController where
  "exIn0 = (case in_New exInCfg (Some exInAct) True of Inr c \<Rightarrow> c)"

definition exInInput :: in_input where
  "exInInput = \<lparr>in_Usage = [exInUsage ''a'' 200, exInUsage ''b'' 50], in_Paths = []\<rparr>"

definition exIn1 :: inController where "exIn1 = fst (in_Plan 1000 exInInput exIn0)"

definition exIn2 :: inController where "exIn2 = fst (in_Sync exInEnv exIn1)"

lemma ex_in_New: "in_New exInCfg (Some exInAct) True = Inr exIn0"
  by (simp add: exIn0_def in_New_def in_checkInject_def exInCfg_def)

lemma ex_in_reachable: "reachable_in exIn0" "reachable_in exIn1" "reachable_in exIn2"
proof -
  show 0: "reachable_in exIn0" by (rule reachable_in.start [OF ex_in_New])
  show 1: "reachable_in exIn1" using reachable_in.op [OF 0, of "OpPlan 1000 exInInput"] by (simp add: exIn1_def)
  show "reachable_in exIn2" using reachable_in.op [OF 1, of "OpSync exInEnv"] by (simp add: exIn2_def)
qed

lemma ex_in_steer: "map_option st_Trigger (fmlookup (ib_steers exIn1) ''a'') = Some TriggerCommit" "away_of exIn1 = [''a'']"
  by code_simp+

lemma ex_in_wire: "in_OnWire exIn2 exInP"
  by code_simp

theorem inbound_keeps_a_provider_witness: "\<exists>q \<in> {''a'', ''b'', ''c''}. fmlookup (ib_steers exIn1) q = None"
proof -
  have "ic_Providers (ib_cfg exIn1) = [''a'', ''b'', ''c'']" by code_simp
  with inbound_keeps_a_provider [OF ex_in_reachable(2)] show ?thesis by simp
qed

theorem in_Plan_on_evidence_witness: "\<exists>u \<in> set (in_Usage exInInput). us_Provider u = ''a'' \<and> us_Error u = []"
proof -
  obtain s where s: "fmlookup (ib_steers (fst (in_Plan 1000 exInInput exIn0))) ''a'' = Some s" "st_Trigger s = TriggerCommit"
    using ex_in_steer(1) by (auto simp: exIn1_def)
  from in_Plan_on_evidence [OF ex_in_reachable(1) s(1)] s(2) show ?thesis by auto
qed

theorem in_table_is_wire_witness: "in_wire (ib_log exIn2) exInP \<noteq> None \<and> in_Reserved exIn2 exInP"
proof -
  have "fmlookup (ib_active exIn2) exInP \<noteq> None" by code_simp
  with in_table_is_wire [OF ex_in_reachable(3), of exInP] ex_in_wire show ?thesis by simp
qed

theorem in_Sync_safe_witness: "int (fmlen (ib_active (fst (in_Sync exInEnv exIn1)))) \<le> 5"
proof -
  have "ic_MaxImprovements (ib_cfg (fst (in_Sync exInEnv exIn1))) = 5" "fmlen (ib_active exIn1) = 0" by code_simp+
  with in_Sync_safe [OF ex_in_reachable(2), of exInEnv] show ?thesis by (simp add: in_caps_ok_def)
qed

theorem in_Sync_complete_witness: "map_option (\<lambda>r. Join (ir_Away r) '','') (fmlookup (ib_active exIn2) exInP) = Some ''a''"
proof -
  have conf: "ic_Mode (ib_cfg exIn1) = ''inject''" "ie_Leader exInEnv" "ie_Ready exInEnv" "away_of exIn1 \<noteq> []"
    "exInP \<in> set (ic_Prefixes (ib_cfg exIn1))" "\<not> ie_Excluded exInEnv exInP" by code_simp+
  have sync: "in_Sync exInEnv exIn1 = (exIn2, [])"
    by (rule prod_eqI) (simp add: exIn2_def, code_simp)
  from in_Sync_complete [OF ex_in_reachable(2) sync, of exInP] conf ex_in_steer(2) show ?thesis
    by (cases "fmlookup (ib_active exIn2) exInP") auto
qed

text \<open>
  A MED steer can lose its purpose. A provider with a MED action is steered while another link to its AS is not, but that
  link can be steered next by an action of its own, in the same round: both links to the AS are then steered.
\<close>

definition exInBoth :: inController where
  "exInBoth = fst (in_Plan 1000 \<lparr>in_Usage = [exInUsage ''a'' 200, exInUsage ''b'' 150], in_Paths = []\<rparr> exIn0)"

lemma MED_siblings_all_steered:
  "map_option (\<lambda>s. ia_MED (st_Action s)) (fmlookup (ib_steers exInBoth) ''a'') = Some 50 \<and>
   medSiblings (ib_cfg exInBoth) ''a'' = [''b''] \<and> list_all (\<lambda>x. fmlookup (ib_steers exInBoth) x \<noteq> None) (medSiblings (ib_cfg exInBoth) ''a'')"
  by code_simp

end
