(* ===== verification/FlowSpec.thy ===== *)
theory FlowSpec
  imports Nettext
begin

text \<open>
  The contracts of threat mitigation (src/pkg/plugin/mitigation.go): catalogs and routes, and the texts of a FlowSpec match,
  whose key tells which route of the edge a rule stands for.
\<close>

section \<open>RTBH and redirect\<close>

definition MitigationBlackhole :: string where "MitigationBlackhole = ''blackhole''"

definition MitigationRedirect :: string where "MitigationRedirect = ''redirect''"

record MitigationTarget =
  mt_Name :: string
  mt_NextHop :: addr
  mt_Communities :: "string list"

record MitigationCatalog =
  mc_Blackhole :: bool
  mc_BlackholeNextHops :: "addr list"
  mc_BlackholeCommunities :: "string list"
  mc_Targets :: "MitigationTarget list"

definition catalog_Target :: "MitigationCatalog \<Rightarrow> string \<Rightarrow> MitigationTarget option" where
  "catalog_Target c name = find (\<lambda>t. mt_Name t = name) (mc_Targets c)"

definition catalog_NextHops :: "MitigationCatalog \<Rightarrow> addr list" where
  "catalog_NextHops c = sort_by addr_less (mc_BlackholeNextHops c @ map mt_NextHop (mc_Targets c))"

record MitigationRoute =
  mr_Prefix :: prefix
  mr_Action :: string
  mr_Target :: string
  mr_LocalPref :: "32 word"
  mr_Community :: string

section \<open>FlowSpec\<close>

definition MitigationFlowSpecDrop :: string where "MitigationFlowSpecDrop = ''flowspec_drop''"

definition MitigationFlowSpecRateLimit :: string where "MitigationFlowSpecRateLimit = ''flowspec_rate_limit''"

definition MitigationFlowSpecRedirect :: string where "MitigationFlowSpecRedirect = ''flowspec_redirect''"

definition IsFlowSpec :: "string \<Rightarrow> bool" where
  "IsFlowSpec action \<longleftrightarrow> action = MitigationFlowSpecDrop \<or> action = MitigationFlowSpecRateLimit \<or> action = MitigationFlowSpecRedirect"

definition MaxFlowSpecProtocols :: nat where "MaxFlowSpecProtocols = 8"

definition MaxFlowSpecPorts :: nat where "MaxFlowSpecPorts = 8"

definition MaxFlowSpecRateMbps :: float64 where "MaxFlowSpecRateMbps = 100000"

record FlowSpecTarget =
  ft_Name :: string
  ft_RouteTarget :: string

record FlowSpecCatalog =
  fc_Enabled :: bool
  fc_Targets :: "FlowSpecTarget list"

definition flow_Target :: "FlowSpecCatalog \<Rightarrow> string \<Rightarrow> FlowSpecTarget option" where
  "flow_Target c name = find (\<lambda>t. ft_Name t = name) (fc_Targets c)"

section \<open>Ports and protocols\<close>

record PortRange =
  pr_From :: "16 word"
  pr_To :: "16 word"

definition Itoa :: "'a :: len word \<Rightarrow> string" where
  "Itoa w = decimal (unat w)"

definition Port_String :: "PortRange \<Rightarrow> string" where
  "Port_String r = (if pr_From r = pr_To r then Itoa (pr_From r) else Itoa (pr_From r) @ ''-'' @ Itoa (pr_To r))"

datatype text_error = BadPort | BadPortRange | BadProtocol

definition Port_UnmarshalText :: "string \<Rightarrow> text_error + PortRange" where
  "Port_UnmarshalText b =
     (let cut = Cut (CHR ''-'') (TrimSpace b);
          lo = (case cut of None \<Rightarrow> TrimSpace b | Some (lo, hi) \<Rightarrow> lo)
      in case ParseUint 16 (TrimSpace lo) of
           None \<Rightarrow> Inl BadPort
         | Some f \<Rightarrow>
             (case cut of
                None \<Rightarrow> Inr \<lparr>pr_From = of_nat f, pr_To = of_nat f\<rparr>
              | Some (lo, hi) \<Rightarrow>
                  (case ParseUint 16 (TrimSpace hi) of
                     None \<Rightarrow> Inl BadPortRange
                   | Some t \<Rightarrow> if t < f then Inl BadPortRange else Inr \<lparr>pr_From = of_nat f, pr_To = of_nat t\<rparr>)))"

text \<open>A JSON string's contents, or a bare number as it is.\<close>

definition jsonScalar :: "string \<Rightarrow> string" where
  "jsonScalar b = (if length b \<ge> 2 \<and> hd b = CHR 0x22 \<and> last b = CHR 0x22 then butlast (tl b) else b)"

definition Port_UnmarshalJSON :: "string \<Rightarrow> text_error + PortRange" where
  "Port_UnmarshalJSON b = Port_UnmarshalText (jsonScalar b)"

type_synonym IPProtocol = "8 word"

definition protocolNames :: "(string \<times> IPProtocol) list" where
  "protocolNames = [(''icmp'', 1), (''tcp'', 6), (''udp'', 17), (''gre'', 47), (''esp'', 50), (''ah'', 51), (''icmpv6'', 58), (''sctp'', 132)]"

definition Protocol_String :: "IPProtocol \<Rightarrow> string" where
  "Protocol_String p = (case find (\<lambda>x. snd x = p) protocolNames of Some x \<Rightarrow> fst x | None \<Rightarrow> Itoa p)"

text \<open>\<open>strings.ToLower\<close> on ASCII text.\<close>

definition lower_char :: "char \<Rightarrow> char" where
  "lower_char c = (case find (\<lambda>x. fst x = c) (zip ''ABCDEFGHIJKLMNOPQRSTUVWXYZ'' ''abcdefghijklmnopqrstuvwxyz'') of Some x \<Rightarrow> snd x | None \<Rightarrow> c)"

definition ToLower :: "string \<Rightarrow> string" where "ToLower s = map lower_char s"

definition Protocol_UnmarshalText :: "string \<Rightarrow> text_error + IPProtocol" where
  "Protocol_UnmarshalText b =
     (let s = ToLower (TrimSpace b) in
      case map_of protocolNames s of
        Some v \<Rightarrow> Inr v
      | None \<Rightarrow> (case ParseUint 8 s of None \<Rightarrow> Inl BadProtocol | Some n \<Rightarrow> Inr (of_nat n)))"

definition Protocol_UnmarshalJSON :: "string \<Rightarrow> text_error + IPProtocol" where
  "Protocol_UnmarshalJSON b = Protocol_UnmarshalText (jsonScalar b)"

section \<open>Matches\<close>

record FlowSpecMatch =
  fm_Source :: prefix
  fm_Protocols :: "IPProtocol list"
  fm_DestinationPorts :: "PortRange list"
  fm_SourcePorts :: "PortRange list"

definition zeroMatch :: FlowSpecMatch where
  "zeroMatch = \<lparr>fm_Source = zeroPrefix, fm_Protocols = [], fm_DestinationPorts = [], fm_SourcePorts = []\<rparr>"

definition port_less :: "PortRange \<Rightarrow> PortRange \<Rightarrow> bool" where
  "port_less a b \<longleftrightarrow> (if pr_From a \<noteq> pr_From b then pr_From a < pr_From b else pr_To a < pr_To b)"

text \<open>\<open>slices.Compact\<close> keeps the first of equal neighbours.\<close>

definition norm_ports :: "PortRange list \<Rightarrow> PortRange list" where
  "norm_ports ps = remdups_adj (sort_by port_less ps)"

definition match_Normalize :: "FlowSpecMatch \<Rightarrow> FlowSpecMatch" where
  "match_Normalize m =
     \<lparr>fm_Source = fm_Source m, fm_Protocols = remdups_adj (sort (fm_Protocols m)),
      fm_DestinationPorts = norm_ports (fm_DestinationPorts m), fm_SourcePorts = norm_ports (fm_SourcePorts m)\<rparr>"

datatype match_error = SourceHostBits | SourceFamily | TooManyProtocols | TooManyPorts | BackwardsRange

definition match_Validate :: "FlowSpecMatch \<Rightarrow> prefix \<Rightarrow> match_error option" where
  "match_Validate m dst =
     (if IsValid (fm_Source m) \<and> fm_Source m \<noteq> Masked (fm_Source m) then Some SourceHostBits
      else if IsValid (fm_Source m) \<and> Is4 (Addr (fm_Source m)) \<noteq> Is4 (Addr dst) then Some SourceFamily
      else if length (fm_Protocols m) > MaxFlowSpecProtocols then Some TooManyProtocols
      else if length (fm_DestinationPorts m) > MaxFlowSpecPorts \<or> length (fm_SourcePorts m) > MaxFlowSpecPorts then Some TooManyPorts
      else if list_ex (\<lambda>r. pr_To r < pr_From r) (fm_DestinationPorts m @ fm_SourcePorts m) then Some BackwardsRange
      else None)"

text \<open>One labelled part of the key, with the space after it.\<close>

definition key_part :: "string \<Rightarrow> string list \<Rightarrow> string" where
  "key_part label parts = (if parts = [] then [] else label @ ''='' @ Join parts '','' @ '' '')"

definition match_Key :: "FlowSpecMatch \<Rightarrow> string" where
  "match_Key m0 =
     (let m = match_Normalize m0 in
      TrimSpace ((if IsValid (fm_Source m) then ''src='' @ Prefix_String (fm_Source m) @ '' '' else []) @
        key_part ''proto'' (map Itoa (fm_Protocols m)) @ key_part ''dport'' (map Port_String (fm_DestinationPorts m)) @
        key_part ''sport'' (map Port_String (fm_SourcePorts m))))"

record FlowSpecRoute =
  fr_Destination :: prefix
  fr_Match :: FlowSpecMatch
  fr_Action :: string
  fr_Target :: string
  fr_RateMbps :: float64
  fr_LocalPref :: "32 word"
  fr_Community :: string

definition route_Key :: "FlowSpecRoute \<Rightarrow> string" where
  "route_Key r =
     (let k = ''dst='' @ Prefix_String (fr_Destination r); m = match_Key (fr_Match r)
      in if m \<noteq> [] then k @ '' '' @ m else k)"

section \<open>Lemmas\<close>

lemma Itoa_inj: "Itoa v = Itoa w \<Longrightarrow> v = (w :: 'a :: len word)"
  by (auto simp: Itoa_def word_unat_eq_iff dest: decimal_inj)

lemma Itoa_no [simp]: "CHR ''-'' \<notin> set (Itoa w)" "CHR '','' \<notin> set (Itoa w)" "CHR '' '' \<notin> set (Itoa w)" "Itoa w \<noteq> []" "[] \<noteq> Itoa w"
  using decimal_not_Nil [of "unat w"] by (simp_all add: Itoa_def, metis)

lemma Port_String_no [simp]: "CHR '','' \<notin> set (Port_String r)" "CHR '' '' \<notin> set (Port_String r)" "Port_String r \<noteq> []" "[] \<noteq> Port_String r"
  by (simp_all add: Port_String_def)

lemma Port_String_inj: "Port_String r = Port_String q \<Longrightarrow> r = q"
proof -
  assume eq: "Port_String r = Port_String q"
  have dash: "CHR ''-'' \<in> set (Port_String x) \<longleftrightarrow> pr_From x \<noteq> pr_To x" for x by (simp add: Port_String_def)
  show "r = q"
  proof (cases "pr_From r = pr_To r")
    case True
    with dash eq have "pr_From q = pr_To q" by metis
    with True eq have "Itoa (pr_From r) = Itoa (pr_From q)" by (simp add: Port_String_def)
    then have "pr_From r = pr_From q" by (rule Itoa_inj)
    with True \<open>pr_From q = pr_To q\<close> show ?thesis by (cases r; cases q) simp
  next
    case False
    with dash eq have "pr_From q \<noteq> pr_To q" by metis
    with False eq have "Itoa (pr_From r) @ CHR ''-'' # Itoa (pr_To r) = Itoa (pr_From q) @ CHR ''-'' # Itoa (pr_To q)"
      by (simp add: Port_String_def)
    then have "Itoa (pr_From r) = Itoa (pr_From q) \<and> Itoa (pr_To r) = Itoa (pr_To q)" by (rule append_sep_inj) simp_all
    then show ?thesis using Itoa_inj by (cases r; cases q) auto
  qed
qed

lemma TrimSpace_plain: "\<forall>c \<in> set s. \<not> is_space c \<Longrightarrow> TrimSpace s = s"
  unfolding TrimSpace_def by (simp add: dropWhile_eq_self_iff) (metis hd_in_set rev_is_Nil_conv set_rev dropWhile_eq_self_iff rev_rev_ident)

lemma decimal_no_space: "c \<in> set (decimal n) \<Longrightarrow> \<not> is_space c"
  using decimal_chars [of n] by (auto simp: is_space_def)

lemma TrimSpace_Itoa [simp]: "TrimSpace (Itoa w) = Itoa w"
  by (rule TrimSpace_plain) (auto simp: Itoa_def dest: decimal_no_space)

lemma TrimSpace_Port [simp]: "TrimSpace (Port_String r) = Port_String r"
  by (rule TrimSpace_plain) (auto simp: Port_String_def Itoa_def is_space_def dest: decimal_no_space)

lemma Cut_none: "c \<notin> set xs \<Longrightarrow> Cut c xs = None"
  by (induction xs) auto

lemma Cut_append: "c \<notin> set xs \<Longrightarrow> Cut c (xs @ c # ys) = Some (xs, ys)"
  by (induction xs) auto

lemma ParseUint_Itoa: "LENGTH('a) \<le> bits \<Longrightarrow> ParseUint bits (Itoa (w :: 'a :: len word)) = Some (unat w)"
  unfolding Itoa_def by (rule ParseUint_decimal) (rule less_le_trans [OF unsigned_less], simp)

lemma unat_of_nat_small: "n < 2 ^ LENGTH('a) \<Longrightarrow> unat (of_nat n :: 'a :: len word) = n"
  by (simp add: unsigned_of_nat take_bit_nat_eq_self)

lemma Port_accepts: "Port_UnmarshalText s = Inr q \<Longrightarrow> pr_From q \<le> pr_To q"
  by (auto simp: Port_UnmarshalText_def Let_def word_le_nat_alt unat_of_nat_small dest: ParseUint_bound
      split: option.splits if_splits prod.splits)

text \<open>
  Port texts round trip. The text of a range of ports that is not backwards is read back as that range, and a text
  that is accepted never gives a backwards range.
\<close>

theorem Port_text_roundtrip:
  assumes "pr_From r \<le> pr_To r"
  shows "Port_UnmarshalText (Port_String r) = Inr r \<and> (Port_UnmarshalText s = Inr q \<longrightarrow> pr_From q \<le> pr_To q)"
proof
  show "Port_UnmarshalText (Port_String r) = Inr r"
  proof (cases "pr_From r = pr_To r")
    case True
    then show ?thesis unfolding Port_UnmarshalText_def TrimSpace_Port
      by (simp add: Port_String_def Cut_none ParseUint_Itoa)
  next
    case False
    then have cut: "Cut (CHR ''-'') (Port_String r) = Some (Itoa (pr_From r), Itoa (pr_To r))"
      by (simp add: Port_String_def Cut_append)
    show ?thesis using assms unfolding Port_UnmarshalText_def TrimSpace_Port cut
      by (simp add: ParseUint_Itoa word_le_nat_alt)
  qed
  show "Port_UnmarshalText s = Inr q \<longrightarrow> pr_From q \<le> pr_To q"
    using Port_accepts by blast
qed

text \<open>The protocol names are lower case and no numbers, and a number is read back.\<close>

lemma Protocol_roundtrip: "Protocol_UnmarshalText (Protocol_String p) = Inr p"
proof (cases "find (\<lambda>x. snd x = p) protocolNames")
  case None
  have "list_all (\<lambda>c. lower_char c = c) ''0123456789''" by (simp add: lower_char_def)
  then have low: "lower_char c = c" if "c \<in> set ''0123456789''" for c using that unfolding list_all_iff by blast
  have digits: "set (Itoa p) \<subseteq> set ''0123456789''" using decimal_chars by (simp add: Itoa_def)
  have "ToLower (Itoa p) = Itoa p"
    unfolding ToLower_def using digits low by (intro map_idI) blast
  moreover have "map_of protocolNames (Itoa p) = None"
  proof -
    have "list_all (\<lambda>x. hd (fst x) \<notin> set ''0123456789'') protocolNames" by (simp add: protocolNames_def)
    moreover have "hd (Itoa p) \<in> set ''0123456789''" using digits hd_in_set [of "Itoa p"] Itoa_no(4) by blast
    ultimately show ?thesis unfolding map_of_eq_None_iff list_all_iff by force
  qed
  ultimately show ?thesis using None
    by (simp add: Protocol_String_def Protocol_UnmarshalText_def Let_def ParseUint_Itoa)
next
  case (Some x)
  then have "x \<in> set protocolNames" "snd x = p" by (auto simp: find_Some_iff)
  moreover have "list_all (\<lambda>x. Protocol_UnmarshalText (fst x) = Inr (snd x)) protocolNames" by code_simp
  ultimately have "Protocol_UnmarshalText (fst x) = Inr p" unfolding list_all_iff by blast
  then show ?thesis using Some by (simp add: Protocol_String_def)
qed

section \<open>Canonical matches\<close>

interpretation ports: strict_weak_order port_less
  by unfold_locales (auto simp: port_less_def split: if_splits)

lemma port_total: "\<not> port_less a b \<Longrightarrow> \<not> port_less b a \<Longrightarrow> a = b"
  by (cases a; cases b) (auto simp: port_less_def split: if_splits)

lemma set_norm_ports [simp]: "set (norm_ports ps) = set ps"
  by (simp add: norm_ports_def)

text \<open>Sorting and dropping equal neighbours leaves one list for each set.\<close>

lemma remdups_adj_sorted_wrt:
  assumes "\<And>a b. \<not> lt b a \<Longrightarrow> a \<noteq> b \<Longrightarrow> lt a b" "sorted_wrt (\<lambda>a b. \<not> lt b a) xs" and asym: "\<And>a b. lt a b \<Longrightarrow> \<not> lt b a"
  shows "sorted_wrt lt (remdups_adj xs)"
  using assms(2)
proof (induction xs rule: remdups_adj.induct)
  case (3 x y xs)
  show ?case
  proof (cases "x = y")
    case True
    then show ?thesis using 3 by simp
  next
    case False
    then have "lt x y" using assms(1) "3.prems" by simp
    moreover have "sorted_wrt lt (remdups_adj (y # xs))" using 3 False by simp
    moreover have "lt x z" if z: "z \<in> set (y # xs)" for z
    proof -
      have "z \<noteq> x" using z "3.prems" assms(1) [of x y] False \<open>lt x y\<close> asym by auto
      with z "3.prems" show ?thesis using assms(1) by auto
    qed
    ultimately show ?thesis using False by simp
  qed
qed simp_all

lemma norm_ports_sorted: "sorted_wrt port_less (norm_ports ps)"
  unfolding norm_ports_def
  by (rule remdups_adj_sorted_wrt) (auto intro: ports.sort_by_sorted dest: port_total ports.lt_asym)

lemma strict_sorted_distinct: "sorted_wrt port_less xs \<Longrightarrow> distinct xs"
  by (induction xs) (auto simp: ports.lt_irrefl)

lemma norm_ports_set: "norm_ports ps = norm_ports qs \<longleftrightarrow> set ps = set qs"
proof
  assume "norm_ports ps = norm_ports qs"
  then show "set ps = set qs" by (metis set_norm_ports)
next
  assume eq: "set ps = set qs"
  have sorted: "sorted_wrt (\<lambda>a b. \<not> port_less b a) (norm_ports xs)" for xs
    by (rule sorted_wrt_mono_rel [OF _ norm_ports_sorted]) (simp add: ports.lt_asym)
  have "mset (norm_ports ps) = mset (norm_ports qs)"
    using eq strict_sorted_distinct [OF norm_ports_sorted] by (intro set_eq_iff_mset_eq_distinct [THEN iffD1]) simp_all
  with sorted show "norm_ports ps = norm_ports qs" by (intro ports.sorted_unique) (auto intro: port_total)
qed

lemma sort_compact_set: "remdups_adj (sort xs) = remdups_adj (sort ys) \<longleftrightarrow> set xs = set (ys :: 'a :: linorder list)"
proof
  assume "remdups_adj (sort xs) = remdups_adj (sort ys)"
  then show "set xs = set ys" by (metis remdups_adj_set set_sort)
next
  assume eq: "set xs = set ys"
  have strict: "sorted_wrt (<) (remdups_adj (sort zs))" for zs :: "'a list"
    by (rule remdups_adj_sorted_wrt) (simp_all add: not_less)
  then show "remdups_adj (sort xs) = remdups_adj (sort ys)"
    using strict_sorted_equal eq by (metis remdups_adj_set set_sort)
qed

text \<open>The key as its tokens.\<close>

definition tokens :: "FlowSpecMatch \<Rightarrow> string list" where
  "tokens m =
     (if IsValid (fm_Source m) then [''src='' @ Prefix_String (fm_Source m)] else []) @
     (if fm_Protocols m = [] then [] else [''proto='' @ Join (map Itoa (fm_Protocols m)) '','']) @
     (if fm_DestinationPorts m = [] then [] else [''dport='' @ Join (map Port_String (fm_DestinationPorts m)) '','']) @
     (if fm_SourcePorts m = [] then [] else [''sport='' @ Join (map Port_String (fm_SourcePorts m)) '',''])"

definition spaced :: "string list \<Rightarrow> string" where
  "spaced ts = concat (map (\<lambda>t. t @ '' '') ts)"

lemma TrimSpace_spaced:
  assumes "\<forall>t \<in> set ts. t \<noteq> [] \<and> \<not> is_space (hd t) \<and> \<not> is_space (last t)"
  shows "TrimSpace (spaced ts) = Join ts '' ''"
proof (cases "ts = []")
  case True
  then show ?thesis by (simp add: spaced_def TrimSpace_def)
next
  case False
  have sp: "spaced ts = Join ts '' '' @ '' ''" using False unfolding spaced_def by (induction ts "'' ''" rule: Join.induct) auto
  have ends: "Join ts '' '' \<noteq> [] \<and> hd (Join ts '' '') = hd (hd ts) \<and> last (Join ts '' '') = last (last ts)"
    using False assms by (induction ts "'' ''" rule: Join.induct) auto
  have d: "dropWhile is_space (xs @ '' '') = xs @ '' ''" if "xs \<noteq> []" "\<not> is_space (hd xs)" for xs using that by (cases xs) auto
  have "\<not> is_space (hd (Join ts '' ''))" "\<not> is_space (last (Join ts '' ''))" using ends False assms by (metis hd_in_set last_in_set)+
  then have "dropWhile is_space (spaced ts) = Join ts '' '' @ '' ''" "dropWhile is_space (rev (Join ts '' '')) = rev (Join ts '' '')"
    using sp d ends by (auto simp: dropWhile_eq_self_iff hd_rev)
  then show ?thesis by (simp add: TrimSpace_def is_space_def)
qed

definition plain :: "string \<Rightarrow> bool" where
  "plain s \<longleftrightarrow> (\<forall>c \<in> set s. \<not> is_space c)"

lemma plain_append [simp]: "plain (xs @ ys) \<longleftrightarrow> plain xs \<and> plain ys" "plain []" "plain (c # xs) \<longleftrightarrow> \<not> is_space c \<and> plain xs"
  by (auto simp: plain_def)

lemma plain_Join: "\<forall>x \<in> set xs. plain x \<Longrightarrow> plain sep \<Longrightarrow> plain (Join xs sep)"
  by (induction xs sep rule: Join.induct) auto

lemma plain_Itoa [simp]: "plain (Itoa w)"
  by (auto simp: plain_def Itoa_def dest: decimal_no_space)

lemma plain_Port [simp]: "plain (Port_String r)"
  by (simp add: Port_String_def is_space_def)

lemma plain_chars: "set s \<subseteq> set t \<Longrightarrow> plain t \<Longrightarrow> plain s"
  by (auto simp: plain_def)

lemma plain_Prefix: "wf_prefix p \<Longrightarrow> IsValid p \<Longrightarrow> plain (Prefix_String p)"
proof -
  assume p: "wf_prefix p" "IsValid p"
  have d: "plain (decimal n)" for n by (auto simp: plain_def dest: decimal_no_space)
  have "plain (string4 n)" for n by (rule plain_chars [OF string4_chars]) (simp add: is_space_def)
  moreover have "plain (string6 gs)" for gs by (rule plain_chars [OF string6_chars]) (simp add: is_space_def)
  ultimately have "plain (Addr_String a)" if "a \<noteq> NoAddr" for a using that by (cases a) (auto simp: is_space_def)
  then show "plain (Prefix_String p)" using p d by (auto simp: Prefix_String_def wf_prefix_def IsValid_def is_space_def)
qed

lemma tokens_plain:
  assumes "wf_prefix (fm_Source m)" "t \<in> set (tokens m)"
  shows "plain t \<and> t \<noteq> []"
  using assms plain_Prefix [of "fm_Source m"]
  by (auto simp: tokens_def is_space_def intro!: plain_Join split: if_splits)

lemma match_Normalize_Source [simp]: "fm_Source (match_Normalize m) = fm_Source m"
  by (simp add: match_Normalize_def)

lemma match_Key_tokens:
  assumes "wf_prefix (fm_Source m)"
  shows "match_Key m = Join (tokens (match_Normalize m)) '' ''"
proof -
  let ?n = "match_Normalize m"
  have "match_Key m = TrimSpace (spaced (tokens ?n))"
    by (simp add: match_Key_def Let_def tokens_def spaced_def key_part_def)
  also have "\<dots> = Join (tokens ?n) '' ''"
  proof (rule TrimSpace_spaced)
    show "\<forall>t \<in> set (tokens ?n). t \<noteq> [] \<and> \<not> is_space (hd t) \<and> \<not> is_space (last t)"
      using tokens_plain [of ?n] assms by (auto simp: plain_def)
  qed
  finally show ?thesis .
qed

text \<open>The value of a labelled token.\<close>

definition field :: "string \<Rightarrow> string list \<Rightarrow> string option" where
  "field l ts = map_option (\<lambda>t. drop (Suc (length l)) t) (find (\<lambda>t. take (Suc (length l)) t = l @ ''='') ts)"

lemma field_tokens:
  "field ''src'' (tokens m) = (if IsValid (fm_Source m) then Some (Prefix_String (fm_Source m)) else None)"
  "field ''proto'' (tokens m) = (if fm_Protocols m = [] then None else Some (Join (map Itoa (fm_Protocols m)) '',''))"
  "field ''dport'' (tokens m) = (if fm_DestinationPorts m = [] then None else Some (Join (map Port_String (fm_DestinationPorts m)) '',''))"
  "field ''sport'' (tokens m) = (if fm_SourcePorts m = [] then None else Some (Join (map Port_String (fm_SourcePorts m)) '',''))"
  by (simp_all add: field_def tokens_def)

lemma Join_map_inj:
  assumes "Join (map f xs) '','' = Join (map f ys) '',''" "xs \<noteq> []" "ys \<noteq> []" "\<And>x. CHR '','' \<notin> set (f x)" "\<And>x y. f x = f y \<Longrightarrow> x = y"
  shows "xs = ys"
proof -
  have "map f xs = map f ys" using assms by (intro Join_inj [of "map f xs" "CHR '',''" "map f ys"]) auto
  then show ?thesis by (rule map_inj [where S = UNIV]) (use assms(5) in auto)
qed

lemma tokens_inj:
  assumes "tokens m = tokens n" "wf_prefix (fm_Source m)" "wf_prefix (fm_Source n)"
  shows "(IsValid (fm_Source m) \<or> IsValid (fm_Source n) \<longrightarrow> fm_Source m = fm_Source n) \<and> fm_Protocols m = fm_Protocols n \<and>
    fm_DestinationPorts m = fm_DestinationPorts n \<and> fm_SourcePorts m = fm_SourcePorts n"
proof -
  note f = field_tokens [of m, unfolded assms(1) field_tokens [of n]]
  have "IsValid (fm_Source m) \<or> IsValid (fm_Source n) \<longrightarrow> fm_Source m = fm_Source n"
    using f(1) Prefix_String_inj [of "fm_Source m" "fm_Source n"] assms(2,3) by (metis option.distinct(1) option.inject)
  moreover have "fm_Protocols m = fm_Protocols n"
  proof (cases "fm_Protocols m = [] \<or> fm_Protocols n = []")
    case True
    then show ?thesis using f(2) by (metis option.distinct(1))
  next
    case False
    then show ?thesis using f(2) by (intro Join_map_inj [of Itoa]) (simp_all add: Itoa_inj)
  qed
  moreover have "fm_DestinationPorts m = fm_DestinationPorts n"
  proof (cases "fm_DestinationPorts m = [] \<or> fm_DestinationPorts n = []")
    case True
    then show ?thesis using f(3) by (metis option.distinct(1))
  next
    case False
    then show ?thesis using f(3) by (intro Join_map_inj [of Port_String]) (simp_all add: Port_String_inj)
  qed
  moreover have "fm_SourcePorts m = fm_SourcePorts n"
  proof (cases "fm_SourcePorts m = [] \<or> fm_SourcePorts n = []")
    case True
    then show ?thesis using f(4) by (metis option.distinct(1))
  next
    case False
    then show ?thesis using f(4) by (intro Join_map_inj [of Port_String]) (simp_all add: Port_String_inj)
  qed
  ultimately show ?thesis by (intro conjI)
qed

text \<open>The same traffic: the same source and the same sets of protocols and ports.\<close>

definition same_match :: "FlowSpecMatch \<Rightarrow> FlowSpecMatch \<Rightarrow> bool" where
  "same_match m n \<longleftrightarrow> (fm_Source m = fm_Source n \<or> \<not> IsValid (fm_Source m) \<and> \<not> IsValid (fm_Source n)) \<and>
     set (fm_Protocols m) = set (fm_Protocols n) \<and> set (fm_DestinationPorts m) = set (fm_DestinationPorts n) \<and>
     set (fm_SourcePorts m) = set (fm_SourcePorts n)"

lemma tokens_same_match: "same_match m n \<Longrightarrow> tokens (match_Normalize m) = tokens (match_Normalize n)"
proof -
  assume "same_match m n"
  then have "fm_Protocols (match_Normalize m) = fm_Protocols (match_Normalize n)" "norm_ports (fm_DestinationPorts m) = norm_ports (fm_DestinationPorts n)"
    "norm_ports (fm_SourcePorts m) = norm_ports (fm_SourcePorts n)" "fm_Source m = fm_Source n \<or> \<not> IsValid (fm_Source m) \<and> \<not> IsValid (fm_Source n)"
    by (simp_all add: same_match_def match_Normalize_def sort_compact_set norm_ports_set)
  then show ?thesis by (auto simp: tokens_def match_Normalize_def)
qed

lemma Join_space_inj:
  assumes "Join xs '' '' = Join ys '' ''" "\<forall>x \<in> set xs. x \<noteq> [] \<and> CHR '' '' \<notin> set x" "\<forall>y \<in> set ys. y \<noteq> [] \<and> CHR '' '' \<notin> set y"
  shows "xs = ys"
proof -
  have ne: "Join zs '' '' \<noteq> []" if "zs \<noteq> []" "\<forall>z \<in> set zs. z \<noteq> []" for zs
    using that by (cases "(zs, '' '')" rule: Join.cases) auto
  show ?thesis
  proof (cases "xs = [] \<or> ys = []")
    case True
    then show ?thesis using assms ne [of xs] ne [of ys] by (metis Join.simps(1))
  next
    case False
    then show ?thesis using assms by (intro Join_inj [of xs "CHR '' ''" ys]) auto
  qed
qed

lemma plain_no_space: "plain t \<Longrightarrow> CHR '' '' \<notin> set t"
  by (auto simp: plain_def is_space_def)

lemma match_Key_iff:
  assumes "wf_prefix (fm_Source m)" "wf_prefix (fm_Source n)"
  shows "match_Key m = match_Key n \<longleftrightarrow> same_match m n"
proof
  assume "match_Key m = match_Key n"
  then have "Join (tokens (match_Normalize m)) '' '' = Join (tokens (match_Normalize n)) '' ''" by (simp add: match_Key_tokens assms)
  then have "tokens (match_Normalize m) = tokens (match_Normalize n)"
    by (rule Join_space_inj) (use tokens_plain [of "match_Normalize m"] tokens_plain [of "match_Normalize n"] assms plain_no_space in auto)
  from tokens_inj [OF this] assms show "same_match m n"
    by (auto simp: same_match_def match_Normalize_def sort_compact_set norm_ports_set)
next
  assume "same_match m n"
  then show "match_Key m = match_Key n" by (simp add: match_Key_tokens assms tokens_same_match)
qed

text \<open>
  C29: a FlowSpec key names a route. Two routes have the same key exactly when they have the same destination and match
  the same traffic, in whatever order and however often protocols and ports are listed.
\<close>

theorem route_Key_canonical:
  assumes "wf_prefix (fr_Destination r)" "IsValid (fr_Destination r)" "wf_prefix (fr_Destination q)" "IsValid (fr_Destination q)"
    and "wf_prefix (fm_Source (fr_Match r))" "wf_prefix (fm_Source (fr_Match q))"
  shows "route_Key r = route_Key q \<longleftrightarrow> fr_Destination r = fr_Destination q \<and> same_match (fr_Match r) (fr_Match q)"
proof -
  let ?key = "\<lambda>r. Join ((''dst='' @ Prefix_String (fr_Destination r)) # (if match_Key (fr_Match r) = [] then [] else [match_Key (fr_Match r)])) '' ''"
  have key: "route_Key x = ?key x" for x by (simp add: route_Key_def Let_def)
  have cut: "takeWhile (\<lambda>c. c \<noteq> CHR '' '') (route_Key x) = ''dst='' @ Prefix_String (fr_Destination x)"
    if "wf_prefix (fr_Destination x)" "IsValid (fr_Destination x)" for x
    using plain_no_space [OF plain_Prefix [OF that]] by (auto simp: route_Key_def Let_def takeWhile_append)
  have rest: "match_Key (fr_Match x) = drop (Suc (length (''dst='' @ Prefix_String (fr_Destination x)))) (route_Key x)" for x
    by (simp add: route_Key_def Let_def)
  show ?thesis
  proof
    assume eq: "route_Key r = route_Key q"
    with cut [OF assms(1,2)] cut [OF assms(3,4)] have p: "Prefix_String (fr_Destination r) = Prefix_String (fr_Destination q)" by simp
    then have "fr_Destination r = fr_Destination q" by (rule Prefix_String_inj [OF _ assms(1,3,2)])
    moreover have "match_Key (fr_Match r) = match_Key (fr_Match q)" using eq p rest by simp
    ultimately show "fr_Destination r = fr_Destination q \<and> same_match (fr_Match r) (fr_Match q)"
      using match_Key_iff [OF assms(5,6)] by simp
  next
    assume "fr_Destination r = fr_Destination q \<and> same_match (fr_Match r) (fr_Match q)"
    then show "route_Key r = route_Key q" using match_Key_iff [OF assms(5,6)] by (simp add: route_Key_def)
  qed
qed

definition exFlow :: "IPProtocol list \<Rightarrow> FlowSpecRoute" where
  "exFlow protos = \<lparr>fr_Destination = Pfx (V4 0xC0000200) 24, fr_Match = zeroMatch\<lparr>fm_Protocols := protos\<rparr>,
     fr_Action = MitigationFlowSpecDrop, fr_Target = [], fr_RateMbps = 0, fr_LocalPref = 200, fr_Community = ''64500:777''\<rparr>"

theorem route_Key_canonical_witness: "route_Key (exFlow [17, 6, 17]) = route_Key (exFlow [6, 17])"
proof -
  have "wf_prefix (Pfx (V4 0xC0000200) 24)" "IsValid (Pfx (V4 0xC0000200) 24)" "wf_prefix zeroPrefix"
    by (simp_all add: wf_prefix_def IsValid_def zeroPrefix_def)
  then show ?thesis by (subst route_Key_canonical) (auto simp: exFlow_def zeroMatch_def same_match_def)
qed

end
