(* ===== verification/Geoip.thy ===== *)
theory Geoip
  imports FlowSpec
begin

text \<open>
  The two pure functions of src/internal/geoip that threat mitigation uses: the country code check, and \<open>Aggregate\<close>, which
  turns the networks of a country into few prefixes. Aggregation covers the same addresses.
\<close>

definition ValidCountry :: "string \<Rightarrow> bool" where
  "ValidCountry c \<longleftrightarrow> length c = 2 \<and> list_all (\<lambda>x. x \<in> set ''ABCDEFGHIJKLMNOPQRSTUVWXYZ'') c"

text \<open>\<open>Addr.Prefix\<close>: the masked prefix of a length.\<close>

definition Addr_Prefix :: "addr \<Rightarrow> int \<Rightarrow> prefix" where
  "Addr_Prefix a b = Masked (Pfx a b)"

text \<open>One prefix of the sorted list against the last one kept; the flag tells that something changed.\<close>

definition agg_step :: "prefix list \<times> bool \<Rightarrow> prefix \<Rightarrow> prefix list \<times> bool" where
  "agg_step acc p =
     (let (next, changed) = acc in
      if next = [] then ([p], changed)
      else let l = last next; parent = Addr_Prefix (Addr l) (Bits l - 1) in
        if Bits l \<le> Bits p \<and> Contains l (Addr p) then (next, True)
        else if Bits l = Bits p \<and> Bits l > 0 \<and> Contains parent (Addr p) \<and> Addr parent = Addr l
        then (butlast next @ [parent], True)
        else (next @ [p], changed))"

definition agg_round :: "prefix list \<Rightarrow> prefix list \<times> bool" where
  "agg_round ps = foldl agg_step ([], False) (remdups_adj (Sort ps))"

lemma agg_fold_len:
  "length (fst (foldl agg_step acc ps)) \<le> length (fst acc) + length ps \<and>
   (snd (foldl agg_step acc ps) \<and> \<not> snd acc \<longrightarrow> length (fst (foldl agg_step acc ps)) < length (fst acc) + length ps)"
proof (induction ps arbitrary: acc)
  case (Cons p ps)
  have step: "length (fst (agg_step acc p)) \<le> length (fst acc) + 1 \<and>
      (snd (agg_step acc p) \<and> \<not> snd acc \<longrightarrow> length (fst (agg_step acc p)) < length (fst acc) + 1)"
    by (auto simp: agg_step_def Let_def case_prod_beta)
  show ?case using Cons.IH [of "agg_step acc p"] step by (cases "snd (agg_step acc p)") auto
qed simp

lemma agg_round_shorter: "snd (agg_round ps) \<Longrightarrow> length (fst (agg_round ps)) < length ps"
proof -
  assume "snd (agg_round ps)"
  then have "length (fst (agg_round ps)) < length (remdups_adj (Sort ps))"
    using agg_fold_len [of "([], False)" "remdups_adj (Sort ps)"] by (simp add: agg_round_def)
  also have "\<dots> \<le> length ps" using remdups_adj_length [of "Sort ps"] by (simp add: Sort_def)
  finally show ?thesis .
qed

function Aggregate :: "prefix list \<Rightarrow> prefix list" where
  "Aggregate ps = (let (next, changed) = agg_round ps in if changed then Aggregate next else next)"
  by auto
termination
proof (relation "measure length")
  fix ps x xa y
  assume "x = agg_round ps" "(xa, y) = x" "y"
  then show "(xa, ps) \<in> measure length" using agg_round_shorter [of ps] by (metis fst_conv in_measure snd_conv)
qed simp

declare Aggregate.simps [simp del]

text \<open>
  The database. A record carries the ISO codes of the country and of the registered country (empty when the record has none). The
  reader of the file is a package: reading gives an error, or the networks with, for each, an iteration error or the prefix and the
  decoded record (None where \<open>Decode\<close> fails).
\<close>

record geo_record =
  Country :: string
  Registered :: string

datatype geo_result = GeoErr string | GeoNet prefix "geo_record option"

record DB =
  db_v4 :: "string \<rightharpoonup> prefix list"
  db_v6 :: "string \<rightharpoonup> prefix list"

datatype geo_error = NoPath | NoFile string | BadDB string | BadNetwork string | NoDatabase

fun Unmap :: "addr \<Rightarrow> addr" where
  "Unmap (V6 w) = (if Is4In6 (uint w) then V4 (ucast w) else V6 w)"
| "Unmap a = a"

fun mapped4 :: "addr \<Rightarrow> bool" where
  "mapped4 (V6 w) = Is4In6 (uint w)"
| "mapped4 _ = False"

definition append_net :: "(string \<rightharpoonup> prefix list) \<Rightarrow> string \<Rightarrow> prefix \<Rightarrow> string \<rightharpoonup> prefix list" where
  "append_net m c p = m(c \<mapsto> (case m c of Some ps \<Rightarrow> ps | None \<Rightarrow> []) @ [p])"

definition geo_plain :: "prefix \<Rightarrow> prefix" where
  "geo_plain p = (if mapped4 (Addr p) then PrefixFrom (Unmap (Addr p)) (Bits p - 96) else p)"

definition geo_country :: "geo_record \<Rightarrow> string" where
  "geo_country r = (if Country r = [] then Registered r else Country r)"

fun geo_index :: "geo_result list \<Rightarrow> DB \<Rightarrow> geo_error + DB" where
  "geo_index [] d = Inr d"
| "geo_index (GeoErr e # rs) d = Inl (BadNetwork e)"
| "geo_index (GeoNet p0 decoded # rs) d =
     (let p = geo_plain p0 in
      if \<not> IsValid p then geo_index rs d
      else case decoded of None \<Rightarrow> geo_index rs d
      | Some r \<Rightarrow> let c = geo_country r in
          if c = [] then geo_index rs d
          else if Is4 (Addr p) then geo_index rs (d\<lparr>db_v4 := append_net (db_v4 d) c (Masked p)\<rparr>)
          else geo_index rs (d\<lparr>db_v6 := append_net (db_v6 d) c (Masked p)\<rparr>))"

definition geo_Open :: "string \<Rightarrow> string + 'd \<Rightarrow> ('d \<Rightarrow> string + geo_result list) \<Rightarrow> geo_error + DB" where
  "geo_Open path file OpenBytes =
     (if path = [] then Inl NoPath
      else case file of Inl e \<Rightarrow> Inl (NoFile e)
      | Inr data \<Rightarrow> (case OpenBytes data of Inl e \<Rightarrow> Inl (BadDB e)
        | Inr rs \<Rightarrow> (case geo_index rs \<lparr>db_v4 = Map.empty, db_v6 = Map.empty\<rparr> of Inl e \<Rightarrow> Inl e
          | Inr d \<Rightarrow> Inr (d\<lparr>db_v4 := map_option Aggregate \<circ> db_v4 d, db_v6 := map_option Aggregate \<circ> db_v6 d\<rparr>))))"

definition geo_Networks :: "DB option \<Rightarrow> string \<Rightarrow> bool \<Rightarrow> geo_error + prefix list" where
  "geo_Networks d country v4 =
     (case d of None \<Rightarrow> Inl NoDatabase
      | Some d \<Rightarrow> Inr (case (if v4 then db_v4 d else db_v6 d) country of Some ps \<Rightarrow> ps | None \<Rightarrow> []))"

section \<open>The covered addresses\<close>

lemma drop_bit_eq_iff: "drop_bit n v = drop_bit n w \<longleftrightarrow> (\<forall>i \<ge> n. bit v i = bit (w :: 'a :: len word) i)"
proof
  assume e: "drop_bit n v = drop_bit n w"
  have "bit (drop_bit n v) (i - n) = bit (drop_bit n w) (i - n)" for i by (simp only: e)
  then show "\<forall>i \<ge> n. bit v i = bit w i" by (metis bit_drop_bit_eq comp_apply le_add_diff_inverse)
next
  assume "\<forall>i \<ge> n. bit v i = bit w i"
  then show "drop_bit n v = drop_bit n w" by (intro bit_eqI) (simp add: bit_drop_bit_eq)
qed

text \<open>Of three words that agree above bit \<open>n\<close>, two agree from bit \<open>n\<close> on.\<close>

lemma drop_bit_pigeon:
  fixes u v w :: "'a :: len word"
  assumes "drop_bit (Suc n) u = drop_bit (Suc n) v" "drop_bit (Suc n) u = drop_bit (Suc n) w" "drop_bit n u \<noteq> drop_bit n v"
  shows "drop_bit n u = drop_bit n w \<or> drop_bit n v = drop_bit n w"
proof -
  have above: "drop_bit n x = drop_bit n y \<longleftrightarrow> bit x n = bit y n" if "drop_bit (Suc n) x = drop_bit (Suc n) y" for x y :: "'a word"
    using that unfolding drop_bit_eq_iff by (metis Suc_leI le_eq_less_or_eq order_refl)
  have "drop_bit (Suc n) v = drop_bit (Suc n) w" using assms by simp
  with above [OF assms(1)] above [OF assms(2)] above [of v w] assms(3) show ?thesis by blast
qed

lemma same_lead_pigeon:
  assumes "same_lead (b - 1) l p" "same_lead (b - 1) l x" "\<not> same_lead b l p"
  shows "same_lead b l x \<or> same_lead b p x"
proof -
  have step: "32 - (b - 1) = 32 - b \<or> 32 - (b - 1) = Suc (32 - b)" "128 - (b - 1) = 128 - b \<or> 128 - (b - 1) = Suc (128 - b)" by auto
  show ?thesis
  proof (cases l)
    case (V4 l')
    with assms obtain p' x' where px: "p = V4 p'" "x = V4 x'" by (cases p; cases x) auto
    show ?thesis using assms step(1) drop_bit_pigeon [of "32 - b" l' p' x'] unfolding V4 px same_lead_iff by metis
  next
    case (V6 l')
    with assms obtain p' x' where px: "p = V6 p'" "x = V6 x'" by (cases p; cases x) auto
    show ?thesis using assms step(2) drop_bit_pigeon [of "128 - b" l' p' x'] unfolding V6 px same_lead_iff by metis
  qed (use assms in simp)
qed

definition covered :: "prefix list \<Rightarrow> addr set" where
  "covered ps = (\<Union>p \<in> set ps. addrs_of p)"

lemma parent_addrs:
  assumes "Bits l = Bits p" "Bits l > 0" "Contains (Addr_Prefix (Addr l) (Bits l - 1)) (Addr p)"
    and "Addr (Addr_Prefix (Addr l) (Bits l - 1)) = Addr l" "\<not> Contains l (Addr p)"
  shows "addrs_of (Addr_Prefix (Addr l) (Bits l - 1)) = addrs_of l \<union> addrs_of p"
proof -
  let ?b = "nat (Bits l)"
  have par: "Contains (Addr_Prefix (Addr l) (Bits l - 1)) x \<longleftrightarrow> same_lead (?b - 1) (Addr l) x" for x
    using assms(2,4) by (simp add: Contains_def Addr_Prefix_def Masked_def IsValid_def nat_diff_distrib')
  have lp: "same_lead (?b - 1) (Addr l) (Addr p)" "\<not> same_lead ?b (Addr l) (Addr p)"
    using assms(2,3,5) par by (auto simp: Contains_def IsValid_def)
  have "same_lead (?b - 1) (Addr l) x \<longleftrightarrow> same_lead ?b (Addr l) x \<or> same_lead ?b (Addr p) x" for x
    using same_lead_pigeon [OF lp(1) _ lp(2)] same_lead_shorter [of ?b _ x "?b - 1"] same_lead_trans [OF lp(1)] by auto
  then show ?thesis using assms(1,2) par by (auto simp: addrs_of_def Contains_def IsValid_def)
qed

lemma agg_step_covered: "covered (fst (agg_step acc p)) = covered (fst acc) \<union> addrs_of p"
proof (cases "fst acc = []")
  case True
  then show ?thesis by (simp add: agg_step_def case_prod_beta covered_def)
next
  case False
  let ?n = "fst acc" and ?l = "last (fst acc)"
  have n: "set ?n = insert ?l (set (butlast ?n))" using False by (metis append_butlast_last_id list.simps(15) rotate1.simps(2) set_rotate1)
  consider "Bits ?l \<le> Bits p \<and> Contains ?l (Addr p)"
    | "\<not> (Bits ?l \<le> Bits p \<and> Contains ?l (Addr p))" "Bits ?l = Bits p \<and> Bits ?l > 0 \<and> Contains (Addr_Prefix (Addr ?l) (Bits ?l - 1)) (Addr p) \<and>
        Addr (Addr_Prefix (Addr ?l) (Bits ?l - 1)) = Addr ?l"
    | "fst (agg_step acc p) = ?n @ [p]"
  proof (cases "Bits ?l \<le> Bits p \<and> Contains ?l (Addr p)")
    case outside: False
    show ?thesis
    proof (cases "Bits ?l = Bits p \<and> Bits ?l > 0 \<and> Contains (Addr_Prefix (Addr ?l) (Bits ?l - 1)) (Addr p) \<and>
        Addr (Addr_Prefix (Addr ?l) (Bits ?l - 1)) = Addr ?l")
      case other: False
      show ?thesis using False that(3)
        by (simp only: agg_step_def Let_def case_prod_beta if_False if_not_P [OF outside] if_not_P [OF other] fst_conv)
    qed (use that(2) outside in blast)
  qed (use that(1) in blast)
  then show ?thesis
  proof cases
    case 1
    then have "fst (agg_step acc p) = ?n" using False by (simp add: agg_step_def Let_def case_prod_beta)
    moreover have "addrs_of p \<subseteq> addrs_of ?l" using 1 by (intro covers_addrs) simp_all
    ultimately show ?thesis using n by (auto simp: covered_def)
  next
    case 2
    let ?par = "Addr_Prefix (Addr ?l) (Bits ?l - 1)"
    have "fst (agg_step acc p) = butlast ?n @ [?par]"
      using False by (simp only: agg_step_def Let_def case_prod_beta if_False if_not_P [OF 2(1)] if_P [OF 2(2)] fst_conv)
    moreover have "\<not> Contains ?l (Addr p)" using 2 by simp
    then have "addrs_of ?par = addrs_of ?l \<union> addrs_of p" using 2(2) parent_addrs [of ?l p] by blast
    ultimately show ?thesis using n by (auto simp: covered_def)
  next
    case 3
    then show ?thesis by (auto simp: covered_def)
  qed
qed

lemma agg_round_covered: "covered (fst (agg_round ps)) = covered ps"
proof -
  have "covered (fst (foldl agg_step acc qs)) = covered (fst acc) \<union> covered qs" for acc qs
    by (induction qs arbitrary: acc) (auto simp: agg_step_covered, auto simp: covered_def)
  from this [of "([], False)" "remdups_adj (Sort ps)"] show ?thesis by (simp add: agg_round_def covered_def Sort_def)
qed

lemma Aggregate_small: "covered (Aggregate ps) = covered ps \<and> length (Aggregate ps) \<le> length ps"
proof (induction ps rule: Aggregate.induct)
  case (1 ps)
  show ?case
  proof (cases "snd (agg_round ps)")
    case True
    then have "Aggregate ps = Aggregate (fst (agg_round ps))" by (subst Aggregate.simps) (simp add: case_prod_beta)
    moreover have "covered (Aggregate (fst (agg_round ps))) = covered (fst (agg_round ps)) \<and> length (Aggregate (fst (agg_round ps))) \<le> length (fst (agg_round ps))"
      using 1 True by (metis prod.collapse)
    ultimately show ?thesis using agg_round_covered [of ps] agg_round_shorter [OF True] by simp
  next
    case False
    then have "Aggregate ps = fst (agg_round ps)" by (subst Aggregate.simps) (simp add: case_prod_beta)
    moreover have "length (fst (agg_round ps)) \<le> length ps"
      using agg_fold_len [of "([], False)" "remdups_adj (Sort ps)"] remdups_adj_length [of "Sort ps"] by (simp add: agg_round_def Sort_def)
    ultimately show ?thesis using agg_round_covered [of ps] by simp
  qed
qed

section \<open>The index of the database\<close>

text \<open>The addresses that the readable records of a database give to a country in one family.\<close>

definition country_addrs :: "geo_result list \<Rightarrow> string \<Rightarrow> bool \<Rightarrow> addr set" where
  "country_addrs rs c v4 = (\<Union>x \<in> set rs. case x of GeoNet p (Some r) \<Rightarrow>
     if IsValid (geo_plain p) \<and> geo_country r = c \<and> Is4 (Addr (geo_plain p)) = v4 then addrs_of (geo_plain p) else {} | _ \<Rightarrow> {})"

definition held_addrs :: "(string \<rightharpoonup> prefix list) \<Rightarrow> string \<Rightarrow> addr set" where
  "held_addrs m c = (case m c of Some ps \<Rightarrow> covered ps | None \<Rightarrow> {})"

lemma Masked_addrs: "addrs_of (Masked p) = addrs_of p"
proof -
  have "same_lead b (mask_addr a b) x \<longleftrightarrow> same_lead b a x" for a b x
    by (cases "a = NoAddr") (simp_all add: mask_addr_eq_iff [symmetric])
  then show ?thesis by (auto simp: addrs_of_def Contains_def Masked_def IsValid_def zeroPrefix_def)
qed

lemma held_append_net: "held_addrs (append_net m c' p) c = held_addrs m c \<union> (if c = c' then addrs_of p else {})"
  by (auto simp: held_addrs_def append_net_def covered_def split: option.splits)

lemma country_addrs_Cons [simp]:
  "country_addrs (GeoNet p decoded # rs) c v4 = (case decoded of Some r \<Rightarrow>
     if IsValid (geo_plain p) \<and> geo_country r = c \<and> Is4 (Addr (geo_plain p)) = v4 then addrs_of (geo_plain p) else {} | None \<Rightarrow> {}) \<union>
   country_addrs rs c v4"
  by (simp add: country_addrs_def split: option.splits)

lemma geo_index_addrs:
  assumes "geo_index rs d = Inr d'" "c \<noteq> []"
  shows "held_addrs (if v4 then db_v4 d' else db_v6 d') c = held_addrs (if v4 then db_v4 d else db_v6 d) c \<union> country_addrs rs c v4"
  using assms(1)
proof (induction rs d rule: geo_index.induct)
  case (1 d)
  then show ?case by (simp add: country_addrs_def)
next
  case (3 p0 decoded rs d)
  show ?case
  proof (cases "IsValid (geo_plain p0) \<and> (\<exists>r. decoded = Some r \<and> geo_country r \<noteq> [])")
    case True
    then obtain r where r: "decoded = Some r" "geo_country r \<noteq> []" "IsValid (geo_plain p0)" by blast
    show ?thesis
    proof (cases "Is4 (Addr (geo_plain p0))")
      case True
      then show ?thesis using 3 r by (auto simp: held_append_net Masked_addrs)
    next
      case False
      then show ?thesis using 3 r by (auto simp: held_append_net Masked_addrs)
    qed
  next
    case False
    then have "geo_index rs d = Inr d'" "country_addrs (GeoNet p0 decoded # rs) c v4 = country_addrs rs c v4"
      using "3.prems" assms(2) by (auto simp: Let_def split: option.splits if_splits)
    then show ?thesis using 3 False by (cases "IsValid (geo_plain p0)"; cases decoded) (simp_all split: if_splits)
  qed
qed simp

text \<open>
  C30: a country rule matches exactly the country. For an open database, the networks listed for a country and a family cover
  exactly the addresses that the records of the file give to the country (by the country code, or the registered one where that is
  empty; IPv4-mapped networks as IPv4): aggregation, whose loop ends, loses none and adds no address of another source.
\<close>

theorem Networks_exact:
  assumes "geo_Open path (Inr data) OpenBytes = Inr d" "OpenBytes data = Inr rs" "c \<noteq> []"
  shows "\<exists>ns. geo_Networks (Some d) c v4 = Inr ns \<and> (\<Union>p \<in> set ns. addrs_of p) = country_addrs rs c v4"
proof -
  obtain d0 where d0: "geo_index rs \<lparr>db_v4 = Map.empty, db_v6 = Map.empty\<rparr> = Inr d0"
    and d: "d = d0\<lparr>db_v4 := map_option Aggregate \<circ> db_v4 d0, db_v6 := map_option Aggregate \<circ> db_v6 d0\<rparr>"
    using assms(1,2) by (auto simp: geo_Open_def split: if_splits sum.splits)
  have "held_addrs (if v4 then db_v4 d0 else db_v6 d0) c = country_addrs rs c v4"
    using geo_index_addrs [OF d0 assms(3), of v4] by (simp add: held_addrs_def)
  moreover have "(\<Union>p \<in> set (Aggregate ps). addrs_of p) = (\<Union>p \<in> set ps. addrs_of p)" for ps
    using Aggregate_small [of ps] by (simp add: covered_def)
  ultimately show ?thesis unfolding d geo_Networks_def held_addrs_def covered_def by (simp split: option.splits if_splits)
qed

lemma geo_example_index:
  "geo_index [GeoNet (Pfx (V4 0x0A000000) 9) (Some \<lparr>Country = ''NL'', Registered = []\<rparr>), GeoNet (Pfx (V4 0x0A800000) 9) (Some \<lparr>Country = [], Registered = ''NL''\<rparr>)]
     \<lparr>db_v4 = Map.empty, db_v6 = Map.empty\<rparr> =
   Inr \<lparr>db_v4 = [''NL'' \<mapsto> [Masked (Pfx (V4 0x0A000000) 9), Masked (Pfx (V4 0x0A800000) 9)]], db_v6 = Map.empty\<rparr>"
  by (simp add: geo_plain_def geo_country_def append_net_def IsValid_def)

theorem Networks_exact_witness:
  "\<exists>d ns. geo_Open ''/geo.mmdb'' (Inr ()) (\<lambda>_. Inr
      [GeoNet (Pfx (V4 0x0A000000) 9) (Some \<lparr>Country = ''NL'', Registered = []\<rparr>), GeoNet (Pfx (V4 0x0A800000) 9) (Some \<lparr>Country = [], Registered = ''NL''\<rparr>)]) = Inr d \<and>
    geo_Networks (Some d) ''NL'' True = Inr ns \<and> ns \<noteq> []"
proof -
  let ?rs = "[GeoNet (Pfx (V4 0x0A000000) 9) (Some \<lparr>Country = ''NL'', Registered = []\<rparr>), GeoNet (Pfx (V4 0x0A800000) 9) (Some \<lparr>Country = [], Registered = ''NL''\<rparr>)]"
  obtain d where d: "geo_Open ''/geo.mmdb'' (Inr ()) (\<lambda>_. Inr ?rs) = Inr d" by (simp add: geo_Open_def geo_example_index del: geo_index.simps)
  obtain ns where ns: "geo_Networks (Some d) ''NL'' True = Inr ns" "(\<Union>p \<in> set ns. addrs_of p) = country_addrs ?rs ''NL'' True"
    using Networks_exact [OF d refl, of "''NL''" True] by auto
  have "V4 0x0A000000 \<in> country_addrs ?rs ''NL'' True" by (auto simp: country_addrs_def geo_plain_def geo_country_def IsValid_def addrs_of_def Contains_def)
  with d ns show ?thesis by fastforce
qed

end
