(* ===== verification/Mitigation.thy ===== *)
theory Mitigation
  imports Geoip Inbound_Spec
begin

text \<open>
  Threat mitigation (src/internal/mitigation/mitigation.go): rules with a lifetime that announce a blackhole or redirect route for
  a prefix, or FlowSpec routes towards it.

  The calls of the announcer are kept with their outcome in \<open>m_log\<close>, which the source does not have; what the RIB, the lease and
  the two other controllers answer is the record \<open>mit_env\<close>. The clock and the random identifier are arguments. Ranging over a map
  whose order shows goes through \<open>me_keys\<close> and \<open>me_prefixes\<close>, arrangements of its keys.

  The source keeps pointers to rules across the calls that \<open>Sync\<close> makes with the state unlocked, while a rule can be removed
  or replaced. \<open>ru_ref\<close> is the identity of the object: a write through a pointer shows in the table of rules only while
  the table still holds that object (\<open>set_Pending\<close>). The critical sections of \<open>Sync\<close> are definitions of their own, so that
  other operations can come between them; \<open>mit_Sync\<close> is their sequence.
\<close>

section \<open>Configuration, requests, rules\<close>

definition MaxCountries :: nat where "MaxCountries = 8"

definition FeedSize :: nat where "FeedSize = 200"

definition MinMitigationTTL :: duration where "MinMitigationTTL = Second"

record mitConfig =
  mf_Mode :: string
  mf_Allowlist :: "prefix list"
  mf_MaxRules :: int
  mf_DefaultTTL :: duration
  mf_MaxTTL :: duration
  mf_HideWindow :: duration
  mf_LocalPref :: "32 word"
  mf_Community :: string
  mf_Geo :: "(string \<Rightarrow> bool \<Rightarrow> geo_error + prefix list) option"

record Request =
  rq_Prefix :: prefix
  rq_Action :: string
  rq_Target :: string
  rq_TTL :: duration
  rq_Reason :: string
  rq_Match :: FlowSpecMatch
  rq_Countries :: "string list"
  rq_RateMbps :: float64
  rq_NoReplace :: bool

datatype mit_call = MitAnnounce MitigationRoute | MitWithdraw prefix | MitWithdrawAll | MitAnnounceFS FlowSpecRoute | MitWithdrawFS string

datatype invalid_why =
    PrefixRequired | HostBits | DefaultRoute | NotInAllowlist | ReasonTooLong | BadTTL | FlowSpecOnly
  | BlackholeTarget | NoBlackhole | NoBlackholeFamily | RedirectNeedsAnnouncer | UnknownTarget string | NoTargetFamily | BadAction string
  | FlowSpecOff | FSRedirectNeedsAnnouncer | UnknownFSTarget string | RedirectRate | RateTarget | BadRate | DropTarget
  | BadMatch match_error | SourceAndCountries | TooManyCountries | NoGeoDB | BadCountry string | CountryTwice string
  | GeoFailed string geo_error | NoNetworks | TooManyNetworks nat

datatype mit_error =
    EmptyAllowlist | BadMaxRules | BadTTLConfig | BadHideWindow | MitNoAnnouncer | MitNoAttributes | MitNoRIB
  | ErrInvalid invalid_why | ErrFull | ErrConflictRoute string string | ErrConflictKey string
  | MitCallFailed mit_call | NoFlowSpecAnnouncer

text \<open>The texts of \<open>Rule.Pending\<close>; \<open>NoPending\<close> is the empty text.\<close>

datatype pending =
    NoPending | PendingOutbound | PendingInbound | PendingRIB | PendingLeft | PendingAllowlist | PendingFlowSpecOff
  | PendingShared string string | PendingError mit_error | PendingDryRun string

record Rule =
  ru_ID :: string
  ru_Prefix :: prefix
  ru_Action :: string
  ru_Target :: string
  ru_NextHop :: addr
  ru_RouteTarget :: string
  ru_Match :: "FlowSpecMatch option"
  ru_Countries :: "string list"
  ru_Sources :: "prefix list"
  ru_RateMbps :: float64
  ru_Routes :: int
  ru_Reason :: string
  ru_Created :: time
  ru_Expires :: time
  ru_Announced :: bool
  ru_FirstAnnounced :: time
  ru_Pending :: pending
  ru_key :: string
  ru_live :: bool
  ru_ref :: nat

definition ru_FlowSpec :: "Rule \<Rightarrow> bool" where
  "ru_FlowSpec r = IsFlowSpec (ru_Action r)"

definition MatchText :: "Rule \<Rightarrow> string" where
  "MatchText r = (case ru_Match r of None \<Rightarrow> [] | Some m \<Rightarrow> match_Key m)"

datatype change_kind = ChangeAdded | ChangeReplaced | ChangeAnnounced | ChangeWithdrawn | ChangeExpired | ChangeRemoved

datatype change_detail = NoDetail | ReplacedBy string | DroppedByMode | WithdrawnFor pending

record mitChange =
  mh_Time :: time
  mh_Kind :: change_kind
  mh_Mode :: string
  mh_Detail :: change_detail
  mh_Rule :: Rule

definition Ends :: "mitChange \<Rightarrow> bool" where
  "Ends ch \<longleftrightarrow> mh_Kind ch = ChangeExpired \<or> mh_Kind ch = ChangeRemoved \<or> mh_Kind ch = ChangeReplaced"

section \<open>The controller\<close>

record fsWire =
  fw_rule :: string
  fw_route :: FlowSpecRoute

text \<open>The announcer without its calls: its catalog, and its FlowSpec catalog where it is a FlowSpec announcer.\<close>

record mitAnn =
  ma_Catalog :: MitigationCatalog
  ma_FlowSpec :: "FlowSpecCatalog option"

record mitController =
  m_cfg :: mitConfig
  m_ann :: bool
  m_fs :: bool
  m_catalog :: MitigationCatalog
  m_fsCat :: FlowSpecCatalog
  m_rib :: bool
  m_outbound :: bool
  m_inbound :: bool
  m_rules :: "(string, Rule) fmap"
  m_wire :: "(prefix, Rule) fmap"
  m_fwire :: "(string, fsWire) fmap"
  m_inflight :: "prefix set"
  m_gone :: "(prefix, time) fmap"
  m_feed :: "mitChange list"
  m_pending :: "mitChange list"
  m_onWire :: int
  m_refs :: nat
  m_log :: "(mit_call \<times> bool) list"

record mit_env =
  me_Ready :: bool
  me_Contains :: "prefix \<Rightarrow> bool"
  me_Leader :: bool
  me_outbound :: "prefix \<Rightarrow> bool"
  me_inbound :: "prefix \<Rightarrow> bool"
  me_fails :: "(mit_call \<times> bool) list \<Rightarrow> mit_call \<Rightarrow> bool"
  me_keys :: "string list \<Rightarrow> string list"
  me_prefixes :: "prefix list \<Rightarrow> prefix list"

definition mit_inject :: "mitController \<Rightarrow> bool" where
  "mit_inject c \<longleftrightarrow> mf_Mode (m_cfg c) = ''inject''"

definition mit_do :: "mit_env \<Rightarrow> mit_call \<Rightarrow> mitController \<Rightarrow> bool \<times> mitController" where
  "mit_do e x c = (let ok = \<not> me_fails e (m_log c) x in (ok, c\<lparr>m_log := m_log c @ [(x, ok)]\<rparr>))"

section \<open>Routes of a rule, the feed\<close>

definition flowRoutes :: "mitConfig \<Rightarrow> Rule \<Rightarrow> FlowSpecRoute list" where
  "flowRoutes cfg r =
     (let base = \<lparr>fr_Destination = ru_Prefix r, fr_Match = (case ru_Match r of Some m \<Rightarrow> m | None \<Rightarrow> zeroMatch), fr_Action = ru_Action r,
            fr_Target = ru_Target r, fr_RateMbps = ru_RateMbps r, fr_LocalPref = mf_LocalPref cfg, fr_Community = mf_Community cfg\<rparr>
      in if ru_Sources r = [] then [base]
         else map (\<lambda>s. base\<lparr>fr_Match := (fr_Match base)\<lparr>fm_Source := s\<rparr>\<rparr>) (ru_Sources r))"

definition same_action :: "FlowSpecRoute \<Rightarrow> FlowSpecRoute \<Rightarrow> bool" where
  "same_action a b \<longleftrightarrow> fr_Action a = fr_Action b \<and> fr_Target a = fr_Target b \<and> fr_RateMbps a = fr_RateMbps b"

definition same_unicast :: "Rule \<Rightarrow> Rule \<Rightarrow> bool" where
  "same_unicast a b \<longleftrightarrow> ru_Action a = ru_Action b \<and> ru_Target a = ru_Target b"

definition announcedLocked :: "mitController \<Rightarrow> Rule \<Rightarrow> bool" where
  "announcedLocked c r =
     (if \<not> ru_FlowSpec r then (case fmlookup (m_wire c) (ru_Prefix r) of None \<Rightarrow> False | Some w \<Rightarrow> same_unicast w r)
      else list_all (\<lambda>rt. case fmlookup (m_fwire c) (route_Key rt) of None \<Rightarrow> False
              | Some w \<Rightarrow> fw_rule w = ru_key r \<and> same_action (fw_route w) rt) (flowRoutes (m_cfg c) r))"

definition view :: "mitController \<Rightarrow> Rule \<Rightarrow> Rule" where
  "view c r = r\<lparr>ru_Announced := announcedLocked c r,
     ru_Pending := (if \<not> mit_inject c then PendingDryRun (mf_Mode (m_cfg c)) else ru_Pending r)\<rparr>"

definition changeLocked :: "time \<Rightarrow> change_kind \<Rightarrow> Rule \<Rightarrow> change_detail \<Rightarrow> mitController \<Rightarrow> mitController" where
  "changeLocked now kind r detail c =
     (let ch = \<lparr>mh_Time = now, mh_Kind = kind, mh_Mode = mf_Mode (m_cfg c), mh_Detail = detail, mh_Rule = view c r\<rparr>;
          feed = m_feed c @ [ch]; pend = m_pending c @ [ch]
      in c\<lparr>m_feed := (if length feed > FeedSize then drop (length feed - FeedSize) feed else feed),
           m_pending := (if length pend > 10 * FeedSize then drop (length pend - FeedSize) pend else pend)\<rparr>)"

definition Changes :: "mitController \<Rightarrow> mitController \<times> mitChange list" where
  "Changes c = (c\<lparr>m_pending := []\<rparr>, m_pending c)"

definition settle_step :: "time \<Rightarrow> mitController \<Rightarrow> string \<Rightarrow> mitController" where
  "settle_step now c k =
     (case fmlookup (m_rules c) k of
        None \<Rightarrow> c
      | Some r \<Rightarrow>
          (let on = announcedLocked c r in
           if on = ru_live r then c
           else if on then
             (let r1 = r\<lparr>ru_live := True, ru_FirstAnnounced := (if ru_FirstAnnounced r = 0 then now else ru_FirstAnnounced r)\<rparr>
              in changeLocked now ChangeAnnounced r1 NoDetail (c\<lparr>m_rules := fmupd k r1 (m_rules c)\<rparr>))
           else
             (let r1 = r\<lparr>ru_live := False\<rparr>
              in changeLocked now ChangeWithdrawn r1 (WithdrawnFor (ru_Pending r)) (c\<lparr>m_rules := fmupd k r1 (m_rules c)\<rparr>))))"

definition settleLocked :: "time \<Rightarrow> mitController \<Rightarrow> mitController" where
  "settleLocked now c =
     (let c1 = c\<lparr>m_onWire := int (fmlen (m_wire c) + fmlen (m_fwire c))\<rparr> in foldl (settle_step now) c1 (sortedKeys (m_rules c1)))"

section \<open>Construction and setters\<close>

definition mit_checkInject :: "mitConfig \<Rightarrow> bool \<Rightarrow> mit_error option" where
  "mit_checkInject cfg ann =
     (if \<not> ann then Some MitNoAnnouncer
      else if mf_LocalPref cfg = 0 \<or> mf_Community cfg = [] then Some MitNoAttributes
      else None)"

definition emptyCatalog :: MitigationCatalog where
  "emptyCatalog = \<lparr>mc_Blackhole = False, mc_BlackholeNextHops = [], mc_BlackholeCommunities = [], mc_Targets = []\<rparr>"

definition emptyFlowCatalog :: FlowSpecCatalog where
  "emptyFlowCatalog = \<lparr>fc_Enabled = False, fc_Targets = []\<rparr>"

definition mit_New :: "mitConfig \<Rightarrow> mitAnn option \<Rightarrow> mit_error + mitController" where
  "mit_New cfg ann =
     (if mf_Allowlist cfg = [] then Inl EmptyAllowlist
      else if mf_MaxRules cfg < 1 then Inl BadMaxRules
      else if mf_MaxTTL cfg \<le> 0 \<or> mf_DefaultTTL cfg \<le> 0 \<or> mf_DefaultTTL cfg > mf_MaxTTL cfg then Inl BadTTLConfig
      else if mf_HideWindow cfg \<le> 0 then Inl BadHideWindow
      else case (if mf_Mode cfg = ''inject'' then mit_checkInject cfg (ann \<noteq> None) else None) of
        Some err \<Rightarrow> Inl err
      | None \<Rightarrow>
          (let fs = (case ann of None \<Rightarrow> None
             | Some a \<Rightarrow> (case ma_FlowSpec a of None \<Rightarrow> None | Some cat \<Rightarrow> if fc_Enabled cat then Some cat else None))
           in Inr \<lparr>m_cfg = cfg, m_ann = (ann \<noteq> None), m_fs = (fs \<noteq> None),
                m_catalog = (case ann of None \<Rightarrow> emptyCatalog | Some a \<Rightarrow> ma_Catalog a),
                m_fsCat = (case fs of None \<Rightarrow> emptyFlowCatalog | Some cat \<Rightarrow> cat),
                m_rib = False, m_outbound = False, m_inbound = False, m_rules = fmempty, m_wire = fmempty, m_fwire = fmempty,
                m_inflight = {}, m_gone = fmempty, m_feed = [], m_pending = [], m_onWire = 0, m_refs = 0, m_log = []\<rparr>))"

definition checkEnterLocked :: "mitController \<Rightarrow> mit_error option" where
  "checkEnterLocked c =
     (case mit_checkInject (m_cfg c) (m_ann c) of
        Some err \<Rightarrow> Some err
      | None \<Rightarrow> if \<not> m_rib c then Some MitNoRIB else None)"

definition mit_PrepareRuntime :: "string \<Rightarrow> mitController \<Rightarrow> mit_error option" where
  "mit_PrepareRuntime mode c = (if mode \<noteq> ''inject'' then None else checkEnterLocked c)"

definition SetRIB :: "bool \<Rightarrow> mitController \<Rightarrow> mitController \<times> mit_error option" where
  "SetRIB rib c = (if mit_inject c \<and> \<not> rib then (c, Some MitNoRIB) else (c\<lparr>m_rib := rib\<rparr>, None))"

definition SetOutbound :: "bool \<Rightarrow> mitController \<Rightarrow> mitController" where
  "SetOutbound injected c = c\<lparr>m_outbound := injected\<rparr>"

definition SetInbound :: "bool \<Rightarrow> mitController \<Rightarrow> mitController" where
  "SetInbound onWire c = c\<lparr>m_inbound := onWire\<rparr>"

definition mit_Active :: "mitController \<Rightarrow> int" where "mit_Active c = m_onWire c"

definition unicastKey :: "prefix \<Rightarrow> string" where
  "unicastKey p = ''route '' @ Prefix_String p"

definition Holds :: "mitController \<Rightarrow> prefix \<Rightarrow> bool" where
  "Holds c p0 \<longleftrightarrow>
     (let p = Masked p0 in
      mit_inject c \<and> (fmlookup (m_rules c) (unicastKey p) \<noteq> None \<or> fmlookup (m_wire c) p \<noteq> None \<or> p \<in> m_inflight c))"

section \<open>Adding and removing rules\<close>

definition unicastNextHop :: "mitController \<Rightarrow> Request \<Rightarrow> invalid_why + addr" where
  "unicastNextHop c req =
     (let p = rq_Prefix req in
      if rq_Action req = MitigationBlackhole then
        (if rq_Target req \<noteq> [] then Inl BlackholeTarget
         else if \<not> m_ann c then Inr NoAddr
         else if \<not> mc_Blackhole (m_catalog c) then Inl NoBlackhole
         else let nh = foldl (\<lambda>nh h. if Is4 h = Is4 (Addr p) then h else nh) NoAddr (mc_BlackholeNextHops (m_catalog c))
              in if nh = NoAddr then Inl NoBlackholeFamily else Inr nh)
      else if rq_Action req = MitigationRedirect then
        (if \<not> m_ann c then Inl RedirectNeedsAnnouncer
         else case catalog_Target (m_catalog c) (rq_Target req) of
           None \<Rightarrow> Inl (UnknownTarget (rq_Target req))
         | Some t \<Rightarrow> if Is4 (mt_NextHop t) \<noteq> Is4 (Addr p) then Inl NoTargetFamily else Inr (mt_NextHop t))
      else Inl (BadAction (rq_Action req)))"

text \<open>The switch over the FlowSpec actions: the route target and the rate of the rule.\<close>

definition flow_action :: "mitController \<Rightarrow> Request \<Rightarrow> invalid_why + string \<times> float64" where
  "flow_action c req =
     (if rq_Action req = MitigationFlowSpecRedirect then
        (if \<not> m_ann c then Inl FSRedirectNeedsAnnouncer
         else case flow_Target (m_fsCat c) (rq_Target req) of
           None \<Rightarrow> Inl (UnknownFSTarget (rq_Target req))
         | Some t \<Rightarrow> if rq_RateMbps req \<noteq> 0 then Inl RedirectRate else Inr (ft_RouteTarget t, 0))
      else if rq_Action req = MitigationFlowSpecRateLimit then
        (if rq_Target req \<noteq> [] then Inl RateTarget
         else if \<not> (rq_RateMbps req > 0 \<and> rq_RateMbps req \<le> MaxFlowSpecRateMbps) then Inl BadRate
         else Inr ([], rq_RateMbps req))
      else if rq_Target req \<noteq> [] \<or> rq_RateMbps req \<noteq> 0 then Inl DropTarget
      else Inr ([], 0))"

fun country_nets :: "(string \<Rightarrow> bool \<Rightarrow> geo_error + prefix list) \<Rightarrow> bool \<Rightarrow> string list \<Rightarrow> prefix list \<Rightarrow> string list \<Rightarrow> invalid_why + prefix list" where
  "country_nets geo v4 seen nets [] = Inr nets"
| "country_nets geo v4 seen nets (cc # ccs) =
     (if \<not> ValidCountry cc then Inl (BadCountry cc)
      else if cc \<in> set seen then Inl (CountryTwice cc)
      else case geo cc v4 of
        Inl err \<Rightarrow> Inl (GeoFailed cc err)
      | Inr n \<Rightarrow> country_nets geo v4 (cc # seen) (nets @ n) ccs)"

definition country_rule :: "mitController \<Rightarrow> Request \<Rightarrow> FlowSpecMatch \<Rightarrow> Rule \<Rightarrow> invalid_why + Rule" where
  "country_rule c req m r =
     (if rq_Countries req = [] then Inr r
      else if IsValid (fm_Source m) then Inl SourceAndCountries
      else if length (rq_Countries req) > MaxCountries then Inl TooManyCountries
      else case mf_Geo (m_cfg c) of
        None \<Rightarrow> Inl NoGeoDB
      | Some geo \<Rightarrow>
          (case country_nets geo (Is4 (Addr (rq_Prefix req))) [] [] (rq_Countries req) of
             Inl err \<Rightarrow> Inl err
           | Inr all \<Rightarrow>
               (let nets = Aggregate all in
                if nets = [] then Inl NoNetworks
                else if int (length nets) > mf_MaxRules (m_cfg c) then Inl (TooManyNetworks (length nets))
                else Inr (r\<lparr>ru_Countries := sort (rq_Countries req), ru_Sources := nets, ru_Routes := int (length nets)\<rparr>))))"

definition flowSpecRule :: "mitController \<Rightarrow> Request \<Rightarrow> Rule \<Rightarrow> invalid_why + Rule" where
  "flowSpecRule c req r =
     (if m_ann c \<and> \<not> fc_Enabled (m_fsCat c) then Inl FlowSpecOff
      else case flow_action c req of
        Inl err \<Rightarrow> Inl err
      | Inr (target, rate) \<Rightarrow>
          (let m = match_Normalize (rq_Match req) in
           case match_Validate m (rq_Prefix req) of
             Some err \<Rightarrow> Inl (BadMatch err)
           | None \<Rightarrow>
               (case country_rule c req m (r\<lparr>ru_RouteTarget := target, ru_RateMbps := rate\<rparr>) of
                  Inl err \<Rightarrow> Inl err
                | Inr r1 \<Rightarrow> Inr (r1\<lparr>ru_Match := Some m\<rparr>))))"

definition flowKey :: "Rule \<Rightarrow> string" where
  "flowKey r = ''flowspec dst='' @ Prefix_String (ru_Prefix r) @ '' '' @ MatchText r @ '' countries='' @ Join (ru_Countries r) '',''"

text \<open>The checks of \<open>Add\<close> that need no lock: they read only what never changes.\<close>

definition new_rule :: "mitController \<Rightarrow> string \<Rightarrow> Request \<Rightarrow> time \<Rightarrow> duration \<Rightarrow> Rule" where
  "new_rule c newID req now ttl =
     \<lparr>ru_ID = newID, ru_Prefix = rq_Prefix req, ru_Action = rq_Action req, ru_Target = rq_Target req, ru_NextHop = NoAddr, ru_RouteTarget = [],
      ru_Match = None, ru_Countries = [], ru_Sources = [], ru_RateMbps = 0, ru_Routes = 1, ru_Reason = rq_Reason req, ru_Created = now,
      ru_Expires = now + ttl, ru_Announced = False, ru_FirstAnnounced = 0, ru_Pending = NoPending, ru_key = [], ru_live = False, ru_ref = m_refs c\<rparr>"

definition make_rule :: "mitController \<Rightarrow> string \<Rightarrow> Request \<Rightarrow> time \<Rightarrow> invalid_why + Rule" where
  "make_rule c newID req now =
     (let p = rq_Prefix req; ttl = (if rq_TTL req = 0 then mf_DefaultTTL (m_cfg c) else rq_TTL req); r = new_rule c newID req now ttl in
      if \<not> IsValid p then Inl PrefixRequired
      else if p \<noteq> Masked p then Inl HostBits
      else if Bits p = 0 then Inl DefaultRoute
      else if \<not> CoveredBy (mf_Allowlist (m_cfg c)) p then Inl NotInAllowlist
      else if length (rq_Reason req) > 256 then Inl ReasonTooLong
      else if ttl < MinMitigationTTL \<or> ttl > mf_MaxTTL (m_cfg c) then Inl BadTTL
      else if IsFlowSpec (rq_Action req) then
        (case flowSpecRule c req r of Inl err \<Rightarrow> Inl err | Inr r1 \<Rightarrow> Inr (r1\<lparr>ru_key := flowKey r1\<rparr>))
      else if match_Key (rq_Match req) \<noteq> [] \<or> rq_Countries req \<noteq> [] \<or> rq_RateMbps req \<noteq> 0 then Inl FlowSpecOnly
      else case unicastNextHop c req of
        Inl err \<Rightarrow> Inl err
      | Inr nh \<Rightarrow> Inr (r\<lparr>ru_NextHop := nh, ru_key := unicastKey p\<rparr>))"

text \<open>
  The conflict of a FlowSpec rule: the rule with the lowest key that sends one of its routes, and the first such route. The
  source ranges over the map and keeps the lowest key, which is the first in key order.
\<close>

definition flowConflictLocked :: "mitController \<Rightarrow> Rule \<Rightarrow> (Rule \<times> string) option" where
  "flowConflictLocked c r =
     (let mine = map route_Key (flowRoutes (m_cfg c) r);
          shared = (\<lambda>x. find (\<lambda>rk. rk \<in> set mine) (map route_Key (flowRoutes (m_cfg c) x)));
          other = (\<lambda>k. case fmlookup (m_rules c) k of None \<Rightarrow> None
            | Some x \<Rightarrow> if k = ru_key r \<or> \<not> ru_FlowSpec x then None else map_option (\<lambda>rk. (x, rk)) (shared x))
      in case List.map_filter other (sortedKeys (m_rules c)) of [] \<Rightarrow> None | xr # _ \<Rightarrow> Some xr)"

definition held_routes :: "(string, Rule) fmap \<Rightarrow> int" where
  "held_routes m = sum_list (map (\<lambda>k. case fmlookup m k of None \<Rightarrow> 0 | Some r \<Rightarrow> ru_Routes r) (sortedKeys m))"

definition insert_rule :: "mitController \<Rightarrow> Rule \<Rightarrow> time \<Rightarrow> mitController" where
  "insert_rule c r now =
     (let c1 = (case fmlookup (m_rules c) (ru_key r) of None \<Rightarrow> c | Some old \<Rightarrow> changeLocked now ChangeReplaced old (ReplacedBy (ru_ID r)) c)
      in changeLocked now ChangeAdded r NoDetail (c1\<lparr>m_rules := fmupd (ru_key r) r (m_rules c1), m_refs := Suc (m_refs c1)\<rparr>))"

definition Add :: "string \<Rightarrow> Request \<Rightarrow> time \<Rightarrow> mitController \<Rightarrow> mitController \<times> (mit_error + Rule)" where
  "Add newID req now c =
     (case make_rule c newID req now of
        Inl err \<Rightarrow> (c, Inl (ErrInvalid err))
      | Inr r \<Rightarrow>
          (case (if ru_FlowSpec r then flowConflictLocked c r else None) of
             Some (other, route) \<Rightarrow> (c, Inl (ErrConflictRoute (ru_ID other) route))
           | None \<Rightarrow>
               (case (if rq_NoReplace req then fmlookup (m_rules c) (ru_key r) else None) of
                  Some old \<Rightarrow> (c, Inl (ErrConflictKey (ru_ID old)))
                | None \<Rightarrow>
                    if held_routes (fmdrop (ru_key r) (m_rules c)) + ru_Routes r > mf_MaxRules (m_cfg c) then (c, Inl ErrFull)
                    else let c1 = insert_rule c r now in (c1, Inr (view c1 r)))))"

definition mit_Has :: "mitController \<Rightarrow> string \<Rightarrow> bool" where
  "mit_Has c i = list_ex (\<lambda>k. case fmlookup (m_rules c) k of None \<Rightarrow> False | Some r \<Rightarrow> ru_ID r = i) (sortedKeys (m_rules c))"

definition drop_rule :: "time \<Rightarrow> change_kind \<Rightarrow> change_detail \<Rightarrow> mitController \<Rightarrow> string \<Rightarrow> mitController" where
  "drop_rule now kind detail c k =
     (case fmlookup (m_rules c) k of
        None \<Rightarrow> c
      | Some r \<Rightarrow> changeLocked now kind r detail (c\<lparr>m_rules := fmdrop k (m_rules c)\<rparr>))"

definition Remove :: "mit_env \<Rightarrow> time \<Rightarrow> string \<Rightarrow> mitController \<Rightarrow> mitController \<times> bool" where
  "Remove e now i c =
     (case find (\<lambda>k. case fmlookup (m_rules c) k of None \<Rightarrow> False | Some r \<Rightarrow> ru_ID r = i) (me_keys e (sortedKeys (m_rules c))) of
        None \<Rightarrow> (c, False)
      | Some k \<Rightarrow> (drop_rule now ChangeRemoved NoDetail c k, True))"

section \<open>Sync: the plan\<close>

datatype wireOp =
    WopWithdraw prefix
  | WopAnnounce prefix MitigationRoute Rule bool
  | WopWithdrawFS string
  | WopAnnounceFS string FlowSpecRoute Rule

datatype op_result = OpOk | OpErr mit_error | OpPending pending

definition set_Pending :: "Rule \<Rightarrow> pending \<Rightarrow> mitController \<Rightarrow> mitController" where
  "set_Pending r why c =
     (case fmlookup (m_rules c) (ru_key r) of
        None \<Rightarrow> c
      | Some x \<Rightarrow> if ru_ref x = ru_ref r then c\<lparr>m_rules := fmupd (ru_key r) (x\<lparr>ru_Pending := why\<rparr>) (m_rules c)\<rparr> else c)"

definition expire_step :: "time \<Rightarrow> mitController \<Rightarrow> string \<Rightarrow> mitController" where
  "expire_step now c k =
     (case fmlookup (m_rules c) k of
        None \<Rightarrow> c
      | Some r \<Rightarrow> if \<not> now < ru_Expires r then drop_rule now ChangeExpired NoDetail c k else c)"

definition wire_prefixes :: "mitController \<Rightarrow> prefix list" where
  "wire_prefixes c = SortedKeys (m_wire c) @
     List.map_filter (\<lambda>k. map_option (\<lambda>w. fr_Destination (fw_route w)) (fmlookup (m_fwire c) k)) (sortedKeys (m_fwire c))"

definition trackGoneLocked :: "mit_env \<Rightarrow> time \<Rightarrow> mitController \<Rightarrow> mitController" where
  "trackGoneLocked e now c =
     (let on = wire_prefixes c in
      c\<lparr>m_gone := foldl (\<lambda>g p. if me_Contains e p then fmdrop p g else if fmlookup g p = None then fmupd p now g else g)
          (fmfilter (\<lambda>p. p \<in> set on) (m_gone c)) on\<rparr>)"

definition leftLocked :: "mitController \<Rightarrow> time \<Rightarrow> prefix \<Rightarrow> bool" where
  "leftLocked c now p = (case fmlookup (m_gone c) p of None \<Rightarrow> False | Some since \<Rightarrow> time_sub now since \<ge> mf_HideWindow (m_cfg c))"

definition uni_rules :: "mit_env \<Rightarrow> mitController \<Rightarrow> (prefix, Rule) fmap" where
  "uni_rules e c =
     foldl (\<lambda>m k. case fmlookup (m_rules c) k of None \<Rightarrow> m | Some r \<Rightarrow> if ru_FlowSpec r then m else fmupd (ru_Prefix r) r m)
       fmempty (me_keys e (sortedKeys (m_rules c)))"

definition mit_route :: "mitConfig \<Rightarrow> Rule \<Rightarrow> MitigationRoute" where
  "mit_route cfg r = \<lparr>mr_Prefix = ru_Prefix r, mr_Action = ru_Action r, mr_Target = ru_Target r, mr_LocalPref = mf_LocalPref cfg, mr_Community = mf_Community cfg\<rparr>"

definition unicast_step :: "mit_env \<Rightarrow> time \<Rightarrow> (prefix, Rule) fmap \<Rightarrow> mitController \<times> wireOp list \<Rightarrow> prefix \<Rightarrow> mitController \<times> wireOp list" where
  "unicast_step e now uni acc p =
     (let (c, ops) = acc in
      case fmlookup uni p of
        None \<Rightarrow> acc
      | Some r \<Rightarrow>
          (let cur = fmlookup (m_wire c) p in
           if cur \<noteq> None \<and> leftLocked c now p then (set_Pending r PendingLeft c, ops @ [WopWithdraw p])
           else if (case cur of None \<Rightarrow> False | Some w \<Rightarrow> same_unicast w r) then (set_Pending r NoPending c, ops)
           else if \<not> CoveredBy (mf_Allowlist (m_cfg c)) p then
             (set_Pending r PendingAllowlist c, if cur \<noteq> None then ops @ [WopWithdraw p] else ops)
           else if cur = None \<and> \<not> me_Contains e p then
             (if ru_Pending r = PendingLeft then c else set_Pending r PendingRIB c, ops)
           else (c\<lparr>m_inflight := insert p (m_inflight c)\<rparr>, ops @ [WopAnnounce p (mit_route (m_cfg c) r) r (cur = None)])))"

definition planUnicastLocked :: "mit_env \<Rightarrow> time \<Rightarrow> mitController \<Rightarrow> mitController \<times> wireOp list" where
  "planUnicastLocked e now c =
     (let uni = uni_rules e c; stale = filter (\<lambda>p. fmlookup uni p = None) (me_prefixes e (SortedKeys (m_wire c)))
      in foldl (unicast_step e now uni) (c, map WopWithdraw stale) (SortedKeys uni))"

text \<open>
  FlowSpec. The rules in key order (a rule is stored under its own key) claim their routes; the result is the route and the rule
  of each route key, and the keys in the order they were claimed. The lists \<open>waited\<close> of the source only decide what is logged.
\<close>

record want =
  wa_rule :: Rule
  wa_route :: FlowSpecRoute

definition claim_route :: "Rule \<Rightarrow> (string, want) fmap \<times> string list \<times> pending \<Rightarrow> FlowSpecRoute \<Rightarrow> (string, want) fmap \<times> string list \<times> pending" where
  "claim_route r acc rt =
     (let (desired, keys, why) = acc; k = route_Key rt in
      case fmlookup desired k of
        Some d \<Rightarrow> (desired, keys, PendingShared k (ru_ID (wa_rule d)))
      | None \<Rightarrow> (fmupd k \<lparr>wa_rule = r, wa_route = rt\<rparr> desired, keys @ [k], why))"

definition claim_rule :: "(string, want) fmap \<times> string list \<times> mitController \<Rightarrow> string \<Rightarrow> (string, want) fmap \<times> string list \<times> mitController" where
  "claim_rule acc rk =
     (let (desired, keys, c) = acc in
      case fmlookup (m_rules c) rk of
        None \<Rightarrow> acc
      | Some r \<Rightarrow>
          if \<not> ru_FlowSpec r then acc
          else let (desired1, keys1, why) = foldl (claim_route r) (desired, keys, NoPending) (flowRoutes (m_cfg c) r)
               in (desired1, keys1, set_Pending r why c))"

definition flow_step :: "mit_env \<Rightarrow> time \<Rightarrow> (string, want) fmap \<Rightarrow> string list \<Rightarrow> mitController \<times> string list \<times> wireOp list \<Rightarrow> string
    \<Rightarrow> mitController \<times> string list \<times> wireOp list" where
  "flow_step e now desired leaving acc k =
     (let (c, left, ops) = acc in
      case fmlookup desired k of
        None \<Rightarrow> acc
      | Some d \<Rightarrow>
          (let r = wa_rule d; rt = wa_route d; cur = (if k \<in> set leaving then None else fmlookup (m_fwire c) k) in
           if cur \<noteq> None \<and> leftLocked c now (ru_Prefix r) then (set_Pending r PendingLeft c, ru_key r # left, ops @ [WopWithdrawFS k])
           else if (case cur of None \<Rightarrow> False | Some w \<Rightarrow> same_action (fw_route w) rt) then acc
           else if \<not> m_fs c then (set_Pending r PendingFlowSpecOff c, left, ops)
           else if \<not> CoveredBy (mf_Allowlist (m_cfg c)) (ru_Prefix r) then
             (set_Pending r PendingAllowlist c, left, if cur \<noteq> None then ops @ [WopWithdrawFS k] else ops)
           else if cur = None \<and> \<not> me_Contains e (ru_Prefix r) then
             (set_Pending r (if ru_key r \<in> set left then PendingLeft else PendingRIB) c, left, ops)
           else (c, left, ops @ [WopAnnounceFS k rt r])))"

definition planFlowSpecLocked :: "mit_env \<Rightarrow> time \<Rightarrow> mitController \<Rightarrow> mitController \<times> wireOp list" where
  "planFlowSpecLocked e now c =
     (let left = filter (\<lambda>rk. case fmlookup (m_rules c) rk of None \<Rightarrow> False | Some r \<Rightarrow> ru_FlowSpec r \<and> ru_Pending r = PendingLeft) (sortedKeys (m_rules c));
          (desired, keys, c1) = foldl claim_rule (fmempty, [], c) (sortedKeys (m_rules c));
          leaving = filter (\<lambda>k. case fmlookup (m_fwire c) k of None \<Rightarrow> False
            | Some w \<Rightarrow> (case fmlookup desired k of None \<Rightarrow> True | Some d \<Rightarrow> ru_key (wa_rule d) \<noteq> fw_rule w)) (me_keys e (sortedKeys (m_fwire c)));
          (c2, left2, ops) = foldl (flow_step e now desired leaving) (c1, left, map WopWithdrawFS leaving) (sort keys)
      in (c2, ops))"

text \<open>The first critical section of \<open>Sync\<close>: what is left to do with the state unlocked.\<close>

datatype sync_plan = SyncDone | SyncWithdraw | SyncOps "wireOp list"

definition mit_plan :: "mit_env \<Rightarrow> time \<Rightarrow> mitController \<Rightarrow> mitController \<times> sync_plan" where
  "mit_plan e now c =
     (let c1 = foldl (expire_step now) c (me_keys e (sortedKeys (m_rules c))) in
      if \<not> mit_inject c1 then (settleLocked now c1, SyncDone)
      else if \<not> me_Leader e \<or> \<not> m_rib c1 \<or> \<not> me_Ready e then (c1, SyncWithdraw)
      else let c2 = trackGoneLocked e now c1; (c3, ops1) = planUnicastLocked e now c2; (c4, ops2) = planFlowSpecLocked e now c3
           in (c4, SyncOps (ops1 @ ops2)))"

section \<open>Sync: the calls and their results\<close>

definition op_call :: "wireOp \<Rightarrow> mit_call" where
  "op_call op = (case op of WopWithdraw p \<Rightarrow> MitWithdraw p | WopAnnounce p rt r w \<Rightarrow> MitAnnounce rt | WopWithdrawFS k \<Rightarrow> MitWithdrawFS k
     | WopAnnounceFS k rt r \<Rightarrow> MitAnnounceFS rt)"

text \<open>What is checked before the call of an operation: \<open>None\<close> when the call is made.\<close>

definition op_check :: "mit_env \<Rightarrow> mitController \<Rightarrow> wireOp \<Rightarrow> op_result option" where
  "op_check e c op =
     (case op of
        WopAnnounce p rt r wait \<Rightarrow>
          if wait \<and> m_outbound c \<and> me_outbound e p then Some (OpPending PendingOutbound)
          else if wait \<and> m_inbound c \<and> me_inbound e p then Some (OpPending PendingInbound)
          else None
      | WopWithdrawFS k \<Rightarrow> if \<not> m_fs c then Some (OpErr NoFlowSpecAnnouncer) else None
      | _ \<Rightarrow> None)"

definition op_do :: "mit_env \<Rightarrow> wireOp \<Rightarrow> mitController \<Rightarrow> mitController \<times> op_result" where
  "op_do e op c = (case mit_do e (op_call op) c of (ok, c1) \<Rightarrow> (c1, if ok then OpOk else OpErr (MitCallFailed (op_call op))))"

definition run_op :: "mit_env \<Rightarrow> wireOp \<Rightarrow> mitController \<Rightarrow> mitController \<times> op_result" where
  "run_op e op c = (case op_check e c op of Some res \<Rightarrow> (c, res) | None \<Rightarrow> op_do e op c)"

fun runOps :: "mit_env \<Rightarrow> wireOp list \<Rightarrow> mitController \<Rightarrow> mitController \<times> (wireOp \<times> op_result) list" where
  "runOps e [] c = (c, [])"
| "runOps e (op # ops) c = (let (c1, res) = run_op e op c; (c2, rest) = runOps e ops c1 in (c2, (op, res) # rest))"

definition commit_op :: "wireOp \<times> op_result \<Rightarrow> mitController \<Rightarrow> mitController \<times> mit_error list" where
  "commit_op opr c =
     (case opr of
        (WopWithdraw p, OpErr err) \<Rightarrow> (c, [err])
      | (WopWithdraw p, _) \<Rightarrow> (c\<lparr>m_wire := fmdrop p (m_wire c)\<rparr>, [])
      | (WopAnnounce p rt r wait, res) \<Rightarrow>
          (let c1 = c\<lparr>m_inflight := m_inflight c - {p}\<rparr> in
           case res of
             OpPending why \<Rightarrow> (set_Pending r why c1, [])
           | OpErr err \<Rightarrow> (set_Pending r (PendingError err) c1, [err])
           | OpOk \<Rightarrow> ((set_Pending r NoPending c1)\<lparr>m_wire := fmupd p (r\<lparr>ru_Pending := NoPending\<rparr>) (m_wire c1)\<rparr>, []))
      | (WopWithdrawFS k, OpErr err) \<Rightarrow> (c, [err])
      | (WopWithdrawFS k, _) \<Rightarrow> (c\<lparr>m_fwire := fmdrop k (m_fwire c)\<rparr>, [])
      | (WopAnnounceFS k rt r, OpErr err) \<Rightarrow> (set_Pending r (PendingError err) c, [err])
      | (WopAnnounceFS k rt r, _) \<Rightarrow> (c\<lparr>m_fwire := fmupd k \<lparr>fw_rule = ru_key r, fw_route = rt\<rparr> (m_fwire c)\<rparr>, []))"

definition commitLocked :: "(wireOp \<times> op_result) list \<Rightarrow> mitController \<Rightarrow> mitController \<times> mit_error list" where
  "commitLocked oprs c = foldl (\<lambda>(c, errs) opr. case commit_op opr c of (c1, es) \<Rightarrow> (c1, errs @ es)) (c, []) oprs"

definition clear_wire :: "mitController \<Rightarrow> mitController" where
  "clear_wire c = c\<lparr>m_wire := fmempty, m_fwire := fmempty, m_gone := fmempty\<rparr>"

definition withdrawAllWire :: "mit_env \<Rightarrow> mitController \<Rightarrow> mitController \<times> mit_error list" where
  "withdrawAllWire e c =
     (if fmlen (m_wire c) + fmlen (m_fwire c) = 0 then (c, [])
      else case mit_do e MitWithdrawAll c of
        (False, c1) \<Rightarrow> (c1, [MitCallFailed MitWithdrawAll])
      | (True, c1) \<Rightarrow> (clear_wire c1, []))"

definition mit_Sync :: "mit_env \<Rightarrow> time \<Rightarrow> mitController \<Rightarrow> mitController \<times> mit_error list" where
  "mit_Sync e now c =
     (case mit_plan e now c of
        (c1, SyncDone) \<Rightarrow> (c1, [])
      | (c1, SyncWithdraw) \<Rightarrow> (case withdrawAllWire e c1 of (c2, errs) \<Rightarrow> (settleLocked now c2, errs))
      | (c1, SyncOps ops) \<Rightarrow>
          (case runOps e ops c1 of (c2, oprs) \<Rightarrow> (case commitLocked oprs c2 of (c3, errs) \<Rightarrow> (settleLocked now c3, errs))))"

section \<open>Withdrawing, reloading, reporting\<close>

definition mit_WithdrawAll :: "mit_env \<Rightarrow> time \<Rightarrow> mitController \<Rightarrow> mitController \<times> mit_error list" where
  "mit_WithdrawAll e now c =
     (if \<not> m_ann c then (c, [])
      else case (if mit_inject c then withdrawAllWire e c else (c, [])) of (c1, errs) \<Rightarrow> (settleLocked now c1, errs))"

text \<open>The last critical section of \<open>ApplyRuntime\<close>, after the withdrawal succeeded.\<close>

definition mit_enter :: "mit_env \<Rightarrow> time \<Rightarrow> string \<Rightarrow> mitController \<Rightarrow> mitController \<times> mit_error list" where
  "mit_enter e now mode c =
     (let entering = (\<not> mit_inject c \<and> mode = ''inject'') in
      case (if entering then checkEnterLocked c else None) of
        Some err \<Rightarrow> (settleLocked now c, [err])
      | None \<Rightarrow>
          (let c1 = (if entering then foldl (drop_rule now ChangeRemoved DroppedByMode) c (me_keys e (sortedKeys (m_rules c))) else c)
           in (settleLocked now (c1\<lparr>m_cfg := (m_cfg c1)\<lparr>mf_Mode := mode\<rparr>\<rparr>), [])))"

definition mit_ApplyRuntime :: "mit_env \<Rightarrow> time \<Rightarrow> string \<Rightarrow> mitController \<Rightarrow> mitController \<times> mit_error list" where
  "mit_ApplyRuntime e now mode c =
     (case (if mit_inject c \<and> mode \<noteq> ''inject'' then withdrawAllWire e c else (c, [])) of
        (c1, []) \<Rightarrow> mit_enter e now mode c1
      | (c1, errs) \<Rightarrow> (settleLocked now c1, errs))"

record mitStatus =
  ms_Mode :: string
  ms_MaxRules :: int
  ms_Routes :: int
  ms_OnWire :: int
  ms_Allowlist :: "string list"
  ms_Catalog :: MitigationCatalog
  ms_FlowSpec :: FlowSpecCatalog
  ms_GeoIP :: bool
  ms_Rules :: "Rule list"
  ms_Feed :: "mitChange list"

definition rule_less :: "Rule \<Rightarrow> Rule \<Rightarrow> bool" where
  "rule_less a b = (if ru_Prefix a \<noteq> ru_Prefix b then Less (ru_Prefix a) (ru_Prefix b) else ru_key a < ru_key b)"

definition mit_Status :: "mitController \<Rightarrow> mitStatus" where
  "mit_Status c =
     \<lparr>ms_Mode = mf_Mode (m_cfg c), ms_MaxRules = mf_MaxRules (m_cfg c), ms_Routes = held_routes (m_rules c),
      ms_OnWire = int (fmlen (m_wire c) + fmlen (m_fwire c)), ms_Allowlist = map Prefix_String (mf_Allowlist (m_cfg c)), ms_Catalog = m_catalog c,
      ms_FlowSpec = m_fsCat c, ms_GeoIP = (mf_Geo (m_cfg c) \<noteq> None),
      ms_Rules = map (view c) (sort_by rule_less (List.map_filter (fmlookup (m_rules c)) (sortedKeys (m_rules c)))),
      ms_Feed = rev (m_feed c)\<rparr>"

record MitigationRecord =
  mx_ID :: string
  mx_Prefix :: prefix
  mx_Action :: string
  mx_Target :: string
  mx_Match :: string
  mx_Countries :: string
  mx_RateMbps :: float64
  mx_Routes :: int
  mx_Reason :: string
  mx_Mode :: string
  mx_Created :: time
  mx_Expires :: time
  mx_Announced :: time
  mx_End :: time
  mx_EndReason :: "(change_kind \<times> change_detail) option"

definition Record :: "mitChange \<Rightarrow> MitigationRecord" where
  "Record ch =
     (let r = mh_Rule ch in
      \<lparr>mx_ID = ru_ID r, mx_Prefix = ru_Prefix r, mx_Action = ru_Action r, mx_Target = ru_Target r, mx_Match = MatchText r,
       mx_Countries = Join (ru_Countries r) '','', mx_RateMbps = ru_RateMbps r, mx_Routes = ru_Routes r, mx_Reason = ru_Reason r,
       mx_Mode = mh_Mode ch, mx_Created = ru_Created r, mx_Expires = ru_Expires r, mx_Announced = ru_FirstAnnounced r,
       mx_End = (if Ends ch then mh_Time ch else 0), mx_EndReason = (if Ends ch then Some (mh_Kind ch, mh_Detail ch) else None)\<rparr>)"

end
