(* ===== verification/Mitigation_Run.thy ===== *)
theory Mitigation_Run
  imports Mitigation
begin

text \<open>
  The mitigation controller under concurrency. \<open>Sync\<close>, \<open>WithdrawAll\<close> and \<open>ApplyRuntime\<close> are serialized by the wire lock, but
  release the state around every call; \<open>Add\<close> and \<open>Remove\<close> can run there. The machine of this theory has one step per critical section
  and per call.
\<close>

section \<open>What the bookkeeping leaves alone\<close>

text \<open>A rule without the fields that are updated in place.\<close>

definition core :: "Rule \<Rightarrow> Rule" where
  "core r = r\<lparr>ru_Pending := NoPending, ru_live := False, ru_FirstAnnounced := 0\<rparr>"

lemma core_simps [simp]:
  "ru_key (core r) = ru_key r" "ru_Prefix (core r) = ru_Prefix r" "ru_Action (core r) = ru_Action r" "ru_Target (core r) = ru_Target r"
  "ru_Routes (core r) = ru_Routes r" "ru_Expires (core r) = ru_Expires r" "ru_Created (core r) = ru_Created r" "ru_ref (core r) = ru_ref r"
  "ru_Match (core r) = ru_Match r" "ru_Sources (core r) = ru_Sources r" "ru_Countries (core r) = ru_Countries r" "ru_RateMbps (core r) = ru_RateMbps r"
  "ru_FlowSpec (core r) = ru_FlowSpec r" "flowRoutes cfg (core r) = flowRoutes cfg r" "ru_ID (core r) = ru_ID r"
  by (simp_all add: core_def ru_FlowSpec_def flowRoutes_def Let_def)

lemma core_updates [simp]: "core (r\<lparr>ru_Pending := x\<rparr>) = core r" "core (r\<lparr>ru_live := b\<rparr>) = core r" "core (r\<lparr>ru_FirstAnnounced := t\<rparr>) = core r"
  "core (r\<lparr>ru_live := b, ru_FirstAnnounced := t\<rparr>) = core r"
  by (simp_all add: core_def)

lemma core_id: "ru_Pending r = NoPending \<Longrightarrow> \<not> ru_live r \<Longrightarrow> ru_FirstAnnounced r = 0 \<Longrightarrow> core r = r"
  by (cases r) (simp add: core_def)

definition rule_cores :: "mitController \<Rightarrow> (string, Rule) fmap" where
  "rule_cores c = fmmap core (m_rules c)"

text \<open>What stays when only the feed, the counter and those fields change; \<open>wire_part\<close> leaves the rules out too.\<close>

definition fixed_part where
  "fixed_part c = (m_cfg c, m_ann c, m_fs c, m_catalog c, m_fsCat c, m_rib c, m_outbound c, m_inbound c)"

definition wire_part where
  "wire_part c = (fixed_part c, m_wire c, m_fwire c, m_inflight c, m_log c)"

definition frame where
  "frame c = (wire_part c, m_gone c, rule_cores c, m_refs c)"

lemma fixed_partD:
  "fixed_part c = fixed_part c' \<Longrightarrow> m_cfg c = m_cfg c' \<and> m_ann c = m_ann c' \<and> m_fs c = m_fs c' \<and> m_catalog c = m_catalog c' \<and>
    m_fsCat c = m_fsCat c' \<and> m_rib c = m_rib c' \<and> m_outbound c = m_outbound c' \<and> m_inbound c = m_inbound c'"
  by (simp add: fixed_part_def)

lemma wire_partD:
  "wire_part c = wire_part c' \<Longrightarrow> fixed_part c = fixed_part c' \<and> m_wire c = m_wire c' \<and> m_fwire c = m_fwire c' \<and> m_inflight c = m_inflight c' \<and> m_log c = m_log c'"
  by (simp add: wire_part_def)

lemma frameD: "frame c = frame c' \<Longrightarrow> wire_part c = wire_part c' \<and> m_gone c = m_gone c' \<and> rule_cores c = rule_cores c' \<and> m_refs c = m_refs c'"
  by (simp add: frame_def)

lemma rule_cores_lookup: "fmlookup (rule_cores c) k = map_option core (fmlookup (m_rules c) k)"
  by (simp add: rule_cores_def)

lemma rule_cores_dom: "fmdom' (rule_cores c) = fmdom' (m_rules c)"
  by (simp add: rule_cores_def)

lemma rule_cores_upd_same:
  "fmlookup (m_rules c) k = Some r \<Longrightarrow> core r' = core r \<Longrightarrow> fmmap core (fmupd k r' (m_rules c)) = rule_cores c"
  by (intro fmap_ext) (auto simp: rule_cores_def)

lemma mit_inject_cong: "m_cfg c = m_cfg c' \<Longrightarrow> mit_inject c = mit_inject c'"
  by (simp add: mit_inject_def)

lemma changeLocked_simps [simp]:
  "m_rules (changeLocked now kind r d c) = m_rules c" "wire_part (changeLocked now kind r d c) = wire_part c"
  "m_gone (changeLocked now kind r d c) = m_gone c" "m_refs (changeLocked now kind r d c) = m_refs c"
  "frame (changeLocked now kind r d c) = frame c" "rule_cores (changeLocked now kind r d c) = rule_cores c"
  "m_cfg (changeLocked now kind r d c) = m_cfg c"
  by (simp_all add: changeLocked_def Let_def wire_part_def fixed_part_def frame_def rule_cores_def)

lemma set_Pending_frame [simp]: "frame (set_Pending r why c) = frame c"
proof (cases "\<exists>x. fmlookup (m_rules c) (ru_key r) = Some x \<and> ru_ref x = ru_ref r")
  case True
  then obtain x where x: "fmlookup (m_rules c) (ru_key r) = Some x" "ru_ref x = ru_ref r" by blast
  have "fmmap core (fmupd (ru_key r) (x\<lparr>ru_Pending := why\<rparr>) (m_rules c)) = rule_cores c" by (rule rule_cores_upd_same [OF x(1)]) simp
  with x show ?thesis by (simp add: set_Pending_def frame_def wire_part_def fixed_part_def) (simp add: rule_cores_def)
next
  case False
  then have "set_Pending r why c = c" by (auto simp: set_Pending_def split: option.splits)
  then show ?thesis by simp
qed

lemma settle_step_frame: "frame (settle_step now c k) = frame c"
proof (cases "fmlookup (m_rules c) k")
  case (Some r)
  have up: "frame (c\<lparr>m_rules := fmupd k r' (m_rules c)\<rparr>) = frame c" if "core r' = core r" for r'
    using rule_cores_upd_same [OF Some that] by (simp add: frame_def wire_part_def fixed_part_def) (simp add: rule_cores_def)
  show ?thesis
  proof (cases "announcedLocked c r = ru_live r")
    case False
    then show ?thesis using Some by (cases "announcedLocked c r") (simp_all add: settle_step_def Let_def up)
  qed (use Some in \<open>simp add: settle_step_def Let_def\<close>)
qed (simp add: settle_step_def)

lemma settleLocked_frame [simp]: "frame (settleLocked now c) = frame c"
proof -
  have "frame (foldl (settle_step now) c ks) = frame c" for c ks
    by (induction ks arbitrary: c) (simp_all add: settle_step_frame)
  then show ?thesis by (simp add: settleLocked_def Let_def frame_def wire_part_def fixed_part_def rule_cores_def)
qed

lemma rules_upd_simps [simp]:
  "wire_part (c\<lparr>m_rules := m\<rparr>) = wire_part c" "rule_cores (c\<lparr>m_rules := m\<rparr>) = fmmap core m" "fixed_part (c\<lparr>m_rules := m\<rparr>) = fixed_part c"
  by (simp_all add: wire_part_def fixed_part_def rule_cores_def)

lemma drop_rule_parts: "wire_part (drop_rule now kind d c k) = wire_part c" "m_gone (drop_rule now kind d c k) = m_gone c"
  "m_refs (drop_rule now kind d c k) = m_refs c" "rule_cores (drop_rule now kind d c k) = fmdrop k (rule_cores c)"
  by (auto simp: drop_rule_def rule_cores_lookup intro!: fmap_ext split: option.splits)

text \<open>Rules only leave.\<close>

definition fewer_rules :: "mitController \<Rightarrow> mitController \<Rightarrow> bool" where
  "fewer_rules c c' \<longleftrightarrow> wire_part c' = wire_part c \<and> m_gone c' = m_gone c \<and> m_refs c' = m_refs c \<and>
     (\<forall>k r. fmlookup (rule_cores c') k = Some r \<longrightarrow> fmlookup (rule_cores c) k = Some r)"

lemma fewer_rules_refl [simp]: "fewer_rules c c"
  by (simp add: fewer_rules_def)

lemma fewer_rules_trans: "fewer_rules a b \<Longrightarrow> fewer_rules b c \<Longrightarrow> fewer_rules a c"
  by (auto simp: fewer_rules_def)

lemma fewer_frame: "frame c' = frame c \<Longrightarrow> fewer_rules c c'"
  by (auto simp: fewer_rules_def dest: frameD)

lemma fewer_rules_drop: "fewer_rules c (drop_rule now kind d c k)"
  by (auto simp: fewer_rules_def drop_rule_parts split: if_splits)

lemma fewer_expire: "fewer_rules c (expire_step now c k)"
  by (auto simp: expire_step_def fewer_rules_drop split: option.splits)

lemma fewer_fold: "(\<And>c x. fewer_rules c (f c x)) \<Longrightarrow> fewer_rules c (foldl f c xs)"
  by (induction xs arbitrary: c) (auto intro: fewer_rules_trans)

lemmas fewer_expired = fewer_fold [of "expire_step now" for now, OF fewer_expire]
  and fewer_dropped = fewer_fold [of "drop_rule now kind d" for now kind d, OF fewer_rules_drop]

lemma fewer_settle: "fewer_rules c c' \<Longrightarrow> fewer_rules c (settleLocked now c')"
  by (rule fewer_rules_trans [OF _ fewer_frame]) simp_all

section \<open>The rules\<close>

definition unicast_ok :: "mitController \<Rightarrow> Rule \<Rightarrow> bool" where
  "unicast_ok c r \<longleftrightarrow> ru_Action r = MitigationBlackhole \<and> ru_Target r = [] \<and> (m_ann c \<longrightarrow> mc_Blackhole (m_catalog c)) \<or>
     ru_Action r = MitigationRedirect \<and> m_ann c \<and> (\<exists>t. catalog_Target (m_catalog c) (ru_Target r) = Some t \<and> Is4 (mt_NextHop t) = Is4 (Addr (ru_Prefix r)))"

text \<open>The target and the rate that go with a FlowSpec action.\<close>

definition fs_action_ok :: "mitController \<Rightarrow> string \<Rightarrow> string \<Rightarrow> float64 \<Rightarrow> bool" where
  "fs_action_ok c action target rate \<longleftrightarrow>
     (if action = MitigationFlowSpecRedirect then m_ann c \<and> flow_Target (m_fsCat c) target \<noteq> None \<and> rate = 0
      else if action = MitigationFlowSpecRateLimit then target = [] \<and> 0 < rate \<and> rate \<le> MaxFlowSpecRateMbps
      else target = [] \<and> rate = 0)"

definition rule_ok :: "mitController \<Rightarrow> Rule \<Rightarrow> bool" where
  "rule_ok c r \<longleftrightarrow>
     ru_key r = (if ru_FlowSpec r then flowKey r else unicastKey (ru_Prefix r)) \<and>
     Masked (ru_Prefix r) = ru_Prefix r \<and> 0 < Bits (ru_Prefix r) \<and> CoveredBy (mf_Allowlist (m_cfg c)) (ru_Prefix r) \<and>
     MinMitigationTTL \<le> ru_Expires r - ru_Created r \<and> ru_Expires r - ru_Created r \<le> mf_MaxTTL (m_cfg c) \<and>
     ru_Routes r = int (length (flowRoutes (m_cfg c) r)) \<and>
     (if ru_FlowSpec r then (\<exists>m. ru_Match r = Some m \<and> match_Validate m (ru_Prefix r) = None) \<and>
        fs_action_ok c (ru_Action r) (ru_Target r) (ru_RateMbps r)
      else unicast_ok c r)"

lemma core_more [simp]: "flowKey (core r) = flowKey r" "unicast_ok c (core r) = unicast_ok c r" "rule_ok c (core r) = rule_ok c r"
  by (simp_all add: flowKey_def MatchText_def unicast_ok_def rule_ok_def)

lemma rule_ok_cong:
  "fixed_part c' = fixed_part c \<Longrightarrow> rule_ok c' r = rule_ok c r"
  by (drule fixed_partD) (simp add: rule_ok_def unicast_ok_def fs_action_ok_def)

lemma flowRoutes_length: "length (flowRoutes cfg r) = (if ru_Sources r = [] then 1 else length (ru_Sources r))"
  by (simp add: flowRoutes_def Let_def)

lemma country_rule_cases:
  assumes "country_rule c req m r = Inr r1"
  shows "r1 = r \<or> (\<exists>cs ns. ns \<noteq> [] \<and> r1 = r\<lparr>ru_Countries := cs, ru_Sources := ns, ru_Routes := int (length ns)\<rparr>)"
  using assms by (auto simp: country_rule_def Let_def split: if_splits option.splits sum.splits)

lemma flowSpecRule_cases:
  assumes "flowSpecRule c req r = Inr r1" "ru_Sources r = []" "ru_Routes r = 1"
  obtains m target rate cs ns where "match_Validate m (rq_Prefix req) = None" "flow_action c req = Inr (target, rate)"
    "r1 = r\<lparr>ru_RouteTarget := target, ru_RateMbps := rate, ru_Countries := cs, ru_Sources := ns, ru_Match := Some m,
            ru_Routes := int (if ns = [] then 1 else length ns)\<rparr>"
proof -
  let ?m = "match_Normalize (rq_Match req)"
  have "\<not> (m_ann c \<and> \<not> fc_Enabled (m_fsCat c))" using assms(1) by (auto simp: flowSpecRule_def split: if_splits)
  then obtain target rate where act: "flow_action c req = Inr (target, rate)"
    using assms(1) unfolding flowSpecRule_def by (cases "flow_action c req") auto
  have valid: "match_Validate ?m (rq_Prefix req) = None"
    using assms(1) act \<open>\<not> _\<close> unfolding flowSpecRule_def by (cases "match_Validate ?m (rq_Prefix req)") (auto simp: Let_def)
  obtain r2 where r2: "country_rule c req ?m (r\<lparr>ru_RouteTarget := target, ru_RateMbps := rate\<rparr>) = Inr r2" "r1 = r2\<lparr>ru_Match := Some ?m\<rparr>"
    using assms(1) act valid \<open>\<not> _\<close> unfolding flowSpecRule_def
    by (cases "country_rule c req ?m (r\<lparr>ru_RouteTarget := target, ru_RateMbps := rate\<rparr>)") (auto simp: Let_def)
  from country_rule_cases [OF r2(1)] show thesis
  proof (elim disjE exE conjE)
    assume "r2 = r\<lparr>ru_RouteTarget := target, ru_RateMbps := rate\<rparr>"
    then show thesis using r2(2) valid act assms(2,3) by (intro that [where m = ?m and target = target and rate = rate and cs = "ru_Countries r" and ns = "[]"]) (cases r; simp)+
  next
    fix cs ns assume "ns \<noteq> []" "r2 = r\<lparr>ru_RouteTarget := target, ru_RateMbps := rate, ru_Countries := cs, ru_Sources := ns, ru_Routes := int (length ns)\<rparr>"
    then show thesis using r2(2) valid act by (intro that [where m = ?m and target = target and rate = rate and cs = cs and ns = ns]) simp_all
  qed
qed

lemma flow_action_ok: "flow_action c req = Inr (target, rate) \<Longrightarrow> fs_action_ok c (rq_Action req) (rq_Target req) rate"
  by (auto simp: flow_action_def fs_action_ok_def split: if_splits option.splits)

lemma unicastNextHop_ok:
  assumes "unicastNextHop c req = Inr nh" "ru_Action r = rq_Action req" "ru_Target r = rq_Target req" "ru_Prefix r = rq_Prefix req"
  shows "unicast_ok c r"
  using assms by (auto simp: unicastNextHop_def unicast_ok_def Let_def split: if_splits option.splits)

definition make_checks :: "mitController \<Rightarrow> Request \<Rightarrow> duration \<Rightarrow> bool" where
  "make_checks c req ttl \<longleftrightarrow> IsValid (rq_Prefix req) \<and> rq_Prefix req = Masked (rq_Prefix req) \<and> Bits (rq_Prefix req) \<noteq> 0 \<and>
     CoveredBy (mf_Allowlist (m_cfg c)) (rq_Prefix req) \<and> \<not> length (rq_Reason req) > 256 \<and> \<not> (ttl < MinMitigationTTL \<or> ttl > mf_MaxTTL (m_cfg c))"

lemma make_rule_checked:
  assumes "make_rule c i req now = Inr r"
  defines "ttl \<equiv> if rq_TTL req = 0 then mf_DefaultTTL (m_cfg c) else rq_TTL req"
  shows "make_checks c req ttl"
  using assms(1) unfolding make_rule_def make_checks_def ttl_def [symmetric] Let_def by (auto split: if_splits)

lemma make_rule_ok:
  assumes "make_rule c i req now = Inr r"
  shows "rule_ok c r \<and> ru_ref r = m_refs c \<and> core r = r \<and> ru_Prefix r = rq_Prefix req"
proof -
  define ttl where "ttl = (if rq_TTL req = 0 then mf_DefaultTTL (m_cfg c) else rq_TTL req)"
  define r0 where "r0 = new_rule c i req now ttl"
  have ck: "make_checks c req ttl" using make_rule_checked [OF assms] by (simp add: ttl_def)
  have r0: "ru_Prefix r0 = rq_Prefix req" "ru_Action r0 = rq_Action req" "ru_Target r0 = rq_Target req" "ru_Sources r0 = []" "ru_Routes r0 = 1"
    "ru_Created r0 = now" "ru_Expires r0 = now + ttl" "ru_ref r0 = m_refs c"
    "ru_Pending r0 = NoPending" "\<not> ru_live r0" "ru_FirstAnnounced r0 = 0"
    by (simp_all add: r0_def new_rule_def)
  have base: "0 < Bits (rq_Prefix req)" using ck by (simp add: make_checks_def IsValid_def)
  have body: "(if IsFlowSpec (rq_Action req) then (case flowSpecRule c req r0 of Inl err \<Rightarrow> Inl err | Inr r1 \<Rightarrow> Inr (r1\<lparr>ru_key := flowKey r1\<rparr>))
      else if match_Key (rq_Match req) \<noteq> [] \<or> rq_Countries req \<noteq> [] \<or> rq_RateMbps req \<noteq> 0 then Inl FlowSpecOnly
      else case unicastNextHop c req of Inl err \<Rightarrow> Inl err | Inr nh \<Rightarrow> Inr (r0\<lparr>ru_NextHop := nh, ru_key := unicastKey (rq_Prefix req)\<rparr>)) = Inr r"
    using assms ck unfolding make_rule_def Let_def ttl_def [symmetric] r0_def [symmetric] make_checks_def by (simp split del: if_split)
  show ?thesis
  proof (cases "IsFlowSpec (rq_Action req)")
    case True
    with body obtain r1 where r1: "flowSpecRule c req r0 = Inr r1" "r = r1\<lparr>ru_key := flowKey r1\<rparr>" by (auto split: sum.splits)
    obtain m target rate cs ns where m: "match_Validate m (rq_Prefix req) = None" "flow_action c req = Inr (target, rate)"
      "r1 = r0\<lparr>ru_RouteTarget := target, ru_RateMbps := rate, ru_Countries := cs, ru_Sources := ns, ru_Match := Some m, ru_Routes := int (if ns = [] then 1 else length ns)\<rparr>"
      by (rule flowSpecRule_cases [OF r1(1) r0(4,5)])
    have fs: "ru_FlowSpec r" using True r1(2) m(3) r0(2) by (simp add: ru_FlowSpec_def)
    have "ru_key r = flowKey r" using r1(2) by (simp add: flowKey_def MatchText_def)
    moreover have "core r = r" using r1(2) m(3) r0 by (intro core_id) simp_all
    ultimately show ?thesis using fs r1(2) m r0 ck base flow_action_ok [OF m(2)] by (simp add: rule_ok_def flowRoutes_length make_checks_def)
  next
    case False
    with body obtain nh where nh: "unicastNextHop c req = Inr nh" "r = r0\<lparr>ru_NextHop := nh, ru_key := unicastKey (rq_Prefix req)\<rparr>"
      by (auto split: sum.splits if_splits)
    have "unicast_ok c r" using nh r0 by (intro unicastNextHop_ok [OF nh(1)]) simp_all
    moreover have "\<not> ru_FlowSpec r" using False nh(2) r0(2) by (simp add: ru_FlowSpec_def)
    moreover have "core r = r" using nh(2) r0 by (intro core_id) simp_all
    ultimately show ?thesis using nh(2) r0 ck base by (simp add: rule_ok_def flowRoutes_length make_checks_def)
  qed
qed

text \<open>The routes that the rules stand for, and the invariant of the rules.\<close>

definition route_keys :: "mitController \<Rightarrow> Rule \<Rightarrow> string set" where
  "route_keys c r = route_Key ` set (flowRoutes (m_cfg c) r)"

definition rules_inv :: "mitController \<Rightarrow> bool" where
  "rules_inv c \<longleftrightarrow>
     (\<forall>k r. fmlookup (rule_cores c) k = Some r \<longrightarrow> ru_key r = k \<and> rule_ok c r \<and> ru_ref r < m_refs c) \<and>
     (\<Sum>k \<in> fmdom' (rule_cores c). ru_Routes (the (fmlookup (rule_cores c) k))) \<le> mf_MaxRules (m_cfg c) \<and>
     (\<forall>k k' r r'. fmlookup (rule_cores c) k = Some r \<longrightarrow> fmlookup (rule_cores c) k' = Some r' \<longrightarrow> k \<noteq> k' \<longrightarrow>
        ru_FlowSpec r \<longrightarrow> ru_FlowSpec r' \<longrightarrow> route_keys c r \<inter> route_keys c r' = {})"

lemma rules_invD:
  assumes "rules_inv c" "fmlookup (m_rules c) k = Some r"
  shows "ru_key r = k" "rule_ok c r" "ru_ref r < m_refs c"
proof -
  have "fmlookup (rule_cores c) k = Some (core r)" using assms(2) by (simp add: rule_cores_lookup)
  with assms(1) have "ru_key (core r) = k \<and> rule_ok c (core r) \<and> ru_ref (core r) < m_refs c" unfolding rules_inv_def by blast
  then show "ru_key r = k" "rule_ok c r" "ru_ref r < m_refs c" by simp_all
qed

lemma route_keys_cong: "m_cfg c' = m_cfg c \<Longrightarrow> route_keys c' r = route_keys c r"
  by (simp add: route_keys_def)

lemma route_keys_core [simp]: "route_keys c (core r) = route_keys c r"
  by (simp add: route_keys_def)

lemma rules_apart:
  assumes "rules_inv c" "fmlookup (m_rules c) k = Some r" "fmlookup (m_rules c) k' = Some r'" "k \<noteq> k'" "ru_FlowSpec r" "ru_FlowSpec r'"
  shows "route_keys c r \<inter> route_keys c r' = {}"
proof -
  have "fmlookup (rule_cores c) k = Some (core r)" "fmlookup (rule_cores c) k' = Some (core r')" using assms(2,3) by (simp_all add: rule_cores_lookup)
  with assms(1,4-6) have "route_keys c (core r) \<inter> route_keys c (core r') = {}" unfolding rules_inv_def by (metis core_simps(13))
  then show ?thesis by simp
qed

lemma rules_inv_cong:
  assumes fx: "fixed_part c' = fixed_part c" "rule_cores c' = rule_cores c" "m_refs c' = m_refs c"
  shows "rules_inv c' = rules_inv c"
proof -
  have cfg: "m_cfg c' = m_cfg c" using fixed_partD [OF fx(1)] by simp
  show ?thesis unfolding rules_inv_def fx(2,3) rule_ok_cong [OF fx(1)] route_keys_cong [OF cfg] cfg ..
qed

lemma rules_inv_frame: "frame c' = frame c \<Longrightarrow> rules_inv c' = rules_inv c"
  by (rule rules_inv_cong) (auto dest: frameD wire_partD)

lemma rule_ok_routes: "rule_ok c r \<Longrightarrow> 1 \<le> ru_Routes r"
proof -
  have "1 \<le> length (flowRoutes (m_cfg c) r)" by (cases "ru_Sources r") (simp_all add: flowRoutes_length)
  then show "rule_ok c r \<Longrightarrow> 1 \<le> ru_Routes r" by (simp add: rule_ok_def)
qed

lemma rules_inv_fewer:
  assumes "fewer_rules c c'" "rules_inv c"
  shows "rules_inv c'"
proof -
  have fx: "fixed_part c' = fixed_part c" "m_refs c' = m_refs c"
    and sub: "fmlookup (rule_cores c') k = Some r \<Longrightarrow> fmlookup (rule_cores c) k = Some r" for k r
    using assms(1) by (auto simp: fewer_rules_def dest: wire_partD)
  have cfg: "m_cfg c' = m_cfg c" using fixed_partD [OF fx(1)] by simp
  have dom: "fmdom' (rule_cores c') \<subseteq> fmdom' (rule_cores c)" using sub by (auto simp: fmdom'_iff)
  have "(\<Sum>k \<in> fmdom' (rule_cores c'). ru_Routes (the (fmlookup (rule_cores c') k))) = (\<Sum>k \<in> fmdom' (rule_cores c'). ru_Routes (the (fmlookup (rule_cores c) k)))"
    by (rule sum.cong) (auto simp: fmdom'_iff sub)
  also have "\<dots> \<le> (\<Sum>k \<in> fmdom' (rule_cores c). ru_Routes (the (fmlookup (rule_cores c) k)))"
  proof (rule sum_mono2 [OF finite_fmdom' dom])
    fix k assume "k \<in> fmdom' (rule_cores c) - fmdom' (rule_cores c')"
    then obtain r where "fmlookup (rule_cores c) k = Some r" by (auto simp: fmdom'_iff)
    moreover from this have "rule_ok c r" using assms(2) unfolding rules_inv_def by blast
    ultimately show "0 \<le> ru_Routes (the (fmlookup (rule_cores c) k))" using rule_ok_routes by fastforce
  qed
  also have "\<dots> \<le> mf_MaxRules (m_cfg c)" using assms(2) by (simp add: rules_inv_def)
  finally have "(\<Sum>k \<in> fmdom' (rule_cores c'). ru_Routes (the (fmlookup (rule_cores c') k))) \<le> mf_MaxRules (m_cfg c')" by (simp add: cfg)
  moreover have "\<forall>k r. fmlookup (rule_cores c') k = Some r \<longrightarrow> ru_key r = k \<and> rule_ok c' r \<and> ru_ref r < m_refs c'"
    using assms(2) unfolding rules_inv_def rule_ok_cong [OF fx(1)] fx(2) by (blast dest: sub)
  moreover have "route_keys c' r \<inter> route_keys c' r' = {}" if "fmlookup (rule_cores c') k = Some r" "fmlookup (rule_cores c') k' = Some r'"
      "k \<noteq> k'" "ru_FlowSpec r" "ru_FlowSpec r'" for k k' r r'
    using assms(2) sub [OF that(1)] sub [OF that(2)] that(3-5) unfolding rules_inv_def route_keys_cong [OF cfg] by blast
  ultimately show ?thesis unfolding rules_inv_def by blast
qed

lemma held_routes_sum: "held_routes m = (\<Sum>k \<in> fmdom' m. ru_Routes (the (fmlookup m k)))"
proof -
  have "held_routes m = (\<Sum>k \<in> set (sortedKeys m). case fmlookup m k of None \<Rightarrow> 0 | Some r \<Rightarrow> ru_Routes r)"
    unfolding held_routes_def by (rule sum_list_distinct_conv_sum_set) simp
  also have "\<dots> = (\<Sum>k \<in> fmdom' m. ru_Routes (the (fmlookup m k)))"
    by (rule sum.cong) (auto simp: fmdom'_iff)
  finally show ?thesis .
qed

lemma flowConflict_None:
  assumes "flowConflictLocked c r = None" "fmlookup (m_rules c) k = Some x" "k \<noteq> ru_key r" "ru_FlowSpec x"
  shows "route_keys c x \<inter> route_keys c r = {}"
proof -
  let ?mine = "map route_Key (flowRoutes (m_cfg c) r)" and ?xs = "map route_Key (flowRoutes (m_cfg c) x)"
  have "find (\<lambda>rk. rk \<in> set ?mine) ?xs = None"
  proof (rule ccontr)
    assume "\<not> ?thesis"
    then obtain rk where rk: "find (\<lambda>rk. rk \<in> set ?mine) ?xs = Some rk" by blast
    have "k \<in> set (sortedKeys (m_rules c))" using assms(2) by (simp add: fmdom'_iff)
    then show False using assms rk
      by (auto simp: flowConflictLocked_def Let_def List.map_filter_def filter_empty_conv split: list.splits)
  qed
  then show ?thesis by (auto simp: find_None_iff route_keys_def)
qed

lemma insert_rule_parts:
  "wire_part (insert_rule c r now) = wire_part c" "m_gone (insert_rule c r now) = m_gone c" "m_refs (insert_rule c r now) = Suc (m_refs c)"
  "rule_cores (insert_rule c r now) = fmupd (ru_key r) (core r) (rule_cores c)"
proof -
  let ?c1 = "case fmlookup (m_rules c) (ru_key r) of None \<Rightarrow> c | Some old \<Rightarrow> changeLocked now ChangeReplaced old (ReplacedBy (ru_ID r)) c"
  have c1: "frame ?c1 = frame c" "m_rules ?c1 = m_rules c" by (simp_all split: option.splits)
  have w: "wire_part (x\<lparr>m_rules := m, m_refs := n\<rparr>) = wire_part x" for x m n by (simp add: wire_part_def fixed_part_def)
  show "wire_part (insert_rule c r now) = wire_part c" "m_gone (insert_rule c r now) = m_gone c" "m_refs (insert_rule c r now) = Suc (m_refs c)"
    using frameD [OF c1(1)] by (simp_all add: insert_rule_def Let_def w)
  show "rule_cores (insert_rule c r now) = fmupd (ru_key r) (core r) (rule_cores c)"
    unfolding insert_rule_def Let_def c1(2) by (intro fmap_ext) (simp add: rule_cores_def)
qed

lemma rules_inv_insert:
  assumes "rules_inv c" "make_rule c i req t = Inr r" "ru_FlowSpec r \<longrightarrow> flowConflictLocked c r = None"
    and "held_routes (fmdrop (ru_key r) (m_rules c)) + ru_Routes r \<le> mf_MaxRules (m_cfg c)"
  shows "rules_inv (insert_rule c r now)"
proof -
  let ?c' = "insert_rule c r now" and ?k = "ru_key r"
  note r = make_rule_ok [OF assms(2)] and parts = insert_rule_parts [of c r now]
  have fx: "fixed_part ?c' = fixed_part c" using parts(1) by (auto dest: wire_partD)
  have cfg: "m_cfg ?c' = m_cfg c" using fixed_partD [OF fx] by simp
  have look: "fmlookup (rule_cores ?c') k = (if k = ?k then Some r else fmlookup (rule_cores c) k)" for k using r by (simp add: parts(4))
  have "\<forall>k x. fmlookup (rule_cores ?c') k = Some x \<longrightarrow> ru_key x = k \<and> rule_ok ?c' x \<and> ru_ref x < m_refs ?c'"
    using assms(1) r unfolding look rule_ok_cong [OF fx] parts(3) rules_inv_def by (auto intro: less_SucI)
  moreover have "(\<Sum>k \<in> fmdom' (rule_cores ?c'). ru_Routes (the (fmlookup (rule_cores ?c') k))) \<le> mf_MaxRules (m_cfg ?c')"
  proof -
    have dom: "fmdom' (rule_cores ?c') = insert ?k (fmdom' (m_rules c) - {?k})" by (auto simp: parts(4) rule_cores_dom)
    have "(\<Sum>k \<in> fmdom' (rule_cores ?c'). ru_Routes (the (fmlookup (rule_cores ?c') k))) =
        ru_Routes r + (\<Sum>k \<in> fmdom' (m_rules c) - {?k}. ru_Routes (the (fmlookup (rule_cores ?c') k)))"
      unfolding dom by (subst sum.insert) (simp_all add: look)
    also have "(\<Sum>k \<in> fmdom' (m_rules c) - {?k}. ru_Routes (the (fmlookup (rule_cores ?c') k))) = held_routes (fmdrop ?k (m_rules c))"
      unfolding held_routes_sum by (rule sum.cong) (auto simp: look rule_cores_lookup [of c] fmdom'_iff)
    finally show ?thesis using assms(4) by (simp add: cfg)
  qed
  moreover have "route_keys ?c' x \<inter> route_keys ?c' y = {}" if "fmlookup (rule_cores ?c') k = Some x" "fmlookup (rule_cores ?c') k' = Some y"
      "k \<noteq> k'" "ru_FlowSpec x" "ru_FlowSpec y" for k k' x y
  proof -
    have new: "route_keys c z \<inter> route_keys c r = {}" if z: "fmlookup (rule_cores c) j = Some z" "j \<noteq> ?k" "ru_FlowSpec z" "ru_FlowSpec r" for j z
    proof -
      obtain z' where z': "fmlookup (m_rules c) j = Some z'" "z = core z'" using z(1) by (auto simp: rule_cores_lookup)
      then show ?thesis using flowConflict_None [OF _ z'(1) z(2)] assms(3) z(3,4) by simp
    qed
    have "route_keys c x \<inter> route_keys c y = {}"
      using that new [of k x] new [of k' y] assms(1) unfolding look rules_inv_def by (auto split: if_splits)
    then show ?thesis by (simp add: route_keys_cong [OF cfg])
  qed
  ultimately show ?thesis unfolding rules_inv_def by blast
qed

end
