(* ===== verification/Mitigation_Wire.thy ===== *)
theory Mitigation_Wire
  imports Mitigation_Run
begin

text \<open>
  The mitigation routes on the wire: what the log of calls leaves there, the operations a plan makes, and the machine whose steps
  are the critical sections and the calls of \<open>Sync\<close>, \<open>WithdrawAll\<close> and \<open>ApplyRuntime\<close>.
\<close>

section \<open>The wire\<close>

fun mit_wire_do :: "(prefix \<rightharpoonup> MitigationRoute) \<Rightarrow> mit_call \<times> bool \<Rightarrow> (prefix \<rightharpoonup> MitigationRoute)" where
  "mit_wire_do w (MitAnnounce rt, True) = w(mr_Prefix rt \<mapsto> rt)"
| "mit_wire_do w (MitWithdraw p, True) = w(p := None)"
| "mit_wire_do w (MitWithdrawAll, True) = Map.empty"
| "mit_wire_do w _ = w"

fun mit_flow_do :: "(string \<rightharpoonup> FlowSpecRoute) \<Rightarrow> mit_call \<times> bool \<Rightarrow> (string \<rightharpoonup> FlowSpecRoute)" where
  "mit_flow_do w (MitAnnounceFS rt, True) = w(route_Key rt \<mapsto> rt)"
| "mit_flow_do w (MitWithdrawFS k, True) = w(k := None)"
| "mit_flow_do w (MitWithdrawAll, True) = Map.empty"
| "mit_flow_do w _ = w"

definition mit_wire :: "(mit_call \<times> bool) list \<Rightarrow> (prefix \<rightharpoonup> MitigationRoute)" where
  "mit_wire calls = foldl mit_wire_do Map.empty calls"

definition mit_flow :: "(mit_call \<times> bool) list \<Rightarrow> (string \<rightharpoonup> FlowSpecRoute)" where
  "mit_flow calls = foldl mit_flow_do Map.empty calls"

lemma mit_wire_snoc: "mit_wire (calls @ [x]) = mit_wire_do (mit_wire calls) x" "mit_flow (calls @ [x]) = mit_flow_do (mit_flow calls) x"
  by (simp_all add: mit_wire_def mit_flow_def)

section \<open>The operations of a plan\<close>

fun uni_prefix :: "wireOp \<Rightarrow> prefix option" where
  "uni_prefix (WopWithdraw p) = Some p"
| "uni_prefix (WopAnnounce p rt r w) = Some p"
| "uni_prefix _ = None"

definition uni_prefixes :: "wireOp list \<Rightarrow> prefix list" where
  "uni_prefixes ops = List.map_filter uni_prefix ops"

definition announced_prefixes :: "wireOp list \<Rightarrow> prefix set" where
  "announced_prefixes ops = {p. \<exists>rt r w. WopAnnounce p rt r w \<in> set ops}"

lemma uni_prefixes_simps [simp]:
  "uni_prefixes [] = []" "uni_prefixes (a @ b) = uni_prefixes a @ uni_prefixes b" "uni_prefixes [WopWithdraw p] = [p]"
  "uni_prefixes [WopAnnounce p rt r w] = [p]" "uni_prefixes [WopWithdrawFS k] = []" "uni_prefixes [WopAnnounceFS k frt r] = []"
  "uni_prefixes (map WopWithdraw ps) = ps" "uni_prefixes (map WopWithdrawFS ks) = []"
  by (simp_all add: uni_prefixes_def List.map_filter_def) (induction ps; simp)+

lemma announced_simps [simp]:
  "announced_prefixes [] = {}" "announced_prefixes (a @ b) = announced_prefixes a \<union> announced_prefixes b"
  "announced_prefixes [WopWithdraw p] = {}" "announced_prefixes [WopAnnounce p rt r w] = {p}" "announced_prefixes [WopWithdrawFS k] = {}"
  "announced_prefixes [WopAnnounceFS k frt r] = {}" "announced_prefixes (map WopWithdraw ps) = {}" "announced_prefixes (map WopWithdrawFS ks) = {}"
  by (auto simp: announced_prefixes_def)

text \<open>An operation fits the controller: its route is the one of its rule, whose prefix is allowed, and it waits for others exactly when it is new.\<close>

definition op_ok :: "mitController \<Rightarrow> wireOp \<Rightarrow> bool" where
  "op_ok c op = (case op of
     WopAnnounce p rt r w \<Rightarrow> rt = mit_route (m_cfg c) r \<and> ru_Prefix r = p \<and> rule_ok c r \<and> \<not> ru_FlowSpec r \<and> w = (fmlookup (m_wire c) p = None)
   | WopAnnounceFS k rt r \<Rightarrow> k = route_Key rt \<and> rt \<in> set (flowRoutes (m_cfg c) r) \<and> rule_ok c r \<and> ru_FlowSpec r
   | _ \<Rightarrow> True)"

lemma op_ok_simps [simp]:
  "op_ok c (WopWithdraw p)" "op_ok c (WopWithdrawFS k)"
  "op_ok c (WopAnnounce p rt r w) \<longleftrightarrow> rt = mit_route (m_cfg c) r \<and> ru_Prefix r = p \<and> rule_ok c r \<and> \<not> ru_FlowSpec r \<and> w = (fmlookup (m_wire c) p = None)"
  "op_ok c (WopAnnounceFS k frt r) \<longleftrightarrow> k = route_Key frt \<and> frt \<in> set (flowRoutes (m_cfg c) r) \<and> rule_ok c r \<and> ru_FlowSpec r"
  by (simp_all add: op_ok_def)

lemma op_ok_cong: "fixed_part c' = fixed_part c \<Longrightarrow> m_wire c' = m_wire c \<Longrightarrow> op_ok c' op = op_ok c op"
  using rule_ok_cong [of c' c] fixed_partD [of c' c] by (cases op) auto

text \<open>What a plan keeps: everything but the prefixes in flight.\<close>

definition plan_frame where
  "plan_frame c = frame (c\<lparr>m_inflight := {}\<rparr>)"

lemma plan_frameD:
  assumes "plan_frame c' = plan_frame c"
  shows "fixed_part c' = fixed_part c" "m_wire c' = m_wire c" "m_fwire c' = m_fwire c" "m_log c' = m_log c" "rule_cores c' = rule_cores c"
    "m_refs c' = m_refs c" "m_gone c' = m_gone c" "m_cfg c' = m_cfg c"
  using assms by (auto simp: plan_frame_def frame_def wire_part_def fixed_part_def rule_cores_def)

lemma frame_plan: "frame c' = frame c \<Longrightarrow> plan_frame c' = plan_frame c \<and> m_inflight c' = m_inflight c"
  by (auto simp: plan_frame_def frame_def wire_part_def fixed_part_def rule_cores_def)

lemma plan_frame_inflight [simp]: "plan_frame (c\<lparr>m_inflight := X\<rparr>) = plan_frame c"
  by (simp add: plan_frame_def)

lemma plan_frame_pending [simp]: "plan_frame (set_Pending r why c) = plan_frame c" "m_inflight (set_Pending r why c) = m_inflight c"
  using frame_plan [OF set_Pending_frame [of r why c]] by simp_all

lemma rules_inv_plan: "plan_frame c' = plan_frame c \<Longrightarrow> rules_inv c' = rules_inv c"
  by (rule rules_inv_cong) (auto dest: plan_frameD)

text \<open>One prefix of the unicast plan.\<close>

lemma unicast_step_shape:
  obtains (quiet) c' where "unicast_step e now uni (c, ops) p = (c', ops)" "frame c' = frame c"
      "\<And>r. fmlookup uni p = Some r \<Longrightarrow> CoveredBy (mf_Allowlist (m_cfg c)) p \<Longrightarrow>
        (\<exists>w. fmlookup (m_wire c) p = Some w \<and> same_unicast w r) \<or> fmlookup (m_wire c) p = None \<and> \<not> me_Contains e p"
  | (withdraw) c' where "unicast_step e now uni (c, ops) p = (c', ops @ [WopWithdraw p])" "frame c' = frame c"
      "CoveredBy (mf_Allowlist (m_cfg c)) p \<Longrightarrow> leftLocked c now p"
  | (announce) r where "unicast_step e now uni (c, ops) p =
        (c\<lparr>m_inflight := insert p (m_inflight c)\<rparr>, ops @ [WopAnnounce p (mit_route (m_cfg c) r) r (fmlookup (m_wire c) p = None)])"
      "fmlookup uni p = Some r" "CoveredBy (mf_Allowlist (m_cfg c)) p" "fmlookup (m_wire c) p = None \<longrightarrow> me_Contains e p"
proof (cases "fmlookup uni p")
  case None
  then show thesis by (intro quiet [of c]) (simp_all add: unicast_step_def)
next
  case (Some r)
  let ?cur = "fmlookup (m_wire c) p"
  let ?left = "?cur \<noteq> None \<and> leftLocked c now p" and ?same = "case ?cur of None \<Rightarrow> False | Some w \<Rightarrow> same_unicast w r"
  let ?out = "\<not> CoveredBy (mf_Allowlist (m_cfg c)) p" and ?wait = "?cur = None \<and> \<not> me_Contains e p"
  note unf = unicast_step_def Let_def prod.case Some option.case
  consider ?left | "\<not> ?left" ?same | "\<not> ?left" "\<not> ?same" ?out | "\<not> ?left" "\<not> ?same" "\<not> ?out" ?wait | "\<not> ?left" "\<not> ?same" "\<not> ?out" "\<not> ?wait" by blast
  then show thesis
  proof cases
    case 1
    show thesis by (rule withdraw [of "set_Pending r PendingLeft c"]) (simp_all only: unf if_P [OF 1] set_Pending_frame, use 1 in simp)
  next
    case 2
    show thesis by (rule quiet [of "set_Pending r NoPending c"])
      (simp_all only: unf if_not_P [OF 2(1)] if_P [OF 2(2)] set_Pending_frame, use 2(2) in \<open>auto split: option.splits\<close>)
  next
    case 3
    show thesis
    proof (cases "?cur = None")
      case True
      show thesis by (rule quiet [of "set_Pending r PendingAllowlist c"])
        (simp_all only: unf if_not_P [OF 3(1)] if_not_P [OF 3(2)] if_P [OF 3(3)] set_Pending_frame, simp add: True, use 3(3) in simp)
    next
      case False
      show thesis by (rule withdraw [of "set_Pending r PendingAllowlist c"])
        (simp_all only: unf if_not_P [OF 3(1)] if_not_P [OF 3(2)] if_P [OF 3(3)] set_Pending_frame, simp add: False, use 3(3) in simp)
    qed
  next
    case 4
    show thesis by (rule quiet [of "if ru_Pending r = PendingLeft then c else set_Pending r PendingRIB c"])
      (simp_all only: unf if_not_P [OF 4(1)] if_not_P [OF 4(2)] if_not_P [OF 4(3)] if_P [OF 4(4)], simp, use 4(4) in simp)
  next
    case 5
    show thesis by (rule announce [OF _ Some]) (simp only: unf if_not_P [OF 5(1)] if_not_P [OF 5(2)] if_not_P [OF 5(3)] if_not_P [OF 5(4)], use 5 in auto)
  qed
qed

definition mit_orders :: "mit_env \<Rightarrow> bool" where
  "mit_orders e \<longleftrightarrow> (\<forall>ks. mset (me_keys e ks) = mset ks) \<and> (\<forall>ps. mset (me_prefixes e ps) = mset ps)"

lemma mit_orders_set:
  assumes "mit_orders e"
  shows "set (me_keys e ks) = set ks" "set (me_prefixes e ps) = set ps" "distinct (me_prefixes e ps) = distinct ps" "distinct (me_keys e ks) = distinct ks"
  using assms by (metis mit_orders_def mset_eq_setD) (metis assms mit_orders_def mset_eq_setD, metis assms mit_orders_def mset_eq_imp_distinct_iff, metis assms mit_orders_def mset_eq_imp_distinct_iff)

text \<open>A new announcement is of a learned prefix.\<close>

definition grounded_op :: "mit_env \<Rightarrow> mitController \<Rightarrow> wireOp \<Rightarrow> bool" where
  "grounded_op e c op = (case op of
     WopAnnounce p rt r w \<Rightarrow> fmlookup (m_wire c) p \<noteq> None \<or> me_Contains e p
   | WopAnnounceFS k rt r \<Rightarrow> fmlookup (m_fwire c) k \<noteq> None \<or> me_Contains e (ru_Prefix r)
   | _ \<Rightarrow> True)"

definition plan_good :: "mit_env \<Rightarrow> mitController \<Rightarrow> mitController \<times> wireOp list \<Rightarrow> bool" where
  "plan_good e c0 acc \<longleftrightarrow> plan_frame (fst acc) = plan_frame c0 \<and> m_inflight (fst acc) = m_inflight c0 \<union> announced_prefixes (snd acc) \<and>
     (\<forall>op \<in> set (snd acc). op_ok c0 op \<and> grounded_op e c0 op)"

lemma uni_rules_in:
  assumes "fmlookup (uni_rules e c) p = Some r"
  shows "\<exists>k. fmlookup (m_rules c) k = Some r \<and> \<not> ru_FlowSpec r \<and> ru_Prefix r = p"
proof -
  let ?f = "\<lambda>m k. case fmlookup (m_rules c) k of None \<Rightarrow> m | Some r \<Rightarrow> if ru_FlowSpec r then m else fmupd (ru_Prefix r) r m"
  have "fmlookup (foldl ?f m ks) p = Some r \<Longrightarrow> fmlookup m p = Some r \<or> (\<exists>k. fmlookup (m_rules c) k = Some r \<and> \<not> ru_FlowSpec r \<and> ru_Prefix r = p)" for m ks
    by (induction ks arbitrary: m) (fastforce split: option.splits if_splits)+
  from this [of fmempty "me_keys e (sortedKeys (m_rules c))"] assms show ?thesis by (auto simp: uni_rules_def)
qed

lemma unicast_fold_good:
  assumes "plan_good e c0 acc" "rules_inv c0" "distinct (uni_prefixes (snd acc) @ ps)"
    and uni: "\<And>p r. fmlookup uni p = Some r \<Longrightarrow> rule_ok c0 r \<and> \<not> ru_FlowSpec r \<and> ru_Prefix r = p"
  shows "plan_good e c0 (foldl (unicast_step e now uni) acc ps) \<and> distinct (uni_prefixes (snd (foldl (unicast_step e now uni) acc ps)))"
  using assms(1,3)
proof (induction ps arbitrary: acc)
  case (Cons p ps)
  obtain c ops where acc: "acc = (c, ops)" by (cases acc)
  have fr: "plan_frame c = plan_frame c0" "m_inflight c = m_inflight c0 \<union> announced_prefixes ops"
    using Cons.prems(1) by (simp_all add: plan_good_def acc)
  note same = plan_frameD [OF fr(1)]
  have dist: "distinct (uni_prefixes ops @ p # ps)" using Cons.prems(2) by (simp add: acc)
  have "plan_good e c0 (unicast_step e now uni (c, ops) p) \<and> distinct (uni_prefixes (snd (unicast_step e now uni (c, ops) p)) @ ps)"
  proof (cases rule: unicast_step_shape [where e = e and now = now and uni = uni and c = c and ops = ops and p = p])
    case (quiet c')
    then show ?thesis using Cons.prems(1) dist frame_plan [OF quiet(2)] by (auto simp: plan_good_def acc)
  next
    case (withdraw c')
    then show ?thesis using Cons.prems(1) dist frame_plan [OF withdraw(2)] by (auto simp: plan_good_def acc grounded_op_def)
  next
    case (announce r)
    then show ?thesis using Cons.prems(1) dist uni [OF announce(2)] fr(2) same(2,8) by (auto simp: plan_good_def acc grounded_op_def)
  qed
  then show ?case using Cons.IH by (simp add: acc)
qed simp

lemma planUnicast_good:
  assumes "rules_inv c" "mit_orders e"
  shows "plan_good e c (planUnicastLocked e now c)" "distinct (uni_prefixes (snd (planUnicastLocked e now c)))"
proof -
  let ?uni = "uni_rules e c" and ?stale = "filter (\<lambda>p. fmlookup (uni_rules e c) p = None) (me_prefixes e (SortedKeys (m_wire c)))"
  have "plan_good e c (c, map WopWithdraw ?stale)" by (auto simp: plan_good_def grounded_op_def)
  moreover have "distinct (uni_prefixes (snd (c, map WopWithdraw ?stale)) @ SortedKeys ?uni)"
    using mit_orders_set [OF assms(2)] by (auto simp: fmdom'_iff)
  ultimately have "plan_good e c (planUnicastLocked e now c) \<and> distinct (uni_prefixes (snd (planUnicastLocked e now c)))"
    unfolding planUnicastLocked_def Let_def using assms(1) uni_rules_in rules_invD [OF assms(1)] by (intro unicast_fold_good) blast+
  then show "plan_good e c (planUnicastLocked e now c)" "distinct (uni_prefixes (snd (planUnicastLocked e now c)))" by simp_all
qed

text \<open>The FlowSpec plan: the routes that rules claim, and one step of the loop over them.\<close>

definition wants_ok :: "mitController \<Rightarrow> (string, want) fmap \<Rightarrow> bool" where
  "wants_ok c desired \<longleftrightarrow> (\<forall>k d. fmlookup desired k = Some d \<longrightarrow> k = route_Key (wa_route d) \<and> wa_route d \<in> set (flowRoutes (m_cfg c) (wa_rule d)) \<and>
     rule_ok c (wa_rule d) \<and> ru_FlowSpec (wa_rule d))"

lemma claim_routes_ok:
  assumes "wants_ok c (fst acc)" "rule_ok c r" "ru_FlowSpec r" "set rts \<subseteq> set (flowRoutes (m_cfg c) r)"
  shows "wants_ok c (fst (foldl (claim_route r) acc rts))"
  using assms(1,4)
proof (induction rts arbitrary: acc)
  case (Cons rt rts)
  have "wants_ok c (fst (claim_route r acc rt))"
    using Cons.prems assms(2,3) by (auto simp: claim_route_def case_prod_beta Let_def wants_ok_def split: option.splits)
  then show ?case using Cons.IH [of "claim_route r acc rt"] Cons.prems(2) by simp
qed simp

lemma claim_rule_ok:
  assumes "wants_ok c0 desired" "frame c = frame c0" "rules_inv c0" "claim_rule (desired, keys, c) rk = (desired', keys', c')"
  shows "wants_ok c0 desired' \<and> frame c' = frame c0"
proof (cases "\<exists>r. fmlookup (m_rules c) rk = Some r \<and> ru_FlowSpec r")
  case False
  then show ?thesis using assms(1,2,4) by (auto simp: claim_rule_def split: option.splits)
next
  case True
  then obtain r where r: "fmlookup (m_rules c) rk = Some r" "ru_FlowSpec r" by blast
  have fx: "fixed_part c = fixed_part c0" using assms(2) by (auto dest: frameD wire_partD)
  have cfg: "m_cfg c = m_cfg c0" using fixed_partD [OF fx] by simp
  have "rules_inv c" using assms(3) unfolding rules_inv_frame [OF assms(2)] .
  then have "rule_ok c0 r" using rules_invD(2) [OF _ r(1)] rule_ok_cong [OF fx] by simp
  then have "wants_ok c0 (fst (foldl (claim_route r) (desired, keys, NoPending) (flowRoutes (m_cfg c) r)))"
    using assms(1) r(2) by (intro claim_routes_ok) (simp_all add: cfg)
  moreover obtain d1 k1 why where "foldl (claim_route r) (desired, keys, NoPending) (flowRoutes (m_cfg c) r) = (d1, k1, why)" by (metis prod_cases3)
  ultimately show ?thesis using assms(2,4) r by (simp add: claim_rule_def) (metis set_Pending_frame)
qed

lemma claim_fold_ok:
  assumes "wants_ok c0 (fst acc)" "frame (snd (snd acc)) = frame c0" "rules_inv c0"
  shows "wants_ok c0 (fst (foldl claim_rule acc rks)) \<and> frame (snd (snd (foldl claim_rule acc rks))) = frame c0"
  using assms(1,2)
proof (induction rks arbitrary: acc)
  case (Cons rk rks)
  obtain d ks c where acc: "acc = (d, ks, c)" by (cases acc)
  obtain d' ks' c' where acc': "claim_rule (d, ks, c) rk = (d', ks', c')" by (cases "claim_rule (d, ks, c) rk")
  have "wants_ok c0 d' \<and> frame c' = frame c0" using claim_rule_ok [OF _ _ assms(3) acc'] Cons.prems by (simp add: acc)
  then show ?case using Cons.IH [of "(d', ks', c')"] by (simp add: acc acc')
qed simp

lemma flow_step_shape:
  obtains (quiet) c' left' where "flow_step e now desired leaving (c, left, ops) k = (c', left', ops)" "frame c' = frame c"
  | (withdraw) c' left' where "flow_step e now desired leaving (c, left, ops) k = (c', left', ops @ [WopWithdrawFS k])" "frame c' = frame c"
  | (announce) d where "flow_step e now desired leaving (c, left, ops) k = (c, left, ops @ [WopAnnounceFS k (wa_route d) (wa_rule d)])"
      "fmlookup desired k = Some d" "fmlookup (m_fwire c) k \<noteq> None \<or> me_Contains e (ru_Prefix (wa_rule d))" "m_fs c"
proof (cases "fmlookup desired k")
  case None
  then show thesis by (intro quiet [of c left]) (simp_all add: flow_step_def)
next
  case (Some d)
  let ?r = "wa_rule d" and ?cur = "if k \<in> set leaving then None else fmlookup (m_fwire c) k"
  let ?left = "?cur \<noteq> None \<and> leftLocked c now (ru_Prefix ?r)" and ?same = "case ?cur of None \<Rightarrow> False | Some w \<Rightarrow> same_action (fw_route w) (wa_route d)"
  let ?out = "\<not> CoveredBy (mf_Allowlist (m_cfg c)) (ru_Prefix ?r)" and ?wait = "?cur = None \<and> \<not> me_Contains e (ru_Prefix ?r)"
  note unf = flow_step_def Let_def prod.case Some option.case
  consider ?left | "\<not> ?left" ?same | "\<not> ?left" "\<not> ?same" "\<not> m_fs c" | "\<not> ?left" "\<not> ?same" "\<not> \<not> m_fs c" ?out
    | "\<not> ?left" "\<not> ?same" "\<not> \<not> m_fs c" "\<not> ?out" ?wait | "\<not> ?left" "\<not> ?same" "\<not> \<not> m_fs c" "\<not> ?out" "\<not> ?wait" by blast
  then show thesis
  proof cases
    case 1
    show thesis by (rule withdraw [of "set_Pending ?r PendingLeft c" "ru_key ?r # left"]) (simp_all only: unf if_P [OF 1] set_Pending_frame)
  next
    case 2
    show thesis by (rule quiet [of c left]) (simp_all only: unf if_not_P [OF 2(1)] if_P [OF 2(2)])
  next
    case 3
    show thesis by (rule quiet [of "set_Pending ?r PendingFlowSpecOff c" left])
      (simp_all only: unf if_not_P [OF 3(1)] if_not_P [OF 3(2)] if_P [OF 3(3)] set_Pending_frame)
  next
    case 4
    show thesis
    proof (cases "?cur = None")
      case True
      show thesis by (rule quiet [of "set_Pending ?r PendingAllowlist c" left])
        (simp_all only: unf if_not_P [OF 4(1)] if_not_P [OF 4(2)] if_not_P [OF 4(3)] if_P [OF 4(4)] set_Pending_frame, simp add: True)
    next
      case False
      show thesis by (rule withdraw [of "set_Pending ?r PendingAllowlist c" left])
        (simp_all only: unf if_not_P [OF 4(1)] if_not_P [OF 4(2)] if_not_P [OF 4(3)] if_P [OF 4(4)] set_Pending_frame, simp add: False)
    qed
  next
    case 5
    show thesis by (rule quiet [of "set_Pending ?r (if ru_key ?r \<in> set left then PendingLeft else PendingRIB) c" left])
      (simp_all only: unf if_not_P [OF 5(1)] if_not_P [OF 5(2)] if_not_P [OF 5(3)] if_not_P [OF 5(4)] if_P [OF 5(5)] set_Pending_frame)
  next
    case 6
    have "fmlookup (m_fwire c) k \<noteq> None \<or> me_Contains e (ru_Prefix ?r)" using 6(5) by (auto split: if_splits)
    then show thesis using 6(3)
      by (intro announce [OF _ Some]) (simp_all only: unf if_not_P [OF 6(1)] if_not_P [OF 6(2)] if_not_P [OF 6(3)] if_not_P [OF 6(4)] if_not_P [OF 6(5)], simp_all)
  qed
qed

lemma flow_fold_good:
  assumes "plan_good e c0 (fst acc, snd (snd acc))" "wants_ok c0 desired"
  shows "plan_good e c0 (fst (foldl (flow_step e now desired leaving) acc ks), snd (snd (foldl (flow_step e now desired leaving) acc ks))) \<and>
    uni_prefixes (snd (snd (foldl (flow_step e now desired leaving) acc ks))) = uni_prefixes (snd (snd acc))"
  using assms(1)
proof (induction ks arbitrary: acc)
  case (Cons k ks)
  obtain c left ops where acc: "acc = (c, left, ops)" by (cases acc)
  have same: "m_fwire c = m_fwire c0" "m_cfg c = m_cfg c0" using Cons.prems plan_frameD [of c c0] by (simp_all add: plan_good_def acc)
  let ?b = "flow_step e now desired leaving (c, left, ops) k"
  have "plan_good e c0 (fst ?b, snd (snd ?b)) \<and> uni_prefixes (snd (snd ?b)) = uni_prefixes ops"
  proof (cases rule: flow_step_shape [where e = e and now = now and desired = desired and leaving = leaving and c = c and left = left and ops = ops and k = k])
    case (quiet c' left')
    then show ?thesis using Cons.prems frame_plan [OF quiet(2)] by (auto simp: plan_good_def acc)
  next
    case (withdraw c' left')
    then show ?thesis using Cons.prems frame_plan [OF withdraw(2)] by (auto simp: plan_good_def acc grounded_op_def)
  next
    case (announce d)
    then show ?thesis using Cons.prems assms(2) same unfolding wants_ok_def by (auto simp: plan_good_def acc grounded_op_def)
  qed
  then show ?case using Cons.IH [of ?b] by (simp add: acc)
qed simp

lemma planFlowSpec_good:
  assumes "rules_inv c"
  shows "plan_good e c (planFlowSpecLocked e now c)" "uni_prefixes (snd (planFlowSpecLocked e now c)) = []"
proof -
  let ?left = "filter (\<lambda>rk. case fmlookup (m_rules c) rk of None \<Rightarrow> False | Some r \<Rightarrow> ru_FlowSpec r \<and> ru_Pending r = PendingLeft) (sortedKeys (m_rules c))"
  obtain desired keys c1 where cl: "foldl claim_rule (fmempty, [], c) (sortedKeys (m_rules c)) = (desired, keys, c1)" by (metis prod_cases3)
  have ok: "wants_ok c desired" "frame c1 = frame c"
    using claim_fold_ok [of c "(fmempty, [], c)" "sortedKeys (m_rules c)"] assms cl by (simp_all add: wants_ok_def)
  define leaving where "leaving = filter (\<lambda>k. case fmlookup (m_fwire c) k of None \<Rightarrow> False
     | Some w \<Rightarrow> (case fmlookup desired k of None \<Rightarrow> True | Some d \<Rightarrow> ru_key (wa_rule d) \<noteq> fw_rule w)) (me_keys e (sortedKeys (m_fwire c)))"
  have "plan_good e c (c1, map WopWithdrawFS leaving)" using frame_plan [OF ok(2)] by (auto simp: plan_good_def grounded_op_def)
  with flow_fold_good [of e c "(c1, ?left, map WopWithdrawFS leaving)" desired now leaving "sort keys"] ok(1)
  show "plan_good e c (planFlowSpecLocked e now c)" "uni_prefixes (snd (planFlowSpecLocked e now c)) = []"
    unfolding planFlowSpecLocked_def cl Let_def prod.case leaving_def [symmetric] by (simp_all add: case_prod_beta)
qed

lemma plan_good_append:
  assumes "plan_good e c (c1, ops1)" "plan_good e c1 (c2, ops2)"
  shows "plan_good e c (c2, ops1 @ ops2)"
proof -
  have f: "plan_frame c1 = plan_frame c" using assms(1) by (simp add: plan_good_def)
  have "op_ok c1 op = op_ok c op" "grounded_op e c1 op = grounded_op e c op" for op
    using op_ok_cong [of c1 c] plan_frameD [OF f] by (simp_all add: grounded_op_def split: wireOp.splits)
  with assms show ?thesis by (auto simp: plan_good_def)
qed

end
