(* ===== verification/Mitigation_Machine.thy ===== *)
theory Mitigation_Machine
  imports Mitigation_Wire
begin

text \<open>The machine of the mitigation controller, its invariant, and the operations of the source as its runs.\<close>

section \<open>The first critical section of Sync\<close>

lemma trackGone_parts [simp]:
  "wire_part (trackGoneLocked e now c) = wire_part c" "rule_cores (trackGoneLocked e now c) = rule_cores c" "m_refs (trackGoneLocked e now c) = m_refs c"
  "m_rules (trackGoneLocked e now c) = m_rules c" "m_cfg (trackGoneLocked e now c) = m_cfg c"
  by (simp_all add: trackGoneLocked_def Let_def wire_part_def fixed_part_def rule_cores_def)

lemma rules_inv_trackGone: "rules_inv (trackGoneLocked e now c) = rules_inv c"
  by (rule rules_inv_cong) (use wire_partD [OF trackGone_parts(1) [of e now c]] in simp_all)

lemma fewer_fixed: "fewer_rules c c' \<Longrightarrow> fixed_part c' = fixed_part c \<and> m_cfg c' = m_cfg c"
  by (auto simp: fewer_rules_def wire_part_def fixed_part_def)

text \<open>The result of a plan with calls to make.\<close>

definition planned :: "mit_env \<Rightarrow> mitController \<Rightarrow> mitController \<Rightarrow> wireOp list \<Rightarrow> bool" where
  "planned e c c' ops \<longleftrightarrow> fixed_part c' = fixed_part c \<and> m_wire c' = m_wire c \<and> m_fwire c' = m_fwire c \<and> m_log c' = m_log c \<and>
     m_inflight c' = m_inflight c \<union> announced_prefixes ops \<and> rules_inv c' \<and> (\<forall>op \<in> set ops. op_ok c' op \<and> grounded_op e c' op) \<and> distinct (uni_prefixes ops)"

lemma mit_plan_cases:
  assumes "rules_inv c" "mit_orders e"
  obtains (fin) c' where "mit_plan e now c = (c', SyncDone)" "\<not> mit_inject c" "fewer_rules c c'"
  | (all) c' where "mit_plan e now c = (c', SyncWithdraw)" "mit_inject c" "fewer_rules c c'" "\<not> (me_Leader e \<and> m_rib c \<and> me_Ready e)"
  | (ops) c' ops where "mit_plan e now c = (c', SyncOps ops)" "mit_inject c" "planned e c c' ops" "me_Leader e" "m_rib c" "me_Ready e"
proof -
  define c1 where "c1 = foldl (expire_step now) c (me_keys e (sortedKeys (m_rules c)))"
  have few: "fewer_rules c c1" unfolding c1_def by (rule fewer_expired)
  note fx = fewer_fixed [OF few]
  have inj: "mit_inject c1 = mit_inject c" using fx by (simp add: mit_inject_def)
  have rib: "m_rib c1 = m_rib c" using fixed_partD fx by blast
  have inv1: "rules_inv c1" by (rule rules_inv_fewer [OF few assms(1)])
  show thesis
  proof (cases "mit_inject c")
    case False
    have "mit_plan e now c = (settleLocked now c1, SyncDone)" unfolding mit_plan_def Let_def c1_def [symmetric] using False inj by simp
    then show thesis using False fewer_settle [OF few] by (rule fin)
  next
    case True
    show thesis
    proof (cases "me_Leader e \<and> m_rib c \<and> me_Ready e")
      case False
      have "mit_plan e now c = (c1, SyncWithdraw)" unfolding mit_plan_def Let_def c1_def [symmetric] using True False inj rib by auto
      then show thesis using True few False by (rule all)
    next
      case ready: True
      define c2 where "c2 = trackGoneLocked e now c1"
      obtain c3 ops1 where u: "planUnicastLocked e now c2 = (c3, ops1)" by (cases "planUnicastLocked e now c2")
      obtain c4 ops2 where f: "planFlowSpecLocked e now c3 = (c4, ops2)" by (cases "planFlowSpecLocked e now c3")
      have plan: "mit_plan e now c = (c4, SyncOps (ops1 @ ops2))"
        unfolding mit_plan_def Let_def c1_def [symmetric] c2_def [symmetric] using True ready inj rib u f by simp
      have inv2: "rules_inv c2" using inv1 by (simp add: c2_def rules_inv_trackGone)
      have g1: "plan_good e c2 (c3, ops1)" "distinct (uni_prefixes ops1)" using planUnicast_good [OF inv2 assms(2), of now] u by simp_all
      have fr3: "plan_frame c3 = plan_frame c2" using g1(1) by (simp add: plan_good_def)
      have inv3: "rules_inv c3" using inv2 unfolding rules_inv_plan [OF fr3] .
      have g2: "plan_good e c3 (c4, ops2)" "uni_prefixes ops2 = []" using planFlowSpec_good [OF inv3, of e now] f by simp_all
      have g: "plan_good e c2 (c4, ops1 @ ops2)" by (rule plan_good_append [OF g1(1) g2(1)])
      have fr4: "plan_frame c4 = plan_frame c2" using g by (simp add: plan_good_def)
      note p4 = plan_frameD [OF fr4]
      have inv4: "rules_inv c4" using inv2 unfolding rules_inv_plan [OF fr4] .
      have w: "wire_part c2 = wire_part c" using few by (simp add: c2_def fewer_rules_def)
      note w2 = wire_partD [OF w]
      have same: "op_ok c4 op = op_ok c2 op" "grounded_op e c4 op = grounded_op e c2 op" for op
        using op_ok_cong [of c4 c2] p4 by (simp_all add: grounded_op_def split: wireOp.splits)
      have "planned e c c4 (ops1 @ ops2)"
        unfolding planned_def using g g1(2) g2(2) inv4 p4 w2 by (simp add: plan_good_def same)
      then show thesis using plan True ready by (intro ops) simp_all
    qed
  qed
qed

section \<open>Results\<close>

definition wire_view :: "mitController \<Rightarrow> (prefix \<rightharpoonup> MitigationRoute)" where
  "wire_view c p = map_option (mit_route (m_cfg c)) (fmlookup (m_wire c) p)"

definition flow_view :: "mitController \<Rightarrow> (string \<rightharpoonup> FlowSpecRoute)" where
  "flow_view c k = map_option fw_route (fmlookup (m_fwire c) k)"

fun uni_eff :: "(prefix \<rightharpoonup> MitigationRoute) \<Rightarrow> wireOp \<times> op_result \<Rightarrow> (prefix \<rightharpoonup> MitigationRoute)" where
  "uni_eff w (WopWithdraw p, OpOk) = w(p := None)"
| "uni_eff w (WopAnnounce p rt r wait, OpOk) = w(p \<mapsto> rt)"
| "uni_eff w _ = w"

fun flow_eff :: "(string \<rightharpoonup> FlowSpecRoute) \<Rightarrow> wireOp \<times> op_result \<Rightarrow> (string \<rightharpoonup> FlowSpecRoute)" where
  "flow_eff w (WopWithdrawFS k, OpOk) = w(k := None)"
| "flow_eff w (WopAnnounceFS k rt r, OpOk) = w(k \<mapsto> rt)"
| "flow_eff w _ = w"

definition res_ok :: "wireOp \<times> op_result \<Rightarrow> bool" where
  "res_ok x = (case x of (WopAnnounce p rt r w, _) \<Rightarrow> True | (_, OpPending why) \<Rightarrow> False | _ \<Rightarrow> True)"

text \<open>The tables hold routes of rules that were checked when they were added.\<close>

definition tables_ok :: "mitController \<Rightarrow> bool" where
  "tables_ok c \<longleftrightarrow> (\<forall>p w. fmlookup (m_wire c) p = Some w \<longrightarrow> ru_Prefix w = p \<and> rule_ok c w \<and> \<not> ru_FlowSpec w) \<and>
     (\<forall>k w. fmlookup (m_fwire c) k = Some w \<longrightarrow> k = route_Key (fw_route w) \<and> (\<exists>r. rule_ok c r \<and> ru_FlowSpec r \<and> fw_rule w = ru_key r \<and> fw_route w \<in> set (flowRoutes (m_cfg c) r)))"

lemma rule_ok_Pending [simp]: "rule_ok c (r\<lparr>ru_Pending := why\<rparr>) = rule_ok c r" "ru_FlowSpec (r\<lparr>ru_Pending := why\<rparr>) = ru_FlowSpec r"
  "mit_route cfg (r\<lparr>ru_Pending := why\<rparr>) = mit_route cfg r"
  using core_more(3) [of c "r\<lparr>ru_Pending := why\<rparr>"] core_more(3) [of c r] by (simp_all add: ru_FlowSpec_def mit_route_def)

lemma set_Pending_same [simp]:
  "m_wire (set_Pending r why c) = m_wire c" "m_fwire (set_Pending r why c) = m_fwire c" "m_log (set_Pending r why c) = m_log c"
  "m_cfg (set_Pending r why c) = m_cfg c" "fixed_part (set_Pending r why c) = fixed_part c" "rule_cores (set_Pending r why c) = rule_cores c"
  "m_refs (set_Pending r why c) = m_refs c" "m_gone (set_Pending r why c) = m_gone c"
  using plan_frameD [OF plan_frame_pending(1) [of r why c]] by simp_all

definition fits :: "mitController \<Rightarrow> wireOp \<Rightarrow> bool" where
  "fits c op = (case op of WopAnnounce p rt r w \<Rightarrow> rt = mit_route (m_cfg c) r \<and> ru_Prefix r = p \<and> rule_ok c r \<and> \<not> ru_FlowSpec r
     | WopAnnounceFS k rt r \<Rightarrow> k = route_Key rt \<and> rt \<in> set (flowRoutes (m_cfg c) r) \<and> rule_ok c r \<and> ru_FlowSpec r | _ \<Rightarrow> True)"

lemma op_ok_fits: "op_ok c op \<Longrightarrow> fits c op"
  by (cases op) (simp_all add: fits_def)

lemma fits_cong: "fixed_part c' = fixed_part c \<Longrightarrow> fits c' op = fits c op"
proof -
  assume fx: "fixed_part c' = fixed_part c"
  have cfg: "m_cfg c' = m_cfg c" using fixed_partD [OF fx] by simp
  show ?thesis unfolding fits_def rule_ok_cong [OF fx] cfg ..
qed

text \<open>What one result changes.\<close>

definition committed :: "mitController \<Rightarrow> mitController \<Rightarrow> bool" where
  "committed c c' \<longleftrightarrow> fixed_part c' = fixed_part c \<and> rule_cores c' = rule_cores c \<and> m_refs c' = m_refs c \<and> m_log c' = m_log c \<and> tables_ok c'"

lemma tables_ok_upd:
  assumes "tables_ok c" "fixed_part c' = fixed_part c"
    and "\<And>p w. fmlookup (m_wire c') p = Some w \<Longrightarrow> fmlookup (m_wire c) p = Some w \<or> ru_Prefix w = p \<and> rule_ok c w \<and> \<not> ru_FlowSpec w"
    and "\<And>k w. fmlookup (m_fwire c') k = Some w \<Longrightarrow> fmlookup (m_fwire c) k = Some w \<or>
      k = route_Key (fw_route w) \<and> (\<exists>r. rule_ok c r \<and> ru_FlowSpec r \<and> fw_rule w = ru_key r \<and> fw_route w \<in> set (flowRoutes (m_cfg c) r))"
  shows "tables_ok c'"
proof -
  have cfg: "m_cfg c' = m_cfg c" using fixed_partD [OF assms(2)] by simp
  show ?thesis
    unfolding tables_ok_def rule_ok_cong [OF assms(2)] cfg
  proof (intro conjI allI impI)
    fix p w assume "fmlookup (m_wire c') p = Some w"
    from assms(3) [OF this] show "ru_Prefix w = p" "rule_ok c w" "\<not> ru_FlowSpec w" using assms(1) by (auto simp: tables_ok_def)
  next
    fix k w assume "fmlookup (m_fwire c') k = Some w"
    from assms(4) [OF this] show "k = route_Key (fw_route w)"
      "\<exists>r. rule_ok c r \<and> ru_FlowSpec r \<and> fw_rule w = ru_key r \<and> fw_route w \<in> set (flowRoutes (m_cfg c) r)" using assms(1) unfolding tables_ok_def by blast+
  qed
qed

lemma commit_op_ok:
  assumes "fits c op" "res_ok (op, res)" "tables_ok c"
  shows "committed c (fst (commit_op (op, res) c)) \<and> wire_view (fst (commit_op (op, res) c)) = uni_eff (wire_view c) (op, res) \<and>
    flow_view (fst (commit_op (op, res) c)) = flow_eff (flow_view c) (op, res) \<and>
    m_inflight (fst (commit_op (op, res) c)) = m_inflight c - announced_prefixes [op]"
proof -
  let ?c' = "fst (commit_op (op, res) c)"
  have fx: "fixed_part (c\<lparr>m_inflight := X\<rparr>) = fixed_part c" "fixed_part (c\<lparr>m_wire := W\<rparr>) = fixed_part c" "fixed_part (c\<lparr>m_fwire := F\<rparr>) = fixed_part c"
    "fixed_part (x\<lparr>m_wire := W\<rparr>) = fixed_part x" "rule_cores (x\<lparr>m_wire := W\<rparr>) = rule_cores x" "rule_cores (x\<lparr>m_fwire := F\<rparr>) = rule_cores x"
    "rule_cores (x\<lparr>m_inflight := X\<rparr>) = rule_cores x" for X W F x
    by (simp_all add: fixed_part_def rule_cores_def)
  have A: "fixed_part ?c' = fixed_part c \<and> rule_cores ?c' = rule_cores c \<and> m_refs ?c' = m_refs c \<and> m_log ?c' = m_log c"
    by (cases op; cases res) (simp_all add: commit_op_def Let_def fx)
  have W: "m_wire ?c' = (case (op, res) of (WopWithdraw p, OpErr _) \<Rightarrow> m_wire c | (WopWithdraw p, _) \<Rightarrow> fmdrop p (m_wire c)
      | (WopAnnounce p rt r w, OpOk) \<Rightarrow> fmupd p (r\<lparr>ru_Pending := NoPending\<rparr>) (m_wire c) | _ \<Rightarrow> m_wire c)"
    by (cases op; cases res) (simp_all add: commit_op_def Let_def)
  have F: "m_fwire ?c' = (case (op, res) of (WopWithdrawFS k, OpErr _) \<Rightarrow> m_fwire c | (WopWithdrawFS k, _) \<Rightarrow> fmdrop k (m_fwire c)
      | (WopAnnounceFS k rt r, OpErr _) \<Rightarrow> m_fwire c | (WopAnnounceFS k rt r, _) \<Rightarrow> fmupd k \<lparr>fw_rule = ru_key r, fw_route = rt\<rparr> (m_fwire c) | _ \<Rightarrow> m_fwire c)"
    by (cases op; cases res) (simp_all add: commit_op_def Let_def)
  have I: "m_inflight ?c' = m_inflight c - announced_prefixes [op]"
    by (cases op; cases res) (simp_all add: commit_op_def Let_def)
  have cfg: "m_cfg ?c' = m_cfg c" using A fixed_partD by blast
  have "tables_ok ?c'"
  proof (rule tables_ok_upd [OF assms(3)])
    fix p w assume "fmlookup (m_wire ?c') p = Some w"
    then show "fmlookup (m_wire c) p = Some w \<or> ru_Prefix w = p \<and> rule_ok c w \<and> \<not> ru_FlowSpec w"
      using assms(1) unfolding W by (cases op; cases res) (auto simp: fits_def split: if_splits)
  next
    fix k w assume "fmlookup (m_fwire ?c') k = Some w"
    then show "fmlookup (m_fwire c) k = Some w \<or> k = route_Key (fw_route w) \<and> (\<exists>r. rule_ok c r \<and> ru_FlowSpec r \<and> fw_rule w = ru_key r \<and> fw_route w \<in> set (flowRoutes (m_cfg c) r))"
      using assms(1) unfolding F by (cases op; cases res) (auto simp: fits_def split: if_splits)
  qed (use A in simp)
  moreover have "wire_view ?c' = uni_eff (wire_view c) (op, res)"
    unfolding wire_view_def [abs_def] W cfg using assms(1,2) by (cases op; cases res) (auto simp: fits_def res_ok_def fun_eq_iff)
  moreover have "flow_view ?c' = flow_eff (flow_view c) (op, res)"
    unfolding flow_view_def [abs_def] F using assms(2) by (cases op; cases res) (auto simp: res_ok_def fun_eq_iff)
  ultimately show ?thesis using A I by (simp add: committed_def)
qed

lemma commit_fold: "fst (foldl (\<lambda>(c, errs) opr. case commit_op opr c of (c1, es) \<Rightarrow> (c1, errs @ es)) (c, errs) oprs) = foldl (\<lambda>c x. fst (commit_op x c)) c oprs"
  by (induction oprs arbitrary: c errs) (auto split: prod.splits)

lemma commitLocked_ok:
  assumes "\<forall>x \<in> set oprs. fits c (fst x) \<and> res_ok x" "tables_ok c"
  shows "committed c (fst (commitLocked oprs c)) \<and> wire_view (fst (commitLocked oprs c)) = foldl uni_eff (wire_view c) oprs \<and>
    flow_view (fst (commitLocked oprs c)) = foldl flow_eff (flow_view c) oprs \<and>
    m_inflight (fst (commitLocked oprs c)) = m_inflight c - announced_prefixes (map fst oprs)"
proof -
  have "committed c (foldl (\<lambda>c x. fst (commit_op x c)) c oprs) \<and> wire_view (foldl (\<lambda>c x. fst (commit_op x c)) c oprs) = foldl uni_eff (wire_view c) oprs \<and>
    flow_view (foldl (\<lambda>c x. fst (commit_op x c)) c oprs) = foldl flow_eff (flow_view c) oprs \<and>
    m_inflight (foldl (\<lambda>c x. fst (commit_op x c)) c oprs) = m_inflight c - announced_prefixes (map fst oprs)"
    using assms
  proof (induction oprs arbitrary: c)
    case Nil
    then show ?case by (simp add: committed_def)
  next
    case (Cons x oprs)
    obtain op res where x: "x = (op, res)" by (cases x)
    let ?c = "fst (commit_op (op, res) c)"
    have one: "committed c ?c" "wire_view ?c = uni_eff (wire_view c) (op, res)" "flow_view ?c = flow_eff (flow_view c) (op, res)"
      "m_inflight ?c = m_inflight c - announced_prefixes [op]" using commit_op_ok [of c op res] Cons.prems by (simp_all add: x)
    have fx: "fixed_part ?c = fixed_part c" using one(1) by (simp add: committed_def)
    have "\<forall>y \<in> set oprs. fits ?c (fst y) \<and> res_ok y" using Cons.prems(1) unfolding fits_cong [OF fx] by simp
    note rest = Cons.IH [OF this] one
    have "announced_prefixes (op # map fst oprs) = announced_prefixes [op] \<union> announced_prefixes (map fst oprs)"
      by (metis announced_simps(2) append_Cons append_Nil)
    then show ?case using rest by (auto simp: x committed_def)
  qed
  then show ?thesis by (simp add: commitLocked_def commit_fold)
qed

section \<open>The machine\<close>

datatype after = AfterSettle time | AfterEnter time string

datatype mit_phase =
    Idle
  | Calls "(wireOp \<times> op_result) list" "wireOp list" time
  | CallOut "(wireOp \<times> op_result) list" wireOp "wireOp list" time
  | AllOut after
  | AllBack after
  | Closing after

fun plan_phase :: "time \<Rightarrow> sync_plan \<Rightarrow> mit_phase" where
  "plan_phase now SyncDone = Idle"
| "plan_phase now SyncWithdraw = AllOut (AfterSettle now)"
| "plan_phase now (SyncOps ops) = Calls [] ops now"

fun after_failed :: "after \<Rightarrow> after" where
  "after_failed (AfterSettle now) = AfterSettle now"
| "after_failed (AfterEnter now mode) = AfterSettle now"

fun close_op :: "mit_env \<Rightarrow> after \<Rightarrow> mitController \<Rightarrow> mitController" where
  "close_op e (AfterSettle now) c = settleLocked now c"
| "close_op e (AfterEnter now mode) c = fst (mit_enter e now mode c)"

text \<open>
  The steps. The first four need the state lock only and can come at any moment; the others follow the order in which
  the holder of the wire lock runs them. A call is two steps, what is checked before it and the call itself.
\<close>

inductive mit_step :: "mit_env \<Rightarrow> mitController \<times> mit_phase \<Rightarrow> mitController \<times> mit_phase \<Rightarrow> bool" for e where
  add: "mit_step e (c, ph) (fst (Add i req now c), ph)"
| remove: "mit_step e (c, ph) (fst (Remove e now i c), ph)"
| changes: "mit_step e (c, ph) (fst (Changes c), ph)"
| set_rib: "mit_step e (c, ph) (fst (SetRIB rib c), ph)"
| sync: "mit_orders e \<Longrightarrow> mit_step e (c, Idle) (fst (mit_plan e now c), plan_phase now (snd (mit_plan e now c)))"
| skip: "op_check e c op = Some res \<Longrightarrow> mit_step e (c, Calls fin (op # todo) now) (c, Calls (fin @ [(op, res)]) todo now)"
| check: "op_check e c op = None \<Longrightarrow> mit_step e (c, Calls fin (op # todo) now) (c, CallOut fin op todo now)"
| call: "mit_step e (c, CallOut fin op todo now) (fst (op_do e op c), Calls (fin @ [(op, snd (op_do e op c))]) todo now)"
| commit: "mit_step e (c, Calls fin [] now) (settleLocked now (fst (commitLocked fin c)), Idle)"
| withdraw: "m_ann c \<Longrightarrow> mit_step e (c, Idle) (c, if mit_inject c then AllOut (AfterSettle now) else Closing (AfterSettle now))"
| runtime: "mit_step e (c, Idle) (c, if mit_inject c \<and> mode \<noteq> ''inject'' then AllOut (AfterEnter now mode) else Closing (AfterEnter now mode))"
| none: "fmlen (m_wire c) + fmlen (m_fwire c) = 0 \<Longrightarrow> mit_step e (c, AllOut a) (c, Closing a)"
| all: "fmlen (m_wire c) + fmlen (m_fwire c) \<noteq> 0 \<Longrightarrow>
    mit_step e (c, AllOut a) (snd (mit_do e MitWithdrawAll c), if fst (mit_do e MitWithdrawAll c) then AllBack a else Closing (after_failed a))"
| clear: "mit_step e (c, AllBack a) (clear_wire c, Closing a)"
| close: "mit_step e (c, Closing a) (close_op e a c, Idle)"

inductive_cases mit_stepE: "mit_step e (c, ph) s'"

fun phase_done :: "mit_phase \<Rightarrow> (wireOp \<times> op_result) list" where
  "phase_done (Calls fin todo now) = fin"
| "phase_done (CallOut fin op todo now) = fin"
| "phase_done _ = []"

fun phase_todo :: "mit_phase \<Rightarrow> wireOp list" where
  "phase_todo (Calls fin todo now) = todo"
| "phase_todo (CallOut fin op todo now) = op # todo"
| "phase_todo _ = []"

definition phase_ops :: "mit_phase \<Rightarrow> wireOp list" where
  "phase_ops ph = map fst (phase_done ph) @ phase_todo ph"

fun wire_now :: "mitController \<Rightarrow> mit_phase \<Rightarrow> (prefix \<rightharpoonup> MitigationRoute)" where
  "wire_now c (AllBack a) = Map.empty"
| "wire_now c ph = foldl uni_eff (wire_view c) (phase_done ph)"

fun flow_now :: "mitController \<Rightarrow> mit_phase \<Rightarrow> (string \<rightharpoonup> FlowSpecRoute)" where
  "flow_now c (AllBack a) = Map.empty"
| "flow_now c ph = foldl flow_eff (flow_view c) (phase_done ph)"

definition empty_tables :: "mitController \<Rightarrow> bool" where
  "empty_tables c \<longleftrightarrow> m_wire c = fmempty \<and> m_fwire c = fmempty"

fun mode_ph :: "mitController \<Rightarrow> mit_phase \<Rightarrow> bool" where
  "mode_ph c Idle = (mit_inject c \<or> empty_tables c)"
| "mode_ph c (Closing (AfterEnter now mode)) = ((mit_inject c \<or> empty_tables c) \<and> (mode = ''inject'' \<or> empty_tables c))"
| "mode_ph c (Closing (AfterSettle now)) = (mit_inject c \<or> empty_tables c)"
| "mode_ph c _ = mit_inject c"

text \<open>
  The invariant: the rules are sound; the log of calls leaves on the wire what the tables and the results so far say; the
  prefixes in flight are those the operations announce; and outside inject mode nothing is on the wire.
\<close>

definition mit_inv :: "mitController \<times> mit_phase \<Rightarrow> bool" where
  "mit_inv s \<longleftrightarrow> (case s of (c, ph) \<Rightarrow>
     rules_inv c \<and> tables_ok c \<and> mit_wire (m_log c) = wire_now c ph \<and> mit_flow (m_log c) = flow_now c ph \<and>
     m_inflight c = announced_prefixes (phase_ops ph) \<and> (\<forall>op \<in> set (phase_ops ph). op_ok c op) \<and> (\<forall>x \<in> set (phase_done ph). res_ok x) \<and>
     distinct (uni_prefixes (phase_ops ph)) \<and> mode_ph c ph)"

section \<open>Every step keeps the invariant\<close>

lemma wire_part_views:
  assumes "wire_part c' = wire_part c"
  shows "wire_now c' ph = wire_now c ph" "flow_now c' ph = flow_now c ph" "op_ok c' op = op_ok c op" "tables_ok c' = tables_ok c" "mode_ph c' ph = mode_ph c ph"
    "m_inflight c' = m_inflight c" "m_log c' = m_log c" "m_cfg c' = m_cfg c"
proof -
  note w = wire_partD [OF assms]
  have fx: "fixed_part c' = fixed_part c" and tab: "m_wire c' = m_wire c" "m_fwire c' = m_fwire c" using w by simp_all
  show cfg: "m_cfg c' = m_cfg c" using fixed_partD [OF fx] by simp
  have v: "wire_view c' = wire_view c" "flow_view c' = flow_view c" using cfg tab by (simp_all add: wire_view_def fun_eq_iff flow_view_def)
  show "wire_now c' ph = wire_now c ph" "flow_now c' ph = flow_now c ph" by (cases ph; simp add: v)+
  show "op_ok c' op = op_ok c op" by (rule op_ok_cong [OF fx tab(1)])
  show "tables_ok c' = tables_ok c" unfolding tables_ok_def rule_ok_cong [OF fx] cfg tab ..
  have "mit_inject c' = mit_inject c" "empty_tables c' = empty_tables c" using cfg tab by (simp_all add: mit_inject_def empty_tables_def)
  then show "mode_ph c' ph = mode_ph c ph" by (cases "(c, ph)" rule: mode_ph.cases) simp_all
  show "m_inflight c' = m_inflight c" "m_log c' = m_log c" using w by simp_all
qed

lemma mit_inv_rules: "mit_inv (c, ph) \<Longrightarrow> wire_part c' = wire_part c \<Longrightarrow> rules_inv c' \<Longrightarrow> mit_inv (c', ph)"
proof -
  assume inv: "mit_inv (c, ph)" and w: "wire_part c' = wire_part c" and r: "rules_inv c'"
  show ?thesis using inv r unfolding mit_inv_def prod.case wire_part_views [OF w] by blast
qed

lemma mit_inv_fewer: "mit_inv (c, ph) \<Longrightarrow> fewer_rules c c' \<Longrightarrow> mit_inv (c', ph)"
  by (rule mit_inv_rules) (auto simp: fewer_rules_def mit_inv_def intro: rules_inv_fewer)

lemma mit_inv_frame: "mit_inv (c, ph) \<Longrightarrow> frame c' = frame c \<Longrightarrow> mit_inv (c', ph)"
  by (rule mit_inv_fewer [OF _ fewer_frame])

lemma Add_cases:
  obtains (refused) "fst (Add i req now c) = c"
  | (added) r where "fst (Add i req now c) = insert_rule c r now" "make_rule c i req now = Inr r" "ru_FlowSpec r \<longrightarrow> flowConflictLocked c r = None"
      "held_routes (fmdrop (ru_key r) (m_rules c)) + ru_Routes r \<le> mf_MaxRules (m_cfg c)"
proof (cases "make_rule c i req now")
  case (Inl err)
  then show thesis by (intro refused) (simp add: Add_def)
next
  case (Inr r)
  show thesis
  proof (cases "(if ru_FlowSpec r then flowConflictLocked c r else None) = None \<and> (if rq_NoReplace req then fmlookup (m_rules c) (ru_key r) else None) = None \<and>
      \<not> held_routes (fmdrop (ru_key r) (m_rules c)) + ru_Routes r > mf_MaxRules (m_cfg c)")
    case True
    then show thesis using Inr by (intro added [of r]) (auto simp: Add_def Let_def split: if_splits)
  next
    case False
    then show thesis using Inr by (intro refused) (auto simp: Add_def Let_def split: option.splits if_splits prod.splits)
  qed
qed

lemma inv_add: "mit_inv (c, ph) \<Longrightarrow> mit_inv (fst (Add i req now c), ph)"
proof (cases rule: Add_cases [where i = i and req = req and now = now and c = c])
  case (added r)
  assume inv: "mit_inv (c, ph)"
  then have "rules_inv c" by (simp add: mit_inv_def)
  then have "rules_inv (insert_rule c r now)" using added(2-4) by (rule rules_inv_insert)
  then show ?thesis unfolding added(1) using mit_inv_rules [OF inv] insert_rule_parts(1) by blast
qed simp

lemma fewer_Remove: "fewer_rules c (fst (Remove e now i c))"
  by (auto simp: Remove_def fewer_rules_drop split: option.splits)

lemma changes_frame: "frame (fst (Changes c)) = frame c"
  by (simp add: Changes_def frame_def wire_part_def fixed_part_def rule_cores_def)

lemma rib_irrelevant:
  "mit_inv (c\<lparr>m_rib := b\<rparr>, ph) = mit_inv (c, ph)"
proof -
  have r: "rule_ok (c\<lparr>m_rib := b\<rparr>) x = rule_ok c x" for x by (simp add: rule_ok_def unicast_ok_def fs_action_ok_def)
  have "rules_inv (c\<lparr>m_rib := b\<rparr>) = rules_inv c" by (simp add: rules_inv_def r rule_cores_def route_keys_def)
  moreover have "tables_ok (c\<lparr>m_rib := b\<rparr>) = tables_ok c" by (simp add: tables_ok_def r)
  moreover have "op_ok (c\<lparr>m_rib := b\<rparr>) op = op_ok c op" for op by (cases op) (simp_all add: r)
  moreover have v: "wire_view (c\<lparr>m_rib := b\<rparr>) = wire_view c" "flow_view (c\<lparr>m_rib := b\<rparr>) = flow_view c" by (simp_all add: wire_view_def fun_eq_iff flow_view_def)
  moreover have "wire_now (c\<lparr>m_rib := b\<rparr>) ph = wire_now c ph" "flow_now (c\<lparr>m_rib := b\<rparr>) ph = flow_now c ph" by (cases ph; simp add: v)+
  moreover have "mode_ph (c\<lparr>m_rib := b\<rparr>) ph = mode_ph c ph" by (cases "(c, ph)" rule: mode_ph.cases) (simp_all add: mit_inject_def empty_tables_def)
  ultimately show ?thesis by (simp add: mit_inv_def)
qed

lemma inv_set_rib: "mit_inv (c, ph) \<Longrightarrow> mit_inv (fst (SetRIB rib c), ph)"
  by (simp add: SetRIB_def rib_irrelevant)

lemma inv_sync:
  assumes inv: "mit_inv (c, Idle)" and "mit_orders e"
  shows "mit_inv (fst (mit_plan e now c), plan_phase now (snd (mit_plan e now c)))"
proof -
  have r: "rules_inv c" using inv by (simp add: mit_inv_def)
  show ?thesis
    using r assms(2)
  proof (cases rule: mit_plan_cases [where now = now])
    case (fin c')
    then show ?thesis using mit_inv_fewer [OF inv fin(3)] by simp
  next
    case (all c')
    have "mit_inv (c', Idle)" by (rule mit_inv_fewer [OF inv all(3)])
    moreover have "mit_inject c'" using all(2) fewer_fixed [OF all(3)] by (simp add: mit_inject_def)
    ultimately show ?thesis using all(1) by (simp add: mit_inv_def phase_ops_def)
  next
    case (ops c' ops)
    have p: "fixed_part c' = fixed_part c" "m_wire c' = m_wire c" "m_fwire c' = m_fwire c" "m_log c' = m_log c" using ops(3) by (simp_all add: planned_def)
    have cfg: "m_cfg c' = m_cfg c" using fixed_partD [OF p(1)] by simp
    have "wire_view c' = wire_view c" "flow_view c' = flow_view c" by (simp_all add: wire_view_def fun_eq_iff flow_view_def cfg p)
    moreover have "tables_ok c' = tables_ok c" unfolding tables_ok_def rule_ok_cong [OF p(1)] cfg p ..
    moreover have "mit_inject c'" using ops(2) cfg by (simp add: mit_inject_def)
    ultimately show ?thesis using ops(1,3) inv by (simp add: mit_inv_def planned_def phase_ops_def)
  qed
qed

lemma op_check_res: "op_check e c op = Some res \<Longrightarrow> res_ok (op, res) \<and> uni_eff w (op, res) = w \<and> flow_eff f (op, res) = f"
  by (cases op) (auto simp: op_check_def res_ok_def split: if_splits)

lemma phase_ops_next [simp]:
  "phase_ops (Calls (fin @ [(op, res)]) todo now) = phase_ops (Calls fin (op # todo) now)"
  "phase_ops (CallOut fin op todo now) = phase_ops (Calls fin (op # todo) now)"
  by (simp_all add: phase_ops_def)

lemma inv_skip: "mit_inv (c, Calls fin (op # todo) now) \<Longrightarrow> op_check e c op = Some res \<Longrightarrow> mit_inv (c, Calls (fin @ [(op, res)]) todo now)"
  using op_check_res [of e c op res] by (auto simp: mit_inv_def)

lemma inv_check: "mit_inv (c, Calls fin (op # todo) now) \<Longrightarrow> mit_inv (c, CallOut fin op todo now)"
  by (simp add: mit_inv_def)

lemma mit_do_eq: "mit_do e x c = (\<not> me_fails e (m_log c) x, c\<lparr>m_log := m_log c @ [(x, \<not> me_fails e (m_log c) x)]\<rparr>)"
  by (simp add: mit_do_def Let_def)

lemma log_views [simp]:
  "wire_now (c\<lparr>m_log := l\<rparr>) ph = wire_now c ph" "flow_now (c\<lparr>m_log := l\<rparr>) ph = flow_now c ph" "op_ok (c\<lparr>m_log := l\<rparr>) op = op_ok c op"
  "tables_ok (c\<lparr>m_log := l\<rparr>) = tables_ok c" "rules_inv (c\<lparr>m_log := l\<rparr>) = rules_inv c" "mode_ph (c\<lparr>m_log := l\<rparr>) ph = mode_ph c ph"
proof -
  have fx: "fixed_part (c\<lparr>m_log := l\<rparr>) = fixed_part c" by (simp add: fixed_part_def)
  have v: "wire_view (c\<lparr>m_log := l\<rparr>) = wire_view c" "flow_view (c\<lparr>m_log := l\<rparr>) = flow_view c" by (simp_all add: wire_view_def fun_eq_iff flow_view_def)
  show "wire_now (c\<lparr>m_log := l\<rparr>) ph = wire_now c ph" "flow_now (c\<lparr>m_log := l\<rparr>) ph = flow_now c ph" by (cases ph; simp add: v)+
  show "op_ok (c\<lparr>m_log := l\<rparr>) op = op_ok c op" by (rule op_ok_cong [OF fx]) simp
  show "tables_ok (c\<lparr>m_log := l\<rparr>) = tables_ok c" unfolding tables_ok_def rule_ok_cong [OF fx] by simp
  show "rules_inv (c\<lparr>m_log := l\<rparr>) = rules_inv c" by (rule rules_inv_cong [OF fx]) (simp_all add: rule_cores_def)
  show "mode_ph (c\<lparr>m_log := l\<rparr>) ph = mode_ph c ph" by (cases "(c, ph)" rule: mode_ph.cases) (simp_all add: mit_inject_def empty_tables_def)
qed

lemma op_call_eff:
  assumes "op_ok c op"
  defines "res ok \<equiv> if ok then OpOk else OpErr (MitCallFailed (op_call op))"
  shows "mit_wire_do w (op_call op, ok) = uni_eff w (op, res ok)" "mit_flow_do f (op_call op, ok) = flow_eff f (op, res ok)" "res_ok (op, res ok)"
  using assms(1) by (cases op; cases ok; auto simp: op_call_def res_def res_ok_def mit_route_def)+

lemma inv_call:
  assumes "mit_inv (c, CallOut fin op todo now)"
  shows "mit_inv (fst (op_do e op c), Calls (fin @ [(op, snd (op_do e op c))]) todo now)"
proof -
  have "op_ok c op" using assms by (simp add: mit_inv_def phase_ops_def)
  note eff = op_call_eff [OF this]
  then show ?thesis using assms by (auto simp: op_do_def mit_do_eq mit_inv_def mit_wire_snoc)
qed

lemma inv_commit:
  assumes "mit_inv (c, Calls fin [] now)"
  shows "mit_inv (settleLocked now (fst (commitLocked fin c)), Idle)"
proof -
  let ?c = "fst (commitLocked fin c)"
  have "\<forall>x \<in> set fin. fits c (fst x) \<and> res_ok x" "tables_ok c" using assms by (auto simp: mit_inv_def phase_ops_def intro: op_ok_fits)
  note cm = commitLocked_ok [OF this]
  have fx: "fixed_part ?c = fixed_part c" "rule_cores ?c = rule_cores c" "m_refs ?c = m_refs c" using cm by (simp_all add: committed_def)
  have "rules_inv ?c" unfolding rules_inv_cong [OF fx] using assms by (simp add: mit_inv_def)
  moreover have "mit_inject ?c" using assms fixed_partD [OF fx(1)] by (simp add: mit_inv_def mit_inject_def)
  ultimately have "mit_inv (?c, Idle)" using cm assms by (simp add: mit_inv_def phase_ops_def committed_def)
  then show ?thesis by (rule mit_inv_frame) simp
qed

lemma empty_tables_fmlen: "fmlen (m_wire c) + fmlen (m_fwire c) = 0 \<longleftrightarrow> empty_tables c"
  by (auto simp: empty_tables_def fmlen_def fmdom'_iff intro!: fmap_ext)

lemma inv_all:
  assumes "mit_inv (c, AllOut a)"
  shows "mit_inv (snd (mit_do e MitWithdrawAll c), if fst (mit_do e MitWithdrawAll c) then AllBack a else Closing (after_failed a))"
  using assms by (cases a) (auto simp: mit_do_eq mit_inv_def phase_ops_def mit_wire_snoc)

lemma inv_clear:
  assumes "mit_inv (c, AllBack a)"
  shows "mit_inv (clear_wire c, Closing a)"
proof -
  have fx: "fixed_part (clear_wire c) = fixed_part c" "rule_cores (clear_wire c) = rule_cores c" "m_refs (clear_wire c) = m_refs c"
    by (simp_all add: clear_wire_def fixed_part_def rule_cores_def)
  have "wire_view (clear_wire c) = Map.empty" "flow_view (clear_wire c) = Map.empty" "tables_ok (clear_wire c)" "empty_tables (clear_wire c)"
    by (simp_all add: clear_wire_def wire_view_def flow_view_def fun_eq_iff tables_ok_def empty_tables_def)
  moreover have "mode_ph (clear_wire c) (Closing a)" using \<open>empty_tables _\<close> by (cases a) simp_all
  moreover have "m_inflight (clear_wire c) = m_inflight c" "m_log (clear_wire c) = m_log c" by (simp_all add: clear_wire_def)
  ultimately show ?thesis using assms rules_inv_cong [OF fx] by (simp add: mit_inv_def phase_ops_def)
qed

lemma inv_enter:
  assumes inv: "mit_inv (c, Closing (AfterEnter now mode))"
  shows "mit_inv (fst (mit_enter e now mode c), Idle)"
proof (cases "(if \<not> mit_inject c \<and> mode = ''inject'' then checkEnterLocked c else None) = None")
  case False
  then obtain err where "(if \<not> mit_inject c \<and> mode = ''inject'' then checkEnterLocked c else None) = Some err" by blast
  then have "fst (mit_enter e now mode c) = settleLocked now c" by (simp add: mit_enter_def Let_def)
  moreover have "mit_inv (c, Idle)" using inv by (simp add: mit_inv_def phase_ops_def)
  ultimately show ?thesis using mit_inv_frame [of c Idle "settleLocked now c"] by simp
next
  case True
  define c1 where "c1 = (if \<not> mit_inject c \<and> mode = ''inject'' then foldl (drop_rule now ChangeRemoved DroppedByMode) c (me_keys e (sortedKeys (m_rules c))) else c)"
  let ?c2 = "c1\<lparr>m_cfg := (m_cfg c1)\<lparr>mf_Mode := mode\<rparr>\<rparr>"
  have eq: "fst (mit_enter e now mode c) = settleLocked now ?c2" using True by (simp add: mit_enter_def Let_def c1_def)
  have "fewer_rules c c1" by (simp add: c1_def fewer_dropped)
  then have inv1: "mit_inv (c1, Closing (AfterEnter now mode))" by (rule mit_inv_fewer [OF inv])
  have r: "rule_ok ?c2 x = rule_ok c1 x" "mit_route ((m_cfg c1)\<lparr>mf_Mode := mode\<rparr>) = mit_route (m_cfg c1)"
    "flowRoutes ((m_cfg c1)\<lparr>mf_Mode := mode\<rparr>) x = flowRoutes (m_cfg c1) x" for x
    by (simp_all add: rule_ok_def unicast_ok_def fs_action_ok_def mit_route_def [abs_def] flowRoutes_def)
  have "rules_inv ?c2 = rules_inv c1" by (simp add: rules_inv_def r rule_cores_def route_keys_def)
  moreover have "tables_ok ?c2 = tables_ok c1" by (simp add: tables_ok_def r)
  moreover have "wire_view ?c2 = wire_view c1" "flow_view ?c2 = flow_view c1" by (simp_all add: wire_view_def fun_eq_iff flow_view_def r)
  moreover have "mode_ph ?c2 Idle" using inv1 by (auto simp: mit_inv_def mit_inject_def empty_tables_def)
  ultimately have "mit_inv (?c2, Idle)" using inv1 by (simp add: mit_inv_def phase_ops_def)
  then show ?thesis unfolding eq by (rule mit_inv_frame) simp
qed

lemma mit_inv_step:
  assumes inv: "mit_inv s" and step: "mit_step e s s'"
  shows "mit_inv s'"
  using step
proof cases
  case (none c a)
  have "empty_tables c" using none(3) unfolding empty_tables_fmlen .
  then show ?thesis using inv none(1,2) by (cases a) (simp_all add: mit_inv_def phase_ops_def)
next
  case (withdraw c now)
  then show ?thesis using inv by (auto simp: mit_inv_def phase_ops_def)
next
  case (runtime c mode now)
  then show ?thesis using inv by (auto simp: mit_inv_def phase_ops_def)
next
  case (close c a)
  then show ?thesis using inv inv_enter mit_inv_frame [of c Idle] by (cases a) (auto simp: mit_inv_def phase_ops_def intro!: mit_inv_frame [of c Idle])
qed (use inv in \<open>simp_all add: inv_add inv_set_rib inv_sync inv_skip inv_check inv_call inv_commit inv_all inv_clear mit_inv_fewer [OF _ fewer_Remove] mit_inv_frame [OF _ changes_frame]\<close>)

section \<open>Reachable states\<close>

text \<open>The controller starts without routes, and is told once about the two other controllers.\<close>

inductive reachable_mit :: "mitController \<times> mit_phase \<Rightarrow> bool" where
  start: "mit_New cfg ann = Inr c \<Longrightarrow> reachable_mit (SetInbound ib (SetOutbound ob c), Idle)"
| step: "reachable_mit s \<Longrightarrow> mit_step e s s' \<Longrightarrow> reachable_mit s'"

abbreviation mit_run :: "mit_env \<Rightarrow> mitController \<times> mit_phase \<Rightarrow> mitController \<times> mit_phase \<Rightarrow> bool" where
  "mit_run e \<equiv> (mit_step e)\<^sup>*\<^sup>*"

lemma reachable_mit_run: "mit_run e s s' \<Longrightarrow> reachable_mit s \<Longrightarrow> reachable_mit s'"
  by (induction rule: rtranclp_induct) (auto intro: reachable_mit.step)

lemma mit_New_empty:
  assumes "mit_New cfg ann = Inr c"
  shows "m_rules c = fmempty \<and> m_wire c = fmempty \<and> m_fwire c = fmempty \<and> m_inflight c = {} \<and> m_log c = [] \<and> m_feed c = [] \<and> m_pending c = [] \<and>
    m_cfg c = cfg \<and> 1 \<le> mf_MaxRules cfg"
  using assms by (auto simp: mit_New_def Let_def split: if_splits option.splits)

lemma reachable_mit_inv: "reachable_mit s \<Longrightarrow> mit_inv s"
proof (induction rule: reachable_mit.induct)
  case (start cfg ann c ib ob)
  then show ?case using mit_New_empty [OF start]
    by (simp add: mit_inv_def phase_ops_def SetInbound_def SetOutbound_def rules_inv_def rule_cores_def tables_ok_def mit_wire_def mit_flow_def
        wire_view_def flow_view_def fun_eq_iff empty_tables_def)
qed (rule mit_inv_step)

text \<open>The operations of the source are runs of the machine.\<close>

lemma runOps_run:
  assumes "runOps e ops c = (c', oprs)"
  shows "mit_run e (c, Calls fin ops now) (c', Calls (fin @ oprs) [] now)"
  using assms
proof (induction ops arbitrary: c oprs fin)
  case (Cons op ops)
  obtain c1 res where one: "run_op e op c = (c1, res)" by (cases "run_op e op c")
  obtain rest where rest: "runOps e ops c1 = (c', rest)" "oprs = (op, res) # rest" using Cons.prems one by (auto split: prod.splits)
  have "mit_run e (c, Calls fin (op # ops) now) (c1, Calls (fin @ [(op, res)]) ops now)"
  proof (cases "op_check e c op")
    case None
    then have "op_do e op c = (c1, res)" using one by (simp add: run_op_def)
    then show ?thesis using mit_step.check [OF None, of fin ops now] mit_step.call [of e c fin op ops now] by (simp add: converse_rtranclp_into_rtranclp)
  next
    case (Some r)
    then show ?thesis using mit_step.skip [OF Some, of fin ops now] one by (simp add: run_op_def)
  qed
  with Cons.IH [OF rest(1), of "fin @ [(op, res)]"] show ?case by (simp add: rest(2))
qed simp

lemma withdrawAllWire_run:
  "mit_run e (c, AllOut a) (fst (withdrawAllWire e c), Closing (if snd (withdrawAllWire e c) = [] then a else after_failed a))"
proof (cases "fmlen (m_wire c) + fmlen (m_fwire c) = 0")
  case True
  then show ?thesis using mit_step.none [OF True, of e a] by (auto simp: withdrawAllWire_def)
next
  case False
  show ?thesis
  proof (cases "fst (mit_do e MitWithdrawAll c)")
    case True
    then have "mit_step e (c, AllOut a) (snd (mit_do e MitWithdrawAll c), AllBack a)" using mit_step.all [OF False, of e a] by simp
    then have "mit_run e (c, AllOut a) (clear_wire (snd (mit_do e MitWithdrawAll c)), Closing a)"
      using mit_step.clear [of e "snd (mit_do e MitWithdrawAll c)" a] by (simp add: converse_rtranclp_into_rtranclp)
    then show ?thesis using True unfolding withdrawAllWire_def if_not_P [OF False] by (cases "mit_do e MitWithdrawAll c") simp
  next
    case failed: False
    then have "mit_step e (c, AllOut a) (snd (mit_do e MitWithdrawAll c), Closing (after_failed a))" using mit_step.all [OF False, of e a] by simp
    then show ?thesis using failed unfolding withdrawAllWire_def if_not_P [OF False] by (cases "mit_do e MitWithdrawAll c") auto
  qed
qed

lemma mit_Sync_run:
  assumes "mit_orders e"
  shows "mit_run e (c, Idle) (fst (mit_Sync e now c), Idle)"
proof -
  obtain c1 pl where plan: "mit_plan e now c = (c1, pl)" by (cases "mit_plan e now c")
  have first: "mit_step e (c, Idle) (c1, plan_phase now pl)" using mit_step.sync [OF assms, of c now] by (simp add: plan)
  have "mit_run e (c1, plan_phase now pl) (fst (mit_Sync e now c), Idle)"
  proof (cases pl)
    case SyncDone
    then show ?thesis by (simp add: mit_Sync_def plan)
  next
    case SyncWithdraw
    from withdrawAllWire_run [of e c1 "AfterSettle now"] have "mit_run e (c1, AllOut (AfterSettle now)) (fst (withdrawAllWire e c1), Closing (AfterSettle now))"
      by (simp split: if_splits)
    also have "mit_step e (fst (withdrawAllWire e c1), Closing (AfterSettle now)) (settleLocked now (fst (withdrawAllWire e c1)), Idle)"
      using mit_step.close [of e "fst (withdrawAllWire e c1)" "AfterSettle now"] by simp
    finally show ?thesis using SyncWithdraw by (simp add: mit_Sync_def plan case_prod_beta)
  next
    case (SyncOps ops)
    obtain c2 oprs where r: "runOps e ops c1 = (c2, oprs)" by (cases "runOps e ops c1")
    have "mit_run e (c1, Calls [] ops now) (c2, Calls oprs [] now)" using runOps_run [OF r, of "[]" now] by simp
    also have "mit_step e (c2, Calls oprs [] now) (settleLocked now (fst (commitLocked oprs c2)), Idle)" by (rule mit_step.commit)
    finally show ?thesis using SyncOps r by (simp add: mit_Sync_def plan case_prod_beta)
  qed
  with first show ?thesis by (rule converse_rtranclp_into_rtranclp)
qed

lemma mit_WithdrawAll_run: "mit_run e (c, Idle) (fst (mit_WithdrawAll e now c), Idle)"
proof (cases "m_ann c")
  case False
  then show ?thesis by (simp add: mit_WithdrawAll_def)
next
  case True
  have close: "mit_step e (x, Closing (AfterSettle now)) (settleLocked now x, Idle)" for x using mit_step.close [of e x "AfterSettle now"] by simp
  show ?thesis
  proof (cases "mit_inject c")
    case inj: True
    have "mit_run e (c, Idle) (c, AllOut (AfterSettle now))" using mit_step.withdraw [OF True, of e now] inj by auto
    also have "mit_run e (c, AllOut (AfterSettle now)) (fst (withdrawAllWire e c), Closing (AfterSettle now))"
      using withdrawAllWire_run [of e c "AfterSettle now"] by (simp split: if_splits)
    also note close
    finally show ?thesis using True inj by (simp add: mit_WithdrawAll_def case_prod_beta)
  next
    case False
    have "mit_run e (c, Idle) (c, Closing (AfterSettle now))" using mit_step.withdraw [OF True, of e now] False by auto
    also note close
    finally show ?thesis using True False by (simp add: mit_WithdrawAll_def case_prod_beta)
  qed
qed

lemma mit_ApplyRuntime_run: "mit_run e (c, Idle) (fst (mit_ApplyRuntime e now mode c), Idle)"
proof (cases "mit_inject c \<and> mode \<noteq> ''inject''")
  case True
  let ?w = "withdrawAllWire e c"
  have "mit_run e (c, Idle) (c, AllOut (AfterEnter now mode))" using mit_step.runtime [of e c mode now] True by auto
  also have "mit_run e (c, AllOut (AfterEnter now mode)) (fst ?w, Closing (if snd ?w = [] then AfterEnter now mode else AfterSettle now))"
    using withdrawAllWire_run [of e c "AfterEnter now mode"] unfolding after_failed.simps .
  also have "mit_step e (fst ?w, Closing (if snd ?w = [] then AfterEnter now mode else AfterSettle now)) (fst (mit_ApplyRuntime e now mode c), Idle)"
  proof -
    obtain w errs where w: "?w = (w, errs)" by (cases ?w)
    show ?thesis using mit_step.close [of e w "AfterEnter now mode"] mit_step.close [of e w "AfterSettle now"]
      unfolding mit_ApplyRuntime_def if_P [OF True] w by (cases errs) simp_all
  qed
  finally show ?thesis .
next
  case False
  have "mit_run e (c, Idle) (c, Closing (AfterEnter now mode))" using mit_step.runtime [of e c mode now] False by auto
  also have "mit_step e (c, Closing (AfterEnter now mode)) (fst (mit_ApplyRuntime e now mode c), Idle)"
    using mit_step.close [of e c "AfterEnter now mode"] unfolding mit_ApplyRuntime_def if_not_P [OF False] by simp
  finally show ?thesis .
qed

end
