(* ===== verification/Mitigation_Safe.thy ===== *)
theory Mitigation_Safe
  imports Mitigation_Machine
begin

text \<open>What holds of the mitigation controller at every moment, whatever is added or removed while calls are out.\<close>

section \<open>What no step changes\<close>

definition policy where
  "policy c = ((m_cfg c)\<lparr>mf_Mode := []\<rparr>, m_ann c, m_fs c, m_catalog c, m_fsCat c, m_outbound c, m_inbound c)"

lemma policyD:
  assumes "policy c' = policy c"
  shows "mf_Allowlist (m_cfg c') = mf_Allowlist (m_cfg c)" "mf_LocalPref (m_cfg c') = mf_LocalPref (m_cfg c)" "mf_Community (m_cfg c') = mf_Community (m_cfg c)"
    "m_ann c' = m_ann c" "m_catalog c' = m_catalog c" "m_fsCat c' = m_fsCat c" "m_outbound c' = m_outbound c" "m_inbound c' = m_inbound c"
proof -
  have e: "(m_cfg c')\<lparr>mf_Mode := []\<rparr> = (m_cfg c)\<lparr>mf_Mode := []\<rparr>" using assms by (simp add: policy_def)
  have "mf_Allowlist ((m_cfg c')\<lparr>mf_Mode := []\<rparr>) = mf_Allowlist ((m_cfg c)\<lparr>mf_Mode := []\<rparr>)"
    "mf_LocalPref ((m_cfg c')\<lparr>mf_Mode := []\<rparr>) = mf_LocalPref ((m_cfg c)\<lparr>mf_Mode := []\<rparr>)"
    "mf_Community ((m_cfg c')\<lparr>mf_Mode := []\<rparr>) = mf_Community ((m_cfg c)\<lparr>mf_Mode := []\<rparr>)" unfolding e by simp_all
  then show "mf_Allowlist (m_cfg c') = mf_Allowlist (m_cfg c)" "mf_LocalPref (m_cfg c') = mf_LocalPref (m_cfg c)" "mf_Community (m_cfg c') = mf_Community (m_cfg c)" by simp_all
  show "m_ann c' = m_ann c" "m_catalog c' = m_catalog c" "m_fsCat c' = m_fsCat c" "m_outbound c' = m_outbound c" "m_inbound c' = m_inbound c" using assms by (simp_all add: policy_def)
qed

lemma policy_fixed: "fixed_part c' = fixed_part c \<Longrightarrow> policy c' = policy c"
  by (drule fixed_partD) (simp add: policy_def)

lemma policy_frame: "frame c' = frame c \<Longrightarrow> policy c' = policy c \<and> m_log c' = m_log c"
  by (auto dest!: frameD wire_partD intro: policy_fixed)

lemma policy_fewer: "fewer_rules c c' \<Longrightarrow> policy c' = policy c \<and> m_log c' = m_log c"
  by (auto simp: fewer_rules_def dest!: wire_partD intro: policy_fixed)

lemma policy_settle [simp]: "policy (settleLocked now c) = policy c" "m_log (settleLocked now c) = m_log c"
  using policy_frame [OF settleLocked_frame] by blast+

lemma policy_log [simp]: "policy (c\<lparr>m_log := l\<rparr>) = policy c"
  by (simp add: policy_def)

lemma policy_enter: "policy (fst (mit_enter e now mode c)) = policy c \<and> m_log (fst (mit_enter e now mode c)) = m_log c"
proof -
  have "policy (foldl (drop_rule now ChangeRemoved DroppedByMode) c ks) = policy c \<and> m_log (foldl (drop_rule now ChangeRemoved DroppedByMode) c ks) = m_log c" for ks
    by (rule policy_fewer [OF fewer_dropped])
  moreover have "policy (x\<lparr>m_cfg := (m_cfg x)\<lparr>mf_Mode := mode\<rparr>\<rparr>) = policy x" for x by (simp add: policy_def)
  ultimately show ?thesis by (auto simp: mit_enter_def Let_def split: option.splits)
qed

text \<open>A call an announcer may be asked to make.\<close>

definition safe_call :: "mitController \<Rightarrow> mit_call \<Rightarrow> bool" where
  "safe_call c x = (case x of
     MitAnnounce rt \<Rightarrow> Masked (mr_Prefix rt) = mr_Prefix rt \<and> 0 < Bits (mr_Prefix rt) \<and> CoveredBy (mf_Allowlist (m_cfg c)) (mr_Prefix rt) \<and>
       mr_LocalPref rt = mf_LocalPref (m_cfg c) \<and> mr_Community rt = mf_Community (m_cfg c) \<and>
       (mr_Action rt = MitigationBlackhole \<and> mr_Target rt = [] \<and> (m_ann c \<longrightarrow> mc_Blackhole (m_catalog c)) \<or>
        mr_Action rt = MitigationRedirect \<and> (\<exists>t. catalog_Target (m_catalog c) (mr_Target rt) = Some t \<and> Is4 (mt_NextHop t) = Is4 (Addr (mr_Prefix rt))))
   | MitAnnounceFS rt \<Rightarrow> Masked (fr_Destination rt) = fr_Destination rt \<and> 0 < Bits (fr_Destination rt) \<and> CoveredBy (mf_Allowlist (m_cfg c)) (fr_Destination rt) \<and>
       fr_LocalPref rt = mf_LocalPref (m_cfg c) \<and> fr_Community rt = mf_Community (m_cfg c) \<and> IsFlowSpec (fr_Action rt) \<and>
       fs_action_ok c (fr_Action rt) (fr_Target rt) (fr_RateMbps rt)
   | _ \<Rightarrow> True)"

lemma safe_call_cong:
  assumes "policy c' = policy c"
  shows "safe_call c' x = safe_call c x"
  unfolding safe_call_def fs_action_ok_def policyD [OF assms] ..

lemma flowRoutes_fields: "rt \<in> set (flowRoutes cfg r) \<Longrightarrow> fr_Destination rt = ru_Prefix r \<and> fr_Action rt = ru_Action r \<and> fr_Target rt = ru_Target r \<and>
    fr_RateMbps rt = ru_RateMbps r \<and> fr_LocalPref rt = mf_LocalPref cfg \<and> fr_Community rt = mf_Community cfg"
  by (auto simp: flowRoutes_def Let_def split: if_splits)

lemma op_ok_safe: "op_ok c op \<Longrightarrow> safe_call c (op_call op)"
proof (cases op)
  case (WopAnnounce p rt r w)
  then show "op_ok c op \<Longrightarrow> safe_call c (op_call op)" by (auto simp: op_call_def safe_call_def mit_route_def rule_ok_def unicast_ok_def)
next
  case (WopAnnounceFS k rt r)
  then show "op_ok c op \<Longrightarrow> safe_call c (op_call op)"
    using flowRoutes_fields [of rt "m_cfg c" r] by (auto simp: op_call_def safe_call_def rule_ok_def ru_FlowSpec_def)
qed (simp_all add: op_call_def safe_call_def)

text \<open>A step makes at most one call.\<close>

lemma step_calls:
  assumes "mit_inv (c, ph)" "mit_step e (c, ph) (c', ph')"
  shows "policy c' = policy c \<and> (m_log c' = m_log c \<or> (\<exists>x ok. m_log c' = m_log c @ [(x, ok)] \<and> safe_call c x))"
  using assms(2)
proof cases
  case (add i req now)
  then show ?thesis
  proof (cases rule: Add_cases [where i = i and req = req and now = now and c = c])
    case (added r)
    have "fixed_part (insert_rule c r now) = fixed_part c \<and> m_log (insert_rule c r now) = m_log c" using insert_rule_parts(1) [of c r now] by (auto dest: wire_partD)
    then show ?thesis using add added policy_fixed by auto
  qed simp
next
  case (remove now i)
  then show ?thesis using policy_fewer [OF fewer_Remove] by auto
next
  case changes
  then show ?thesis using policy_frame [OF changes_frame] by auto
next
  case (set_rib rib)
  then show ?thesis by (simp add: SetRIB_def policy_def)
next
  case (sync now)
  have r: "rules_inv c" using assms(1) by (simp add: mit_inv_def)
  from r sync(4) show ?thesis
  proof (cases rule: mit_plan_cases [where now = now])
    case (fin c2)
    then show ?thesis using sync policy_fewer [OF fin(3)] by auto
  next
    case (all c2)
    then show ?thesis using sync policy_fewer [OF all(3)] by auto
  next
    case (ops c2 ops)
    then have "fixed_part c2 = fixed_part c" "m_log c2 = m_log c" by (simp_all add: planned_def)
    then show ?thesis using sync ops(1) policy_fixed by auto
  qed
next
  case (call fin op todo now)
  then have "op_ok c op" using assms(1) by (simp add: mit_inv_def phase_ops_def)
  then show ?thesis using call op_ok_safe by (auto simp: op_do_def mit_do_eq)
next
  case (commit fin now)
  have "\<forall>x \<in> set fin. fits c (fst x) \<and> res_ok x" "tables_ok c" using assms(1) commit by (auto simp: mit_inv_def phase_ops_def intro: op_ok_fits)
  from commitLocked_ok [OF this] show ?thesis using commit policy_fixed by (auto simp: committed_def)
next
  case (all a)
  then show ?thesis by (auto simp: mit_do_eq safe_call_def)
next
  case (clear a)
  then show ?thesis by (simp add: clear_wire_def policy_def)
next
  case (close a)
  then show ?thesis using policy_enter by (cases a) auto
qed simp_all

lemma reachable_calls:
  assumes "reachable_mit s"
  shows "\<forall>(x, ok) \<in> set (m_log (fst s)). safe_call (fst s) x"
  using assms
proof (induction rule: reachable_mit.induct)
  case (start cfg ann c ib ob)
  then show ?case using mit_New_empty [OF start] by (simp add: SetInbound_def SetOutbound_def)
next
  case (step s e s')
  obtain c ph c' ph' where s: "s = (c, ph)" "s' = (c', ph')" by (cases s; cases s')
  have "policy c' = policy c \<and> (m_log c' = m_log c \<or> (\<exists>x ok. m_log c' = m_log c @ [(x, ok)] \<and> safe_call c x))"
    using step_calls [of c ph e c' ph'] reachable_mit_inv [OF step.hyps(1)] step.hyps(2) by (simp add: s)
  then show ?case using step.IH safe_call_cong [of c' c] by (auto simp: s)
qed

lemma uni_eff_dom: "foldl uni_eff w fin p \<noteq> None \<Longrightarrow> w p \<noteq> None \<or> p \<in> announced_prefixes (map fst fin)"
proof (induction fin arbitrary: w)
  case (Cons x fin)
  obtain op res where x: "x = (op, res)" by (cases x)
  have "announced_prefixes (op # map fst fin) = announced_prefixes [op] \<union> announced_prefixes (map fst fin)"
    by (metis announced_simps(2) append_Cons append_Nil)
  moreover have "uni_eff w (op, res) p \<noteq> None \<Longrightarrow> w p \<noteq> None \<or> p \<in> announced_prefixes [op]" by (cases op; cases res) (auto split: if_splits)
  ultimately show ?case using Cons.IH [of "uni_eff w x"] Cons.prems by (auto simp: x)
qed simp

lemma wire_held:
  assumes "mit_inv (c, ph)" "mit_wire (m_log c) p \<noteq> None"
  shows "mit_inject c \<and> Masked p = p \<and> (fmlookup (m_wire c) p \<noteq> None \<or> p \<in> m_inflight c)"
proof -
  have now: "wire_now c ph p \<noteq> None" using assms by (simp add: mit_inv_def)
  then have fold: "foldl uni_eff (wire_view c) (phase_done ph) p \<noteq> None" by (cases ph) auto
  have on: "fmlookup (m_wire c) p \<noteq> None \<or> p \<in> m_inflight c"
    using uni_eff_dom [OF fold] assms(1) by (auto simp: mit_inv_def phase_ops_def wire_view_def)
  have "mit_inject c"
  proof (rule ccontr)
    assume "\<not> ?thesis"
    then have "empty_tables c \<and> phase_done ph = []" using assms(1) by (cases "(c, ph)" rule: mode_ph.cases) (auto simp: mit_inv_def)
    then show False using fold by (simp add: wire_view_def empty_tables_def)
  qed
  moreover have "Masked p = p"
    using on assms(1) by (auto simp: mit_inv_def tables_ok_def rule_ok_def announced_prefixes_def)
  ultimately show ?thesis using on by simp
qed

end
