(* ===== verification/Mitigation_Sync.thy ===== *)
theory Mitigation_Sync
  imports Mitigation_Safe
begin

text \<open>
  What a synchronisation without an error leaves on the wire for the blackhole and redirect rules, and the properties of
  the mitigation controller.
\<close>

section \<open>What the plan decides\<close>

lemma expire_step_rules: "m_rules (expire_step now c k) =
    (case fmlookup (m_rules c) k of Some r \<Rightarrow> if now < ru_Expires r then m_rules c else fmdrop k (m_rules c) | None \<Rightarrow> m_rules c)"
  by (auto simp: expire_step_def drop_rule_def split: option.splits)

lemma expire_fold:
  "fmlookup (m_rules (foldl (expire_step now) c ks)) k = Some r \<Longrightarrow> fmlookup (m_rules c) k = Some r \<and> (k \<in> set ks \<longrightarrow> now < ru_Expires r)"
proof (induction ks arbitrary: c)
  case (Cons j ks)
  from Cons.IH [of "expire_step now c j"] Cons.prems show ?case
    by (auto simp: expire_step_rules split: option.splits if_splits)
qed simp

lemma gone_fold:
  "me_Contains e p \<Longrightarrow> fmlookup g p = None \<or> p \<in> set on \<Longrightarrow>
    fmlookup (foldl (\<lambda>g p. if me_Contains e p then fmdrop p g else if fmlookup g p = None then fmupd p now g else g) g on) p = None"
proof (induction on arbitrary: g)
  case (Cons a on)
  then show ?case by (cases "a = p") auto
qed simp

lemma trackGone_seen: "me_Contains e p \<Longrightarrow> fmlookup (m_gone (trackGoneLocked e now c)) p = None"
  by (simp add: trackGoneLocked_def Let_def gone_fold)

lemma uni_rules_complete:
  assumes "rules_inv c" "mit_orders e" "fmlookup (m_rules c) k = Some r" "\<not> ru_FlowSpec r"
  shows "fmlookup (uni_rules e c) (ru_Prefix r) = Some r"
proof -
  let ?f = "\<lambda>m k. case fmlookup (m_rules c) k of None \<Rightarrow> m | Some r \<Rightarrow> if ru_FlowSpec r then m else fmupd (ru_Prefix r) r m"
  have uniq: "j = k" if "fmlookup (m_rules c) j = Some x" "\<not> ru_FlowSpec x" "ru_Prefix x = ru_Prefix r" for j x
    using rules_invD(1,2) [OF assms(1) that(1)] rules_invD(1,2) [OF assms(1,3)] that(2,3) assms(4) by (auto simp: rule_ok_def)
  have "k \<in> set ks \<Longrightarrow> fmlookup (foldl ?f m ks) (ru_Prefix r) = Some r" for m ks
  proof (induction ks rule: rev_induct)
    case (snoc j ks)
    show ?case
    proof (cases "j = k")
      case True
      then show ?thesis using assms(3,4) by simp
    next
      case False
      then have "fmlookup (foldl ?f m ks) (ru_Prefix r) = Some r" using snoc by simp
      then show ?thesis using uniq [of j] False by (auto split: option.splits)
    qed
  qed simp
  moreover have "k \<in> set (me_keys e (sortedKeys (m_rules c)))" using assms(2,3) by (simp add: mit_orders_set fmdom'_iff)
  ultimately show ?thesis by (simp add: uni_rules_def)
qed

definition decided :: "mit_env \<Rightarrow> time \<Rightarrow> mitController \<Rightarrow> prefix \<Rightarrow> Rule \<Rightarrow> wireOp list \<Rightarrow> bool" where
  "decided e now c p r ops \<longleftrightarrow>
     p \<notin> set (uni_prefixes ops) \<and> ((\<exists>w. fmlookup (m_wire c) p = Some w \<and> same_unicast w r) \<or> fmlookup (m_wire c) p = None \<and> \<not> me_Contains e p) \<or>
     WopWithdraw p \<in> set ops \<and> leftLocked c now p \<or>
     WopAnnounce p (mit_route (m_cfg c) r) r (fmlookup (m_wire c) p = None) \<in> set ops"

lemma unicast_step_extends:
  "\<exists>new. snd (unicast_step e now uni acc p) = snd acc @ new \<and> set (uni_prefixes new) \<subseteq> {p}"
proof -
  obtain c ops where acc: "acc = (c, ops)" by (cases acc)
  show ?thesis unfolding acc by (cases rule: unicast_step_shape [where e = e and now = now and uni = uni and c = c and ops = ops and p = p]) simp_all
qed

lemma unicast_fold_extends:
  "\<exists>new. snd (foldl (unicast_step e now uni) acc ps) = snd acc @ new \<and> set (uni_prefixes new) \<subseteq> set ps"
proof (induction ps arbitrary: acc)
  case (Cons p ps)
  obtain new where "snd (unicast_step e now uni acc p) = snd acc @ new" "set (uni_prefixes new) \<subseteq> {p}" using unicast_step_extends by blast
  moreover obtain new' where "snd (foldl (unicast_step e now uni) (unicast_step e now uni acc p) ps) = snd (unicast_step e now uni acc p) @ new'"
    "set (uni_prefixes new') \<subseteq> set ps" using Cons.IH by blast
  ultimately show ?case by (intro exI [of _ "new @ new'"]) auto
qed simp

lemma unicast_fold_decides:
  assumes "plan_good e c0 acc" "rules_inv c0" "distinct (uni_prefixes (snd acc) @ ps)" "p \<in> set ps" "fmlookup uni p = Some r"
    and uni: "\<And>p r. fmlookup uni p = Some r \<Longrightarrow> rule_ok c0 r \<and> \<not> ru_FlowSpec r \<and> ru_Prefix r = p"
  shows "decided e now c0 p r (snd (foldl (unicast_step e now uni) acc ps))"
proof -
  obtain qs rs where ps: "ps = qs @ p # rs" using split_list [OF assms(4)] by blast
  define mid where "mid = foldl (unicast_step e now uni) acc qs"
  obtain c ops where m: "mid = (c, ops)" by (cases mid)
  have dq: "distinct (uni_prefixes (snd acc) @ qs)" using assms(3) by (auto simp: ps)
  have good: "plan_good e c0 (c, ops)" using unicast_fold_good [OF assms(1,2) dq, of uni now] uni m mid_def by simp
  then have fr: "plan_frame c = plan_frame c0" by (simp add: plan_good_def)
  note same = plan_frameD [OF fr]
  obtain new where "ops = snd acc @ new" "set (uni_prefixes new) \<subseteq> set qs"
    using unicast_fold_extends [of e now uni acc qs] m mid_def by auto
  then have notin: "p \<notin> set (uni_prefixes ops)" using assms(3) by (auto simp: ps)
  have cov: "CoveredBy (mf_Allowlist (m_cfg c)) p" using uni [OF assms(5)] same(8) by (auto simp: rule_ok_def)
  have left: "leftLocked c now p = leftLocked c0 now p" unfolding leftLocked_def same(7,8) ..
  have step: "decided e now c0 p r (snd (unicast_step e now uni (c, ops) p))"
  proof (cases rule: unicast_step_shape [where e = e and now = now and uni = uni and c = c and ops = ops and p = p])
    case (quiet c')
    then show ?thesis using quiet(3) [OF assms(5) cov] notin same(2) by (simp add: decided_def)
  next
    case (withdraw c')
    then show ?thesis using withdraw(3) [OF cov] left by (simp add: decided_def)
  next
    case (announce r')
    then show ?thesis using assms(5) same(2,8) by (simp add: decided_def)
  qed
  obtain new' where "snd (foldl (unicast_step e now uni) (unicast_step e now uni (c, ops) p) rs) = snd (unicast_step e now uni (c, ops) p) @ new'"
    "set (uni_prefixes new') \<subseteq> set rs" using unicast_fold_extends by blast
  moreover have "p \<notin> set rs" using assms(3) by (simp add: ps)
  ultimately show ?thesis using step m mid_def by (auto simp: ps decided_def)
qed

lemma planUnicast_decides:
  assumes "rules_inv c" "mit_orders e"
  shows "fmlookup (m_rules c) k = Some r \<Longrightarrow> \<not> ru_FlowSpec r \<Longrightarrow> decided e now c (ru_Prefix r) r (snd (planUnicastLocked e now c))"
    and "p \<in> fmdom' (m_wire c) \<Longrightarrow> fmlookup (uni_rules e c) p = None \<Longrightarrow> WopWithdraw p \<in> set (snd (planUnicastLocked e now c))"
proof -
  let ?uni = "uni_rules e c" and ?stale = "filter (\<lambda>p. fmlookup (uni_rules e c) p = None) (me_prefixes e (SortedKeys (m_wire c)))"
  let ?acc = "(c, map WopWithdraw ?stale)"
  have good: "plan_good e c ?acc" by (auto simp: plan_good_def grounded_op_def)
  have dist: "distinct (uni_prefixes (snd ?acc) @ SortedKeys ?uni)" using mit_orders_set [OF assms(2)] by (auto simp: fmdom'_iff)
  have uni: "\<And>p r. fmlookup ?uni p = Some r \<Longrightarrow> rule_ok c r \<and> \<not> ru_FlowSpec r \<and> ru_Prefix r = p" using uni_rules_in rules_invD [OF assms(1)] by blast
  have eq: "planUnicastLocked e now c = foldl (unicast_step e now ?uni) ?acc (SortedKeys ?uni)" by (simp add: planUnicastLocked_def Let_def)
  show "decided e now c (ru_Prefix r) r (snd (planUnicastLocked e now c))" if "fmlookup (m_rules c) k = Some r" "\<not> ru_FlowSpec r"
  proof -
    have u: "fmlookup ?uni (ru_Prefix r) = Some r" by (rule uni_rules_complete [OF assms that])
    then show ?thesis unfolding eq using unicast_fold_decides [OF good assms(1) dist _ u uni] by (simp add: fmdom'_iff)
  qed
  show "WopWithdraw p \<in> set (snd (planUnicastLocked e now c))" if "p \<in> fmdom' (m_wire c)" "fmlookup ?uni p = None"
  proof -
    have "WopWithdraw p \<in> set (snd ?acc)" using that mit_orders_set [OF assms(2)] by auto
    then show ?thesis unfolding eq using unicast_fold_extends [of e now ?uni ?acc "SortedKeys ?uni"] by auto
  qed
qed

section \<open>The results of the calls\<close>

lemma runOps_res:
  assumes "runOps e ops c = (c', oprs)"
  shows "map fst oprs = ops \<and> (\<forall>p rt r w why. (WopAnnounce p rt r w, OpPending why) \<in> set oprs \<longrightarrow> w \<and> (me_outbound e p \<or> me_inbound e p))"
  using assms
proof (induction ops arbitrary: c oprs)
  case (Cons op ops)
  obtain c1 res where one: "run_op e op c = (c1, res)" by (cases "run_op e op c")
  obtain rest where rest: "runOps e ops c1 = (c', rest)" "oprs = (op, res) # rest" using Cons.prems one by (auto split: prod.splits)
  have first: "w \<and> (me_outbound e p \<or> me_inbound e p)" if "op = WopAnnounce p rt r w" "res = OpPending why" for p rt r w why
    using one that by (auto simp: run_op_def op_check_def op_do_def split: if_splits option.splits prod.splits)
  show ?case
  proof (intro conjI allI impI)
    show "map fst oprs = op # ops" using Cons.IH [OF rest(1)] rest(2) by simp
  next
    fix p rt r w why assume "(WopAnnounce p rt r w, OpPending why) \<in> set oprs"
    then have "op = WopAnnounce p rt r w \<and> res = OpPending why \<or> (WopAnnounce p rt r w, OpPending why) \<in> set rest" using rest(2) by auto
    then show "w" "me_outbound e p \<or> me_inbound e p" using first Cons.IH [OF rest(1)] by blast+
  qed
qed simp

lemma commit_op_err: "snd (commit_op (op, OpErr err) c) = [err]"
  by (cases op) (simp_all add: commit_op_def Let_def)

lemma commit_Nil:
  assumes "snd (commitLocked oprs c) = []"
  shows "\<forall>(op, res) \<in> set oprs. \<forall>err. res \<noteq> OpErr err"
proof -
  have "snd (foldl (\<lambda>(c, errs) opr. case commit_op opr c of (c1, es) \<Rightarrow> (c1, errs @ es)) (c, errs) oprs) = [] \<Longrightarrow>
      errs = [] \<and> (\<forall>(op, res) \<in> set oprs. \<forall>err. res \<noteq> OpErr err)" for errs
  proof (induction oprs arbitrary: c errs)
    case (Cons x oprs)
    obtain op res where x: "x = (op, res)" by (cases x)
    obtain c1 es where one: "commit_op (op, res) c = (c1, es)" by (cases "commit_op (op, res) c")
    have "errs @ es = [] \<and> (\<forall>(op, res) \<in> set oprs. \<forall>err. res \<noteq> OpErr err)" using Cons.IH [of c1 "errs @ es"] Cons.prems by (simp add: x one)
    moreover have "res \<noteq> OpErr err" if "es = []" for err using that one commit_op_err [of op err c] by auto
    ultimately show ?case by (auto simp: x)
  qed simp
  then show ?thesis using assms by (simp add: commitLocked_def)
qed

lemma uni_eff_other: "uni_prefix (fst x) \<noteq> Some p \<Longrightarrow> uni_eff w x p = w p"
  by (cases "(w, x)" rule: uni_eff.cases) auto

lemma uni_eff_at_cong: "w p = w' p \<Longrightarrow> uni_eff w x p = uni_eff w' x p"
  by (cases "(w, x)" rule: uni_eff.cases) auto

lemma uni_prefixes_Cons: "uni_prefixes (op # ops) = (case uni_prefix op of None \<Rightarrow> [] | Some p \<Rightarrow> [p]) @ uni_prefixes ops"
  by (simp add: uni_prefixes_def List.map_filter_def split: option.splits)

lemma uni_eff_none: "p \<notin> set (uni_prefixes (map fst oprs)) \<Longrightarrow> foldl uni_eff w oprs p = w p"
proof (induction oprs arbitrary: w)
  case (Cons x oprs)
  then have "uni_prefix (fst x) \<noteq> Some p" "p \<notin> set (uni_prefixes (map fst oprs))" by (auto simp: uni_prefixes_Cons split: option.splits)
  then show ?case using Cons.IH [of "uni_eff w x"] uni_eff_other [of x p w] by simp
qed simp

lemma uni_eff_at:
  "distinct (uni_prefixes (map fst oprs)) \<Longrightarrow> (op, res) \<in> set oprs \<Longrightarrow> uni_prefix op = Some p \<Longrightarrow> foldl uni_eff w oprs p = uni_eff w (op, res) p"
proof (induction oprs arbitrary: w)
  case (Cons x oprs)
  show ?case
  proof (cases "x = (op, res)")
    case True
    then have "p \<notin> set (uni_prefixes (map fst oprs))" using Cons.prems(1,3) by (simp add: uni_prefixes_Cons)
    then show ?thesis using uni_eff_none True by simp
  next
    case False
    then have "(op, res) \<in> set oprs" using Cons.prems(2) by simp
    moreover from this have "op \<in> set (map fst oprs)" by force
    then have "p \<in> set (uni_prefixes (map fst oprs))" using Cons.prems(3) by (auto simp: uni_prefixes_def List.map_filter_def image_iff)
    then have "uni_prefix (fst x) \<noteq> Some p" using Cons.prems(1) by (auto simp: uni_prefixes_Cons)
    ultimately show ?thesis using Cons uni_eff_other [of x p w] uni_eff_at_cong [of "uni_eff w x" p w] by (auto simp: uni_prefixes_Cons)
  qed
qed simp

section \<open>A synchronisation without an error\<close>

lemma uni_fold_origin:
  assumes "WopAnnounce p rt r w \<in> set (snd (foldl (unicast_step e now uni) acc ps))" "WopAnnounce p rt r w \<notin> set (snd acc)"
  shows "fmlookup uni p = Some r"
  using assms
proof (induction ps arbitrary: acc)
  case (Cons q ps)
  show ?case
  proof (cases "WopAnnounce p rt r w \<in> set (snd (unicast_step e now uni acc q))")
    case True
    obtain c ops where acc: "acc = (c, ops)" by (cases acc)
    show ?thesis
      by (cases rule: unicast_step_shape [where e = e and now = now and uni = uni and c = c and ops = ops and p = q])
        (use True Cons.prems(2) in \<open>auto simp: acc\<close>)
  next
    case False
    then show ?thesis using Cons.IH Cons.prems(1) by simp
  qed
qed simp

lemma mit_plan_parts:
  assumes "rules_inv c" "mit_orders e" "mit_inject c" "me_Leader e" "m_rib c" "me_Ready e"
  obtains c2 c3 ops1 c4 ops2 where "mit_plan e now c = (c4, SyncOps (ops1 @ ops2))" "rules_inv c2" "planUnicastLocked e now c2 = (c3, ops1)"
    "uni_prefixes ops2 = []" "wire_part c2 = wire_part c" "m_wire c4 = m_wire c2" "m_cfg c4 = m_cfg c2" "rule_cores c4 = rule_cores c2"
    "\<And>k r. fmlookup (m_rules c2) k = Some r \<Longrightarrow> now < ru_Expires r" "\<And>p. me_Contains e p \<Longrightarrow> \<not> leftLocked c2 now p"
proof -
  define c1 where "c1 = foldl (expire_step now) c (me_keys e (sortedKeys (m_rules c)))"
  have few: "fewer_rules c c1" unfolding c1_def by (rule fewer_expired)
  note fx = fewer_fixed [OF few]
  have inj: "mit_inject c1" "m_rib c1" using fx fixed_partD [of c1 c] assms(3,5) by (auto simp: mit_inject_def)
  define c2 where "c2 = trackGoneLocked e now c1"
  obtain c3 ops1 where u: "planUnicastLocked e now c2 = (c3, ops1)" by (cases "planUnicastLocked e now c2")
  obtain c4 ops2 where f: "planFlowSpecLocked e now c3 = (c4, ops2)" by (cases "planFlowSpecLocked e now c3")
  have plan: "mit_plan e now c = (c4, SyncOps (ops1 @ ops2))"
    unfolding mit_plan_def Let_def c1_def [symmetric] c2_def [symmetric] using inj assms u f by simp
  have inv2: "rules_inv c2" using rules_inv_fewer [OF few assms(1)] by (simp add: c2_def rules_inv_trackGone)
  have fr3: "plan_frame c3 = plan_frame c2" using planUnicast_good(1) [OF inv2 assms(2), of now] u by (simp add: plan_good_def)
  have inv3: "rules_inv c3" using inv2 unfolding rules_inv_plan [OF fr3] .
  have g2: "plan_frame c4 = plan_frame c3" "uni_prefixes ops2 = []" using planFlowSpec_good [OF inv3, of e now] f by (simp_all add: plan_good_def)
  have exp: "now < ru_Expires r" if "fmlookup (m_rules c2) k = Some r" for k r
  proof -
    from that have "fmlookup (m_rules (foldl (expire_step now) c (me_keys e (sortedKeys (m_rules c))))) k = Some r" by (simp add: c2_def c1_def)
    from expire_fold [OF this] show ?thesis using mit_orders_set(1) [OF assms(2)] by (auto simp: fmdom'_iff)
  qed
  have "wire_part c2 = wire_part c" using few by (simp add: c2_def fewer_rules_def)
  moreover have "\<not> leftLocked c2 now p" if "me_Contains e p" for p using trackGone_seen [OF that, of now c1] by (simp add: leftLocked_def c2_def)
  ultimately show thesis using plan_frameD [OF g2(1)] plan_frameD [OF fr3] by (intro that [OF plan inv2 u g2(2) _ _ _ _ exp]) simp_all
qed

lemma runOps_log: "runOps e ops c = (c', oprs) \<Longrightarrow> \<exists>l. c' = c\<lparr>m_log := l\<rparr>"
proof (induction ops arbitrary: c oprs)
  case Nil
  then show ?case by (intro exI [of _ "m_log c"]) simp
next
  case (Cons op ops)
  obtain c1 res where one: "run_op e op c = (c1, res)" by (cases "run_op e op c")
  have "\<exists>l. c1 = c\<lparr>m_log := l\<rparr>"
  proof (cases "op_check e c op")
    case None
    then show ?thesis using one by (auto simp: run_op_def op_do_def mit_do_eq)
  next
    case (Some r)
    then show ?thesis using one by (intro exI [of _ "m_log c"]) (simp add: run_op_def)
  qed
  then show ?case using Cons.IH [of c1] Cons.prems one by (auto split: prod.splits)
qed

lemma mit_route_core [simp]: "mit_route cfg (core r) = mit_route cfg r"
  by (simp add: mit_route_def)

text \<open>The wire after the calls of a clean synchronisation, prefix by prefix.\<close>

definition good_results :: "mit_env \<Rightarrow> time \<Rightarrow> mitController \<Rightarrow> wireOp list \<Rightarrow> wireOp list \<Rightarrow> (wireOp \<times> op_result) list \<Rightarrow> bool" where
  "good_results e now c ops1 ops2 oprs \<longleftrightarrow> rules_inv c \<and> tables_ok c \<and> mit_orders e \<and> ops1 = snd (planUnicastLocked e now c) \<and> uni_prefixes ops2 = [] \<and>
     map fst oprs = ops1 @ ops2 \<and> (\<forall>p rt r w why. (WopAnnounce p rt r w, OpPending why) \<in> set oprs \<longrightarrow> w \<and> (me_outbound e p \<or> me_inbound e p)) \<and>
     (\<forall>(op, res) \<in> set oprs. \<forall>err. res \<noteq> OpErr err) \<and> (\<forall>x \<in> set oprs. res_ok x)"

lemma good_resultsD:
  assumes "good_results e now c ops1 ops2 oprs"
  shows "rules_inv c" "tables_ok c" "mit_orders e" "ops1 = snd (planUnicastLocked e now c)" "uni_prefixes ops2 = []" "map fst oprs = ops1 @ ops2"
    "\<forall>p rt r w why. (WopAnnounce p rt r w, OpPending why) \<in> set oprs \<longrightarrow> w \<and> (me_outbound e p \<or> me_inbound e p)"
    "\<forall>(op, res) \<in> set oprs. \<forall>err. res \<noteq> OpErr err" "\<forall>x \<in> set oprs. res_ok x"
  using assms unfolding good_results_def by blast+

definition final_wire :: "mitController \<Rightarrow> (wireOp \<times> op_result) list \<Rightarrow> (prefix \<rightharpoonup> MitigationRoute)" where
  "final_wire c oprs = foldl uni_eff (wire_view c) oprs"

lemma distinct_ops: "good_results e now c2 ops1 ops2 oprs \<Longrightarrow> distinct (uni_prefixes (map fst oprs))"
  using planUnicast_good(2) [of c2 e now] by (auto simp: good_results_def)

lemma op_has_result:
  assumes G: "good_results e now c2 ops1 ops2 oprs" and "op \<in> set ops1" "uni_prefix op = Some p"
  shows "\<exists>res. (op, res) \<in> set oprs \<and> final_wire c2 oprs p = uni_eff (wire_view c2) (op, res) p \<and> (\<forall>err. res \<noteq> OpErr err) \<and> res_ok (op, res)"
proof -
  note rules = good_resultsD(1) [OF G] and tables = good_resultsD(2) [OF G] and orders = good_resultsD(3) [OF G] and plan = good_resultsD(4) [OF G]
    and flow = good_resultsD(5) [OF G] and run = good_resultsD(6,7) [OF G] and clean = good_resultsD(8) [OF G] and fine = good_resultsD(9) [OF G]
  have "op \<in> set (map fst oprs)" using assms(2) run by simp
  then obtain res where res: "(op, res) \<in> set oprs" by auto
  then show ?thesis using uni_eff_at [OF distinct_ops [OF G] res assms(3)] clean fine by (intro exI [of _ res]) (auto simp: final_wire_def)
qed

lemma op_of_prefix:
  assumes "p \<in> set (uni_prefixes ops1)"
  obtains "WopWithdraw p \<in> set ops1" | rt r w where "WopAnnounce p rt r w \<in> set ops1"
proof -
  obtain op where op: "op \<in> set ops1" "uni_prefix op = Some p" using assms by (auto simp: uni_prefixes_def List.map_filter_def)
  show thesis by (cases op) (use that op in auto)
qed

lemma withdrawn_off: "good_results e now c2 ops1 ops2 oprs \<Longrightarrow> WopWithdraw p \<in> set ops1 \<Longrightarrow> final_wire c2 oprs p = None"
proof -
  assume "good_results e now c2 ops1 ops2 oprs" "WopWithdraw p \<in> set ops1"
  from op_has_result [OF this] obtain res where res: "final_wire c2 oprs p = uni_eff (wire_view c2) (WopWithdraw p, res) p" "\<forall>err. res \<noteq> OpErr err" "res_ok (WopWithdraw p, res)" by auto
  then show ?thesis by (cases res) (simp_all add: res_ok_def)
qed

lemma announced_on:
  assumes G: "good_results e now c2 ops1 ops2 oprs" and ann: "WopAnnounce p rt r w \<in> set ops1"
  shows "final_wire c2 oprs p = Some rt \<or> final_wire c2 oprs p = None \<and> (me_outbound e p \<or> me_inbound e p)"
proof -
  note rules = good_resultsD(1) [OF G] and tables = good_resultsD(2) [OF G] and orders = good_resultsD(3) [OF G] and plan = good_resultsD(4) [OF G]
    and flow = good_resultsD(5) [OF G] and run = good_resultsD(6,7) [OF G] and clean = good_resultsD(8) [OF G] and fine = good_resultsD(9) [OF G]
  have ok: "op_ok c2 (WopAnnounce p rt r w)" using planUnicast_good(1) [OF rules orders, of now] ann by (auto simp: plan_good_def plan)
  obtain res where res: "(WopAnnounce p rt r w, res) \<in> set oprs" "final_wire c2 oprs p = uni_eff (wire_view c2) (WopAnnounce p rt r w, res) p" "\<forall>err. res \<noteq> OpErr err"
    using op_has_result [OF assms] by auto
  show ?thesis
  proof (cases res)
    case (OpPending why)
    then have "w \<and> (me_outbound e p \<or> me_inbound e p)" using res(1) run(2) by blast
    then show ?thesis using res(2) OpPending ok by (simp add: wire_view_def)
  qed (use res in auto)
qed

lemma untouched: "good_results e now c2 ops1 ops2 oprs \<Longrightarrow> p \<notin> set (uni_prefixes ops1) \<Longrightarrow> final_wire c2 oprs p = wire_view c2 p"
  unfolding final_wire_def by (intro uni_eff_none) (auto simp: good_results_def)

lemma announce_origin:
  assumes G: "good_results e now c2 ops1 ops2 oprs" and "WopAnnounce p rt r w \<in> set ops1"
  shows "fmlookup (uni_rules e c2) p = Some r \<and> rt = mit_route (m_cfg c2) r"
  using assms(2) good_resultsD(4) [OF G] planUnicast_good(1) [OF good_resultsD(1,3) [OF G], of now] uni_fold_origin [of p rt r w e now "uni_rules e c2"]
  by (fastforce simp: plan_good_def planUnicastLocked_def Let_def)

lemma same_route:
  assumes tables: "tables_ok c2" and "fmlookup (m_wire c2) p = Some w" "same_unicast w r" "ru_Prefix r = p"
  shows "wire_view c2 p = Some (mit_route (m_cfg c2) r)"
proof -
  have "ru_Prefix w = p" using tables assms(2) by (simp add: tables_ok_def)
  then show ?thesis using assms by (simp add: wire_view_def mit_route_def same_unicast_def)
qed

lemma final_served:
  assumes G: "good_results e now c2 ops1 ops2 oprs" and fin: "final_wire c2 oprs p = Some rt"
  shows "\<exists>k r. fmlookup (m_rules c2) k = Some r \<and> \<not> ru_FlowSpec r \<and> rt = mit_route (m_cfg c2) r"
proof (cases "p \<in> set (uni_prefixes ops1)")
  case True
  then show ?thesis
  proof (cases rule: op_of_prefix)
    case 1
    then show ?thesis using withdrawn_off [OF G 1] fin by simp
  next
    case (2 rt' r w)
    then show ?thesis using announced_on [OF G 2] announce_origin [OF G 2] uni_rules_in [of e c2 p r] fin by auto
  qed
next
  case False
  note rules = good_resultsD(1) [OF G] and tables = good_resultsD(2) [OF G] and orders = good_resultsD(3) [OF G] and plan = good_resultsD(4) [OF G]
    and flow = good_resultsD(5) [OF G] and run = good_resultsD(6,7) [OF G] and clean = good_resultsD(8) [OF G] and fine = good_resultsD(9) [OF G]
  from False have v: "wire_view c2 p = Some rt" using untouched [OF G] fin by simp
  then obtain w where w: "fmlookup (m_wire c2) p = Some w" by (auto simp: wire_view_def)
  have "fmlookup (uni_rules e c2) p \<noteq> None"
  proof
    assume "fmlookup (uni_rules e c2) p = None"
    then have "WopWithdraw p \<in> set ops1" unfolding plan using w by (intro planUnicast_decides(2) [OF rules orders]) (simp_all add: fmdom'_iff)
    then show False using withdrawn_off [OF G] fin by simp
  qed
  then obtain k r where r: "fmlookup (m_rules c2) k = Some r" "\<not> ru_FlowSpec r" "ru_Prefix r = p" using uni_rules_in [of e c2 p] by auto
  have "decided e now c2 p r ops1" using planUnicast_decides(1) [OF rules orders r(1,2), of now] r(3) plan by simp
  moreover have "WopWithdraw p \<notin> set ops1" using withdrawn_off [OF G] fin by auto
  moreover have "WopAnnounce p rt' r' w' \<notin> set ops1" for rt' r' w' using False by (force simp: uni_prefixes_def List.map_filter_def)
  ultimately have "same_unicast w r" using w by (auto simp: decided_def)
  then show ?thesis using same_route [OF tables w _ r(3)] v r by auto
qed

lemma served_final:
  assumes "fmlookup (m_rules c2) k = Some r" "\<not> ru_FlowSpec r" "me_Contains e (ru_Prefix r)" "\<not> leftLocked c2 now (ru_Prefix r)"
    and "\<not> me_outbound e (ru_Prefix r)" "\<not> me_inbound e (ru_Prefix r)" and G: "good_results e now c2 ops1 ops2 oprs"
  shows "final_wire c2 oprs (ru_Prefix r) = Some (mit_route (m_cfg c2) r)"
  using planUnicast_decides(1) [OF good_resultsD(1,3) [OF G] assms(1,2), of now] unfolding decided_def good_resultsD(4) [OF G, symmetric]
proof (elim disjE conjE exE)
  fix w assume "ru_Prefix r \<notin> set (uni_prefixes ops1)" "fmlookup (m_wire c2) (ru_Prefix r) = Some w" "same_unicast w r"
  then show ?thesis using untouched [OF G] same_route [OF good_resultsD(2) [OF G]] by simp
next
  assume "WopAnnounce (ru_Prefix r) (mit_route (m_cfg c2) r) r (fmlookup (m_wire c2) (ru_Prefix r) = None) \<in> set ops1"
  from announced_on [OF G this] show ?thesis using assms(5,6) by blast
qed (use assms in simp_all)

end
