(* ===== verification/Mitigation_Props.thy ===== *)
theory Mitigation_Props
  imports Mitigation_Sync
begin

text \<open>The properties of the mitigation controller, and a controller on which they are tried.\<close>

section \<open>A synchronisation without an error\<close>

lemma core_in_rules:
  assumes "rule_cores c' = rule_cores c" "fmlookup (m_rules c) k = Some r"
  obtains r' where "fmlookup (m_rules c') k = Some r'" "core r' = core r"
proof -
  have "fmlookup (rule_cores c') k = Some (core r)" unfolding assms(1) using assms(2) by (simp add: rule_cores_lookup)
  then show thesis using that by (auto simp: rule_cores_lookup)
qed

lemma core_eqD:
  assumes "core r' = core r"
  shows "ru_FlowSpec r' = ru_FlowSpec r" "ru_Prefix r' = ru_Prefix r" "ru_Expires r' = ru_Expires r" "mit_route cfg r' = mit_route cfg r"
proof -
  have "ru_FlowSpec (core r') = ru_FlowSpec (core r)" "ru_Prefix (core r') = ru_Prefix (core r)" "ru_Expires (core r') = ru_Expires (core r)"
    "mit_route cfg (core r') = mit_route cfg (core r)" unfolding assms by simp_all
  then show "ru_FlowSpec r' = ru_FlowSpec r" "ru_Prefix r' = ru_Prefix r" "ru_Expires r' = ru_Expires r" "mit_route cfg r' = mit_route cfg r" by simp_all
qed

lemma sync_result:
  assumes "reachable_mit (c, Idle)" "mit_orders e" "mit_inject c" "me_Leader e" "m_rib c" "me_Ready e" "mit_Sync e now c = (c', [])"
  obtains c2 ops1 ops2 oprs where "good_results e now c2 ops1 ops2 oprs" "mit_wire (m_log c') = final_wire c2 oprs" "rule_cores c' = rule_cores c2"
    "m_cfg c' = m_cfg c2" "\<forall>k r. fmlookup (m_rules c2) k = Some r \<longrightarrow> now < ru_Expires r" "\<forall>p. me_Contains e p \<longrightarrow> \<not> leftLocked c2 now p"
proof -
  have inv: "mit_inv (c, Idle)" by (rule reachable_mit_inv [OF assms(1)])
  then have "rules_inv c" by (simp add: mit_inv_def)
  from mit_plan_parts [OF this assms(2-6), of now]
  obtain c2 c3 ops1 c4 ops2 where pl: "mit_plan e now c = (c4, SyncOps (ops1 @ ops2))" "rules_inv c2" "planUnicastLocked e now c2 = (c3, ops1)"
    "uni_prefixes ops2 = []" "wire_part c2 = wire_part c" "m_wire c4 = m_wire c2" "m_cfg c4 = m_cfg c2" "rule_cores c4 = rule_cores c2"
    "\<And>k r. fmlookup (m_rules c2) k = Some r \<Longrightarrow> now < ru_Expires r" "\<And>p. me_Contains e p \<Longrightarrow> \<not> leftLocked c2 now p" by metis
  obtain c5 oprs where run: "runOps e (ops1 @ ops2) c4 = (c5, oprs)" by (cases "runOps e (ops1 @ ops2) c4")
  obtain l where l: "c5 = c4\<lparr>m_log := l\<rparr>" using runOps_log [OF run] by blast
  have cm: "snd (commitLocked oprs c5) = []" "c' = settleLocked now (fst (commitLocked oprs c5))"
    using assms(7) by (auto simp: mit_Sync_def pl(1) run split: prod.splits)
  have "mit_step e (c, Idle) (c4, Calls [] (ops1 @ ops2) now)" using mit_step.sync [OF assms(2), of c now] by (simp add: pl(1))
  then have "reachable_mit (c5, Calls oprs [] now)"
    using runOps_run [OF run, of "[]" now] reachable_mit.step [OF assms(1)] reachable_mit_run by fastforce
  then have inv5: "mit_inv (c5, Calls oprs [] now)" by (rule reachable_mit_inv)
  have "\<forall>x \<in> set oprs. fits c5 (fst x) \<and> res_ok x" "tables_ok c5" using inv5 by (auto simp: mit_inv_def phase_ops_def intro: op_ok_fits)
  note ok = commitLocked_ok [OF this]
  have same: "m_log c' = m_log c5" "rule_cores c' = rule_cores c5" "m_cfg c' = m_cfg c5"
  proof -
    let ?c6 = "fst (commitLocked oprs c5)"
    have c6: "m_log ?c6 = m_log c5" "rule_cores ?c6 = rule_cores c5" "m_cfg ?c6 = m_cfg c5"
      using ok fixed_partD [of ?c6 c5] by (simp_all add: committed_def)
    note fr = settleLocked_frame [of now ?c6]
    show "m_log c' = m_log c5" "rule_cores c' = rule_cores c5" "m_cfg c' = m_cfg c5"
      unfolding cm(2) using c6 frameD [OF fr] policy_settle(2) [of now ?c6] by (auto dest!: wire_partD fixed_partD)
  qed
  have "wire_view c5 = wire_view c2" by (simp add: wire_view_def fun_eq_iff l pl)
  then have wire: "mit_wire (m_log c') = final_wire c2 oprs" using inv5 by (simp add: mit_inv_def same final_wire_def)
  have "tables_ok c2" unfolding wire_part_views(4) [OF pl(5)] using inv by (simp add: mit_inv_def)
  moreover have "\<forall>x \<in> set oprs. res_ok x" using inv5 by (simp add: mit_inv_def)
  moreover have "ops1 = snd (planUnicastLocked e now c2)" by (simp add: pl(3))
  ultimately have good: "good_results e now c2 ops1 ops2 oprs"
    using runOps_res [OF run] pl(2,4) assms(2) commit_Nil [OF cm(1)] unfolding good_results_def by blast
  have "rule_cores c5 = rule_cores c4" by (simp add: l rule_cores_def)
  then show thesis using good wire pl(7-10) same by (intro that [OF good wire]) (auto simp: l)
qed
lemma rules_inv_held: "rules_inv c \<Longrightarrow> held_routes (m_rules c) \<le> mf_MaxRules (m_cfg c)"
proof -
  have "held_routes (m_rules c) = (\<Sum>k \<in> fmdom' (rule_cores c). ru_Routes (the (fmlookup (rule_cores c) k)))"
    unfolding held_routes_sum by (rule sum.cong) (auto simp: rule_cores_lookup rule_cores_def fmdom'_iff)
  then show "rules_inv c \<Longrightarrow> ?thesis" by (simp add: rules_inv_def)
qed

section \<open>Examples\<close>

definition exMitP :: prefix where "exMitP = Pfx (V4 0x0A000000) 24"

definition exMitCfg :: mitConfig where
  "exMitCfg = \<lparr>mf_Mode = ''inject'', mf_Allowlist = [Pfx (V4 0x0A000000) 8], mf_MaxRules = 2, mf_DefaultTTL = 3600 * Second, mf_MaxTTL = 7200 * Second,
     mf_HideWindow = 60 * Second, mf_LocalPref = 200, mf_Community = ''65000:666'', mf_Geo = None\<rparr>"

definition exMitAnn :: mitAnn where
  "exMitAnn = \<lparr>ma_Catalog = \<lparr>mc_Blackhole = True, mc_BlackholeNextHops = [V4 0xC0000201], mc_BlackholeCommunities = [], mc_Targets = []\<rparr>,
     ma_FlowSpec = None\<rparr>"

definition exMitEnv :: mit_env where
  "exMitEnv = \<lparr>me_Ready = True, me_Contains = (\<lambda>_. True), me_Leader = True, me_outbound = (\<lambda>_. False), me_inbound = (\<lambda>_. False),
     me_fails = (\<lambda>_ _. False), me_keys = id, me_prefixes = id\<rparr>"

definition exMitReq :: Request where
  "exMitReq = \<lparr>rq_Prefix = exMitP, rq_Action = MitigationBlackhole, rq_Target = [], rq_TTL = 0, rq_Reason = ''attack'', rq_Match = zeroMatch,
     rq_Countries = [], rq_RateMbps = 0, rq_NoReplace = False\<rparr>"

definition exMit0 :: mitController where
  "exMit0 = (case mit_New exMitCfg (Some exMitAnn) of Inr c \<Rightarrow> SetInbound True (SetOutbound True c) | Inl _ \<Rightarrow> undefined)"

definition exMit1 :: mitController where "exMit1 = fst (Add ''r1'' exMitReq 1000 (fst (SetRIB True exMit0)))"

definition exMit2 :: mitController where "exMit2 = fst (mit_Sync exMitEnv 2000 exMit1)"

lemma ex_mit_orders: "mit_orders exMitEnv"
  by (simp add: mit_orders_def exMitEnv_def)

lemma ex_mit_reachable: "reachable_mit (exMit0, Idle)" "reachable_mit (exMit1, Idle)" "reachable_mit (exMit2, Idle)"
proof -
  have "\<exists>c. mit_New exMitCfg (Some exMitAnn) = Inr c" by (simp add: mit_New_def exMitCfg_def exMitAnn_def mit_checkInject_def Second_def)
  then obtain c where c: "mit_New exMitCfg (Some exMitAnn) = Inr c" by blast
  then show 0: "reachable_mit (exMit0, Idle)" using reachable_mit.start [OF c, of True True] by (simp add: exMit0_def)
  have "reachable_mit (fst (SetRIB True exMit0), Idle)" by (rule reachable_mit.step [OF 0 mit_step.set_rib])
  then show 1: "reachable_mit (exMit1, Idle)" unfolding exMit1_def by (rule reachable_mit.step [OF _ mit_step.add])
  show "reachable_mit (exMit2, Idle)" unfolding exMit2_def by (rule reachable_mit_run [OF mit_Sync_run [OF ex_mit_orders] 1])
qed

lemma ex_mit_rule: "map_option ru_Prefix (fmlookup (m_rules exMit1) (unicastKey exMitP)) = Some exMitP"
  by code_simp

lemma ex_mit_wire: "map_option ru_Prefix (fmlookup (m_wire exMit2) exMitP) = Some exMitP"
  by code_simp

lemma ex_mit_clean: "mit_Sync exMitEnv 2000 exMit1 = (exMit2, [])"
  by (rule prod_eqI) (simp add: exMit2_def, code_simp)

section \<open>Properties\<close>

text \<open>
  C31: whatever was added, removed, synchronised, withdrawn or reloaded in whatever order, and whichever calls failed, once no
  operation holds the wire the two tables are what the calls of the announcer left on the wire: a unicast route for every entry
  of the prefix table and no other, a FlowSpec route for every entry of the other, nothing in flight, and nothing at
  all outside inject mode.
\<close>
theorem mitigation_table_is_wire:
  assumes "reachable_mit (c, Idle)"
  shows "mit_wire (m_log c) p = map_option (mit_route (m_cfg c)) (fmlookup (m_wire c) p) \<and>
    mit_flow (m_log c) k = map_option fw_route (fmlookup (m_fwire c) k) \<and>
    m_inflight c = {} \<and> (mit_inject c \<or> m_wire c = fmempty \<and> m_fwire c = fmempty)"
  using reachable_mit_inv [OF assms] by (auto simp: mit_inv_def phase_ops_def wire_view_def flow_view_def empty_tables_def)

theorem mitigation_table_is_wire_witness: "mit_wire (m_log exMit2) exMitP \<noteq> None \<and> m_inflight exMit2 = {}"
  using mitigation_table_is_wire [OF ex_mit_reachable(3), of exMitP] ex_mit_wire by auto

text \<open>
  C32: at every moment, also while a synchronisation or a withdrawal has calls out and rules are added, removed and replaced
  beside it, a prefix that has a mitigation route on the wire is one that \<open>Holds\<close> reports, which is what the outbound and the
  inbound controller ask before they announce it.
\<close>
theorem Holds_covers_wire:
  assumes "reachable_mit (c, ph)" "mit_wire (m_log c) p \<noteq> None"
  shows "Holds c p"
  using wire_held [OF reachable_mit_inv [OF assms(1)] assms(2)] by (auto simp: Holds_def)

theorem Holds_covers_wire_witness: "Holds exMit2 exMitP"
proof -
  have "mit_wire (m_log exMit2) exMitP \<noteq> None"
    using reachable_mit_inv [OF ex_mit_reachable(3)] ex_mit_wire by (auto simp: mit_inv_def wire_view_def)
  with Holds_covers_wire [OF ex_mit_reachable(3)] show ?thesis .
qed

text \<open>
  C33: the rules at every moment. A rule is stored under its key; its prefix is masked, not a default route and covered by
  the allowlist; its lifetime is between a second and the configured maximum; the routes of all rules together stay within the
  configured number; and no two FlowSpec rules stand for the same route.
\<close>
theorem mitigation_rules_sound:
  assumes "reachable_mit (c, ph)" "fmlookup (m_rules c) k = Some r"
  shows "ru_key r = k \<and> Masked (ru_Prefix r) = ru_Prefix r \<and> 0 < Bits (ru_Prefix r) \<and> CoveredBy (mf_Allowlist (m_cfg c)) (ru_Prefix r) \<and>
    MinMitigationTTL \<le> ru_Expires r - ru_Created r \<and> ru_Expires r - ru_Created r \<le> mf_MaxTTL (m_cfg c) \<and>
    held_routes (m_rules c) \<le> mf_MaxRules (m_cfg c) \<and>
    (\<forall>k' r' rt rt'. fmlookup (m_rules c) k' = Some r' \<longrightarrow> k \<noteq> k' \<longrightarrow> ru_FlowSpec r \<longrightarrow> ru_FlowSpec r' \<longrightarrow>
      rt \<in> set (flowRoutes (m_cfg c) r) \<longrightarrow> rt' \<in> set (flowRoutes (m_cfg c) r') \<longrightarrow> route_Key rt \<noteq> route_Key rt')"
proof -
  have inv: "rules_inv c" using reachable_mit_inv [OF assms(1)] by (simp add: mit_inv_def)
  note r = rules_invD [OF inv assms(2)]
  have "route_Key rt \<noteq> route_Key rt'"
    if "fmlookup (m_rules c) k' = Some r'" "k \<noteq> k'" "ru_FlowSpec r" "ru_FlowSpec r'" "rt \<in> set (flowRoutes (m_cfg c) r)" "rt' \<in> set (flowRoutes (m_cfg c) r')"
    for k' r' rt rt'
    using rules_apart [OF inv assms(2) that(1-4)] that(5,6) by (auto simp: route_keys_def)
  then show ?thesis using r rules_inv_held [OF inv] unfolding rule_ok_def by blast
qed

theorem mitigation_rules_sound_witness: "CoveredBy [Pfx (V4 0x0A000000) 8] exMitP \<and> held_routes (m_rules exMit1) \<le> 2"
proof -
  obtain r where r: "fmlookup (m_rules exMit1) (unicastKey exMitP) = Some r" "ru_Prefix r = exMitP" using ex_mit_rule by auto
  have "mf_Allowlist (m_cfg exMit1) = [Pfx (V4 0x0A000000) 8]" "mf_MaxRules (m_cfg exMit1) = 2" by code_simp+
  then show ?thesis using mitigation_rules_sound [OF ex_mit_reachable(2) r(1)] r(2) by (simp del: CoveredBy.simps)
qed

text \<open>
  C34: every route the announcer was ever asked to announce is masked, not a default route, covered by the allowlist, and carries
  the configured local preference and community; a unicast route is a blackhole without a target, or a redirect to a target of the
  catalog of the family of its prefix; a FlowSpec route has a FlowSpec action, and it is a redirect to a target of the FlowSpec catalog,
  or it has no target and a rate within bounds when it limits the rate, and none when it drops. This holds for failed calls too.
\<close>
theorem mitigation_calls_safe:
  assumes "reachable_mit (c, ph)"
  shows "((MitAnnounce rt, ok) \<in> set (m_log c) \<longrightarrow>
      Masked (mr_Prefix rt) = mr_Prefix rt \<and> 0 < Bits (mr_Prefix rt) \<and> CoveredBy (mf_Allowlist (m_cfg c)) (mr_Prefix rt) \<and>
      mr_LocalPref rt = mf_LocalPref (m_cfg c) \<and> mr_Community rt = mf_Community (m_cfg c) \<and>
      (mr_Action rt = MitigationBlackhole \<and> mr_Target rt = [] \<or>
       mr_Action rt = MitigationRedirect \<and> (\<exists>t. catalog_Target (m_catalog c) (mr_Target rt) = Some t \<and> Is4 (mt_NextHop t) = Is4 (Addr (mr_Prefix rt))))) \<and>
    ((MitAnnounceFS frt, ok') \<in> set (m_log c) \<longrightarrow>
      Masked (fr_Destination frt) = fr_Destination frt \<and> 0 < Bits (fr_Destination frt) \<and> CoveredBy (mf_Allowlist (m_cfg c)) (fr_Destination frt) \<and>
      fr_LocalPref frt = mf_LocalPref (m_cfg c) \<and> fr_Community frt = mf_Community (m_cfg c) \<and> IsFlowSpec (fr_Action frt) \<and>
      (if fr_Action frt = MitigationFlowSpecRedirect then (\<exists>t. flow_Target (m_fsCat c) (fr_Target frt) = Some t) \<and> fr_RateMbps frt = 0
       else fr_Target frt = [] \<and> (if fr_Action frt = MitigationFlowSpecRateLimit then 0 < fr_RateMbps frt \<and> fr_RateMbps frt \<le> MaxFlowSpecRateMbps
                                  else fr_RateMbps frt = 0)))"
proof -
  have "safe_call c x" if "(x, okx) \<in> set (m_log c)" for x okx using reachable_calls [OF assms] that by auto
  from this [of "MitAnnounce rt" ok] this [of "MitAnnounceFS frt" ok'] show ?thesis by (auto simp: safe_call_def fs_action_ok_def)
qed

theorem mitigation_calls_safe_witness: "\<exists>rt. (MitAnnounce rt, True) \<in> set (m_log exMit2) \<and> CoveredBy [Pfx (V4 0x0A000000) 8] (mr_Prefix rt)"
proof -
  have "list_ex (\<lambda>(x, ok). ok \<and> (case x of MitAnnounce rt \<Rightarrow> True | _ \<Rightarrow> False)) (m_log exMit2)" by code_simp
  then obtain rt where rt: "(MitAnnounce rt, True) \<in> set (m_log exMit2)" by (auto simp: list_ex_iff split: mit_call.splits)
  have "mf_Allowlist (m_cfg exMit2) = [Pfx (V4 0x0A000000) 8]" by code_simp
  then show ?thesis using mitigation_calls_safe [OF ex_mit_reachable(3), of rt True] rt by metis
qed

text \<open>
  C35: a synchronisation in inject mode that holds the lease, has the RIB and returns no error leaves exactly what the rules ask
  for. Every unicast route on the wire is the route of a rule that has not expired, and every blackhole or redirect rule whose
  prefix is learned and held by neither of the two other controllers has its route on the wire.
\<close>
theorem mit_Sync_complete:
  assumes "reachable_mit (c, Idle)" "mit_orders e" "mit_inject c" "me_Leader e" "m_rib c" "me_Ready e" "mit_Sync e now c = (c', [])"
  shows "(\<forall>p rt. mit_wire (m_log c') p = Some rt \<longrightarrow>
      (\<exists>k r. fmlookup (m_rules c') k = Some r \<and> \<not> ru_FlowSpec r \<and> now < ru_Expires r \<and> rt = mit_route (m_cfg c') r)) \<and>
    (\<forall>k r. fmlookup (m_rules c') k = Some r \<longrightarrow> \<not> ru_FlowSpec r \<longrightarrow> me_Contains e (ru_Prefix r) \<longrightarrow>
      \<not> me_outbound e (ru_Prefix r) \<longrightarrow> \<not> me_inbound e (ru_Prefix r) \<longrightarrow> mit_wire (m_log c') (ru_Prefix r) = Some (mit_route (m_cfg c') r))"
proof -
  obtain c2 ops1 ops2 oprs where g: "good_results e now c2 ops1 ops2 oprs" and w: "mit_wire (m_log c') = final_wire c2 oprs"
    and rc: "rule_cores c' = rule_cores c2" and cfg: "m_cfg c' = m_cfg c2" and live: "\<forall>k r. fmlookup (m_rules c2) k = Some r \<longrightarrow> now < ru_Expires r"
    and seen: "\<forall>p. me_Contains e p \<longrightarrow> \<not> leftLocked c2 now p"
    by (rule sync_result [OF assms])
  have "\<exists>k r. fmlookup (m_rules c') k = Some r \<and> \<not> ru_FlowSpec r \<and> now < ru_Expires r \<and> rt = mit_route (m_cfg c') r"
    if "mit_wire (m_log c') p = Some rt" for p rt
  proof -
    from that obtain k r where r: "fmlookup (m_rules c2) k = Some r" "\<not> ru_FlowSpec r" "rt = mit_route (m_cfg c2) r"
      using final_served [OF g, of p rt] w by auto
    from core_in_rules [OF rc r(1)] obtain r' where r': "fmlookup (m_rules c') k = Some r'" "core r' = core r" by blast
    then show ?thesis using r live core_eqD [OF r'(2)] by (intro exI [of _ k] exI [of _ r']) (simp add: cfg)
  qed
  moreover have "mit_wire (m_log c') (ru_Prefix r) = Some (mit_route (m_cfg c') r)"
    if a: "fmlookup (m_rules c') k = Some r" "\<not> ru_FlowSpec r" "me_Contains e (ru_Prefix r)" "\<not> me_outbound e (ru_Prefix r)" "\<not> me_inbound e (ru_Prefix r)" for k r
  proof -
    from core_in_rules [OF rc [symmetric] a(1)] obtain r' where r': "fmlookup (m_rules c2) k = Some r'" "core r' = core r" by blast
    note eq = core_eqD [OF r'(2)]
    show ?thesis using served_final [OF r'(1) _ _ _ _ _ g] a(2-5) seen by (simp add: w cfg eq)
  qed
  ultimately show ?thesis by blast
qed

theorem mit_Sync_complete_witness: "map_option mr_Action (mit_wire (m_log exMit2) exMitP) = Some MitigationBlackhole"
proof -
  have conf: "mit_inject exMit1" "me_Leader exMitEnv" "m_rib exMit1" "me_Ready exMitEnv" by code_simp+
  have "map_option (\<lambda>r. (ru_Prefix r, ru_FlowSpec r, ru_Action r)) (fmlookup (m_rules exMit2) (unicastKey exMitP)) = Some (exMitP, False, MitigationBlackhole)"
    by code_simp
  then obtain r where r: "fmlookup (m_rules exMit2) (unicastKey exMitP) = Some r" "ru_Prefix r = exMitP" "\<not> ru_FlowSpec r" "ru_Action r = MitigationBlackhole" by auto
  have env: "me_Contains exMitEnv exMitP" "\<not> me_outbound exMitEnv exMitP" "\<not> me_inbound exMitEnv exMitP" by (simp_all add: exMitEnv_def)
  from mit_Sync_complete [OF ex_mit_reachable(2) ex_mit_orders conf ex_mit_clean] have "mit_wire (m_log exMit2) exMitP = Some (mit_route (m_cfg exMit2) r)"
    using r(1,3) env unfolding r(2) [symmetric] by blast
  then show ?thesis using r(4) by (simp add: mit_route_def)
qed

end
