(* ===== verification/System.thy ===== *)
theory System
  imports Announce_Sync Inbound_Safe Mitigation_Props
begin

text \<open>
  The three controllers that announce routes, as src/cmd/controller puts them together: outbound improvements, inbound steers and
  mitigation. They share one announcing session, where a route of one replaces a route of another for the same prefix, so
  each asks the others before it announces: \<open>ac.Reserved\<close> (announce.go), \<open>Excluded\<close> (inbound.go), and
  \<open>mit.SetOutbound (ctl.Injected)\<close> and \<open>mit.SetInbound (inb.OnWire)\<close> (main.go).

  They run side by side. An operation of the outbound or of the inbound controller holds its lock from its beginning to its
  end, and mitigation's questions to them take that lock; their questions to mitigation are answered at any moment in between.
  Mitigation's own operations are the steps of \<open>mit_step\<close>.
\<close>

section \<open>State and steps\<close>

text \<open>
  \<open>y_outBusy\<close> is set while an operation of the outbound controller runs, to the prefixes for which \<open>Holds\<close> has answered yes at
  every moment since it began; likewise \<open>y_inBusy\<close>. \<open>y_asked\<close> is what the outbound controller answered for the announcement
  mitigation is about to make.
\<close>

record sys =
  y_out :: Controller
  y_outBusy :: "prefix set option"
  y_in :: inController
  y_inBusy :: "prefix set option"
  y_mit :: mitController
  y_ph :: mit_phase
  y_asked :: "bool option"

definition still_held :: "mitController \<Rightarrow> prefix set option \<Rightarrow> prefix set option" where
  "still_held c busy = map_option (\<lambda>F. {p \<in> F. Holds c p}) busy"

fun head_waits :: "mit_phase \<Rightarrow> prefix option" where
  "head_waits (Calls fin (WopAnnounce p rt r True # todo) now) = Some p"
| "head_waits _ = None"

fun ann_op_env :: "ann_op \<Rightarrow> env option" where
  "ann_op_env (Announce_Spec.OpSync e imps) = Some e"
| "ann_op_env (OpWithdrawPrefix e p) = Some e"
| "ann_op_env (Announce_Spec.OpWithdrawAll e) = Some e"
| "ann_op_env (OpBind e srv) = Some e"
| "ann_op_env (OpRemember srv) = None"
| "ann_op_env (OpPrepare e mode mx) = Some e"
| "ann_op_env (Announce_Spec.OpApply e mode allow mx) = Some e"
| "ann_op_env (OpSetRouters e routers) = Some e"

fun in_op_env :: "in_op \<Rightarrow> in_env option" where
  "in_op_env (Inbound_Safe.OpSync e) = Some e"
| "in_op_env (Inbound_Safe.OpWithdrawAll e) = Some e"
| "in_op_env (Inbound_Safe.OpApply e rt) = Some e"
| "in_op_env _ = None"

text \<open>What a step of mitigation that ends the checks before an announcement was told.\<close>

definition told :: "mit_env \<Rightarrow> sys \<Rightarrow> prefix \<Rightarrow> bool" where
  "told e s p \<longleftrightarrow> y_asked s = Some (me_outbound e p) \<and>
     (me_outbound e p \<or> y_inBusy s = None \<and> me_inbound e p = in_OnWire (y_in s) p)"

inductive sys_step :: "sys \<Rightarrow> sys \<Rightarrow> bool" where
  out_begin: "y_outBusy s = None \<Longrightarrow> sys_step s (s\<lparr>y_outBusy := Some {p. Holds (y_mit s) p}\<rparr>)"
| out_end: "y_outBusy s = Some F \<Longrightarrow> (\<And>e p. ann_op_env op = Some e \<Longrightarrow> in_Reserved (y_in s) p \<or> p \<in> F \<Longrightarrow> ev_Reserved e p) \<Longrightarrow>
    sys_step s (s\<lparr>y_out := apply_ann_op op (y_out s), y_outBusy := None\<rparr>)"
| in_begin: "y_inBusy s = None \<Longrightarrow> sys_step s (s\<lparr>y_inBusy := Some {p. Holds (y_mit s) p}\<rparr>)"
| in_end: "y_inBusy s = Some G \<Longrightarrow> (\<And>e p. in_op_env iop = Some e \<Longrightarrow> p \<in> G \<Longrightarrow> ie_Excluded e p) \<Longrightarrow>
    sys_step s (s\<lparr>y_in := apply_in_op iop (y_in s), y_inBusy := None\<rparr>)"
| ask: "head_waits (y_ph s) = Some p \<Longrightarrow> y_outBusy s = None \<Longrightarrow> sys_step s (s\<lparr>y_asked := Some (Injected (y_out s) p)\<rparr>)"
| mit: "mit_step e (y_mit s, y_ph s) (c', ph') \<Longrightarrow> (\<And>p. head_waits (y_ph s) = Some p \<Longrightarrow> ph' \<noteq> y_ph s \<Longrightarrow> told e s p) \<Longrightarrow>
    sys_step s (s\<lparr>y_mit := c', y_ph := ph', y_outBusy := still_held c' (y_outBusy s), y_inBusy := still_held c' (y_inBusy s),
      y_asked := (if ph' = y_ph s then y_asked s else None)\<rparr>)"

inductive reachable_sys :: "sys \<Rightarrow> bool" where
  start: "NewController acfg ann rib = Inr o' \<Longrightarrow> in_New icfg iann irib = Inr i \<Longrightarrow> mit_New mcfg mann = Inr c \<Longrightarrow>
    reachable_sys \<lparr>y_out = o', y_outBusy = None, y_in = i, y_inBusy = None, y_mit = SetInbound True (SetOutbound True c), y_ph = Idle, y_asked = None\<rparr>"
| step: "reachable_sys s \<Longrightarrow> sys_step s s' \<Longrightarrow> reachable_sys s'"

section \<open>What an operation adds to a table\<close>

text \<open>The outbound controller adds prefixes that were neither reserved nor held.\<close>

definition out_grown :: "prefix set \<Rightarrow> env \<Rightarrow> Controller \<Rightarrow> bool" where
  "out_grown D e c \<longleftrightarrow> fmdom' (c_active c) \<subseteq> D \<union> {p. \<not> ev_Reserved e p \<and> \<not> ev_Held e p}"

interpretation out_grows: wire_invariant "out_grown D" for D
proof
  fix e c c'
  assume ok: "out_grown D e c" and "wire_step e c c'"
  from this(2) show "out_grown D e c'"
    using ok by cases (auto simp: out_grown_def route_ok_def fmdom'_iff subset_iff split: if_splits)
qed

lemma run_grown: "wire_run e c c' \<Longrightarrow> out_grown (fmdom' (c_active c)) e c'"
  by (rule out_grows.run) (auto simp: out_grown_def)

lemma out_grown_store [simp]: "out_grown D e (store c) = out_grown D e c"
  by (simp add: out_grown_def)

lemma out_grown_same: "out_grown (fmdom' (c_active c)) e c"
  by (auto simp: out_grown_def)

lemma op_grown:
  assumes c: "ctl_ok c" and "ann_op_env op = Some e"
  shows "out_grown (fmdom' (c_active c)) e (apply_ann_op op c)"
proof (cases op)
  case (OpSync e' imps)
  have "active_ok e c" using c by (simp add: ctl_ok_def table_ok_active)
  then obtain c' where "wire_run e c c'" "fst (Sync e imps c) = store c'" by (rule Sync_run)
  then show ?thesis using OpSync assms(2) run_grown by simp
next
  case (OpWithdrawPrefix e' p)
  obtain c' where "wire_run e c c'" "fst (WithdrawPrefix e p c) = store c'" by (rule WithdrawPrefix_run)
  then show ?thesis using OpWithdrawPrefix assms(2) run_grown by simp
next
  case (OpWithdrawAll e')
  then show ?thesis using run_grown [OF withdrawAll_run [of e c]] assms(2) by (auto simp: WithdrawAll_def Let_def case_prod_beta out_grown_same)
next
  case (OpBind e' srv)
  then show ?thesis by (simp add: Bind_def Let_def bindLocked_quiet out_grown_def)
next
  case (OpPrepare e' mode mx)
  then show ?thesis by (simp add: PrepareRuntime_def enterInject_ok(3) [OF c] out_grown_def)
next
  case (OpApply e' mode allow mx)
  have "c_active (fst (ApplyRuntime e mode allow mx c)) = c_active c \<or> c_active (fst (ApplyRuntime e mode allow mx c)) = fmempty"
    using enterInject_ok(3) [OF c, of e mx]
    by (cases rule: withdrawAllLocked_cases [of e c]) (auto simp: ApplyRuntime_def Let_def case_prod_beta split: option.splits)
  then show ?thesis using OpApply assms(2) by (auto simp: out_grown_def)
next
  case (OpSetRouters e' routers)
  then show ?thesis by (auto simp: SetRouters_def Let_def ann_do_eq out_grown_def split: option.splits bool.splits)
qed (use assms in simp)

text \<open>The inbound controller adds prefixes that were not excluded.\<close>

definition in_grown :: "prefix set \<Rightarrow> in_env \<Rightarrow> inController \<Rightarrow> bool" where
  "in_grown D e c \<longleftrightarrow> fmdom' (ib_active c) \<subseteq> D \<union> {p. \<not> ie_Excluded e p}"

interpretation in_grows: in_invariant "in_grown D" for D
proof
  fix e c away c'
  assume ok: "in_grown D e c" and "in_step e away c c'"
  from this(2) show "in_grown D e c'"
    using ok by cases (auto simp: in_grown_def in_route_ok_def fmdom'_iff subset_iff split: if_splits)
qed

lemma in_run_grown: "in_run e away c c' \<Longrightarrow> in_grown (fmdom' (ib_active c)) e c'"
  by (rule in_grows.run) (auto simp: in_grown_def)
lemma in_op_prefixes: "steers_ok c \<Longrightarrow> ic_Prefixes (ib_cfg (apply_in_op iop c)) = ic_Prefixes (ib_cfg c)"
proof (cases iop)
  case (OpSync e)
  obtain c1 where "in_run e (away_of c) c c1" "fst (in_Sync e c) = storeActive c1" using in_Sync_run by blast
  then show ?thesis using OpSync in_run_keeps(1) [of e "away_of c" c c1] by simp
next
  case (OpPlan now inp)
  then show "steers_ok c \<Longrightarrow> ?thesis" using in_Plan_keeps [of c now inp] by (simp add: same_wire_def)
next
  case (OpRevert now p why d)
  then show ?thesis by (simp add: Revert_def Let_def split: option.splits)
next
  case (OpWithdrawAll e)
  then show ?thesis using in_run_keeps(1) [OF in_withdrawAll_run [of e "[]" c]] by (auto simp: in_WithdrawAll_def Let_def case_prod_beta)
next
  case (OpApply e rt)
  then show ?thesis using in_run_keeps(1) [OF in_withdrawAll_run [of e "[]" c]]
    by (auto simp: in_ApplyRuntime_def Let_def case_prod_beta split: option.splits list.splits)
qed
lemma in_op_grown:
  assumes "steers_ok c" "p \<in> fmdom' (ib_active (apply_in_op iop c))" "p \<notin> fmdom' (ib_active c)"
  shows "\<exists>e. in_op_env iop = Some e \<and> \<not> ie_Excluded e p"
proof (cases iop)
  case (OpSync e)
  obtain c1 where "in_run e (away_of c) c c1" "fst (in_Sync e c) = storeActive c1" using in_Sync_run by blast
  then show ?thesis using OpSync in_run_grown [of e "away_of c" c c1] assms by (auto simp: in_grown_def)
next
  case (OpPlan now inp)
  then show ?thesis using in_Plan_keeps [of c now inp] assms by (simp add: same_wire_def)
next
  case (OpRevert now p why d)
  then show ?thesis using assms by (simp add: Revert_def Let_def split: option.splits)
next
  case (OpWithdrawAll e)
  then show ?thesis using in_run_grown [OF in_withdrawAll_run [of e "[]" c]] assms by (auto simp: in_WithdrawAll_def Let_def case_prod_beta in_grown_def split: if_splits)
next
  case (OpApply e rt)
  then show ?thesis using in_run_grown [OF in_withdrawAll_run [of e "[]" c]] assms
    by (auto simp: in_ApplyRuntime_def Let_def case_prod_beta in_grown_def split: option.splits list.splits if_splits)
qed

section \<open>What mitigation claims\<close>

fun callout :: "mit_phase \<Rightarrow> prefix set" where
  "callout (CallOut fin (WopAnnounce p rt r w) todo now) = {p}"
| "callout _ = {}"

definition mit_claims :: "mitController \<Rightarrow> mit_phase \<Rightarrow> prefix set" where
  "mit_claims c ph = {p. mit_wire (m_log c) p \<noteq> None} \<union> {p. fmlookup (m_wire c) p \<noteq> None} \<union> callout ph"

definition cleared :: "sys \<Rightarrow> prefix set" where
  "cleared s = (if y_asked s = Some False then {p. head_waits (y_ph s) = Some p} else {})"

lemma head_waits_iff: "head_waits ph = Some p \<longleftrightarrow> (\<exists>fin rt r todo now. ph = Calls fin (WopAnnounce p rt r True # todo) now)"
  by (cases ph rule: head_waits.cases) auto

lemma callout_iff: "p \<in> callout ph \<longleftrightarrow> (\<exists>fin rt r w todo now. ph = CallOut fin (WopAnnounce p rt r w) todo now)"
  by (cases ph rule: callout.cases) auto

lemma head_held:
  assumes "mit_inv (c, ph)" "head_waits ph = Some p \<or> p \<in> callout ph"
  shows "Holds c p \<and> Masked p = p"
proof -
  have "(\<exists>rt r w. WopAnnounce p rt r w \<in> set (phase_ops ph)) \<and> (mode_ph c ph \<longrightarrow> mit_inject c)"
    using assms(2) unfolding head_waits_iff callout_iff by (elim disjE exE) (auto simp: phase_ops_def)
  then obtain rt r w where op: "WopAnnounce p rt r w \<in> set (phase_ops ph)" "mit_inject c" using assms(1) by (auto simp: mit_inv_def)
  then have "p \<in> m_inflight c" "op_ok c (WopAnnounce p rt r w)" using assms(1) by (auto simp: mit_inv_def announced_prefixes_def)
  then show ?thesis using op(2) by (auto simp: Holds_def rule_ok_def)
qed

lemma claimed_held:
  assumes "mit_inv (c, ph)" "p \<in> mit_claims c ph"
  shows "Holds c p"
proof -
  consider "mit_wire (m_log c) p \<noteq> None" | w where "fmlookup (m_wire c) p = Some w" | "p \<in> callout ph" using assms(2) by (auto simp: mit_claims_def)
  then show ?thesis
  proof cases
    case 1
    then show ?thesis using wire_held [OF assms(1)] by (auto simp: Holds_def)
  next
    case 2
    then have "\<not> empty_tables c" by (auto simp: empty_tables_def)
    then have "mit_inject c" using assms(1) by (cases "(c, ph)" rule: mode_ph.cases) (auto simp: mit_inv_def)
    moreover have "Masked p = p" using 2 assms(1) by (auto simp: mit_inv_def tables_ok_def rule_ok_def)
    ultimately show ?thesis using 2 by (simp add: Holds_def)
  next
    case 3
    then show ?thesis using head_held [OF assms(1)] by blast
  qed
qed

text \<open>A step of mitigation claims a prefix only by passing the checks before its announcement.\<close>

lemma wire_part_claimed: "wire_part c' = wire_part c \<Longrightarrow> mit_claims c' ph = mit_claims c ph"
  by (drule wire_partD) (simp add: mit_claims_def)

lemma idle_claimed: "mit_inv (c', Idle) \<Longrightarrow> m_log c' = m_log c \<Longrightarrow> mit_claims c' Idle \<subseteq> mit_claims c ph"
  by (auto simp: mit_inv_def mit_claims_def wire_view_def)

lemma claimed_step:
  assumes inv: "mit_inv (c, ph)" and st: "mit_step e (c, ph) (c', ph')" and "m_outbound c" "m_inbound c" and p: "p \<in> mit_claims c' ph'" "p \<notin> mit_claims c ph"
  shows "head_waits ph = Some p \<and> ph' \<noteq> ph \<and> \<not> me_outbound e p \<and> \<not> me_inbound e p"
  using st
proof cases
  case (add i req now)
  then show ?thesis
  proof (cases rule: Add_cases [where i = i and req = req and now = now and c = c])
    case (added r)
    then show ?thesis using add p wire_part_claimed [OF insert_rule_parts(1) [of c r now], of ph] by simp
  qed (use add p in simp)
next
  case (remove now i)
  then show ?thesis using p wire_part_claimed [of "fst (Remove e now i c)" c ph] fewer_Remove [of c e now i] by (simp add: fewer_rules_def)
next
  case changes
  then show ?thesis using p wire_part_claimed [of "fst (Changes c)" c ph] frameD [OF changes_frame [of c]] by simp
next
  case (set_rib rib)
  then show ?thesis using p by (simp add: SetRIB_def mit_claims_def split: if_splits)
next
  case (sync now)
  have r: "rules_inv c" using inv by (simp add: mit_inv_def)
  from r sync(4) have "m_log c' = m_log c \<and> m_wire c' = m_wire c"
  proof (cases rule: mit_plan_cases [where now = now])
    case (fin c2)
    then show ?thesis using sync wire_partD [of c2 c] by (simp add: fewer_rules_def)
  next
    case (all c2)
    then show ?thesis using sync wire_partD [of c2 c] by (simp add: fewer_rules_def)
  next
    case (ops c2 ops)
    then show ?thesis using sync by (simp add: planned_def)
  qed
  moreover have "callout ph' = {}" unfolding sync(3) by (cases "snd (mit_plan e now c)") simp_all
  ultimately show ?thesis using p by (simp add: mit_claims_def)
next
  case (skip op res fin todo now)
  then show ?thesis using p by (simp add: mit_claims_def)
next
  case (check op fin todo now)
  then have "p \<in> callout (CallOut fin op todo now)" using p by (auto simp: mit_claims_def)
  then obtain rt r w where op: "op = WopAnnounce p rt r w" by (auto simp: callout_iff)
  have "op_ok c op" using inv check by (simp add: mit_inv_def phase_ops_def)
  then have w using p(2) op by (auto simp: mit_claims_def)
  then show ?thesis using check op assms(3,4) by (auto simp: op_check_def split: if_splits)
next
  case (call fin op todo now)
  then have "mit_wire (m_log c') p \<noteq> None" "mit_wire (m_log c) p = None" "p \<notin> callout ph" using p by (auto simp: mit_claims_def op_do_def mit_do_eq)
  then have False using inv call by (cases op) (auto simp: op_do_def mit_do_eq mit_wire_snoc op_call_def mit_inv_def phase_ops_def mit_route_def split: if_splits)
  then show ?thesis ..
next
  case (commit fin now)
  have "mit_inv (c', Idle)" using mit_inv_step [OF inv st] commit by simp
  moreover have "m_log c' = m_log c"
  proof -
    have "\<forall>x \<in> set fin. fits c (fst x) \<and> res_ok x" "tables_ok c" using inv commit by (auto simp: mit_inv_def phase_ops_def intro: op_ok_fits)
    from commitLocked_ok [OF this] show ?thesis using commit by (simp add: committed_def)
  qed
  ultimately show ?thesis using p commit idle_claimed [of c' c ph] by auto
next
  case (all a)
  then show ?thesis using p by (auto simp: mit_claims_def mit_do_eq mit_wire_snoc split: if_splits)
next
  case (clear a)
  then show ?thesis using p by (auto simp: mit_claims_def clear_wire_def)
next
  case (close a)
  have "mit_inv (c', Idle)" using mit_inv_step [OF inv st] close by simp
  moreover have "m_log c' = m_log c" using close policy_enter by (cases a) auto
  ultimately show ?thesis using p close idle_claimed [of c' c ph] by auto
next
  case (withdraw now)
  then have "callout ph' = {}" by (cases "mit_inject c") simp_all
  then show ?thesis using p withdraw by (simp add: mit_claims_def)
next
  case (runtime mode now)
  then have "callout ph' = {}" by (cases "mit_inject c \<and> mode \<noteq> ''inject''") auto
  then show ?thesis using p runtime by (simp add: mit_claims_def)
qed (use p in \<open>auto simp: mit_claims_def\<close>)

section \<open>The invariant\<close>

definition sys_ok :: "sys \<Rightarrow> bool" where
  "sys_ok s \<longleftrightarrow> mit_inv (y_mit s, y_ph s) \<and> m_outbound (y_mit s) \<and> m_inbound (y_mit s) \<and>
     ctl_ok (y_out s) \<and> steers_ok (y_in s) \<and> wire_state_ok (y_in s)"

definition apart :: "sys \<Rightarrow> bool" where
  "apart s \<longleftrightarrow> (\<forall>p \<in> fmdom' (c_active (y_out s)). p \<notin> set (ic_Prefixes (ib_cfg (y_in s)))) \<and>
     (mit_claims (y_mit s) (y_ph s) \<union> cleared s) \<inter> fmdom' (c_active (y_out s)) = {} \<and>
     mit_claims (y_mit s) (y_ph s) \<inter> fmdom' (ib_active (y_in s)) = {}"

definition watched :: "sys \<Rightarrow> bool" where
  "watched s \<longleftrightarrow> (\<forall>F. y_outBusy s = Some F \<longrightarrow> mit_claims (y_mit s) (y_ph s) \<union> cleared s \<subseteq> F) \<and>
     (\<forall>G. y_inBusy s = Some G \<longrightarrow> mit_claims (y_mit s) (y_ph s) \<subseteq> G)"

lemma out_key_masked: "ctl_ok c \<Longrightarrow> p \<in> fmdom' (c_active c) \<Longrightarrow> Masked p = p"
  by (auto simp: ctl_ok_def table_ok_def fmdom'_iff)

lemma cleared_held: "sys_ok s \<Longrightarrow> p \<in> cleared s \<Longrightarrow> Holds (y_mit s) p"
  using head_held [of "y_mit s" "y_ph s" p] by (auto simp: cleared_def sys_ok_def split: if_splits)

lemma in_ok_op: "steers_ok c \<and> wire_state_ok c \<Longrightarrow> steers_ok (apply_in_op x c) \<and> wire_state_ok (apply_in_op x c)"
proof (cases x)
  case (OpPlan now inp)
  then show "steers_ok c \<and> wire_state_ok c \<Longrightarrow> ?thesis" using in_Plan_keeps [of c now inp] by (simp add: wire_state_ok_def same_wire_def)
qed (use Sync_ok WithdrawAll_ok ApplyRuntime_ok Revert_ok in auto)

lemma sys_ok_step: "sys_ok s \<Longrightarrow> sys_step s s' \<Longrightarrow> sys_ok s'"
proof -
  assume ok: "sys_ok s"
  assume "sys_step s s'"
  then show ?thesis
  proof cases
    case (mit e c' ph')
    have inv: "mit_inv (y_mit s, y_ph s)" using ok by (simp add: sys_ok_def)
    have "policy c' = policy (y_mit s)" using step_calls [OF inv mit(2)] ..
    then show ?thesis using ok mit mit_inv_step [OF inv mit(2)] policyD(7,8) [of c' "y_mit s"] by (simp add: sys_ok_def)
  next
    case (in_end G iop)
    then show ?thesis using ok in_ok_op [of "y_in s" iop] by (simp add: sys_ok_def)
  qed (use ok in \<open>simp_all add: sys_ok_def ctl_ok_op\<close>)
qed

lemma watched_step:
  assumes ok: "sys_ok s" and w: "watched s" and st: "sys_step s s'"
  shows "watched s'"
  using st
proof cases
  case out_begin
  then show ?thesis using w claimed_held [of "y_mit s" "y_ph s"] cleared_held [OF ok] ok by (auto simp: watched_def sys_ok_def cleared_def)
next
  case in_begin
  then show ?thesis using w claimed_held [of "y_mit s" "y_ph s"] ok by (auto simp: watched_def sys_ok_def cleared_def)
next
  case (mit e c' ph')
  have inv: "mit_inv (y_mit s, y_ph s)" and bound: "m_outbound (y_mit s)" "m_inbound (y_mit s)" using ok by (simp_all add: sys_ok_def)
  have ok': "sys_ok s'" by (rule sys_ok_step [OF ok st])
  have new: "p \<in> cleared s \<and> y_inBusy s = None" if "p \<in> mit_claims c' ph'" "p \<notin> mit_claims (y_mit s) (y_ph s)" for p
    using claimed_step [OF inv mit(2) bound that] mit(3) by (auto simp: told_def cleared_def)
  have held: "Holds c' p" if "p \<in> mit_claims c' ph' \<or> p \<in> cleared s'" for p
    using that claimed_held [of c' ph' p] cleared_held [OF ok', of p] ok' by (auto simp: sys_ok_def mit(1))
  have kept: "cleared s' \<subseteq> cleared s" by (auto simp: cleared_def mit(1))
  have same: "y_mit s' = c'" "y_ph s' = ph'" by (simp_all add: mit(1))
  have sub: "mit_claims c' ph' \<subseteq> mit_claims (y_mit s) (y_ph s) \<union> cleared s" using new by blast
  show ?thesis unfolding watched_def
  proof (intro conjI allI impI)
    fix F' assume "y_outBusy s' = Some F'"
    then obtain F where F: "y_outBusy s = Some F" "F' = {p \<in> F. Holds c' p}" by (auto simp: mit(1) still_held_def)
    have "mit_claims (y_mit s) (y_ph s) \<union> cleared s \<subseteq> F" using w F(1) by (simp add: watched_def)
    then show "mit_claims (y_mit s') (y_ph s') \<union> cleared s' \<subseteq> F'" unfolding F(2) same using sub held kept by blast
  next
    fix G' assume "y_inBusy s' = Some G'"
    then obtain G where G: "y_inBusy s = Some G" "G' = {p \<in> G. Holds c' p}" by (auto simp: mit(1) still_held_def)
    have "mit_claims (y_mit s) (y_ph s) \<subseteq> G" using w G(1) by (simp add: watched_def)
    then show "mit_claims (y_mit s') (y_ph s') \<subseteq> G'" unfolding G(2) same using new G(1) held by auto
  qed
qed (use w in \<open>auto simp: watched_def cleared_def\<close>)

lemma apart_step:
  assumes ok: "sys_ok s" and w: "watched s" and a: "apart s" and st: "sys_step s s'"
  shows "apart s'"
  using st
proof cases
  case (out_end F op)
  have ctl: "ctl_ok (y_out s)" "ctl_ok (apply_ann_op op (y_out s))" using ok by (simp_all add: sys_ok_def ctl_ok_op)
  have new: "p \<notin> set (ic_Prefixes (ib_cfg (y_in s))) \<and> p \<notin> F"
    if p: "p \<in> fmdom' (c_active (apply_ann_op op (y_out s)))" "p \<notin> fmdom' (c_active (y_out s))" for p
  proof (cases "ann_op_env op")
    case None
    then show ?thesis using p by (cases op) (simp_all add: RememberSpeaker_def split: if_splits)
  next
    case (Some e)
    from op_grown [OF ctl(1) Some] p have "\<not> ev_Reserved e p" by (auto simp: out_grown_def)
    then show ?thesis using out_end(3) [OF Some, of p] out_key_masked [OF ctl(2) p(1)] by (auto simp: in_Reserved_def)
  qed
  have F: "mit_claims (y_mit s) (y_ph s) \<union> cleared s \<subseteq> F" using w out_end(2) by (simp add: watched_def)
  have "p \<notin> set (ic_Prefixes (ib_cfg (y_in s))) \<and> p \<notin> mit_claims (y_mit s) (y_ph s) \<union> cleared s" if "p \<in> fmdom' (c_active (apply_ann_op op (y_out s)))" for p
    using new [OF that] a F unfolding apart_def by (cases "p \<in> fmdom' (c_active (y_out s))") blast+
  moreover have "cleared s' = cleared s" by (simp add: cleared_def out_end(1))
  moreover have "y_out s' = apply_ann_op op (y_out s)" "y_in s' = y_in s" "y_mit s' = y_mit s" "y_ph s' = y_ph s" by (simp_all add: out_end(1))
  ultimately show ?thesis using a unfolding apart_def by auto
next
  case (in_end G iop)
  have st_ok: "steers_ok (y_in s)" using ok by (simp add: sys_ok_def)
  have G: "mit_claims (y_mit s) (y_ph s) \<subseteq> G" using w in_end(2) by (simp add: watched_def)
  have "p \<notin> mit_claims (y_mit s) (y_ph s)" if p: "p \<in> fmdom' (ib_active (apply_in_op iop (y_in s)))" for p
  proof (cases "p \<in> fmdom' (ib_active (y_in s))")
    case False
    from in_op_grown [OF st_ok p False] in_end(3) G show ?thesis by blast
  qed (use a in \<open>auto simp: apart_def\<close>)
  then show ?thesis using a in_op_prefixes [OF st_ok, of iop] by (auto simp: apart_def in_end(1) cleared_def)
next
  case (ask p)
  have "Masked p = p" using head_held [of "y_mit s" "y_ph s" p] ok ask(2) by (simp add: sys_ok_def)
  then have "cleared s' \<inter> fmdom' (c_active (y_out s)) = {}" using ask by (auto simp: cleared_def Injected_def fmdom'_iff)
  then show ?thesis using a ask(1) by (auto simp: apart_def)
next
  case (mit e c' ph')
  have inv: "mit_inv (y_mit s, y_ph s)" and bound: "m_outbound (y_mit s)" "m_inbound (y_mit s)" using ok by (simp_all add: sys_ok_def)
  have "p \<in> cleared s \<and> p \<notin> fmdom' (ib_active (y_in s))" if "p \<in> mit_claims c' ph'" "p \<notin> mit_claims (y_mit s) (y_ph s)" for p
  proof -
    note new = claimed_step [OF inv mit(2) bound that]
    then have "Masked p = p" using head_held [OF inv, of p] by blast
    then show ?thesis using new mit(3) by (auto simp: told_def cleared_def in_OnWire_def fmdom'_iff)
  qed
  moreover have "cleared s' \<subseteq> cleared s" by (auto simp: cleared_def mit(1))
  moreover have "y_out s' = y_out s" "y_in s' = y_in s" "y_mit s' = c'" "y_ph s' = ph'" by (simp_all add: mit(1))
  ultimately show ?thesis using a unfolding apart_def by (simp add: disjoint_iff) blast
qed (use a in \<open>auto simp: apart_def cleared_def\<close>)

lemma reachable_sys_ok: "reachable_sys s \<Longrightarrow> sys_ok s \<and> watched s \<and> apart s"
proof (induction rule: reachable_sys.induct)
  case (start acfg ann rib o' icfg iann irib i mcfg mann c)
  have "mit_inv (SetInbound True (SetOutbound True c), Idle)" by (rule reachable_mit_inv [OF reachable_mit.start [OF start(3)]])
  moreover have "steers_ok i \<and> wire_state_ok i" by (rule reachable_in_ok [OF reachable_in.start [OF start(2)]])
  moreover have "c_active o' = fmempty" using start(1) by (auto simp: NewController_def split: sum.splits)
  ultimately show ?case using ctl_ok_New [OF start(1)] in_New_state [OF start(2)]
    by (simp add: sys_ok_def watched_def apart_def SetInbound_def SetOutbound_def)
next
  case (step s s')
  then show ?case using sys_ok_step watched_step apart_step by blast
qed
section \<open>Mitigation beside idle controllers\<close>

text \<open>While no operation of the two others runs, every run of mitigation whose questions they answer is a run of the whole.\<close>

definition beside :: "Controller \<Rightarrow> inController \<Rightarrow> mitController \<times> mit_phase \<Rightarrow> sys" where
  "beside o' i x = \<lparr>y_out = o', y_outBusy = None, y_in = i, y_inBusy = None, y_mit = fst x, y_ph = snd x, y_asked = None\<rparr>"

lemma beside_step:
  assumes "reachable_sys (beside o' i (c, ph))" "mit_step e (c, ph) (c', ph')" "me_outbound e = Injected o'" "me_inbound e = in_OnWire i"
  shows "reachable_sys (beside o' i (c', ph'))"
proof (cases "ph' = ph \<or> head_waits ph = None")
  case True
  have "sys_step (beside o' i (c, ph)) (beside o' i (c', ph'))"
    using sys_step.mit [of e "beside o' i (c, ph)" c' ph'] assms(2) True by (cases "ph' = ph") (simp_all add: beside_def still_held_def)
  then show ?thesis by (rule reachable_sys.step [OF assms(1)])
next
  case False
  then obtain p where p: "head_waits ph = Some p" by auto
  let ?s = "(beside o' i (c, ph))\<lparr>y_asked := Some (Injected o' p)\<rparr>"
  have "sys_step (beside o' i (c, ph)) ?s" using sys_step.ask [of "beside o' i (c, ph)" p] p by (simp add: beside_def)
  moreover have "sys_step ?s (beside o' i (c', ph'))"
    using sys_step.mit [of e ?s c' ph'] assms(2-4) False p by (auto simp: beside_def still_held_def told_def)
  ultimately show ?thesis using assms(1) reachable_sys.step by blast
qed

lemma beside_run:
  assumes "mit_run e x x'" "reachable_sys (beside o' i x)" "me_outbound e = Injected o'" "me_inbound e = in_OnWire i"
  shows "reachable_sys (beside o' i x')"
  using assms(1)
proof (induction rule: rtranclp_induct)
  case (step y z)
  then show ?case using beside_step [OF _ _ assms(3,4)] by (metis prod.collapse)
qed (rule assms(2))

section \<open>One owner\<close>

text \<open>
  C10: a prefix never carries the routes of two controllers. At every moment, whatever operations of the three controllers run
  side by side and whichever calls of the announcers fail, at most one of outbound improvements, inbound steers and
  mitigation has a route for a prefix on the wire (as long as no replacement of the per-router table of the
  outbound announcer has failed, after which its wire is not known).
\<close>
theorem one_owner:
  assumes "reachable_sys s" "no_failed_reload (c_log (y_out s))"
  shows "(wire (c_log (y_out s)) p = None \<or> in_wire (ib_log (y_in s)) p = None) \<and>
    (wire (c_log (y_out s)) p = None \<or> mit_wire (m_log (y_mit s)) p = None) \<and>
    (in_wire (ib_log (y_in s)) p = None \<or> mit_wire (m_log (y_mit s)) p = None)"
proof -
  have ok: "sys_ok s" and ap: "apart s" using reachable_sys_ok [OF assms(1)] by simp_all
  have out: "wire (c_log (y_out s)) p = None \<longleftrightarrow> p \<notin> fmdom' (c_active (y_out s))"
    using ok assms(2) by (simp add: sys_ok_def ctl_ok_def table_ok_def table_view_def fmdom'_iff)
  have inb: "in_wire (ib_log (y_in s)) p = None \<longleftrightarrow> p \<notin> fmdom' (ib_active (y_in s))" "fmdom' (ib_active (y_in s)) \<subseteq> set (ic_Prefixes (ib_cfg (y_in s)))"
    using ok by (simp_all add: sys_ok_def wire_state_ok_def fmdom'_iff)
  have mit: "mit_wire (m_log (y_mit s)) p = None \<or> p \<in> mit_claims (y_mit s) (y_ph s)" by (auto simp: mit_claims_def)
  have "p \<in> fmdom' (c_active (y_out s)) \<Longrightarrow> p \<notin> set (ic_Prefixes (ib_cfg (y_in s))) \<and> p \<notin> mit_claims (y_mit s) (y_ph s)"
    "p \<in> fmdom' (ib_active (y_in s)) \<Longrightarrow> p \<notin> mit_claims (y_mit s) (y_ph s)"
    using ap by (auto simp: apart_def disjoint_iff)
  then show ?thesis unfolding out inb(1) using inb(2) mit by (metis subsetD)
qed

lemma ex_sys_reachable: "reachable_sys (beside exAnn exIn0 (exMit2, Idle))"
proof -
  have "\<exists>c. mit_New exMitCfg (Some exMitAnn) = Inr c" by (simp add: mit_New_def exMitCfg_def exMitAnn_def mit_checkInject_def Second_def)
  then obtain c where c: "mit_New exMitCfg (Some exMitAnn) = Inr c" by blast
  have "reachable_sys (beside exAnn exIn0 (exMit0, Idle))"
    using reachable_sys.start [OF ex_New ex_in_New c] c by (simp add: beside_def exMit0_def)
  moreover have env: "me_outbound exMitEnv = Injected exAnn" "me_inbound exMitEnv = in_OnWire exIn0"
    using in_New_state [OF ex_in_New] by (simp_all add: exMitEnv_def Injected_def in_OnWire_def exAnn_def fun_eq_iff)
  moreover have "mit_run exMitEnv (exMit0, Idle) (exMit2, Idle)"
  proof -
    have "mit_run exMitEnv (exMit0, Idle) (fst (SetRIB True exMit0), Idle)" by (rule r_into_rtranclp) (rule mit_step.set_rib)
    also have "mit_step exMitEnv (fst (SetRIB True exMit0), Idle) (exMit1, Idle)" unfolding exMit1_def by (rule mit_step.add)
    also have "mit_run exMitEnv (exMit1, Idle) (exMit2, Idle)" unfolding exMit2_def by (rule mit_Sync_run [OF ex_mit_orders])
    finally show ?thesis .
  qed
  ultimately show ?thesis using beside_run by blast
qed

theorem one_owner_witness: "mit_wire (m_log exMit2) exMitP \<noteq> None \<and> in_wire (ib_log exIn0) exMitP = None \<and> in_Reserved exIn0 exMitP"
proof -
  have "mit_wire (m_log exMit2) exMitP \<noteq> None"
    using reachable_mit_inv [OF ex_mit_reachable(3)] ex_mit_wire by (auto simp: mit_inv_def wire_view_def)
  moreover have "no_failed_reload (c_log exAnn)" by (simp add: exAnn_def no_failed_reload_def)
  moreover have "in_Reserved exIn0 exMitP" by code_simp
  ultimately show ?thesis using one_owner [OF ex_sys_reachable, of exMitP] by (auto simp: beside_def)
qed

end
