(* ===== verification/Leakwatch_Safe.thy ===== *)
theory Leakwatch_Safe
  imports Leakwatch System
begin

text \<open>
  The leak watch beside the outbound controller: what it holds stays off the wire, although the controller can be in the middle
  of an operation that asked about the prefix before it was held. The steps of the watch are the critical sections of \<open>handle\<close>
  and its calls; the calls take the lock of the controller and wait for the end of an operation.
\<close>

section \<open>The machine\<close>

datatype leak_phase = LIdle | LCheck Leak bool time | LWithdraw Leak time | LLabel Leak leak_action time

text \<open>\<open>z_busy\<close> is set while an operation of the controller runs, to the prefixes held at every moment since it began.\<close>

record lsys =
  z_out :: Controller
  z_busy :: "prefix set option"
  z_watch :: Watcher
  z_ph :: leak_phase

definition still_out :: "Watcher \<Rightarrow> prefix set option \<Rightarrow> prefix set option" where
  "still_out w busy = map_option (\<lambda>H. {p \<in> H. lw_Held w p}) busy"

text \<open>The answers before the hold (\<open>le_rule\<close>, \<open>le_on\<close>) may be anything: the state they describe can be gone when the hold begins.\<close>

inductive leak_step :: "lsys \<Rightarrow> lsys \<Rightarrow> bool" where
  report: "leak_step s (s\<lparr>z_watch := leak_sink name sg (z_watch s)\<rparr>)"
| poll: "leak_step s (s\<lparr>z_watch := pollHealth healthy (z_watch s)\<rparr>)"
| clear: "w' = fst (lw_Clear now p (z_watch s)) \<Longrightarrow> leak_step s (s\<lparr>z_watch := w', z_busy := still_out w' (z_busy s)\<rparr>)"
| begin_op: "z_busy s = None \<Longrightarrow> leak_step s (s\<lparr>z_busy := Some {p. lw_Held (z_watch s) p}\<rparr>)"
| end_op: "z_busy s = Some H \<Longrightarrow> (\<And>e p. ann_op_env op = Some e \<Longrightarrow> p \<in> H \<Longrightarrow> ev_Held e p) \<Longrightarrow>
    leak_step s (s\<lparr>z_out := apply_ann_op op (z_out s), z_busy := None\<rparr>)"
| take: "z_ph s = LIdle \<Longrightarrow> lw_queue (z_watch s) = sg # rest \<Longrightarrow> lk_take e now sg ((z_watch s)\<lparr>lw_queue := rest\<rparr>) = (w', evs, found) \<Longrightarrow>
    leak_step s (s\<lparr>z_watch := w', z_ph := (case found of None \<Rightarrow> LIdle | Some l \<Rightarrow> LCheck l (le_on e) now)\<rparr>)"
| known: "z_ph s = LCheck l True now \<Longrightarrow> leak_step s (s\<lparr>z_ph := LWithdraw l now\<rparr>)"
| recheck: "z_ph s = LCheck l False now \<Longrightarrow> z_busy s = None \<Longrightarrow>
    leak_step s (s\<lparr>z_ph := (if Injected (z_out s) (lk_Prefix l) then LWithdraw l now else LLabel l ActionHeld now)\<rparr>)"
| withdraw_leak: "z_ph s = LWithdraw l now \<Longrightarrow> z_busy s = None \<Longrightarrow> orders ev \<Longrightarrow> WithdrawPrefix ev (lk_Prefix l) (z_out s) = (o', errs) \<Longrightarrow>
    leak_step s (s\<lparr>z_out := o', z_ph := LLabel l (lk_action True (errs = [])) now\<rparr>)"
| label: "z_ph s = LLabel l act now \<Longrightarrow>
    leak_step s (s\<lparr>z_watch := fst (lk_finish act (lk_answer (lw_cfg (z_watch s)) l) l now (z_watch s)), z_ph := LIdle\<rparr>)"

inductive reachable_leak :: "lsys \<Rightarrow> bool" where
  start: "NewController acfg ann rib = Inr o' \<Longrightarrow> reachable_leak \<lparr>z_out = o', z_busy = None, z_watch = lw_New cfg srcs, z_ph = LIdle\<rparr>"
| step: "reachable_leak s \<Longrightarrow> leak_step s s' \<Longrightarrow> reachable_leak s'"

fun handling :: "leak_phase \<Rightarrow> Leak option" where
  "handling LIdle = None"
| "handling (LCheck l on now) = Some l"
| "handling (LWithdraw l now) = Some l"
| "handling (LLabel l act now) = Some l"

section \<open>Withdrawing a prefix\<close>

lemma withdrawLocked_shrinks: "fmdom' (c_active (fst (withdrawLocked e p c))) \<subseteq> fmdom' (c_active c)"
  by (auto simp: withdrawLocked_def Let_def ann_do_eq fmdom'_iff split: bool.splits if_splits)

lemma withdraw_fold_shrinks: "fmdom' (c_active (fst (foldl (withdraw_step e) acc ps))) \<subseteq> fmdom' (c_active (fst acc))"
proof (induction ps arbitrary: acc)
  case (Cons p ps)
  have "fmdom' (c_active (fst (withdraw_step e acc p))) \<subseteq> fmdom' (c_active (fst acc))"
    using withdrawLocked_shrinks [of e p "fst acc"] by (simp add: withdraw_step_def case_prod_beta)
  with Cons.IH [of "withdraw_step e acc p"] show ?case by auto
qed simp

lemma withdraw_fold_errs: "snd (foldl (withdraw_step e) acc ps) = [] \<Longrightarrow> snd acc = []"
proof (induction ps arbitrary: acc)
  case (Cons p ps)
  then have "snd (withdraw_step e acc p) = []" by simp
  then show ?case by (simp add: withdraw_step_def case_prod_beta)
qed simp

lemma withdraw_fold_gone:
  "snd (foldl (withdraw_step e) acc ps) = [] \<Longrightarrow> p \<in> set ps \<Longrightarrow> Masked p = p \<Longrightarrow> p \<notin> fmdom' (c_active (fst (foldl (withdraw_step e) acc ps)))"
proof (induction ps arbitrary: acc)
  case (Cons q ps)
  show ?case
  proof (cases "p = q")
    case True
    have "snd (withdraw_step e acc q) = []" using withdraw_fold_errs [of e "withdraw_step e acc q" ps] Cons.prems(1) by simp
    then have "p \<notin> fmdom' (c_active (fst (withdraw_step e acc q)))"
      using True Cons.prems(3) by (auto simp: withdraw_step_def withdrawLocked_def Let_def ann_do_eq case_prod_beta fmdom'_iff split: if_splits bool.splits)
    then show ?thesis using withdraw_fold_shrinks [of e "withdraw_step e acc q" ps] by auto
  qed (use Cons in auto)
qed simp

lemma WithdrawPrefix_gone:
  assumes "orders e" "Masked p = p"
  shows "fmdom' (c_active (fst (WithdrawPrefix e p c))) \<subseteq> fmdom' (c_active c)"
    and "snd (WithdrawPrefix e p c) = [] \<Longrightarrow> p \<notin> fmdom' (c_active (fst (WithdrawPrefix e p c)))"
proof -
  define hits where "hits = filter (\<lambda>q. q = p \<or> (let s = fmget zeroSlot (c_active c) q in moreSpecific s \<and> sl_parent s = p)) (ev_order e 0 (SortedKeys (c_active c)))"
  have eq: "c_active (fst (WithdrawPrefix e p c)) = c_active (fst (foldl (withdraw_step e) (c, []) hits))"
    "snd (WithdrawPrefix e p c) = snd (foldl (withdraw_step e) (c, []) hits)"
    by (simp_all add: WithdrawPrefix_def hits_def assms(2) case_prod_beta Let_def)
  show sub: "fmdom' (c_active (fst (WithdrawPrefix e p c))) \<subseteq> fmdom' (c_active c)"
    unfolding eq using withdraw_fold_shrinks [of e "(c, [])" hits] by simp
  assume ok: "snd (WithdrawPrefix e p c) = []"
  show "p \<notin> fmdom' (c_active (fst (WithdrawPrefix e p c)))"
  proof (cases "p \<in> fmdom' (c_active c)")
    case True
    then have "p \<in> set hits" by (simp add: hits_def orders_set [OF assms(1)])
    then show ?thesis using withdraw_fold_gone [of e "(c, [])" hits p] ok assms(2) unfolding eq by simp
  qed (use sub in auto)
qed

section \<open>The invariant\<close>

text \<open>A prefix whose hold is settled: its route was found absent, or was withdrawn, while it was held.\<close>

definition settled_at :: "leak_phase \<Rightarrow> Leak \<Rightarrow> bool" where
  "settled_at ph l = (case ph of
       LCheck x on now \<Rightarrow> lk_Prefix x \<noteq> lk_Prefix l \<and> lk_Action l \<noteq> ActionWithdrawFailed
     | LWithdraw x now \<Rightarrow> lk_Prefix x \<noteq> lk_Prefix l \<and> lk_Action l \<noteq> ActionWithdrawFailed
     | LLabel x act now \<Rightarrow> if lk_Prefix x = lk_Prefix l then act \<noteq> ActionWithdrawFailed else lk_Action l \<noteq> ActionWithdrawFailed
     | LIdle \<Rightarrow> lk_Action l \<noteq> ActionWithdrawFailed)"

definition watch_ok :: "Watcher \<Rightarrow> bool" where
  "watch_ok w \<longleftrightarrow> (\<forall>p l. fmlookup (lw_held w) p = Some l \<longrightarrow> lk_Prefix l = p \<and> Masked p = p)"

definition leak_ok :: "lsys \<Rightarrow> bool" where
  "leak_ok s \<longleftrightarrow> ctl_ok (z_out s) \<and> watch_ok (z_watch s) \<and> (\<forall>l. handling (z_ph s) = Some l \<longrightarrow> Masked (lk_Prefix l) = lk_Prefix l)"

definition kept_off :: "lsys \<Rightarrow> bool" where
  "kept_off s \<longleftrightarrow> (\<forall>p l. fmlookup (lw_held (z_watch s)) p = Some l \<longrightarrow> settled_at (z_ph s) l \<longrightarrow>
     p \<notin> fmdom' (c_active (z_out s)) \<and> (\<forall>H. z_busy s = Some H \<longrightarrow> p \<in> H))"

lemma unconfirmed_held [simp]: "lw_held (fst (unconfirmed source s why now w)) = lw_held w"
  by (simp add: unconfirmed_def Let_def)

lemma lk_take_cases:
  assumes "lk_take e now sg w = (w', evs, found)"
  obtains (none) "found = None" "\<And>p. map_option (\<lambda>l. (lk_Prefix l, lk_Action l)) (fmlookup (lw_held w') p) = map_option (\<lambda>l. (lk_Prefix l, lk_Action l)) (fmlookup (lw_held w) p)"
  | (held) l where "found = Some l" "lw_held w' = fmupd (lk_Prefix l) l (lw_held w)" "fmlookup (lw_held w) (lk_Prefix l) = None" "lk_Action l = ActionHeld"
      "lk_Prefix l = Masked (lg_Prefix (snd sg))" "lk_reason (lw_cfg w) (le_rule e) (snd sg) \<noteq> None" "lk_confirmed (lw_cfg w) (le_on e) (snd sg)"
      "fmlen (lw_held w) < maxHeld \<or> le_on e" "IsValid (lg_Prefix (snd sg))"
proof -
  define s where "s = (snd sg)\<lparr>lg_Prefix := Masked (lg_Prefix (snd sg))\<rparr>"
  have same: "lk_reason cfg b s = lk_reason cfg b (snd sg)" "lk_confirmed cfg b s = lk_confirmed cfg b (snd sg)" "lg_Prefix s = Masked (lg_Prefix (snd sg))" for cfg b
    by (simp_all add: s_def lk_reason_def lk_confirmed_def)
  show thesis
  proof (cases "IsValid (lg_Prefix (snd sg)) \<and> lk_reason (lw_cfg w) (le_rule e) s \<noteq> None \<and> fmlookup (lw_held w) (lg_Prefix s) = None \<and>
      lk_confirmed (lw_cfg w) (le_on e) s \<and> \<not> (fmlen (lw_held w) \<ge> maxHeld \<and> \<not> le_on e)")
    case True
    then obtain why where "lk_reason (lw_cfg w) (le_rule e) s = Some why" by blast
    with True assms show thesis
      by (intro held [of "the found"]) (auto simp: lk_take_def s_def [symmetric] lk_hold_def same Let_def)
  next
    case False
    then show thesis using assms
      by (intro none) (auto simp: lk_take_def s_def [symmetric] lk_hold_def Let_def case_prod_beta split: if_splits option.splits)
  qed
qed
section \<open>Every step keeps it\<close>

lemma quiet_held [simp]: "lw_held (leak_sink name sg w) = lw_held w" "lw_held (pollHealth healthy w) = lw_held w"
  by (simp_all add: leak_sink_def pollHealth_def)

lemma leak_ok_step:
  assumes ok: "leak_ok s" and st: "leak_step s s'"
  shows "leak_ok s'"
  using st
proof cases
  case (report name sg)
  then show ?thesis using ok by (simp add: leak_ok_def watch_ok_def)
next
  case (poll healthy)
  then show ?thesis using ok by (simp add: leak_ok_def watch_ok_def)
next
  case (clear w' now p)
  then show ?thesis using ok by (simp add: leak_ok_def watch_ok_def lw_Clear_def Let_def)
next
  case (take sg rest e now w' evs found)
  from take(4) show ?thesis
  proof (cases rule: lk_take_cases)
    case none
    have "watch_ok w'" unfolding watch_ok_def
    proof (intro allI impI)
      fix p l assume "fmlookup (lw_held w') p = Some l"
      with none(2) [of p] obtain l0 where "fmlookup (lw_held (z_watch s)) p = Some l0" "lk_Prefix l0 = lk_Prefix l" by (cases "fmlookup (lw_held (z_watch s)) p") auto
      then show "lk_Prefix l = p \<and> Masked p = p" using ok by (auto simp: leak_ok_def watch_ok_def)
    qed
    then show ?thesis using ok take none by (simp add: leak_ok_def)
  next
    case (held l)
    then have "Masked (lk_Prefix l) = lk_Prefix l" by simp
    then show ?thesis using ok take held(1,2) by (simp add: leak_ok_def watch_ok_def)
  qed
next
  case (withdraw_leak l now ev o' errs)
  have "ctl_ok o'" using ok ctl_ok_op [of "z_out s" "OpWithdrawPrefix ev (lk_Prefix l)"] withdraw_leak(5) by (simp add: leak_ok_def)
  then show ?thesis using ok withdraw_leak by (simp add: leak_ok_def)
next
  case (label l act now)
  then show ?thesis using ok by (auto simp: leak_ok_def watch_ok_def lk_finish_def lk_labelled_def split: option.splits if_splits)
qed (use ok in \<open>auto simp: leak_ok_def ctl_ok_op split: if_splits\<close>)

lemma kept_offD:
  "kept_off s \<Longrightarrow> fmlookup (lw_held (z_watch s)) p = Some l \<Longrightarrow> settled_at (z_ph s) l \<Longrightarrow>
    p \<notin> fmdom' (c_active (z_out s)) \<and> (\<forall>H. z_busy s = Some H \<longrightarrow> p \<in> H)"
  by (simp add: kept_off_def)

lemma kept_off_quiet:
  assumes "kept_off s" "fmdom' (c_active (z_out s')) \<subseteq> fmdom' (c_active (z_out s))" "z_busy s' = z_busy s"
    and "\<And>p l. fmlookup (lw_held (z_watch s')) p = Some l \<Longrightarrow> settled_at (z_ph s') l \<Longrightarrow>
      p \<notin> fmdom' (c_active (z_out s')) \<and> z_busy s = None \<or> (\<exists>l0. fmlookup (lw_held (z_watch s)) p = Some l0 \<and> settled_at (z_ph s) l0)"
  shows "kept_off s'"
  unfolding kept_off_def
proof (intro allI impI)
  fix p l assume "fmlookup (lw_held (z_watch s')) p = Some l" "settled_at (z_ph s') l"
  from assms(4) [OF this] show "p \<notin> fmdom' (c_active (z_out s')) \<and> (\<forall>H. z_busy s' = Some H \<longrightarrow> p \<in> H)"
    using kept_offD [OF assms(1), of p] assms(2,3) by auto
qed

lemma kept_off_step:
  assumes ok: "leak_ok s" and k: "kept_off s" and st: "leak_step s s'"
  shows "kept_off s'"
  using st
proof cases
  case (report name sg)
  then show ?thesis using k by (intro kept_off_quiet [OF k]) auto
next
  case (poll healthy)
  then show ?thesis using k by (intro kept_off_quiet [OF k]) auto
next
  case (clear w' now p)
  have held: "fmlookup (lw_held (z_watch s')) q = Some l \<Longrightarrow> fmlookup (lw_held (z_watch s)) q = Some l \<and> lw_Held w' q" for q l
    using ok clear by (auto simp: lw_Clear_def Let_def lw_Held_def leak_ok_def watch_ok_def split: if_splits)
  show ?thesis unfolding kept_off_def
  proof (intro allI impI conjI)
    fix q l assume "fmlookup (lw_held (z_watch s')) q = Some l" "settled_at (z_ph s') l"
    then have q: "q \<notin> fmdom' (c_active (z_out s)) \<and> (\<forall>H. z_busy s = Some H \<longrightarrow> q \<in> H)" "lw_Held w' q"
      using kept_offD [OF k, of q l] held [of q l] clear(1) by simp_all
    then show "q \<notin> fmdom' (c_active (z_out s'))" by (simp add: clear(1))
    fix H assume "z_busy s' = Some H"
    then show "q \<in> H" using q by (auto simp: clear(1) still_out_def)
  qed
next
  case begin_op
  then show ?thesis using k ok by (auto simp: kept_off_def lw_Held_def leak_ok_def watch_ok_def)
next
  case (end_op H op)
  have "q \<notin> fmdom' (c_active (apply_ann_op op (z_out s)))" if q: "fmlookup (lw_held (z_watch s)) q = Some l" "settled_at (z_ph s) l" for q l
  proof
    assume new: "q \<in> fmdom' (c_active (apply_ann_op op (z_out s)))"
    have old: "q \<notin> fmdom' (c_active (z_out s))" "q \<in> H" using kept_offD [OF k q] end_op(2) by simp_all
    show False
    proof (cases "ann_op_env op")
      case None
      then show False using new old by (cases op) (simp_all add: RememberSpeaker_def split: if_splits)
    next
      case (Some e)
      have "ctl_ok (z_out s)" using ok by (simp add: leak_ok_def)
      from op_grown [OF this Some] new old(1) have "\<not> ev_Held e q" by (auto simp: out_grown_def)
      then show False using end_op(3) [OF Some old(2)] by simp
    qed
  qed
  then show ?thesis by (simp add: kept_off_def end_op(1))
next
  case (take sg rest e now w' evs found)
  from take(4) show ?thesis
  proof (cases rule: lk_take_cases)
    case none
    have "\<exists>l0. fmlookup (lw_held (z_watch s)) p = Some l0 \<and> settled_at LIdle l0" if "fmlookup (lw_held w') p = Some l" "settled_at LIdle l" for p l
      using none(2) [of p] that by (cases "fmlookup (lw_held (z_watch s)) p") (auto simp: settled_at_def)
    then show ?thesis using take none(1) by (intro kept_off_quiet [OF k]) auto
  next
    case (held l)
    then show ?thesis using take by (intro kept_off_quiet [OF k]) (auto simp: settled_at_def split: if_splits)
  qed
next
  case (known l now)
  then show ?thesis by (intro kept_off_quiet [OF k]) (auto simp: settled_at_def)
next
  case (recheck l now)
  have "Masked (lk_Prefix l) = lk_Prefix l" "watch_ok (z_watch s)" using ok recheck(2) by (simp_all add: leak_ok_def)
  then show ?thesis using recheck by (intro kept_off_quiet [OF k]) (auto simp: settled_at_def Injected_def fmdom'_iff watch_ok_def split: if_splits)
next
  case (withdraw_leak l now ev o' errs)
  have m: "Masked (lk_Prefix l) = lk_Prefix l" "watch_ok (z_watch s)" using ok withdraw_leak(2) by (simp_all add: leak_ok_def)
  note gone = WithdrawPrefix_gone [OF withdraw_leak(4) m(1), of "z_out s"]
  show ?thesis using withdraw_leak gone m(2)
    by (intro kept_off_quiet [OF k]) (auto simp: settled_at_def watch_ok_def lk_action_def split: if_splits)
next
  case (label l act now)
  have w: "watch_ok (z_watch s)" using ok by (simp add: leak_ok_def)
  have "\<exists>l0. fmlookup (lw_held (z_watch s)) p = Some l0 \<and> settled_at (LLabel l act now) l0"
    if l': "fmlookup (lw_held (z_watch s')) p = Some l'" "settled_at LIdle l'" for p l'
  proof (cases "p = lk_Prefix l")
    case True
    then obtain x where x: "fmlookup (lw_held (z_watch s)) p = Some x" "lk_Action l' = act"
      using l'(1) by (auto simp: label(1) lk_finish_def lk_labelled_def split: option.splits)
    then have "lk_Prefix x = p" using w by (auto simp: watch_ok_def)
    then show ?thesis using x l'(2) True by (auto simp: settled_at_def)
  next
    case False
    then have x: "fmlookup (lw_held (z_watch s)) p = Some l'" using l'(1) by (auto simp: label(1) lk_finish_def split: option.splits)
    then have "lk_Prefix l' = p" using w by (auto simp: watch_ok_def)
    then show ?thesis using x l'(2) False by (auto simp: settled_at_def)
  qed
  then show ?thesis using label by (intro kept_off_quiet [OF k]) auto
qed

lemma reachable_leak_ok: "reachable_leak s \<Longrightarrow> leak_ok s \<and> kept_off s"
proof (induction rule: reachable_leak.induct)
  case (start acfg ann rib o' cfg srcs)
  then show ?case using ctl_ok_New [OF start] by (simp add: leak_ok_def kept_off_def watch_ok_def lw_New_def)
qed (use leak_ok_step kept_off_step in blast)
section \<open>A sighting beside an idle controller\<close>

text \<open>While no operation of the controller runs, one turn of \<open>Run\<close> whose questions it answers is a run of the machine.\<close>

definition answered :: "env \<Rightarrow> Controller \<Rightarrow> leak_env \<Rightarrow> prefix \<Rightarrow> bool" where
  "answered ev c e p \<longleftrightarrow> le_on e = Injected c p \<and> le_again e = Injected c p \<and> le_withdraw e = (snd (WithdrawPrefix ev p c) = [])"

lemma turn_reachable:
  assumes r: "reachable_leak \<lparr>z_out = c, z_busy = None, z_watch = w, z_ph = LIdle\<rparr>" and q: "lw_queue w = sg # rest" and "orders ev"
    and ans: "answered ev c e (Masked (lg_Prefix (snd sg)))" and t: "lw_turn e now w = (w', out, evs)"
  shows "reachable_leak \<lparr>z_out = (case out of None \<Rightarrow> c | Some p \<Rightarrow> fst (WithdrawPrefix ev p c)), z_busy = None, z_watch = w', z_ph = LIdle\<rparr>"
proof -
  let ?s = "\<lambda>c w ph. \<lparr>z_out = c, z_busy = None, z_watch = w, z_ph = ph\<rparr>"
  obtain w1 evs1 found where take: "lk_take e now sg (w\<lparr>lw_queue := rest\<rparr>) = (w1, evs1, found)" by (cases "lk_take e now sg (w\<lparr>lw_queue := rest\<rparr>)")
  have cfg: "lw_cfg w1 = lw_cfg w" using take
    by (auto simp: lk_take_def lk_hold_def unconfirmed_def Let_def split: if_splits option.splits prod.splits)
  have r1: "reachable_leak (?s c w1 (case found of None \<Rightarrow> LIdle | Some l \<Rightarrow> LCheck l (le_on e) now))"
    using reachable_leak.step [OF r leak_step.take [of "?s c w LIdle" sg rest e now w1 evs1 found]] q take by simp
  from take show ?thesis
  proof (cases rule: lk_take_cases)
    case none
    then show ?thesis using t q take r1 by (simp add: lw_turn_def lw_handle_def)
  next
    case (held l)
    note on = ans [unfolded answered_def held(5) [symmetric]]
    let ?act = "lk_action (Injected c (lk_Prefix l)) (le_withdraw e)"
    have out: "out = (if Injected c (lk_Prefix l) then Some (lk_Prefix l) else None)" and w': "w' = fst (lk_finish ?act (lk_answer (lw_cfg w1) l) l now w1)"
      using t q take held(1) on by (auto simp: lw_turn_def lw_handle_def case_prod_beta Let_def cfg)
    have lab: "reachable_leak (?s c' w1 (LLabel l ?act now)) \<Longrightarrow> reachable_leak (?s c' w' LIdle)" for c'
      using reachable_leak.step [OF _ leak_step.label [of "?s c' w1 (LLabel l ?act now)" l ?act now]] by (simp add: w')
    show ?thesis
    proof (cases "Injected c (lk_Prefix l)")
      case True
      have "reachable_leak (?s c w1 (LWithdraw l now))"
        using reachable_leak.step [OF r1 leak_step.known [of _ l now]] held(1) on True by simp
      moreover obtain o' errs where wd: "WithdrawPrefix ev (lk_Prefix l) c = (o', errs)" by (cases "WithdrawPrefix ev (lk_Prefix l) c")
      ultimately have "reachable_leak (?s o' w1 (LLabel l (lk_action True (errs = [])) now))"
        using reachable_leak.step [OF _ leak_step.withdraw_leak [of "?s c w1 (LWithdraw l now)" l now ev o' errs]] assms(3) by simp
      then show ?thesis using lab [of o'] True on wd out by simp
    next
      case False
      have "reachable_leak (?s c w1 (LLabel l ActionHeld now))"
        using reachable_leak.step [OF r1 leak_step.recheck [of _ l now]] held(1) on False by simp
      then show ?thesis using lab [of c] False out by (simp add: lk_action_def)
    qed
  qed
qed

section \<open>Properties\<close>

text \<open>
  C36: what the leak watch holds stays off the wire. At every moment, with sightings, clears and operations of the controller in any
  order and side by side, a prefix that is held, that the watch is not in the middle of handling and whose withdrawal did not
  fail has no outbound route on the wire, although an operation that asked about it before it was held may have announced it since.
\<close>
theorem held_stays_off:
  assumes "reachable_leak s" "fmlookup (lw_held (z_watch s)) p = Some l" "lk_Action l \<noteq> ActionWithdrawFailed"
    and "map_option lk_Prefix (handling (z_ph s)) \<noteq> Some p"
  shows "\<not> Injected (z_out s) p"
proof -
  have ok: "watch_ok (z_watch s)" "kept_off s" using reachable_leak_ok [OF assms(1)] by (simp_all add: leak_ok_def)
  have m: "lk_Prefix l = p" "Masked p = p" using ok(1) assms(2) by (auto simp: watch_ok_def)
  then have "settled_at (z_ph s) l" using assms(3,4) by (cases "z_ph s") (auto simp: settled_at_def)
  then show ?thesis using kept_offD [OF ok(2) assms(2)] m(2) by (simp add: Injected_def fmdom'_iff)
qed

text \<open>
  C37: a hold begins only on evidence. A prefix that one sighting makes held is the valid, masked prefix of that sighting, which carries the
  community of Packeteer or passes the AS path rule; the sighting of a public collector counts only when the prefix is on the
  wire and the local AS is one of the first two distinct ones of the path. The size of the table bounds the prefixes that are not on
  the wire: a full table still takes one that is. A route is withdrawn only for a prefix that is held then.
\<close>
theorem handle_holds_on_evidence:
  assumes "lw_handle e now sg w = (w', out, evs)" "lw_Held w' p" "\<not> lw_Held w p"
  shows "Masked p = Masked (lg_Prefix (snd sg)) \<and> IsValid (lg_Prefix (snd sg)) \<and> lk_reason (lw_cfg w) (le_rule e) (snd sg) \<noteq> None \<and>
    (lg_PublicCollector (snd sg) \<longrightarrow> le_on e \<and> lc_ASN (lw_cfg w) \<noteq> 0 \<and> lc_ASN (lw_cfg w) \<in> set (take 2 (remdups_adj (lg_ASPath (snd sg))))) \<and>
    (fmlen (lw_held w) < maxHeld \<or> le_on e) \<and> (\<forall>q. out = Some q \<longrightarrow> q = Masked p)"
proof -
  obtain w1 evs1 found where take: "lk_take e now sg w = (w1, evs1, found)" by (cases "lk_take e now sg w")
  from take show ?thesis
  proof (cases rule: lk_take_cases)
    case none
    then have "w' = w1" using assms(1) take by (simp add: lw_handle_def)
    then show ?thesis using none(2) [of "Masked p"] assms(2,3) by (cases "fmlookup (lw_held w) (Masked p)") (auto simp: lw_Held_def)
  next
    case (held l)
    have "lw_held w' = lw_held (fst (lk_finish (lk_action (le_on e \<or> le_again e) (le_withdraw e)) (lk_answer (lw_cfg w) l) l now w1))"
      and out: "out = (if le_on e \<or> le_again e then Some (lk_Prefix l) else None)"
      using assms(1) take held(1) by (auto simp: lw_handle_def Let_def case_prod_beta)
    then have "Masked p = lk_Prefix l" using assms(2,3) held(2) by (auto simp: lw_Held_def lk_finish_def split: if_splits)
    then show ?thesis using held out by (auto simp: lk_confirmed_def nextToPeer_def next_loop_eq)
  qed
qed
section \<open>Examples\<close>

definition exLeakCfg :: leakConfig where
  "exLeakCfg = \<lparr>lc_ASN = 64500, lc_ASPathRule = False, lc_Community = 0xFBF40309, lc_Large = [], lc_Emit = True, lc_RPKI = None\<rparr>"

definition exSighting :: LeakSighting where
  "exSighting = \<lparr>lg_Prefix = exAnnP, lg_ASPath = [64501, 64501, 64500], lg_Communities = [0xFBF40309], lg_LargeCommunities = [], lg_Seen = ''peer'',
     lg_OurExport = False, lg_PublicCollector = True\<rparr>"

definition exLeakEnv :: leak_env where
  "exLeakEnv = \<lparr>le_rule = True, le_on = True, le_again = True, le_withdraw = True\<rparr>"

definition exWatch0 :: Watcher where "exWatch0 = leak_sink ''ris'' exSighting (lw_New exLeakCfg [(''ris'', ''ris'')])"

definition exWatch1 :: Watcher where "exWatch1 = fst (lw_turn exLeakEnv 1000 exWatch0)"

definition exLeakOut :: Controller where "exLeakOut = fst (WithdrawPrefix exAnnEnv exAnnP exAnnAfter)"

lemma ex_leak_turn: "lw_turn exLeakEnv 1000 exWatch0 = (exWatch1, Some exAnnP, snd (snd (lw_turn exLeakEnv 1000 exWatch0)))"
proof -
  have "fst (snd (lw_turn exLeakEnv 1000 exWatch0)) = Some exAnnP" by code_simp
  then show ?thesis by (simp add: exWatch1_def prod_eq_iff)
qed

lemma ex_leak_answers: "Injected exAnnAfter exAnnP" "snd (WithdrawPrefix exAnnEnv exAnnP exAnnAfter) = []"
  by code_simp+

lemma ex_leak_held: "map_option (\<lambda>l. (lk_Prefix l, lk_Action l)) (fmlookup (lw_held exWatch1) exAnnP) = Some (exAnnP, ActionWithdrawn)"
  by code_simp

lemma ex_leak_reachable: "reachable_leak \<lparr>z_out = exLeakOut, z_busy = None, z_watch = exWatch1, z_ph = LIdle\<rparr>"
proof -
  let ?s = "\<lambda>c b w. \<lparr>z_out = c, z_busy = b, z_watch = w, z_ph = LIdle\<rparr>" and ?w = "lw_New exLeakCfg [(''ris'', ''ris'')]"
  have "reachable_leak (?s exAnn None ?w)" by (rule reachable_leak.start [OF ex_New])
  then have "reachable_leak (?s exAnn (Some {}) ?w)"
    using reachable_leak.step [OF _ leak_step.begin_op [of "?s exAnn None ?w"]] by (simp add: lw_Held_def lw_New_def)
  then have "reachable_leak (?s exAnnAfter None ?w)"
    using reachable_leak.step [OF _ leak_step.end_op [of "?s exAnn (Some {}) ?w" "{}" "Announce_Spec.OpSync exAnnEnv [exAnnImp]"]] by (simp add: exAnnAfter_def)
  then have r: "reachable_leak (?s exAnnAfter None exWatch0)"
    using reachable_leak.step [OF _ leak_step.report [of "?s exAnnAfter None ?w" "''ris''" exSighting]] by (simp add: exWatch0_def)
  have q: "lw_queue exWatch0 = [(''ris'', exSighting)]" by (simp add: exWatch0_def leak_sink_def lw_New_def queueSize_def)
  have "answered exAnnEnv exAnnAfter exLeakEnv (Masked (lg_Prefix (snd (''ris'', exSighting))))"
    using ex_leak_answers ex_Masked by (simp add: answered_def exLeakEnv_def exSighting_def)
  from turn_reachable [OF r q ex_orders this ex_leak_turn] show ?thesis by (simp add: exLeakOut_def)
qed

theorem held_stays_off_witness: "lw_Held exWatch1 exAnnP \<and> \<not> Injected exLeakOut exAnnP"
proof -
  obtain l where l: "fmlookup (lw_held exWatch1) exAnnP = Some l" "lk_Action l \<noteq> ActionWithdrawFailed" using ex_leak_held by auto
  then show ?thesis using held_stays_off [OF ex_leak_reachable, of exAnnP l] ex_Masked by (simp add: lw_Held_def)
qed

theorem handle_holds_on_evidence_witness: "64500 \<in> set (take 2 (remdups_adj [64501, 64501, 64500 :: 32 word])) \<and> lw_Held exWatch1 exAnnP"
proof -
  have "lw_turn exLeakEnv 1000 exWatch0 = lw_handle exLeakEnv 1000 (''ris'', exSighting) (lw_New exLeakCfg [(''ris'', ''ris'')])"
    by (simp add: lw_turn_def exWatch0_def leak_sink_def lw_New_def queueSize_def)
  then have h: "lw_handle exLeakEnv 1000 (''ris'', exSighting) (lw_New exLeakCfg [(''ris'', ''ris'')]) = (exWatch1, Some exAnnP, snd (snd (lw_turn exLeakEnv 1000 exWatch0)))"
    using ex_leak_turn by simp
  have held: "lw_Held exWatch1 exAnnP" "\<not> lw_Held (lw_New exLeakCfg [(''ris'', ''ris'')]) exAnnP"
    using ex_leak_held ex_Masked by (auto simp: lw_Held_def lw_New_def)
  from handle_holds_on_evidence [OF h held] held(1) show ?thesis by (simp add: exSighting_def lw_New_def exLeakCfg_def)
qed

end
