(* ===== verification/Anomaly.thy ===== *)
theory Anomaly
  imports Mitigation "HOL-Library.Product_Lexorder"
begin

text \<open>
  Traffic anomaly detection (src/internal/anomaly/anomaly.go): every interval the flow counters become rates, a detector names
  the anomalies, and an anomaly that a configured rule matches leads to a mitigation rule, within limits.

  The flow source, the detector, the lease, the RIB view and the random identifiers are the record \<open>an_env\<close>; the mitigation controller is
  the record \<open>mitigator\<close> of the three operations the source calls through its interface, on a state of any type. What the
  anomaly controller asked it to do is kept in \<open>av_calls\<close>, which the source does not have. Waking the decision
  loop (\<open>Poke\<close>) and the log are left out.
\<close>

section \<open>Data\<close>

definition staleRounds :: int where "staleRounds = 3"

definition maxReason :: nat where "maxReason = 256"

type_synonym TrafficKey = "prefix \<times> IPProtocol"

record FlowCounter =
  fl_Prefix :: prefix
  fl_Protocol :: IPProtocol
  fl_Bytes :: "64 word"

record detected =
  dt_Key :: TrafficKey
  dt_Mbps :: float64
  dt_PeakMbps :: float64
  dt_BaselineMbps :: float64
  dt_Reason :: string
  dt_Since :: time

record anRule =
  ay_Name :: string
  ay_Prefixes :: "prefix list"
  ay_Protocols :: "IPProtocol list"
  ay_MinMbps :: float64
  ay_Action :: string
  ay_Target :: string
  ay_RateMbps :: float64
  ay_TTL :: duration

record anConfig =
  aq_Interval :: duration
  aq_MaxActionsPerHour :: int
  aq_MaxActive :: int
  aq_Rules :: "anRule list"
  aq_Detector :: string
  aq_Source :: string

datatype an_state = NoState | StateNoRule | StateMitigating | StateEnded | WaitStandby | WaitRIB prefix | WaitActive int | WaitActions int
  | WaitFull mit_error | Refused mit_error

record Anomaly =
  aa_ID :: string
  aa_Prefix :: prefix
  aa_Protocol :: IPProtocol
  aa_Mbps :: float64
  aa_PeakMbps :: float64
  aa_BaselineMbps :: float64
  aa_Reason :: string
  aa_Since :: time
  aa_Rule :: string
  aa_Mitigation :: string
  aa_Action :: string
  aa_State :: an_state
  aa_done :: bool
  aa_lastMit :: string
  aa_lastAction :: string

definition aa_key :: "Anomaly \<Rightarrow> TrafficKey" where "aa_key a = (aa_Prefix a, aa_Protocol a)"

datatype an_why = FlowUnavailable string | BackToBaseline

datatype an_kind = AnDetected | AnMitigated | AnHeld | AnEnded | AnCleared

datatype an_detail = DetailReason string | DetailState an_state | DetailEnded string | DetailAdded string string string | DetailCleared an_why "string option"

record anChange =
  ag_Time :: time
  ag_Kind :: an_kind
  ag_Detail :: an_detail
  ag_Anomaly :: Anomaly

datatype an_call = AnAdd Request "mit_error + Rule" | AnRemove string

record anController =
  av_cfg :: anConfig
  av_rib :: bool
  av_prev :: "(TrafficKey, 64 word) fmap"
  av_prevAt :: time
  av_active :: "(TrafficKey, Anomaly) fmap"
  av_actions :: "time list"
  av_feed :: "anChange list"
  av_pending :: "anChange list"
  av_failures :: int
  av_tracked :: int
  av_lastRound :: time
  av_lastErr :: string
  av_calls :: "(time \<times> an_call) list"

record 'm mitigator =
  mg_Add :: "Request \<Rightarrow> time \<Rightarrow> 'm \<Rightarrow> 'm \<times> (mit_error + Rule)"
  mg_Remove :: "string \<Rightarrow> 'm \<Rightarrow> 'm \<times> bool"
  mg_Has :: "'m \<Rightarrow> string \<Rightarrow> bool"

record an_env =
  ae_FlowCounters :: "string + FlowCounter list"
  ae_Observe :: "(TrafficKey \<times> float64) list \<Rightarrow> detected list"
  ae_Tracked :: int
  ae_Leader :: bool
  ae_Ready :: bool
  ae_Contains :: "prefix \<Rightarrow> bool"
  ae_ID :: "TrafficKey \<Rightarrow> string"

section \<open>Construction, the feed\<close>

datatype an_error = NoSource | NoDetector | BadInterval | BadLimits | RulesNeedMitigation

definition an_New :: "anConfig \<Rightarrow> bool \<Rightarrow> bool \<Rightarrow> bool \<Rightarrow> an_error + anController" where
  "an_New cfg src det mit =
     (if \<not> src then Inl NoSource
      else if \<not> det then Inl NoDetector
      else if aq_Interval cfg \<le> 0 then Inl BadInterval
      else if aq_MaxActive cfg < 1 \<or> aq_MaxActionsPerHour cfg < 1 then Inl BadLimits
      else if aq_Rules cfg \<noteq> [] \<and> \<not> mit then Inl RulesNeedMitigation
      else Inr \<lparr>av_cfg = cfg, av_rib = False, av_prev = fmempty, av_prevAt = 0, av_active = fmempty, av_actions = [], av_feed = [], av_pending = [],
             av_failures = 0, av_tracked = 0, av_lastRound = 0, av_lastErr = [], av_calls = []\<rparr>)"

definition an_SetRIB :: "bool \<Rightarrow> anController \<Rightarrow> anController" where "an_SetRIB rib c = c\<lparr>av_rib := rib\<rparr>"

definition an_changeLocked :: "time \<Rightarrow> an_kind \<Rightarrow> Anomaly \<Rightarrow> an_detail \<Rightarrow> anController \<Rightarrow> anController" where
  "an_changeLocked now kind a detail c =
     (let ch = \<lparr>ag_Time = now, ag_Kind = kind, ag_Detail = detail, ag_Anomaly = a\<rparr>; feed = av_feed c @ [ch]; pend = av_pending c @ [ch]
      in c\<lparr>av_feed := (if length feed > FeedSize then drop (length feed - FeedSize) feed else feed),
           av_pending := (if length pend > 10 * FeedSize then drop (length pend - FeedSize) pend else pend)\<rparr>)"

definition an_Changes :: "anController \<Rightarrow> anController \<times> anChange list" where
  "an_Changes c = (c\<lparr>av_pending := []\<rparr>, av_pending c)"

text \<open>The order of \<open>less\<close> is the one of the keys: the address, the length, the protocol.\<close>

definition sortedLocked :: "anController \<Rightarrow> TrafficKey list" where
  "sortedLocked c = sorted_list_of_set (fmdom' (av_active c))"

section \<open>Acting on an anomaly\<close>

definition an_matches :: "anRule \<Rightarrow> Anomaly \<Rightarrow> bool" where
  "an_matches r a =
     (if aa_PeakMbps a < ay_MinMbps r \<and> aa_Mbps a < ay_MinMbps r then False
      else if ay_Protocols r \<noteq> [] \<and> aa_Protocol a \<notin> set (ay_Protocols r) then False
      else list_ex (\<lambda>p. Bits p \<le> Bits (aa_Prefix a) \<and> Contains p (Addr (aa_Prefix a))) (ay_Prefixes r))"

definition matchLocked :: "anController \<Rightarrow> Anomaly \<Rightarrow> anRule option" where
  "matchLocked c a = find (\<lambda>r. an_matches r a) (aq_Rules (av_cfg c))"

definition put_anomaly :: "Anomaly \<Rightarrow> anController \<Rightarrow> anController" where
  "put_anomaly a c = c\<lparr>av_active := fmupd (aa_key a) a (av_active c)\<rparr>"

definition an_hold :: "time \<Rightarrow> an_state \<Rightarrow> Anomaly \<Rightarrow> anController \<Rightarrow> anController" where
  "an_hold now st a c =
     (if aa_State a = st then put_anomaly a c
      else let a1 = a\<lparr>aa_State := st\<rparr> in an_changeLocked now AnHeld a1 (DetailState st) (put_anomaly a1 c))"

definition an_held :: "anController \<Rightarrow> int" where
  "an_held c = int (length (filter (\<lambda>k. case fmlookup (av_active c) k of Some x \<Rightarrow> aa_Mitigation x \<noteq> [] | None \<Rightarrow> False) (sortedLocked c)))"

definition an_request :: "Anomaly \<Rightarrow> anRule \<Rightarrow> Request" where
  "an_request a r =
     \<lparr>rq_Prefix = aa_Prefix a, rq_Action = ay_Action r, rq_Target = ay_Target r, rq_TTL = ay_TTL r,
      rq_Reason = take maxReason (''anomaly '' @ aa_ID a @ '' (rule '' @ ay_Name r @ ''): '' @ aa_Reason a),
      rq_Match = (if IsFlowSpec (ay_Action r) \<and> aa_Protocol a \<noteq> 0 then zeroMatch\<lparr>fm_Protocols := [aa_Protocol a]\<rparr> else zeroMatch),
      rq_Countries = [], rq_RateMbps = ay_RateMbps r, rq_NoReplace = True\<rparr>"

text \<open>The checks before a rule is added: why the anomaly waits, if it does.\<close>

definition an_waits :: "an_env \<Rightarrow> anController \<Rightarrow> Anomaly \<Rightarrow> an_state option" where
  "an_waits e c a =
     (if \<not> ae_Leader e then Some WaitStandby
      else if \<not> av_rib c \<or> \<not> ae_Ready e \<or> \<not> ae_Contains e (aa_Prefix a) then Some (WaitRIB (aa_Prefix a))
      else if an_held c \<ge> aq_MaxActive (av_cfg c) then Some (WaitActive (aq_MaxActive (av_cfg c)))
      else None)"

definition an_called :: "time \<Rightarrow> an_call \<Rightarrow> anController \<Rightarrow> anController" where
  "an_called now x c = c\<lparr>av_calls := av_calls c @ [(now, x)]\<rparr>"

definition an_add :: "'m mitigator \<Rightarrow> time \<Rightarrow> Anomaly \<Rightarrow> anRule \<Rightarrow> anController \<times> 'm \<Rightarrow> anController \<times> 'm" where
  "an_add M now a r s =
     (let (c, m) = s; req = an_request a r; (m1, res) = mg_Add M req now m; c1 = an_called now (AnAdd req res) c in
      case res of
        Inl err \<Rightarrow> if err = ErrFull then (an_hold now (WaitFull err) a c1, m1) else (an_hold now (Refused err) (a\<lparr>aa_done := True\<rparr>) c1, m1)
      | Inr mr \<Rightarrow>
          (let a1 = a\<lparr>aa_done := True, aa_Mitigation := ru_ID mr, aa_Action := ru_Action mr, aa_State := StateMitigating,
                 aa_lastMit := ru_ID mr, aa_lastAction := ru_Action mr\<rparr>
           in (an_changeLocked now AnMitigated a1 (DetailAdded (ru_ID mr) (ru_Action mr) (ay_Name r)) ((put_anomaly a1 c1)\<lparr>av_actions := av_actions c1 @ [now]\<rparr>), m1)))"

definition actLocked :: "'m mitigator \<Rightarrow> an_env \<Rightarrow> time \<Rightarrow> anController \<times> 'm \<Rightarrow> TrafficKey \<Rightarrow> anController \<times> 'm" where
  "actLocked M e now s k =
     (let (c, m) = s in
      case fmlookup (av_active c) k of
        None \<Rightarrow> s
      | Some a \<Rightarrow>
          if aa_Mitigation a \<noteq> [] then
            (if mg_Has M m (aa_Mitigation a) then s
             else let a1 = a\<lparr>aa_Mitigation := [], aa_Action := [], aa_State := StateEnded\<rparr>
                  in (an_changeLocked now AnEnded a1 (DetailEnded (aa_Mitigation a)) (put_anomaly a1 c), m))
          else if aa_done a then s
          else case matchLocked c a of
            None \<Rightarrow> (put_anomaly (a\<lparr>aa_State := StateNoRule\<rparr>) c, m)
          | Some r \<Rightarrow>
              (let a1 = a\<lparr>aa_Rule := ay_Name r\<rparr> in
               case an_waits e c a1 of
                 Some st \<Rightarrow> (an_hold now st a1 c, m)
               | None \<Rightarrow>
                   (let c1 = c\<lparr>av_actions := filter (\<lambda>t. t > now - Hour) (av_actions c)\<rparr> in
                    if int (length (av_actions c1)) \<ge> aq_MaxActionsPerHour (av_cfg c1)
                    then (an_hold now (WaitActions (aq_MaxActionsPerHour (av_cfg c1))) a1 c1, m)
                    else an_add M now a1 r (c1, m))))"

definition clearLocked :: "'m mitigator \<Rightarrow> time \<Rightarrow> an_why \<Rightarrow> anController \<times> 'm \<Rightarrow> TrafficKey \<Rightarrow> anController \<times> 'm" where
  "clearLocked M now why s k =
     (let (c, m) = s in
      case fmlookup (av_active c) k of
        None \<Rightarrow> s
      | Some a \<Rightarrow>
          (let c1 = c\<lparr>av_active := fmdrop k (av_active c)\<rparr>;
               (c2, m1, gone) = (if aa_Mitigation a \<noteq> [] then (case mg_Remove M (aa_Mitigation a) m of (m1, ok) \<Rightarrow> (an_called now (AnRemove (aa_Mitigation a)) c1, m1, ok))
                                 else (c1, m, False))
           in (an_changeLocked now AnCleared a (DetailCleared why (if gone then Some (aa_Mitigation a) else None)) c2, m1)))"

section \<open>A round\<close>

definition flow_sums :: "FlowCounter list \<Rightarrow> (TrafficKey, 64 word) fmap" where
  "flow_sums counters =
     foldl (\<lambda>cur fc. if IsValid (fl_Prefix fc) then (let k = (Masked (fl_Prefix fc), fl_Protocol fc) in fmupd k (fmget 0 cur k + fl_Bytes fc) cur) else cur)
       fmempty counters"

definition flow_rates :: "(TrafficKey, 64 word) fmap \<Rightarrow> (TrafficKey, 64 word) fmap \<Rightarrow> duration \<Rightarrow> (TrafficKey \<times> float64) list" where
  "flow_rates prev cur elapsed =
     List.map_filter (\<lambda>k. let b = fmget 0 cur k; d = (case fmlookup prev k of Some p \<Rightarrow> if b \<ge> p then b - p else b | None \<Rightarrow> b)
        in if d > 0 then Some (k, of_nat (unat d) * 8 / (of_int elapsed / of_int Second) / 1000000) else None)
       (sorted_list_of_set (fmdom' cur))"

definition an_fresh :: "an_env \<Rightarrow> time \<Rightarrow> detected \<Rightarrow> Anomaly" where
  "an_fresh e now f =
     \<lparr>aa_ID = ae_ID e (dt_Key f), aa_Prefix = fst (dt_Key f), aa_Protocol = snd (dt_Key f), aa_Mbps = dt_Mbps f, aa_PeakMbps = max (dt_PeakMbps f) (dt_Mbps f),
      aa_BaselineMbps = dt_BaselineMbps f, aa_Reason = dt_Reason f, aa_Since = (if dt_Since f = 0 then now else dt_Since f), aa_Rule = [], aa_Mitigation = [],
      aa_Action = [], aa_State = NoState, aa_done = False, aa_lastMit = [], aa_lastAction = []\<rparr>"

definition an_found :: "an_env \<Rightarrow> time \<Rightarrow> anController \<Rightarrow> detected \<Rightarrow> anController" where
  "an_found e now c f =
     (if \<not> IsValid (fst (dt_Key f)) then c
      else let (a, c1) = (case fmlookup (av_active c) (dt_Key f) of
                 Some a \<Rightarrow> (a, c)
               | None \<Rightarrow> (let a = an_fresh e now f in (a, an_changeLocked now AnDetected a (DetailReason (dt_Reason f)) (put_anomaly a c))))
           in put_anomaly (a\<lparr>aa_Mbps := dt_Mbps f, aa_PeakMbps := max (max (aa_PeakMbps a) (dt_PeakMbps f)) (dt_Mbps f),
                aa_BaselineMbps := dt_BaselineMbps f, aa_Reason := dt_Reason f\<rparr>) c1)"

definition an_failed :: "'m mitigator \<Rightarrow> time \<Rightarrow> string \<Rightarrow> anController \<times> 'm \<Rightarrow> anController \<times> 'm" where
  "an_failed M now err s =
     (let (c, m) = s; c1 = c\<lparr>av_failures := av_failures c + 1, av_lastErr := err\<rparr> in
      if av_failures c1 \<ge> staleRounds \<and> fmlen (av_active c1) > 0 then
        (let (c2, m1) = foldl (clearLocked M now (FlowUnavailable err)) (c1, m) (sortedLocked c1)
         in (c2\<lparr>av_prev := fmempty, av_prevAt := 0, av_tracked := 0\<rparr>, m1))
      else (c1, m))"

definition an_Round :: "'m mitigator \<Rightarrow> an_env \<Rightarrow> time \<Rightarrow> anController \<times> 'm \<Rightarrow> anController \<times> 'm" where
  "an_Round M e now s =
     (let (c, m) = s; c0 = c\<lparr>av_lastRound := now\<rparr> in
      case ae_FlowCounters e of
        Inl err \<Rightarrow> an_failed M now err (c0, m)
      | Inr counters \<Rightarrow>
          (let cur = flow_sums counters; first = (av_prevAt c0 = 0); elapsed = time_sub now (av_prevAt c0);
               c1 = c0\<lparr>av_failures := 0, av_lastErr := [], av_prev := cur, av_prevAt := now\<rparr>
           in if first \<or> elapsed \<le> 0 then (c1, m)
              else let found = ae_Observe e (flow_rates (av_prev c0) cur elapsed);
                       c2 = foldl (an_found e now) (c1\<lparr>av_tracked := ae_Tracked e\<rparr>) found;
                       open' = map dt_Key (filter (\<lambda>f. IsValid (fst (dt_Key f))) found);
                       s3 = foldl (clearLocked M now BackToBaseline) (c2, m) (filter (\<lambda>k. k \<notin> set open') (sortedLocked c2))
                   in foldl (actLocked M e now) s3 (sortedLocked (fst s3))))"

text \<open>The detector is reset in the round that clears the anomalies for want of data.\<close>

definition an_resets :: "an_env \<Rightarrow> anController \<Rightarrow> bool" where
  "an_resets e c \<longleftrightarrow> isl (ae_FlowCounters e) \<and> av_failures c + 1 \<ge> staleRounds \<and> fmlen (av_active c) > 0"

section \<open>Views\<close>

record anStatus =
  aw_Detector :: string
  aw_Source :: string
  aw_Interval :: duration
  aw_MaxActive :: int
  aw_MaxActionsPerHour :: int
  aw_Tracked :: int
  aw_ActionsLastHour :: int
  aw_Mitigating :: int
  aw_LastRound :: time
  aw_Error :: string
  aw_Rules :: "anRule list"
  aw_Anomalies :: "Anomaly list"
  aw_Feed :: "anChange list"

definition an_Status :: "anController \<Rightarrow> anStatus" where
  "an_Status c =
     \<lparr>aw_Detector = aq_Detector (av_cfg c), aw_Source = aq_Source (av_cfg c), aw_Interval = aq_Interval (av_cfg c), aw_MaxActive = aq_MaxActive (av_cfg c),
      aw_MaxActionsPerHour = aq_MaxActionsPerHour (av_cfg c), aw_Tracked = av_tracked c, aw_ActionsLastHour = int (length (filter (\<lambda>t. t > av_lastRound c - Hour) (av_actions c))), aw_Mitigating = an_held c,
      aw_LastRound = av_lastRound c, aw_Error = av_lastErr c, aw_Rules = aq_Rules (av_cfg c),
      aw_Anomalies = List.map_filter (fmlookup (av_active c)) (sortedLocked c), aw_Feed = rev (av_feed c)\<rparr>"

record AnomalyRecord =
  ax_ID :: string
  ax_Prefix :: prefix
  ax_Protocol :: string
  ax_PeakMbps :: float64
  ax_BaselineMbps :: float64
  ax_Reason :: string
  ax_Rule :: string
  ax_Mitigation :: string
  ax_Action :: string
  ax_Start :: time
  ax_End :: time
  ax_EndReason :: "an_detail option"

definition an_Record :: "anChange \<Rightarrow> AnomalyRecord" where
  "an_Record ch =
     (let a = ag_Anomaly ch; over = (ag_Kind ch = AnCleared) in
      \<lparr>ax_ID = aa_ID a, ax_Prefix = aa_Prefix a, ax_Protocol = (if aa_Protocol a = 0 then ''any'' else Protocol_String (aa_Protocol a)), ax_PeakMbps = aa_PeakMbps a,
       ax_BaselineMbps = aa_BaselineMbps a, ax_Reason = aa_Reason a, ax_Rule = aa_Rule a, ax_Mitigation = aa_lastMit a, ax_Action = aa_lastAction a,
       ax_Start = aa_Since a, ax_End = (if over then ag_Time ch else 0), ax_EndReason = (if over then Some (ag_Detail ch) else None)\<rparr>)"

end
