(* ===== verification/Anomaly_Safe.thy ===== *)
theory Anomaly_Safe
  imports Anomaly Mitigation_Props
begin

text \<open>
  What the anomaly controller does to mitigation: how many rules it holds and adds, which it adds and removes, and that it lets go of
  all of them when the flow data fails.
\<close>

section \<open>The invariant\<close>

definition mitigating :: "anController \<Rightarrow> TrafficKey set" where
  "mitigating c = {k. \<exists>a. fmlookup (av_active c) k = Some a \<and> aa_Mitigation a \<noteq> []}"

fun add_time :: "time \<times> an_call \<Rightarrow> time option" where
  "add_time (t, AnAdd req (Inr r)) = Some t"
| "add_time _ = None"

definition adds :: "(time \<times> an_call) list \<Rightarrow> time list" where
  "adds calls = List.map_filter add_time calls"

definition in_hour :: "time \<Rightarrow> time list \<Rightarrow> nat" where
  "in_hour T ts = length (filter (\<lambda>t. T - Hour < t \<and> t \<le> T) ts)"

definition rate_ok :: "anController \<Rightarrow> bool" where
  "rate_ok c \<longleftrightarrow> (\<exists>cut \<le> av_lastRound c - Hour. av_actions c = filter (\<lambda>t. cut < t) (adds (av_calls c))) \<and>
     (\<forall>t \<in> set (adds (av_calls c)). t \<le> av_lastRound c) \<and> (\<forall>T. int (in_hour T (adds (av_calls c))) \<le> aq_MaxActionsPerHour (av_cfg c))"

definition request_ok :: "anConfig \<Rightarrow> Request \<Rightarrow> bool" where
  "request_ok cfg req \<longleftrightarrow> (\<exists>r \<in> set (aq_Rules cfg). rq_Action req = ay_Action r \<and> rq_Target req = ay_Target r \<and> rq_TTL req = ay_TTL r \<and>
     rq_RateMbps req = ay_RateMbps r \<and> (\<exists>p \<in> set (ay_Prefixes r). Bits p \<le> Bits (rq_Prefix req) \<and> Contains p (Addr (rq_Prefix req)))) \<and>
     rq_NoReplace req \<and> length (rq_Reason req) \<le> 256"

definition owns :: "(time \<times> an_call) list \<Rightarrow> string \<Rightarrow> bool" where
  "owns calls i \<longleftrightarrow> (\<exists>t req r. (t, AnAdd req (Inr r)) \<in> set calls \<and> ru_ID r = i)"

definition calls_ok :: "anConfig \<Rightarrow> (time \<times> an_call) list \<Rightarrow> bool" where
  "calls_ok cfg calls \<longleftrightarrow> (\<forall>t req res. (t, AnAdd req res) \<in> set calls \<longrightarrow> request_ok cfg req) \<and>
     (\<forall>xs ys t i. calls = xs @ (t, AnRemove i) # ys \<longrightarrow> owns xs i)"

definition an_inv :: "anController \<Rightarrow> bool" where
  "an_inv c \<longleftrightarrow> (\<forall>k a. fmlookup (av_active c) k = Some a \<longrightarrow> aa_key a = k \<and> (aa_Mitigation a \<noteq> [] \<longrightarrow> owns (av_calls c) (aa_Mitigation a))) \<and>
     int (card (mitigating c)) \<le> aq_MaxActive (av_cfg c) \<and> rate_ok c \<and> calls_ok (av_cfg c) (av_calls c)"

lemma an_invD: "an_inv c \<Longrightarrow> fmlookup (av_active c) k = Some a \<Longrightarrow> aa_key a = k \<and> (aa_Mitigation a \<noteq> [] \<longrightarrow> owns (av_calls c) (aa_Mitigation a))"
  unfolding an_inv_def by blast

lemma finite_mitigating [simp]: "finite (mitigating c)"
  by (rule finite_subset [of _ "fmdom' (av_active c)"]) (auto simp: mitigating_def fmdom'_iff)

lemma an_held_card: "an_held c = int (card (mitigating c))"
proof -
  have "set (filter (\<lambda>k. case fmlookup (av_active c) k of Some x \<Rightarrow> aa_Mitigation x \<noteq> [] | None \<Rightarrow> False) (sortedLocked c)) = mitigating c"
    by (auto simp: sortedLocked_def mitigating_def fmdom'_iff split: option.splits)
  then show ?thesis unfolding an_held_def by (metis distinct_card distinct_filter distinct_sorted_list_of_set sortedLocked_def)
qed

lemma change_simps [simp]:
  "av_cfg (an_changeLocked now kind a d c) = av_cfg c" "av_active (an_changeLocked now kind a d c) = av_active c"
  "av_actions (an_changeLocked now kind a d c) = av_actions c" "av_calls (an_changeLocked now kind a d c) = av_calls c"
  "av_lastRound (an_changeLocked now kind a d c) = av_lastRound c" "av_rib (an_changeLocked now kind a d c) = av_rib c"
  by (simp_all add: an_changeLocked_def Let_def)

lemma put_simps [simp]:
  "av_cfg (put_anomaly a c) = av_cfg c" "av_active (put_anomaly a c) = fmupd (aa_key a) a (av_active c)"
  "av_actions (put_anomaly a c) = av_actions c" "av_calls (put_anomaly a c) = av_calls c" "av_lastRound (put_anomaly a c) = av_lastRound c"
  by (simp_all add: put_anomaly_def)

lemma called_simps [simp]:
  "av_cfg (an_called t x c) = av_cfg c" "av_active (an_called t x c) = av_active c" "av_actions (an_called t x c) = av_actions c"
  "av_calls (an_called t x c) = av_calls c @ [(t, x)]" "av_lastRound (an_called t x c) = av_lastRound c"
  by (simp_all add: an_called_def)

text \<open>The parts of the controller the invariant speaks of.\<close>

definition an_core where
  "an_core c = (av_cfg c, av_active c, av_actions c, av_calls c, av_lastRound c)"

lemma an_inv_core: "an_core c' = an_core c \<Longrightarrow> an_inv c' = an_inv c"
  by (simp add: an_core_def an_inv_def mitigating_def rate_ok_def)

lemma an_inv_change [simp]: "an_inv (an_changeLocked now kind a d c) = an_inv c"
  by (rule an_inv_core) (simp add: an_core_def)

lemma an_inv_put:
  assumes "an_inv c" "aa_Mitigation a = [] \<or> (\<exists>a0. fmlookup (av_active c) (aa_key a) = Some a0 \<and> aa_Mitigation a0 = aa_Mitigation a)"
  shows "an_inv (put_anomaly a c)"
proof -
  have "mitigating (put_anomaly a c) \<subseteq> mitigating c" using assms(2) by (auto simp: mitigating_def split: if_splits)
  then have "card (mitigating (put_anomaly a c)) \<le> card (mitigating c)" by (intro card_mono) simp_all
  moreover have "rate_ok (put_anomaly a c) = rate_ok c" by (simp add: rate_ok_def)
  moreover have "aa_Mitigation a \<noteq> [] \<longrightarrow> owns (av_calls c) (aa_Mitigation a)" using assms unfolding an_inv_def by metis
  ultimately show ?thesis using assms(1) by (auto simp: an_inv_def)
qed

lemma an_hold_inv:
  assumes "an_inv c" "aa_Mitigation a = []"
  shows "an_inv (an_hold now st a c)"
  using assms an_inv_put by (simp add: an_hold_def Let_def aa_key_def)

lemma calls_ok_snoc:
  assumes "calls_ok cfg calls" "case x of AnAdd req res \<Rightarrow> request_ok cfg req | AnRemove i \<Rightarrow> owns calls i"
  shows "calls_ok cfg (calls @ [(t, x)])"
proof -
  have "owns xs i" if "calls @ [(t, x)] = xs @ (t', AnRemove i) # ys" for xs ys t' i
  proof (cases ys rule: rev_cases)
    case Nil
    then show ?thesis using that assms(2) by simp
  next
    case (snoc zs z)
    then have "calls = xs @ (t', AnRemove i) # zs" using that by simp
    then show ?thesis using assms(1) unfolding calls_ok_def by blast
  qed
  moreover have "request_ok cfg req" if "(t', AnAdd req res) \<in> set (calls @ [(t, x)])" for t' req res
    using that assms by (auto simp: calls_ok_def)
  ultimately show ?thesis unfolding calls_ok_def by blast
qed

lemma filter_length_mono: "(\<And>x. P x \<Longrightarrow> Q x) \<Longrightarrow> length (filter P xs) \<le> length (filter Q xs)"
  by (induction xs) auto

lemma owns_snoc: "owns calls i \<Longrightarrow> owns (calls @ [x]) i"
  by (auto simp: owns_def)

lemma adds_snoc: "adds (calls @ [x]) = adds calls @ (case add_time x of None \<Rightarrow> [] | Some t \<Rightarrow> [t])"
  by (simp add: adds_def List.map_filter_def split: option.splits)

text \<open>Logging a call that adds nothing.\<close>

lemma an_inv_called:
  assumes "an_inv c" "add_time (t, x) = None" "case x of AnAdd req res \<Rightarrow> request_ok (av_cfg c) req | AnRemove i \<Rightarrow> owns (av_calls c) i"
  shows "an_inv (an_called t x c)"
proof -
  have "rate_ok (an_called t x c) = rate_ok c" using assms(2) by (simp add: rate_ok_def adds_snoc)
  moreover have "mitigating (an_called t x c) = mitigating c" by (simp add: mitigating_def)
  moreover have "calls_ok (av_cfg c) (av_calls c @ [(t, x)])" using assms by (intro calls_ok_snoc) (simp_all add: an_inv_def)
  ultimately show ?thesis using assms(1) owns_snoc by (simp add: an_inv_def)
qed

lemma an_inv_prune:
  assumes "an_inv c" "av_lastRound c = now"
  shows "an_inv (c\<lparr>av_actions := filter (\<lambda>t. t > now - Hour) (av_actions c)\<rparr>)"
proof -
  obtain cut where cut: "cut \<le> now - Hour" "av_actions c = filter (\<lambda>t. cut < t) (adds (av_calls c))" using assms by (auto simp: an_inv_def rate_ok_def)
  then have "filter (\<lambda>t. t > now - Hour) (av_actions c) = filter (\<lambda>t. now - Hour < t) (adds (av_calls c))" by (auto intro!: filter_cong)
  then have "rate_ok (c\<lparr>av_actions := filter (\<lambda>t. t > now - Hour) (av_actions c)\<rparr>)" using assms by (auto simp: an_inv_def rate_ok_def)
  then show ?thesis using assms(1) by (simp add: an_inv_def mitigating_def)
qed

text \<open>Adding a rule, within both limits.\<close>

lemma rate_ok_add:
  assumes "rate_ok c" "av_lastRound c = now" "int (length (av_actions c)) < aq_MaxActionsPerHour (av_cfg c)"
  shows "\<exists>cut \<le> now - Hour. av_actions c @ [now] = filter (\<lambda>t. cut < t) (adds (av_calls c) @ [now])"
    and "int (in_hour T (adds (av_calls c) @ [now])) \<le> aq_MaxActionsPerHour (av_cfg c)"
proof -
  obtain cut where cut: "cut \<le> now - Hour" "av_actions c = filter (\<lambda>t. cut < t) (adds (av_calls c))" using assms(1,2) by (auto simp: rate_ok_def)
  have "cut < now" using cut(1) by (simp add: Hour_def Minute_def Second_def)
  then show "\<exists>cut \<le> now - Hour. av_actions c @ [now] = filter (\<lambda>t. cut < t) (adds (av_calls c) @ [now])" using cut by auto
  have old: "int (in_hour T (adds (av_calls c))) \<le> aq_MaxActionsPerHour (av_cfg c)" using assms(1) by (simp add: rate_ok_def)
  show "int (in_hour T (adds (av_calls c) @ [now])) \<le> aq_MaxActionsPerHour (av_cfg c)"
  proof (cases "T - Hour < now \<and> now \<le> T")
    case True
    have "length (filter (\<lambda>t. T - Hour < t \<and> t \<le> T) (adds (av_calls c))) \<le> length (av_actions c)"
      unfolding cut(2) using cut(1) True by (intro filter_length_mono) linarith
    then show ?thesis using assms(3) True by (simp add: in_hour_def)
  qed (use old in \<open>auto simp: in_hour_def\<close>)
qed

lemma an_request_ok: "r \<in> set (aq_Rules cfg) \<Longrightarrow> an_matches r a \<Longrightarrow> request_ok cfg (an_request a r)"
  unfolding request_ok_def by (intro conjI bexI [of _ r]) (auto simp: an_request_def maxReason_def an_matches_def list_ex_iff split: if_splits)

lemma an_inv_added:
  assumes inv: "an_inv c" and now: "av_lastRound c = now" and req: "request_ok (av_cfg c) req"
    and room: "int (card (mitigating c)) < aq_MaxActive (av_cfg c)" "int (length (av_actions c)) < aq_MaxActionsPerHour (av_cfg c)"
    and a: "aa_Mitigation a = ru_ID r"
  shows "an_inv ((put_anomaly a (an_called now (AnAdd req (Inr r)) c))\<lparr>av_actions := av_actions c @ [now]\<rparr>)" (is "an_inv ?c")
proof -
  have "mitigating ?c \<subseteq> insert (aa_key a) (mitigating c)" by (auto simp: mitigating_def split: if_splits)
  then have "card (mitigating ?c) \<le> Suc (card (mitigating c))"
    using card_mono [of "insert (aa_key a) (mitigating c)" "mitigating ?c"] card_insert_if [OF finite_mitigating, of "aa_key a" c] by (auto split: if_splits)
  then have "int (card (mitigating ?c)) \<le> aq_MaxActive (av_cfg c)" using room(1) by linarith
  moreover have "rate_ok ?c"
  proof -
    have ok: "rate_ok c" using inv by (simp add: an_inv_def)
    have ad: "adds (av_calls ?c) = adds (av_calls c) @ [now]" by (simp add: adds_snoc)
    have "\<forall>t \<in> set (adds (av_calls c) @ [now]). t \<le> now" using ok now by (auto simp: rate_ok_def)
    with rate_ok_add [OF ok now room(2)] show ?thesis unfolding rate_ok_def ad using now by simp
  qed
  moreover have "calls_ok (av_cfg c) (av_calls ?c)" using inv req by (auto simp: an_inv_def intro: calls_ok_snoc)
  moreover have "owns (av_calls ?c) (aa_Mitigation a)" using a by (auto simp: owns_def)
  ultimately show ?thesis using inv by (auto simp: an_inv_def intro: owns_snoc)
qed

section \<open>Every operation keeps the invariant\<close>

definition an_at :: "anConfig \<Rightarrow> time \<Rightarrow> anController \<Rightarrow> bool" where
  "an_at cfg now c \<longleftrightarrow> an_inv c \<and> av_cfg c = cfg \<and> av_lastRound c = now"

lemma hold_parts [simp]: "av_cfg (an_hold now st a c) = av_cfg c" "av_lastRound (an_hold now st a c) = av_lastRound c"
  "fmdom' (av_active (an_hold now st a c)) = insert (aa_key a) (fmdom' (av_active c))"
  by (auto simp: an_hold_def Let_def aa_key_def)

lemma an_hold_at: "an_at cfg now c \<Longrightarrow> aa_Mitigation a = [] \<Longrightarrow> an_at cfg now (an_hold t st a c)"
  by (simp add: an_at_def an_hold_inv)

lemma an_add_at:
  assumes "an_at cfg now c" "aa_Mitigation a = []" "r \<in> set (aq_Rules cfg)" "an_matches r a"
    and "int (card (mitigating c)) < aq_MaxActive cfg" "int (length (av_actions c)) < aq_MaxActionsPerHour cfg"
  shows "an_at cfg now (fst (an_add M now a r (c, m)))"
proof -
  obtain m1 res where ad: "mg_Add M (an_request a r) now m = (m1, res)" by force
  have req: "request_ok cfg (an_request a r)" by (rule an_request_ok [OF assms(3,4)])
  show ?thesis
  proof (cases res)
    case (Inl err)
    have "an_at cfg now (an_called now (AnAdd (an_request a r) res) c)"
      using assms(1) req Inl by (auto simp: an_at_def intro!: an_inv_called)
    then show ?thesis using ad Inl assms(2) by (auto simp: an_add_def an_hold_at Let_def)
  next
    case (Inr mr)
    show ?thesis using an_inv_added [of c now "an_request a r" _ mr] assms(1,5,6) req ad Inr
      by (simp add: an_add_def an_at_def Let_def)
  qed
qed

lemma matches_Rule [simp]: "an_matches r (a\<lparr>aa_Rule := x\<rparr>) = an_matches r a"
  by (simp add: an_matches_def)

lemma matchLocked_Some: "matchLocked c a = Some r \<Longrightarrow> r \<in> set (aq_Rules (av_cfg c)) \<and> an_matches r a"
  by (auto simp: matchLocked_def find_Some_iff)

lemma actLocked_at:
  assumes at: "an_at cfg now c"
  shows "an_at cfg now (fst (actLocked M e now (c, m) k))"
proof (cases "fmlookup (av_active c) k")
  case (Some a)
  have key: "aa_key a = k" using at Some unfolding an_at_def an_inv_def by blast
  have put: "an_at cfg now (put_anomaly x c)" if "aa_Mitigation x = []" for x
    using at that by (simp add: an_at_def an_inv_put)
  show ?thesis
  proof (cases "aa_Mitigation a = [] \<and> \<not> aa_done a")
    case True
    show ?thesis
    proof (cases "matchLocked c a")
      case None
      then show ?thesis using Some True put by (simp add: actLocked_def)
    next
      case (Some r)
      define a1 where "a1 = a\<lparr>aa_Rule := ay_Name r\<rparr>"
      define c1 where "c1 = c\<lparr>av_actions := filter (\<lambda>t. t > now - Hour) (av_actions c)\<rparr>"
      have act: "actLocked M e now (c, m) k = (case an_waits e c a1 of Some st \<Rightarrow> (an_hold now st a1 c, m)
          | None \<Rightarrow> if int (length (av_actions c1)) \<ge> aq_MaxActionsPerHour (av_cfg c1)
              then (an_hold now (WaitActions (aq_MaxActionsPerHour (av_cfg c1))) a1 c1, m) else an_add M now a1 r (c1, m))"
        using \<open>fmlookup (av_active c) k = Some a\<close> Some True unfolding actLocked_def Let_def a1_def c1_def by (simp del: filter.simps)
      have c1: "an_at cfg now c1" using at by (simp add: an_at_def c1_def an_inv_prune)
      have mit: "aa_Mitigation a1 = []" using True by (simp add: a1_def)
      have r: "r \<in> set (aq_Rules cfg)" "an_matches r a1" using matchLocked_Some [OF Some] at by (simp_all add: a1_def an_at_def)
      show ?thesis
      proof (cases "an_waits e c a1")
        case None
        have "int (card (mitigating c)) < aq_MaxActive cfg"
          using None at by (simp add: an_waits_def an_held_card an_at_def split: if_splits)
        then have "int (card (mitigating c1)) < aq_MaxActive cfg" by (simp add: c1_def mitigating_def)
        then have "an_at cfg now (fst (an_add M now a1 r (c1, m)))" if "int (length (av_actions c1)) < aq_MaxActionsPerHour cfg"
          by (rule an_add_at [OF c1 mit r _ that])
        moreover have "av_cfg c1 = cfg" using c1 by (simp add: an_at_def)
        ultimately show ?thesis using None an_hold_at [OF c1 mit] unfolding act by simp
      qed (use act at mit in \<open>simp add: an_hold_at\<close>)
    qed
  next
    case False
    then show ?thesis using Some at put by (auto simp: actLocked_def Let_def an_at_def)
  qed
qed (use at in \<open>simp add: actLocked_def\<close>)

lemma an_inv_drop: "an_inv c \<Longrightarrow> an_inv (c\<lparr>av_active := fmdrop k (av_active c)\<rparr>)"
proof -
  let ?c = "c\<lparr>av_active := fmdrop k (av_active c)\<rparr>"
  assume inv: "an_inv c"
  have "mitigating ?c \<subseteq> mitigating c" by (auto simp: mitigating_def)
  then have "card (mitigating ?c) \<le> card (mitigating c)" by (intro card_mono) simp_all
  moreover have "rate_ok ?c = rate_ok c" by (simp add: rate_ok_def)
  ultimately show "an_inv ?c" using inv by (auto simp: an_inv_def)
qed

lemma clearLocked_at:
  assumes at: "an_at cfg now c"
  shows "an_at cfg now (fst (clearLocked M t why (c, m) k))"
proof (cases "fmlookup (av_active c) k")
  case (Some a)
  let ?c = "c\<lparr>av_active := fmdrop k (av_active c)\<rparr>"
  have c1: "an_at cfg now ?c" using at by (simp add: an_at_def an_inv_drop)
  show ?thesis
  proof (cases "aa_Mitigation a = []")
    case False
    have "owns (av_calls ?c) (aa_Mitigation a)" using an_invD [of c k a] at Some False by (simp add: an_at_def)
    then have "an_at cfg now (an_called t (AnRemove (aa_Mitigation a)) ?c)" using c1 by (simp add: an_at_def an_inv_called)
    then show ?thesis using Some False by (simp add: clearLocked_def Let_def an_at_def case_prod_beta)
  qed (use Some c1 in \<open>simp add: clearLocked_def Let_def an_at_def\<close>)
qed (use at in \<open>simp add: clearLocked_def\<close>)

lemma an_found_at:
  assumes at: "an_at cfg now c"
  shows "an_at cfg now (an_found e t c f)"
proof (cases "IsValid (fst (dt_Key f))")
  case True
  define a c1 where "a = (case fmlookup (av_active c) (dt_Key f) of Some a \<Rightarrow> a | None \<Rightarrow> an_fresh e t f)"
    and "c1 = (case fmlookup (av_active c) (dt_Key f) of Some a \<Rightarrow> c
      | None \<Rightarrow> an_changeLocked t AnDetected (an_fresh e t f) (DetailReason (dt_Reason f)) (put_anomaly (an_fresh e t f) c))"
  have eq: "an_found e t c f = put_anomaly (a\<lparr>aa_Mbps := dt_Mbps f, aa_PeakMbps := max (max (aa_PeakMbps a) (dt_PeakMbps f)) (dt_Mbps f),
                aa_BaselineMbps := dt_BaselineMbps f, aa_Reason := dt_Reason f\<rparr>) c1"
    using True by (simp add: an_found_def a_def c1_def Let_def split: option.splits)
  have key: "aa_key (an_fresh e t f) = dt_Key f" "aa_Mitigation (an_fresh e t f) = []" by (simp_all add: an_fresh_def aa_key_def)
  have c1: "an_at cfg now c1" using at key(2) by (simp add: an_at_def c1_def an_inv_put split: option.splits)
  have "aa_key a = dt_Key f" using at key(1) an_invD [of c "dt_Key f"] by (auto simp: a_def an_at_def split: option.splits)
  moreover have "fmlookup (av_active c1) (dt_Key f) = Some a" using key(1) by (simp add: c1_def a_def split: option.splits)
  ultimately show ?thesis using c1 unfolding eq an_at_def by (auto intro!: an_inv_put simp: aa_key_def)
qed (use at in \<open>simp add: an_found_def\<close>)

lemma foldl_at: "(\<And>s x. P s \<Longrightarrow> P (f s x)) \<Longrightarrow> P s \<Longrightarrow> P (foldl f s xs)"
  by (induction xs arbitrary: s) simp_all

lemma clear_all_at: "an_at cfg now (fst s) \<Longrightarrow> an_at cfg now (fst (foldl (clearLocked M t why) s ks))"
  using clearLocked_at by (intro foldl_at [where P = "\<lambda>s. an_at cfg now (fst s)"]) (auto simp: split_paired_all)

lemma act_all_at: "an_at cfg now (fst s) \<Longrightarrow> an_at cfg now (fst (foldl (actLocked M e now) s ks))"
  using actLocked_at by (intro foldl_at [where P = "\<lambda>s. an_at cfg now (fst s)"]) (auto simp: split_paired_all)

lemma an_at_core: "an_core c' = an_core c \<Longrightarrow> an_at cfg now c' = an_at cfg now c"
  using an_inv_core [of c' c] by (auto simp: an_at_def an_core_def)

lemma an_Round_at:
  assumes "an_inv c" "av_lastRound c \<le> now"
  shows "an_at (av_cfg c) now (fst (an_Round M e now (c, m)))"
proof -
  have "rate_ok (c\<lparr>av_lastRound := now\<rparr>)" 
  proof -
    have ok: "rate_ok c" using assms(1) by (simp add: an_inv_def)
    then obtain cut where "cut \<le> av_lastRound c - Hour" "av_actions c = filter (\<lambda>t. cut < t) (adds (av_calls c))" by (auto simp: rate_ok_def)
    then have "\<exists>cut \<le> now - Hour. av_actions c = filter (\<lambda>t. cut < t) (adds (av_calls c))" using assms(2) by (intro exI [of _ cut]) auto
    moreover have "\<forall>t \<in> set (adds (av_calls c)). t \<le> now" using ok assms(2) by (auto simp: rate_ok_def)
    ultimately show ?thesis using ok unfolding rate_ok_def by simp
  qed
  then have c0: "an_at (av_cfg c) now (c\<lparr>av_lastRound := now\<rparr>)" using assms(1) by (simp add: an_at_def an_inv_def mitigating_def)
  have upd: "an_at (av_cfg c) now (x\<lparr>av_failures := a, av_lastErr := b\<rparr>)" "an_at (av_cfg c) now (x\<lparr>av_failures := a, av_lastErr := b, av_prev := p, av_prevAt := t\<rparr>)"
    "an_at (av_cfg c) now (x\<lparr>av_tracked := n\<rparr>)" "an_at (av_cfg c) now (x\<lparr>av_prev := p, av_prevAt := t, av_tracked := n\<rparr>)"
    if "an_at (av_cfg c) now x" for x a b p t n
    by (rule an_at_core [of _ x, THEN iffD2], simp add: an_core_def, rule that)+
  have found: "an_at (av_cfg c) now (foldl (an_found e now) x fs)" if "an_at (av_cfg c) now x" for x fs
    using that an_found_at by (intro foldl_at [where P = "an_at (av_cfg c) now"])
  show ?thesis
  proof (cases "ae_FlowCounters e")
    case (Inl err)
    have "an_at (av_cfg c) now (fst (an_failed M now err (x, m)))" if x: "an_at (av_cfg c) now x" for x
      unfolding an_failed_def Let_def prod.case case_prod_beta
      using x by (auto intro!: upd clear_all_at)
    then show ?thesis using Inl c0 by (simp add: an_Round_def Let_def)
  next
    case (Inr counters)
    show ?thesis
      unfolding an_Round_def Let_def prod.case Inr sum.case
      using c0 by (auto intro!: act_all_at clear_all_at found upd)
  qed
qed

section \<open>Reachable states\<close>

text \<open>Between two rounds the mitigation controller may do anything: its state is free in every round.\<close>

inductive reachable_an :: "'m mitigator \<Rightarrow> anController \<Rightarrow> bool" for M where
  an_start: "an_New cfg src det mit = Inr c \<Longrightarrow> reachable_an M c"
| an_round: "reachable_an M c \<Longrightarrow> av_lastRound c \<le> now \<Longrightarrow> reachable_an M (fst (an_Round M e now (c, m)))"
| an_rib: "reachable_an M c \<Longrightarrow> reachable_an M (an_SetRIB b c)"
| an_drain: "reachable_an M c \<Longrightarrow> reachable_an M (fst (an_Changes c))"

lemma reachable_an_inv: "reachable_an M c \<Longrightarrow> an_inv c"
proof (induction rule: reachable_an.induct)
  case (an_start cfg src det mit c)
  then have "c = \<lparr>av_cfg = cfg, av_rib = False, av_prev = fmempty, av_prevAt = 0, av_active = fmempty, av_actions = [], av_feed = [], av_pending = [],
      av_failures = 0, av_tracked = 0, av_lastRound = 0, av_lastErr = [], av_calls = []\<rparr>" "1 \<le> aq_MaxActive cfg" "1 \<le> aq_MaxActionsPerHour cfg"
    by (auto simp: an_New_def split: if_splits)
  then show ?case by (auto simp: an_inv_def mitigating_def rate_ok_def calls_ok_def adds_def List.map_filter_def in_hour_def)
next
  case (an_round c now e m)
  then show ?case using an_Round_at [of c now M e m] by (simp add: an_at_def)
next
  case (an_rib c b)
  then show ?case using an_inv_core [of "an_SetRIB b c" c] by (simp add: an_core_def an_SetRIB_def)
next
  case (an_drain c)
  then show ?case using an_inv_core [of "fst (an_Changes c)" c] by (simp add: an_core_def an_Changes_def)
qed

section \<open>Letting go\<close>

text \<open>What the anomaly controller relies on: a removed rule is gone, and a removal brings no other back.\<close>

locale mitigator_laws =
  fixes M :: "'m mitigator" and good :: "'m \<Rightarrow> bool"
  assumes remove_gone: "good m \<Longrightarrow> \<not> mg_Has M (fst (mg_Remove M i m)) i"
    and remove_other: "good m \<Longrightarrow> mg_Has M (fst (mg_Remove M i m)) j \<Longrightarrow> mg_Has M m j"
    and remove_good: "good m \<Longrightarrow> good (fst (mg_Remove M i m))"
begin

definition let_go :: "anController \<Rightarrow> 'm \<Rightarrow> TrafficKey set \<Rightarrow> anController \<times> 'm \<Rightarrow> bool" where
  "let_go c m K s \<longleftrightarrow> good (snd s) \<and> (\<forall>k. fmlookup (av_active (fst s)) k = (if k \<in> K then None else fmlookup (av_active c) k)) \<and>
     (\<forall>k \<in> K. \<forall>a. fmlookup (av_active c) k = Some a \<longrightarrow> aa_Mitigation a \<noteq> [] \<longrightarrow> \<not> mg_Has M (snd s) (aa_Mitigation a))"

lemma clear_lets_go:
  assumes "let_go c m K s"
  shows "let_go c m (insert k K) (clearLocked M now why s k)"
proof (cases "fmlookup (av_active (fst s)) k")
  case None
  then have "clearLocked M now why s k = s" by (cases s) (simp add: clearLocked_def)
  moreover have "k \<in> K \<or> fmlookup (av_active c) k = None" using assms None unfolding let_go_def by metis
  ultimately show ?thesis using assms unfolding let_go_def by (auto simp del: split_paired_All)
next
  case (Some a)
  obtain c1 m1 where s: "s = (c1, m1)" by (cases s)
  have a: "fmlookup (av_active c) k = Some a" "good m1" using assms Some unfolding let_go_def s by (metis fst_conv option.distinct(1), simp)
  show ?thesis
  proof (cases "aa_Mitigation a = []")
    case True
    then show ?thesis using assms Some a by (auto simp: let_go_def s clearLocked_def Let_def simp del: split_paired_All)
  next
    case False
    then have "clearLocked M now why s k = (an_changeLocked now AnCleared a (DetailCleared why (if snd (mg_Remove M (aa_Mitigation a) m1) then Some (aa_Mitigation a) else None))
        (an_called now (AnRemove (aa_Mitigation a)) (c1\<lparr>av_active := fmdrop k (av_active c1)\<rparr>)), fst (mg_Remove M (aa_Mitigation a) m1))"
      using Some by (simp add: s clearLocked_def Let_def case_prod_beta)
    then show ?thesis
      using assms a remove_gone [OF a(2)] remove_other [OF a(2)] remove_good [OF a(2)] by (auto simp: let_go_def s simp del: split_paired_All)
  qed
qed

lemma clear_fold_lets_go: "let_go c m K s \<Longrightarrow> let_go c m (K \<union> set ks) (foldl (clearLocked M now why) s ks)"
proof (induction ks arbitrary: K s)
  case (Cons k ks)
  from Cons.IH [OF clear_lets_go [OF Cons.prems]] show ?case by simp
qed simp

lemma failed_lets_go:
  assumes "good m" "staleRounds \<le> av_failures c + 1" "fmlookup (av_active c) k = Some a"
  shows "av_active (fst (an_failed M now err (c, m))) = fmempty \<and>
    (aa_Mitigation a \<noteq> [] \<longrightarrow> \<not> mg_Has M (snd (an_failed M now err (c, m))) (aa_Mitigation a))"
proof -
  let ?c = "c\<lparr>av_failures := av_failures c + 1, av_lastErr := err\<rparr>"
  let ?s = "foldl (clearLocked M now (FlowUnavailable err)) (?c, m) (sortedLocked ?c)"
  have ne: "fmlen (av_active c) > 0" using fmdom'I [OF assms(3)] by (auto simp: fmlen_def card_gt_0_iff)
  have "let_go ?c m {} (?c, m)" using assms(1) by (simp add: let_go_def)
  from clear_fold_lets_go [OF this, of "sortedLocked ?c"] have go: "let_go ?c m (fmdom' (av_active c)) ?s" by (simp add: sortedLocked_def)
  then have "av_active (fst ?s) = fmempty" by (intro fmap_ext) (auto simp: let_go_def fmdom'_iff)
  moreover have "aa_Mitigation a \<noteq> [] \<longrightarrow> \<not> mg_Has M (snd ?s) (aa_Mitigation a)" using go assms(3) fmdom'I [OF assms(3)] by (auto simp: let_go_def simp del: split_paired_All)
  ultimately show ?thesis using ne assms(2) by (simp add: an_failed_def Let_def case_prod_beta)
qed

end

section \<open>The mitigation controller as the mitigator\<close>

text \<open>The operations the source calls, on the controller and its surroundings; \<open>newID\<close> gives the random identifiers and \<open>t\<close> is the clock of \<open>Remove\<close>.\<close>

definition mit_side :: "(Request \<Rightarrow> time \<Rightarrow> mitController \<Rightarrow> string) \<Rightarrow> time \<Rightarrow> (mitController \<times> mit_env) mitigator" where
  "mit_side newID t =
     \<lparr>mg_Add = (\<lambda>req now (c, e). let (c1, res) = Add (newID req now c) req now c in ((c1, e), res)),
      mg_Remove = (\<lambda>i (c, e). let (c1, ok) = Remove e t i c in ((c1, e), ok)),
      mg_Has = (\<lambda>(c, e). mit_Has c)\<rparr>"

text \<open>Rules have identifiers of their own, and ranging over the map visits every key.\<close>

definition ids_apart :: "mitController \<times> mit_env \<Rightarrow> bool" where
  "ids_apart s \<longleftrightarrow> (\<forall>ks. set (me_keys (snd s) ks) = set ks) \<and>
     (\<forall>k k' r r'. fmlookup (m_rules (fst s)) k = Some r \<longrightarrow> fmlookup (m_rules (fst s)) k' = Some r' \<longrightarrow> ru_ID r = ru_ID r' \<longrightarrow> k = k')"

lemma mit_Has_iff: "mit_Has c i \<longleftrightarrow> (\<exists>k r. fmlookup (m_rules c) k = Some r \<and> ru_ID r = i)"
proof
  assume "mit_Has c i"
  then show "\<exists>k r. fmlookup (m_rules c) k = Some r \<and> ru_ID r = i" by (auto simp: mit_Has_def list_ex_iff split: option.splits)
next
  assume "\<exists>k r. fmlookup (m_rules c) k = Some r \<and> ru_ID r = i"
  then obtain k r where "fmlookup (m_rules c) k = Some r" "ru_ID r = i" by blast
  then show "mit_Has c i" unfolding mit_Has_def list_ex_iff by (intro bexI [of _ k]) (simp_all add: sortedKeys_def fmdom'_iff)
qed

lemma drop_rule_rules: "m_rules (drop_rule now kind d c k) = fmdrop k (m_rules c)"
  by (auto simp: drop_rule_def split: option.splits intro!: fmap_ext)

lemma Remove_rules:
  assumes "ids_apart (c, e)"
  shows "fmlookup (m_rules (fst (Remove e t i c))) k = (case fmlookup (m_rules c) k of Some r \<Rightarrow> if ru_ID r = i then None else Some r | None \<Rightarrow> None)"
proof -
  let ?P = "\<lambda>k. case fmlookup (m_rules c) k of None \<Rightarrow> False | Some r \<Rightarrow> ru_ID r = i"
  have keys: "set (me_keys e (sortedKeys (m_rules c))) = fmdom' (m_rules c)" using assms by (simp add: ids_apart_def sortedKeys_def)
  show ?thesis
  proof (cases "find ?P (me_keys e (sortedKeys (m_rules c)))")
    case None
    then have "\<not> ?P k" if "k \<in> fmdom' (m_rules c)" using that keys by (auto simp: find_None_iff)
    then show ?thesis using None by (auto simp: Remove_def fmdom'_iff split: option.splits)
  next
    case (Some k0)
    then have "?P k0" by (auto simp: find_Some_iff)
    then obtain r0 where r0: "fmlookup (m_rules c) k0 = Some r0" "ru_ID r0 = i" by (auto split: option.splits)
    have same: "k = k0" if "fmlookup (m_rules c) k = Some r" "ru_ID r = i" for r using assms r0 that unfolding ids_apart_def fst_conv by blast
    have drop: "m_rules (fst (Remove e t i c)) = fmdrop k0 (m_rules c)" using Some by (simp add: Remove_def drop_rule_rules)
    show ?thesis
    proof (cases "k = k0")
      case False
      then show ?thesis using same unfolding drop by (cases "fmlookup (m_rules c) k") auto
    qed (simp add: drop r0)
  qed
qed

interpretation side: mitigator_laws "mit_side newID t" ids_apart for newID t
proof
  fix m i j assume good: "ids_apart m"
  obtain c e where m: "m = (c, e)" by (cases m)
  have rem: "fst (mg_Remove (mit_side newID t) i m) = (fst (Remove e t i c), e)" by (simp add: mit_side_def m case_prod_beta)
  note rules = Remove_rules [of c e t i] and good' = good [unfolded m]
  show "\<not> mg_Has (mit_side newID t) (fst (mg_Remove (mit_side newID t) i m)) i"
    unfolding rem by (auto simp: mit_side_def mit_Has_iff rules [OF good'] split: option.splits if_splits)
  show "mg_Has (mit_side newID t) m j" if "mg_Has (mit_side newID t) (fst (mg_Remove (mit_side newID t) i m)) j"
    using that unfolding rem by (auto simp: m mit_side_def mit_Has_iff rules [OF good'] split: option.splits if_splits)
  show "ids_apart (fst (mg_Remove (mit_side newID t) i m))"
    using good' unfolding rem by (auto simp: ids_apart_def rules [OF good'] split: option.splits if_splits)
qed

section \<open>Properties\<close>

text \<open>
  C38: the limits of automatic mitigation hold. In every reachable state, whatever the mitigation controller did between the
  rounds, at most \<open>max_active\<close> anomalies have a rule of theirs, and no window of an hour holds more than
  \<open>max_actions_per_hour\<close> of the rules the controller ever added. The rounds come in the order of time.
\<close>
theorem anomaly_limits:
  assumes "reachable_an M c"
  shows "int (card {k. \<exists>a. fmlookup (av_active c) k = Some a \<and> aa_Mitigation a \<noteq> []}) \<le> aq_MaxActive (av_cfg c) \<and>
    int (length (filter (\<lambda>t. T - Hour < t \<and> t \<le> T) (adds (av_calls c)))) \<le> aq_MaxActionsPerHour (av_cfg c)"
  using reachable_an_inv [OF assms] by (simp add: an_inv_def mitigating_def rate_ok_def in_hour_def)

text \<open>
  C39: automatic mitigation does what its rules say and touches nothing else. Every rule it ever asked for has the action, the target,
  the time and the rate of a configured rule with a prefix that covers the one of the anomaly, does not replace a rule that is there,
  and has a reason of at most 256 bytes; and it only ever removed a rule that it had added before.
\<close>
theorem anomaly_acts_by_rule:
  assumes "reachable_an M c"
  shows "((t, AnAdd req res) \<in> set (av_calls c) \<longrightarrow>
      (\<exists>r \<in> set (aq_Rules (av_cfg c)). rq_Action req = ay_Action r \<and> rq_Target req = ay_Target r \<and> rq_TTL req = ay_TTL r \<and>
         rq_RateMbps req = ay_RateMbps r \<and> (\<exists>p \<in> set (ay_Prefixes r). Bits p \<le> Bits (rq_Prefix req) \<and> Contains p (Addr (rq_Prefix req)))) \<and>
      rq_NoReplace req \<and> length (rq_Reason req) \<le> 256) \<and>
    (av_calls c = before @ (t', AnRemove i) # after \<longrightarrow> (\<exists>t'' req' r. (t'', AnAdd req' (Inr r)) \<in> set before \<and> ru_ID r = i))"
proof -
  have ok: "calls_ok (av_cfg c) (av_calls c)" using reachable_an_inv [OF assms] by (simp add: an_inv_def)
  have "request_ok (av_cfg c) req" if "(t, AnAdd req res) \<in> set (av_calls c)" using ok that unfolding calls_ok_def by blast
  moreover have "owns before i" if "av_calls c = before @ (t', AnRemove i) # after" using ok that unfolding calls_ok_def by blast
  ultimately show ?thesis unfolding request_ok_def owns_def by blast
qed

text \<open>
  C40: without flow data no rule stays. The round in which reading the flow counters fails for the third time in a row ends every
  anomaly, and the mitigation controller then has no rule that one of them had, provided its rules have identifiers of their own.
\<close>
theorem flow_failure_lets_go:
  assumes "ae_FlowCounters e = Inl err" "2 \<le> av_failures c" "ids_apart (mc, me)" "fmlookup (av_active c) k = Some a"
    and "an_Round (mit_side newID t) e now (c, (mc, me)) = (c', (mc', me'))"
  shows "av_active c' = fmempty \<and> (aa_Mitigation a \<noteq> [] \<longrightarrow> \<not> mit_Has mc' (aa_Mitigation a))"
proof -
  have "an_failed (mit_side newID t) now err (c\<lparr>av_lastRound := now\<rparr>, (mc, me)) = (c', (mc', me'))" using assms(1,5) by (simp add: an_Round_def Let_def)
  then show ?thesis using side.failed_lets_go [OF assms(3), of "c\<lparr>av_lastRound := now\<rparr>" k a newID t now err] assms(2,4)
    by (simp add: staleRounds_def) (simp add: mit_side_def)
qed

section \<open>An example\<close>

definition exAnCfg :: anConfig where
  "exAnCfg = \<lparr>aq_Interval = 60 * Second, aq_MaxActionsPerHour = 5, aq_MaxActive = 2,
     aq_Rules = [\<lparr>ay_Name = ''drop'', ay_Prefixes = [Pfx (V4 0x0A000000) 8], ay_Protocols = [], ay_MinMbps = 10, ay_Action = MitigationBlackhole,
       ay_Target = [], ay_RateMbps = 0, ay_TTL = 0\<rparr>], aq_Detector = ''ewma'', aq_Source = ''flow''\<rparr>"

definition exAnEnv :: an_env where
  "exAnEnv = \<lparr>ae_FlowCounters = Inr [], ae_Observe = (\<lambda>_. [\<lparr>dt_Key = (exMitP, 0), dt_Mbps = 50, dt_PeakMbps = 60, dt_BaselineMbps = 1, dt_Reason = ''spike'', dt_Since = 0\<rparr>]),
     ae_Tracked = 1, ae_Leader = True, ae_Ready = True, ae_Contains = (\<lambda>_. True), ae_ID = (\<lambda>_. ''a1'')\<rparr>"

definition exAnBad :: an_env where "exAnBad = exAnEnv\<lparr>ae_FlowCounters := Inl ''down''\<rparr>"

definition exSide :: "(mitController \<times> mit_env) mitigator" where "exSide = mit_side (\<lambda>_ _ _. ''m1'') 0"

definition exAn0 :: anController where
  "exAn0 = (case an_New exAnCfg True True True of Inr c \<Rightarrow> an_SetRIB True c | Inl _ \<Rightarrow> undefined)"

definition exAn1 where "exAn1 = an_Round exSide exAnEnv 1000 (exAn0, (fst (SetRIB True exMit0), exMitEnv))"

definition exAn2 where "exAn2 = an_Round exSide exAnEnv 2000 exAn1"

definition exAn3 where "exAn3 = an_Round exSide exAnBad 3000 exAn2"

definition exAn4 where "exAn4 = an_Round exSide exAnBad 4000 exAn3"

definition exAn5 where "exAn5 = an_Round exSide exAnBad 5000 exAn4"

lemma ex_an_reachable: "reachable_an exSide (fst exAn2)" "reachable_an exSide (fst exAn5)"
proof -
  have new: "\<exists>c. an_New exAnCfg True True True = Inr c" by (simp add: an_New_def exAnCfg_def Second_def)
  then have 0: "reachable_an exSide exAn0" using an_rib [OF an_start] by (auto simp: exAn0_def)
  have step: "reachable_an exSide (fst (an_Round exSide e now s))" if "reachable_an exSide (fst s)" "av_lastRound (fst s) \<le> now" for e now s
    using an_round [of exSide "fst s" now e "snd s"] that by simp
  have t: "av_lastRound exAn0 \<le> 1000" "av_lastRound (fst exAn1) \<le> 2000" "av_lastRound (fst exAn2) \<le> 3000" "av_lastRound (fst exAn3) \<le> 4000"
    "av_lastRound (fst exAn4) \<le> 5000" by code_simp+
  have 1: "reachable_an exSide (fst exAn1)" unfolding exAn1_def using 0 t(1) by (intro step) simp_all
  show 2: "reachable_an exSide (fst exAn2)" unfolding exAn2_def by (rule step [OF 1 t(2)])
  have 3: "reachable_an exSide (fst exAn3)" unfolding exAn3_def by (rule step [OF 2 t(3)])
  have 4: "reachable_an exSide (fst exAn4)" unfolding exAn4_def by (rule step [OF 3 t(4)])
  show "reachable_an exSide (fst exAn5)" unfolding exAn5_def by (rule step [OF 4 t(5)])
qed

theorem anomaly_limits_witness:
  "adds (av_calls (fst exAn2)) = [2000] \<and> int (card {k. \<exists>a. fmlookup (av_active (fst exAn2)) k = Some a \<and> aa_Mitigation a \<noteq> []}) \<le> 2 \<and>
   int (length (filter (\<lambda>t. 2000 - Hour < t \<and> t \<le> 2000) (adds (av_calls (fst exAn2))))) \<le> 5"
proof -
  have cfg: "aq_MaxActive (av_cfg (fst exAn2)) = 2" "aq_MaxActionsPerHour (av_cfg (fst exAn2)) = 5" by code_simp+
  have "adds (av_calls (fst exAn2)) = [2000]" by code_simp
  then show ?thesis using anomaly_limits [OF ex_an_reachable(1), of 2000] unfolding cfg by blast
qed

theorem anomaly_acts_by_rule_witness:
  "\<exists>t req res. (t, AnAdd req res) \<in> set (av_calls (fst exAn5)) \<and> rq_Action req = MitigationBlackhole \<and> rq_NoReplace req"
proof -
  have "list_ex (\<lambda>(t, x). case x of AnAdd req res \<Rightarrow> True | _ \<Rightarrow> False) (av_calls (fst exAn5))" by code_simp
  then obtain t req res where a: "(t, AnAdd req res) \<in> set (av_calls (fst exAn5))" by (auto simp: list_ex_iff split: an_call.splits)
  have "list_all (\<lambda>r. ay_Action r = MitigationBlackhole) (aq_Rules (av_cfg (fst exAn5)))" by code_simp
  then show ?thesis
    using anomaly_acts_by_rule [OF ex_an_reachable(2), of t req res, THEN conjunct1] a unfolding list_all_iff by (intro exI [of _ t] exI [of _ req] exI [of _ res]) auto
qed

lemma ex_an_state: "map_option aa_Mitigation (fmlookup (av_active (fst exAn4)) (exMitP, 0)) = Some ''m1''"
  "mit_Has (fst (snd exAn4)) ''m1''" "av_failures (fst exAn4) = 2"
  by code_simp+

lemma ex_an_apart: "ids_apart (fst (snd exAn4), exMitEnv)"
proof -
  have "sortedKeys (m_rules (fst (snd exAn4))) = [unicastKey exMitP]" by code_simp
  then have "set (sortedKeys (m_rules (fst (snd exAn4)))) = {unicastKey exMitP}" by simp
  then have "fmdom' (m_rules (fst (snd exAn4))) = {unicastKey exMitP}" by (simp add: sortedKeys_def)
  then have "k = unicastKey exMitP" if "fmlookup (m_rules (fst (snd exAn4))) k = Some r" for k r using fmdom'I [OF that] by simp
  then show ?thesis unfolding ids_apart_def fst_conv snd_conv by (auto simp: exMitEnv_def)
qed

definition exAnEnd where "exAnEnd = an_Round exSide exAnBad 5000 (fst exAn4, (fst (snd exAn4), exMitEnv))"

theorem flow_failure_lets_go_witness: "mit_Has (fst (snd exAn4)) ''m1'' \<and> \<not> mit_Has (fst (snd exAnEnd)) ''m1'' \<and> av_active (fst exAnEnd) = fmempty"
proof -
  obtain a where a: "fmlookup (av_active (fst exAn4)) (exMitP, 0) = Some a" "aa_Mitigation a = ''m1''" using ex_an_state(1) by auto
  have bad: "ae_FlowCounters exAnBad = Inl ''down''" by (simp add: exAnBad_def)
  have run: "an_Round (mit_side (\<lambda>_ _ _. ''m1'') 0) exAnBad 5000 (fst exAn4, fst (snd exAn4), exMitEnv) = (fst exAnEnd, fst (snd exAnEnd), snd (snd exAnEnd))"
    by (simp add: exAnEnd_def exSide_def)
  from flow_failure_lets_go [OF bad _ ex_an_apart a(1) run] a(2) ex_an_state(2,3) show ?thesis by simp
qed

end
