(* ===== verification/Spec2Isabelle.thy ===== *)
theory Spec2Isabelle
  imports Engine Cost_Scorer Commit_Plan Rpki Leakwatch_Safe Anomaly_Safe
begin

text \<open>
  Packeteer: the steering engine, the components it rests on, and the controllers that put its routes on the wire.

  Packeteer measures every provider of a network with probes, and steers prefixes away from their
  native BGP path by announcing routes. One evaluation is \<open>policy.Decide\<close> (src/internal/policy): a pure
  function from the previous state, the input of the round (probe results, RIB view, policies, RPKI
  and IRR answers, telemetry), the configuration, the scorer and the time to the next state and an
  output with the decisions and the change log. The development models that function completely, and
  the data structures, scorers and caches its answers depend on. Four controllers act on the network: \<open>announce\<close>
  makes the wire follow the improvements, \<open>inbound\<close> steers the traffic that comes in, \<open>mitigation\<close> blackholes and filters on
  request, and \<open>leakwatch\<close> takes back what escaped; \<open>anomaly\<close> asks mitigation for rules by itself. They are modelled
  completely too, and so is what holds of them together.

  The theories, the code they model, and what their lemmas show:

  \<^item> \<open>Prelude\<close>: times and durations (nanoseconds; \<open>time_sub\<close> saturates as \<open>time.Time.Sub\<close> does, \<open>wrap64\<close> is
    the wrap-around of 64-bit arithmetic), finite maps with a default, sorting by a comparison, fold
    invariants.
  \<^item> \<open>Netpfx\<close>: \<open>netip\<close> addresses and prefixes as the sources use them, and src/internal/netpfx. Prefixes are
    a linear order; a covering prefix contains every address of the prefix it covers.
  \<^item> \<open>Rpki\<close>: the payload cache, the ordered set of sources and the timers of src/internal/rpki. The cache
    refines a set of payloads and answers RFC 6811; the set falls back in order and fails open.
  \<^item> \<open>Plugin\<close>: the contracts of src/pkg/plugin (scorers, planners, percentiles, policy verdicts). A scorer
    is a record of functions, with an option for every optional interface the source tests for with a
    type assertion.
  \<^item> \<open>Probe\<close>: statistics and confidence of a measurement (src/internal/probe/stats.go, confidence.go).
  \<^item> \<open>Policy_Types\<close>: the structs of src/internal/policy/policy.go.
  \<^item> \<open>Select\<close>, \<open>Confirm\<close>, \<open>Flap\<close>, \<open>Subrange\<close>: select.go and med.go, confirm.go, flap.go, subrange.go and
    synthesize.go.
  \<^item> \<open>Ports\<close>: the exchange port ledger of src/internal/plugins/scorer/ports and src/internal/portload.
  \<^item> \<open>Round\<close>: the state of an evaluation in progress (the variables of \<open>Decide\<close>), the capacity gate, the
    cap, cost annotation and weights (overload.go, cap.go, cost.go, weights.go).
  \<^item> \<open>Commit\<close>: \<open>integrateCommit\<close> and \<open>buildPlan\<close> (commit.go).
  \<^item> \<open>Decide\<close>: decide.go, one definition per branch of the loop over the prefixes and per phase.
  \<^item> \<open>Steering\<close>: the abstract machine. Its state is the table of improvements, the parked and cooling
    prefixes and the change log; its steps are withdraw, switch, start, park and cool, with the guards a
    safe steering engine has to respect. The locale \<open>steer_invariant\<close> lifts an invariant of the steps to
    runs; it is interpreted for the well-formedness of the table, the separation of improvements and
    quarantine, the replay of the log, the guards of the moves and the safety of the targets.
  \<^item> \<open>Refine\<close>, \<open>Correct\<close>, \<open>Phases\<close>: every branch, the loop, and every later phase of \<open>Decide\<close> is a run of the
    abstract machine.
  \<^item> \<open>Decide_Spec\<close>: the properties of \<open>Decide\<close>, read off the abstract machine.
  \<^item> \<open>Engine\<close>: engine.go, the engine that keeps the state between evaluations. Its operations, taken in any
    order, keep the invariant of the state, and a backed out prefix stays off until its time.
  \<^item> \<open>Weights\<close>, \<open>Cost_Scorer\<close>, \<open>Commit_Scorer\<close>: the scorers of src/internal/plugins/scorer (weighted and weights,
    cost, commit): factories, scores and planners. \<open>Commit_Plan\<close> holds the properties of the commit planner:
    sound moves, limits of the providers and the ports, the end of its two loops.
  \<^item> \<open>Community\<close>: the community texts of src/internal/config/validate.go, parser and printer.
  \<^item> \<open>Announce\<close>: the controller of src/internal/announce/announce.go, which makes the wire follow the improvements.
    \<open>Announce_Run\<close> is the abstract machine of the wire (announce, refresh, withdraw, clear and their failures) and
    shows that every operation is one of its runs; the locale \<open>wire_invariant\<close> lifts an invariant of its steps to
    runs. \<open>Announce_Spec\<close> interprets it for the counters, the wire, the caps and the rails of an announcement, and
    \<open>Announce_Sync\<close> has the properties: the table is the wire, a synchronisation is safe, complete, idempotent,
    within its caps, and fails closed.
  \<^item> \<open>Inbound\<close>: the controller of src/internal/inbound/inbound.go (triggers, performance gaps, damping, planning,
    synchronisation, reload). \<open>Inbound_Spec\<close> is the abstract machine of its routes, with the locale \<open>in_invariant\<close>; \<open>Inbound_Safe\<close>
    shows that a provider is always left, that steers rest on evidence, that the table is the wire, and that a
    synchronisation is safe and complete.
  \<^item> \<open>Nettext\<close>, \<open>FlowSpec\<close>: the texts of addresses and prefixes, and of src/pkg/plugin/mitigation.go the catalogs, matches and the
    key of a FlowSpec route, which is the same for two routes exactly when they match the same.
  \<^item> \<open>Geoip\<close>: src/internal/geoip/geoip.go. The networks of a country cover exactly its addresses, through the aggregation.
  \<^item> \<open>Mitigation\<close>: the controller of src/internal/mitigation/mitigation.go. \<open>Mitigation_Run\<close> has the invariant of the rules,
    \<open>Mitigation_Wire\<close> the plan of a synchronisation, \<open>Mitigation_Machine\<close> the step relation, with one step per critical section
    and per call of the announcer, and its invariant, \<open>Mitigation_Safe\<close> the calls, \<open>Mitigation_Sync\<close> the result of a whole
    synchronisation, and \<open>Mitigation_Props\<close> the properties.
  \<^item> \<open>System\<close>: the three announcing controllers side by side, with the questions they ask each other as src/cmd/controller wires
    them. No prefix ever carries the routes of two of them.
  \<^item> \<open>Leakwatch\<close>, \<open>Leakwatch_Safe\<close>: src/internal/leakwatch/leakwatch.go beside the outbound controller. A hold begins on evidence, and
    a held prefix stays off the wire although an announcement may be under way.
  \<^item> \<open>Anomaly\<close>, \<open>Anomaly_Safe\<close>: src/internal/anomaly/anomaly.go. The limits of automatic mitigation, what it asks for and removes, and
    that it lets go of every rule when the flow data fails. The mitigation controller is an interface there, the
    locale \<open>mitigator_laws\<close>, interpreted on the operations of \<open>Mitigation\<close>.
  \<^item> This theory ends with the composition: the wire follows the decision engine.
  \<^item> \<open>Sample\<close>, \<open>Example\<close>: a small concrete round, evaluated by the witnesses.

  Conventions. A Go map is a finite map where it is iterated or updated and a partial function where it
  is only read. \<open>float64\<close> is an exact rational: rounding, NaN and infinities are not modelled (the one
  infinity of the source, in \<open>steerGain\<close>, is \<open>None\<close>). Reason texts that are only printed are values of a
  datatype with one constructor per message. \<open>sort.Slice\<close> is a stable insertion sort; where the order is
  not total the source's result is one of several and the theorems hold for the stable one (\<open>sort.SliceStable\<close> of
  more than twenty elements merges sorted blocks, which gives the same for a total order). A conversion of a float to a
  duration does not overflow. An operation under a lock is one step; mitigation and the leak watch, which release theirs
  around the calls of an operation, are modelled at their critical sections. What the surroundings answer (the RIB view, the
  announcer, the clock, the holds of the other controllers) is an argument of the operation, fixed during it.
  The order in which Go ranges over a map is an argument wherever it can be seen in the result. The log of the
  announcer's calls is kept by the model for the properties; the source does not have it.

  Termination. Every loop is a fold over a finite list or a structural recursion, but for the loop
  that frees a slot under the cap, \<open>cap_loop\<close>, which terminates because every turn removes an
  improvement, and the two loops of the commit planner, which the source bounds by ten thousand turns
  (\<open>maxPlanIterations\<close>, the only fuel): they end by themselves after at most as many turns as there are prefixes
  and providers.

  Two findings have lemmas of their own: the provider the commit planner relieves first depends on the order of a map
  (\<open>heaviestOver_order_dependent\<close>), and a MED steer does not keep its sibling links unsteered (\<open>MED_siblings_all_steered\<close>).

  Not modelled: explain.go (texts for the API, which change no decision); the RIB view and the BGP sessions (tables over
  the BGP library, read only through the questions that are arguments here); the probe engine, the flow collectors, RTR
  and TWAMP (sockets and schedules; what they deliver is an input); the configuration reader and editor, the HTTP
  interface, history, exporters and notifiers (presentation and I/O); and the wiring of the commands, but for which
  controller asks which.
\<close>

section \<open>From a decision to the wire\<close>

text \<open>The wanted set of the improvements of an engine is its table, when the prefixes are masked.\<close>

lemma want_of_distinct:
  assumes "distinct (map (\<lambda>im. Masked (imp_Prefix im)) imps)"
  shows "fmlookup (want_of imps) p = Some im \<longleftrightarrow> im \<in> set imps \<and> Masked (imp_Prefix im) = p"
proof -
  have "distinct (map (\<lambda>im. Masked (imp_Prefix im)) xs) \<Longrightarrow> (\<forall>im \<in> set xs. fmlookup m (Masked (imp_Prefix im)) = None) \<Longrightarrow>
      fmlookup (foldl (\<lambda>m im. fmupd (Masked (imp_Prefix im)) im m) m xs) p = Some im \<longleftrightarrow>
      fmlookup m p = Some im \<or> im \<in> set xs \<and> Masked (imp_Prefix im) = p" for m xs
  proof (induction xs arbitrary: m)
    case (Cons x xs)
    have "\<forall>im \<in> set xs. fmlookup (fmupd (Masked (imp_Prefix x)) x m) (Masked (imp_Prefix im)) = None"
      using Cons.prems by (auto simp: image_iff)
    with Cons.IH [of "fmupd (Masked (imp_Prefix x)) x m"] Cons.prems show ?case by auto
  qed simp
  from this [of imps fmempty] assms show ?thesis by (simp add: want_of_def)
qed

lemma want_of_Improvements:
  assumes "reachable scorer eng" and "\<forall>q \<in> fmdom' (s_Improvements (e_state eng)). Masked q = q"
  shows "fmlookup (want_of (Improvements eng)) p = fmlookup (s_Improvements (e_state eng)) p"
proof -
  let ?m = "s_Improvements (e_state eng)"
  have key: "imp_Prefix im = q" if "fmlookup ?m q = Some im" for q im
    using that reachable_state_ok [OF assms(1)] by (auto simp: state_ok_def)
  have imps: "im \<in> set (Improvements eng) \<longleftrightarrow> fmlookup ?m (imp_Prefix im) = Some im" for im
  proof
    assume "im \<in> set (Improvements eng)"
    then obtain q where "q \<in> fmdom' ?m" "im = fmget zeroImprovement ?m q" by (auto simp: Improvements_def)
    then have "fmlookup ?m q = Some im" by (auto simp: fmdom'_iff fmget_Some)
    then show "fmlookup ?m (imp_Prefix im) = Some im" using key by metis
  next
    assume a: "fmlookup ?m (imp_Prefix im) = Some im"
    then have "imp_Prefix im \<in> fmdom' ?m" "im = fmget zeroImprovement ?m (imp_Prefix im)" by (auto simp: fmdom'_iff fmget_Some)
    then show "im \<in> set (Improvements eng)" unfolding Improvements_def by auto
  qed
  have pre: "map (\<lambda>im. Masked (imp_Prefix im)) (Improvements eng) = SortedKeys ?m"
    unfolding Improvements_def map_map
    using assms(2) key by (intro map_idI) (auto simp: fmdom'_iff fmget_Some)
  have mk: "Masked (imp_Prefix im) = imp_Prefix im" if "fmlookup ?m (imp_Prefix im) = Some im" for im
    using that assms(2) by (auto simp: fmdom'_iff)
  have eq: "fmlookup (want_of (Improvements eng)) p = Some im \<longleftrightarrow> fmlookup ?m p = Some im" for im
  proof -
    have "distinct (map (\<lambda>im. Masked (imp_Prefix im)) (Improvements eng))" by (simp add: pre)
    then have "fmlookup (want_of (Improvements eng)) p = Some im \<longleftrightarrow> fmlookup ?m (imp_Prefix im) = Some im \<and> Masked (imp_Prefix im) = p"
      by (simp only: want_of_distinct imps)
    then show ?thesis using mk [of im] key [of p im] by metis
  qed
  show ?thesis
  proof (cases "fmlookup ?m p")
    case None
    then show ?thesis using eq by (cases "fmlookup (want_of (Improvements eng)) p") auto
  next
    case (Some im)
    then show ?thesis using eq by simp
  qed
qed

text \<open>
  C9: the wire follows the decision engine. When the controller synchronises with the improvements of an
  engine, whose prefixes are masked, and returns no error: in inject mode, with the lease and a session of the RIB up,
  the route on the wire for a prefix steers it to the provider of the engine's improvement, and a prefix the engine
  does not steer, or the leak watch holds, has none; in observe mode, on standby or without the RIB no prefix is steered.
\<close>

theorem engine_reaches_wire:
  assumes "reachable scorer eng" and "reachable_ctl c" and "orders e"
    and "\<forall>q \<in> fmdom' (s_Improvements (e_state eng)). Masked q = q"
    and "Sync e (Improvements eng) c = (c', [])" and "Masked p = p"
  shows "OnWireProvider c' p =
    (if an_Mode (c_cfg c) = ModeInject \<and> ev_Leader e \<and> ev_Ready e \<and> \<not> ev_Held e p
     then map_option imp_Provider (fmlookup (s_Improvements (e_state eng)) p) else None)"
proof (cases "an_Mode (c_cfg c) = ModeInject \<and> ev_Leader e \<and> ev_Ready e")
  case True
  have "case fmlookup (want_of (Improvements eng)) p of
      None \<Rightarrow> imp_view c' p = None
    | Some im \<Rightarrow> if ev_Held e p then imp_view c' p = None else \<exists>s. imp_view c' p = Some s \<and> carries (c_cfg c) im s"
    using Sync_views [OF reachable_active_ok [OF assms(2)] assms(3) _ _ _ assms(5)] True by blast
  then show ?thesis
    using want_of_Improvements [OF assms(1,4), of p] assms(6) True
    by (auto simp: OnWireProvider_def imp_view_def carries_def split: option.splits if_splits)
next
  case False
  then show ?thesis using Sync_off [OF assms(2) _ assms(5)] by (auto simp: OnWireProvider_def)
qed

definition exEngine :: Engine where
  "exEngine = apply_op (NewEngine exCfg exScorer) (OpEvaluate exInput exNow)"

theorem engine_reaches_wire_witness:
  "OnWireProvider (fst (Sync exAnnEnv (Improvements exEngine) exAnn)) exP = Some ''b''"
proof -
  have st: "s_Improvements (e_state exEngine) = fmupd exP exImp fmempty"
    using ex_improvements by (simp add: exEngine_def exRound_def NewEngine_def)
  have imps: "Improvements exEngine = [exImp]" by (simp add: Improvements_def st SortedKeys_def)
  have ok: "Sync exAnnEnv (Improvements exEngine) exAnn = (fst (Sync exAnnEnv (Improvements exEngine) exAnn), [])"
    unfolding imps by (rule prod_eqI) (simp, code_simp)
  have p: "Masked exP = exP" using ex_Masked by (simp add: exP_def exAnnP_def)
  have reach: "reachable exScorer exEngine"
    unfolding exEngine_def by (rule reachable_op [OF reachable_new])
  have conf: "an_Mode (c_cfg exAnn) = ModeInject" "ev_Leader exAnnEnv" "ev_Ready exAnnEnv"
    by (simp_all add: exAnn_def exAnnCfg_def exAnnEnv_def)
  have masked: "\<forall>q \<in> fmdom' (s_Improvements (e_state exEngine)). Masked q = q"
    by (simp add: st p)
  have "OnWireProvider (fst (Sync exAnnEnv (Improvements exEngine) exAnn)) exP =
      (if an_Mode (c_cfg exAnn) = ModeInject \<and> ev_Leader exAnnEnv \<and> ev_Ready exAnnEnv \<and> \<not> ev_Held exAnnEnv exP
       then map_option imp_Provider (fmlookup (s_Improvements (e_state exEngine)) exP) else None)"
    by (rule engine_reaches_wire [OF reach ex_reachable(1) ex_orders masked ok p])
  then show ?thesis using conf by (simp add: st exAnnEnv_def exImp_def mkImprovement_def)
qed

end
